(* ===== verification/Prelude.thy ===== *)
theory Prelude
  imports Complex_Main "HOL-Library.AList" "HOL-Library.List_Lexorder" "HOL-Library.Char_ord"
begin

text \<open>
  What every component of the backend's model shares: Python's dictionaries, the clock
  readings, and the way an operation that may raise is chained.

  A Python \<open>dict\<close> keeps its keys in insertion order, and overwriting a key keeps the
  key's place.  That is exactly what \<open>AList.update\<close> does on an association list, so a
  dictionary is an association list with distinct keys, and the invariant
  \<open>dict_ok\<close> says so.  \<open>dict_len\<close> is Python's \<open>len\<close>.

  Python's floats are read as exact real numbers: no rounding is modelled.  NaN and the
  infinities appear only where the code tests for them (theory \<open>PyValues\<close>).
\<close>

named_theorems dict_simps "how lookups see the updates of a dictionary"
named_theorems dict_okI "operations that keep the keys of a dictionary distinct"

subsection \<open>Dictionaries\<close>

type_synonym ('k, 'v) dict = "('k \<times> 'v) list"

definition dict_ok :: "('k, 'v) dict \<Rightarrow> bool" where
  "dict_ok d \<longleftrightarrow> distinct (map fst d)"

definition dict_get :: "('k, 'v) dict \<Rightarrow> 'k \<Rightarrow> 'v option" where
  "dict_get d k = map_of d k"

definition dict_get_default :: "('k, 'v) dict \<Rightarrow> 'k \<Rightarrow> 'v \<Rightarrow> 'v" where
  "dict_get_default d k v = (case map_of d k of None \<Rightarrow> v | Some w \<Rightarrow> w)"

definition dict_has :: "('k, 'v) dict \<Rightarrow> 'k \<Rightarrow> bool" where
  "dict_has d k \<longleftrightarrow> map_of d k \<noteq> None"

definition dict_set :: "('k, 'v) dict \<Rightarrow> 'k \<Rightarrow> 'v \<Rightarrow> ('k, 'v) dict" where
  "dict_set d k v = AList.update k v d"

definition dict_del :: "('k, 'v) dict \<Rightarrow> 'k \<Rightarrow> ('k, 'v) dict" where
  "dict_del d k = AList.delete k d"

definition dict_filter :: "('k \<Rightarrow> 'v \<Rightarrow> bool) \<Rightarrow> ('k, 'v) dict \<Rightarrow> ('k, 'v) dict" where
  "dict_filter p d = filter (\<lambda>kv. p (fst kv) (snd kv)) d"

definition dict_keys :: "('k, 'v) dict \<Rightarrow> 'k list" where
  "dict_keys d = map fst d"

definition dict_len :: "('k, 'v) dict \<Rightarrow> int" where
  "dict_len d = int (length d)"

lemma dict_get_empty [simp, dict_simps]: "dict_get [] k = None"
  by (simp add: dict_get_def)

lemma dict_get_set [simp, dict_simps]:
  "dict_get (dict_set d k v) x = (if x = k then Some v else dict_get d x)"
  by (simp add: dict_get_def dict_set_def update_conv)

lemma dict_get_del [simp, dict_simps]:
  "dict_get (dict_del d k) x = (if x = k then None else dict_get d x)"
  by (simp add: dict_get_def dict_del_def delete_conv)

lemma dict_get_default_get [dict_simps]:
  "dict_get_default d k v = (case dict_get d k of None \<Rightarrow> v | Some w \<Rightarrow> w)"
  by (simp add: dict_get_default_def dict_get_def)

lemma dict_has_get [dict_simps]: "dict_has d k \<longleftrightarrow> dict_get d k \<noteq> None"
  by (simp add: dict_has_def dict_get_def)

lemma dict_ok_Nil [simp, dict_okI]: "dict_ok []"
  by (simp add: dict_ok_def)

lemma dict_ok_set [simp, dict_okI]: "dict_ok d \<Longrightarrow> dict_ok (dict_set d k v)"
  by (simp add: dict_ok_def dict_set_def distinct_update)

lemma dict_ok_del [simp, dict_okI]: "dict_ok d \<Longrightarrow> dict_ok (dict_del d k)"
  by (simp add: dict_ok_def dict_del_def distinct_delete)

lemma dict_ok_filter [simp, dict_okI]: "dict_ok d \<Longrightarrow> dict_ok (dict_filter p d)"
  by (simp add: dict_ok_def dict_filter_def distinct_map_filter)

lemma dict_get_filter [dict_simps]:
  "dict_ok d \<Longrightarrow> dict_get (dict_filter p d) k =
     (case dict_get d k of None \<Rightarrow> None | Some v \<Rightarrow> if p k v then Some v else None)"
proof (induction d)
  case Nil
  then show ?case by (simp add: dict_filter_def)
next
  case (Cons kv d)
  obtain k' v' where kv: "kv = (k', v')" by (cases kv)
  from Cons.prems kv have fresh: "k' \<notin> fst ` set d" and ok: "dict_ok d"
    by (simp_all add: dict_ok_def)
  from fresh have none: "map_of d k' = None"
    by (simp add: map_of_eq_None_iff)
  show ?case
  proof (cases "k = k'")
    case True
    from fresh have "map_of (filter (\<lambda>kv. p (fst kv) (snd kv)) d) k' = None"
      by (auto simp: map_of_eq_None_iff)
    with True kv none show ?thesis
      by (simp add: dict_get_def dict_filter_def)
  next
    case False
    with Cons.IH [OF ok] kv show ?thesis
      by (simp add: dict_get_def dict_filter_def)
  qed
qed

lemma dict_has_keys: "dict_has d k \<longleftrightarrow> k \<in> set (dict_keys d)"
  by (simp add: dict_has_def dict_keys_def map_of_eq_None_iff)

lemma dict_get_mem: "dict_get d k = Some v \<Longrightarrow> (k, v) \<in> set d"
  by (simp add: dict_get_def map_of_SomeD)

lemma dict_mem_get: "dict_ok d \<Longrightarrow> (k, v) \<in> set d \<Longrightarrow> dict_get d k = Some v"
  by (simp add: dict_get_def dict_ok_def map_of_is_SomeI)

lemma dict_keys_set: "set (dict_keys (dict_set d k v)) = insert k (set (dict_keys d))"
  by (auto simp: dict_keys_def dict_set_def update_keys)

lemma dict_keys_filter: "set (dict_keys (dict_filter p d)) \<subseteq> set (dict_keys d)"
  by (auto simp: dict_keys_def dict_filter_def)

lemma dict_len_keys: "dict_ok d \<Longrightarrow> dict_len d = int (card (set (dict_keys d)))"
  by (simp add: dict_ok_def dict_len_def dict_keys_def distinct_card del: set_map)

lemma dict_len_set:
  "dict_len (dict_set d k v) = (if dict_has d k then dict_len d else dict_len d + 1)"
  by (induction d) (auto simp: dict_len_def dict_set_def dict_has_def)

lemma dict_len_set_le: "dict_len (dict_set d k v) \<le> dict_len d + 1"
  by (simp add: dict_len_set)

lemma dict_len_filter_le: "dict_len (dict_filter p d) \<le> dict_len d"
  by (simp add: dict_len_def dict_filter_def)

lemma dict_filter_id:
  "(\<And>k v. (k, v) \<in> set d \<Longrightarrow> p k v) \<Longrightarrow> dict_filter p d = d"
  by (auto simp: dict_filter_def filter_id_conv)

subsection \<open>The mapping contract\<close>

text \<open>
  What the components rely on when they keep rows under keys: a lookup sees the last
  write, a deletion hides a key, nothing else moves.  The dictionaries above provide it.
\<close>

locale keyed_store =
  fixes get :: "'s \<Rightarrow> 'k \<Rightarrow> 'v option"
    and put :: "'s \<Rightarrow> 'k \<Rightarrow> 'v \<Rightarrow> 's"
    and drop :: "'s \<Rightarrow> 'k \<Rightarrow> 's"
    and ok :: "'s \<Rightarrow> bool"
  assumes get_put: "get (put s k v) x = (if x = k then Some v else get s x)"
    and get_drop: "get (drop s k) x = (if x = k then None else get s x)"
    and ok_put: "ok s \<Longrightarrow> ok (put s k v)"
    and ok_drop: "ok s \<Longrightarrow> ok (drop s k)"
begin

lemma put_other: "x \<noteq> k \<Longrightarrow> get (put s k v) x = get s x"
  by (simp add: get_put)

lemma drop_other: "x \<noteq> k \<Longrightarrow> get (drop s k) x = get s x"
  by (simp add: get_drop)

lemma put_put_get: "get (put (put s k v) k w) = get (put s k w)"
  by (auto simp: get_put)

lemma drop_put_get: "get s k = None \<Longrightarrow> get (drop (put s k v) k) = get s"
  by (auto simp: get_put get_drop)

text \<open>Writes over a list of keys, as a loop over a dictionary's items does.\<close>

lemma get_fold_put:
  "get (fold (\<lambda>k s. put s k (f k)) ks s) x = (if x \<in> set ks then Some (f x) else get s x)"
  by (induction ks arbitrary: s) (auto simp: get_put)

lemma ok_fold_put: "ok s \<Longrightarrow> ok (fold (\<lambda>k s. put s k (f k)) ks s)"
  by (induction ks arbitrary: s) (auto simp: ok_put)

lemma get_fold_drop:
  "get (fold (\<lambda>k s. drop s k) ks s) x = (if x \<in> set ks then None else get s x)"
  by (induction ks arbitrary: s) (auto simp: get_drop)

end

interpretation pydict: keyed_store dict_get dict_set dict_del dict_ok
  by unfold_locales simp_all

subsection \<open>Chaining operations that may raise\<close>

text \<open>A result is \<open>Inl e\<close> when the code raises \<open>e\<close>, and \<open>Inr\<close> its value otherwise.\<close>

definition bind_result :: "('e + 'a) \<Rightarrow> ('a \<Rightarrow> 'e + 'b) \<Rightarrow> 'e + 'b" where
  "bind_result r f = (case r of Inl e \<Rightarrow> Inl e | Inr x \<Rightarrow> f x)"

lemma bind_result_simps [simp]:
  "bind_result (Inl e) f = Inl e"
  "bind_result (Inr x) f = f x"
  by (simp_all add: bind_result_def)

lemma bind_result_eq_Inr:
  "bind_result r f = Inr y \<longleftrightarrow> (\<exists>x. r = Inr x \<and> f x = Inr y)"
  by (cases r) simp_all

lemma bind_result_eq_Inl:
  "bind_result r f = Inl e \<longleftrightarrow> r = Inl e \<or> (\<exists>x. r = Inr x \<and> f x = Inl e)"
  by (cases r) simp_all

subsection \<open>Runs of a step function\<close>

text \<open>
  A component driven from outside is a step function over requests; a run threads the
  state and collects the answers in order.
\<close>

fun run :: "('s \<Rightarrow> 'i \<Rightarrow> 's \<times> 'o) \<Rightarrow> 's \<Rightarrow> 'i list \<Rightarrow> 's \<times> 'o list" where
  "run f s [] = (s, [])"
| "run f s (i # is) = (let (s', out) = f s i; (s'', outs) = run f s' is in (s'', out # outs))"

lemma run_append:
  "run f s (xs @ ys) =
     (let (s1, o1) = run f s xs; (s2, o2) = run f s1 ys in (s2, o1 @ o2))"
  by (induction xs arbitrary: s) (simp_all add: split_def Let_def)

lemma run_length: "length (snd (run f s xs)) = length xs"
  by (induction xs arbitrary: s) (simp_all add: split_def Let_def)

lemma run_invariant:
  assumes "P s" and "\<And>s i. P s \<Longrightarrow> P (fst (f s i))"
  shows "P (fst (run f s xs))"
  using assms(1) by (induction xs arbitrary: s) (simp_all add: split_def Let_def assms(2))

end
