(* ===== verification/PyValues.thy ===== *)
theory PyValues
  imports Prelude
begin

text \<open>
  The values Python's \<open>json\<close> module hands the validators, and the string methods they use.
  A character is a code point below 256, so the string predicates are Python's on that
  range.  A float is a real number, an infinity or NaN; rounding is not modelled, except
  for the one effect the code tests for, that a number too large for a double is infinite
  as a literal and an \<open>OverflowError\<close> as an \<open>int\<close>.
\<close>

subsection \<open>Numbers\<close>

datatype py_float = Fin real | PosInf | NegInf | NaN

fun py_less :: "py_float \<Rightarrow> py_float \<Rightarrow> bool" where
  "py_less NaN _ = False"
| "py_less _ NaN = False"
| "py_less (Fin x) (Fin y) = (x < y)"
| "py_less (Fin _) y = (y = PosInf)"
| "py_less PosInf _ = False"
| "py_less NegInf y = (y \<noteq> NegInf)"

fun py_le :: "py_float \<Rightarrow> py_float \<Rightarrow> bool" where
  "py_le NaN _ = False"
| "py_le _ NaN = False"
| "py_le (Fin x) (Fin y) = (x \<le> y)"
| "py_le (Fin _) y = (y = PosInf)"
| "py_le PosInf y = (y = PosInf)"
| "py_le NegInf _ = True"

fun is_finite :: "py_float \<Rightarrow> bool" where
  "is_finite (Fin _) = True"
| "is_finite _ = False"

text \<open>The least magnitude that rounds to no finite double.\<close>

definition float_overflow :: int where
  "float_overflow = 2 ^ 1024 - 2 ^ 970"

definition float_of_int :: "int \<Rightarrow> py_float option" where
  "float_of_int n = (if \<bar>n\<bar> < float_overflow then Some (Fin (of_int n)) else None)"

definition float_of_real :: "real \<Rightarrow> py_float" where
  "float_of_real x =
     (if \<bar>x\<bar> < of_int float_overflow then Fin x else if x < 0 then NegInf else PosInf)"

subsection \<open>JSON\<close>

datatype json =
    JNull
  | JBool bool
  | JInt int
  | JFloat py_float
  | JStr string
  | JArr "json list"
  | JObj "(string \<times> json) list"

text \<open>\<open>d.get(k)\<close>: a missing key reads as \<open>None\<close>.\<close>

definition py_get :: "(string, json) dict \<Rightarrow> string \<Rightarrow> json" where
  "py_get d k = (case dict_get d k of None \<Rightarrow> JNull | Some v \<Rightarrow> v)"

subsection \<open>Strings\<close>

definition code :: "char \<Rightarrow> nat" where
  "code c = of_char c"

definition is_space :: "char \<Rightarrow> bool" where
  "is_space c \<longleftrightarrow> (let n = code c in
     9 \<le> n \<and> n \<le> 13 \<or> 28 \<le> n \<and> n \<le> 32 \<or> n = 133 \<or> n = 160)"

definition is_digit :: "char \<Rightarrow> bool" where
  "is_digit c \<longleftrightarrow> 48 \<le> code c \<and> code c \<le> 57"

definition is_upper_ascii :: "char \<Rightarrow> bool" where
  "is_upper_ascii c \<longleftrightarrow> 65 \<le> code c \<and> code c \<le> 90"

definition is_lower_ascii :: "char \<Rightarrow> bool" where
  "is_lower_ascii c \<longleftrightarrow> 97 \<le> code c \<and> code c \<le> 122"

definition is_ascii :: "char \<Rightarrow> bool" where
  "is_ascii c \<longleftrightarrow> code c < 128"

text \<open>\<open>str.lower\<close> and, on ASCII, \<open>str.upper\<close>.  Code points 192 to 222 are the capitals of the
  upper half, with the multiplication sign 215 among them left alone.\<close>

definition lower_char :: "char \<Rightarrow> char" where
  "lower_char c = (let n = code c in
     if 65 \<le> n \<and> n \<le> 90 \<or> 192 \<le> n \<and> n \<le> 222 \<and> n \<noteq> 215 then char_of (n + 32) else c)"

definition upper_ascii_char :: "char \<Rightarrow> char" where
  "upper_ascii_char c = (if is_lower_ascii c then char_of (code c - 32) else c)"

definition lower :: "string \<Rightarrow> string" where
  "lower s = map lower_char s"

definition strip :: "string \<Rightarrow> string" where
  "strip s = rev (dropWhile is_space (rev (dropWhile is_space s)))"

text \<open>\<open>s.partition(c)\<close>: what is before the first \<open>c\<close>, whether there is one, and what follows.\<close>

definition partition_at :: "char \<Rightarrow> string \<Rightarrow> string \<times> bool \<times> string" where
  "partition_at c s = (let (l, r) = (takeWhile (\<lambda>x. x \<noteq> c) s, dropWhile (\<lambda>x. x \<noteq> c) s)
     in case r of [] \<Rightarrow> (l, False, []) | _ # t \<Rightarrow> (l, True, t))"

fun split_on :: "char \<Rightarrow> string \<Rightarrow> string list" where
  "split_on c [] = [[]]"
| "split_on c (x # xs) =
     (if x = c then [] # split_on c xs
      else (case split_on c xs of [] \<Rightarrow> [[x]] | w # ws \<Rightarrow> (x # w) # ws))"

subsection \<open>\<open>float(s)\<close> for a string\<close>

text \<open>
  Surrounding whitespace goes, an underscore is taken out between two digits and refused
  anywhere else, and what is left is a sign, then \<open>inf\<close>, \<open>infinity\<close> or \<open>nan\<close> in any case, or
  digits with at most one point and an optional exponent.
\<close>

fun underscores_ok :: "char option \<Rightarrow> string \<Rightarrow> bool" where
  "underscores_ok prev [] = (prev \<noteq> Some CHR ''_'')"
| "underscores_ok prev (c # cs) =
     ((if c = CHR ''_'' then (case prev of None \<Rightarrow> False | Some p \<Rightarrow> is_digit p)
       else prev = Some CHR ''_'' \<longrightarrow> is_digit c) \<and> underscores_ok (Some c) cs)"

definition nat_of_digits :: "string \<Rightarrow> nat" where
  "nat_of_digits ds = foldl (\<lambda>n c. 10 * n + (code c - 48)) 0 ds"

definition read_sign :: "string \<Rightarrow> int \<times> string" where
  "read_sign s = (case s of
       c # cs \<Rightarrow> if c = CHR ''-'' then (-1, cs) else if c = CHR ''+'' then (1, cs) else (1, s)
     | [] \<Rightarrow> (1, []))"

definition read_exponent :: "string \<Rightarrow> int option" where
  "read_exponent s = (case s of
       [] \<Rightarrow> Some 0
     | c # cs \<Rightarrow>
         if c = CHR ''e'' \<or> c = CHR ''E'' then
           (let (sg, ds) = read_sign cs
            in if ds \<noteq> [] \<and> list_all is_digit ds then Some (sg * int (nat_of_digits ds)) else None)
         else None)"

definition read_decimal :: "string \<Rightarrow> real option" where
  "read_decimal s =
     (let whole = takeWhile is_digit s; rest = dropWhile is_digit s;
          (frac, rest) = (case rest of
             c # cs \<Rightarrow> if c = CHR ''.'' then (takeWhile is_digit cs, dropWhile is_digit cs) else ([], rest)
           | [] \<Rightarrow> ([], []))
      in if whole = [] \<and> frac = [] then None
         else map_option (\<lambda>e. real (nat_of_digits (whole @ frac)) * 10 powi (e - int (length frac)))
                (read_exponent rest))"

definition parse_float :: "string \<Rightarrow> py_float option" where
  "parse_float s0 =
     (let s = strip s0
      in if \<not> underscores_ok None s then None
         else
           (let (sg, body) = read_sign (filter (\<lambda>c. c \<noteq> CHR ''_'') s); word = lower body
            in if word = ''nan'' then Some NaN
               else if word = ''inf'' \<or> word = ''infinity'' then Some (if sg < 0 then NegInf else PosInf)
               else map_option (\<lambda>x. float_of_real (of_int sg * x)) (read_decimal body)))"

lemma parse_float_examples:
  "parse_float '' -12.5 '' = Some (Fin (- 25 / 2))"
  "parse_float ''1_0'' = Some (Fin 10)"
  "parse_float ''1__0'' = None"
  "parse_float ''Infinity'' = Some PosInf"
  "parse_float ''north'' = None"
  by (simp_all add: parse_float_def strip_def is_space_def code_def underscores_ok.simps is_digit_def
      read_sign_def read_decimal_def read_exponent_def nat_of_digits_def float_of_real_def float_overflow_def
      lower_def lower_char_def power_int_def char_of_def bit_Suc_0_iff)

end
