(* ===== verification/RateLimits.thy ===== *)
theory RateLimits
  imports Prelude
begin

text \<open>
  The fixed-window rate limits of \<open>services/node_rate_limits.py\<close> and the refusals they
  answer with (\<open>services/node_refusals.py\<close>).  The state of a limiter is the state of its
  \<open>_FixedWindowCounters\<close>; the clock is an argument.  The lock makes each call atomic, so
  a call is one step.  The warnings are not modelled, but the throttle that decides
  them (\<open>next_overflow_log\<close>) is.
\<close>

named_theorems limit_simps "unfolding one limiter call"

subsection \<open>Refusals\<close>

datatype refusal_body = REFUSAL_BODY | RATE_LIMITED_BODY

record refusal =
  status_code :: int
  body :: refusal_body
  retry_after_s :: int

definition RETRY_AFTER_BASE_S :: int where "RETRY_AFTER_BASE_S = 300"
definition RETRY_AFTER_JITTER_S :: int where "RETRY_AFTER_JITTER_S = 60"

text \<open>\<open>draw\<close> is what \<open>secrets.randbelow(2 * RETRY_AFTER_JITTER_S)\<close> returned.\<close>

definition refusal_retry_after :: "int \<Rightarrow> int" where
  "refusal_retry_after draw = RETRY_AFTER_BASE_S + draw - RETRY_AFTER_JITTER_S"

subsection \<open>The counters\<close>

definition OVERFLOW_LOG_INTERVAL_S :: real where "OVERFLOW_LOG_INTERVAL_S = 60"
definition RECLAIM_INTERVAL_S :: real where "RECLAIM_INTERVAL_S = 1"

text \<open>A counter is the end of its window and the requests admitted in it.\<close>

type_synonym counter = "real \<times> int"

record 'k fixed_windows =
  max_tracked :: int
  refuse_when_full :: bool
  counters :: "('k, counter) dict"
  next_overflow_log :: real
  next_reclaim :: real

text \<open>A spec is a key, the requests admitted per window, and the window in seconds.\<close>

type_synonym 'k spec = "'k \<times> int \<times> int"

definition new_counters :: "int \<Rightarrow> bool \<Rightarrow> 'k fixed_windows" where
  "new_counters bound full = \<lparr>max_tracked = bound, refuse_when_full = full, counters = [],
     next_overflow_log = 0, next_reclaim = 0\<rparr>"

definition reset :: "'k fixed_windows \<Rightarrow> 'k fixed_windows" where
  "reset c = c\<lparr>counters := [], next_overflow_log := 0, next_reclaim := 0\<rparr>"

definition tracked_counters :: "'k fixed_windows \<Rightarrow> int" where
  "tracked_counters c = dict_len (counters c)"

definition live_at :: "real \<Rightarrow> 'k \<Rightarrow> counter \<Rightarrow> bool" where
  "live_at now k e \<longleftrightarrow> \<not> fst e \<le> now"

definition reclaim_if_crowded :: "real \<Rightarrow> 'k fixed_windows \<Rightarrow> 'k fixed_windows" where
  "reclaim_if_crowded now c =
     (if dict_len (counters c) < max_tracked c then c
      else if now < next_reclaim c then c
      else
        (let c' = c\<lparr>next_reclaim := now + RECLAIM_INTERVAL_S,
                    counters := dict_filter (live_at now) (counters c)\<rparr>
         in if dict_len (counters c') \<ge> max_tracked c' \<and> now \<ge> next_overflow_log c'
            then c'\<lparr>next_overflow_log := now + OVERFLOW_LOG_INTERVAL_S\<rparr>
            else c'))"

text \<open>The first spec without room, as the wait until its window closes.\<close>

fun first_wait :: "real \<Rightarrow> ('k, counter) dict \<Rightarrow> 'k spec list \<Rightarrow> real option" where
  "first_wait now d [] = None"
| "first_wait now d ((k, limit, window_s) # specs) =
     (let (window_end, count) = dict_get_default d k (0, 0)
      in if window_end > now \<and> count \<ge> limit then Some (window_end - now)
         else first_wait now d specs)"

definition window_end_after :: "real \<Rightarrow> int \<Rightarrow> real" where
  "window_end_after now window_s = of_int ((\<lfloor>now / of_int window_s\<rfloor> + 1) * window_s)"

fun spend :: "real \<Rightarrow> 'k spec list \<Rightarrow> ('k, counter) dict \<Rightarrow> ('k, counter) dict" where
  "spend now [] d = d"
| "spend now ((k, limit, window_s) # specs) d =
     (let (window_end, count) = dict_get_default d k (0, 0);
          (window_end, count) =
            (if window_end \<le> now then (window_end_after now window_s, 0) else (window_end, count))
      in spend now specs (dict_set d k (window_end, count + 1)))"

definition unknown_caller :: "'k fixed_windows \<Rightarrow> 'k spec list \<Rightarrow> bool" where
  "unknown_caller c specs \<longleftrightarrow> list_all (\<lambda>sp. \<not> dict_has (counters c) (fst sp)) specs"

text \<open>\<open>None\<close> admits the request; \<open>Some w\<close> refuses it with a wait of \<open>w\<close> seconds.\<close>

definition admit :: "real \<Rightarrow> 'k spec list \<Rightarrow> 'k fixed_windows \<Rightarrow> 'k fixed_windows \<times> real option" where
  "admit now specs c0 =
     (let c = reclaim_if_crowded now c0
      in if refuse_when_full c \<and> dict_len (counters c) \<ge> max_tracked c \<and> unknown_caller c specs
         then (c, Some RECLAIM_INTERVAL_S)
         else (case first_wait now (counters c) specs of
                 Some w \<Rightarrow> (c, Some w)
               | None \<Rightarrow> (c\<lparr>counters := spend now specs (counters c)\<rparr>, None)))"

subsection \<open>The four limiters\<close>

text \<open>What stands beside the identity in a key: an endpoint, an index, or a tagged index.\<close>

datatype key_tag = Endpoint string | Index nat | Tagged string nat

type_synonym key = "string \<times> key_tag"
type_synonym limiter = "key fixed_windows"

definition MAX_TRACKED_KEYS :: int where "MAX_TRACKED_KEYS = 512"
definition MAX_REGISTRATION_KEYS :: int where "MAX_REGISTRATION_KEYS = 50000"
definition MAX_CLAIM_KEYS :: int where "MAX_CLAIM_KEYS = 10000"
definition MAX_POLLED_PROBE_KEYS :: int where "MAX_POLLED_PROBE_KEYS = 10000"

definition ENDPOINT_LIMITS :: "(string, int \<times> int) dict" where
  "ENDPOINT_LIMITS = [(''detection'', (8, 1)), (''heartbeat'', (30, 60)), (''config'', (30, 60))]"

definition CLAIM_LIMITS :: "(int \<times> int) list" where
  "CLAIM_LIMITS = [(5, 3600), (20, 86400)]"
definition REGISTRATION_LIMITS :: "(int \<times> int) list" where
  "REGISTRATION_LIMITS = [(5, 3600), (20, 86400)]"
definition POLLED_PROBE_LIMITS :: "(int \<times> int) list" where
  "POLLED_PROBE_LIMITS = [(10, 3600)]"

definition specs_of :: "string \<Rightarrow> (nat \<Rightarrow> key_tag) \<Rightarrow> (int \<times> int) list \<Rightarrow> key spec list" where
  "specs_of who tag limits =
     map (\<lambda>(i, limit, window_s). ((who, tag i), limit, window_s)) (enumerate 0 limits)"

definition registration_specs :: "string \<Rightarrow> key spec list" where
  "registration_specs node_id = specs_of node_id Index REGISTRATION_LIMITS"

definition claim_specs :: "string \<Rightarrow> string \<Rightarrow> key spec list" where
  "claim_specs node_id email =
     specs_of node_id (Tagged ''claim'') CLAIM_LIMITS @
     specs_of email (Tagged ''claim_address'') CLAIM_LIMITS"

definition probe_specs :: "string \<Rightarrow> key spec list" where
  "probe_specs user_id = specs_of user_id (Tagged ''polled_probe'') POLLED_PROBE_LIMITS"

text \<open>A wait rendered as a 429: \<open>max(1, math.ceil(wait_s))\<close> seconds.\<close>

definition rate_limited :: "real \<Rightarrow> refusal" where
  "rate_limited wait_s =
     \<lparr>status_code = 429, body = RATE_LIMITED_BODY, retry_after_s = max 1 \<lceil>wait_s\<rceil>\<rparr>"

datatype limit_error = ValueError string

definition token_admit ::
    "real \<Rightarrow> string \<Rightarrow> string \<Rightarrow> limiter \<Rightarrow> limit_error + (limiter \<times> refusal option)" where
  "token_admit now node_id endpoint c =
     (case dict_get ENDPOINT_LIMITS endpoint of
        None \<Rightarrow> Inl (ValueError endpoint)
      | Some (limit, window_s) \<Rightarrow>
          (let (c', wait_s) = admit now [((node_id, Endpoint endpoint), limit, window_s)] c
           in Inr (c', map_option rate_limited wait_s)))"

definition claim_admit :: "real \<Rightarrow> string \<Rightarrow> string \<Rightarrow> limiter \<Rightarrow> limiter \<times> refusal option" where
  "claim_admit now node_id email c =
     (let (c', wait_s) = admit now (claim_specs node_id email) c
      in (c', map_option rate_limited wait_s))"

definition registration_admit :: "int \<Rightarrow> real \<Rightarrow> string \<Rightarrow> limiter \<Rightarrow> limiter \<times> refusal option" where
  "registration_admit draw now node_id c =
     (let (c', wait_s) = admit now (registration_specs node_id) c
      in (c', map_option (\<lambda>_. \<lparr>status_code = 403, body = REFUSAL_BODY,
                               retry_after_s = refusal_retry_after draw\<rparr>) wait_s))"

definition probe_admit :: "real \<Rightarrow> string \<Rightarrow> limiter \<Rightarrow> limiter \<times> refusal option" where
  "probe_admit now user_id c =
     (let (c', wait_s) = admit now (probe_specs user_id) c
      in (c', map_option rate_limited wait_s))"

subsection \<open>Windows\<close>

lemma window_end_after_gt: "0 < w \<Longrightarrow> now < window_end_after now w"
proof -
  assume w: "0 < w"
  have "now / of_int w < of_int (\<lfloor>now / of_int w\<rfloor> + 1)" by linarith
  with w have "now < of_int (\<lfloor>now / of_int w\<rfloor> + 1) * of_int w"
    by (simp only: pos_divide_less_eq of_int_0_less_iff)
  then show ?thesis by (simp add: window_end_after_def)
qed

lemma window_end_after_le: "0 < w \<Longrightarrow> window_end_after now w \<le> now + of_int w"
proof -
  assume w: "0 < w"
  have "of_int \<lfloor>now / of_int w\<rfloor> \<le> now / of_int w" by linarith
  with w have "of_int \<lfloor>now / of_int w\<rfloor> * of_int w \<le> now"
    by (simp only: pos_le_divide_eq of_int_0_less_iff)
  then show ?thesis by (simp add: window_end_after_def algebra_simps)
qed

lemma window_end_after_mono: "0 < w \<Longrightarrow> t \<le> t' \<Longrightarrow> window_end_after t w \<le> window_end_after t' w"
  by (auto simp: window_end_after_def intro!: mult_right_mono floor_mono divide_right_mono)

lemma window_end_after_aligned_le:
  assumes w: "0 < w" and gt: "now < of_int (j * w)"
  shows "window_end_after now w \<le> of_int (j * w)"
proof -
  have "now / of_int w < of_int j" using gt w by (simp add: pos_divide_less_eq)
  then have "\<lfloor>now / of_int w\<rfloor> + 1 \<le> j" by linarith
  then have "(\<lfloor>now / of_int w\<rfloor> + 1) * w \<le> j * w" using w by (simp add: mult_right_mono)
  then show ?thesis unfolding window_end_after_def of_int_le_iff .
qed

lemma window_end_after_same:
  assumes w: "0 < w" and "t \<le> t'" and "t' < window_end_after t w"
  shows "window_end_after t' w = window_end_after t w"
proof (rule antisym)
  show "window_end_after t' w \<le> window_end_after t w"
    using assms window_end_after_aligned_le [OF w, of t' "\<lfloor>t / of_int w\<rfloor> + 1"]
    by (simp add: window_end_after_def)
  show "window_end_after t w \<le> window_end_after t' w"
    using assms window_end_after_mono by blast
qed

lemma window_end_after_next:
  assumes w: "0 < w" and ge: "window_end_after t w \<le> t'" and lt: "t' < t + of_int w"
  shows "window_end_after t' w = window_end_after t w + of_int w"
proof -
  let ?q = "\<lfloor>t / of_int w\<rfloor>"
  have "of_int ?q * of_int w \<le> t"
    using w by (simp flip: pos_le_divide_eq)
  from ge have lo: "of_int (?q + 1) * of_int w \<le> t'" by (simp add: window_end_after_def)
  have "t < of_int (?q + 1) * of_int w"
    using window_end_after_gt [OF w, of t] by (simp add: window_end_after_def)
  with lt have hi: "t' < of_int (?q + 2) * of_int w" by (simp add: algebra_simps)
  have "\<lfloor>t' / of_int w\<rfloor> = ?q + 1"
    using lo hi w by (simp add: floor_eq_iff pos_le_divide_eq pos_divide_less_eq algebra_simps)
  then show ?thesis by (simp add: window_end_after_def algebra_simps)
qed

subsection \<open>What spending and reclaiming do to one key\<close>

lemma dict_ok_spend [dict_okI]: "dict_ok d \<Longrightarrow> dict_ok (spend now specs d)"
  by (induction specs arbitrary: d) (auto simp: Let_def split: prod.splits)

lemma spend_other: "k \<notin> fst ` set specs \<Longrightarrow> dict_get (spend now specs d) k = dict_get d k"
  by (induction specs arbitrary: d) (auto simp: Let_def split: prod.splits)

lemma spend_at:
  assumes "distinct (map fst specs)" and "(k, limit, w) \<in> set specs"
  shows "dict_get (spend now specs d) k =
    (case dict_get d k of
       None \<Rightarrow> if 0 \<le> now then Some (window_end_after now w, 1) else Some (0, 1)
     | Some (e, n) \<Rightarrow> if e \<le> now then Some (window_end_after now w, 1) else Some (e, n + 1))"
  using assms
proof (induction specs arbitrary: d)
  case Nil
  then show ?case by simp
next
  case (Cons sp specs)
  obtain k' l' w' where sp: "sp = (k', l', w')" by (cases sp)
  show ?case
  proof (cases "k = k'")
    case True
    with Cons.prems sp have fresh: "k \<notin> fst ` set specs" and lw: "limit = l'" "w = w'"
      by (force simp: image_iff)+
    show ?thesis
      using True sp fresh lw
      by (auto simp: spend_other Let_def dict_get_default_get split: option.splits prod.splits)
  next
    case False
    with Cons.prems sp have "distinct (map fst specs)" "(k, limit, w) \<in> set specs" by auto
    from Cons.IH [OF this] False sp show ?thesis
      by (auto simp: Let_def split: prod.splits)
  qed
qed

lemma reclaim_fields [simp]:
  "max_tracked (reclaim_if_crowded now c) = max_tracked c"
  "refuse_when_full (reclaim_if_crowded now c) = refuse_when_full c"
  by (simp_all add: reclaim_if_crowded_def Let_def)

lemma reclaim_counters_cases:
  "counters (reclaim_if_crowded now c) = counters c \<or>
   counters (reclaim_if_crowded now c) = dict_filter (live_at now) (counters c)"
  by (auto simp: reclaim_if_crowded_def Let_def)

lemma dict_ok_reclaim [dict_okI]:
  "dict_ok (counters c) \<Longrightarrow> dict_ok (counters (reclaim_if_crowded now c))"
  using reclaim_counters_cases [of now c] by auto

lemma reclaim_live:
  assumes "dict_ok (counters c)" and "dict_get (counters c) k = Some (e, n)" and "now < e"
  shows "dict_get (counters (reclaim_if_crowded now c)) k = Some (e, n)"
  using reclaim_counters_cases [of now c] assms
  by (auto simp: dict_get_filter live_at_def)

lemma reclaim_sub:
  assumes "dict_ok (counters c)" and "dict_get (counters (reclaim_if_crowded now c)) k = Some v"
  shows "dict_get (counters c) k = Some v"
  using reclaim_counters_cases [of now c] assms
  by (auto simp: dict_get_filter split: option.splits if_splits)

lemma first_wait_None:
  "first_wait now d specs = None \<longleftrightarrow>
     (\<forall>(k, l, w) \<in> set specs. \<forall>e n. dict_get_default d k (0, 0) = (e, n) \<longrightarrow> \<not> (now < e \<and> l \<le> n))"
  by (induction specs) (auto simp: Let_def split: prod.splits)

lemma first_wait_Some:
  "first_wait now d specs = Some wt \<Longrightarrow>
     \<exists>k l w e n. (k, l, w) \<in> set specs \<and> dict_get_default d k (0, 0) = (e, n)
       \<and> now < e \<and> l \<le> n \<and> wt = e - now"
  by (induction specs) (fastforce simp: Let_def split: prod.splits if_splits)+


subsection \<open>The contract every limiter keeps for a key it charges\<close>

text \<open>
  A request is a time and a payload.  \<open>used s E\<close> is how much of the window ending at \<open>E\<close>
  the state has counted, \<open>wend t\<close> the end of the window that \<open>t\<close> lies in.
\<close>

fun admitted :: "('s \<Rightarrow> real \<times> 'r \<Rightarrow> 's \<times> bool) \<Rightarrow> (real \<times> 'r \<Rightarrow> bool) \<Rightarrow> 's \<Rightarrow> (real \<times> 'r) list \<Rightarrow> int" where
  "admitted step sel s [] = 0"
| "admitted step sel s (q # qs) =
     (let (s', adm) = step s q
      in (if adm \<and> sel q then 1 else 0) + admitted step sel s' qs)"

lemma admitted_nonneg: "0 \<le> admitted step sel s qs"
  by (induction qs arbitrary: s) (simp_all add: split_def Let_def)

lemma admitted_cong:
  "(\<And>q. q \<in> set qs \<Longrightarrow> sel q = sel' q) \<Longrightarrow> admitted step sel s qs = admitted step sel' s qs"
  by (induction qs arbitrary: s) (simp_all add: split_def Let_def)

lemma admitted_split:
  "(\<And>q. q \<in> set qs \<Longrightarrow> sel q \<Longrightarrow> sel1 q \<or> sel2 q) \<Longrightarrow>
     admitted step sel s qs \<le> admitted step sel1 s qs + admitted step sel2 s qs"
proof (induction qs arbitrary: s)
  case Nil
  then show ?case by simp
next
  case (Cons q qs)
  have "admitted step sel (fst (step s q)) qs
      \<le> admitted step sel1 (fst (step s q)) qs + admitted step sel2 (fst (step s q)) qs"
    using Cons by simp
  moreover have "sel q \<Longrightarrow> sel1 q \<or> sel2 q" using Cons.prems by simp
  ultimately show ?case by (auto simp: split_def Let_def)
qed

lemma admitted_mono:
  assumes "\<And>s q. fst (f s q) = fst (g s q)" and "\<And>s q. snd (f s q) \<Longrightarrow> snd (g s q)"
  shows "admitted f sel s qs \<le> admitted g sel s qs"
proof (induction qs arbitrary: s)
  case (Cons q qs)
  have "fst (f s q) = fst (g s q)" "snd (f s q) \<Longrightarrow> snd (g s q)" using assms by blast+
  with Cons [of "fst (g s q)"] show ?case by (auto simp: split_def Let_def)
qed simp

definition in_window :: "('r \<Rightarrow> bool) \<Rightarrow> int \<Rightarrow> real \<Rightarrow> real \<times> 'r \<Rightarrow> bool" where
  "in_window charged window E q \<longleftrightarrow> charged (snd q) \<and> window_end_after (fst q) window = E"

lemma in_window_pair [simp]:
  "in_window charged window E (t, r) \<longleftrightarrow> charged r \<and> window_end_after t window = E"
  by (simp add: in_window_def)

locale window_limited =
  fixes step :: "'s \<Rightarrow> real \<times> 'r \<Rightarrow> 's \<times> bool"
    and charged :: "'r \<Rightarrow> bool"
    and used :: "'s \<Rightarrow> real \<Rightarrow> int"
    and fits :: "real \<Rightarrow> 's \<Rightarrow> bool"
    and limit window :: int
  assumes window_pos: "0 < window"
    and fits_later: "fits t s \<Longrightarrow> t \<le> t' \<Longrightarrow> fits t' s"
    and used_bounded: "fits t s \<Longrightarrow> 0 \<le> used s E \<and> used s E \<le> limit"
    and used_future: "fits t s \<Longrightarrow> window_end_after t window < E \<Longrightarrow> used s E = 0"
    and step_fits: "fits t s \<Longrightarrow> fits t (fst (step s (t, r)))"
    and step_charges: "fits t s \<Longrightarrow> charged r \<Longrightarrow> snd (step s (t, r)) \<Longrightarrow>
      used (fst (step s (t, r))) (window_end_after t window) = used s (window_end_after t window) + 1"
    and step_keeps: "fits t s \<Longrightarrow> \<not> (charged r \<and> snd (step s (t, r))) \<Longrightarrow>
      used (fst (step s (t, r))) (window_end_after t window) = used s (window_end_after t window)"
begin

lemma later_windows:
  assumes "\<forall>q \<in> set qs. E < window_end_after (fst q) window"
  shows "admitted step (in_window charged window E) s qs = 0"
  using assms by (induction qs arbitrary: s) (auto simp: in_window_def split_def Let_def)

lemma window_budget:
  assumes "fits t s" and "sorted (t # map fst qs)"
  shows "admitted step (in_window charged window E) s qs + used s E \<le> limit"
  using assms
proof (induction qs arbitrary: s t)
  case Nil
  then show ?case using used_bounded by simp
next
  case (Cons q qs)
  obtain t' r where q: "q = (t', r)" by (cases q)
  let ?W = "window_end_after t' window" and ?s' = "fst (step s (t', r))"
  from Cons.prems q have fits: "fits t' s" and srt: "sorted (t' # map fst qs)"
    using fits_later by auto
  have IH: "admitted step (in_window charged window E) ?s' qs + used ?s' E \<le> limit"
    using Cons.IH [OF step_fits [OF fits] srt] .
  consider "?W < E" | "?W = E" | "E < ?W" by linarith
  then show ?case
  proof cases
    case 1
    then have "used s E = 0" "used ?s' E = 0"
      using used_future fits step_fits by blast+
    with IH 1 q show ?thesis by (auto simp: split_def Let_def)
  next
    case 2
    show ?thesis
    proof (cases "charged r \<and> snd (step s (t', r))")
      case True
      with step_charges [OF fits, of r] IH 2 q show ?thesis
        by (auto simp: split_def Let_def)
    next
      case False
      with step_keeps [OF fits, of r] IH 2 q show ?thesis
        by (auto simp: split_def Let_def)
    qed
  next
    case 3
    have "\<forall>p \<in> set (q # qs). E < window_end_after (fst p) window"
      using srt q 3 window_end_after_mono [OF window_pos] by (fastforce intro: less_le_trans)
    then have "admitted step (in_window charged window E) s (q # qs) = 0" by (rule later_windows)
    with used_bounded [OF fits] show ?thesis by simp
  qed
qed

lemma window_limit:
  assumes "fits t s" and "sorted (t # map fst qs)"
  shows "admitted step (in_window charged window E) s qs \<le> limit"
  using window_budget [OF assms, of E] used_bounded [OF assms(1), of E] by linarith

text \<open>Any span of one window's length meets at most two windows.\<close>

lemma span_limit:
  assumes "fits t s" and "sorted (t # map fst qs)"
  shows "admitted step (\<lambda>q. charged (snd q) \<and> a \<le> fst q \<and> fst q < a + of_int window) s qs \<le> 2 * limit"
proof -
  let ?E = "window_end_after a window"
  have "admitted step (\<lambda>q. charged (snd q) \<and> a \<le> fst q \<and> fst q < a + of_int window) s qs
      \<le> admitted step (in_window charged window ?E) s qs + admitted step (in_window charged window (?E + of_int window)) s qs"
  proof (rule admitted_split)
    fix q
    assume q: "charged (snd q) \<and> a \<le> fst q \<and> fst q < a + of_int window"
    show "in_window charged window ?E q \<or> in_window charged window (?E + of_int window) q"
    proof (cases "fst q < ?E")
      case True
      with q window_end_after_same [OF window_pos] show ?thesis by (simp add: in_window_def)
    next
      case False
      with q window_end_after_next [OF window_pos] show ?thesis by (simp add: in_window_def)
    qed
  qed
  with window_limit [OF assms, of ?E] window_limit [OF assms, of "?E + of_int window"]
  show ?thesis by linarith
qed

end


subsection \<open>One key of a limiter\<close>

definition admit_step :: "('r \<Rightarrow> 'k spec list) \<Rightarrow> 'k fixed_windows \<Rightarrow> real \<times> 'r \<Rightarrow> 'k fixed_windows \<times> bool" where
  "admit_step specs c q = (let (c', wait_s) = admit (fst q) (specs (snd q)) c in (c', wait_s = None))"

definition key_used :: "'k \<Rightarrow> 'k fixed_windows \<Rightarrow> real \<Rightarrow> int" where
  "key_used k c E = (case dict_get (counters c) k of None \<Rightarrow> 0 | Some (e, n) \<Rightarrow> if e = E then n else 0)"

definition key_fits :: "'k \<Rightarrow> int \<Rightarrow> int \<Rightarrow> real \<Rightarrow> 'k fixed_windows \<Rightarrow> bool" where
  "key_fits k limit w t c \<longleftrightarrow> 0 \<le> t \<and> dict_ok (counters c) \<and>
     (\<forall>e n. dict_get (counters c) k = Some (e, n) \<longrightarrow>
        e \<le> window_end_after t w \<and> (\<exists>j. e = of_int (j * w)) \<and> 0 \<le> n \<and> n \<le> limit)"

definition charges :: "('r \<Rightarrow> 'k spec list) \<Rightarrow> 'k \<Rightarrow> 'r \<Rightarrow> bool" where
  "charges specs k r \<longleftrightarrow> k \<in> fst ` set (specs r)"

text \<open>A request spends each of its keys once, and the key always under one limit.\<close>

definition spec_shape :: "('r \<Rightarrow> 'k spec list) \<Rightarrow> 'k \<Rightarrow> int \<Rightarrow> int \<Rightarrow> bool" where
  "spec_shape specs k limit w \<longleftrightarrow> 0 < w \<and> 1 \<le> limit \<and>
     (\<forall>r. distinct (map fst (specs r)) \<and>
          (\<forall>l' w'. (k, l', w') \<in> set (specs r) \<longrightarrow> l' = limit \<and> w' = w))"

lemma key_fits_reclaim:
  "key_fits k limit w t c \<Longrightarrow> key_fits k limit w t (reclaim_if_crowded now c)"
  unfolding key_fits_def using reclaim_sub dict_ok_reclaim by metis

lemma key_used_reclaim:
  assumes "0 < w" and "key_fits k limit w t c"
  shows "key_used k (reclaim_if_crowded t c) (window_end_after t w) = key_used k c (window_end_after t w)"
proof (cases "dict_get (counters c) k")
  case None
  then have "dict_get (counters (reclaim_if_crowded t c)) k = None"
    using reclaim_sub assms by (metis key_fits_def not_None_eq option.distinct(1))
  with None show ?thesis by (simp add: key_used_def)
next
  case (Some en)
  obtain e n where en: "en = (e, n)" by (cases en)
  show ?thesis
  proof (cases "t < e")
    case True
    with Some en assms reclaim_live show ?thesis by (fastforce simp: key_used_def key_fits_def)
  next
    case False
    then have ne: "e \<noteq> window_end_after t w" using window_end_after_gt [OF assms(1), of t] by auto
    have "dict_get (counters (reclaim_if_crowded t c)) k \<in> {None, Some (e, n)}"
      using reclaim_sub [of c t k] assms(2) Some en by (cases "dict_get (counters (reclaim_if_crowded t c)) k")
        (auto simp: key_fits_def)
    with ne Some en show ?thesis by (auto simp: key_used_def)
  qed
qed

lemma admit_cases:
  "(\<exists>wait. admit t specs c = (reclaim_if_crowded t c, Some wait)) \<or>
   (admit t specs c = ((reclaim_if_crowded t c)\<lparr>counters := spend t specs (counters (reclaim_if_crowded t c))\<rparr>, None)
    \<and> first_wait t (counters (reclaim_if_crowded t c)) specs = None)"
  by (simp add: admit_def Let_def split: option.split)

lemma admit_step_cases:
  obtains (refused) wait where "admit_step specs c (t, r) = (reclaim_if_crowded t c, False)"
      and "admit t (specs r) c = (reclaim_if_crowded t c, Some wait)"
    | (admitted) "admit_step specs c (t, r) =
        ((reclaim_if_crowded t c)\<lparr>counters := spend t (specs r) (counters (reclaim_if_crowded t c))\<rparr>, True)"
      and "first_wait t (counters (reclaim_if_crowded t c)) (specs r) = None"
  using admit_cases [of t "specs r" c] by (auto simp: admit_step_def)

lemma fits_live_end:
  assumes "0 < w" and "key_fits k limit w t c" and "dict_get (counters c) k = Some (e, n)" and "t < e"
  shows "e = window_end_after t w"
  using assms window_end_after_aligned_le [OF assms(1)] by (fastforce simp: key_fits_def)

text \<open>What an admitted request leaves in the key's counter.\<close>

lemma spend_charged:
  assumes sh: "spec_shape specs k limit w" and fits: "key_fits k limit w t c"
    and ch: "charges specs k r" and room: "first_wait t (counters c) (specs r) = None"
  shows "dict_get (spend t (specs r) (counters c)) k =
           Some (window_end_after t w, key_used k c (window_end_after t w) + 1)"
    and "key_used k c (window_end_after t w) + 1 \<le> limit"
proof -
  from ch obtain l' w' where "(k, l', w') \<in> set (specs r)" by (auto simp: charges_def)
  with sh have mem: "(k, limit, w) \<in> set (specs r)" by (auto simp: spec_shape_def)
  have d: "distinct (map fst (specs r))" and w: "0 < w" and lim: "1 \<le> limit"
    using sh by (simp_all add: spec_shape_def)
  have t0: "0 \<le> t" using fits by (simp add: key_fits_def)
  have gt: "t < window_end_after t w" by (rule window_end_after_gt [OF w])
  note at = spend_at [OF d mem, of t "counters c"]
  show "dict_get (spend t (specs r) (counters c)) k =
      Some (window_end_after t w, key_used k c (window_end_after t w) + 1)"
    using at t0 gt fits_live_end [OF w fits]
    by (auto simp: key_used_def split: option.splits if_splits)
  show "key_used k c (window_end_after t w) + 1 \<le> limit"
    using room mem gt lim
    by (fastforce simp: key_used_def first_wait_None dict_get_default_get split: option.splits)
qed

theorem key_window_limited:
  assumes sh: "spec_shape specs k limit w"
  shows "window_limited (admit_step specs) (charges specs k) (key_used k) (key_fits k limit w) limit w"
proof
  show w: "0 < w" using sh by (simp add: spec_shape_def)
  show "key_fits k limit w t' c" if "key_fits k limit w t c" "t \<le> t'" for t c t'
    using that window_end_after_mono [OF w that(2)] by (fastforce simp: key_fits_def)
  show "0 \<le> key_used k c E \<and> key_used k c E \<le> limit" if "key_fits k limit w t c" for t c E
    using that sh by (auto simp: key_fits_def key_used_def spec_shape_def split: option.splits)
  show "key_used k c E = 0" if "key_fits k limit w t c" "window_end_after t w < E" for t c E
    using that by (auto simp: key_fits_def key_used_def split: option.splits)
next
  fix t c r
  assume fits0: "key_fits k limit w t c"
  let ?c = "reclaim_if_crowded t c" and ?E = "window_end_after t w"
  have w: "0 < w" using sh by (simp add: spec_shape_def)
  have fits: "key_fits k limit w t ?c" by (rule key_fits_reclaim [OF fits0])
  have used: "key_used k ?c ?E = key_used k c ?E" by (rule key_used_reclaim [OF w fits0])
  have nonneg: "0 \<le> key_used k ?c ?E" using fits by (auto simp: key_fits_def key_used_def split: option.splits)
  have same: "dict_get (spend t (specs r) (counters ?c)) k = dict_get (counters ?c) k" if "\<not> charges specs k r"
    using that by (simp add: spend_other charges_def)
  note charged = spend_charged [OF sh fits]
  show "key_fits k limit w t (fst (admit_step specs c (t, r)))"
  proof (cases rule: admit_step_cases [of specs c t r])
    case refused
    with fits show ?thesis by simp
  next
    case admitted
    have "\<exists>j. ?E = of_int (j * w)" unfolding window_end_after_def by blast
    with admitted fits charged [of r] same nonneg show ?thesis
      by (cases "charges specs k r") (auto simp: key_fits_def dict_ok_spend)
  qed
  show "key_used k (fst (admit_step specs c (t, r))) ?E = key_used k c ?E + 1"
    if "charges specs k r" "snd (admit_step specs c (t, r))"
    using that used charged [of r]
    by (cases rule: admit_step_cases [of specs c t r]) (auto simp: key_used_def)
  show "key_used k (fst (admit_step specs c (t, r))) ?E = key_used k c ?E"
    if "\<not> (charges specs k r \<and> snd (admit_step specs c (t, r)))"
    using that used same
    by (cases rule: admit_step_cases [of specs c t r]) (auto simp: key_used_def)
qed

lemma new_counters_fit: "0 \<le> t \<Longrightarrow> key_fits k limit w t (new_counters bound full)"
  by (simp add: key_fits_def new_counters_def)


subsection \<open>The limiters as steps\<close>

text \<open>One call as a step that answers whether the request was let through.\<close>

definition registration_step :: "limiter \<Rightarrow> real \<times> (int \<times> string) \<Rightarrow> limiter \<times> bool" where
  "registration_step c q =
     (let (c', ref) = registration_admit (fst (snd q)) (fst q) (snd (snd q)) c in (c', ref = None))"

definition claim_step :: "limiter \<Rightarrow> real \<times> (string \<times> string) \<Rightarrow> limiter \<times> bool" where
  "claim_step c q =
     (let (c', ref) = claim_admit (fst q) (fst (snd q)) (snd (snd q)) c in (c', ref = None))"

definition probe_step :: "limiter \<Rightarrow> real \<times> string \<Rightarrow> limiter \<times> bool" where
  "probe_step c q = (let (c', ref) = probe_admit (fst q) (snd q) c in (c', ref = None))"

text \<open>The token limiter raises on an endpoint without a limit, and the counters stay.\<close>

definition token_step :: "limiter \<Rightarrow> real \<times> (string \<times> string) \<Rightarrow> limiter \<times> bool" where
  "token_step c q =
     (case token_admit (fst q) (fst (snd q)) (snd (snd q)) c of
        Inl _ \<Rightarrow> (c, False)
      | Inr (c', ref) \<Rightarrow> (c', ref = None))"

lemma specs_of_keys: "fst ` set (specs_of who tag limits) = (\<lambda>i. (who, tag i)) ` {..<length limits}"
  by (force simp: specs_of_def in_set_enumerate_eq image_iff lessThan_def intro!: bexI)

lemma registration_specs_eq:
  "registration_specs n = [((n, Index 0), 5, 3600), ((n, Index 1), 20, 86400)]"
  by (simp add: registration_specs_def specs_of_def REGISTRATION_LIMITS_def)

lemma claim_specs_eq:
  "claim_specs n a =
     [((n, Tagged ''claim'' 0), 5, 3600), ((n, Tagged ''claim'' 1), 20, 86400),
      ((a, Tagged ''claim_address'' 0), 5, 3600), ((a, Tagged ''claim_address'' 1), 20, 86400)]"
  by (simp add: claim_specs_def specs_of_def CLAIM_LIMITS_def)

lemma probe_specs_eq: "probe_specs u = [((u, Tagged ''polled_probe'' 0), 10, 3600)]"
  by (simp add: probe_specs_def specs_of_def POLLED_PROBE_LIMITS_def)

lemmas specs_eqs [limit_simps] = registration_specs_eq claim_specs_eq probe_specs_eq

lemma registration_step_eq: "registration_step = admit_step (\<lambda>r. registration_specs (snd r))"
  by (auto simp: fun_eq_iff registration_step_def registration_admit_def admit_step_def split: prod.splits)

lemma claim_step_eq: "claim_step = admit_step (\<lambda>r. claim_specs (fst r) (snd r))"
  by (auto simp: fun_eq_iff claim_step_def claim_admit_def admit_step_def split: prod.splits)

lemma probe_step_eq: "probe_step = admit_step probe_specs"
  by (auto simp: fun_eq_iff probe_step_def probe_admit_def admit_step_def split: prod.splits)

interpretation reg_hour: window_limited registration_step "\<lambda>r. snd r = n" "key_used (n, Index 0)"
    "key_fits (n, Index 0) 5 3600" 5 3600 for n
proof -
  have "window_limited (admit_step (\<lambda>r :: int \<times> string. registration_specs (snd r)))
      (charges (\<lambda>r. registration_specs (snd r)) (n, Index 0))
      (key_used (n, Index 0)) (key_fits (n, Index 0) 5 3600) 5 3600"
    by (rule key_window_limited) (auto simp: spec_shape_def registration_specs_eq)
  moreover have "charges (\<lambda>r :: int \<times> string. registration_specs (snd r)) (n, Index 0) = (\<lambda>r. snd r = n)"
    by (auto simp: charges_def registration_specs_eq fun_eq_iff)
  ultimately show "window_limited registration_step (\<lambda>r. snd r = n) (key_used (n, Index 0))
      (key_fits (n, Index 0) 5 3600) 5 3600"
    by (simp add: registration_step_eq)
qed

interpretation reg_day: window_limited registration_step "\<lambda>r. snd r = n" "key_used (n, Index 1)"
    "key_fits (n, Index 1) 20 86400" 20 86400 for n
proof -
  have "window_limited (admit_step (\<lambda>r :: int \<times> string. registration_specs (snd r)))
      (charges (\<lambda>r. registration_specs (snd r)) (n, Index 1))
      (key_used (n, Index 1)) (key_fits (n, Index 1) 20 86400) 20 86400"
    by (rule key_window_limited) (auto simp: spec_shape_def registration_specs_eq)
  moreover have "charges (\<lambda>r :: int \<times> string. registration_specs (snd r)) (n, Index 1) = (\<lambda>r. snd r = n)"
    by (auto simp: charges_def registration_specs_eq fun_eq_iff)
  ultimately show "window_limited registration_step (\<lambda>r. snd r = n) (key_used (n, Index 1))
      (key_fits (n, Index 1) 20 86400) 20 86400"
    by (simp add: registration_step_eq)
qed

interpretation claim_hour: window_limited claim_step "\<lambda>r. snd r = a" "key_used (a, Tagged ''claim_address'' 0)"
    "key_fits (a, Tagged ''claim_address'' 0) 5 3600" 5 3600 for a
proof -
  have "window_limited (admit_step (\<lambda>r. claim_specs (fst r) (snd r)))
      (charges (\<lambda>r. claim_specs (fst r) (snd r)) (a, Tagged ''claim_address'' 0))
      (key_used (a, Tagged ''claim_address'' 0)) (key_fits (a, Tagged ''claim_address'' 0) 5 3600) 5 3600"
    by (rule key_window_limited) (auto simp: spec_shape_def claim_specs_eq)
  moreover have "charges (\<lambda>r. claim_specs (fst r) (snd r)) (a, Tagged ''claim_address'' 0) = (\<lambda>r. snd r = a)"
    by (auto simp: charges_def claim_specs_eq fun_eq_iff)
  ultimately show "window_limited claim_step (\<lambda>r. snd r = a) (key_used (a, Tagged ''claim_address'' 0))
      (key_fits (a, Tagged ''claim_address'' 0) 5 3600) 5 3600"
    by (simp add: claim_step_eq)
qed

interpretation probe_hour: window_limited probe_step "\<lambda>r. r = u" "key_used (u, Tagged ''polled_probe'' 0)"
    "key_fits (u, Tagged ''polled_probe'' 0) 10 3600" 10 3600 for u
proof -
  have "window_limited (admit_step probe_specs) (charges probe_specs (u, Tagged ''polled_probe'' 0))
      (key_used (u, Tagged ''polled_probe'' 0)) (key_fits (u, Tagged ''polled_probe'' 0) 10 3600) 10 3600"
    by (rule key_window_limited) (auto simp: spec_shape_def probe_specs_eq)
  moreover have "charges probe_specs (u, Tagged ''polled_probe'' 0) = (\<lambda>r. r = u)"
    by (auto simp: charges_def probe_specs_eq fun_eq_iff)
  ultimately show "window_limited probe_step (\<lambda>r. r = u) (key_used (u, Tagged ''polled_probe'' 0))
      (key_fits (u, Tagged ''polled_probe'' 0) 10 3600) 10 3600"
    by (simp add: probe_step_eq)
qed


text \<open>A request turned away before the counters are looked at keeps the contract.\<close>

lemma window_limited_guard:
  assumes "window_limited step ch used fits l w"
  shows "window_limited (\<lambda>c q. if g (snd q) then step c q else (c, False)) ch used fits l w"
  by (rule window_limited.intro)
    (use assms in \<open>auto simp: window_limited.window_pos window_limited.used_future window_limited.step_fits
      window_limited.step_charges window_limited.step_keeps dest: window_limited.used_bounded
      intro: window_limited.fits_later split: if_splits\<close>)

definition token_specs :: "string \<times> string \<Rightarrow> key spec list" where
  "token_specs r = (case dict_get ENDPOINT_LIMITS (snd r) of None \<Rightarrow> []
     | Some (limit, window_s) \<Rightarrow> [((fst r, Endpoint (snd r)), limit, window_s)])"

lemma token_step_eq:
  "token_step = (\<lambda>c q. if dict_get ENDPOINT_LIMITS (snd (snd q)) \<noteq> None then admit_step token_specs c q
                      else (c, False))"
  by (auto simp: fun_eq_iff token_step_def token_admit_def token_specs_def admit_step_def
      split: option.splits prod.splits)

lemma endpoint_limits_get [limit_simps]:
  "dict_get ENDPOINT_LIMITS ep =
     (if ep = ''detection'' then Some (8, 1)
      else if ep = ''heartbeat'' \<or> ep = ''config'' then Some (30, 60) else None)"
  by (auto simp: dict_get_def ENDPOINT_LIMITS_def)

interpretation detections: window_limited token_step "\<lambda>r. r = (n, ''detection'')"
    "key_used (n, Endpoint ''detection'')" "key_fits (n, Endpoint ''detection'') 8 1" 8 1 for n
proof -
  have "window_limited (admit_step token_specs) (charges token_specs (n, Endpoint ''detection''))
      (key_used (n, Endpoint ''detection'')) (key_fits (n, Endpoint ''detection'') 8 1) 8 1"
    by (rule key_window_limited) (auto simp: spec_shape_def token_specs_def endpoint_limits_get)
  moreover have "charges token_specs (n, Endpoint ''detection'') = (\<lambda>r. r = (n, ''detection''))"
    by (auto simp: charges_def token_specs_def endpoint_limits_get fun_eq_iff)
  ultimately have "window_limited (admit_step token_specs) (\<lambda>r. r = (n, ''detection''))
      (key_used (n, Endpoint ''detection'')) (key_fits (n, Endpoint ''detection'') 8 1) 8 1"
    by simp
  from window_limited_guard [OF this, of "\<lambda>r. dict_get ENDPOINT_LIMITS (snd r) \<noteq> None"]
  show "window_limited token_step (\<lambda>r. r = (n, ''detection''))
      (key_used (n, Endpoint ''detection'')) (key_fits (n, Endpoint ''detection'') 8 1) 8 1"
    by (simp add: token_step_eq)
qed

subsection \<open>What a refusal costs, and when a retry succeeds\<close>

lemma admit_Some_counters:
  "admit t specs c = (c', Some wait) \<Longrightarrow> c' = reclaim_if_crowded t c"
  using admit_cases [of t specs c] by auto

text \<open>No call evicts a counter whose window is still open, nor lowers it.\<close>

lemma admit_keeps_live:
  assumes ok: "dict_ok (counters c)" and get: "dict_get (counters c) k = Some (e, n)" and live: "t < e"
    and d: "distinct (map fst specs)"
  shows "\<exists>m. n \<le> m \<and> dict_get (counters (fst (admit t specs c))) k = Some (e, m)"
proof -
  note r = reclaim_live [OF ok get live]
  from admit_cases [of t specs c] show ?thesis
  proof (elim disjE exE conjE)
    fix wait
    assume "admit t specs c = (reclaim_if_crowded t c, Some wait)"
    with r show ?thesis by auto
  next
    assume a: "admit t specs c =
      ((reclaim_if_crowded t c)\<lparr>counters := spend t specs (counters (reclaim_if_crowded t c))\<rparr>, None)"
    show ?thesis
    proof (cases "k \<in> fst ` set specs")
      case True
      then obtain l w where "(k, l, w) \<in> set specs" by auto
      from spend_at [OF d this] a r live show ?thesis by auto
    next
      case False
      with a r show ?thesis by (auto simp: spend_other)
    qed
  qed
qed

lemma max_tracked_admit [simp]:
  "max_tracked (fst (admit t specs c)) = max_tracked c"
  "refuse_when_full (fst (admit t specs c)) = refuse_when_full c"
  using admit_cases [of t specs c] by auto

text \<open>
  A single-key limiter that does not refuse when full admits again once the wait it
  announced has passed.
\<close>

lemma admit_after_wait:
  assumes ref: "admit t [(k, l, w)] c = (c', Some wait)" and late: "t + wait \<le> t'"
    and nofull: "\<not> refuse_when_full c" and ok: "dict_ok (counters c)" and pos: "0 \<le> t'"
  shows "snd (admit t' [(k, l, w)] c') = None"
proof -
  from ref nofull have c': "c' = reclaim_if_crowded t c"
    and fw: "first_wait t (counters c') [(k, l, w)] = Some wait"
    by (auto simp: admit_def Let_def split: option.splits)
  obtain e n where en: "dict_get_default (counters c') k (0, 0) = (e, n)" by fastforce
  with fw have wait: "t < e" "wait = e - t" by (auto split: if_splits)
  then have e: "e \<le> t'" using late by simp
  obtain e' n' where en': "dict_get_default (counters (reclaim_if_crowded t' c')) k (0, 0) = (e', n')"
    by fastforce
  have okc': "dict_ok (counters c')" using c' ok dict_ok_reclaim by blast
  have "e' \<le> t'"
    using reclaim_sub [OF okc', of t' k] en en' e pos
    by (cases "dict_get (counters (reclaim_if_crowded t' c')) k") (auto simp: dict_get_default_get)
  with en' have "first_wait t' (counters (reclaim_if_crowded t' c')) [(k, l, w)] = None"
    by auto
  moreover have "\<not> refuse_when_full (reclaim_if_crowded t' c')"
    using nofull c' by simp
  ultimately show ?thesis by (simp add: admit_def Let_def)
qed


subsection \<open>How far the registration map can grow\<close>

lemma keys_spend: "set (dict_keys (spend t specs d)) = fst ` set specs \<union> set (dict_keys d)"
  by (induction specs arbitrary: d) (force simp: Let_def dict_keys_set split: prod.splits)+

lemma keys_spend_registration:
  "set (dict_keys (spend t (registration_specs n) d)) = {(n, Index 0), (n, Index 1)} \<union> set (dict_keys d)"
  unfolding keys_spend by (simp add: registration_specs_eq)

lemma keys_reclaim: "set (dict_keys (counters (reclaim_if_crowded t c))) \<subseteq> set (dict_keys (counters c))"
  using reclaim_counters_cases [of t c] dict_keys_filter by (metis subset_refl)

definition identities :: "limiter \<Rightarrow> string set" where
  "identities c = fst ` set (dict_keys (counters c))"

definition registration_inv :: "int \<Rightarrow> limiter \<Rightarrow> bool" where
  "registration_inv m c \<longleftrightarrow> 0 \<le> m \<and> max_tracked c = m \<and> refuse_when_full c \<and> dict_ok (counters c) \<and>
     set (dict_keys (counters c)) \<subseteq> identities c \<times> {Index 0, Index 1} \<and> int (card (identities c)) \<le> m"

lemma finite_identities [simp]: "finite (identities c)"
  by (simp add: identities_def)

lemma card_identities_le: "int (card (identities c)) \<le> dict_len (counters c)"
  by (simp add: identities_def dict_len_def dict_keys_def image_image)
    (metis card_image_le card_length finite_set image_image le_trans)

lemma registration_inv_reclaim:
  assumes "registration_inv m c"
  shows "registration_inv m (reclaim_if_crowded t c)"
proof -
  have sub: "identities (reclaim_if_crowded t c) \<subseteq> identities c"
    using keys_reclaim [of t c] by (auto simp: identities_def)
  have "int (card (identities (reclaim_if_crowded t c))) \<le> m"
    using card_mono [OF finite_identities sub] assms by (simp add: registration_inv_def)
  moreover have "set (dict_keys (counters (reclaim_if_crowded t c)))
      \<subseteq> identities (reclaim_if_crowded t c) \<times> {Index 0, Index 1}"
  proof
    fix k
    assume k: "k \<in> set (dict_keys (counters (reclaim_if_crowded t c)))"
    then have "k \<in> set (dict_keys (counters c))" by (rule subsetD [OF keys_reclaim])
    with assms have "snd k \<in> {Index 0, Index 1}" by (auto simp: registration_inv_def dest: subsetD)
    moreover have "fst k \<in> identities (reclaim_if_crowded t c)"
      unfolding identities_def using k by (rule imageI)
    ultimately show "k \<in> identities (reclaim_if_crowded t c) \<times> {Index 0, Index 1}"
      by (simp add: mem_Times_iff)
  qed
  ultimately show ?thesis
    using assms by (simp add: registration_inv_def dict_ok_reclaim)
qed

lemma registration_inv_step:
  assumes inv: "registration_inv m c"
  shows "registration_inv m (fst (registration_step c (t, r)))"
proof -
  let ?c = "reclaim_if_crowded t c" and ?n = "snd r"
  note rinv = registration_inv_reclaim [OF inv, of t]
  have "registration_inv m (?c\<lparr>counters := spend t (registration_specs ?n) (counters ?c)\<rparr>)"
    if room: "dict_len (counters ?c) < m \<or> \<not> unknown_caller ?c (registration_specs ?n)"
  proof -
    let ?c' = "?c\<lparr>counters := spend t (registration_specs ?n) (counters ?c)\<rparr>"
    have ids: "identities ?c' = insert ?n (identities ?c)"
      by (auto simp: identities_def keys_spend_registration)
    have "int (card (insert ?n (identities ?c))) \<le> m"
    proof (cases "?n \<in> identities ?c")
      case True
      with rinv show ?thesis by (simp add: insert_absorb registration_inv_def)
    next
      case False
      then have "unknown_caller ?c (registration_specs ?n)"
        by (force simp: unknown_caller_def registration_specs_eq dict_has_keys identities_def)
      with room card_identities_le [of ?c] False show ?thesis by simp
    qed
    with rinv ids show ?thesis
      by (auto simp: registration_inv_def dict_ok_spend keys_spend_registration)
  qed
  moreover have "refuse_when_full ?c" "max_tracked ?c = m"
    using rinv by (simp_all add: registration_inv_def)
  ultimately show ?thesis
    using rinv by (auto simp: registration_step_eq admit_step_def admit_def Let_def split: option.splits)
qed

lemma registration_inv_size:
  assumes "registration_inv m c"
  shows "tracked_counters c \<le> 2 * m"
proof -
  have "dict_len (counters c) = int (card (set (dict_keys (counters c))))"
    using assms by (simp add: registration_inv_def dict_len_keys)
  also have "\<dots> \<le> int (card (identities c \<times> {Index 0, Index 1}))"
    using assms card_mono [of "identities c \<times> {Index 0, Index 1}" "set (dict_keys (counters c))"]
    by (auto simp: registration_inv_def)
  also have "\<dots> = 2 * int (card (identities c))" by (simp add: card_cartesian_product)
  finally show ?thesis using assms by (simp add: tracked_counters_def registration_inv_def)
qed

lemma registration_inv_new: "0 \<le> m \<Longrightarrow> registration_inv m (new_counters m True)"
  by (simp add: registration_inv_def new_counters_def identities_def dict_keys_def)

subsection \<open>Properties\<close>

text \<open>However attempts on one node id are timed, at most 5 registrations of it get through
  in any clock hour and at most 20 in any clock day, from a fresh process on a monotonic clock.\<close>

theorem registration_attempts_bounded:
  assumes "sorted (0 # map fst qs)"
  shows "admitted registration_step (in_window (\<lambda>r. snd r = n) 3600 E)
           (new_counters MAX_REGISTRATION_KEYS True) qs \<le> 5 \<and>
         admitted registration_step (in_window (\<lambda>r. snd r = n) 86400 E')
           (new_counters MAX_REGISTRATION_KEYS True) qs \<le> 20"
  using reg_hour.window_limit [OF new_counters_fit [OF order_refl] assms]
    reg_day.window_limit [OF new_counters_fit [OF order_refl] assms] by blast

theorem registration_attempts_bounded_witness:
  "admitted registration_step (in_window (\<lambda>r. snd r = ''ret00000000'') 3600 3600)
     (new_counters MAX_REGISTRATION_KEYS True) (replicate 7 (1, 0, ''ret00000000'')) \<le> 5"
  using registration_attempts_bounded [of "replicate 7 (1, 0, ''ret00000000'')"] by simp

text \<open>Whatever nodes name it, one mail address is nominated at most 5 times in a clock hour,
  and at most 10 times in any 3600 seconds, so a mailbox is not flooded from many nodes.\<close>

theorem claim_address_bounded:
  assumes "sorted (0 # map fst qs)"
  shows "admitted claim_step (in_window (\<lambda>r. snd r = a) 3600 E) (new_counters MAX_CLAIM_KEYS True) qs \<le> 5 \<and>
         admitted claim_step (\<lambda>q. snd (snd q) = a \<and> from \<le> fst q \<and> fst q < from + 3600)
           (new_counters MAX_CLAIM_KEYS True) qs \<le> 10"
  using claim_hour.window_limit [OF new_counters_fit [OF order_refl] assms]
    claim_hour.span_limit [OF new_counters_fit [OF order_refl] assms] by fastforce

theorem claim_address_bounded_witness:
  "admitted claim_step (in_window (\<lambda>r. snd r = ''a@b.c'') 3600 7200) (new_counters MAX_CLAIM_KEYS True)
     [(10, ''n1'', ''a@b.c''), (3700, ''n2'', ''a@b.c'')] \<le> 5"
  using claim_address_bounded [of "[(10, ''n1'', ''a@b.c''), (3700, ''n2'', ''a@b.c'')]" "''a@b.c''" 7200 0]
  by simp

text \<open>A node gets at most twice its detection allowance of 8 into any one second, the most a
  fixed window lets through across a boundary.\<close>

theorem detections_per_second:
  assumes "sorted (0 # map fst qs)"
  shows "admitted token_step (\<lambda>q. snd q = (n, ''detection'') \<and> a \<le> fst q \<and> fst q < a + 1)
           (new_counters MAX_TRACKED_KEYS False) qs \<le> 16"
  using detections.span_limit [OF new_counters_fit [OF order_refl] assms] by fastforce

theorem detections_per_second_witness:
  "admitted token_step (\<lambda>q. snd q = (''n'', ''detection'') \<and> 1 / 2 \<le> fst q \<and> fst q < 1 / 2 + 1)
     (new_counters MAX_TRACKED_KEYS False)
     (replicate 9 (3 / 4, ''n'', ''detection'') @ replicate 9 (5 / 4, ''n'', ''detection'')) \<le> 16"
  by (rule detections_per_second) (simp add: eval_nat_numeral)

text \<open>A node that waits out the Retry-After of a 429 is served: the next call of that
  endpoint, no sooner than the announced seconds later, is admitted.\<close>

theorem token_retry_after_honoured:
  assumes ref: "token_admit t n ep c = Inr (c', Some r)"
    and c: "dict_ok (counters c)" "\<not> refuse_when_full c" and t: "0 \<le> t"
    and late: "t + of_int (retry_after_s r) \<le> t'"
  shows "status_code r = 429 \<and> 1 \<le> retry_after_s r \<and> (\<exists>c''. token_admit t' n ep c' = Inr (c'', None))"
proof -
  obtain l w where lw: "dict_get ENDPOINT_LIMITS ep = Some (l, w)"
    using ref by (auto simp: token_admit_def split: option.splits)
  from ref lw obtain wait where adm: "admit t [((n, Endpoint ep), l, w)] c = (c', Some wait)"
    and r: "r = rate_limited wait"
    by (auto simp: token_admit_def split: prod.splits)
  have "wait \<le> of_int (retry_after_s r)" "1 \<le> retry_after_s r"
    unfolding r rate_limited_def by (auto simp: le_max_iff_disj) linarith
  with t late have "t + wait \<le> t'" "0 \<le> t'" by linarith+
  from admit_after_wait [OF adm this(1) c(2,1) this(2)] lw r \<open>1 \<le> retry_after_s r\<close>
  show ?thesis by (auto simp: token_admit_def rate_limited_def split: prod.splits)
qed

theorem token_retry_after_honoured_witness:
  "\<exists>c''. token_admit 2 ''n'' ''detection'' (new_counters 512 False\<lparr>counters :=
     [((''n'', Endpoint ''detection''), (2, 8))]\<rparr>) = Inr (c'', None)"
proof -
  let ?c = "new_counters 512 False\<lparr>counters := [((''n'', Endpoint ''detection''), (2, 8))]\<rparr>"
  have "token_admit (3 / 2) ''n'' ''detection'' ?c =
      Inr (?c, Some \<lparr>status_code = 429, body = RATE_LIMITED_BODY, retry_after_s = 1\<rparr>)"
    by (simp add: token_admit_def endpoint_limits_get admit_def reclaim_if_crowded_def new_counters_def
        dict_len_def dict_get_default_def rate_limited_def)
  from token_retry_after_honoured [OF this, of "5 / 2"] have
    "\<exists>c''. token_admit (5 / 2) ''n'' ''detection'' ?c = Inr (c'', None)"
    by (simp add: new_counters_def dict_ok_def)
  then show ?thesis
    by (auto simp: token_admit_def endpoint_limits_get admit_def reclaim_if_crowded_def new_counters_def
        dict_len_def dict_get_default_def split: option.splits)
qed

text \<open>A refused request spends nothing: what it leaves is what was there, less at most
  counters whose window had closed, so no other limit of the same caller is consumed.\<close>

theorem refusal_spends_nothing:
  assumes "admit t specs c = (c', Some wait)" and "dict_ok (counters c)"
  shows "dict_get (counters c') k = dict_get (counters c) k \<or>
         (dict_get (counters c') k = None \<and> (\<exists>e m. dict_get (counters c) k = Some (e, m) \<and> e \<le> t))"
  using admit_Some_counters [OF assms(1)] reclaim_counters_cases [of t c] assms(2)
  by (auto simp: dict_get_filter live_at_def split: option.splits if_splits)

theorem refusal_spends_nothing_witness:
  "dict_get (counters (fst (admit 2 [((''n'', Index 0), 1, 3600)]
     (new_counters 4 False\<lparr>counters := [((''n'', Index 0), (3600, 1)), ((''m'', Index 0), (1, 9))]\<rparr>))))
     (''m'', Index 0) \<in> {Some (1, 9), None}"
proof -
  let ?c = "new_counters 4 False\<lparr>counters := [((''n'', Index 0), (3600, 1)), ((''m'', Index 0), (1, 9))]\<rparr>"
  have "admit 2 [((''n'', Index 0), 1, 3600)] ?c = (?c, Some 3598)"
    by (simp add: admit_def reclaim_if_crowded_def new_counters_def dict_len_def dict_get_default_def)
  from refusal_spends_nothing [OF this, of "(''m'', Index 0)"] show ?thesis
    by (auto simp: admit_def reclaim_if_crowded_def new_counters_def dict_len_def dict_get_default_def
      dict_ok_def dict_get_def)
qed

text \<open>A live counter survives every registration attempt, whoever makes it: an attacker
  cannot clear a victim's limit by filling the map.\<close>

theorem registration_never_evicts:
  assumes "dict_ok (counters c)" and "dict_get (counters c) k = Some (e, m)" and "t < e"
  shows "\<exists>m' \<ge> m. dict_get (counters (fst (registration_admit draw t n c))) k = Some (e, m')"
proof -
  have "distinct (map fst (registration_specs n))" by (simp add: registration_specs_eq)
  from admit_keeps_live [OF assms this] show ?thesis
    by (auto simp: registration_admit_def split: prod.splits)
qed

theorem registration_never_evicts_witness:
  "\<exists>m' \<ge> 5. dict_get (counters (fst (registration_admit 0 10 ''ret0000000b''
     (new_counters 1 True\<lparr>counters := [((''ret0000000a'', Index 0), (3600, 5))]\<rparr>))))
     (''ret0000000a'', Index 0) = Some (3600, m')"
  by (rule registration_never_evicts) (simp_all add: new_counters_def dict_ok_def dict_get_def)

text \<open>However many identities are tried, the registration map never holds more than twice its
  bound, and identities it does not hold are turned away once it is full.\<close>

theorem registration_map_bounded:
  assumes "0 \<le> m"
  shows "tracked_counters (fst (run registration_step (new_counters m True) qs)) \<le> 2 * m"
  using run_invariant [where P = "registration_inv m", OF registration_inv_new [OF assms], of registration_step]
    registration_inv_step registration_inv_size by (metis prod.collapse)

theorem registration_map_bounded_witness:
  "tracked_counters (fst (run registration_step (new_counters 2 True)
     [(1, 0, ''a''), (2, 0, ''b''), (3, 0, ''c'')])) \<le> 4"
  using registration_map_bounded [of 2 "[(1, 0, ''a''), (2, 0, ''b''), (3, 0, ''c'')]"] by simp

text \<open>The claim limiter does not keep the "about twice" its comment promises: one known node
  naming new addresses grows a full map by two counters each time, here past twice the bound.\<close>

theorem claim_map_exceeds_twice_bound:
  "tracked_counters (fst (run claim_step (new_counters 4 True)
     [(1, ''n'', ''a''), (2, ''n'', ''b''), (3, ''n'', ''c''), (4, ''n'', ''d'')])) = 10"
  by (simp add: claim_step_def claim_admit_def admit_def claim_specs_eq new_counters_def
      tracked_counters_def reclaim_if_crowded_def dict_len_def dict_filter_def live_at_def
      unknown_caller_def dict_has_def dict_get_default_def dict_set_def window_end_after_def Let_def
      RECLAIM_INTERVAL_S_def OVERFLOW_LOG_INTERVAL_S_def)

end
