(* ===== verification/FrameQueue.thy ===== *)
theory FrameQueue
  imports Prelude "HOL-Library.Word"
begin

unbundle bit_operations_syntax

text \<open>
  Frame ingress, sharded by node: \<open>core/frame_queue.py\<close>, and the workers of
  \<open>services/tasks/frame_loop.py\<close> that drain it, one per shard.  The queue's operations are
  functions on its state.  The workers and the producers that share it are a step
  relation: which of them moves next is not determined, so what holds in every reachable
  state holds under every interleaving.
\<close>

subsection \<open>\<open>zlib.crc32\<close> over the UTF-8 bytes of a node id\<close>

text \<open>
  The reflected CRC-32 with polynomial \<open>0xEDB88320\<close>.  A \<open>char\<close> is a code point below 256,
  which UTF-8 writes in one byte below 128 and in two from there on.
\<close>

definition utf8_char :: "char \<Rightarrow> 8 word list" where
  "utf8_char c = (let n = of_char c :: nat in
     if n < 128 then [of_nat n] else [of_nat (192 + n div 64), of_nat (128 + n mod 64)])"

definition utf8 :: "string \<Rightarrow> 8 word list" where
  "utf8 s = concat (map utf8_char s)"

definition crc_bit :: "32 word \<Rightarrow> 32 word" where
  "crc_bit c = (if c AND 1 = 1 then drop_bit 1 c XOR 0xEDB88320 else drop_bit 1 c)"

definition crc_byte :: "32 word \<Rightarrow> 8 word \<Rightarrow> 32 word" where
  "crc_byte c b = (crc_bit ^^ 8) (c XOR ucast b)"

definition crc32 :: "8 word list \<Rightarrow> 32 word" where
  "crc32 bs = NOT (foldl crc_byte (NOT 0) bs)"

text \<open>The published check value of this CRC.\<close>

lemma funpow_8: "(f ^^ 8) x = f (f (f (f (f (f (f (f x)))))))"
  by (simp add: numeral_eq_Suc)

lemmas crc32_eval = crc32_def utf8_def utf8_char_def of_char_def crc_byte_def funpow_8 crc_bit_def

lemma crc32_check: "crc32 (utf8 ''123456789'') = 0xCBF43926"
  by (simp add: crc32_eval)

subsection \<open>The queue\<close>

type_synonym 'f item = "string \<times> 'f"

text \<open>An \<open>asyncio.Queue\<close> without a bound: what waits in it, and the tasks not yet done.\<close>

record 'f shard =
  waiting :: "'f item list"
  unfinished :: int

record 'f frame_queue =
  maxsize :: int
  shards :: "'f shard list"
  last_get_shard :: "nat option"

datatype queue_error = QueueFull | QueueEmpty | TooManyTaskDone

definition empty_shard :: "'f shard" where
  "empty_shard = \<lparr>waiting = [], unfinished = 0\<rparr>"

definition new_queue :: "int \<Rightarrow> int \<Rightarrow> 'f frame_queue" where
  "new_queue m n = \<lparr>maxsize = m, shards = replicate (nat (max 1 n)) empty_shard, last_get_shard = None\<rparr>"

definition shard_count :: "'f frame_queue \<Rightarrow> nat" where
  "shard_count q = length (shards q)"

definition shard_for :: "'f frame_queue \<Rightarrow> string \<Rightarrow> nat" where
  "shard_for q node_id = unat (crc32 (utf8 node_id)) mod length (shards q)"

definition qsize :: "'f frame_queue \<Rightarrow> int" where
  "qsize q = int (sum_list (map (\<lambda>sh. length (waiting sh)) (shards q)))"

definition is_empty :: "'f frame_queue \<Rightarrow> bool" where
  "is_empty q \<longleftrightarrow> qsize q = 0"

definition full :: "'f frame_queue \<Rightarrow> bool" where
  "full q \<longleftrightarrow> maxsize q > 0 \<and> qsize q \<ge> maxsize q"

definition shard_put :: "'f item \<Rightarrow> 'f shard \<Rightarrow> 'f shard" where
  "shard_put x sh = \<lparr>waiting = waiting sh @ [x], unfinished = unfinished sh + 1\<rparr>"

definition shard_get :: "'f shard \<Rightarrow> ('f item \<times> 'f shard) option" where
  "shard_get sh = (case waiting sh of [] \<Rightarrow> None | x # xs \<Rightarrow> Some (x, sh\<lparr>waiting := xs\<rparr>))"

definition shard_done :: "'f shard \<Rightarrow> queue_error + 'f shard" where
  "shard_done sh = (if unfinished sh \<le> 0 then Inl TooManyTaskDone
                    else Inr (sh\<lparr>unfinished := unfinished sh - 1\<rparr>))"

definition put_nowait :: "'f item \<Rightarrow> 'f frame_queue \<Rightarrow> queue_error + 'f frame_queue" where
  "put_nowait x q =
     (if full q then Inl QueueFull
      else (let i = shard_for q (fst x)
            in Inr (q\<lparr>shards := (shards q)[i := shard_put x (shards q ! i)]\<rparr>)))"

fun first_nonempty :: "nat \<Rightarrow> 'f shard list \<Rightarrow> nat option" where
  "first_nonempty i [] = None"
| "first_nonempty i (sh # shs) = (if waiting sh \<noteq> [] then Some i else first_nonempty (i + 1) shs)"

definition get_nowait :: "'f frame_queue \<Rightarrow> queue_error + ('f item \<times> 'f frame_queue)" where
  "get_nowait q =
     (case first_nonempty 0 (shards q) of
        None \<Rightarrow> Inl QueueEmpty
      | Some i \<Rightarrow>
          (case shard_get (shards q ! i) of
             None \<Rightarrow> Inl QueueEmpty
           | Some (x, sh) \<Rightarrow> Inr (x, q\<lparr>shards := (shards q)[i := sh], last_get_shard := Some i\<rparr>)))"

definition task_done :: "'f frame_queue \<Rightarrow> queue_error + 'f frame_queue" where
  "task_done q =
     (case last_get_shard q of
        None \<Rightarrow> Inr q
      | Some i \<Rightarrow>
          bind_result (shard_done (shards q ! i))
            (\<lambda>sh. Inr (q\<lparr>shards := (shards q)[i := sh], last_get_shard := None\<rparr>)))"

text \<open>What a frame worker does with the shard it owns: \<open>await queue.get()\<close>, once there is
  something, and \<open>queue.task_done()\<close>.\<close>

definition worker_get :: "nat \<Rightarrow> 'f frame_queue \<Rightarrow> ('f item \<times> 'f frame_queue) option" where
  "worker_get i q =
     (case shard_get (shards q ! i) of
        None \<Rightarrow> None
      | Some (x, sh) \<Rightarrow> Some (x, q\<lparr>shards := (shards q)[i := sh]\<rparr>))"

definition worker_done :: "nat \<Rightarrow> 'f frame_queue \<Rightarrow> queue_error + 'f frame_queue" where
  "worker_done i q =
     bind_result (shard_done (shards q ! i)) (\<lambda>sh. Inr (q\<lparr>shards := (shards q)[i := sh]\<rparr>))"


subsection \<open>First in, first out per lane\<close>

text \<open>
  What the workers rely on: a put lands at the end of the key's lane and nowhere else, a take
  removes the head of its lane, and neither moves a key to another lane.
\<close>

locale lanes =
  fixes lane :: "'q \<Rightarrow> 'k \<Rightarrow> nat"
    and contents :: "'q \<Rightarrow> nat \<Rightarrow> ('k \<times> 'f) list"
    and put :: "'k \<times> 'f \<Rightarrow> 'q \<Rightarrow> 'e + 'q"
    and take_from :: "nat \<Rightarrow> 'q \<Rightarrow> (('k \<times> 'f) \<times> 'q) option"
    and ok :: "'q \<Rightarrow> bool"
  assumes put_ok: "ok q \<Longrightarrow> put x q = Inr q' \<Longrightarrow> ok q'"
    and put_lane: "ok q \<Longrightarrow> put x q = Inr q' \<Longrightarrow> lane q' = lane q"
    and put_contents: "ok q \<Longrightarrow> put x q = Inr q' \<Longrightarrow>
      contents q' i = (if i = lane q (fst x) then contents q i @ [x] else contents q i)"
    and take_ok: "ok q \<Longrightarrow> take_from i q = Some (x, q') \<Longrightarrow> ok q'"
    and take_lane: "ok q \<Longrightarrow> take_from i q = Some (x, q') \<Longrightarrow> lane q' = lane q"
    and take_contents: "ok q \<Longrightarrow> take_from i q = Some (x, q') \<Longrightarrow>
      contents q j = (if j = i then x # contents q' j else contents q' j)"
begin

text \<open>The books of one lane: what was accepted is what has left it, then what it still holds.\<close>

definition balanced :: "'q \<Rightarrow> ('k \<times> 'f) list \<Rightarrow> ('k \<times> 'f) list \<Rightarrow> nat \<Rightarrow> bool" where
  "balanced q acc out i \<longleftrightarrow> filter (\<lambda>x. lane q (fst x) = i) acc = out @ contents q i"

lemma balanced_put:
  "ok q \<Longrightarrow> put x q = Inr q' \<Longrightarrow> balanced q acc out i \<Longrightarrow> balanced q' (acc @ [x]) out i"
  by (auto simp: balanced_def put_lane put_contents)

lemma balanced_take:
  "ok q \<Longrightarrow> take_from i q = Some (x, q') \<Longrightarrow> balanced q acc out i \<Longrightarrow> balanced q' acc (out @ [x]) i"
  by (auto simp: balanced_def take_lane take_contents [of q i x q' i])

lemma balanced_take_other:
  "ok q \<Longrightarrow> take_from i q = Some (x, q') \<Longrightarrow> j \<noteq> i \<Longrightarrow> balanced q acc out j \<Longrightarrow> balanced q' acc out j"
  by (auto simp: balanced_def take_lane take_contents [of q i x q' j])

text \<open>A key's own history is a piece of its lane's.\<close>

lemma balanced_key:
  assumes "balanced q acc out (lane q k)"
  shows "filter (\<lambda>x. fst x = k) acc =
           filter (\<lambda>x. fst x = k) out @ filter (\<lambda>x. fst x = k) (contents q (lane q k))"
proof -
  have "filter (\<lambda>x. fst x = k) acc = filter (\<lambda>x. fst x = k) (filter (\<lambda>x. lane q (fst x) = lane q k) acc)"
    by (simp add: conj_commute) (metis (mono_tags, lifting) filter_cong)
  with assms show ?thesis by (simp add: balanced_def)
qed

end

definition lane_contents :: "'f frame_queue \<Rightarrow> nat \<Rightarrow> 'f item list" where
  "lane_contents q i = (if i < length (shards q) then waiting (shards q ! i) else [])"

definition has_shards :: "'f frame_queue \<Rightarrow> bool" where
  "has_shards q \<longleftrightarrow> shards q \<noteq> []"

lemma shard_for_less: "has_shards q \<Longrightarrow> shard_for q n < length (shards q)"
  by (simp add: shard_for_def has_shards_def)

lemma put_nowait_Inr:
  "put_nowait x q = Inr q' \<longleftrightarrow> \<not> full q \<and>
     q' = q\<lparr>shards := (shards q)[shard_for q (fst x) := shard_put x (shards q ! shard_for q (fst x))]\<rparr>"
  by (auto simp: put_nowait_def Let_def)

lemma worker_get_Some:
  "worker_get i q = Some (x, q') \<longleftrightarrow>
     (\<exists>xs. waiting (shards q ! i) = x # xs \<and>
        q' = q\<lparr>shards := (shards q)[i := (shards q ! i)\<lparr>waiting := xs\<rparr>]\<rparr>)"
  by (auto simp: worker_get_def shard_get_def split: list.splits)

text \<open>A worker reads a shard that exists: the queue has one worker per shard.\<close>

definition owned_get :: "nat \<Rightarrow> 'f frame_queue \<Rightarrow> ('f item \<times> 'f frame_queue) option" where
  "owned_get i q = (if i < shard_count q then worker_get i q else None)"

interpretation fq: lanes shard_for lane_contents put_nowait owned_get has_shards
proof
  fix q q' :: "'f frame_queue" and x i
  assume ok: "has_shards q" and put: "put_nowait x q = Inr q'"
  show "has_shards q'" "shard_for q' = shard_for q"
    using ok put by (auto simp: put_nowait_Inr has_shards_def shard_for_def fun_eq_iff)
  show "lane_contents q' i =
      (if i = shard_for q (fst x) then lane_contents q i @ [x] else lane_contents q i)"
    using put shard_for_less [OF ok, of "fst x"]
    by (auto simp: put_nowait_Inr lane_contents_def shard_put_def)
next
  fix q q' :: "'f frame_queue" and x i j
  assume ok: "has_shards q" and get: "owned_get i q = Some (x, q')"
  show "has_shards q'" "shard_for q' = shard_for q"
    using ok get by (auto simp: owned_get_def worker_get_Some has_shards_def shard_for_def fun_eq_iff split: if_splits)
  show "lane_contents q j = (if j = i then x # lane_contents q' j else lane_contents q' j)"
    using get by (auto simp: owned_get_def worker_get_Some lane_contents_def shard_count_def nth_list_update split: if_splits)
qed

subsection \<open>Producers and workers\<close>

text \<open>
  The queue, the frame each worker holds, and what the worker loop writes.  \<open>accepted\<close> and
  \<open>finished\<close> record, in order, the frames the queue took and the frames whose executor call
  has returned; no step reads them.
\<close>

record 'f ingress =
  queue :: "'f frame_queue"
  busy :: "nat \<Rightarrow> 'f item option"
  accepted :: "'f item list"
  finished :: "'f item list"
  aircraft_dirty :: bool
  frames_processed :: int
  task_errors :: int

definition ingress_start :: "int \<Rightarrow> int \<Rightarrow> 'f ingress" where
  "ingress_start m n = \<lparr>queue = new_queue m n, busy = (\<lambda>_. None), accepted = [], finished = [],
     aircraft_dirty = False, frames_processed = 0, task_errors = 0\<rparr>"

text \<open>The loop body after the executor call: what is recorded when it returned and when it
  raised, and \<open>task_done\<close> either way.\<close>

definition worker_finish :: "(string \<Rightarrow> bool) \<Rightarrow> bool \<Rightarrow> nat \<Rightarrow> 'f item \<Rightarrow> 'f ingress \<Rightarrow> queue_error + 'f ingress" where
  "worker_finish in_probation raised i x s =
     (let s1 = (if raised then s\<lparr>task_errors := task_errors s + 1\<rparr>
                else s\<lparr>aircraft_dirty := (aircraft_dirty s \<or> \<not> in_probation (fst x)),
                       frames_processed := frames_processed s + 1\<rparr>)
      in bind_result (worker_done i (queue s1))
           (\<lambda>q. Inr (s1\<lparr>queue := q, busy := (busy s1)(i := None), finished := finished s1 @ [x]\<rparr>)))"

inductive ingress_step :: "(string \<Rightarrow> bool) \<Rightarrow> 'f ingress \<Rightarrow> 'f ingress \<Rightarrow> bool" for in_probation where
  produce: "put_nowait x (queue s) = Inr q \<Longrightarrow>
     ingress_step in_probation s (s\<lparr>queue := q, accepted := accepted s @ [x]\<rparr>)"
| drop_full: "put_nowait x (queue s) = Inl QueueFull \<Longrightarrow> ingress_step in_probation s s"
| take: "busy s i = None \<Longrightarrow> owned_get i (queue s) = Some (x, q) \<Longrightarrow>
     ingress_step in_probation s (s\<lparr>queue := q, busy := (busy s)(i := Some x)\<rparr>)"
| finish: "busy s i = Some x \<Longrightarrow> worker_finish in_probation raised i x s = Inr t \<Longrightarrow>
     ingress_step in_probation s t"
| flush: "ingress_step in_probation s (s\<lparr>aircraft_dirty := False\<rparr>)"

inductive_cases ingress_stepE: "ingress_step in_probation s t"

inductive ingress_reachable :: "(string \<Rightarrow> bool) \<Rightarrow> int \<Rightarrow> int \<Rightarrow> 'f ingress \<Rightarrow> bool" for in_probation m n where
  start: "ingress_reachable in_probation m n (ingress_start m n)"
| step: "ingress_reachable in_probation m n s \<Longrightarrow> ingress_step in_probation s t \<Longrightarrow>
     ingress_reachable in_probation m n t"

definition in_hand :: "'f ingress \<Rightarrow> nat \<Rightarrow> 'f item list" where
  "in_hand s i = (case busy s i of None \<Rightarrow> [] | Some x \<Rightarrow> [x])"

definition lane_log :: "'f ingress \<Rightarrow> nat \<Rightarrow> 'f item list" where
  "lane_log s i = filter (\<lambda>x. shard_for (queue s) (fst x) = i) (finished s) @ in_hand s i"

definition ingress_inv :: "int \<Rightarrow> 'f ingress \<Rightarrow> bool" where
  "ingress_inv m s \<longleftrightarrow> has_shards (queue s) \<and> maxsize (queue s) = m \<and>
     (\<forall>i x. busy s i = Some x \<longrightarrow> i < length (shards (queue s)) \<and> shard_for (queue s) (fst x) = i) \<and>
     (\<forall>i. fq.balanced (queue s) (accepted s) (lane_log s i) i) \<and>
     (\<forall>i < length (shards (queue s)). unfinished (shards (queue s) ! i) =
        int (length (waiting (shards (queue s) ! i)) + length (in_hand s i))) \<and>
     (0 < m \<longrightarrow> qsize (queue s) \<le> m)"


lemma qsize_update:
  assumes "i < length (shards q)"
  shows "qsize (q\<lparr>shards := (shards q)[i := sh]\<rparr>) =
           qsize q + int (length (waiting sh)) - int (length (waiting (shards q ! i)))"
proof -
  have "length (waiting (shards q ! i)) \<le> sum_list (map (\<lambda>sh. length (waiting sh)) (shards q))"
    using assms by (metis elem_le_sum_list length_map nth_map)
  with assms show ?thesis
    by (simp add: qsize_def map_update sum_list_update)
qed

lemma ingress_inv_busy:
  "ingress_inv m s \<Longrightarrow> busy s i = Some x \<Longrightarrow> i < length (shards (queue s)) \<and> shard_for (queue s) (fst x) = i"
  unfolding ingress_inv_def by blast

lemma ingress_inv_start: "ingress_inv m (ingress_start m n)"
  by (auto simp: ingress_inv_def ingress_start_def new_queue_def has_shards_def fq.balanced_def
      lane_log_def in_hand_def lane_contents_def empty_shard_def qsize_def sum_list_replicate)

lemma ingress_inv_produce:
  assumes inv: "ingress_inv m s" and put: "put_nowait x (queue s) = Inr q"
  shows "ingress_inv m (s\<lparr>queue := q, accepted := accepted s @ [x]\<rparr>)"
proof -
  have ok: "has_shards (queue s)" using inv by (simp add: ingress_inv_def)
  let ?i = "shard_for (queue s) (fst x)"
  have nf: "\<not> full (queue s)"
    and q: "q = (queue s)\<lparr>shards := (shards (queue s))[?i := shard_put x (shards (queue s) ! ?i)]\<rparr>"
    using put by (simp_all add: put_nowait_Inr)
  note less = shard_for_less [OF ok, of "fst x"] and lane = fq.put_lane [OF ok put]
  have "fq.balanced q (accepted s @ [x]) (lane_log s i) i" for i
    using fq.balanced_put [OF ok put] inv by (simp add: ingress_inv_def)
  moreover have "0 < m \<longrightarrow> qsize q \<le> m"
    using nf inv qsize_update [OF less] by (auto simp: q full_def ingress_inv_def shard_put_def)
  moreover have "\<forall>i < length (shards q). unfinished (shards q ! i) =
      int (length (waiting (shards q ! i)) + length (in_hand s i))"
    using inv less by (auto simp: q ingress_inv_def shard_put_def nth_list_update)
  ultimately show ?thesis
    using inv fq.put_ok [OF ok put] lane by (simp add: ingress_inv_def lane_log_def in_hand_def q)
qed

lemma ingress_inv_take:
  assumes inv: "ingress_inv m s" and idle: "busy s i = None" and get: "owned_get i (queue s) = Some (x, q)"
  shows "ingress_inv m (s\<lparr>queue := q, busy := (busy s)(i := Some x)\<rparr>)"
proof -
  let ?t = "s\<lparr>queue := q, busy := (busy s)(i := Some x)\<rparr>"
  have ok: "has_shards (queue s)" using inv by (simp add: ingress_inv_def)
  obtain xs where i: "i < length (shards (queue s))" and w: "waiting (shards (queue s) ! i) = x # xs"
    and q: "q = (queue s)\<lparr>shards := (shards (queue s))[i := (shards (queue s) ! i)\<lparr>waiting := xs\<rparr>]\<rparr>"
    using get by (auto simp: owned_get_def worker_get_Some shard_count_def split: if_splits)
  note lane = fq.take_lane [OF ok get]
  have bal: "fq.balanced (queue s) (accepted s) (lane_log s j) j" for j
    using inv by (simp add: ingress_inv_def)
  have log: "lane_log ?t j = (if j = i then lane_log s j @ [x] else lane_log s j)" for j
    using idle lane by (simp add: lane_log_def in_hand_def)
  have "x \<in> set (filter (\<lambda>x. shard_for (queue s) (fst x) = i) (accepted s))"
    using bal [of i] i w by (simp add: fq.balanced_def lane_contents_def)
  then have mine: "shard_for (queue s) (fst x) = i" by simp
  have "fq.balanced q (accepted s) (lane_log ?t j) j" for j
    using fq.balanced_take [OF ok get bal] fq.balanced_take_other [OF ok get _ bal] log by auto
  moreover have "0 < m \<longrightarrow> qsize q \<le> m"
    using inv qsize_update [OF i] w by (auto simp: q ingress_inv_def)
  moreover have "\<forall>j < length (shards q). unfinished (shards q ! j) =
      int (length (waiting (shards q ! j)) + length (in_hand ?t j))"
    using inv idle w i by (auto simp: q ingress_inv_def in_hand_def nth_list_update)
  ultimately show ?thesis
    using inv fq.take_ok [OF ok get] mine i lane by (auto simp: ingress_inv_def q)
qed

lemma worker_finish_Inr:
  assumes "worker_finish pr raised i x s = Inr t"
  shows "\<exists>sh. shard_done (shards (queue s) ! i) = Inr sh \<and> queue t = (queue s)\<lparr>shards := (shards (queue s))[i := sh]\<rparr> \<and>
     busy t = (busy s)(i := None) \<and> accepted t = accepted s \<and> finished t = finished s @ [x]"
  using assms
  by (auto simp: worker_finish_def worker_done_def bind_result_eq_Inr Let_def split: if_splits)

lemma ingress_inv_finish:
  assumes inv: "ingress_inv m s" and bz: "busy s i = Some x" and fin: "worker_finish pr raised i x s = Inr t"
  shows "ingress_inv m t"
proof -
  from worker_finish_Inr [OF fin] obtain sh where sh: "shard_done (shards (queue s) ! i) = Inr sh"
    and q: "queue t = (queue s)\<lparr>shards := (shards (queue s))[i := sh]\<rparr>"
    and b: "busy t = (busy s)(i := None)" and af: "accepted t = accepted s" "finished t = finished s @ [x]"
    by blast
  have i: "i < length (shards (queue s))" and mine: "shard_for (queue s) (fst x) = i"
    using ingress_inv_busy [OF inv bz] by simp_all
  have same: "waiting sh = waiting (shards (queue s) ! i)"
    and un: "unfinished sh = unfinished (shards (queue s) ! i) - 1"
    using sh by (auto simp: shard_done_def split: if_splits)
  have lane: "shard_for (queue t) = shard_for (queue s)" by (simp add: q shard_for_def fun_eq_iff)
  have cont: "lane_contents (queue t) = lane_contents (queue s)"
    using same i by (auto simp: q lane_contents_def nth_list_update fun_eq_iff)
  have log: "lane_log t j = lane_log s j" for j
    using bz b af mine lane by (cases "j = i") (auto simp: lane_log_def in_hand_def)
  have "\<forall>j. fq.balanced (queue t) (accepted t) (lane_log t j) j"
    using inv by (simp add: log lane cont fq.balanced_def af ingress_inv_def)
  moreover have "0 < m \<longrightarrow> qsize (queue t) \<le> m"
    using inv qsize_update [OF i] same by (simp add: q ingress_inv_def)
  moreover have "\<forall>j < length (shards (queue t)). unfinished (shards (queue t) ! j) =
      int (length (waiting (shards (queue t) ! j)) + length (in_hand t j))"
    using inv bz b un same i by (auto simp: q ingress_inv_def in_hand_def nth_list_update)
  ultimately show ?thesis
    using inv b lane by (auto simp: ingress_inv_def q has_shards_def)
qed

lemma ingress_inv_step: "ingress_step pr s t \<Longrightarrow> ingress_inv m s \<Longrightarrow> ingress_inv m t"
proof (induction rule: ingress_step.induct)
  case (flush s)
  then show ?case by (simp add: ingress_inv_def lane_log_def in_hand_def)
qed (simp_all add: ingress_inv_produce ingress_inv_take ingress_inv_finish)

lemma reachable_inv: "ingress_reachable pr m n s \<Longrightarrow> ingress_inv m s"
  by (induction rule: ingress_reachable.induct) (auto intro: ingress_inv_start ingress_inv_step)

subsection \<open>A run\<close>

text \<open>One shard; two frames of a node are queued and its worker takes the first.\<close>

definition run_queued :: "nat ingress" where
  "run_queued = (ingress_start 5 1)\<lparr>
     queue := \<lparr>maxsize = 5, shards = [\<lparr>waiting = [(''n'', 1), (''n'', 2)], unfinished = 2\<rparr>], last_get_shard = None\<rparr>,
     accepted := [(''n'', 1), (''n'', 2)]\<rparr>"

definition run_taken :: "nat ingress" where
  "run_taken = run_queued\<lparr>
     queue := \<lparr>maxsize = 5, shards = [\<lparr>waiting = [(''n'', 2)], unfinished = 2\<rparr>], last_get_shard = None\<rparr>,
     busy := (\<lambda>_. None)(0 := Some (''n'', 1))\<rparr>"

lemmas run_defs = run_queued_def run_taken_def ingress_start_def new_queue_def empty_shard_def
  put_nowait_def full_def qsize_def shard_for_def shard_put_def

lemma reachable_queued: "ingress_reachable pr 5 1 run_queued"
proof -
  let ?q1 = "\<lparr>maxsize = 5, shards = [\<lparr>waiting = [(''n'', 1)], unfinished = 1\<rparr>], last_get_shard = None\<rparr> :: nat frame_queue"
  have "put_nowait (''n'', 1) (queue (ingress_start 5 1)) = Inr ?q1"
    by (simp add: run_defs)
  from ingress_reachable.step [OF ingress_reachable.start ingress_step.produce [OF this]]
  have r1: "ingress_reachable pr 5 1 ((ingress_start 5 1)\<lparr>queue := ?q1, accepted := [(''n'', 1)]\<rparr>)"
    by (simp add: run_defs)
  have "put_nowait (''n'', 2) ?q1 = Inr (queue run_queued)"
    by (simp add: run_defs)
  from ingress_reachable.step [OF r1 ingress_step.produce, of "(''n'', 2)" "queue run_queued"] this
  show ?thesis by (simp add: run_defs)
qed

lemma reachable_taken: "ingress_reachable pr 5 1 run_taken"
proof -
  have "owned_get 0 (queue run_queued) = Some ((''n'', 1), queue run_taken)"
    by (simp add: run_defs owned_get_def worker_get_def shard_get_def shard_count_def)
  from ingress_reachable.step [OF reachable_queued ingress_step.take [OF _ this]] show ?thesis
    by (simp add: run_defs)
qed

subsection \<open>Properties\<close>

text \<open>C1: No two workers ever hold frames of one node, so the unlocked tracker behind a node is
  never mutated from two threads.\<close>

theorem node_never_concurrent:
  assumes "ingress_reachable pr m n s" and "busy s i = Some (node, f)" and "busy s j = Some (node, g)"
  shows "i = j"
  using ingress_inv_busy [OF reachable_inv [OF assms(1)] assms(2)]
    ingress_inv_busy [OF reachable_inv [OF assms(1)] assms(3)] by simp

theorem node_never_concurrent_witness: "{j. \<exists>g. busy run_taken j = Some (''n'', g)} = {0}"
proof -
  have hand: "busy run_taken 0 = Some (''n'', 1)" by (simp add: run_taken_def)
  show ?thesis using hand node_never_concurrent [OF reachable_taken hand] by blast
qed

text \<open>C2: A node's frames are processed once each and in arrival order: what was accepted from it
  is what has been processed, then the one in a worker's hands, then what still waits.\<close>

theorem node_frames_in_order:
  assumes "ingress_reachable pr m n s"
  shows "filter (\<lambda>x. fst x = node) (accepted s) =
           filter (\<lambda>x. fst x = node) (finished s) @
           filter (\<lambda>x. fst x = node) (in_hand s (shard_for (queue s) node)) @
           filter (\<lambda>x. fst x = node) (lane_contents (queue s) (shard_for (queue s) node))"
proof -
  let ?i = "shard_for (queue s) node"
  have "fq.balanced (queue s) (accepted s) (lane_log s ?i) ?i"
    using reachable_inv [OF assms] by (simp add: ingress_inv_def)
  from fq.balanced_key [OF this] show ?thesis
    by (simp add: lane_log_def conj_commute) (metis (mono_tags, lifting) filter_cong)
qed

theorem node_frames_in_order_witness:
  "filter (\<lambda>x. fst x = ''n'') (accepted run_taken) = [(''n'', 1), (''n'', 2)] \<and>
   filter (\<lambda>x. fst x = ''n'') (in_hand run_taken 0) @
     filter (\<lambda>x. fst x = ''n'') (lane_contents (queue run_taken) 0) = [(''n'', 1), (''n'', 2)]"
  using node_frames_in_order [OF reachable_taken, of "''n''"]
  by (simp add: run_taken_def run_queued_def ingress_start_def shard_for_def)

text \<open>The backlog over all shards never exceeds the budget of the whole queue.\<close>

theorem backlog_within_budget:
  assumes "ingress_reachable pr m n s" and "0 < m"
  shows "qsize (queue s) \<le> m"
  using reachable_inv [OF assms(1)] assms(2) by (simp add: ingress_inv_def)

theorem backlog_within_budget_witness: "qsize (queue run_queued) \<le> 5"
  using backlog_within_budget [OF reachable_queued] by simp

text \<open>A worker that holds a frame can always finish it: \<open>task_done\<close> never raises, whether the
  frame was processed or raised, and its worker is then free.\<close>

theorem worker_can_finish:
  assumes "ingress_reachable pr m n s" and "busy s i = Some x"
  shows "\<exists>t. worker_finish pr raised i x s = Inr t \<and> busy t i = None"
proof -
  have "0 < unfinished (shards (queue s) ! i)"
    using reachable_inv [OF assms(1)] ingress_inv_busy [OF reachable_inv [OF assms(1)] assms(2)] assms(2)
    by (simp add: ingress_inv_def in_hand_def)
  then show ?thesis
    by (auto simp: worker_finish_def worker_done_def shard_done_def Let_def)
qed

theorem worker_can_finish_witness: "\<exists>t. worker_finish (\<lambda>_. False) True 0 (''n'', 1) run_taken = Inr t \<and> busy t 0 = None"
  by (rule worker_can_finish [OF reachable_taken]) (simp add: run_taken_def)

end
