(* ===== verification/NodeConfig.thy ===== *)
theory NodeConfig
  imports PyValues
begin

text \<open>
  The configuration validator and normalisers of \<open>services/node_config.py\<close>, the JSON Schema
  it publishes, and the append-only versions of \<open>services/node_config_store.py\<close>.
  The schema is data here, with the meaning JSON Schema gives the keywords it uses, so that
  what a client checks against it can be compared with what the validator accepts.
\<close>

named_theorems config_simps "unfolding the validator"

subsection \<open>Fields and bounds\<close>

datatype config_error = ConfigInvalid string string | KeyError string

text \<open>field, low, high, low inclusive, high inclusive\<close>

type_synonym bounds = "py_float \<times> py_float \<times> bool \<times> bool"

definition MIN_BASELINE_DEG :: real where "MIN_BASELINE_DEG = 1 / 1000000"

definition NUMERIC_BOUNDS :: "(string, bounds) dict" where
  "NUMERIC_BOUNDS =
    [(''rx_lat'', (Fin (-90), Fin 90, True, True)),
     (''rx_lon'', (Fin (-180), Fin 180, True, True)),
     (''rx_alt_ft'', (Fin (-1500), Fin 30000, True, True)),
     (''tx_lat'', (Fin (-90), Fin 90, True, True)),
     (''tx_lon'', (Fin (-180), Fin 180, True, True)),
     (''tx_alt_ft'', (Fin (-1500), Fin 30000, True, True)),
     (''fc_hz'', (Fin 1000000, Fin 6000000000, True, True)),
     (''fs_hz'', (Fin 100000, Fin 20000000, True, True)),
     (''max_range_km'', (Fin 0, Fin 1000, False, True)),
     (''cpi_s'', (Fin 0, Fin 10, False, True)),
     (''delay_tolerance_us'', (Fin 0, PosInf, False, True)),
     (''doppler_tolerance_hz'', (Fin 0, PosInf, False, True))]"

definition NULLABLE :: "string list" where
  "NULLABLE = [''rx_lat'', ''rx_lon'', ''rx_alt_ft'', ''tx_lat'', ''tx_lon'', ''tx_alt_ft'']"

definition NULLABLE_BEAM :: "string list" where
  "NULLABLE_BEAM = [''beam_width_deg'', ''beam_azimuth_deg'']"

definition NULLABLE_CALLSIGN :: "string list" where
  "NULLABLE_CALLSIGN = [''tx_callsign'']"

text \<open>The keywords of JSON Schema the published document uses for one property.\<close>

record schema =
  schema_type :: string
  minimum :: "py_float option"
  exclusive_minimum :: "py_float option"
  maximum :: "py_float option"
  exclusive_maximum :: "py_float option"
  min_length :: "nat option"
  max_length :: "nat option"

definition type_schema :: "string \<Rightarrow> schema" where
  "type_schema ty = \<lparr>schema_type = ty, minimum = None, exclusive_minimum = None, maximum = None,
     exclusive_maximum = None, min_length = None, max_length = None\<rparr>"

definition UNTABLED_PROPERTIES :: "(string, schema) dict" where
  "UNTABLED_PROPERTIES =
    [(''tx_callsign'', (type_schema ''string'')\<lparr>min_length := Some 1, max_length := Some 32\<rparr>),
     (''beam_width_deg'', (type_schema ''number'')\<lparr>exclusive_minimum := Some (Fin 0), maximum := Some (Fin 360)\<rparr>),
     (''beam_azimuth_deg'', (type_schema ''number'')\<lparr>minimum := Some (Fin 0), exclusive_maximum := Some (Fin 360)\<rparr>)]"

definition REQUIRED :: "string list" where
  "REQUIRED = dict_keys NUMERIC_BOUNDS @ dict_keys UNTABLED_PROPERTIES"

subsection \<open>The published schema\<close>

definition numeric_property :: "bounds \<Rightarrow> schema" where
  "numeric_property b = (case b of (low, high, low_inclusive, high_inclusive) \<Rightarrow>
     let s = type_schema ''number'';
         s = (if is_finite low then
                (if low_inclusive then s\<lparr>minimum := Some low\<rparr> else s\<lparr>exclusive_minimum := Some low\<rparr>)
              else s)
     in if is_finite high then
          (if high_inclusive then s\<lparr>maximum := Some high\<rparr> else s\<lparr>exclusive_maximum := Some high\<rparr>)
        else s)"

text \<open>A published property is its schema and whether null is an alternative; every property is
  required and no other key is allowed.\<close>

record object_schema =
  properties :: "(string, schema \<times> bool) dict"
  required :: "string list"
  additional_properties :: bool

definition config_json_schema :: object_schema where
  "config_json_schema =
     (let props = map (\<lambda>(f, b). (f, numeric_property b)) NUMERIC_BOUNDS @ UNTABLED_PROPERTIES;
          nullable = NULLABLE @ NULLABLE_BEAM @ NULLABLE_CALLSIGN
      in \<lparr>properties = map (\<lambda>(f, s). (f, (s, f \<in> set nullable))) props,
          required = sort REQUIRED,
          additional_properties = False\<rparr>)"

text \<open>What it means for a value to satisfy a schema.  A JSON number is exact, and cannot be an
  infinity, a NaN or a boolean.\<close>

definition bound_holds :: "schema \<Rightarrow> py_float \<Rightarrow> bool" where
  "bound_holds s x \<longleftrightarrow>
     (case minimum s of None \<Rightarrow> True | Some m \<Rightarrow> py_le m x) \<and>
     (case exclusive_minimum s of None \<Rightarrow> True | Some m \<Rightarrow> py_less m x) \<and>
     (case maximum s of None \<Rightarrow> True | Some m \<Rightarrow> py_le x m) \<and>
     (case exclusive_maximum s of None \<Rightarrow> True | Some m \<Rightarrow> py_less x m)"

definition length_holds :: "schema \<Rightarrow> nat \<Rightarrow> bool" where
  "length_holds s n \<longleftrightarrow>
     (case min_length s of None \<Rightarrow> True | Some m \<Rightarrow> m \<le> n) \<and>
     (case max_length s of None \<Rightarrow> True | Some m \<Rightarrow> n \<le> m)"

fun satisfies :: "schema \<Rightarrow> json \<Rightarrow> bool" where
  "satisfies s (JInt n) = (schema_type s = ''number'' \<and> bound_holds s (Fin (of_int n)))"
| "satisfies s (JFloat (Fin x)) = (schema_type s = ''number'' \<and> bound_holds s (Fin x))"
| "satisfies s (JStr v) = (schema_type s = ''string'' \<and> length_holds s (length v))"
| "satisfies s v = False"

definition satisfies_property :: "schema \<times> bool \<Rightarrow> json \<Rightarrow> bool" where
  "satisfies_property p v \<longleftrightarrow> satisfies (fst p) v \<or> (snd p \<and> v = JNull)"

fun satisfies_object :: "object_schema \<Rightarrow> json \<Rightarrow> bool" where
  "satisfies_object s (JObj d) =
     (list_all (dict_has d) (required s) \<and>
      list_all (\<lambda>(k, v). case dict_get (properties s) k of
         None \<Rightarrow> additional_properties s | Some p \<Rightarrow> satisfies_property p v) d)"
| "satisfies_object s v = False"


subsection \<open>The validator\<close>

text \<open>\<open>_as_finite_float\<close>: the number, or why there is none.\<close>

fun as_finite_float :: "json \<Rightarrow> string + real" where
  "as_finite_float (JInt n) = (if float_of_int n = None then Inl ''out of range'' else Inr (of_int n))"
| "as_finite_float (JFloat (Fin x)) = Inr x"
| "as_finite_float (JFloat _) = Inl ''not a finite number''"
| "as_finite_float _ = Inl ''not a number''"

definition number :: "string \<Rightarrow> json \<Rightarrow> config_error + real" where
  "number field v = (case as_finite_float v of Inl reason \<Rightarrow> Inl (ConfigInvalid field reason) | Inr x \<Rightarrow> Inr x)"

definition getitem :: "(string, json) dict \<Rightarrow> string \<Rightarrow> config_error + json" where
  "getitem d k = (case dict_get d k of None \<Rightarrow> Inl (KeyError k) | Some v \<Rightarrow> Inr v)"

definition out_of_range :: string where "out_of_range = ''out of range''"

definition below_bound :: "bounds \<Rightarrow> real \<Rightarrow> bool" where
  "below_bound b x = (case b of (low, high, li, hi) \<Rightarrow> if li then py_less (Fin x) low else py_le (Fin x) low)"

definition above_bound :: "bounds \<Rightarrow> real \<Rightarrow> bool" where
  "above_bound b x = (case b of (low, high, li, hi) \<Rightarrow> if hi then py_less high (Fin x) else py_le high (Fin x))"

definition check_field :: "(string, json) dict \<Rightarrow> string \<Rightarrow> bounds \<Rightarrow> config_error + json" where
  "check_field payload field b =
     bind_result (getitem payload field) (\<lambda>v.
       if v = JNull \<and> field \<in> set NULLABLE then Inr JNull
       else bind_result (number field v) (\<lambda>x.
         if below_bound b x \<or> above_bound b x then Inl (ConfigInvalid field out_of_range)
         else Inr (JFloat (Fin x))))"

fun check_numeric :: "(string, json) dict \<Rightarrow> (string, bounds) dict \<Rightarrow> (string, json) dict
    \<Rightarrow> config_error + (string, json) dict" where
  "check_numeric payload [] out = Inr out"
| "check_numeric payload ((field, b) # rest) out =
     bind_result (check_field payload field b) (\<lambda>v. check_numeric payload rest (dict_set out field v))"

fun callsign_value :: "json \<Rightarrow> config_error + json" where
  "callsign_value JNull = Inr JNull"
| "callsign_value (JStr c) =
     (if 1 \<le> length c \<and> length c \<le> 32 then Inr (JStr c)
      else Inl (ConfigInvalid ''tx_callsign'' out_of_range))"
| "callsign_value _ = Inl (ConfigInvalid ''tx_callsign'' out_of_range)"

definition check_callsign :: "(string, json) dict \<Rightarrow> config_error + json" where
  "check_callsign payload = bind_result (getitem payload ''tx_callsign'') callsign_value"

definition check_width :: "(string, json) dict \<Rightarrow> config_error + json" where
  "check_width payload =
     bind_result (getitem payload ''beam_width_deg'') (\<lambda>v.
       if v = JNull then Inr JNull
       else bind_result (number ''beam_width_deg'' v) (\<lambda>x.
         if \<not> (0 < x \<and> x \<le> 360) then Inl (ConfigInvalid ''beam_width_deg'' out_of_range)
         else Inr (JFloat (Fin x))))"

definition check_azimuth :: "(string, json) dict \<Rightarrow> config_error + json" where
  "check_azimuth payload =
     bind_result (getitem payload ''beam_azimuth_deg'') (\<lambda>v.
       if v = JNull then Inr JNull
       else bind_result (number ''beam_azimuth_deg'' v) (\<lambda>x.
         if \<not> (0 \<le> x \<and> x < 360) then Inl (ConfigInvalid ''beam_azimuth_deg'' out_of_range)
         else Inr (JFloat (Fin x))))"

definition pair_reason :: string where "pair_reason = ''latitude and longitude must be given together''"
definition same_point_reason :: string where
  "same_point_reason = ''receiver and illuminator are at the same point''"

definition check_pair :: "(string, json) dict \<Rightarrow> string \<Rightarrow> string \<Rightarrow> config_error + unit" where
  "check_pair out lat_field lon_field =
     (if (py_get out lat_field = JNull) \<noteq> (py_get out lon_field = JNull)
      then Inl (ConfigInvalid (if py_get out lat_field = JNull then lat_field else lon_field) pair_reason)
      else Inr ())"

fun close_to :: "json \<Rightarrow> json \<Rightarrow> bool" where
  "close_to (JFloat (Fin x)) (JFloat (Fin y)) = (\<bar>x - y\<bar> < MIN_BASELINE_DEG)"
| "close_to _ _ = False"

definition same_point :: "(string, json) dict \<Rightarrow> bool" where
  "same_point out \<longleftrightarrow> py_get out ''rx_lat'' \<noteq> JNull \<and> py_get out ''tx_lat'' \<noteq> JNull \<and>
     close_to (py_get out ''rx_lat'') (py_get out ''tx_lat'') \<and>
     close_to (py_get out ''rx_lon'') (py_get out ''tx_lon'')"

definition validate_config :: "json \<Rightarrow> config_error + (string, json) dict" where
  "validate_config payload = (case payload of
     JObj d \<Rightarrow>
       (case sort (filter (\<lambda>k. k \<notin> set REQUIRED) (dict_keys d)) of
          k # _ \<Rightarrow> Inl (ConfigInvalid k ''unknown field'')
        | [] \<Rightarrow>
       (case sort (filter (\<lambda>k. \<not> dict_has d k) REQUIRED) of
          k # _ \<Rightarrow> Inl (ConfigInvalid k ''missing'')
        | [] \<Rightarrow>
          bind_result (check_numeric d NUMERIC_BOUNDS []) (\<lambda>out.
          bind_result (check_callsign d) (\<lambda>callsign.
          bind_result (check_width d) (\<lambda>width.
          bind_result (check_azimuth d) (\<lambda>azimuth.
          (let out = dict_set (dict_set (dict_set out ''tx_callsign'' callsign)
                       ''beam_width_deg'' width) ''beam_azimuth_deg'' azimuth
           in bind_result (check_pair out ''rx_lat'' ''rx_lon'') (\<lambda>_.
              bind_result (check_pair out ''tx_lat'' ''tx_lon'') (\<lambda>_.
              if same_point out then Inl (ConfigInvalid ''tx_lat'' same_point_reason)
              else Inr out)))))))))
   | _ \<Rightarrow> Inl (ConfigInvalid ''config'' ''not an object''))"

subsection \<open>Canonical form, altitudes and placement\<close>

definition COORDINATE_PAIRS :: "(string \<times> string) list" where
  "COORDINATE_PAIRS = [(''rx_lat'', ''rx_lon''), (''tx_lat'', ''tx_lon'')]"

definition LEGACY_COORDINATES :: "(string \<times> string) list" where
  "LEGACY_COORDINATES = [(''rx_lat'', ''lat''), (''rx_lon'', ''lon'')]"

definition ALTITUDE_DEFAULT_FT :: "(string, real) dict" where
  "ALTITUDE_DEFAULT_FT = [(''rx_alt_ft'', 900), (''tx_alt_ft'', 1200)]"

fun resolve_fields :: "(string, real) dict \<Rightarrow> (string, json) dict \<Rightarrow> (string, json) dict" where
  "resolve_fields [] d = d"
| "resolve_fields ((field, fallback) # rest) d =
     resolve_fields rest (if py_get d field = JNull then dict_set d field (JFloat (Fin fallback)) else d)"

definition resolve_altitudes :: "(string, json) dict \<Rightarrow> (string, json) dict" where
  "resolve_altitudes cfg = resolve_fields ALTITUDE_DEFAULT_FT cfg"

fun finite_float :: "json \<Rightarrow> real option" where
  "finite_float (JStr s) = (case parse_float s of Some (Fin x) \<Rightarrow> Some x | _ \<Rightarrow> None)"
| "finite_float v = (case as_finite_float v of Inl _ \<Rightarrow> None | Inr x \<Rightarrow> Some x)"

definition json_of_real :: "real option \<Rightarrow> json" where
  "json_of_real x = (case x of None \<Rightarrow> JNull | Some r \<Rightarrow> JFloat (Fin r))"

fun fold_legacy :: "(string \<times> string) list \<Rightarrow> (string, json) dict \<Rightarrow> (string, json) dict" where
  "fold_legacy [] d = d"
| "fold_legacy ((field, legacy) # rest) d =
     fold_legacy rest
       (case dict_get d legacy of
          Some v \<Rightarrow> if \<not> dict_has d field then dict_set d field v else d
        | None \<Rightarrow> d)"

text \<open>One end's coordinates as a pair of numbers, or nothing for both.\<close>

definition place :: "json \<Rightarrow> json \<Rightarrow> real option \<times> real option" where
  "place lat0 lon0 =
     (let lat = finite_float lat0; lon = finite_float lon0
      in if lat = None \<or> lon = None \<or> (lat = Some 0 \<and> lon = Some 0) then (None, None) else (lat, lon))"

fun place_pairs :: "(string \<times> string) list \<Rightarrow> (string, json) dict \<Rightarrow> (string, json) dict" where
  "place_pairs [] d = d"
| "place_pairs ((lat_field, lon_field) # rest) d =
     (let (lat, lon) = place (py_get d lat_field) (py_get d lon_field)
      in place_pairs rest (dict_set (dict_set d lat_field (json_of_real lat)) lon_field (json_of_real lon)))"

fun float_fields :: "string list \<Rightarrow> (string, json) dict \<Rightarrow> (string, json) dict" where
  "float_fields [] d = d"
| "float_fields (field # rest) d =
     float_fields rest (dict_set d field (json_of_real (finite_float (py_get d field))))"

definition canonical_config :: "json \<Rightarrow> (string, json) dict" where
  "canonical_config raw = (case raw of
     JObj d \<Rightarrow>
       (let config = fold_legacy LEGACY_COORDINATES d;
            config = dict_del (dict_del config ''lat'') ''lon'';
            config = place_pairs COORDINATE_PAIRS config
        in float_fields (dict_keys ALTITUDE_DEFAULT_FT) config)
   | _ \<Rightarrow> [])"

datatype position_status = Positioned | MissingRx | MissingTx | MissingBoth

definition position_status :: "(string, json) dict \<Rightarrow> position_status" where
  "position_status config =
     (let has_rx = (py_get config ''rx_lat'' \<noteq> JNull \<and> py_get config ''rx_lon'' \<noteq> JNull);
          has_tx = (py_get config ''tx_lat'' \<noteq> JNull \<and> py_get config ''tx_lon'' \<noteq> JNull)
      in if has_rx \<and> has_tx then Positioned
         else if has_rx then MissingTx
         else if has_tx then MissingRx
         else MissingBoth)"

definition CARRIER_KEYS :: "string list" where
  "CARRIER_KEYS = [''fc_hz'', ''FC'', ''frequency'']"

fun first_present :: "string list \<Rightarrow> (string, json) dict \<Rightarrow> json" where
  "first_present [] d = JNull"
| "first_present (k # ks) d = (if py_get d k \<noteq> JNull then py_get d k else first_present ks d)"

definition carrier_hz :: "(string, json) dict \<Rightarrow> json" where
  "carrier_hz config = first_present CARRIER_KEYS config"


subsection \<open>What an accepted configuration is\<close>

definition in_bounds :: "bounds \<Rightarrow> real \<Rightarrow> bool" where
  "in_bounds b x \<longleftrightarrow> \<not> below_bound b x \<and> \<not> above_bound b x"

fun numeric_ok :: "bool \<Rightarrow> bounds \<Rightarrow> json \<Rightarrow> bool" where
  "numeric_ok nullable b JNull = nullable"
| "numeric_ok nullable b (JFloat (Fin x)) = in_bounds b x"
| "numeric_ok nullable b _ = False"

fun callsign_ok :: "json \<Rightarrow> bool" where
  "callsign_ok JNull = True"
| "callsign_ok (JStr c) = (1 \<le> length c \<and> length c \<le> 32)"
| "callsign_ok _ = False"

definition width_bounds :: bounds where "width_bounds = (Fin 0, Fin 360, False, True)"
definition azimuth_bounds :: bounds where "azimuth_bounds = (Fin 0, Fin 360, True, False)"

definition paired :: "(string, json) dict \<Rightarrow> string \<Rightarrow> string \<Rightarrow> bool" where
  "paired d f g \<longleftrightarrow> (py_get d f = JNull) = (py_get d g = JNull)"

definition config_ok :: "(string, json) dict \<Rightarrow> bool" where
  "config_ok d \<longleftrightarrow> dict_ok d \<and> set (dict_keys d) = set REQUIRED \<and>
     list_all (\<lambda>(f, b). numeric_ok (f \<in> set NULLABLE) b (py_get d f)) NUMERIC_BOUNDS \<and>
     callsign_ok (py_get d ''tx_callsign'') \<and>
     numeric_ok True width_bounds (py_get d ''beam_width_deg'') \<and>
     numeric_ok True azimuth_bounds (py_get d ''beam_azimuth_deg'') \<and>
     paired d ''rx_lat'' ''rx_lon'' \<and> paired d ''tx_lat'' ''tx_lon'' \<and> \<not> same_point d"

subsection \<open>The validator's pieces\<close>

lemma getitem_Inr [simp]: "getitem d k = Inr v \<longleftrightarrow> dict_get d k = Some v"
  by (simp add: getitem_def split: option.split)

lemma number_Inr [simp]: "number f v = Inr x \<longleftrightarrow> as_finite_float v = Inr x"
  by (simp add: number_def split: sum.split)

text \<open>The value a field is stored with.\<close>

fun stored :: "json \<Rightarrow> json" where
  "stored (JInt n) = JFloat (Fin (of_int n))"
| "stored v = v"

text \<open>A value a float field takes: what it is stored as is in range, and an int fits a double.\<close>

definition representable :: "json \<Rightarrow> bool" where
  "representable v \<longleftrightarrow> (case v of JInt n \<Rightarrow> float_of_int n \<noteq> None | _ \<Rightarrow> True)"

lemma as_finite_float_Inr:
  "as_finite_float v = Inr x \<longleftrightarrow> stored v = JFloat (Fin x) \<and> representable v"
  by (cases v rule: as_finite_float.cases) (auto simp: representable_def)

lemma numeric_ok_iff:
  "numeric_ok nl b u \<longleftrightarrow> (nl \<and> u = JNull) \<or> (\<exists>x. u = JFloat (Fin x) \<and> in_bounds b x)"
proof (cases u)
  case (JFloat f)
  then show ?thesis by (cases f) auto
qed auto

lemma stored_JNull [simp]: "stored w = JNull \<longleftrightarrow> w = JNull" "JNull = stored w \<longleftrightarrow> w = JNull"
  by (cases w; auto)+

lemma representable_JNull [simp]: "representable JNull"
  by (simp add: representable_def)

text \<open>A nullable number, as all three kinds of field read it.\<close>

lemma nullable_number_Inr:
  "(if v = JNull \<and> nl then Inr JNull
    else bind_result (number f v) (\<lambda>x. if \<not> Q x then Inl e else Inr (JFloat (Fin x)))) = Inr u \<longleftrightarrow>
   u = stored v \<and> representable v \<and> ((nl \<and> u = JNull) \<or> (\<exists>x. u = JFloat (Fin x) \<and> Q x))"
  by (auto simp: bind_result_eq_Inr as_finite_float_Inr split: if_splits)

lemma check_field_Inr:
  "check_field p f b = Inr v \<longleftrightarrow>
     (\<exists>w. dict_get p f = Some w \<and> v = stored w \<and> representable w \<and> numeric_ok (f \<in> set NULLABLE) b v)"
proof (cases "dict_get p f")
  case None
  then show ?thesis by (simp add: check_field_def getitem_def)
next
  case (Some w)
  then have "check_field p f b = (if w = JNull \<and> f \<in> set NULLABLE then Inr JNull
      else bind_result (number f w) (\<lambda>x. if \<not> in_bounds b x then Inl (ConfigInvalid f out_of_range)
        else Inr (JFloat (Fin x))))"
    by (auto simp: check_field_def getitem_def in_bounds_def intro!: arg_cong [where f = "bind_result (number f w)"])
  with Some show ?thesis by (simp only: nullable_number_Inr numeric_ok_iff) auto
qed

lemma check_numeric_Inr:
  assumes "check_numeric p bs out = Inr out'" and "distinct (map fst bs)"
  shows "(\<forall>(f, b) \<in> set bs. \<exists>v. check_field p f b = Inr v \<and> dict_get out' f = Some v)
    \<and> (\<forall>f. f \<notin> fst ` set bs \<longrightarrow> dict_get out' f = dict_get out f) \<and> (dict_ok out \<longrightarrow> dict_ok out')"
  using assms
proof (induction bs arbitrary: out)
  case Nil
  then show ?case by simp
next
  case (Cons fb bs)
  obtain f b where fb: "fb = (f, b)" by (cases fb)
  from Cons.prems fb obtain v where v: "check_field p f b = Inr v"
    and rest: "check_numeric p bs (dict_set out f v) = Inr out'"
    by (auto simp: bind_result_eq_Inr)
  from Cons.IH [OF rest] Cons.prems fb v show ?case by (auto simp: image_iff)
qed

lemma check_numeric_total:
  assumes "\<forall>(f, b) \<in> set bs. \<exists>v. check_field p f b = Inr v"
  shows "\<exists>out'. check_numeric p bs out = Inr out'"
  using assms by (induction bs arbitrary: out) (auto simp: bind_result_eq_Inr)

lemma check_callsign_Inr:
  "check_callsign p = Inr v \<longleftrightarrow> dict_get p ''tx_callsign'' = Some v \<and> callsign_ok v"
proof -
  have "callsign_value w = Inr v \<longleftrightarrow> w = v \<and> callsign_ok v" for w
    by (cases w) auto
  then show ?thesis by (auto simp: check_callsign_def bind_result_eq_Inr)
qed

lemma in_bounds_beam:
  "in_bounds width_bounds x \<longleftrightarrow> 0 < x \<and> x \<le> 360"
  "in_bounds azimuth_bounds x \<longleftrightarrow> 0 \<le> x \<and> x < 360"
  by (auto simp: in_bounds_def below_bound_def above_bound_def width_bounds_def azimuth_bounds_def)

lemma check_width_Inr:
  "check_width p = Inr v \<longleftrightarrow>
     (\<exists>w. dict_get p ''beam_width_deg'' = Some w \<and> v = stored w \<and> representable w \<and> numeric_ok True width_bounds v)"
proof (cases "dict_get p ''beam_width_deg''")
  case None
  then show ?thesis by (simp add: check_width_def getitem_def)
next
  case (Some w)
  then have "check_width p = (if w = JNull \<and> True then Inr JNull
      else bind_result (number ''beam_width_deg'' w) (\<lambda>x. if \<not> in_bounds width_bounds x
        then Inl (ConfigInvalid ''beam_width_deg'' out_of_range) else Inr (JFloat (Fin x))))"
    by (simp add: check_width_def getitem_def in_bounds_beam)
  with Some show ?thesis by (simp only: nullable_number_Inr numeric_ok_iff) auto
qed

lemma check_azimuth_Inr:
  "check_azimuth p = Inr v \<longleftrightarrow>
     (\<exists>w. dict_get p ''beam_azimuth_deg'' = Some w \<and> v = stored w \<and> representable w \<and> numeric_ok True azimuth_bounds v)"
proof (cases "dict_get p ''beam_azimuth_deg''")
  case None
  then show ?thesis by (simp add: check_azimuth_def getitem_def)
next
  case (Some w)
  then have "check_azimuth p = (if w = JNull \<and> True then Inr JNull
      else bind_result (number ''beam_azimuth_deg'' w) (\<lambda>x. if \<not> in_bounds azimuth_bounds x
        then Inl (ConfigInvalid ''beam_azimuth_deg'' out_of_range) else Inr (JFloat (Fin x))))"
    by (simp add: check_azimuth_def getitem_def in_bounds_beam)
  with Some show ?thesis by (simp only: nullable_number_Inr numeric_ok_iff) auto
qed

lemma check_pair_Inr [simp]: "check_pair out f g = Inr u \<longleftrightarrow> paired out f g"
  by (simp add: check_pair_def paired_def)

lemma sort_eq_Nil: "sort xs = [] \<longleftrightarrow> xs = []"
  by (metis set_empty set_sort)

lemma keys_checks:
  "(filter (\<lambda>k. k \<notin> set REQUIRED) (dict_keys d) = [] \<and> filter (\<lambda>k. \<not> dict_has d k) REQUIRED = [])
     \<longleftrightarrow> set (dict_keys d) = set REQUIRED"
  by (auto simp: filter_empty_conv dict_has_keys)

definition assembled :: "(string, json) dict \<Rightarrow> json \<Rightarrow> json \<Rightarrow> json \<Rightarrow> (string, json) dict" where
  "assembled out c w a = dict_set (dict_set (dict_set out ''tx_callsign'' c)
                       ''beam_width_deg'' w) ''beam_azimuth_deg'' a"

lemma validate_config_Inr:
  "validate_config payload = Inr out \<longleftrightarrow>
     (\<exists>d n c w a. payload = JObj d \<and> set (dict_keys d) = set REQUIRED \<and>
        check_numeric d NUMERIC_BOUNDS [] = Inr n \<and> check_callsign d = Inr c \<and>
        check_width d = Inr w \<and> check_azimuth d = Inr a \<and> out = assembled n c w a \<and>
        paired out ''rx_lat'' ''rx_lon'' \<and> paired out ''tx_lat'' ''tx_lon'' \<and> \<not> same_point out)"
proof (cases payload)
  case (JObj d)
  have "validate_config (JObj d) = Inr out \<longleftrightarrow>
     sort (filter (\<lambda>k. k \<notin> set REQUIRED) (dict_keys d)) = [] \<and>
     sort (filter (\<lambda>k. \<not> dict_has d k) REQUIRED) = [] \<and>
     (\<exists>n c w a. check_numeric d NUMERIC_BOUNDS [] = Inr n \<and> check_callsign d = Inr c \<and>
        check_width d = Inr w \<and> check_azimuth d = Inr a \<and> out = assembled n c w a \<and>
        paired out ''rx_lat'' ''rx_lon'' \<and> paired out ''tx_lat'' ''tx_lon'' \<and> \<not> same_point out)"
    by (auto simp: validate_config_def assembled_def Let_def bind_result_eq_Inr split: list.splits if_splits)
  with JObj keys_checks [of d] show ?thesis by (auto simp: sort_eq_Nil)
qed (simp_all add: validate_config_def)


subsection \<open>Accepted configurations\<close>

definition store_all :: "(string, json) dict \<Rightarrow> (string, json) dict" where
  "store_all d = map (\<lambda>(k, v). (k, stored v)) d"

lemma store_all_get [simp]: "dict_get (store_all d) k = map_option stored (dict_get d k)"
  by (induction d) (auto simp: store_all_def dict_get_def)

lemma store_all_keys [simp]: "dict_keys (store_all d) = dict_keys d"
  by (simp add: store_all_def dict_keys_def split_def)

lemma dict_ok_store_all [simp]: "dict_ok (store_all d) = dict_ok d"
  by (simp add: store_all_def dict_ok_def split_def comp_def)

lemma numeric_fields_distinct: "distinct (map fst NUMERIC_BOUNDS)"
  by (simp add: NUMERIC_BOUNDS_def)

lemma numeric_fields_others:
  "''tx_callsign'' \<notin> fst ` set NUMERIC_BOUNDS" "''beam_width_deg'' \<notin> fst ` set NUMERIC_BOUNDS"
  "''beam_azimuth_deg'' \<notin> fst ` set NUMERIC_BOUNDS"
  by (simp_all add: NUMERIC_BOUNDS_def)

lemma numeric_field_ne:
  "k \<in> fst ` set NUMERIC_BOUNDS \<Longrightarrow>
     k \<noteq> ''tx_callsign'' \<and> k \<noteq> ''beam_width_deg'' \<and> k \<noteq> ''beam_azimuth_deg''"
  using numeric_fields_others by (intro conjI notI) (simp_all only:)

lemma required_set:
  "set REQUIRED = fst ` set NUMERIC_BOUNDS \<union> {''tx_callsign'', ''beam_width_deg'', ''beam_azimuth_deg''}"
  by (simp add: REQUIRED_def dict_keys_def UNTABLED_PROPERTIES_def)

lemma required_members:
  "''tx_callsign'' \<in> set REQUIRED" "''beam_width_deg'' \<in> set REQUIRED" "''beam_azimuth_deg'' \<in> set REQUIRED"
  by (simp_all add: required_set)

lemma assembled_get:
  "dict_get (assembled n c w a) k =
     (if k = ''beam_azimuth_deg'' then Some a else if k = ''beam_width_deg'' then Some w
      else if k = ''tx_callsign'' then Some c else dict_get n k)"
  by (simp add: assembled_def)

lemma callsign_ok_stored: "callsign_ok v \<Longrightarrow> stored v = v" "callsign_ok (stored v) \<longleftrightarrow> callsign_ok v"
  "callsign_ok v \<Longrightarrow> representable v"
  by (cases v; simp add: representable_def)+

lemma assembled_is_stored:
  assumes keys: "set (dict_keys d) = set REQUIRED"
    and n: "check_numeric d NUMERIC_BOUNDS [] = Inr n" and c: "check_callsign d = Inr c"
    and w: "check_width d = Inr w" and a: "check_azimuth d = Inr a"
  shows "dict_get (assembled n c w a) k = map_option stored (dict_get d k)"
proof -
  from check_numeric_Inr [OF n numeric_fields_distinct]
  have num_all: "\<forall>(f, b) \<in> set NUMERIC_BOUNDS. \<exists>v. check_field d f b = Inr v \<and> dict_get n f = Some v"
    and rest: "\<forall>f. f \<notin> fst ` set NUMERIC_BOUNDS \<longrightarrow> dict_get n f = None"
    by auto
  consider (num) b where "(k, b) \<in> set NUMERIC_BOUNDS"
    | (callsign) "k = ''tx_callsign''" | (width) "k = ''beam_width_deg''" | (azimuth) "k = ''beam_azimuth_deg''"
    | (none) "k \<notin> set REQUIRED"
    unfolding required_set by force
  then show ?thesis
  proof cases
    case num
    with num_all obtain v where "check_field d k b = Inr v" "dict_get n k = Some v"
      by blast
    then have "dict_get n k = map_option stored (dict_get d k)" by (auto simp: check_field_Inr)
    moreover have "k \<in> fst ` set NUMERIC_BOUNDS" using imageI [OF num, of fst] by (simp only: fst_conv)
    then have "dict_get (assembled n c w a) k = dict_get n k"
      using numeric_field_ne [of k] by (simp add: assembled_get)
    ultimately show ?thesis by simp
  next
    case callsign
    with c show ?thesis by (simp add: assembled_get check_callsign_Inr callsign_ok_stored(1))
  next
    case width
    from w obtain v where "dict_get d k = Some v" "w = stored v" by (auto simp: width check_width_Inr)
    with width show ?thesis by (simp add: assembled_get)
  next
    case azimuth
    from a obtain v where "dict_get d k = Some v" "a = stored v" by (auto simp: azimuth check_azimuth_Inr)
    with azimuth show ?thesis by (simp add: assembled_get)
  next
    case none
    with keys have "dict_get d k = None" by (metis dict_has_get dict_has_keys)
    moreover have "k \<notin> fst ` set NUMERIC_BOUNDS" "k \<noteq> ''tx_callsign''" "k \<noteq> ''beam_width_deg''"
      "k \<noteq> ''beam_azimuth_deg''"
      using none by (auto simp: required_set)
    ultimately show ?thesis using rest by (simp add: assembled_get)
  qed
qed

lemma config_ok_cong:
  assumes "\<And>k. dict_get d k = dict_get e k" and "dict_ok d" "dict_ok e"
  shows "config_ok d = config_ok e"
proof -
  have "py_get d = py_get e" using assms(1) by (simp add: py_get_def fun_eq_iff)
  moreover have "set (dict_keys d) = set (dict_keys e)"
    using assms(1) dict_has_keys dict_has_get by (metis subsetI subset_antisym)
  ultimately show ?thesis using assms(2,3) by (simp add: config_ok_def paired_def same_point_def)
qed

lemma dict_ok_assembled:
  "check_numeric d NUMERIC_BOUNDS [] = Inr n \<Longrightarrow> dict_ok (assembled n c w a)"
  using check_numeric_Inr [OF _ numeric_fields_distinct] by (simp add: assembled_def)

text \<open>The fields' own checks all pass exactly when each stored value is in its range.\<close>

definition fields_ok :: "(string, json) dict \<Rightarrow> bool" where
  "fields_ok d \<longleftrightarrow> list_all (\<lambda>(f, b). numeric_ok (f \<in> set NULLABLE) b (py_get d f)) NUMERIC_BOUNDS \<and>
     callsign_ok (py_get d ''tx_callsign'') \<and>
     numeric_ok True width_bounds (py_get d ''beam_width_deg'') \<and>
     numeric_ok True azimuth_bounds (py_get d ''beam_azimuth_deg'')"

definition all_representable :: "(string, json) dict \<Rightarrow> bool" where
  "all_representable d \<longleftrightarrow> list_all (\<lambda>f. representable (py_get d f)) REQUIRED"

lemma fields_checked:
  assumes keys: "set (dict_keys d) = set REQUIRED"
  shows "(\<exists>n c w a. check_numeric d NUMERIC_BOUNDS [] = Inr n \<and> check_callsign d = Inr c \<and>
            check_width d = Inr w \<and> check_azimuth d = Inr a)
         \<longleftrightarrow> fields_ok (store_all d) \<and> all_representable d"
proof -
  have get: "\<exists>v. dict_get d f = Some v" if "f \<in> set REQUIRED" for f
    using that keys by (metis dict_has_get dict_has_keys not_None_eq)
  have num: "(\<exists>v. check_field d f b = Inr v) \<longleftrightarrow>
      numeric_ok (f \<in> set NULLABLE) b (py_get (store_all d) f) \<and> representable (py_get d f)"
    if "(f, b) \<in> set NUMERIC_BOUNDS" for f b
  proof -
    have "f \<in> set REQUIRED" using that by (force simp: required_set)
    from get [OF this] show ?thesis by (auto simp: check_field_Inr py_get_def)
  qed
  have "(\<exists>n. check_numeric d NUMERIC_BOUNDS [] = Inr n) \<longleftrightarrow>
      (\<forall>(f, b) \<in> set NUMERIC_BOUNDS. \<exists>v. check_field d f b = Inr v)"
    using check_numeric_Inr [OF _ numeric_fields_distinct] check_numeric_total by blast
  also have "\<dots> \<longleftrightarrow> (\<forall>(f, b) \<in> set NUMERIC_BOUNDS. numeric_ok (f \<in> set NULLABLE) b (py_get (store_all d) f)
      \<and> representable (py_get d f))"
    using num by blast
  finally have 1: "(\<exists>n. check_numeric d NUMERIC_BOUNDS [] = Inr n) \<longleftrightarrow> \<dots>" .
  obtain c w a where "dict_get d ''tx_callsign'' = Some c" "dict_get d ''beam_width_deg'' = Some w"
    "dict_get d ''beam_azimuth_deg'' = Some a"
    using get [of "''tx_callsign''"] get [of "''beam_width_deg''"] get [of "''beam_azimuth_deg''"]
    by (auto simp: required_set)
  then have 2: "(\<exists>v. check_callsign d = Inr v) \<longleftrightarrow> callsign_ok (py_get (store_all d) ''tx_callsign'')"
    and 3: "(\<exists>v. check_width d = Inr v) \<longleftrightarrow>
        numeric_ok True width_bounds (py_get (store_all d) ''beam_width_deg'') \<and> representable (py_get d ''beam_width_deg'')"
    and 4: "(\<exists>v. check_azimuth d = Inr v) \<longleftrightarrow>
        numeric_ok True azimuth_bounds (py_get (store_all d) ''beam_azimuth_deg'') \<and> representable (py_get d ''beam_azimuth_deg'')"
    and 5: "callsign_ok (py_get (store_all d) ''tx_callsign'') \<Longrightarrow> representable (py_get d ''tx_callsign'')"
    by (auto simp: check_callsign_Inr check_width_Inr check_azimuth_Inr py_get_def callsign_ok_stored)
  have 6: "all_representable d \<longleftrightarrow> (\<forall>(f, b) \<in> set NUMERIC_BOUNDS. representable (py_get d f)) \<and>
      representable (py_get d ''tx_callsign'') \<and> representable (py_get d ''beam_width_deg'') \<and>
      representable (py_get d ''beam_azimuth_deg'')"
    by (auto simp: all_representable_def list_all_iff required_set)
  show ?thesis using 1 2 3 4 5 6 by (auto simp: fields_ok_def list_all_iff)
qed


lemma same_point_get: "(\<And>k. dict_get d k = dict_get e k) \<Longrightarrow> same_point d = same_point e"
  by (simp add: same_point_def py_get_def)

lemma paired_get: "(\<And>k. dict_get d k = dict_get e k) \<Longrightarrow> paired d f g = paired e f g"
  by (simp add: paired_def py_get_def)

lemma py_get_store_all: "py_get (store_all d) k = stored (py_get d k)"
  by (simp add: py_get_def split: option.split)

lemma paired_store_all [simp]: "paired (store_all d) f g = paired d f g"
  by (simp add: paired_def py_get_store_all)

lemma config_ok_alt:
  "config_ok d \<longleftrightarrow> dict_ok d \<and> set (dict_keys d) = set REQUIRED \<and> fields_ok d \<and>
     paired d ''rx_lat'' ''rx_lon'' \<and> paired d ''tx_lat'' ''tx_lon'' \<and> \<not> same_point d"
  by (auto simp: config_ok_def fields_ok_def)

text \<open>An accepted configuration stores what the payload gave, field by field.\<close>

lemma validate_get:
  "validate_config (JObj d) = Inr out \<Longrightarrow> dict_get out k = map_option stored (dict_get d k)"
  using assembled_is_stored by (auto simp: validate_config_Inr)

lemma validate_dict_ok: "validate_config p = Inr out \<Longrightarrow> dict_ok out"
  using dict_ok_assembled by (auto simp: validate_config_Inr)

lemma validate_accepts:
  assumes "dict_ok d"
  shows "(\<exists>out. validate_config (JObj d) = Inr out) \<longleftrightarrow> config_ok (store_all d) \<and> all_representable d"
proof (cases "set (dict_keys d) = set REQUIRED")
  case False
  then show ?thesis by (simp add: validate_config_Inr config_ok_def)
next
  case True
  have conds: "paired (assembled n c w a) f g = paired d f g"
      "same_point (assembled n c w a) = same_point (store_all d)"
    if "check_numeric d NUMERIC_BOUNDS [] = Inr n" "check_callsign d = Inr c"
      "check_width d = Inr w" "check_azimuth d = Inr a" for n c w a f g
  proof -
    have "dict_get (assembled n c w a) k = dict_get (store_all d) k" for k
      using assembled_is_stored [OF True that] by simp
    from paired_get [of "assembled n c w a" "store_all d", OF this]
      same_point_get [of "assembled n c w a" "store_all d", OF this]
    show "paired (assembled n c w a) f g = paired d f g"
      "same_point (assembled n c w a) = same_point (store_all d)" by simp_all
  qed
  have "(\<exists>out. validate_config (JObj d) = Inr out) \<longleftrightarrow>
      (\<exists>n c w a. check_numeric d NUMERIC_BOUNDS [] = Inr n \<and> check_callsign d = Inr c \<and>
        check_width d = Inr w \<and> check_azimuth d = Inr a) \<and>
      paired d ''rx_lat'' ''rx_lon'' \<and> paired d ''tx_lat'' ''tx_lon'' \<and> \<not> same_point (store_all d)"
    using True conds by (auto simp: validate_config_Inr)
  with True assms fields_checked [OF True] show ?thesis by (auto simp: config_ok_alt)
qed

lemma validate_config_ok:
  assumes "validate_config (JObj d) = Inr out" and "dict_ok d"
  shows "config_ok out"
proof -
  have "config_ok (store_all d)" using assms validate_accepts by blast
  moreover have "config_ok (store_all d) = config_ok out"
    using validate_get [OF assms(1)] validate_dict_ok [OF assms(1)] assms(2) by (intro config_ok_cong) simp_all
  ultimately show ?thesis by simp
qed

lemma numeric_ok_stored: "numeric_ok nl b v \<Longrightarrow> stored v = v \<and> representable v"
  by (auto simp: numeric_ok_iff representable_def)

lemma config_ok_stored:
  assumes "config_ok d" and "k \<in> set REQUIRED"
  shows "stored (py_get d k) = py_get d k \<and> representable (py_get d k)"
proof -
  note num = numeric_ok_stored
  consider b where "(k, b) \<in> set NUMERIC_BOUNDS" | "k = ''tx_callsign''" | "k = ''beam_width_deg''"
    | "k = ''beam_azimuth_deg''"
    using assms(2) unfolding required_set by force
  then show ?thesis
  proof cases
    case 1
    with assms(1) have "numeric_ok (k \<in> set NULLABLE) b (py_get d k)"
      unfolding config_ok_def list_all_iff by fast
    then show ?thesis by (rule num)
  next
    case 2
    with assms(1) show ?thesis by (simp add: config_ok_def callsign_ok_stored)
  next
    case 3
    with assms(1) show ?thesis by (simp add: config_ok_def num [of True width_bounds])
  next
    case 4
    with assms(1) show ?thesis by (simp add: config_ok_def num [of True azimuth_bounds])
  qed
qed

lemma config_ok_store_all:
  assumes "config_ok d"
  shows "dict_get (store_all d) k = dict_get d k"
proof (cases "dict_get d k")
  case (Some v)
  then have "k \<in> set REQUIRED" using assms dict_has_keys dict_has_get by (metis config_ok_def option.distinct(1))
  from config_ok_stored [OF assms this] Some show ?thesis by (simp add: py_get_def)
qed simp

subsection \<open>The published schema against the validator\<close>

text \<open>Every bound of the table has a finite low end and a finite or absent high end.\<close>

fun bounds_shape :: "bounds \<Rightarrow> bool" where
  "bounds_shape (Fin _, Fin _, _, _) = True"
| "bounds_shape (Fin _, PosInf, _, _) = True"
| "bounds_shape _ = False"

lemma bounds_shapes: "(f, b) \<in> set NUMERIC_BOUNDS \<Longrightarrow> bounds_shape b"
proof -
  have "list_all (\<lambda>(f, b). bounds_shape b) NUMERIC_BOUNDS" by (simp add: NUMERIC_BOUNDS_def)
  then show "(f, b) \<in> set NUMERIC_BOUNDS \<Longrightarrow> bounds_shape b" unfolding list_all_iff by fast
qed

lemma numeric_property_bounds:
  "bounds_shape b \<Longrightarrow> bound_holds (numeric_property b) (Fin x) \<longleftrightarrow> in_bounds b x"
  "schema_type (numeric_property b) = ''number''"
  by (cases b rule: bounds_shape.cases; auto simp: numeric_property_def type_schema_def bound_holds_def
      in_bounds_def below_bound_def above_bound_def Let_def)+

lemma satisfies_number:
  assumes "schema_type s = ''number''"
  shows "satisfies s v \<longleftrightarrow> (\<exists>x. stored v = JFloat (Fin x) \<and> bound_holds s (Fin x))"
proof (cases v)
  case (JFloat f)
  then show ?thesis using assms by (cases f) auto
qed (use assms in auto)


lemma dict_get_map: "dict_get (map (\<lambda>(f, s). (f, g f s)) xs) k = map_option (g k) (dict_get xs k)"
  by (induction xs) (auto simp: dict_get_def)

lemma dict_get_append:
  "dict_get (xs @ ys) k = (case dict_get xs k of None \<Rightarrow> dict_get ys k | Some v \<Rightarrow> Some v)"
  by (simp add: dict_get_def map_add_def split: option.split)

lemma dict_get_numeric: "(f, b) \<in> set NUMERIC_BOUNDS \<Longrightarrow> dict_get NUMERIC_BOUNDS f = Some b"
  using dict_mem_get numeric_fields_distinct by (simp add: dict_ok_def)

lemma nullable_numeric:
  "f \<in> fst ` set NUMERIC_BOUNDS \<Longrightarrow> f \<in> set (NULLABLE @ NULLABLE_BEAM @ NULLABLE_CALLSIGN) \<longleftrightarrow> f \<in> set NULLABLE"
  using numeric_field_ne [of f] by (simp add: NULLABLE_BEAM_def NULLABLE_CALLSIGN_def)

lemma schema_numeric:
  assumes "(f, b) \<in> set NUMERIC_BOUNDS"
  shows "dict_get (properties config_json_schema) f = Some (numeric_property b, f \<in> set NULLABLE)"
  using dict_get_numeric [OF assms] nullable_numeric [of f] imageI [OF assms, of fst]
  by (simp add: config_json_schema_def dict_get_map dict_get_append Let_def del: map_map)

lemma dict_get_none: "k \<notin> fst ` set d \<Longrightarrow> dict_get d k = None"
  by (simp add: dict_get_def map_of_eq_None_iff)

lemma schema_others:
  "dict_get (properties config_json_schema) ''tx_callsign'' =
     Some ((type_schema ''string'')\<lparr>min_length := Some 1, max_length := Some 32\<rparr>, True)"
  "dict_get (properties config_json_schema) ''beam_width_deg'' =
     Some ((type_schema ''number'')\<lparr>exclusive_minimum := Some (Fin 0), maximum := Some (Fin 360)\<rparr>, True)"
  "dict_get (properties config_json_schema) ''beam_azimuth_deg'' =
     Some ((type_schema ''number'')\<lparr>minimum := Some (Fin 0), exclusive_maximum := Some (Fin 360)\<rparr>, True)"
  using numeric_fields_others [THEN dict_get_none]
  by (simp_all add: config_json_schema_def dict_get_map dict_get_append Let_def UNTABLED_PROPERTIES_def
      NULLABLE_BEAM_def NULLABLE_CALLSIGN_def del: map_map) (simp_all add: dict_get_def)

lemma schema_unknown: "f \<notin> set REQUIRED \<Longrightarrow> dict_get (properties config_json_schema) f = None"
  by (simp add: config_json_schema_def dict_get_map dict_get_append Let_def required_set dict_get_none
      UNTABLED_PROPERTIES_def del: map_map)

lemma property_numeric:
  assumes "(f, b) \<in> set NUMERIC_BOUNDS"
  shows "satisfies_property (numeric_property b, nl) v \<longleftrightarrow> numeric_ok nl b (stored v)"
proof -
  note sh = numeric_property_bounds(1) [OF bounds_shapes [OF assms]]
  show ?thesis
    by (auto simp: satisfies_property_def satisfies_number [OF numeric_property_bounds(2)] sh numeric_ok_iff)
qed

lemma property_callsign:
  "satisfies_property ((type_schema ''string'')\<lparr>min_length := Some 1, max_length := Some 32\<rparr>, True) v
     \<longleftrightarrow> callsign_ok (stored v)"
proof (cases v)
  case (JFloat f)
  then show ?thesis by (cases f) (auto simp: satisfies_property_def type_schema_def)
qed (auto simp: satisfies_property_def type_schema_def length_holds_def)

lemma property_beam:
  "satisfies_property ((type_schema ''number'')\<lparr>exclusive_minimum := Some (Fin 0), maximum := Some (Fin 360)\<rparr>, True) v
     \<longleftrightarrow> numeric_ok True width_bounds (stored v)"
  "satisfies_property ((type_schema ''number'')\<lparr>minimum := Some (Fin 0), exclusive_maximum := Some (Fin 360)\<rparr>, True) v
     \<longleftrightarrow> numeric_ok True azimuth_bounds (stored v)"
  by (auto simp: satisfies_property_def satisfies_number type_schema_def numeric_ok_iff in_bounds_beam bound_holds_def)

text \<open>The schema holds of exactly the documents whose fields pass one by one.\<close>

definition field_ok :: "string \<Rightarrow> json \<Rightarrow> bool" where
  "field_ok f v \<longleftrightarrow> (case dict_get (properties config_json_schema) f of
     None \<Rightarrow> False | Some p \<Rightarrow> satisfies_property p v)"

lemma fields_ok_iff:
  "fields_ok (store_all d) \<longleftrightarrow> (\<forall>f \<in> set REQUIRED. field_ok f (py_get d f))"
proof -
  have "(\<forall>f \<in> fst ` set NUMERIC_BOUNDS. field_ok f (py_get d f)) \<longleftrightarrow>
      (\<forall>(f, b) \<in> set NUMERIC_BOUNDS. field_ok f (py_get d f))" by force
  also have "\<dots> \<longleftrightarrow> (\<forall>(f, b) \<in> set NUMERIC_BOUNDS. numeric_ok (f \<in> set NULLABLE) b (stored (py_get d f)))"
    using schema_numeric property_numeric by (fastforce simp: field_ok_def)
  finally show ?thesis
    unfolding required_set ball_Un
    by (simp add: fields_ok_def list_all_iff py_get_store_all field_ok_def schema_others property_callsign
        property_beam conj_assoc del: One_nat_def)
qed

lemma schema_accepts:
  assumes ok: "dict_ok d"
  shows "satisfies_object config_json_schema (JObj d) \<longleftrightarrow>
     set (dict_keys d) = set REQUIRED \<and> fields_ok (store_all d)"
proof -
  have req: "list_all (dict_has d) (required config_json_schema) \<longleftrightarrow> set REQUIRED \<subseteq> set (dict_keys d)"
    by (auto simp: config_json_schema_def Let_def list_all_iff dict_has_keys)
  have add: "additional_properties config_json_schema = False"
    by (simp add: config_json_schema_def Let_def)
  have ent: "list_all (\<lambda>(k, v). case dict_get (properties config_json_schema) k of
         None \<Rightarrow> additional_properties config_json_schema | Some p \<Rightarrow> satisfies_property p v) d
      \<longleftrightarrow> (\<forall>k v. dict_get d k = Some v \<longrightarrow> field_ok k v)"
    using ok unfolding list_all_iff add field_ok_def by (fast dest: dict_get_mem dict_mem_get)
  have unk: "field_ok k v \<Longrightarrow> k \<in> set REQUIRED" for k v
    using schema_unknown by (fastforce simp: field_ok_def)
  have has: "k \<in> set (dict_keys d) \<longleftrightarrow> (\<exists>v. dict_get d k = Some v)" for k
    using dict_has_keys dict_has_get by (metis not_Some_eq)
  have pointwise: "(\<forall>f \<in> set REQUIRED. field_ok f (py_get d f)) \<longleftrightarrow> (\<forall>k v. dict_get d k = Some v \<longrightarrow> field_ok k v)"
    if keys: "set (dict_keys d) = set REQUIRED"
  proof -
    have "py_get d k = v" if "dict_get d k = Some v" for k v using that by (simp add: py_get_def)
    then show ?thesis using has keys by metis
  qed
  have "set (dict_keys d) \<subseteq> set REQUIRED" if "\<forall>k v. dict_get d k = Some v \<longrightarrow> field_ok k v"
    using that unk has by blast
  then show ?thesis
    unfolding satisfies_object.simps req ent fields_ok_iff using pointwise by blast
qed


subsection \<open>The canonical form\<close>

lemma finite_float_json_of_real [simp]: "finite_float (json_of_real x) = x"
  by (cases x) (simp_all add: json_of_real_def)

lemma json_of_real_inject [simp]: "json_of_real x = json_of_real y \<longleftrightarrow> x = y"
  by (metis finite_float_json_of_real)

lemma json_of_real_JNull [simp]: "json_of_real x = JNull \<longleftrightarrow> x = None"
  by (simp add: json_of_real_def split: option.split)

lemma place_cases:
  "place a b = (None, None) \<or> (\<exists>x y. place a b = (Some x, Some y) \<and> (x \<noteq> 0 \<or> y \<noteq> 0))"
  by (auto simp: place_def Let_def)

lemma place_again [simp]: "place (json_of_real (fst (place a b))) (json_of_real (snd (place a b))) = place a b"
  by (auto simp: place_def Let_def)

text \<open>Which value stands for a coordinate: its own field if it is there, else the legacy one.\<close>

definition coordinate :: "(string, json) dict \<Rightarrow> string \<Rightarrow> string \<Rightarrow> json" where
  "coordinate d field legacy = (if dict_has d field then py_get d field else py_get d legacy)"

lemma py_get_set [simp]: "py_get (dict_set d k v) x = (if x = k then v else py_get d x)"
  by (simp add: py_get_def)

lemma py_get_del [simp]: "py_get (dict_del d k) x = (if x = k then JNull else py_get d x)"
  by (simp add: py_get_def)

lemma dict_has_set [simp]: "dict_has (dict_set d k v) x \<longleftrightarrow> x = k \<or> dict_has d x"
  by (simp add: dict_has_get)

definition unlegacied :: "(string, json) dict \<Rightarrow> (string, json) dict" where
  "unlegacied d = dict_del (dict_del (fold_legacy LEGACY_COORDINATES d) ''lat'') ''lon''"

lemma unlegacied_get:
  "dict_get (unlegacied d) k =
     (if k = ''lat'' \<or> k = ''lon'' then None
      else if k = ''rx_lat'' \<and> dict_get d ''rx_lat'' = None then dict_get d ''lat''
      else if k = ''rx_lon'' \<and> dict_get d ''rx_lon'' = None then dict_get d ''lon''
      else dict_get d k)"
  by (auto simp: unlegacied_def LEGACY_COORDINATES_def dict_has_get split: option.splits)

lemma unlegacied_coordinate:
  "py_get (unlegacied d) ''rx_lat'' = coordinate d ''rx_lat'' ''lat''"
  "py_get (unlegacied d) ''rx_lon'' = coordinate d ''rx_lon'' ''lon''"
  "k \<notin> {''lat'', ''lon'', ''rx_lat'', ''rx_lon''} \<Longrightarrow> py_get (unlegacied d) k = py_get d k"
  by (auto simp: py_get_def unlegacied_get coordinate_def dict_has_get)

definition rx_place :: "(string, json) dict \<Rightarrow> real option \<times> real option" where
  "rx_place d = place (coordinate d ''rx_lat'' ''lat'') (coordinate d ''rx_lon'' ''lon'')"

definition tx_place :: "(string, json) dict \<Rightarrow> real option \<times> real option" where
  "tx_place d = place (py_get d ''tx_lat'') (py_get d ''tx_lon'')"

lemma canonical_config_get:
  "dict_get (canonical_config (JObj d)) k =
     (if k = ''rx_lat'' then Some (json_of_real (fst (rx_place d)))
      else if k = ''rx_lon'' then Some (json_of_real (snd (rx_place d)))
      else if k = ''tx_lat'' then Some (json_of_real (fst (tx_place d)))
      else if k = ''tx_lon'' then Some (json_of_real (snd (tx_place d)))
      else if k = ''rx_alt_ft'' then Some (json_of_real (finite_float (py_get d ''rx_alt_ft'')))
      else if k = ''tx_alt_ft'' then Some (json_of_real (finite_float (py_get d ''tx_alt_ft'')))
      else if k = ''lat'' \<or> k = ''lon'' then None
      else dict_get d k)"
proof -
  have "canonical_config (JObj d) =
      float_fields (dict_keys ALTITUDE_DEFAULT_FT) (place_pairs COORDINATE_PAIRS (unlegacied d))"
    by (simp add: canonical_config_def unlegacied_def Let_def)
  then show ?thesis
    by (simp add: COORDINATE_PAIRS_def ALTITUDE_DEFAULT_FT_def dict_keys_def split_def Let_def
        unlegacied_coordinate unlegacied_get rx_place_def tx_place_def)
qed

definition plain_place :: "(string, json) dict \<Rightarrow> string \<Rightarrow> string \<Rightarrow> bool" where
  "plain_place r lat_field lon_field \<longleftrightarrow>
     (case (py_get r lat_field, py_get r lon_field) of
        (JNull, JNull) \<Rightarrow> dict_has r lat_field \<and> dict_has r lon_field
      | (JFloat (Fin x), JFloat (Fin y)) \<Rightarrow> x \<noteq> 0 \<or> y \<noteq> 0
      | _ \<Rightarrow> False)"

fun plain_altitude :: "json \<Rightarrow> bool" where
  "plain_altitude JNull = True"
| "plain_altitude (JFloat (Fin _)) = True"
| "plain_altitude _ = False"

text \<open>The one in-memory shape: each end placed or null on both axes, altitudes a number or
  null, no legacy key.\<close>

definition canonical :: "(string, json) dict \<Rightarrow> bool" where
  "canonical r \<longleftrightarrow> plain_place r ''rx_lat'' ''rx_lon'' \<and> plain_place r ''tx_lat'' ''tx_lon'' \<and>
     plain_altitude (py_get r ''rx_alt_ft'') \<and> plain_altitude (py_get r ''tx_alt_ft'') \<and>
     \<not> dict_has r ''lat'' \<and> \<not> dict_has r ''lon''"

lemma plain_altitude_of_real [simp]: "plain_altitude (json_of_real x)"
  by (cases x) (simp_all add: json_of_real_def)

lemma plain_place_of:
  assumes "dict_get r f = Some (json_of_real (fst (place a b)))" and "dict_get r g = Some (json_of_real (snd (place a b)))"
  shows "plain_place r f g"
  using place_cases [of a b] assms by (auto simp: plain_place_def py_get_def dict_has_get json_of_real_def)

lemma canonical_config_canonical: "canonical (canonical_config (JObj d))"
  unfolding canonical_def
proof (intro conjI)
  show "plain_place (canonical_config (JObj d)) ''rx_lat'' ''rx_lon''"
    by (rule plain_place_of [where a = "coordinate d ''rx_lat'' ''lat''" and b = "coordinate d ''rx_lon'' ''lon''"])
      (simp_all add: canonical_config_get rx_place_def)
  show "plain_place (canonical_config (JObj d)) ''tx_lat'' ''tx_lon''"
    by (rule plain_place_of [where a = "py_get d ''tx_lat''" and b = "py_get d ''tx_lon''"])
      (simp_all add: canonical_config_get tx_place_def)
qed (simp_all add: py_get_def dict_has_get canonical_config_get)


subsection \<open>Errors\<close>

lemma getitem_Inl: "getitem d k = Inl e \<longleftrightarrow> e = KeyError k \<and> dict_get d k = None"
  by (auto simp: getitem_def split: option.split)

lemma number_Inl: "number f v = Inl e \<Longrightarrow> \<exists>r. e = ConfigInvalid f r"
  by (auto simp: number_def split: sum.splits)

lemma check_field_Inl: "check_field p f b = Inl (KeyError k) \<Longrightarrow> dict_get p f = None"
  by (auto simp: check_field_def bind_result_eq_Inl getitem_Inl split: if_splits dest!: number_Inl)

lemma check_numeric_Inl:
  "check_numeric p bs out = Inl (KeyError k) \<Longrightarrow> \<exists>f \<in> fst ` set bs. dict_get p f = None"
proof (induction bs arbitrary: out)
  case Nil
  then show ?case by simp
next
  case (Cons fb bs)
  obtain f b where fb: "fb = (f, b)" by (cases fb)
  from Cons.prems fb consider "check_field p f b = Inl (KeyError k)"
    | v where "check_numeric p bs (dict_set out f v) = Inl (KeyError k)"
    by (auto simp: bind_result_eq_Inl)
  then show ?case
  proof cases
    case 1
    with check_field_Inl fb show ?thesis by fastforce
  next
    case 2
    with Cons.IH show ?thesis by fastforce
  qed
qed

lemma callsign_value_Inl: "callsign_value v = Inl e \<Longrightarrow> \<exists>f r. e = ConfigInvalid f r"
  by (cases v rule: callsign_value.cases) (auto split: if_splits)

lemma check_others_Inl:
  "check_callsign p = Inl (KeyError k) \<Longrightarrow> dict_get p ''tx_callsign'' = None"
  "check_width p = Inl (KeyError k) \<Longrightarrow> dict_get p ''beam_width_deg'' = None"
  "check_azimuth p = Inl (KeyError k) \<Longrightarrow> dict_get p ''beam_azimuth_deg'' = None"
  by (auto simp: check_callsign_def check_width_def check_azimuth_def bind_result_eq_Inl getitem_Inl
      split: if_splits dest!: number_Inl callsign_value_Inl)

subsection \<open>Properties\<close>

text \<open>Whatever JSON object is offered, a configuration the validator returns has exactly the
  fifteen fields, every number finite and inside its published interval, each latitude given
  with its longitude, and the receiver apart from the illuminator.\<close>

theorem validate_config_sound:
  assumes "dict_ok d" and "validate_config (JObj d) = Inr out"
  shows "config_ok out"
  using assms by (rule validate_config_ok [rotated])

definition sample_config :: "(string, json) dict" where
  "sample_config = [(''rx_lat'', JInt 38), (''rx_lon'', JFloat (Fin (-77))), (''rx_alt_ft'', JNull),
     (''tx_lat'', JFloat (Fin (77 / 2))), (''tx_lon'', JInt (-78)), (''tx_alt_ft'', JInt 900),
     (''fc_hz'', JInt 195000000), (''fs_hz'', JInt 2000000), (''max_range_km'', JInt 60),
     (''cpi_s'', JFloat (Fin (1 / 2))), (''delay_tolerance_us'', JInt 10), (''doppler_tolerance_hz'', JInt 5),
     (''tx_callsign'', JStr ''WETA''), (''beam_width_deg'', JNull), (''beam_azimuth_deg'', JNull)]"

lemma sample_config_facts:
  "dict_ok sample_config" "config_ok (store_all sample_config)" "all_representable sample_config"
proof -
  show ok: "dict_ok sample_config" by (simp add: dict_ok_def sample_config_def)
  show "all_representable sample_config"
    by (simp add: all_representable_def REQUIRED_def NUMERIC_BOUNDS_def UNTABLED_PROPERTIES_def dict_keys_def
        py_get_def dict_get_def sample_config_def representable_def float_of_int_def float_overflow_def)
  have "fields_ok (store_all sample_config)"
    by (simp add: fields_ok_def NUMERIC_BOUNDS_def NULLABLE_def in_bounds_def below_bound_def above_bound_def
        width_bounds_def azimuth_bounds_def py_get_def dict_get_def store_all_def sample_config_def)
  moreover have "set (dict_keys sample_config) = set REQUIRED"
    by (simp add: sample_config_def REQUIRED_def NUMERIC_BOUNDS_def UNTABLED_PROPERTIES_def dict_keys_def)
  moreover have "paired sample_config ''rx_lat'' ''rx_lon''" "paired sample_config ''tx_lat'' ''tx_lon''"
    by (simp_all add: paired_def py_get_def dict_get_def sample_config_def)
  moreover have "\<not> same_point (store_all sample_config)"
    by (simp add: same_point_def py_get_def dict_get_def store_all_def sample_config_def MIN_BASELINE_DEG_def)
  ultimately show "config_ok (store_all sample_config)" using ok by (simp add: config_ok_alt)
qed

theorem validate_config_sound_witness:
  "\<exists>out. validate_config (JObj sample_config) = Inr out \<and> config_ok out"
  using validate_accepts [OF sample_config_facts(1)] sample_config_facts
    validate_config_sound [OF sample_config_facts(1)] by blast

text \<open>C3: The published JSON Schema is necessary, and what it leaves out is exactly this: an int too
  large for a double, half a coordinate pair, and a receiver on top of its illuminator.\<close>

theorem schema_equivalence:
  assumes "dict_ok d"
  shows "(\<exists>out. validate_config (JObj d) = Inr out) \<longleftrightarrow>
     satisfies_object config_json_schema (JObj d) \<and> all_representable d \<and>
     paired d ''rx_lat'' ''rx_lon'' \<and> paired d ''tx_lat'' ''tx_lon'' \<and> \<not> same_point (store_all d)"
  using validate_accepts [OF assms] schema_accepts [OF assms] assms by (auto simp: config_ok_alt)

theorem schema_equivalence_witness:
  "satisfies_object config_json_schema (JObj sample_config)"
  using schema_equivalence [OF sample_config_facts(1)] validate_accepts [OF sample_config_facts(1)]
    sample_config_facts(2,3) by blast

text \<open>Resubmitting what the validator returned is accepted and changes nothing.\<close>

theorem validate_config_idempotent:
  assumes "dict_ok d" and "validate_config (JObj d) = Inr out"
  shows "\<exists>out'. validate_config (JObj out) = Inr out' \<and> (\<forall>k. dict_get out' k = dict_get out k)"
proof -
  have ok: "config_ok out" using validate_config_ok assms by blast
  have dok: "dict_ok out" using ok by (simp add: config_ok_def)
  have "config_ok (store_all out)"
    using config_ok_cong [of "store_all out" out] config_ok_store_all [OF ok] ok dok by simp
  moreover have "all_representable out"
    using config_ok_stored [OF ok] by (simp add: all_representable_def list_all_iff)
  ultimately obtain out' where "validate_config (JObj out) = Inr out'"
    using validate_accepts [OF dok] by blast
  with validate_get [OF this] config_ok_store_all [OF ok] show ?thesis by auto
qed

theorem validate_config_idempotent_witness:
  "\<exists>out out'. validate_config (JObj sample_config) = Inr out \<and> validate_config (JObj out) = Inr out'"
  using validate_accepts [OF sample_config_facts(1)] sample_config_facts
    validate_config_idempotent [OF sample_config_facts(1)] by blast

text \<open>The validator answers every value JSON can express: it never raises a \<open>KeyError\<close> out of
  the route, and an unknown key is refused by naming the least one, whatever else is wrong.\<close>

theorem validate_config_errors:
  "validate_config p \<noteq> Inl (KeyError k) \<and>
   (p = JObj d \<and> unknown \<in> set (dict_keys d) - set REQUIRED \<longrightarrow>
      validate_config p = Inl (ConfigInvalid (Min (set (dict_keys d) - set REQUIRED)) ''unknown field''))"
proof
  show "validate_config p \<noteq> Inl (KeyError k)"
  proof
    assume err: "validate_config p = Inl (KeyError k)"
    then obtain d where p: "p = JObj d" by (cases p) (auto simp: validate_config_def)
    have keys: "set (dict_keys d) = set REQUIRED"
      using err p keys_checks [of d] by (auto simp: validate_config_def sort_eq_Nil split: list.splits)
    have get: "dict_get d f \<noteq> None" if "f \<in> set REQUIRED" for f
      using that keys by (metis dict_has_get dict_has_keys)
    have "\<forall>f \<in> fst ` set NUMERIC_BOUNDS. dict_get d f \<noteq> None"
      using get unfolding required_set by simp
    then have "check_numeric d NUMERIC_BOUNDS [] \<noteq> Inl (KeyError k)"
      by (rule contrapos_pn) (drule check_numeric_Inl, simp)
    moreover have "check_callsign d \<noteq> Inl (KeyError k)"
      by (rule contrapos_nn [OF get [OF required_members(1)] check_others_Inl(1)])
    moreover have "check_width d \<noteq> Inl (KeyError k)"
      by (rule contrapos_nn [OF get [OF required_members(2)] check_others_Inl(2)])
    moreover have "check_azimuth d \<noteq> Inl (KeyError k)"
      by (rule contrapos_nn [OF get [OF required_members(3)] check_others_Inl(3)])
    ultimately have "False"
      using err p
      by (auto simp: validate_config_def Let_def bind_result_eq_Inl check_pair_def
          split: list.splits if_splits)
    then show False .
  qed
  show "p = JObj d \<and> unknown \<in> set (dict_keys d) - set REQUIRED \<longrightarrow>
      validate_config p = Inl (ConfigInvalid (Min (set (dict_keys d) - set REQUIRED)) ''unknown field'')"
  proof
    assume a: "p = JObj d \<and> unknown \<in> set (dict_keys d) - set REQUIRED"
    let ?u = "filter (\<lambda>k. k \<notin> set REQUIRED) (dict_keys d)"
    have "set ?u = set (dict_keys d) - set REQUIRED" by auto
    moreover from this a have "?u \<noteq> []" by (metis empty_iff list.set(1))
    then obtain x xs where x: "sort ?u = x # xs" by (cases "sort ?u") (auto simp: sort_eq_Nil)
    moreover have "sorted (x # xs)" unfolding x [symmetric] by (rule sorted_sort)
    then have "x = Min (set (x # xs))" by (intro Min_eqI [symmetric]) auto
    then have "x = Min (set ?u)" unfolding x [symmetric] by (simp only: set_sort)
    ultimately show "validate_config p = Inl (ConfigInvalid (Min (set (dict_keys d) - set REQUIRED)) ''unknown field'')"
      using a by (simp add: validate_config_def)
  qed
qed

theorem validate_config_errors_witness:
  "validate_config (JObj [(''zz'', JNull), (''aa'', JInt 1)]) = Inl (ConfigInvalid ''aa'' ''unknown field'')"
proof -
  have diff: "set (dict_keys [(''zz'', JNull), (''aa'', JInt 1)]) - set REQUIRED = {''zz'', ''aa''}"
    by (simp add: dict_keys_def REQUIRED_def NUMERIC_BOUNDS_def UNTABLED_PROPERTIES_def)
  have "Min {''zz'', ''aa''} = ''aa''" by (simp add: less_eq_char_def)
  then show ?thesis
    using validate_config_errors [of "JObj [(''zz'', JNull), (''aa'', JInt 1)]" undefined
        "[(''zz'', JNull), (''aa'', JInt 1)]" "''zz''"]
    by (simp add: diff)
qed


lemma canonical_places:
  "rx_place (canonical_config (JObj d)) = rx_place d" "tx_place (canonical_config (JObj d)) = tx_place d"
  by (simp_all add: rx_place_def tx_place_def coordinate_def py_get_def dict_has_get canonical_config_get)

text \<open>Whatever JSON object a node's config is, its canonical form has each end placed by two
  finite numbers that are not both zero or null on both axes, altitudes that are numbers or
  null and no legacy key, and canonicalising again changes nothing.\<close>

theorem canonical_config_normal_form:
  "canonical (canonical_config (JObj d)) \<and>
   dict_get (canonical_config (JObj (canonical_config (JObj d)))) k = dict_get (canonical_config (JObj d)) k"
proof
  show "canonical (canonical_config (JObj d))" by (rule canonical_config_canonical)
  have "py_get (canonical_config (JObj d)) ''rx_alt_ft'' = json_of_real (finite_float (py_get d ''rx_alt_ft''))"
    "py_get (canonical_config (JObj d)) ''tx_alt_ft'' = json_of_real (finite_float (py_get d ''tx_alt_ft''))"
    by (simp_all add: py_get_def canonical_config_get)
  then show "dict_get (canonical_config (JObj (canonical_config (JObj d)))) k = dict_get (canonical_config (JObj d)) k"
    unfolding canonical_config_get [of "canonical_config (JObj d)"] canonical_places
    by (simp add: canonical_config_get)
qed

text \<open>What the validator accepts is already canonical, but for an end at exactly (0, 0).\<close>

definition at_origin :: "(string, json) dict \<Rightarrow> string \<Rightarrow> string \<Rightarrow> bool" where
  "at_origin d f g \<longleftrightarrow> py_get d f = JFloat (Fin 0) \<and> py_get d g = JFloat (Fin 0)"

lemma numeric_value:
  assumes "config_ok d" and "(f, b) \<in> set NUMERIC_BOUNDS"
  shows "\<exists>x. dict_get d f = Some (json_of_real x)"
proof -
  have num: "numeric_ok (f \<in> set NULLABLE) b (py_get d f)"
    using assms unfolding config_ok_def list_all_iff by fast
  have "f \<in> set REQUIRED" using imageI [OF assms(2), of fst] unfolding required_set by simp
  then obtain v where v: "dict_get d f = Some v"
    using assms(1) dict_has_keys dict_has_get by (metis config_ok_def not_None_eq)
  with num show ?thesis by (force simp: py_get_def numeric_ok_iff json_of_real_def split: option.splits)
qed

lemma coordinate_fields:
  "\<exists>b. (''rx_lat'', b) \<in> set NUMERIC_BOUNDS" "\<exists>b. (''rx_lon'', b) \<in> set NUMERIC_BOUNDS"
  "\<exists>b. (''tx_lat'', b) \<in> set NUMERIC_BOUNDS" "\<exists>b. (''tx_lon'', b) \<in> set NUMERIC_BOUNDS"
  "\<exists>b. (''rx_alt_ft'', b) \<in> set NUMERIC_BOUNDS" "\<exists>b. (''tx_alt_ft'', b) \<in> set NUMERIC_BOUNDS"
  by (auto simp: NUMERIC_BOUNDS_def)

lemma place_json:
  assumes "(x = None) = (y = None)" and "\<not> (x = Some 0 \<and> y = Some 0)"
  shows "place (json_of_real x) (json_of_real y) = (x, y)"
  using assms by (auto simp: place_def Let_def)

lemma legacy_absent: "config_ok d \<Longrightarrow> dict_get d ''lat'' = None \<and> dict_get d ''lon'' = None"
proof -
  assume "config_ok d"
  then have "set (dict_keys d) = set REQUIRED" by (simp add: config_ok_def)
  moreover have "''lat'' \<notin> set REQUIRED" "''lon'' \<notin> set REQUIRED"
    by (simp_all add: REQUIRED_def NUMERIC_BOUNDS_def UNTABLED_PROPERTIES_def dict_keys_def)
  ultimately show ?thesis by (metis dict_has_get dict_has_keys)
qed

text \<open>Canonicalising a validated configuration keeps every field of it, nulls included, unless
  an end stands at exactly (0, 0): the form corrects and never invents.\<close>

theorem canonical_keeps_validated:
  assumes "dict_ok d" and "validate_config (JObj d) = Inr out"
    and rx: "\<not> at_origin out ''rx_lat'' ''rx_lon''" and tx: "\<not> at_origin out ''tx_lat'' ''tx_lon''"
  shows "dict_get (canonical_config (JObj out)) k = dict_get out k"
proof -
  have ok: "config_ok out" using validate_config_ok assms(1,2) by blast
  note val = numeric_value [OF ok]
  obtain a b c e f g where v: "dict_get out ''rx_lat'' = Some (json_of_real a)"
      "dict_get out ''rx_lon'' = Some (json_of_real b)" "dict_get out ''tx_lat'' = Some (json_of_real c)"
      "dict_get out ''tx_lon'' = Some (json_of_real e)" "dict_get out ''rx_alt_ft'' = Some (json_of_real f)"
      "dict_get out ''tx_alt_ft'' = Some (json_of_real g)"
    using val coordinate_fields by meson
  have pair: "(a = None) = (b = None)" "(c = None) = (e = None)"
    using ok v by (simp_all add: config_ok_def paired_def py_get_def)
  have zero: "json_of_real x = JFloat (Fin 0) \<longleftrightarrow> x = Some 0" for x
    by (simp add: json_of_real_def split: option.split)
  have "rx_place out = (a, b)" "tx_place out = (c, e)"
    using v pair rx tx place_json
    by (simp_all add: rx_place_def tx_place_def coordinate_def dict_has_get py_get_def at_origin_def zero)
  then show ?thesis
    using v legacy_absent [OF ok] by (simp add: canonical_config_get py_get_def)
qed

theorem canonical_keeps_validated_witness:
  "\<exists>out. validate_config (JObj sample_config) = Inr out \<and>
     dict_get (canonical_config (JObj out)) ''rx_alt_ft'' = dict_get out ''rx_alt_ft''"
proof -
  obtain out where out: "validate_config (JObj sample_config) = Inr out"
    using validate_accepts [OF sample_config_facts(1)] sample_config_facts by blast
  have "\<not> at_origin out ''rx_lat'' ''rx_lon''" "\<not> at_origin out ''tx_lat'' ''tx_lon''"
    by (simp_all add: at_origin_def py_get_def validate_get [OF out])
      (simp_all add: sample_config_def dict_get_def)
  from canonical_keeps_validated [OF sample_config_facts(1) out this] out show ?thesis by blast
qed

end
