(* ===== verification/ConfigStore.thy ===== *)
theory ConfigStore
  imports NodeConfig
begin

text \<open>
  The configuration versions of \<open>services/node_config_store.py\<close>: the \<open>node_configs\<close> table of
  \<open>core/nodes.py\<close> as a list of rows in insertion order, the version a node runs under, and
  the upsert both registration and \<open>PUT /v1/nodes/config\<close> answer from.  Nothing here commits:
  an operation that raises leaves the table as it was, which is the caller's rollback.
\<close>

named_theorems store_simps "reading the tables"

subsection \<open>The table\<close>

text \<open>\<open>config_of\<close> are the fifteen configuration columns; a null column reads as \<open>JNull\<close>.\<close>

record config_row =
  row_node :: string
  version :: int
  config_of :: "(string, json) dict"
  created_at :: real
  superseded_at :: "real option"

datatype store_error = MissingField string | UnknownColumn string | DuplicateVersion string int

definition CONFIG_FIELDS :: "string list" where
  "CONFIG_FIELDS = [''rx_lat'', ''rx_lon'', ''rx_alt_ft'', ''tx_lat'', ''tx_lon'', ''tx_alt_ft'', ''tx_callsign'',
     ''fc_hz'', ''fs_hz'', ''beam_width_deg'', ''beam_azimuth_deg'', ''max_range_km'', ''cpi_s'',
     ''delay_tolerance_us'', ''doppler_tolerance_hz'']"

text \<open>Python's \<open>==\<close> on what a column holds: a null, a number or a string.\<close>

fun numeric_value_of :: "json \<Rightarrow> py_float option" where
  "numeric_value_of (JInt i) = Some (Fin (of_int i))"
| "numeric_value_of (JFloat x) = Some x"
| "numeric_value_of (JBool b) = Some (Fin (if b then 1 else 0))"
| "numeric_value_of _ = None"

definition py_eq :: "json \<Rightarrow> json \<Rightarrow> bool" where
  "py_eq v w =
     (case (numeric_value_of v, numeric_value_of w) of
        (Some x, Some y) \<Rightarrow> x = y \<and> x \<noteq> NaN
      | (None, None) \<Rightarrow> v = w
      | _ \<Rightarrow> False)"

definition versions_of :: "config_row list \<Rightarrow> string \<Rightarrow> int list" where
  "versions_of rows node_id = map version (filter (\<lambda>r. row_node r = node_id) rows)"

definition active_config :: "config_row list \<Rightarrow> string \<Rightarrow> config_row option" where
  "active_config rows node_id =
     (case rev (sort_key version (filter (\<lambda>r. row_node r = node_id \<and> superseded_at r = None) rows)) of
        [] \<Rightarrow> None
      | r # _ \<Rightarrow> Some r)"

definition config_fields :: "config_row \<Rightarrow> (string, json) dict" where
  "config_fields r = map (\<lambda>f. (f, py_get (config_of r) f)) CONFIG_FIELDS"

text \<open>The comparison of \<open>upsert_config\<close>, field by field and stopping at the first difference.\<close>

fun same_fields :: "string list \<Rightarrow> config_row \<Rightarrow> (string, json) dict \<Rightarrow> store_error + bool" where
  "same_fields [] r config = Inr True"
| "same_fields (f # fs) r config =
     (case dict_get config f of
        None \<Rightarrow> Inl (MissingField f)
      | Some v \<Rightarrow> if py_eq (py_get (config_of r) f) v then same_fields fs r config else Inr False)"

definition next_version :: "config_row list \<Rightarrow> string \<Rightarrow> int" where
  "next_version rows node_id =
     (case versions_of rows node_id of [] \<Rightarrow> 1 | v # vs \<Rightarrow> fold max vs v + 1)"

definition supersede :: "real \<Rightarrow> string \<Rightarrow> int \<Rightarrow> config_row list \<Rightarrow> config_row list" where
  "supersede now node_id v rows =
     map (\<lambda>r. if row_node r = node_id \<and> version r = v then r\<lparr>superseded_at := Some now\<rparr> else r) rows"

text \<open>\<open>NodeConfig(**config)\<close> refuses a key that is no column, and the flush a version the node
  already has.\<close>

definition insert_row :: "config_row \<Rightarrow> config_row list \<Rightarrow> store_error + config_row list" where
  "insert_row r rows =
     (case filter (\<lambda>k. k \<notin> set CONFIG_FIELDS) (dict_keys (config_of r)) of
        k # _ \<Rightarrow> Inl (UnknownColumn k)
      | [] \<Rightarrow>
          if version r \<in> set (versions_of rows (row_node r)) then Inl (DuplicateVersion (row_node r) (version r))
          else Inr (rows @ [r]))"

definition upsert_config ::
    "real \<Rightarrow> string \<Rightarrow> (string, json) dict \<Rightarrow> config_row list \<Rightarrow> store_error + (config_row list \<times> int)" where
  "upsert_config now node_id config rows =
     (let active = active_config rows node_id in
      bind_result (case active of None \<Rightarrow> Inr False | Some a \<Rightarrow> same_fields CONFIG_FIELDS a config)
        (\<lambda>same.
          case (active, same) of
            (Some a, True) \<Rightarrow> Inr (rows, version a)
          | _ \<Rightarrow>
             (let v = next_version rows node_id;
                  rows1 = (case active of None \<Rightarrow> rows | Some a \<Rightarrow> supersede now node_id (version a) rows)
              in bind_result (insert_row \<lparr>row_node = node_id, version = v, config_of = config, created_at = now,
                                          superseded_at = None\<rparr> rows1)
                   (\<lambda>rows2. Inr (rows2, v)))))"

subsection \<open>A table the code can have made\<close>

text \<open>One row per (node, version), and at most one row of a node not superseded, its newest.\<close>

definition table_ok :: "config_row list \<Rightarrow> bool" where
  "table_ok rows \<longleftrightarrow> distinct (map (\<lambda>r. (row_node r, version r)) rows) \<and>
     (\<forall>r \<in> set rows. 1 \<le> version r) \<and>
     (\<forall>r \<in> set rows. superseded_at r = None \<longrightarrow> (\<forall>s \<in> set rows. row_node s = row_node r \<longrightarrow> version s \<le> version r))"

text \<open>A configuration as \<open>validate_config\<close> returns it: these fields, and no NaN.\<close>

definition storable :: "(string, json) dict \<Rightarrow> bool" where
  "storable config \<longleftrightarrow> set (dict_keys config) = set CONFIG_FIELDS \<and>
     (\<forall>f \<in> set CONFIG_FIELDS. dict_get config f \<noteq> Some (JFloat NaN))"

lemma fold_max: "fold max vs v = Max (set (v # vs))" for v :: int
  by (simp only: Max.set_eq_fold)

lemma next_version_gt: "w \<in> set (versions_of rows n) \<Longrightarrow> w < next_version rows n"
proof -
  assume "w \<in> set (versions_of rows n)"
  then obtain v vs where vs: "versions_of rows n = v # vs" "w \<in> set (v # vs)"
    by (cases "versions_of rows n") auto
  have "w \<le> Max (set (v # vs))" by (rule Max_ge [OF finite_set vs(2)])
  then show ?thesis using vs(1) by (simp add: next_version_def fold_max del: Max_insert)
qed

lemma versions_of_mem: "v \<in> set (versions_of rows n) \<longleftrightarrow> (\<exists>r \<in> set rows. row_node r = n \<and> version r = v)"
  by (auto simp: versions_of_def)

lemma next_version_pos: "table_ok rows \<Longrightarrow> 1 \<le> next_version rows n"
proof (cases "versions_of rows n")
  case (Cons v vs)
  assume ok: "table_ok rows"
  have "v \<in> set (versions_of rows n)" using Cons by simp
  with ok have "1 \<le> v" by (auto simp: versions_of_mem table_ok_def)
  with next_version_gt [OF \<open>v \<in> set (versions_of rows n)\<close>] show ?thesis by linarith
qed (simp add: next_version_def)

lemma active_config_Some:
  assumes "active_config rows n = Some r"
  shows "r \<in> set rows \<and> row_node r = n \<and> superseded_at r = None"
proof -
  let ?s = "sort_key version (filter (\<lambda>r. row_node r = n \<and> superseded_at r = None) rows)"
  obtain xs where "rev ?s = r # xs" using assms unfolding active_config_def by (auto split: list.splits)
  then have "r \<in> set (rev ?s)" by (metis list.set_intros(1))
  then show ?thesis by (simp add: set_rev)
qed

lemma active_config_None:
  "active_config rows n = None \<longleftrightarrow> (\<forall>r \<in> set rows. row_node r = n \<longrightarrow> superseded_at r \<noteq> None)"
proof -
  let ?f = "filter (\<lambda>r. row_node r = n \<and> superseded_at r = None) rows"
  have "active_config rows n = None \<longleftrightarrow> rev (sort_key version ?f) = []"
    unfolding active_config_def by (cases "rev (sort_key version ?f)") simp_all
  also have "\<dots> \<longleftrightarrow> ?f = []" by (simp only: set_empty [symmetric] set_rev set_sort)
  finally show ?thesis by (auto simp: filter_empty_conv)
qed

lemma same_key_same_row:
  assumes "table_ok rows" and "r \<in> set rows" "s \<in> set rows" and "row_node r = row_node s" "version r = version s"
  shows "r = s"
  using assms inj_onD [of "\<lambda>r. (row_node r, version r)" "set rows" r s]
  by (auto simp: table_ok_def distinct_map)

lemma active_unique:
  assumes ok: "table_ok rows" and r: "r \<in> set rows" "row_node r = n" "superseded_at r = None"
  shows "active_config rows n = Some r"
proof -
  obtain s where s: "active_config rows n = Some s"
    using r active_config_None by (cases "active_config rows n") auto
  note s' = active_config_Some [OF s]
  have "version s \<le> version r" "version r \<le> version s" using ok r s' by (auto simp: table_ok_def)
  then have "r = s" using same_key_same_row [OF ok, of r s] r s' by simp
  with s show ?thesis by simp
qed

subsection \<open>Upserts\<close>

lemma same_fields_get:
  assumes "set fs \<subseteq> set (dict_keys config)"
  shows "same_fields fs r config = Inr (\<forall>f \<in> set fs. py_eq (py_get (config_of r) f) (py_get config f))"
  using assms
proof (induction fs)
  case (Cons f fs)
  then have "dict_get config f \<noteq> None" by (simp add: dict_has_keys [symmetric] dict_has_get)
  with Cons show ?case by (auto simp: py_get_def)
qed simp

lemma py_eq_refl: "v \<noteq> JFloat NaN \<Longrightarrow> py_eq v v"
  by (cases v) (auto simp: py_eq_def)

lemma storable_get: "storable config \<Longrightarrow> f \<in> set CONFIG_FIELDS \<Longrightarrow> dict_get config f = Some (py_get config f)"
  using dict_has_keys [of config f] by (auto simp: storable_def dict_has_get py_get_def)

lemma storable_keys:
  assumes "storable config"
  shows "filter (\<lambda>k. k \<notin> set CONFIG_FIELDS) (dict_keys config) = []"
  using assms by (auto simp: storable_def filter_empty_conv)

lemma py_eq_storable: "storable config \<Longrightarrow> f \<in> set CONFIG_FIELDS \<Longrightarrow> py_eq (py_get config f) (py_get config f)"
  using storable_get [of config f] by (intro py_eq_refl) (auto simp: storable_def)

definition matches :: "config_row \<Rightarrow> (string, json) dict \<Rightarrow> bool" where
  "matches r config \<longleftrightarrow> list_all (\<lambda>f. py_eq (py_get (config_of r) f) (py_get config f)) CONFIG_FIELDS"

text \<open>The two answers an upsert of a validated configuration has.\<close>

definition superseded_by :: "real \<Rightarrow> string \<Rightarrow> config_row list \<Rightarrow> config_row list" where
  "superseded_by now n rows =
     (case active_config rows n of None \<Rightarrow> rows | Some a \<Rightarrow> supersede now n (version a) rows)"

definition new_row :: "real \<Rightarrow> string \<Rightarrow> (string, json) dict \<Rightarrow> config_row list \<Rightarrow> config_row" where
  "new_row now n config rows =
     \<lparr>row_node = n, version = next_version rows n, config_of = config, created_at = now, superseded_at = None\<rparr>"

lemma superseded_keys:
  "map (\<lambda>r. (row_node r, version r)) (superseded_by now n rows) = map (\<lambda>r. (row_node r, version r)) rows"
  "map (\<lambda>r. (row_node r, version r, config_of r, created_at r)) (superseded_by now n rows) =
     map (\<lambda>r. (row_node r, version r, config_of r, created_at r)) rows"
  by (auto simp: superseded_by_def supersede_def split: option.splits)

lemma superseded_versions: "versions_of (superseded_by now n rows) m = versions_of rows m"
proof -
  have "versions_of rows m = map snd (filter (\<lambda>k. fst k = m) (map (\<lambda>r. (row_node r, version r)) rows))" for rows
    by (induction rows) (auto simp: versions_of_def)
  then show ?thesis by (simp only: superseded_keys)
qed

lemma upsert_config_cases:
  assumes "storable config"
  shows "upsert_config now n config rows =
    (case active_config rows n of
       Some a \<Rightarrow> if matches a config then Inr (rows, version a)
                else Inr (superseded_by now n rows @ [new_row now n config rows], next_version rows n)
     | None \<Rightarrow> Inr (superseded_by now n rows @ [new_row now n config rows], next_version rows n))"
proof -
  have keys: "set CONFIG_FIELDS \<subseteq> set (dict_keys config)" using assms by (simp add: storable_def)
  have "next_version rows n \<notin> set (versions_of rows n)" using next_version_gt by blast
  then have ins: "insert_row (new_row now n config rows) (superseded_by now n rows) =
      Inr (superseded_by now n rows @ [new_row now n config rows])"
    by (simp add: insert_row_def new_row_def storable_keys [OF assms] superseded_versions)
  show ?thesis
  proof (cases "active_config rows n")
    case None
    then show ?thesis using ins by (simp add: upsert_config_def Let_def superseded_by_def new_row_def)
  next
    case (Some a)
    show ?thesis
    proof (cases "matches a config")
      case True
      then show ?thesis
        using Some by (simp add: upsert_config_def Let_def same_fields_get [OF keys] matches_def list_all_iff)
    next
      case False
      then have "same_fields CONFIG_FIELDS a config = Inr False"
        by (simp add: same_fields_get [OF keys] matches_def list_all_iff)
      then show ?thesis
        using Some False ins by (simp add: upsert_config_def Let_def superseded_by_def new_row_def)
    qed
  qed
qed

lemma superseded_by_mem:
  assumes ok: "table_ok rows" and r: "r \<in> set (superseded_by now n rows)"
  shows "(r \<in> set rows \<and> (row_node r = n \<longrightarrow> superseded_at r \<noteq> None)) \<or>
    (\<exists>s \<in> set rows. row_node s = n \<and> superseded_at s = None \<and> r = s\<lparr>superseded_at := Some now\<rparr>)"
proof (cases "active_config rows n")
  case None
  with r show ?thesis by (simp add: superseded_by_def active_config_None)
next
  case (Some a)
  note a = active_config_Some [OF Some]
  from r Some obtain s where s: "s \<in> set rows"
      "r = (if row_node s = n \<and> version s = version a then s\<lparr>superseded_at := Some now\<rparr> else s)"
    by (auto simp: superseded_by_def supersede_def)
  show ?thesis
  proof (cases "row_node s = n \<and> version s = version a")
    case True
    then have "s = a" using same_key_same_row [OF ok s(1)] a by auto
    with s True a show ?thesis by auto
  next
    case False
    with s have "r = s" by auto
    moreover from this have "row_node s = n \<longrightarrow> superseded_at s \<noteq> None"
      using active_unique [OF ok s(1)] Some False by (cases "superseded_at s") auto
    ultimately show ?thesis using s by auto
  qed
qed

lemma superseded_by_open:
  assumes "table_ok rows" and "r \<in> set (superseded_by now n rows)" and open_row: "superseded_at r = None"
  shows "r \<in> set rows \<and> row_node r \<noteq> n"
  using superseded_by_mem [OF assms(1,2)]
proof (elim disjE bexE conjE)
  fix s
  assume "r = s\<lparr>superseded_at := Some now\<rparr>"
  then have "superseded_at r = Some now" by simp
  with open_row show ?thesis by simp
qed (use open_row in auto)

lemma superseded_by_other:
  assumes "table_ok rows" and "r \<in> set (superseded_by now n rows)" and "row_node r \<noteq> n"
  shows "r \<in> set rows"
  using superseded_by_mem [OF assms(1,2)]
proof (elim disjE bexE conjE)
  fix s
  assume "r = s\<lparr>superseded_at := Some now\<rparr>" "row_node s = n"
  then have "row_node r = n" by simp
  with assms(3) show ?thesis by simp
qed

lemma table_ok_upsert:
  assumes ok: "table_ok rows"
  shows "table_ok (superseded_by now n rows @ [new_row now n config rows])"
proof -
  let ?rows' = "superseded_by now n rows @ [new_row now n config rows]"
  have fresh: "(n, next_version rows n) \<notin> (\<lambda>r. (row_node r, version r)) ` set rows"
    using next_version_gt [of "next_version rows n" rows n] by (auto simp: versions_of_mem image_iff) metis
  have img: "(\<lambda>r. (row_node r, version r)) ` set (superseded_by now n rows) =
      (\<lambda>r. (row_node r, version r)) ` set rows"
    using superseded_keys(1) [of now n rows] by (metis list.set_map)
  have "distinct (map (\<lambda>r. (row_node r, version r)) ?rows')"
    using ok fresh unfolding map_append superseded_keys
    by (simp add: table_ok_def new_row_def)
  moreover have below: "version r < next_version rows n" if "r \<in> set (superseded_by now n rows)" "row_node r = n" for r
  proof -
    have "(row_node r, version r) \<in> (\<lambda>r. (row_node r, version r)) ` set rows"
      using imageI [OF that(1), of "\<lambda>r. (row_node r, version r)"] by (simp only: img)
    then show ?thesis using that(2) by (intro next_version_gt) (auto simp: versions_of_mem)
  qed
  moreover have "1 \<le> version r" if "r \<in> set ?rows'" for r
    using that superseded_by_mem [OF ok] next_version_pos [OF ok] ok
    by (fastforce simp: new_row_def table_ok_def)
  moreover have "version s \<le> version r"
    if r: "r \<in> set ?rows'" "superseded_at r = None" and s: "s \<in> set ?rows'" "row_node s = row_node r" for r s
  proof (cases "r = new_row now n config rows")
    case True
    then show ?thesis using s below [of s] by (fastforce simp: new_row_def)
  next
    case False
    then have rin: "r \<in> set (superseded_by now n rows)" using r by simp
    from superseded_by_open [OF ok this r(2)] have r': "r \<in> set rows" "row_node r \<noteq> n" by simp_all
    with s have "s \<in> set (superseded_by now n rows)" by (auto simp: new_row_def)
    from superseded_by_other [OF ok this] s(2) r' have "s \<in> set rows" by simp
    with r' r(2) s(2) ok show ?thesis by (auto simp: table_ok_def)
  qed
  ultimately show ?thesis by (auto simp: table_ok_def)
qed

lemma upsert_keeps_ok:
  assumes "table_ok rows" and "storable config" and "upsert_config now n config rows = Inr (rows', v)"
  shows "table_ok rows'"
  using assms table_ok_upsert by (auto simp: upsert_config_cases split: option.splits if_splits)

lemma upsert_active:
  assumes ok: "table_ok rows" and st: "storable config" and u: "upsert_config now n config rows = Inr (rows', v)"
  shows "\<exists>a. active_config rows' n = Some a \<and> version a = v \<and> matches a config"
proof (cases "\<exists>a. active_config rows n = Some a \<and> matches a config")
  case True
  with u st show ?thesis by (auto simp: upsert_config_cases)
next
  case False
  with u st have rows': "rows' = superseded_by now n rows @ [new_row now n config rows]" "v = next_version rows n"
    by (auto simp: upsert_config_cases split: option.splits if_splits)
  have "active_config rows' n = Some (new_row now n config rows)"
    unfolding rows' by (rule active_unique [OF table_ok_upsert [OF ok]]) (simp_all add: new_row_def)
  moreover have "matches (new_row now n config rows) config"
    using py_eq_storable [OF st] by (simp add: matches_def new_row_def list_all_iff)
  ultimately show ?thesis using rows' by (simp add: new_row_def)
qed

text \<open>What a stored detection frame relies on: a version's configuration never changes.\<close>

definition config_at :: "config_row list \<Rightarrow> string \<Rightarrow> int \<Rightarrow> (string, json) dict option" where
  "config_at rows n v = map_option config_of (find (\<lambda>r. row_node r = n \<and> version r = v) rows)"

lemma config_at_superseded: "config_at (superseded_by now n rows) m v = config_at rows m v"
proof -
  have "config_at rows m v =
      map_option (fst \<circ> snd \<circ> snd) (find (\<lambda>k. fst k = m \<and> fst (snd k) = v)
        (map (\<lambda>r. (row_node r, version r, config_of r, created_at r)) rows))" for rows
    by (induction rows) (auto simp: config_at_def)
  then show ?thesis by (simp only: superseded_keys)
qed

lemma config_at_append: "config_at rows m v = Some c \<Longrightarrow> config_at (rows @ xs) m v = Some c"
proof -
  have "find P rows = Some r \<Longrightarrow> find P (rows @ xs) = Some r" for P and r :: config_row
    by (induction rows) auto
  then show "config_at rows m v = Some c \<Longrightarrow> config_at (rows @ xs) m v = Some c"
    by (auto simp: config_at_def)
qed

lemma upsert_keeps_versions:
  assumes "storable config" and "upsert_config now n config rows = Inr (rows', w)" and "config_at rows m v = Some c"
  shows "config_at rows' m v = Some c"
  using assms config_at_append [of "superseded_by now n rows"]
  by (auto simp: upsert_config_cases config_at_superseded split: option.splits if_splits)

lemma upsert_other_node:
  assumes ok: "table_ok rows" and st: "storable config" and u: "upsert_config now n config rows = Inr (rows', w)"
    and m: "m \<noteq> n"
  shows "active_config rows' m = active_config rows m"
proof -
  have "filter (\<lambda>r. row_node r = m \<and> superseded_at r = None) (superseded_by now n rows) =
      filter (\<lambda>r. row_node r = m \<and> superseded_at r = None) rows"
  proof -
    have "filter (\<lambda>r. row_node r = m \<and> superseded_at r = None) (supersede now n v rows) =
        filter (\<lambda>r. row_node r = m \<and> superseded_at r = None) rows" for v
      using m by (induction rows) (auto simp: supersede_def)
    then show ?thesis by (simp add: superseded_by_def split: option.splits)
  qed
  then have "active_config (superseded_by now n rows @ [new_row now n config rows]) m = active_config rows m"
    using m by (simp add: active_config_def new_row_def)
  then show ?thesis using u st by (auto simp: upsert_config_cases split: option.splits if_splits)
qed
lemma numeric_ok_no_nan: "numeric_ok nl b v \<Longrightarrow> v \<noteq> JFloat NaN"
  by auto

lemma config_ok_storable:
  assumes "config_ok d"
  shows "storable d"
proof -
  have req: "set REQUIRED = set CONFIG_FIELDS"
    by (auto simp: REQUIRED_def CONFIG_FIELDS_def dict_keys_def NUMERIC_BOUNDS_def UNTABLED_PROPERTIES_def)
  have "py_get d k \<noteq> JFloat NaN" if k: "k \<in> set REQUIRED" for k
  proof -
    consider b where "(k, b) \<in> set NUMERIC_BOUNDS" | "k = ''tx_callsign''" | "k = ''beam_width_deg''"
      | "k = ''beam_azimuth_deg''"
      using k unfolding required_set by force
    then show ?thesis
    proof cases
      case 1
      with assms have "numeric_ok (k \<in> set NULLABLE) b (py_get d k)"
        unfolding config_ok_def list_all_iff by fast
      then show ?thesis by (rule numeric_ok_no_nan)
    qed (use assms numeric_ok_no_nan in \<open>auto simp: config_ok_def\<close>)
  qed
  then have "dict_get d k \<noteq> Some (JFloat NaN)" if "k \<in> set CONFIG_FIELDS" for k
    using that unfolding req by (metis option.simps(5) py_get_def)
  moreover have "set (dict_keys d) = set CONFIG_FIELDS" using assms by (simp add: config_ok_def req)
  ultimately show ?thesis by (simp add: storable_def)
qed

subsection \<open>Properties\<close>

text \<open>An upsert as a step, its answer the version or the error.\<close>

definition upsert_step :: "config_row list \<Rightarrow> real \<times> string \<times> (string, json) dict \<Rightarrow> config_row list \<times> (store_error + int)" where
  "upsert_step rows q =
     (case upsert_config (fst q) (fst (snd q)) (snd (snd q)) rows of
        Inl e \<Rightarrow> (rows, Inl e)
      | Inr (rows', v) \<Rightarrow> (rows', Inr v))"

lemma table_ok_Nil [simp]: "table_ok []"
  by (simp add: table_ok_def)

lemma upsert_total: "storable config \<Longrightarrow> \<exists>rows' v. upsert_config now n config rows = Inr (rows', v)"
  by (auto simp: upsert_config_cases split: option.splits)

lemma upsert_step_storable:
  assumes "storable (snd (snd q))" and "upsert_step rows q = (rows', out)"
  obtains v where "upsert_config (fst q) (fst (snd q)) (snd (snd q)) rows = Inr (rows', v)" "out = Inr v"
  using assms upsert_total [OF assms(1), of "fst q" "fst (snd q)" rows] by (auto simp: upsert_step_def)

lemma upsert_run:
  assumes "table_ok rows" and "list_all (\<lambda>q. storable (snd (snd q))) qs"
  shows "table_ok (fst (run upsert_step rows qs)) \<and>
    (\<forall>m v c. config_at rows m v = Some c \<longrightarrow> config_at (fst (run upsert_step rows qs)) m v = Some c)"
  using assms
proof (induction qs arbitrary: rows)
  case (Cons q qs)
  obtain rows' out where q: "upsert_step rows q = (rows', out)" by fastforce
  from Cons.prems have st: "storable (snd (snd q))" by simp
  from upsert_step_storable [OF st q] obtain v where
    u: "upsert_config (fst q) (fst (snd q)) (snd (snd q)) rows = Inr (rows', v)" by blast
  note ok = upsert_keeps_ok [OF Cons.prems(1) st u]
  show ?case
    using Cons.IH [OF ok] Cons.prems(2) upsert_keeps_versions [OF st u] q by (auto simp: split_def Let_def)
qed simp

text \<open>Whatever order nodes send their configurations in, the table keeps one row per version and
  at most one in force per node, and the geometry behind a version a detection was stamped
  with reads the same for ever.\<close>

theorem config_versions_append_only:
  assumes "list_all (\<lambda>q. storable (snd (snd q))) (qs @ qs')"
  shows "table_ok (fst (run upsert_step [] (qs @ qs'))) \<and>
     {(n, v, c). config_at (fst (run upsert_step [] qs)) n v = Some c}
       \<subseteq> {(n, v, c). config_at (fst (run upsert_step [] (qs @ qs'))) n v = Some c}"
proof -
  have "table_ok (fst (run upsert_step [] qs))" using upsert_run [of "[]" qs] assms by simp
  from upsert_run [OF this, of qs'] assms show ?thesis
    by (auto simp: run_append split_def Let_def)
qed

text \<open>An upsert answers the version under which the node's configuration is now in force,
  leaves every other node's alone, and sent again, unchanged, it is told the same version
  and writes nothing.\<close>

theorem upsert_config_settles:
  assumes ok: "table_ok rows" and valid: "dict_ok d" "validate_config (JObj d) = Inr config"
  shows "\<exists>rows' v a. upsert_config now n config rows = Inr (rows', v) \<and>
     active_config rows' n = Some a \<and> version a = v \<and> matches a config \<and>
     {m. active_config rows' m \<noteq> active_config rows m} \<subseteq> {n} \<and>
     upsert_config later n config rows' = Inr (rows', v)"
proof -
  have st: "storable config" using valid validate_config_ok config_ok_storable by blast
  obtain rows' v where u: "upsert_config now n config rows = Inr (rows', v)"
    using upsert_total [OF st] by blast
  from upsert_active [OF ok st u] obtain a where
    a: "active_config rows' n = Some a" "version a = v" "matches a config" by blast
  moreover have "upsert_config later n config rows' = Inr (rows', v)"
    using a by (simp add: upsert_config_cases [OF st])
  moreover have "{m. active_config rows' m \<noteq> active_config rows m} \<subseteq> {n}"
    using upsert_other_node [OF ok st u] by auto
  ultimately show ?thesis using u by blast
qed

definition stored_config :: "(string, json) dict" where
  "stored_config = map (\<lambda>f. (f, JFloat (Fin 1))) CONFIG_FIELDS"

lemma storable_stored_config: "storable stored_config"
proof -
  have "map_of (map (\<lambda>f. (f, JFloat (Fin 1))) fs) f \<noteq> Some (JFloat NaN)" for fs :: "string list" and f
    by (induction fs) auto
  then show ?thesis by (simp add: storable_def stored_config_def dict_keys_def dict_get_def o_def)
qed

theorem config_versions_append_only_witness:
  "table_ok (fst (run upsert_step [] [(1, ''n'', stored_config), (2, ''m'', stored_config), (3, ''n'', stored_config)]))"
  using config_versions_append_only [of "[(1, ''n'', stored_config)]" "[(2, ''m'', stored_config), (3, ''n'', stored_config)]"]
  by (simp add: storable_stored_config)

theorem upsert_config_settles_witness:
  "\<exists>config rows' v. validate_config (JObj sample_config) = Inr config \<and>
     upsert_config 5 ''n'' config [] = Inr (rows', v) \<and> upsert_config 9 ''n'' config rows' = Inr (rows', v)"
  using validate_accepts [OF sample_config_facts(1)] sample_config_facts
    upsert_config_settles [OF table_ok_Nil sample_config_facts(1), of _ 5 "''n''" 9] by blast

end
