(* ===== verification/Alerting.thy ===== *)
theory Alerting
  imports PyValues
begin

text \<open>
  The webhook alerter of \<open>services/alerting.py\<close> and the monitor that drives it
  (\<open>services/tasks/health_monitor.py\<close>).  \<open>_last_sent\<close>, \<open>_reopen_at\<close> and \<open>_in_flight\<close> are the
  state the lock guards; a call of \<open>send_alert\<close> that passes the guards opens a delivery, and
  the delivery's thread then advances one lock section or one POST at a time, interleaved with
  every other.  The sink, the wall clock and the jitter are arguments.
\<close>

named_theorems alert_simps "unfolding one alerter action"

subsection \<open>Settings\<close>

definition DEFAULT_COOLDOWN_S :: real where "DEFAULT_COOLDOWN_S = 300"
definition MAX_DELIVERY_ATTEMPTS :: nat where "MAX_DELIVERY_ATTEMPTS = 3"
definition BACKOFF_BASE_S :: real where "BACKOFF_BASE_S = 1 / 2"
definition RETRIABLE_4XX :: "int list" where "RETRIABLE_4XX = [408, 429]"
definition MAX_RETRY_AFTER_S :: real where "MAX_RETRY_AFTER_S = 60"
definition FAILURE_REOPEN_S :: real where "FAILURE_REOPEN_S = 90"

text \<open>The environment as each call reads it; an unset variable is the empty string.\<close>

record alert_env =
  ALERT_WEBHOOK_URL :: string
  ALERT_COOLDOWN_S :: string
  ALERT_WEBHOOK_FORMAT :: string
  ALERT_WEBHOOK_AUTH :: string
  ALERT_ENVIRONMENT :: string

definition webhook_url :: "alert_env \<Rightarrow> string" where
  "webhook_url env = strip (ALERT_WEBHOOK_URL env)"

definition is_enabled :: "alert_env \<Rightarrow> bool" where
  "is_enabled env \<longleftrightarrow> webhook_url env \<noteq> []"

definition cooldown_s :: "alert_env \<Rightarrow> py_float" where
  "cooldown_s env =
     (let raw = strip (ALERT_COOLDOWN_S env)
      in if raw = [] then Fin DEFAULT_COOLDOWN_S
         else (case parse_float raw of Some x \<Rightarrow> x | None \<Rightarrow> Fin DEFAULT_COOLDOWN_S))"

datatype webhook_format = Raw | ClickupChat

definition webhook_format :: "alert_env \<Rightarrow> webhook_format" where
  "webhook_format env = (if strip (ALERT_WEBHOOK_FORMAT env) = ''clickup_chat'' then ClickupChat else Raw)"

definition auth_headers :: "alert_env \<Rightarrow> (string, string) dict" where
  "auth_headers env =
     (let auth = strip (ALERT_WEBHOOK_AUTH env) in if auth = [] then [] else [(''Authorization'', auth)])"

subsection \<open>Retry delays\<close>

definition backoff_window :: "nat \<Rightarrow> real" where
  "backoff_window attempt = BACKOFF_BASE_S * 2 ^ (attempt - 1)"

text \<open>What \<open>random.uniform(window / 2, window)\<close> can have returned.\<close>

definition backoff_draw :: "nat \<Rightarrow> real \<Rightarrow> bool" where
  "backoff_draw attempt draw \<longleftrightarrow> backoff_window attempt / 2 \<le> draw \<and> draw \<le> backoff_window attempt"

text \<open>Python's two-argument \<open>min\<close> and \<open>max\<close> keep the first unless the second beats it, which
  matters when one is NaN.\<close>

definition py_min :: "py_float \<Rightarrow> py_float \<Rightarrow> py_float" where
  "py_min x y = (if py_less y x then y else x)"

definition py_max :: "py_float \<Rightarrow> py_float \<Rightarrow> py_float" where
  "py_max x y = (if py_less x y then y else x)"

definition retry_delay_s :: "real \<Rightarrow> string option \<Rightarrow> py_float" where
  "retry_delay_s draw retry_after =
     (case retry_after of
        None \<Rightarrow> Fin draw
      | Some header \<Rightarrow>
          if header = [] then Fin draw
          else (case parse_float (strip header) of
                  None \<Rightarrow> Fin draw
                | Some requested \<Rightarrow>
                    if py_le requested (Fin 0) then Fin draw
                    else py_max (Fin draw) (py_min requested (Fin MAX_RETRY_AFTER_S))))"

subsection \<open>The payload\<close>

datatype alert_body =
    ChatMessage string
  | RawAlert string string real string string "(string, string) dict"

fun join_lines :: "string list \<Rightarrow> string" where
  "join_lines [] = []"
| "join_lines [l] = l"
| "join_lines (l # ls) = l @ [CHR 0x0A] @ join_lines ls"

definition render_clickup_chat ::
    "string \<Rightarrow> string \<Rightarrow> (string, string) dict \<Rightarrow> string \<Rightarrow> string \<Rightarrow> string" where
  "render_clickup_chat alert_type message meta environment host =
     join_lines ([''**'' @ alert_type @ ''**'', message, ''environment: '' @ environment, ''host: '' @ host]
       @ map (\<lambda>(k, v). k @ '': '' @ v) meta)"

text \<open>\<open>hostname\<close> is what \<open>socket.gethostname()\<close> returned, \<open>None\<close> when it raised.\<close>

definition alert_body :: "alert_env \<Rightarrow> string option \<Rightarrow> real \<Rightarrow> string \<Rightarrow> string \<Rightarrow> (string, string) dict \<Rightarrow> alert_body" where
  "alert_body env hostname now alert_type message meta =
     (let environment = (let e = strip (ALERT_ENVIRONMENT env) in if e = [] then ''unknown'' else e);
          host = (case hostname of None \<Rightarrow> ''unknown'' | Some h \<Rightarrow> if h = [] then ''unknown'' else h)
      in case webhook_format env of
           ClickupChat \<Rightarrow> ChatMessage (render_clickup_chat alert_type message meta environment host)
         | Raw \<Rightarrow> RawAlert alert_type message now environment host meta)"

subsection \<open>The guarded state\<close>

record alerter =
  last_sent :: "(string, real) dict"
  reopen_at :: "(string, real) dict"
  in_flight :: "string set"

definition boot_alerter :: alerter where
  "boot_alerter = \<lparr>last_sent = [], reopen_at = [], in_flight = {}\<rparr>"

definition may_send :: "real \<Rightarrow> py_float \<Rightarrow> string \<Rightarrow> alerter \<Rightarrow> bool" where
  "may_send now cooldown alert_type a \<longleftrightarrow>
     \<not> py_less (Fin (now - dict_get_default (last_sent a) alert_type 0)) cooldown \<and>
     \<not> now < dict_get_default (reopen_at a) alert_type 0 \<and>
     alert_type \<notin> in_flight a"

definition reserve :: "real \<Rightarrow> string \<Rightarrow> alerter \<Rightarrow> alerter" where
  "reserve now alert_type a = a\<lparr>last_sent := dict_set (last_sent a) alert_type now,
     reopen_at := dict_del (reopen_at a) alert_type, in_flight := insert alert_type (in_flight a)\<rparr>"

definition reopen_after_failed_delivery :: "real \<Rightarrow> string \<Rightarrow> alerter \<Rightarrow> alerter" where
  "reopen_after_failed_delivery now alert_type a =
     (if dict_get (last_sent a) alert_type \<noteq> Some now then a
      else a\<lparr>last_sent := dict_del (last_sent a) alert_type,
             reopen_at := dict_set (reopen_at a) alert_type (now + FAILURE_REOPEN_S)\<rparr>)"

definition release :: "string \<Rightarrow> alerter \<Rightarrow> alerter" where
  "release alert_type a = a\<lparr>in_flight := in_flight a - {alert_type}\<rparr>"

subsection \<open>Deliveries\<close>

text \<open>
  Where a delivery stands: the caller about to start the thread, the thread about to make POST
  number \<open>n\<close>, about to reopen the slot, in its \<open>finally\<close>, or done; and the caller whose thread
  did not start, which gives the slot up before it reopens it.
\<close>

datatype delivery_result = Delivered | Rejected | Lost | NotStarted

datatype delivery_phase =
    Starting
  | Posting nat
  | Reopening
  | Releasing delivery_result
  | LateReopen
  | Finished delivery_result

text \<open>What the world answers: the thread starts or not, the sink answers a status with its
  \<open>Retry-After\<close>, cannot be reached, or the delivery faults anywhere else.\<close>

datatype delivery_event =
    ThreadStarted
  | ThreadFailed
  | Answered int "string option" real
  | Unreachable real
  | Fault

record delivery =
  d_type :: string
  d_now :: real
  d_cooldown :: py_float
  d_body :: alert_body
  d_phase :: delivery_phase
  d_posts :: nat
  d_waits :: "py_float list"

definition retriable_status :: "int \<Rightarrow> bool" where
  "retriable_status status \<longleftrightarrow> 500 \<le> status \<or> status \<in> set RETRIABLE_4XX"

text \<open>After a failed attempt that may be retried: wait and post again, or give up.\<close>

definition retry_or_drop :: "nat \<Rightarrow> py_float \<Rightarrow> delivery \<Rightarrow> delivery" where
  "retry_or_drop attempt delay d =
     (if attempt = MAX_DELIVERY_ATTEMPTS then d\<lparr>d_phase := Reopening\<rparr>
      else d\<lparr>d_phase := Posting (attempt + 1), d_waits := d_waits d @ [delay]\<rparr>)"

definition post :: "nat \<Rightarrow> delivery_event \<Rightarrow> delivery \<Rightarrow> delivery" where
  "post attempt e d =
     (let d = d\<lparr>d_posts := d_posts d + 1\<rparr> in
      case e of
        Answered status retry_after draw \<Rightarrow>
          if 200 \<le> status \<and> status < 300 then d\<lparr>d_phase := Releasing Delivered\<rparr>
          else if retriable_status status then retry_or_drop attempt (retry_delay_s draw retry_after) d
          else d\<lparr>d_phase := Releasing Rejected\<rparr>
      | Unreachable draw \<Rightarrow> retry_or_drop attempt (Fin draw) d
      | _ \<Rightarrow> d\<lparr>d_phase := Reopening\<rparr>)"

definition advance :: "delivery_event \<Rightarrow> alerter \<times> delivery \<Rightarrow> alerter \<times> delivery" where
  "advance e ad =
     (let (a, d) = ad in
      case d_phase d of
        Starting \<Rightarrow>
          if e = ThreadFailed then (release (d_type d) a, d\<lparr>d_phase := LateReopen\<rparr>)
          else (a, d\<lparr>d_phase := Posting 1\<rparr>)
      | Posting n \<Rightarrow> (a, post n e d)
      | Reopening \<Rightarrow> (reopen_after_failed_delivery (d_now d) (d_type d) a, d\<lparr>d_phase := Releasing Lost\<rparr>)
      | Releasing r \<Rightarrow> (release (d_type d) a, d\<lparr>d_phase := Finished r\<rparr>)
      | LateReopen \<Rightarrow> (reopen_after_failed_delivery (d_now d) (d_type d) a, d\<lparr>d_phase := Finished NotStarted\<rparr>)
      | Finished r \<Rightarrow> (a, d))"

definition send_alert ::
    "alert_env \<Rightarrow> string option \<Rightarrow> real \<Rightarrow> string \<Rightarrow> string \<Rightarrow> (string, string) dict \<Rightarrow> alerter \<Rightarrow> alerter \<times> delivery option" where
  "send_alert env hostname now alert_type message meta a =
     (if webhook_url env = [] then (a, None)
      else if \<not> may_send now (cooldown_s env) alert_type a then (a, None)
      else (reserve now alert_type a,
            Some \<lparr>d_type = alert_type, d_now = now, d_cooldown = cooldown_s env,
                  d_body = alert_body env hostname now alert_type message meta,
                  d_phase = Starting, d_posts = 0, d_waits = []\<rparr>))"

subsection \<open>The health monitor\<close>

record issue =
  i_type :: string
  i_message :: string
  i_severity :: string

type_synonym alert_call = "string \<times> string \<times> (string, string) dict"

text \<open>\<open>{i["type"]: i for i in issues}\<close>, the calls a cycle makes of \<open>send_alert\<close>, and the new
  active set in insertion order.\<close>

definition current_issues :: "issue list \<Rightarrow> (string, issue) dict" where
  "current_issues issues = fold (\<lambda>i d. dict_set d (i_type i) i) issues []"

definition run_cycle :: "issue list \<Rightarrow> string list \<Rightarrow> alert_call list \<times> string list" where
  "run_cycle issues active =
     (let current = current_issues issues
      in (map (\<lambda>(t, i). (t, i_message i, [(''severity'', i_severity i)])) current @
          map (\<lambda>t. (''resolved:'' @ t, ''Resolved: '' @ t, [(''severity'', ''info'')]))
            (filter (\<lambda>t. \<not> dict_has current t) active),
          dict_keys current))"

subsection \<open>All deliveries at once\<close>

text \<open>\<open>deliveries\<close> holds every delivery ever opened, oldest first.\<close>

record alert_system =
  alerts :: alerter
  deliveries :: "delivery list"

inductive alert_step :: "alert_system \<Rightarrow> alert_system \<Rightarrow> bool" where
  send: "send_alert env hostname now alert_type message meta (alerts s) = (a, Some d) \<Longrightarrow>
     alert_step s (s\<lparr>alerts := a, deliveries := deliveries s @ [d]\<rparr>)"
| suppress: "send_alert env hostname now alert_type message meta (alerts s) = (a, None) \<Longrightarrow>
     alert_step s (s\<lparr>alerts := a\<rparr>)"
| work: "i < length (deliveries s) \<Longrightarrow> advance e (alerts s, deliveries s ! i) = (a, d) \<Longrightarrow>
     alert_step s (s\<lparr>alerts := a, deliveries := (deliveries s)[i := d]\<rparr>)"

inductive alert_reachable :: "alert_system \<Rightarrow> bool" where
  boot: "alert_reachable \<lparr>alerts = boot_alerter, deliveries = []\<rparr>"
| step: "alert_reachable s \<Longrightarrow> alert_step s t \<Longrightarrow> alert_reachable t"

inductive_cases alert_stepE: "alert_step s t"

subsection \<open>One action\<close>

fun in_delivery :: "delivery_phase \<Rightarrow> bool" where
  "in_delivery LateReopen = False"
| "in_delivery (Finished _) = False"
| "in_delivery _ = True"

definition lost :: "delivery \<Rightarrow> bool" where
  "lost d \<longleftrightarrow> d_phase d \<in> {Releasing Lost, Finished Lost}"

text \<open>A type is held by its last reservation or by the deadline its loss set, never by both.\<close>

definition exclusive :: "alerter \<Rightarrow> bool" where
  "exclusive a \<longleftrightarrow> (\<forall>t. dict_get (last_sent a) t = None \<or> dict_get (reopen_at a) t = None)"

definition held :: "alerter \<Rightarrow> string \<Rightarrow> real \<Rightarrow> bool" where
  "held a t n \<longleftrightarrow> dict_get (last_sent a) t = Some n \<or> dict_get (reopen_at a) t = Some (n + FAILURE_REOPEN_S)"

definition held_back :: "alerter \<Rightarrow> string \<Rightarrow> real \<Rightarrow> bool" where
  "held_back a t n \<longleftrightarrow> dict_get (reopen_at a) t = Some (n + FAILURE_REOPEN_S)"

lemma release_fields [simp]:
  "last_sent (release t a) = last_sent a" "reopen_at (release t a) = reopen_at a"
  "in_flight (release t a) = in_flight a - {t}"
  by (simp_all add: release_def)

lemma reopen_in_flight [simp]: "in_flight (reopen_after_failed_delivery n t a) = in_flight a"
  by (simp add: reopen_after_failed_delivery_def)

lemma exclusiveD: "exclusive a \<Longrightarrow> dict_get (last_sent a) t = Some n \<Longrightarrow> dict_get (reopen_at a) t = None"
  unfolding exclusive_def by (metis option.distinct(1))

lemma reopen_exclusive: "exclusive a \<Longrightarrow> exclusive (reopen_after_failed_delivery n t a)"
  by (auto simp: reopen_after_failed_delivery_def exclusive_def)

lemma reopen_held: "exclusive a \<Longrightarrow> held a u m \<Longrightarrow> held (reopen_after_failed_delivery n t a) u m"
  by (auto simp: reopen_after_failed_delivery_def held_def dest: exclusiveD)

lemma reopen_held_back: "exclusive a \<Longrightarrow> held_back a u m \<Longrightarrow> held_back (reopen_after_failed_delivery n t a) u m"
  by (auto simp: reopen_after_failed_delivery_def held_back_def dest: exclusiveD)

lemma reopen_holds_back: "held a t n \<Longrightarrow> held_back (reopen_after_failed_delivery n t a) t n"
  by (auto simp: reopen_after_failed_delivery_def held_def held_back_def)

lemma release_held [simp]:
  "exclusive (release t a) = exclusive a" "held (release t a) u m = held a u m"
  "held_back (release t a) u m = held_back a u m"
  by (simp_all add: exclusive_def held_def held_back_def)

lemmas post_defs = post_def retry_or_drop_def Let_def

lemma post_keeps [simp]:
  "d_type (post n e d) = d_type d" "d_now (post n e d) = d_now d" "d_cooldown (post n e d) = d_cooldown d"
  "in_delivery (d_phase (post n e d))" "d_phase (post n e d) \<noteq> Releasing Lost"
  "d_phase (post n e d) \<noteq> Finished r"
  by (simp_all add: post_defs split: delivery_event.split)

lemma advance_delivery:
  assumes "advance e (a, d) = (a', d')"
  shows "d_type d' = d_type d" "d_now d' = d_now d" "d_cooldown d' = d_cooldown d"
    and "in_delivery (d_phase d') \<Longrightarrow> in_delivery (d_phase d)"
    and "in_flight a' = (if in_delivery (d_phase d) \<and> \<not> in_delivery (d_phase d') then in_flight a - {d_type d} else in_flight a)"
  using assms by (auto simp: advance_def split: delivery_phase.splits if_splits)

lemma advance_slots:
  assumes "advance e (a, d) = (a', d')" and "exclusive a"
  shows "exclusive a'" and "held a t n \<Longrightarrow> held a' t n" and "held_back a t n \<Longrightarrow> held_back a' t n"
  using assms
  by (auto simp: advance_def reopen_exclusive reopen_held reopen_held_back split: delivery_phase.splits if_splits)

lemma advance_lost:
  assumes "advance e (a, d) = (a', d')" and "lost d'" and "held a (d_type d) (d_now d)"
  shows "lost d \<or> held_back a' (d_type d) (d_now d)"
proof (cases "d_phase d")
  case Reopening
  with assms show ?thesis by (auto simp: advance_def reopen_holds_back)
qed (use assms in \<open>auto simp: advance_def lost_def split: if_splits\<close>)

subsection \<open>What every reachable state keeps\<close>

text \<open>The newest delivery of its type, and one delivery followed by the next of its type.\<close>

definition newest :: "delivery list \<Rightarrow> nat \<Rightarrow> bool" where
  "newest ds i \<longleftrightarrow> i < length ds \<and> (\<forall>j. i < j \<and> j < length ds \<longrightarrow> d_type (ds ! j) \<noteq> d_type (ds ! i))"

definition next_of_type :: "delivery list \<Rightarrow> nat \<Rightarrow> nat \<Rightarrow> bool" where
  "next_of_type ds i j \<longleftrightarrow> i < j \<and> j < length ds \<and> d_type (ds ! i) = d_type (ds ! j) \<and>
     (\<forall>k. i < k \<and> k < j \<longrightarrow> d_type (ds ! k) \<noteq> d_type (ds ! j))"

definition spaced :: "delivery \<Rightarrow> delivery \<Rightarrow> bool" where
  "spaced d d' \<longleftrightarrow>
     (lost d \<longrightarrow> d_now d + FAILURE_REOPEN_S \<le> d_now d') \<and>
     (d_now d + FAILURE_REOPEN_S \<le> d_now d' \<or> \<not> py_less (Fin (d_now d' - d_now d)) (d_cooldown d'))"

fun posts_ok :: "delivery_phase \<Rightarrow> nat \<Rightarrow> bool" where
  "posts_ok Starting n = (n = 0)"
| "posts_ok (Posting k) n = (1 \<le> k \<and> k \<le> MAX_DELIVERY_ATTEMPTS \<and> n = k - 1)"
| "posts_ok _ n = (n \<le> MAX_DELIVERY_ATTEMPTS)"

definition delivering :: "delivery list \<Rightarrow> string \<Rightarrow> bool" where
  "delivering ds t \<longleftrightarrow> list_ex (\<lambda>d. in_delivery (d_phase d) \<and> d_type d = t) ds"

definition alert_inv :: "alerter \<Rightarrow> delivery list \<Rightarrow> bool" where
  "alert_inv a ds \<longleftrightarrow> exclusive a \<and>
     in_flight a = {t. delivering ds t} \<and>
     (\<forall>i < length ds. in_delivery (d_phase (ds ! i)) \<longrightarrow> newest ds i) \<and>
     (\<forall>i. newest ds i \<longrightarrow> held a (d_type (ds ! i)) (d_now (ds ! i))) \<and>
     (\<forall>i. newest ds i \<longrightarrow> lost (ds ! i) \<longrightarrow> held_back a (d_type (ds ! i)) (d_now (ds ! i))) \<and>
     (\<forall>i j. next_of_type ds i j \<longrightarrow> spaced (ds ! i) (ds ! j)) \<and>
     (\<forall>d \<in> set ds. posts_ok (d_phase d) (d_posts d))"

lemma alert_invI:
  assumes "exclusive a" and "in_flight a = {t. delivering ds t}"
    and "\<And>i. i < length ds \<Longrightarrow> in_delivery (d_phase (ds ! i)) \<Longrightarrow> newest ds i"
    and "\<And>i. newest ds i \<Longrightarrow> held a (d_type (ds ! i)) (d_now (ds ! i))"
    and "\<And>i. newest ds i \<Longrightarrow> lost (ds ! i) \<Longrightarrow> held_back a (d_type (ds ! i)) (d_now (ds ! i))"
    and "\<And>i j. next_of_type ds i j \<Longrightarrow> spaced (ds ! i) (ds ! j)"
    and "\<And>d. d \<in> set ds \<Longrightarrow> posts_ok (d_phase d) (d_posts d)"
  shows "alert_inv a ds"
  unfolding alert_inv_def using assms by blast

lemma alert_invD:
  assumes "alert_inv a ds"
  shows "exclusive a" "in_flight a = {t. delivering ds t}"
    "i < length ds \<Longrightarrow> in_delivery (d_phase (ds ! i)) \<Longrightarrow> newest ds i"
    "newest ds i \<Longrightarrow> held a (d_type (ds ! i)) (d_now (ds ! i))"
    "newest ds i \<Longrightarrow> lost (ds ! i) \<Longrightarrow> held_back a (d_type (ds ! i)) (d_now (ds ! i))"
    "next_of_type ds i j \<Longrightarrow> spaced (ds ! i) (ds ! j)"
    "d \<in> set ds \<Longrightarrow> posts_ok (d_phase d) (d_posts d)"
  using assms unfolding alert_inv_def by blast+

lemma newest_update:
  assumes "i < length ds" and "d_type d = d_type (ds ! i)"
  shows "newest (ds[i := d]) j \<longleftrightarrow> newest ds j"
proof -
  have "d_type (ds[i := d] ! k) = d_type (ds ! k)" if "k < length ds" for k
    using assms that by (simp add: nth_list_update)
  then show ?thesis unfolding newest_def by (metis length_list_update)
qed

lemma next_of_type_update:
  assumes "i < length ds" and "d_type d = d_type (ds ! i)"
  shows "next_of_type (ds[i := d]) j k \<longleftrightarrow> next_of_type ds j k"
proof -
  have "d_type (ds[i := d] ! k) = d_type (ds ! k)" if "k < length ds" for k
    using assms that by (simp add: nth_list_update)
  then show ?thesis
    unfolding next_of_type_def by (metis (no_types, opaque_lifting) length_list_update less_trans)
qed

lemma delivering_nth:
  "delivering ds t \<longleftrightarrow> (\<exists>j < length ds. in_delivery (d_phase (ds ! j)) \<and> d_type (ds ! j) = t)"
  unfolding delivering_def list_ex_iff by (metis in_set_conv_nth)

lemma delivering_append:
  "delivering (ds @ [d]) t \<longleftrightarrow> delivering ds t \<or> (in_delivery (d_phase d) \<and> d_type d = t)"
  by (auto simp: delivering_def)

text \<open>Where only the delivery at \<open>i\<close> of its type is under way, moving it on moves its type.\<close>

lemma delivering_update:
  assumes i: "i < length ds" and ty: "d_type d = d_type (ds ! i)"
    and alone: "\<And>j. j < length ds \<Longrightarrow> in_delivery (d_phase (ds ! j)) \<Longrightarrow> d_type (ds ! j) = d_type (ds ! i) \<Longrightarrow> j = i"
  shows "delivering (ds[i := d]) t \<longleftrightarrow>
    (if t = d_type (ds ! i) then in_delivery (d_phase d) else delivering ds t)"
proof (cases "t = d_type (ds ! i)")
  case True
  have "delivering (ds[i := d]) t \<longleftrightarrow> in_delivery (d_phase d)"
  proof
    assume "delivering (ds[i := d]) t"
    then obtain j where j: "j < length ds" "in_delivery (d_phase (ds[i := d] ! j))" "d_type (ds[i := d] ! j) = t"
      by (auto simp: delivering_nth)
    then show "in_delivery (d_phase d)" using alone [of j] True by (cases "j = i") auto
  next
    assume "in_delivery (d_phase d)"
    then show "delivering (ds[i := d]) t" using i ty True unfolding delivering_nth by (intro exI [of _ i]) simp
  qed
  with True show ?thesis by simp
next
  case False
  have "(in_delivery (d_phase (ds[i := d] ! j)) \<and> d_type (ds[i := d] ! j) = t) \<longleftrightarrow>
      (in_delivery (d_phase (ds ! j)) \<and> d_type (ds ! j) = t)" if "j < length ds" for j
    using False ty that by (cases "j = i") auto
  then have "delivering (ds[i := d]) t \<longleftrightarrow> delivering ds t" unfolding delivering_nth length_list_update by blast
  with False show ?thesis by simp
qed

lemma newest_next: "newest ds i \<Longrightarrow> \<not> next_of_type ds i j"
  by (auto simp: newest_def next_of_type_def)

lemma newest_append:
  "newest (ds @ [d]) i \<longleftrightarrow> i = length ds \<or> (newest ds i \<and> d_type (ds ! i) \<noteq> d_type d)"
proof
  assume n: "newest (ds @ [d]) i"
  then have "i < Suc (length ds)" by (simp add: newest_def)
  show "i = length ds \<or> (newest ds i \<and> d_type (ds ! i) \<noteq> d_type d)"
  proof (cases "i = length ds")
    case False
    with \<open>i < Suc (length ds)\<close> have "i < length ds" by simp
    with n have "d_type ((ds @ [d]) ! length ds) \<noteq> d_type (ds ! i)"
      unfolding newest_def by (metis length_append_singleton lessI nth_append)
    moreover have "d_type (ds ! j) \<noteq> d_type (ds ! i)" if "i < j" "j < length ds" for j
      using n that \<open>i < length ds\<close> unfolding newest_def by (metis length_append_singleton less_SucI nth_append)
    ultimately show ?thesis using \<open>i < length ds\<close> by (auto simp: newest_def)
  qed simp
qed (auto simp: newest_def nth_append less_Suc_eq)

lemma next_of_type_append:
  "next_of_type (ds @ [d]) i j \<Longrightarrow> next_of_type ds i j \<or> (j = length ds \<and> newest ds i \<and> d_type (ds ! i) = d_type d)"
proof -
  assume n: "next_of_type (ds @ [d]) i j"
  then have ij: "i < j" "j < Suc (length ds)" by (simp_all add: next_of_type_def)
  show ?thesis
  proof (cases "j = length ds")
    case True
    have "d_type (ds ! k) \<noteq> d_type d" if "i < k" "k < length ds" for k
      using n that True unfolding next_of_type_def by (metis nth_append nth_append_length)
    moreover have "d_type (ds ! i) = d_type d" using n ij True by (simp add: next_of_type_def nth_append)
    ultimately show ?thesis using ij True by (simp add: newest_def)
  next
    case False
    with ij have "j < length ds" by simp
    with n ij have "next_of_type ds i j" unfolding next_of_type_def by (metis less_trans nth_append)
    then show ?thesis by simp
  qed
qed

lemma advance_posts:
  assumes "advance e (a, d) = (a', d')" and "posts_ok (d_phase d) (d_posts d)"
  shows "posts_ok (d_phase d') (d_posts d')"
  using assms
  by (auto simp: advance_def post_defs MAX_DELIVERY_ATTEMPTS_def
      split: delivery_phase.splits delivery_event.splits if_splits)

lemma alert_inv_boot: "alert_inv boot_alerter []"
  by (simp add: alert_inv_def boot_alerter_def exclusive_def newest_def next_of_type_def delivering_def)

lemma send_alert_Some:
  assumes "send_alert env hostname now ty message meta a = (a', Some d)"
  shows "a' = reserve now ty a" "d_type d = ty" "d_now d = now" "d_phase d = Starting" "d_posts d = 0"
    "ty \<notin> in_flight a" "\<not> now < dict_get_default (reopen_at a) ty 0"
    "\<not> py_less (Fin (now - dict_get_default (last_sent a) ty 0)) (d_cooldown d)"
  using assms by (auto simp: send_alert_def may_send_def split: if_splits)

lemma send_alert_None: "send_alert env hostname now ty message meta a = (a', None) \<Longrightarrow> a' = a"
  by (auto simp: send_alert_def split: if_splits)

lemma reserve_slots:
  "exclusive a \<Longrightarrow> exclusive (reserve now ty a)"
  "held (reserve now ty a) u n \<longleftrightarrow> (if u = ty then n = now else held a u n)"
  "u \<noteq> ty \<Longrightarrow> held_back (reserve now ty a) u n \<longleftrightarrow> held_back a u n"
  by (auto simp: exclusive_def held_def held_back_def reserve_def)

lemma held_spaced:
  assumes h: "held a (d_type d) (d_now d)" "lost d \<Longrightarrow> held_back a (d_type d) (d_now d)" and ex: "exclusive a"
    and send: "\<not> now < dict_get_default (reopen_at a) (d_type d) 0"
      "\<not> py_less (Fin (now - dict_get_default (last_sent a) (d_type d) 0)) c"
    and d': "d_now d' = now" "d_cooldown d' = c"
  shows "spaced d d'"
proof -
  have hback: "d_now d + FAILURE_REOPEN_S \<le> now" if "held_back a (d_type d) (d_now d)"
    using that send(1) by (simp add: held_back_def dict_get_default_get)
  have "d_now d + FAILURE_REOPEN_S \<le> now \<or> \<not> py_less (Fin (now - d_now d)) c"
    using h(1) send(2) hback by (auto simp: held_def held_back_def dict_get_default_get)
  with hback h(2) d' show ?thesis by (auto simp: spaced_def)
qed

lemma newest_appendD:
  assumes "newest (ds @ [d]) i"
  shows "(i = length ds \<and> (ds @ [d]) ! i = d) \<or> (newest ds i \<and> (ds @ [d]) ! i = ds ! i \<and> d_type (ds ! i) \<noteq> d_type d)"
  using assms by (auto simp: newest_append nth_append newest_def)

lemma alert_inv_send:
  assumes inv: "alert_inv a ds" and send: "send_alert env hostname now ty message meta a = (a', Some d)"
  shows "alert_inv a' (ds @ [d])"
proof (rule alert_invI)
  note sd = send_alert_Some [OF send]
  note inv' = alert_invD [OF inv]
  have other: "d_type (ds ! i) \<noteq> d_type d" if "i < length ds" "in_delivery (d_phase (ds ! i))" for i
    using that sd(2,6) inv'(2) by (auto simp: delivering_nth)
  have new: "\<not> lost d" using sd(4) by (simp add: lost_def)
  show "exclusive a'" using sd(1) inv'(1) by (simp add: reserve_slots)
  show "in_flight a' = {t. delivering (ds @ [d]) t}"
    using sd(2,4) by (auto simp: sd(1) reserve_def inv'(2) delivering_append)
  show "newest (ds @ [d]) i" if "i < length (ds @ [d])" "in_delivery (d_phase ((ds @ [d]) ! i))" for i
    using that inv'(3) [of i] other [of i] by (auto simp: newest_append nth_append split: if_splits)
  show "held a' (d_type ((ds @ [d]) ! i)) (d_now ((ds @ [d]) ! i))" if "newest (ds @ [d]) i" for i
    using newest_appendD [OF that] inv'(4) [of i] sd(2,3) by (auto simp: sd(1) reserve_slots)
  show "held_back a' (d_type ((ds @ [d]) ! i)) (d_now ((ds @ [d]) ! i))"
    if "newest (ds @ [d]) i" "lost ((ds @ [d]) ! i)" for i
    using newest_appendD [OF that(1)] that(2) inv'(5) [of i] sd(2) new by (auto simp: sd(1) reserve_slots)
  show "spaced ((ds @ [d]) ! i) ((ds @ [d]) ! j)" if "next_of_type (ds @ [d]) i j" for i j
    using next_of_type_append [OF that]
  proof (elim disjE conjE)
    assume "next_of_type ds i j"
    then show ?thesis using inv'(6) [of i j] by (simp add: nth_append next_of_type_def)
  next
    assume j: "j = length ds" and i: "newest ds i" "d_type (ds ! i) = d_type d"
    have "spaced (ds ! i) d"
      using held_spaced [OF inv'(4) [OF i(1)] inv'(5) [OF i(1)] inv'(1)] sd i by simp
    then show ?thesis using j i by (simp add: nth_append newest_def)
  qed
  show "posts_ok (d_phase x) (d_posts x)" if "x \<in> set (ds @ [d])" for x
    using that inv'(7) sd(4,5) by auto
qed

lemma nth_update_cases: "i < length ds \<Longrightarrow> ds[i := d] ! j = (if j = i then d else ds ! j)"
  by (simp add: nth_list_update)

lemma in_flight_advance:
  assumes inv: "alert_inv a ds" and i: "i < length ds" and adv: "advance e (a, ds ! i) = (a', d)"
  shows "in_flight a' = {t. delivering (ds[i := d]) t}"
proof (cases "in_delivery (d_phase (ds ! i))")
  note ad = advance_delivery [OF adv] and inv' = alert_invD [OF inv]
  case True
  have alone: "j = i" if "j < length ds" "in_delivery (d_phase (ds ! j))" "d_type (ds ! j) = d_type (ds ! i)" for j
    using that inv'(3) [OF i True] inv'(3) [OF that(1,2)] i unfolding newest_def by (metis linorder_neqE_nat)
  have "delivering ds (d_type (ds ! i))" using True i unfolding delivering_nth by blast
  have "t \<in> in_flight a' \<longleftrightarrow> delivering (ds[i := d]) t" for t
    using \<open>delivering ds (d_type (ds ! i))\<close> True
    by (cases "in_delivery (d_phase d)") (simp_all add: delivering_update [OF i ad(1) alone] ad(5) inv'(2))
  then show ?thesis by blast
next
  note ad = advance_delivery [OF adv]
  case False
  then have no: "\<not> in_delivery (d_phase d)" using ad(4) by blast
  have "(in_delivery (d_phase (ds[i := d] ! j)) \<and> d_type (ds[i := d] ! j) = t) \<longleftrightarrow>
      (in_delivery (d_phase (ds ! j)) \<and> d_type (ds ! j) = t)" if "j < length ds" for j t
    using False no that by (cases "j = i") auto
  then have "delivering (ds[i := d]) t \<longleftrightarrow> delivering ds t" for t
    unfolding delivering_nth length_list_update by blast
  then show ?thesis using ad(5) False alert_invD(2) [OF inv] by simp
qed

lemma alert_inv_work:
  assumes inv: "alert_inv a ds" and i: "i < length ds" and adv: "advance e (a, ds ! i) = (a', d)"
  shows "alert_inv a' (ds[i := d])"
proof (rule alert_invI)
  note ad = advance_delivery [OF adv] and upd = nth_update_cases [OF i] and inv' = alert_invD [OF inv]
  note sl = advance_slots [OF adv inv'(1)]
  have lost_back: "lost (ds ! i) \<or> held_back a' (d_type (ds ! i)) (d_now (ds ! i))" if "lost d" "newest ds i"
    using advance_lost [OF adv that(1)] inv'(4) [OF that(2)] by simp
  have lost_old: "lost (ds ! i)" if "lost d" "\<not> newest ds i"
  proof -
    have "\<not> in_delivery (d_phase (ds ! i))" using inv'(3) [OF i] that(2) by blast
    then show ?thesis using adv that(1) by (cases "d_phase (ds ! i)") (auto simp: advance_def lost_def)
  qed
  have nw: "newest (ds[i := d]) j \<longleftrightarrow> newest ds j" for j by (rule newest_update [OF i ad(1)])
  have nx: "next_of_type (ds[i := d]) j k \<longleftrightarrow> next_of_type ds j k" for j k
    by (rule next_of_type_update [OF i ad(1)])
  show "exclusive a'" by (rule sl(1))
  show "in_flight a' = {t. delivering (ds[i := d]) t}" by (rule in_flight_advance [OF inv i adv])
  show "newest (ds[i := d]) j" if "j < length (ds[i := d])" "in_delivery (d_phase (ds[i := d] ! j))" for j
    using that inv'(3) [of j] ad(4) by (auto simp: nw upd split: if_splits)
  show "held a' (d_type (ds[i := d] ! j)) (d_now (ds[i := d] ! j))" if "newest (ds[i := d]) j" for j
    using that inv'(4) [of j] sl(2) ad(1,2) by (auto simp: nw upd)
  show "held_back a' (d_type (ds[i := d] ! j)) (d_now (ds[i := d] ! j))"
    if "newest (ds[i := d]) j" "lost (ds[i := d] ! j)" for j
    using that inv'(5) [of j] sl(3) ad(1,2) lost_back by (auto simp: nw upd split: if_splits)
  show "spaced (ds[i := d] ! j) (ds[i := d] ! k)" if n: "next_of_type (ds[i := d]) j k" for j k
  proof -
    have n: "next_of_type ds j k" using n nx by simp
    have "lost (ds[i := d] ! j) \<longrightarrow> lost (ds ! j)"
      using newest_next [of ds j k] n lost_old by (auto simp: upd)
    moreover have "d_now (ds[i := d] ! j) = d_now (ds ! j)" "d_now (ds[i := d] ! k) = d_now (ds ! k)"
      "d_cooldown (ds[i := d] ! k) = d_cooldown (ds ! k)"
      using ad(2,3) by (simp_all add: upd)
    ultimately show ?thesis using inv'(6) [OF n] by (simp add: spaced_def)
  qed
  show "posts_ok (d_phase x) (d_posts x)" if "x \<in> set (ds[i := d])" for x
    using that inv'(7) advance_posts [OF adv inv'(7) [OF nth_mem [OF i]]] set_update_subset_insert [of ds i d]
    by blast
qed

lemma alert_inv_step: "alert_step s t \<Longrightarrow> alert_inv (alerts s) (deliveries s) \<Longrightarrow> alert_inv (alerts t) (deliveries t)"
proof (induction rule: alert_step.induct)
  case (suppress env hostname now ty message meta s a)
  then show ?case using send_alert_None [OF suppress.hyps] by simp
qed (simp_all add: alert_inv_send alert_inv_work)

lemma alert_reachable_inv: "alert_reachable s \<Longrightarrow> alert_inv (alerts s) (deliveries s)"
  by (induction rule: alert_reachable.induct) (auto intro: alert_inv_boot alert_inv_step)

subsection \<open>A run\<close>

text \<open>A solver alert that times out three times, with its slot then held back.\<close>

definition sample_env :: alert_env where
  "sample_env = \<lparr>ALERT_WEBHOOK_URL = ''https://sink'', ALERT_COOLDOWN_S = [], ALERT_WEBHOOK_FORMAT = [],
     ALERT_WEBHOOK_AUTH = [], ALERT_ENVIRONMENT = []\<rparr>"

definition opened_alert :: "real \<Rightarrow> delivery" where
  "opened_alert now = \<lparr>d_type = ''solver'', d_now = now, d_cooldown = Fin 300,
     d_body = RawAlert ''solver'' ''late'' now ''unknown'' ''unknown'' [], d_phase = Starting, d_posts = 0, d_waits = []\<rparr>"

lemma strip_Nil [simp]: "strip [] = []"
  by (simp add: strip_def)

lemma sample_send:
  assumes "may_send now (Fin 300) ''solver'' a"
  shows "send_alert sample_env None now ''solver'' ''late'' [] a = (reserve now ''solver'' a, Some (opened_alert now))"
proof -
  have "webhook_url sample_env \<noteq> []" "cooldown_s sample_env = Fin 300" "webhook_format sample_env = Raw"
    by (simp_all add: sample_env_def webhook_url_def strip_def is_space_def code_def cooldown_s_def
        DEFAULT_COOLDOWN_S_def webhook_format_def)
  with assms show ?thesis
    by (simp add: send_alert_def alert_body_def opened_alert_def sample_env_def Let_def)
qed

definition sample_opened :: alert_system where
  "sample_opened = \<lparr>alerts = reserve 1000 ''solver'' boot_alerter, deliveries = [opened_alert 1000]\<rparr>"

lemma reachable_opened: "alert_reachable sample_opened"
proof -
  have "may_send 1000 (Fin 300) ''solver'' boot_alerter"
    by (simp add: may_send_def boot_alerter_def dict_get_default_get)
  from alert_reachable.step [OF alert_reachable.boot alert_step.send, OF _ , of sample_env None 1000 "''solver''" "''late''" "[]"]
    sample_send [OF this]
  show ?thesis by (simp add: sample_opened_def)
qed

text \<open>The same delivery after three timeouts, its slot reopened at 1090 and taken again then.\<close>

definition sample_lost :: alert_system where
  "sample_lost =
     (let (a, d) = fold advance [ThreadStarted, Unreachable (1 / 2), Unreachable 1, Unreachable 2, Fault, Fault]
                     (alerts sample_opened, opened_alert 1000)
      in \<lparr>alerts = a, deliveries = [d]\<rparr>)"

lemma reachable_fold:
  assumes "alert_reachable s" and "i < length (deliveries s)"
    and "fold advance es (alerts s, deliveries s ! i) = (a, d)"
  shows "alert_reachable (s\<lparr>alerts := a, deliveries := (deliveries s)[i := d]\<rparr>)"
  using assms
proof (induction es arbitrary: s)
  case Nil
  then have "s\<lparr>alerts := a, deliveries := (deliveries s)[i := d]\<rparr> = s" by (cases s) auto
  with Nil show ?case by simp
next
  case (Cons e es)
  obtain a1 d1 where e: "advance e (alerts s, deliveries s ! i) = (a1, d1)" by fastforce
  let ?s1 = "s\<lparr>alerts := a1, deliveries := (deliveries s)[i := d1]\<rparr>"
  have "alert_reachable ?s1"
    by (rule alert_reachable.step [OF Cons.prems(1) alert_step.work [OF Cons.prems(2) e]])
  from Cons.IH [OF this] Cons.prems(2,3) e show ?case by simp
qed

lemma sample_lost_eq:
  "alerts sample_lost = \<lparr>last_sent = [], reopen_at = [(''solver'', 1090)], in_flight = {}\<rparr>"
  "\<exists>d. deliveries sample_lost = [d] \<and> d_type d = ''solver'' \<and> d_now d = 1000 \<and> d_phase d = Finished Lost \<and> d_posts d = 3"
  by (simp_all add: sample_lost_def sample_opened_def opened_alert_def advance_def post_defs reserve_def boot_alerter_def
      MAX_DELIVERY_ATTEMPTS_def reopen_after_failed_delivery_def release_def FAILURE_REOPEN_S_def dict_set_def
      dict_del_def AList.delete_eq dict_get_def)

lemma reachable_lost: "alert_reachable sample_lost"
proof -
  define es where "es = [ThreadStarted, Unreachable (1 / 2), Unreachable 1, Unreachable 2, Fault, Fault]"
  obtain a d where f: "fold advance es (alerts sample_opened, opened_alert 1000) = (a, d)" by fastforce
  have "sample_lost = sample_opened\<lparr>alerts := a, deliveries := (deliveries sample_opened)[0 := d]\<rparr>"
    using f unfolding es_def sample_lost_def by (simp del: fold_simps add: sample_opened_def)
  moreover have "alert_reachable (sample_opened\<lparr>alerts := a, deliveries := (deliveries sample_opened)[0 := d]\<rparr>)"
    by (rule reachable_fold [OF reachable_opened, of 0 es]) (use f in \<open>simp_all add: sample_opened_def\<close>)
  ultimately show ?thesis by simp
qed

definition sample_again :: alert_system where
  "sample_again = sample_lost\<lparr>alerts := reserve 1090 ''solver'' (alerts sample_lost),
     deliveries := deliveries sample_lost @ [opened_alert 1090]\<rparr>"

lemma reachable_again: "alert_reachable sample_again"
proof -
  have "may_send 1090 (Fin 300) ''solver'' (alerts sample_lost)"
    by (simp add: may_send_def sample_lost_eq dict_get_default_get dict_get_def)
  from alert_reachable.step [OF reachable_lost alert_step.send, of sample_env None 1090 "''solver''" "''late''" "[]"]
    sample_send [OF this]
  show ?thesis by (simp add: sample_again_def)
qed

subsection \<open>Properties\<close>

text \<open>C4: However callers and delivery threads interleave, one alert type never has two deliveries
  under way, and while it has one it is marked in flight.\<close>

theorem one_delivery_per_type:
  assumes "alert_reachable s" and "i < length (deliveries s)" and "j < length (deliveries s)"
    and "in_delivery (d_phase (deliveries s ! i))" and "in_delivery (d_phase (deliveries s ! j))"
    and "d_type (deliveries s ! i) = d_type (deliveries s ! j)"
  shows "i = j \<and> d_type (deliveries s ! i) \<in> in_flight (alerts s)"
proof -
  note inv = alert_invD [OF alert_reachable_inv [OF assms(1)]]
  have "i = j"
    using inv(3) [OF assms(2,4)] inv(3) [OF assms(3,5)] assms(2,3,6) unfolding newest_def
    by (metis linorder_neqE_nat)
  moreover have "d_type (deliveries s ! i) \<in> in_flight (alerts s)"
    using assms(2,4) unfolding inv(2) delivering_nth by blast
  ultimately show ?thesis by simp
qed

theorem one_delivery_per_type_witness: "''solver'' \<in> in_flight (alerts sample_opened)"
  using one_delivery_per_type [OF reachable_opened, of 0 0] by (simp add: sample_opened_def opened_alert_def)

text \<open>A delivery posts at most three times, and the next one of its type opens no sooner than
  90 seconds after it was reserved if it was lost, and outside the cooldown in force then, or
  those 90 seconds, whatever became of it: a failing sink sees three posts a window.\<close>

theorem failing_sink_is_spared:
  assumes "alert_reachable s" and "next_of_type (deliveries s) i j"
  shows "d_posts (deliveries s ! i) \<le> 3 \<and>
    (d_phase (deliveries s ! i) \<noteq> Finished Lost \<or> d_now (deliveries s ! i) + 90 \<le> d_now (deliveries s ! j)) \<and>
    (d_now (deliveries s ! i) + 90 \<le> d_now (deliveries s ! j) \<or>
     \<not> py_less (Fin (d_now (deliveries s ! j) - d_now (deliveries s ! i))) (d_cooldown (deliveries s ! j)))"
proof -
  note inv = alert_invD [OF alert_reachable_inv [OF assms(1)]]
  have "i < length (deliveries s)" using assms(2) by (simp add: next_of_type_def)
  from inv(7) [OF nth_mem [OF this]] have "d_posts (deliveries s ! i) \<le> 3"
    by (cases "d_phase (deliveries s ! i)") (auto simp: MAX_DELIVERY_ATTEMPTS_def)
  with inv(6) [OF assms(2)] show ?thesis
    by (auto simp: spaced_def FAILURE_REOPEN_S_def lost_def)
qed

theorem failing_sink_is_spared_witness:
  "d_phase (deliveries sample_again ! 0) = Finished Lost \<and>
   d_now (deliveries sample_again ! 0) + 90 \<le> d_now (deliveries sample_again ! 1)"
proof -
  have lost: "d_phase (deliveries sample_again ! 0) = Finished Lost"
    and n: "next_of_type (deliveries sample_again) 0 1"
    using sample_lost_eq(2) by (auto simp: sample_again_def next_of_type_def opened_alert_def)
  from failing_sink_is_spared [OF reachable_again n] lost show ?thesis by simp
qed

fun actions_left :: "delivery_phase \<Rightarrow> nat" where
  "actions_left Starting = 6"
| "actions_left (Posting n) = 3 + (3 - n)"
| "actions_left Reopening = 2"
| "actions_left (Releasing r) = 1"
| "actions_left LateReopen = 1"
| "actions_left (Finished r) = 0"

lemma advance_progress:
  assumes "advance e (a, d) = (a', d')" and "posts_ok (d_phase d) (d_posts d)"
  shows "actions_left (d_phase d') \<le> actions_left (d_phase d) - 1"
  using assms
  by (auto simp: advance_def post_defs MAX_DELIVERY_ATTEMPTS_def
      split: delivery_phase.splits delivery_event.splits if_splits)

lemma fold_advance:
  assumes "fold advance es (a, d) = (a', d')" and "posts_ok (d_phase d) (d_posts d)"
    and "actions_left (d_phase d) \<le> length es"
  shows "actions_left (d_phase d') = 0 \<and> d_type d' = d_type d \<and>
    in_flight a' = (if in_delivery (d_phase d) then in_flight a - {d_type d} else in_flight a)"
  using assms
proof (induction es arbitrary: a d)
  case Nil
  then show ?case by (cases "d_phase d") auto
next
  case (Cons e es)
  obtain a1 d1 where e: "advance e (a, d) = (a1, d1)" by fastforce
  note ad = advance_delivery [OF e]
  have "actions_left (d_phase d1) \<le> length es" using advance_progress [OF e Cons.prems(2)] Cons.prems(3) by simp
  from Cons.IH [OF _ advance_posts [OF e Cons.prems(2)] this] Cons.prems(1) e ad show ?case
    by (auto split: if_splits)
qed

lemma actions_left_le: "posts_ok p n \<Longrightarrow> actions_left p \<le> 6"
  by (cases p) auto

text \<open>C5: Whatever the sink does, and even when the thread never starts, six actions end a delivery
  and leave its type free to be sent again.\<close>

theorem delivery_ends:
  assumes "alert_reachable s" and "i < length (deliveries s)" and "in_delivery (d_phase (deliveries s ! i))"
    and "6 \<le> length es"
  shows "(\<exists>r. d_phase (snd (fold advance es (alerts s, deliveries s ! i))) = Finished r) \<and>
    d_type (deliveries s ! i) \<notin> in_flight (fst (fold advance es (alerts s, deliveries s ! i)))"
proof -
  obtain a d where f: "fold advance es (alerts s, deliveries s ! i) = (a, d)" by fastforce
  note po = alert_invD(7) [OF alert_reachable_inv [OF assms(1)] nth_mem [OF assms(2)]]
  have "actions_left (d_phase (deliveries s ! i)) \<le> length es" using actions_left_le [OF po] assms(4) by simp
  from fold_advance [OF f po this] assms(3) have
    "actions_left (d_phase d) = 0" "in_flight a = in_flight (alerts s) - {d_type (deliveries s ! i)}" by simp_all
  moreover have "\<exists>r. p = Finished r" if "actions_left p = 0" for p using that by (cases p) auto
  ultimately show ?thesis using f by simp
qed

theorem delivery_ends_witness:
  "''solver'' \<notin> in_flight (fst (fold advance (replicate 6 ThreadFailed) (alerts sample_opened, opened_alert 1000)))"
  using delivery_ends [OF reachable_opened, of 0 "replicate 6 ThreadFailed"]
  by (simp add: sample_opened_def opened_alert_def del: replicate.simps)

text \<open>A retry waits at least the backoff, at least what a Retry-After of up to a minute asks for,
  and never more than a minute, whatever the header holds.\<close>

theorem retry_delay_bounded:
  assumes "backoff_draw attempt draw" and "attempt \<le> MAX_DELIVERY_ATTEMPTS"
  shows "\<exists>x. retry_delay_s draw retry_after = Fin x \<and> draw \<le> x \<and> x \<le> 60 \<and>
    (\<nexists>header r. retry_after = Some header \<and> header \<noteq> [] \<and> parse_float (strip header) = Some (Fin r) \<and> x < r \<and> r \<le> 60)"
proof -
  have "(2::real) ^ (attempt - 1) \<le> 2 ^ 2"
    using assms(2) by (intro power_increasing) (auto simp: MAX_DELIVERY_ATTEMPTS_def)
  then have d: "0 < draw" "draw \<le> 2"
    using assms(1) by (auto simp: backoff_draw_def backoff_window_def BACKOFF_BASE_S_def
        intro: less_le_trans [of 0 "2 ^ (attempt - 1) / 4"])
  show ?thesis
  proof (cases "\<exists>header requested. retry_after = Some header \<and> header \<noteq> [] \<and> parse_float (strip header) = Some requested")
    case True
    then obtain header requested where h: "retry_after = Some header" "header \<noteq> []" "parse_float (strip header) = Some requested"
      by blast
    then show ?thesis
      using d by (cases requested) (auto simp: retry_delay_s_def py_min_def py_max_def MAX_RETRY_AFTER_S_def)
  next
    case False
    then have "retry_delay_s draw retry_after = Fin draw"
      by (auto simp: retry_delay_s_def split: option.splits)
    with False d show ?thesis by auto
  qed
qed

theorem retry_delay_bounded_witness:
  "\<exists>x. retry_delay_s 1 (Some ''120'') = Fin x \<and> 1 \<le> x \<and> x \<le> 60"
  using retry_delay_bounded [of 2 1 "Some ''120''"]
  by (auto simp: backoff_draw_def backoff_window_def BACKOFF_BASE_S_def MAX_DELIVERY_ATTEMPTS_def)

end
