(* ===== verification/OwnerAddress.thy ===== *)
theory OwnerAddress
  imports PyValues
begin

text \<open>
  What the server accepts as an address, and the two documents that carry one: the site contact
  (\<open>services/node_contact.py\<close>) and the nomination of an owner (\<open>services/node_claim.py\<close>), both over
  the grammar of \<open>services/email_address.py\<close>.  Characters are code points below 256, on which
  \<open>str.lower\<close> keeps a string's length; beyond them it need not.
\<close>

named_theorems address_simps "the grammar's predicates"

subsection \<open>The grammar\<close>

definition MAX_ADDRESS_LENGTH :: nat where "MAX_ADDRESS_LENGTH = 255"

definition is_address :: "string \<Rightarrow> bool" where
  "is_address v =
     (if list_ex is_space v then False
      else
        (let (local_part, separator, domain) = partition_at CHR ''@'' v
         in if \<not> separator \<or> local_part = [] \<or> CHR ''@'' \<in> set domain then False
            else (let labels = split_on CHR ''.'' domain
                  in 2 \<le> length labels \<and> list_all (\<lambda>l. l \<noteq> []) labels)))"

subsection \<open>The site contact\<close>

datatype contact_error = ContactInvalid string string

definition MAX_LENGTHS :: "(string, nat) dict" where
  "MAX_LENGTHS = [(''first_name'', 64), (''last_name'', 64), (''email'', MAX_ADDRESS_LENGTH), (''phone'', 32),
     (''country'', 2)]"

definition PHONE_CHARACTERS :: string where "PHONE_CHARACTERS = ''0123456789 +-()''"

definition is_letter_ascii :: "char \<Rightarrow> bool" where
  "is_letter_ascii c \<longleftrightarrow> is_lower_ascii c \<or> is_upper_ascii c"

definition contact_string :: "string \<Rightarrow> nat \<Rightarrow> json \<Rightarrow> contact_error + string option" where
  "contact_string field bound value =
     (case value of
        JStr s \<Rightarrow>
          (let trimmed = strip s
           in if trimmed = [] then Inr None
              else if bound < length trimmed then Inl (ContactInvalid field ''too long'')
              else Inr (Some trimmed))
      | _ \<Rightarrow> Inl (ContactInvalid field ''not a string''))"

definition contact_email :: "string \<Rightarrow> contact_error + string" where
  "contact_email v = (if \<not> is_address v then Inl (ContactInvalid ''email'' ''not an address'') else Inr v)"

definition contact_country :: "string \<Rightarrow> contact_error + string" where
  "contact_country v =
     (if length v \<noteq> 2 \<or> \<not> list_all is_letter_ascii v then Inl (ContactInvalid ''country'' ''not a country code'')
      else Inr (map upper_ascii_char v))"

definition contact_phone :: "string \<Rightarrow> contact_error + string" where
  "contact_phone v =
     (if \<not> set v \<subseteq> set PHONE_CHARACTERS \<or> \<not> list_ex is_digit v then Inl (ContactInvalid ''phone'' ''not a number'')
      else Inr v)"

text \<open>The loop over the fields: the trimmed string or null of each, in the table's order.\<close>

type_synonym contact = "(string, string option) dict"

fun contact_fields :: "(string, nat) dict \<Rightarrow> (string, json) dict \<Rightarrow> contact_error + contact" where
  "contact_fields [] payload = Inr []"
| "contact_fields ((field, bound) # rest) payload =
     bind_result
       (case py_get payload field of JNull \<Rightarrow> Inr None | v \<Rightarrow> contact_string field bound v)
       (\<lambda>v. bind_result (contact_fields rest payload) (\<lambda>out. Inr ((field, v) # out)))"

text \<open>\<open>if out[f] is not None: out[f] = check(out[f])\<close>\<close>

definition recheck :: "string \<Rightarrow> (string \<Rightarrow> contact_error + string) \<Rightarrow> contact \<Rightarrow> contact_error + contact" where
  "recheck field check out =
     (case dict_get out field of
        Some (Some v) \<Rightarrow> bind_result (check v) (\<lambda>w. Inr (dict_set out field (Some w)))
      | _ \<Rightarrow> Inr out)"

definition validate_contact :: "json \<Rightarrow> contact_error + contact" where
  "validate_contact payload =
     (case payload of
        JObj d \<Rightarrow>
          (case sort (filter (\<lambda>k. k \<notin> set (dict_keys MAX_LENGTHS)) (dict_keys d)) of
             k # _ \<Rightarrow> Inl (ContactInvalid k ''unknown field'')
           | [] \<Rightarrow>
               bind_result (contact_fields MAX_LENGTHS d) (\<lambda>out.
               bind_result (recheck ''email'' contact_email out) (\<lambda>out.
               bind_result (recheck ''phone'' contact_phone out)
                 (recheck ''country'' contact_country))))
      | _ \<Rightarrow> Inl (ContactInvalid ''contact'' ''not an object''))"

subsection \<open>The nomination\<close>

datatype claim_error = ClaimInvalid string string

definition validate_claim :: "json \<Rightarrow> claim_error + string" where
  "validate_claim payload =
     (case payload of
        JObj d \<Rightarrow>
          (case sort (filter (\<lambda>k. k \<noteq> ''email'') (dict_keys d)) of
             k # _ \<Rightarrow> Inl (ClaimInvalid k ''unknown field'')
           | [] \<Rightarrow>
               (case py_get d ''email'' of
                  JStr s \<Rightarrow>
                    (let normalised = lower (strip s)
                     in if normalised = [] then Inl (ClaimInvalid ''email'' ''not an address'')
                        else if MAX_ADDRESS_LENGTH < length normalised then Inl (ClaimInvalid ''email'' ''too long'')
                        else if \<not> is_address normalised then Inl (ClaimInvalid ''email'' ''not an address'')
                        else Inr normalised)
                | _ \<Rightarrow> Inl (ClaimInvalid ''email'' ''not a string'')))
      | _ \<Rightarrow> Inl (ClaimInvalid ''claim'' ''not an object''))"

definition normalise_email :: "string \<Rightarrow> string" where
  "normalise_email email = lower (strip email)"

subsection \<open>What lower casing leaves alone\<close>

lemma code_char_of: "n < 256 \<Longrightarrow> code (char_of n) = n"
  by (simp add: code_def)

lemma code_less: "code c < 256"
  by (simp add: code_def)

lemma code_inject: "code c = code d \<longleftrightarrow> c = d"
  by (simp add: code_def of_char_eq_iff)

lemma code_lower:
  "code (lower_char c) = (let n = code c in
     if 65 \<le> n \<and> n \<le> 90 \<or> 192 \<le> n \<and> n \<le> 222 \<and> n \<noteq> 215 then n + 32 else n)"
  by (auto simp: lower_char_def Let_def code_char_of)

lemma is_space_lower [address_simps]: "is_space (lower_char c) = is_space c"
  unfolding is_space_def code_lower by (auto simp: Let_def)

lemma lower_char_idem [simp]: "lower_char (lower_char c) = lower_char c"
proof -
  have "code (lower_char (lower_char c)) = code (lower_char c)"
    using code_less [of c] unfolding code_lower [of "lower_char c"] by (auto simp: code_lower Let_def)
  then show ?thesis by (simp add: code_inject)
qed

lemma lower_char_fixed:
  assumes "code d < 65 \<or> (90 < code d \<and> code d < 97)"
  shows "lower_char c = d \<longleftrightarrow> c = d"
proof -
  have "code (lower_char c) = code d \<longleftrightarrow> code c = code d"
    using assms by (auto simp: code_lower Let_def)
  then show ?thesis by (simp add: code_inject)
qed

lemma code_at_dot: "code CHR ''@'' = 64" "code CHR ''.'' = 46"
  by (simp_all add: code_def)

lemma lower_char_at_dot [address_simps]:
  "lower_char c = CHR ''@'' \<longleftrightarrow> c = CHR ''@''" "lower_char c = CHR ''.'' \<longleftrightarrow> c = CHR ''.''"
  using lower_char_fixed [of "CHR ''@''" c] lower_char_fixed [of "CHR ''.''" c] by (simp_all add: code_at_dot)

lemma lower_simps [simp]:
  "length (lower s) = length s" "lower s = [] \<longleftrightarrow> s = []" "lower (lower s) = lower s"
  "list_ex is_space (lower s) = list_ex is_space s"
  by (simp_all add: lower_def o_def list_ex_iff address_simps)

lemma takeWhile_lower: "takeWhile (\<lambda>x. x \<noteq> CHR ''@'') (lower s) = lower (takeWhile (\<lambda>x. x \<noteq> CHR ''@'') s)"
  by (simp add: lower_def takeWhile_map o_def address_simps)

lemma dropWhile_lower: "dropWhile (\<lambda>x. x \<noteq> CHR ''@'') (lower s) = lower (dropWhile (\<lambda>x. x \<noteq> CHR ''@'') s)"
  by (simp add: lower_def dropWhile_map o_def address_simps)

lemma split_on_lower: "split_on CHR ''.'' (lower s) = map lower (split_on CHR ''.'' s)"
  by (induction s) (auto simp: lower_def address_simps split: list.splits)

lemma partition_lower:
  "partition_at CHR ''@'' (lower s) =
     (let (l, b, r) = partition_at CHR ''@'' s in (lower l, b, lower r))"
  unfolding partition_at_def Let_def takeWhile_lower dropWhile_lower prod.case
  by (cases "dropWhile (\<lambda>x. x \<noteq> CHR ''@'') s") (simp_all only: lower_def list.map list.case prod.case)

lemma at_lower: "CHR ''@'' \<in> set (lower s) \<longleftrightarrow> CHR ''@'' \<in> set s"
proof -
  have "CHR ''@'' = lower_char c \<longleftrightarrow> c = CHR ''@''" for c using lower_char_at_dot(1) [of c] by metis
  then show ?thesis by (auto simp: lower_def image_iff)
qed

lemma is_address_lower [simp]: "is_address (lower s) = is_address s"
proof -
  obtain l b r where p: "partition_at CHR ''@'' s = (l, b, r)" by (metis prod_cases3)
  then show ?thesis
    by (simp add: is_address_def partition_lower at_lower split_on_lower list_all_iff Let_def del: split_on.simps)
qed

subsection \<open>Trimming\<close>

lemma strip_ends:
  "strip s \<noteq> [] \<Longrightarrow> \<not> is_space (hd (strip s)) \<and> \<not> is_space (last (strip s))"
proof -
  let ?t = "dropWhile is_space s"
  assume ne: "strip s \<noteq> []"
  have l: "\<not> is_space (last (strip s))"
    using ne hd_dropWhile [of is_space "rev ?t"] by (simp add: strip_def last_rev)
  obtain u v where uv: "rev ?t = u @ rev (strip s)"
    unfolding strip_def by (metis rev_rev_ident takeWhile_dropWhile_id)
  then have "?t = strip s @ rev u" by (metis rev_append rev_rev_ident)
  then have "hd ?t = hd (strip s)" "?t \<noteq> []" using ne by simp_all
  with l hd_dropWhile [of is_space s] show ?thesis by simp
qed

lemma strip_id: "s = [] \<or> (\<not> is_space (hd s) \<and> \<not> is_space (last s)) \<Longrightarrow> strip s = s"
proof (cases s)
  case (Cons c cs)
  assume "s = [] \<or> (\<not> is_space (hd s) \<and> \<not> is_space (last s))"
  with Cons have d: "dropWhile is_space s = s" and l: "\<not> is_space (hd (rev s))" by (auto simp: hd_rev simp del: rev.simps)
  have "dropWhile is_space (rev s) = rev s" using l by (cases "rev s") auto
  with d show ?thesis by (simp add: strip_def)
qed (simp add: strip_def)

lemma strip_strip [simp]: "strip (strip s) = strip s"
  by (rule strip_id) (use strip_ends [of s] in blast)

lemma strip_lower: "strip (lower s) = lower (strip s)"
  by (simp add: strip_def lower_def dropWhile_map o_def rev_map address_simps)

lemma strip_map_fixed:
  assumes "\<And>c. is_space (f c) = is_space c"
  shows "strip (map f s) = map f (strip s)"
  using assms by (simp add: strip_def dropWhile_map o_def rev_map)

subsection \<open>Both documents judge an address alike\<close>

lemma sole_email_contact:
  "(\<exists>out. validate_contact (JObj [(''email'', JStr s)]) = Inr out \<and> dict_get out ''email'' = Some (Some a)) \<longleftrightarrow>
     a = strip s \<and> strip s \<noteq> [] \<and> length (strip s) \<le> 255 \<and> is_address (strip s)"
  by (auto simp: validate_contact_def MAX_LENGTHS_def MAX_ADDRESS_LENGTH_def dict_keys_def py_get_def dict_get_def
      contact_string_def recheck_def contact_email_def dict_set_def Let_def bind_result_eq_Inr
      split: if_splits)

lemma sole_email_claim:
  "validate_claim (JObj [(''email'', JStr s)]) = Inr a \<longleftrightarrow>
     a = lower (strip s) \<and> strip s \<noteq> [] \<and> length (strip s) \<le> 255 \<and> is_address (strip s)"
  by (auto simp: validate_claim_def MAX_ADDRESS_LENGTH_def dict_keys_def py_get_def dict_get_def Let_def)

subsection \<open>Properties\<close>

text \<open>An address is fit for the site contact exactly when it is fit to claim a node with, and a
  claim keys on the lower-cased form of what the contact shows: a node is never told by one
  endpoint that its address is fine and refused by the other.\<close>

theorem contact_and_claim_agree:
  "validate_claim (JObj [(''email'', JStr s)]) = Inr a \<longleftrightarrow>
     (\<exists>out b. validate_contact (JObj [(''email'', JStr s)]) = Inr out \<and> dict_get out ''email'' = Some (Some b) \<and>
        a = lower b)"
  using sole_email_contact [of s] sole_email_claim [of s a] by metis

text \<open>The address a claim returns is what accounts are keyed on: normalising it again, or
  nominating it again, gives the same address.\<close>

theorem claim_address_normal:
  assumes "validate_claim p = Inr a"
  shows "normalise_email a = a \<and> validate_claim (JObj [(''email'', JStr a)]) = Inr a"
proof -
  from assms obtain d s where "py_get d ''email'' = JStr s" "a = lower (strip s)" "a \<noteq> []" "length a \<le> 255" "is_address a"
    by (auto simp: validate_claim_def Let_def MAX_ADDRESS_LENGTH_def split: json.splits list.splits if_splits)
  then show ?thesis
    unfolding sole_email_claim by (simp add: normalise_email_def strip_lower)
qed

theorem claim_address_normal_witness: "normalise_email ''a@b.example'' = ''a@b.example''"
proof -
  have strip: "strip ''a@b.example'' = ''a@b.example''"
    by (simp add: strip_def is_space_def code_def)
  have "is_address ''a@b.example''" by (simp add: is_address_def partition_at_def is_space_def code_def)
  moreover have "lower ''a@b.example'' = ''a@b.example''"
    by (simp add: lower_def lower_char_def code_def)
  ultimately have "validate_claim (JObj [(''email'', JStr ''a@b.example'')]) = Inr ''a@b.example''"
    unfolding sole_email_claim by (simp add: strip)
  from claim_address_normal [OF this] show ?thesis by simp
qed

end
