(* ===== verification/Claims.thy ===== *)
theory Claims
  imports OwnerAddress RateLimits
begin

text \<open>
  Owning a node: the emailed links of \<open>core/auth.py\<close>, the claim links over them
  (\<open>services/claim_links.py\<close>), the two claim tables (\<open>services/node_claim_store.py\<close>), the click,
  the decline and the release (\<open>services/node_claiming.py\<close>), and the handlers that offer an address
  (\<open>routes/node_claim.py\<close>).

  The database is one state; a transaction is one step on it.  \<open>hash\<close> is \<open>sha256\<close> in hex, a
  parameter here; a minted token and the clock are arguments.  Mail leaves the state alone: what
  a handler hands to \<open>deliver\<close> is part of its answer.
\<close>

named_theorems claim_simps "reading the claim tables"

subsection \<open>The tables\<close>

definition MAGIC_LINK_EXPIRY_S :: real where "MAGIC_LINK_EXPIRY_S = 900"
definition MAX_OUTSTANDING_MAGIC_LINKS :: nat where "MAX_OUTSTANDING_MAGIC_LINKS = 5"
definition INTENT_SIGNIN :: string where "INTENT_SIGNIN = ''signin''"
definition INTENT_CLAIM :: string where "INTENT_CLAIM = ''claim''"

record magic_link =
  token_hash :: string
  l_email :: string
  l_intent :: string
  l_node :: "string option"
  l_created :: real
  l_expires :: real
  l_used :: "real option"

record node_claim =
  user_id :: "string option"
  c_email :: "string option"
  verified :: bool
  undeliverable :: bool
  c_updated :: real

record node_challenge =
  h_email :: string
  h_handle :: string
  h_created :: real
  h_expires :: real

record user =
  u_id :: string
  is_superuser :: bool
  is_verified :: bool

text \<open>\<open>node_claims\<close> and \<open>node_claim_challenges\<close> are keyed by node, so each holds one row per node;
  \<open>nodes\<close> gives a registered node its public handle, and \<open>users\<close> is keyed by address.\<close>

record claim_db =
  links :: "magic_link list"
  claims :: "(string, node_claim) dict"
  challenges :: "(string, node_challenge) dict"
  users :: "(string, user) dict"
  nodes :: "(string, string) dict"

subsection \<open>Magic links\<close>

definition live :: "real \<Rightarrow> magic_link \<Rightarrow> bool" where
  "live now l \<longleftrightarrow> l_used l = None \<and> now \<le> l_expires l"

definition outstanding :: "real \<Rightarrow> string \<Rightarrow> string \<Rightarrow> magic_link list \<Rightarrow> magic_link list" where
  "outstanding now email intent ls = filter (\<lambda>l. l_email l = email \<and> l_intent l = intent \<and> live now l) ls"

definition create_magic_link ::
    "(string \<Rightarrow> string) \<Rightarrow> string \<Rightarrow> string \<Rightarrow> string \<Rightarrow> string option \<Rightarrow> real \<Rightarrow> claim_db \<Rightarrow> claim_db \<times> string option" where
  "create_magic_link hash token raw intent node now db =
     (let email = normalise_email raw;
          kept = filter (\<lambda>l. \<not> (l_email l = email \<and> l_expires l < now)) (links db);
          db1 = db\<lparr>links := kept\<rparr>
      in if MAX_OUTSTANDING_MAGIC_LINKS \<le> length (outstanding now email intent kept) then (db1, None)
         else (db1\<lparr>links := kept @ [\<lparr>token_hash = hash token, l_email = email, l_intent = intent, l_node = node,
                 l_created = now, l_expires = now + MAGIC_LINK_EXPIRY_S, l_used = None\<rparr>]\<rparr>, Some token))"

definition blank :: "string \<Rightarrow> bool" where
  "blank token \<longleftrightarrow> strip token = []"

definition find_link :: "string \<Rightarrow> string \<Rightarrow> real \<Rightarrow> magic_link list \<Rightarrow> magic_link option" where
  "find_link handle intent now ls = find (\<lambda>l. token_hash l = handle \<and> l_intent l = intent \<and> live now l) ls"

text \<open>\<open>token_hash\<close> is the primary key, so the update touches one row.\<close>

definition redeem_magic_link ::
    "(string \<Rightarrow> string) \<Rightarrow> string \<Rightarrow> string \<Rightarrow> real \<Rightarrow> claim_db \<Rightarrow> claim_db \<times> (string \<times> string option) option" where
  "redeem_magic_link hash token intent now db =
     (if blank token then (db, None)
      else
        (case find_link (hash token) intent now (links db) of
           None \<Rightarrow> (db, None)
         | Some l \<Rightarrow>
             (let spent = map (\<lambda>r. if token_hash r = hash token then r\<lparr>l_used := Some now\<rparr> else r) (links db);
                  kept = filter (\<lambda>r. \<not> (l_email r = l_email l \<and> l_intent r = intent \<and> l_node r = l_node l \<and>
                                        l_used r = None)) spent
              in (db\<lparr>links := kept\<rparr>, Some (l_email l, l_node l)))))"

definition consume_magic_link :: "(string \<Rightarrow> string) \<Rightarrow> string \<Rightarrow> real \<Rightarrow> claim_db \<Rightarrow> claim_db \<times> string option" where
  "consume_magic_link hash token now db =
     (let (db', r) = redeem_magic_link hash token INTENT_SIGNIN now db in (db', map_option fst r))"

definition peek_magic_link :: "(string \<Rightarrow> string) \<Rightarrow> string \<Rightarrow> string \<Rightarrow> real \<Rightarrow> claim_db \<Rightarrow> (string \<times> string option) option" where
  "peek_magic_link hash token intent now db =
     (if blank token then None
      else map_option (\<lambda>l. (l_email l, l_node l)) (find_link (hash token) intent now (links db)))"

definition invalidate_magic_link :: "string \<Rightarrow> claim_db \<Rightarrow> claim_db" where
  "invalidate_magic_link handle db = db\<lparr>links := filter (\<lambda>l. token_hash l \<noteq> handle) (links db)\<rparr>"

subsection \<open>Claim links\<close>

text \<open>A fresh challenge: its handle, the token that is mailed, and its expiry.\<close>

type_synonym challenge = "string \<times> string \<times> real"

definition issue ::
    "(string \<Rightarrow> string) \<Rightarrow> string \<Rightarrow> string \<Rightarrow> string \<Rightarrow> real \<Rightarrow> claim_db \<Rightarrow> claim_db \<times> challenge option" where
  "issue hash token email node now db =
     (let (db', t) = create_magic_link hash token email INTENT_CLAIM (Some node) now db
      in (db', map_option (\<lambda>t. (hash t, t, now + MAGIC_LINK_EXPIRY_S)) t))"

fun resolved :: "(string \<times> string option) option \<Rightarrow> (string \<times> string) option" where
  "resolved (Some (email, Some node)) = Some (email, node)"
| "resolved _ = None"

definition peek_claim :: "(string \<Rightarrow> string) \<Rightarrow> string \<Rightarrow> real \<Rightarrow> claim_db \<Rightarrow> (string \<times> string) option" where
  "peek_claim hash token now db = resolved (peek_magic_link hash token INTENT_CLAIM now db)"

definition redeem_claim :: "(string \<Rightarrow> string) \<Rightarrow> string \<Rightarrow> real \<Rightarrow> claim_db \<Rightarrow> claim_db \<times> (string \<times> string) option" where
  "redeem_claim hash token now db =
     (let (db', r) = redeem_magic_link hash token INTENT_CLAIM now db in (db', resolved r))"

subsection \<open>The claim store\<close>

definition read_owner :: "string \<Rightarrow> claim_db \<Rightarrow> string option" where
  "read_owner node db = (case dict_get (claims db) node of None \<Rightarrow> None | Some c \<Rightarrow> user_id c)"

definition set_claim_address :: "real \<Rightarrow> string \<Rightarrow> string \<Rightarrow> claim_db \<Rightarrow> claim_db" where
  "set_claim_address now node email db =
     (case dict_get (claims db) node of
        None \<Rightarrow> db\<lparr>claims := dict_set (claims db) node
                 \<lparr>user_id = None, c_email = Some email, verified = False, undeliverable = False, c_updated = now\<rparr>\<rparr>
      | Some row \<Rightarrow>
          if c_email row \<noteq> Some email then
            db\<lparr>claims := dict_set (claims db) node
                 (row\<lparr>c_email := Some email, verified := False, undeliverable := False, c_updated := now\<rparr>)\<rparr>
          else db)"

definition drop_challenge :: "string \<Rightarrow> claim_db \<Rightarrow> claim_db \<times> string option" where
  "drop_challenge node db =
     (case dict_get (challenges db) node of
        None \<Rightarrow> (db, None)
      | Some h \<Rightarrow> (db\<lparr>challenges := dict_del (challenges db) node\<rparr>, Some (h_handle h)))"

definition mark_verified :: "real \<Rightarrow> string \<Rightarrow> string \<Rightarrow> claim_db \<Rightarrow> claim_db" where
  "mark_verified now node email db =
     (case dict_get (claims db) node of
        None \<Rightarrow> db
      | Some row \<Rightarrow>
          if c_email row \<noteq> Some email then db
          else fst (drop_challenge node (db\<lparr>claims := dict_set (claims db) node
                      (row\<lparr>verified := True, c_updated := now\<rparr>)\<rparr>)))"

definition mark_undeliverable :: "real \<Rightarrow> string \<Rightarrow> string \<Rightarrow> claim_db \<Rightarrow> claim_db \<times> string option" where
  "mark_undeliverable now node email db =
     (case dict_get (claims db) node of
        None \<Rightarrow> (db, None)
      | Some row \<Rightarrow>
          if c_email row \<noteq> Some email then (db, None)
          else drop_challenge node (db\<lparr>claims := dict_set (claims db) node
                 (row\<lparr>undeliverable := True, c_updated := now\<rparr>)\<rparr>))"

definition clear_claim :: "string \<Rightarrow> claim_db \<Rightarrow> claim_db" where
  "clear_claim node db =
     db\<lparr>challenges := dict_del (challenges db) node, claims := dict_del (claims db) node\<rparr>"

text \<open>An unregistered node fails on the foreign key, and the transaction rolls back.\<close>

datatype claim_store_error = ForeignKey string

definition set_owner :: "real \<Rightarrow> string \<Rightarrow> string option \<Rightarrow> claim_db \<Rightarrow> claim_store_error + claim_db" where
  "set_owner now node uid db =
     (let row = dict_get (claims db) node in
      if row \<noteq> None \<and> uid \<noteq> None \<and> user_id (the row) = uid then Inr db
      else case uid of
        None \<Rightarrow> Inr (clear_claim node db)
      | Some u \<Rightarrow>
          (let db1 = fst (drop_challenge node db) in
           case row of
             None \<Rightarrow> if \<not> dict_has (nodes db) node then Inl (ForeignKey node)
                     else Inr (db1\<lparr>claims := dict_set (claims db1) node
                       \<lparr>user_id = Some u, c_email = None, verified = False, undeliverable = False, c_updated = now\<rparr>\<rparr>)
           | Some r \<Rightarrow> Inr (db1\<lparr>claims := dict_set (claims db1) node
                       (r\<lparr>user_id := Some u, c_email := None, verified := False, undeliverable := False, c_updated := now\<rparr>)\<rparr>)))"

definition put_challenge :: "real \<Rightarrow> string \<Rightarrow> string \<Rightarrow> string \<Rightarrow> real \<Rightarrow> claim_db \<Rightarrow> claim_db \<times> string option" where
  "put_challenge now node email handle expires db =
     (db\<lparr>challenges := dict_set (challenges db) node
          \<lparr>h_email = email, h_handle = handle, h_created = now, h_expires = expires\<rparr>\<rparr>,
      map_option h_handle (dict_get (challenges db) node))"

datatype claim_state = Unclaimed | Pending | Owned

record claim_status =
  state :: claim_state
  status_email :: "string option"
  status_undeliverable :: bool

definition claim_status :: "string \<Rightarrow> real \<Rightarrow> claim_db \<Rightarrow> claim_status" where
  "claim_status node now db =
     (case dict_get (claims db) node of
        None \<Rightarrow> \<lparr>state = Unclaimed, status_email = None, status_undeliverable = False\<rparr>
      | Some c \<Rightarrow>
          if user_id c \<noteq> None then \<lparr>state = Owned, status_email = c_email c, status_undeliverable = False\<rparr>
          else if undeliverable c then \<lparr>state = Unclaimed, status_email = c_email c, status_undeliverable = True\<rparr>
          else (case dict_get (challenges db) node of
                  Some h \<Rightarrow>
                    if now < h_expires h
                    then \<lparr>state = Pending, status_email = Some (h_email h), status_undeliverable = False\<rparr>
                    else \<lparr>state = Unclaimed, status_email = c_email c, status_undeliverable = False\<rparr>
                | None \<Rightarrow> \<lparr>state = Unclaimed, status_email = c_email c, status_undeliverable = False\<rparr>))"

definition claim_addresses :: "string list \<Rightarrow> claim_db \<Rightarrow> (string, string) dict" where
  "claim_addresses ids db =
     List.map_filter (\<lambda>(node, c). if node \<in> set ids \<and> verified c then map_option (Pair node) (c_email c) else None)
       (claims db)"

subsection \<open>The account behind an address\<close>

datatype account_error = MagicLinkRefused

definition guard_user :: "user \<Rightarrow> account_error + user" where
  "guard_user u = (if is_superuser u then Inl MagicLinkRefused else Inr u)"

text \<open>\<open>meanwhile\<close> is what other requests do to the accounts between the lookup and the creation, and
  \<open>uid\<close> the id the accounts library gives a new one.\<close>

definition get_or_create_magic_link_user ::
    "((string, user) dict \<Rightarrow> (string, user) dict) \<Rightarrow> string \<Rightarrow> string \<Rightarrow> claim_db \<Rightarrow> claim_db \<times> (account_error + user)" where
  "get_or_create_magic_link_user meanwhile uid raw db =
     (let email = normalise_email raw in
      case dict_get (users db) email of
        Some u \<Rightarrow>
          (case guard_user u of
             Inl e \<Rightarrow> (db, Inl e)
           | Inr u \<Rightarrow>
               if is_verified u then (db, Inr u)
               else (let u' = u\<lparr>is_verified := True\<rparr> in (db\<lparr>users := dict_set (users db) email u'\<rparr>, Inr u')))
      | None \<Rightarrow>
          (let us = meanwhile (users db) in
           case dict_get us email of
             None \<Rightarrow> (let u = \<lparr>u_id = uid, is_superuser = False, is_verified = True\<rparr>
                      in (db\<lparr>users := dict_set us email u\<rparr>, Inr u))
           | Some u \<Rightarrow> (db\<lparr>users := us\<rparr>, guard_user u)))"

subsection \<open>The click\<close>

datatype claim_outcome = BOUND | INVALID | TAKEN

text \<open>The transactions of \<open>complete_claim\<close>, each one step: the link is read; an owner who is not
  this account is looked for; the account is resolved; the link is spent; the node is bound.\<close>

definition taken_up_front :: "string \<Rightarrow> string \<Rightarrow> claim_db \<Rightarrow> bool" where
  "taken_up_front node email db \<longleftrightarrow>
     read_owner node db \<noteq> None \<and> read_owner node db \<noteq> map_option u_id (dict_get (users db) email)"

definition bind_claim :: "real \<Rightarrow> string \<Rightarrow> string \<Rightarrow> string \<Rightarrow> claim_db \<Rightarrow> claim_db \<times> claim_outcome" where
  "bind_claim now uid node email db =
     (case dict_get (claims db) node of
        None \<Rightarrow> (db, INVALID)
      | Some c \<Rightarrow>
          (case user_id c of
             Some owner \<Rightarrow>
               if owner \<noteq> uid then (db, TAKEN) else (mark_verified now node email db, BOUND)
           | None \<Rightarrow>
               if c_email c \<noteq> Some email then (db, INVALID)
               else (mark_verified now node email
                       (db\<lparr>claims := dict_set (claims db) node (c\<lparr>user_id := Some uid\<rparr>)\<rparr>), BOUND)))"

text \<open>The whole call with nothing in between.\<close>

definition complete_claim ::
    "(string \<Rightarrow> string) \<Rightarrow> string \<Rightarrow> string \<Rightarrow> real \<Rightarrow> claim_db \<Rightarrow> claim_db \<times> claim_outcome \<times> string option" where
  "complete_claim hash uid token now db =
     (case peek_claim hash token now db of
        None \<Rightarrow> (db, INVALID, None)
      | Some (email, node) \<Rightarrow>
          if taken_up_front node email db then (db, TAKEN, None)
          else
            (case get_or_create_magic_link_user id uid email db of
               (db1, Inl _) \<Rightarrow> (db1, INVALID, None)
             | (db1, Inr u) \<Rightarrow>
                 (case redeem_claim hash token now db1 of
                    (db2, None) \<Rightarrow> (db2, INVALID, None)
                  | (db2, Some _) \<Rightarrow>
                      (let (db3, out) = bind_claim now (u_id u) node email db2
                       in (db3, out, if out = BOUND then Some (u_id u) else None)))))"

definition preview_claim :: "(string \<Rightarrow> string) \<Rightarrow> string \<Rightarrow> real \<Rightarrow> claim_db \<Rightarrow> string option" where
  "preview_claim hash token now db =
     (case peek_claim hash token now db of None \<Rightarrow> None | Some (email, node) \<Rightarrow> dict_get (nodes db) node)"

definition decline_claim :: "(string \<Rightarrow> string) \<Rightarrow> string \<Rightarrow> real \<Rightarrow> claim_db \<Rightarrow> claim_db \<times> bool" where
  "decline_claim hash token now db =
     (case redeem_claim hash token now db of
        (db1, None) \<Rightarrow> (db1, False)
      | (db1, Some (email, node)) \<Rightarrow>
          (case dict_get (challenges db1) node of
             Some h \<Rightarrow> (if h_handle h = hash token then fst (drop_challenge node db1) else db1, True)
           | None \<Rightarrow> (db1, True)))"

definition release_node :: "string \<Rightarrow> string \<Rightarrow> claim_db \<Rightarrow> claim_db \<times> bool" where
  "release_node node uid db =
     (if read_owner node db \<noteq> Some uid then (db, False) else (clear_claim node db, True))"

subsection \<open>Offering an address\<close>

text \<open>A handler's answer: the status code with where the claim stands and the mail it hands over,
  if any, an invalid body, or the limiter's refusal.\<close>

datatype claim_answer =
    State int claim_status "(string \<times> string) option"
  | InvalidClaim string
  | Refused refusal

record claim_server =
  store :: claim_db
  limiter :: limiter

definition start_claim ::
    "(string \<Rightarrow> string) \<Rightarrow> string \<Rightarrow> string \<Rightarrow> string \<Rightarrow> real \<Rightarrow> real \<Rightarrow> claim_server \<Rightarrow> claim_server \<times> claim_answer" where
  "start_claim hash token node email tick now s =
     (case claim_admit tick node email (limiter s) of
        (lm, Some ref) \<Rightarrow> (s\<lparr>limiter := lm\<rparr>, Refused ref)
      | (lm, None) \<Rightarrow>
          (let db1 = (case dict_get (challenges (store s)) node of
                        None \<Rightarrow> store s | Some h \<Rightarrow> invalidate_magic_link (h_handle h) (store s))
           in case issue hash token email node now db1 of
                (db2, None) \<Rightarrow>
                  (s\<lparr>limiter := lm, store := set_claim_address now node email (fst (drop_challenge node db2))\<rparr>,
                   State 200 \<lparr>state = Unclaimed, status_email = Some email, status_undeliverable = False\<rparr> None)
              | (db2, Some (handle, t, expires)) \<Rightarrow>
                  (s\<lparr>limiter := lm,
                     store := set_claim_address now node email (fst (put_challenge now node email handle expires db2))\<rparr>,
                   State 200 \<lparr>state = Pending, status_email = Some email, status_undeliverable = False\<rparr>
                     (Some (email, t)))))"

definition put_claim ::
    "(string \<Rightarrow> string) \<Rightarrow> string \<Rightarrow> string \<Rightarrow> json option \<Rightarrow> real \<Rightarrow> real \<Rightarrow> claim_server \<Rightarrow> claim_server \<times> claim_answer" where
  "put_claim hash token node offered tick now s =
     (case offered of
        None \<Rightarrow> (s, InvalidClaim ''email'')
      | Some payload \<Rightarrow>
          (case validate_claim payload of
             Inl (ClaimInvalid field reason) \<Rightarrow> (s, InvalidClaim field)
           | Inr email \<Rightarrow>
               (let status = claim_status node now (store s) in
                if state status = Owned then
                  (s, State (if status_email status = Some email then 200 else 409) status None)
                else if status_email status = Some email then (s, State 200 status None)
                else start_claim hash token node email tick now s)))"

definition resend_claim ::
    "(string \<Rightarrow> string) \<Rightarrow> string \<Rightarrow> string \<Rightarrow> real \<Rightarrow> real \<Rightarrow> claim_server \<Rightarrow> claim_server \<times> claim_answer" where
  "resend_claim hash token node tick now s =
     (let status = claim_status node now (store s) in
      if state status = Owned then (s, State 409 status None)
      else case status_email status of
        None \<Rightarrow> (s, State 200 status None)
      | Some email \<Rightarrow>
          if status_undeliverable status then (s, State 200 status None)
          else start_claim hash token node email tick now s)"

subsection \<open>Everything at once\<close>

text \<open>
  Clicks in progress, each between two of its transactions, beside every other transaction the
  server runs on these tables.  \<open>minted\<close> records what each token was minted for and \<open>spent\<close> the
  tokens redeemed and under which intent; no step reads \<open>spent\<close>, and \<open>minted\<close> only says that a
  minted token is new.
\<close>

datatype click_phase =
    Clicked
  | Peeked string string
  | Checked string string
  | Resolved string string string
  | Redeemed string string string
  | Answered claim_outcome

record claim_system =
  cdb :: claim_db
  clicks :: "(string \<times> click_phase) list"
  minted :: "(string, string \<times> string \<times> string option) dict"
  spent :: "(string \<times> string) list"

datatype claim_event =
    SetOwner string "string option"
  | Release string string
  | Bind nat
  | Elsewhere

text \<open>One transaction of a click.  The accounts other requests make meanwhile never displace one.\<close>

definition click_step ::
    "(string \<Rightarrow> string) \<Rightarrow> ((string, user) dict \<Rightarrow> (string, user) dict) \<Rightarrow> string \<Rightarrow> real \<Rightarrow>
     claim_db \<times> (string \<times> click_phase) \<Rightarrow> claim_db \<times> click_phase" where
  "click_step hash meanwhile uid now dc =
     (let (d, token, ph) = dc in
      case ph of
        Clicked \<Rightarrow> (case peek_claim hash token now d of None \<Rightarrow> (d, Answered INVALID)
                   | Some (email, node) \<Rightarrow> (d, Peeked email node))
      | Peeked email node \<Rightarrow> (d, if taken_up_front node email d then Answered TAKEN else Checked email node)
      | Checked email node \<Rightarrow>
          (case get_or_create_magic_link_user meanwhile uid email d of
             (d', Inl _) \<Rightarrow> (d', Answered INVALID)
           | (d', Inr u) \<Rightarrow> (d', Resolved email node (u_id u)))
      | Resolved email node u \<Rightarrow>
          (case redeem_claim hash token now d of
             (d', None) \<Rightarrow> (d', Answered INVALID)
           | (d', Some _) \<Rightarrow> (d', Redeemed email node u))
      | Redeemed email node u \<Rightarrow> (let (d', out) = bind_claim now u node email d in (d', Answered out))
      | Answered out \<Rightarrow> (d, ph))"

definition keeps_accounts :: "((string, user) dict \<Rightarrow> (string, user) dict) \<Rightarrow> bool" where
  "keeps_accounts f \<longleftrightarrow> (\<forall>us e u. dict_get us e = Some u \<longrightarrow> dict_get (f us) e = Some u)"

text \<open>A token is spent where a redemption of it answered.\<close>

definition spend_of :: "(string \<Rightarrow> string) \<Rightarrow> string \<Rightarrow> string \<Rightarrow> real \<Rightarrow> claim_db \<Rightarrow> (string \<times> string) list" where
  "spend_of hash token intent now d =
     (if snd (redeem_magic_link hash token intent now d) = None then [] else [(token, intent)])"

inductive claim_move :: "(string \<Rightarrow> string) \<Rightarrow> claim_system \<Rightarrow> claim_event \<Rightarrow> claim_system \<Rightarrow> bool" for hash where
  mint: "\<not> dict_has (minted s) token \<Longrightarrow> create_magic_link hash token raw intent node now (cdb s) = (d, out) \<Longrightarrow>
    claim_move hash s Elsewhere
      (s\<lparr>cdb := d, minted := dict_set (minted s) token (intent, normalise_email raw, node)\<rparr>)"
| invalidate: "claim_move hash s Elsewhere (s\<lparr>cdb := invalidate_magic_link handle (cdb s)\<rparr>)"
| sign_in: "consume_magic_link hash token now (cdb s) = (d, out) \<Longrightarrow>
    claim_move hash s Elsewhere (s\<lparr>cdb := d, spent := spent s @ spend_of hash token INTENT_SIGNIN now (cdb s)\<rparr>)"
| decline: "decline_claim hash token now (cdb s) = (d, out) \<Longrightarrow>
    claim_move hash s Elsewhere (s\<lparr>cdb := d, spent := spent s @ spend_of hash token INTENT_CLAIM now (cdb s)\<rparr>)"
| open_link: "claim_move hash s Elsewhere (s\<lparr>clicks := clicks s @ [(token, Clicked)]\<rparr>)"
| click: "i < length (clicks s) \<Longrightarrow> clicks s ! i = (token, ph) \<Longrightarrow> keeps_accounts meanwhile \<Longrightarrow>
    click_step hash meanwhile uid now (cdb s, token, ph) = (d, ph') \<Longrightarrow>
    claim_move hash s (Bind i)
      (s\<lparr>cdb := d, clicks := (clicks s)[i := (token, ph')],
         spent := spent s @ (case ph of Resolved _ _ _ \<Rightarrow> spend_of hash token INTENT_CLAIM now (cdb s) | _ \<Rightarrow> [])\<rparr>)"
| nominate: "claim_move hash s Elsewhere (s\<lparr>cdb := set_claim_address now node email (cdb s)\<rparr>)"
| challenge: "put_challenge now node email handle expires (cdb s) = (d, out) \<Longrightarrow>
    claim_move hash s Elsewhere (s\<lparr>cdb := d\<rparr>)"
| drop: "drop_challenge node (cdb s) = (d, out) \<Longrightarrow> claim_move hash s Elsewhere (s\<lparr>cdb := d\<rparr>)"
| bounce: "mark_undeliverable now node email (cdb s) = (d, out) \<Longrightarrow> claim_move hash s Elsewhere (s\<lparr>cdb := d\<rparr>)"
| assign: "set_owner now node uid (cdb s) = Inr d \<Longrightarrow> claim_move hash s (SetOwner node uid) (s\<lparr>cdb := d\<rparr>)"
| release: "release_node node uid (cdb s) = (d, out) \<Longrightarrow> claim_move hash s (Release node uid) (s\<lparr>cdb := d\<rparr>)"

inductive_cases claim_moveE: "claim_move hash s e t"

definition claim_start :: "(string, string) dict \<Rightarrow> claim_system" where
  "claim_start ns = \<lparr>cdb = \<lparr>links = [], claims = [], challenges = [], users = [], nodes = ns\<rparr>, clicks = [],
     minted = [], spent = []\<rparr>"

inductive claim_reachable :: "(string \<Rightarrow> string) \<Rightarrow> claim_system \<Rightarrow> bool" for hash where
  start: "claim_reachable hash (claim_start ns)"
| move: "claim_reachable hash s \<Longrightarrow> claim_move hash s e t \<Longrightarrow> claim_reachable hash t"

subsection \<open>What the link table keeps\<close>

text \<open>Each link was minted with the intent, address and node it carries, and a spent token has no
  unused row.\<close>

definition link_minted :: "(string \<Rightarrow> string) \<Rightarrow> (string, string \<times> string \<times> string option) dict \<Rightarrow> magic_link \<Rightarrow> bool" where
  "link_minted hash m l \<longleftrightarrow>
     (\<exists>t. hash t = token_hash l \<and> dict_get m t = Some (l_intent l, l_email l, l_node l))"

definition links_inv ::
    "(string \<Rightarrow> string) \<Rightarrow> magic_link list \<Rightarrow> (string, string \<times> string \<times> string option) dict \<Rightarrow> (string \<times> string) list \<Rightarrow> bool" where
  "links_inv hash ls m sp \<longleftrightarrow>
     (\<forall>l \<in> set ls. link_minted hash m l) \<and>
     (\<forall>t intent. (t, intent) \<in> set sp \<longrightarrow> (\<exists>e n. dict_get m t = Some (intent, e, n)) \<and>
        (\<forall>l \<in> set ls. token_hash l = hash t \<longrightarrow> l_used l \<noteq> None)) \<and>
     distinct (map fst sp)"

lemma link_minted_set:
  "link_minted hash m l \<Longrightarrow> \<not> dict_has m t \<Longrightarrow> link_minted hash (dict_set m t v) l"
  by (auto simp: link_minted_def dict_has_get)

lemma find_link_Some:
  "find_link h intent now ls = Some l \<Longrightarrow> l \<in> set ls \<and> token_hash l = h \<and> l_intent l = intent \<and> live now l"
  by (auto simp: find_link_def find_Some_iff)

lemma redeem_links:
  "links (fst (redeem_magic_link hash token intent now d)) = links d \<and> snd (redeem_magic_link hash token intent now d) = None \<or>
   (\<exists>l. l \<in> set (links d) \<and> token_hash l = hash token \<and> l_intent l = intent \<and> live now l \<and>
      snd (redeem_magic_link hash token intent now d) = Some (l_email l, l_node l) \<and>
      (\<forall>r \<in> set (links (fst (redeem_magic_link hash token intent now d))).
         (\<exists>r0 \<in> set (links d). r = (if token_hash r0 = hash token then r0\<lparr>l_used := Some now\<rparr> else r0))))"
proof (cases "blank token \<or> find_link (hash token) intent now (links d) = None")
  case True
  then show ?thesis by (auto simp: redeem_magic_link_def)
next
  case False
  then obtain l where "\<not> blank token" "find_link (hash token) intent now (links d) = Some l" by auto
  with find_link_Some [OF this(2)] show ?thesis
    by (auto simp: redeem_magic_link_def Let_def)
qed

lemma redeem_other_tables:
  "claims (fst (redeem_magic_link hash token intent now d)) = claims d"
  "challenges (fst (redeem_magic_link hash token intent now d)) = challenges d"
  "users (fst (redeem_magic_link hash token intent now d)) = users d"
  by (simp_all add: redeem_magic_link_def Let_def split: option.split)

lemma links_inv_sub:
  "links_inv hash ls m sp \<Longrightarrow> set ls' \<subseteq> set ls \<Longrightarrow> links_inv hash ls' m sp"
  unfolding links_inv_def by blast

lemma links_inv_mint:
  assumes inj: "inj hash" and inv: "links_inv hash ls m sp" and new: "\<not> dict_has m token"
    and sub: "\<And>l. l \<in> set ls' \<Longrightarrow> l \<in> set ls \<or>
      (token_hash l = hash token \<and> l_intent l = intent \<and> l_email l = email \<and> l_node l = node)"
  shows "links_inv hash ls' (dict_set m token (intent, email, node)) sp"
proof -
  have ne: "t \<noteq> token" if "(t, i) \<in> set sp" for t i
  proof
    assume "t = token"
    with inv that have "\<exists>e n. dict_get m token = Some (i, e, n)" by (auto simp: links_inv_def)
    with new show False by (auto simp: dict_has_get)
  qed
  have "link_minted hash (dict_set m token (intent, email, node)) l" if "l \<in> set ls'" for l
    using sub [OF that]
  proof (elim disjE conjE)
    assume "l \<in> set ls"
    with inv link_minted_set [OF _ new] show ?thesis unfolding links_inv_def by blast
  next
    assume "token_hash l = hash token" "l_intent l = intent" "l_email l = email" "l_node l = node"
    then show ?thesis unfolding link_minted_def by (intro exI [of _ token]) simp
  qed
  moreover have "l_used l \<noteq> None" if "(t, i) \<in> set sp" "l \<in> set ls'" "token_hash l = hash t" for t i l
  proof -
    have "hash t \<noteq> hash token" using ne [OF that(1)] inj by (simp add: inj_eq)
    with sub [OF that(2)] that(3) have "l \<in> set ls" by auto
    with inv that show ?thesis unfolding links_inv_def by blast
  qed
  moreover have "\<exists>e n. dict_get (dict_set m token (intent, email, node)) t = Some (i, e, n)" if "(t, i) \<in> set sp" for t i
    using ne [OF that] inv that by (auto simp: links_inv_def)
  ultimately show ?thesis using inv by (auto simp: links_inv_def)
qed

lemma links_inv_redeem:
  assumes inj: "inj hash" and inv: "links_inv hash (links d) m sp"
  shows "links_inv hash (links (fst (redeem_magic_link hash token intent now d))) m
    (sp @ spend_of hash token intent now d)"
  using redeem_links [of hash token intent now d]
proof (elim disjE conjE exE)
  assume "links (fst (redeem_magic_link hash token intent now d)) = links d"
    "snd (redeem_magic_link hash token intent now d) = None"
  with inv show ?thesis by (simp add: spend_of_def)
next
  fix l
  assume l: "l \<in> set (links d)" "token_hash l = hash token" "l_intent l = intent" "live now l"
    and out: "snd (redeem_magic_link hash token intent now d) = Some (l_email l, l_node l)"
    and rows: "\<forall>r \<in> set (links (fst (redeem_magic_link hash token intent now d))).
         (\<exists>r0 \<in> set (links d). r = (if token_hash r0 = hash token then r0\<lparr>l_used := Some now\<rparr> else r0))"
  let ?ls = "links (fst (redeem_magic_link hash token intent now d))"
  from l(1) inv obtain t where "hash t = token_hash l" "dict_get m t = Some (l_intent l, l_email l, l_node l)"
    by (auto simp: links_inv_def link_minted_def)
  with l inj have m: "dict_get m token = Some (intent, l_email l, l_node l)" by (simp add: inj_eq)
  have fresh: "token \<notin> fst ` set sp" using inv l by (fastforce simp: links_inv_def live_def)
  have minted: "link_minted hash m r" if "r \<in> set ?ls" for r
  proof -
    from rows that obtain r0 where "r0 \<in> set (links d)"
        "r = (if token_hash r0 = hash token then r0\<lparr>l_used := Some now\<rparr> else r0)" by blast
    moreover have "link_minted hash m r0" using inv \<open>r0 \<in> set (links d)\<close> by (simp add: links_inv_def)
    ultimately show ?thesis by (cases "token_hash r0 = hash token") (simp_all add: link_minted_def)
  qed
  have used: "l_used r \<noteq> None" if "r \<in> set ?ls" "token_hash r = hash t" "t = token \<or> t \<in> fst ` set sp" for r t
  proof -
    from rows that(1) obtain r0 where r0: "r0 \<in> set (links d)"
        "r = (if token_hash r0 = hash token then r0\<lparr>l_used := Some now\<rparr> else r0)" by blast
    then show ?thesis using that inv by (cases "token_hash r0 = hash token") (auto simp: links_inv_def)
  qed
  have sp: "spend_of hash token intent now d = [(token, intent)]" using out by (simp add: spend_of_def)
  show ?thesis
    unfolding links_inv_def sp
  proof (intro conjI ballI allI impI)
    show "distinct (map fst (sp @ [(token, intent)]))" using inv fresh by (simp add: links_inv_def)
    show "\<exists>e n. dict_get m t = Some (i, e, n)" if "(t, i) \<in> set (sp @ [(token, intent)])" for t i
      using that m inv by (auto simp: links_inv_def)
    show "l_used r \<noteq> None" if "(t, i) \<in> set (sp @ [(token, intent)])" "r \<in> set ?ls" "token_hash r = hash t" for t i r
      using used [OF that(2,3)] that(1) by (force simp: image_iff)
  qed (rule minted)
qed

subsection \<open>What a click carries\<close>

definition accounts_kept :: "(string, user) dict \<Rightarrow> (string, user) dict \<Rightarrow> bool" where
  "accounts_kept us us' \<longleftrightarrow>
     (\<forall>e a. dict_get us e = Some a \<longrightarrow> (\<exists>a'. dict_get us' e = Some a' \<and> u_id a' = u_id a))"

fun click_ok ::
    "(string, string \<times> string \<times> string option) dict \<Rightarrow> (string, user) dict \<Rightarrow> (string \<times> string) list \<Rightarrow> string \<times> click_phase \<Rightarrow> bool" where
  "click_ok m us sp (token, Peeked e n) = (dict_get m token = Some (INTENT_CLAIM, e, Some n))"
| "click_ok m us sp (token, Checked e n) = (dict_get m token = Some (INTENT_CLAIM, e, Some n))"
| "click_ok m us sp (token, Resolved e n u) = (dict_get m token = Some (INTENT_CLAIM, e, Some n) \<and>
     (\<exists>a. dict_get us e = Some a \<and> u_id a = u))"
| "click_ok m us sp (token, Redeemed e n u) = (dict_get m token = Some (INTENT_CLAIM, e, Some n) \<and>
     (\<exists>a. dict_get us e = Some a \<and> u_id a = u) \<and> (token, INTENT_CLAIM) \<in> set sp)"
| "click_ok m us sp (token, _) = True"

definition emails_normal :: "(string, string \<times> string \<times> string option) dict \<Rightarrow> bool" where
  "emails_normal m \<longleftrightarrow> (\<forall>t i e n. dict_get m t = Some (i, e, n) \<longrightarrow> normalise_email e = e)"

definition claim_inv :: "(string \<Rightarrow> string) \<Rightarrow> claim_system \<Rightarrow> bool" where
  "claim_inv hash s \<longleftrightarrow> links_inv hash (links (cdb s)) (minted s) (spent s) \<and> emails_normal (minted s) \<and>
     (\<forall>c \<in> set (clicks s). click_ok (minted s) (users (cdb s)) (spent s) c)"

lemma click_ok_mono:
  assumes "click_ok m us sp c" and "\<And>t v. dict_get m t = Some v \<Longrightarrow> dict_get m' t = Some v"
    and "accounts_kept us us'" and "set sp \<subseteq> set sp'"
  shows "click_ok m' us' sp' c"
  using assms by (cases "(m, us, sp, c)" rule: click_ok.cases) (auto simp: accounts_kept_def)

lemma accounts_kept_refl [simp]: "accounts_kept us us"
  by (simp add: accounts_kept_def)

lemma normalise_idem [simp]: "normalise_email (normalise_email e) = normalise_email e"
  by (simp add: normalise_email_def strip_lower)

lemma peek_claim_minted:
  assumes "inj hash" and "links_inv hash (links d) m sp" and "peek_claim hash token now d = Some (email, node)"
  shows "dict_get m token = Some (INTENT_CLAIM, email, Some node)"
proof -
  from assms(3) obtain l where "find_link (hash token) INTENT_CLAIM now (links d) = Some l" "l_email l = email" "l_node l = Some node"
    by (auto simp: peek_claim_def peek_magic_link_def split: if_splits elim!: resolved.elims)
  with find_link_Some [OF this(1)] assms(1,2) show ?thesis
    by (auto simp: links_inv_def link_minted_def inj_eq)
qed

lemma account_step:
  assumes "get_or_create_magic_link_user meanwhile uid email d = (d', r)" and "keeps_accounts meanwhile"
  shows "accounts_kept (users d) (users d')" "links d' = links d" "claims d' = claims d"
    "r = Inr u \<Longrightarrow> \<exists>a. dict_get (users d') (normalise_email email) = Some a \<and> u_id a = u_id u"
  using assms
  by (auto simp: get_or_create_magic_link_user_def guard_user_def Let_def accounts_kept_def keeps_accounts_def
      split: option.splits if_splits)

subsection \<open>Every transaction keeps it\<close>

lemma untouched_tables [simp]:
  "links (set_claim_address now node email d) = links d"
  "users (set_claim_address now node email d) = users d"
  "links (fst (drop_challenge node d)) = links d" "users (fst (drop_challenge node d)) = users d"
  "claims (fst (drop_challenge node d)) = claims d"
  "links (mark_verified now node email d) = links d" "users (mark_verified now node email d) = users d"
  "links (fst (mark_undeliverable now node email d)) = links d"
  "users (fst (mark_undeliverable now node email d)) = users d"
  "links (fst (put_challenge now node email h e d)) = links d" "users (fst (put_challenge now node email h e d)) = users d"
  "claims (fst (put_challenge now node email h e d)) = claims d"
  "links (fst (release_node node uid d)) = links d" "users (fst (release_node node uid d)) = users d"
  "users (invalidate_magic_link h d) = users d" "claims (invalidate_magic_link h d) = claims d"
  "links (fst (bind_claim now uid node email d)) = links d" "users (fst (bind_claim now uid node email d)) = users d"
  by (simp_all add: set_claim_address_def drop_challenge_def mark_verified_def mark_undeliverable_def put_challenge_def
      release_node_def clear_claim_def invalidate_magic_link_def bind_claim_def split: option.split)

lemma set_owner_tables:
  "set_owner now node uid d = Inr d' \<Longrightarrow> links d' = links d \<and> users d' = users d"
  by (auto simp: set_owner_def Let_def clear_claim_def drop_challenge_def split: option.splits if_splits)

lemma redeem_claim_fst: "fst (redeem_claim hash token now d) = fst (redeem_magic_link hash token INTENT_CLAIM now d)"
  by (simp add: redeem_claim_def split_def Let_def)

lemma decline_tables:
  assumes "decline_claim hash token now d = (d', out)"
  shows "links d' = links (fst (redeem_magic_link hash token INTENT_CLAIM now d))" "users d' = users d" "claims d' = claims d"
proof -
  obtain d1 r where r: "redeem_claim hash token now d = (d1, r)" by fastforce
  then have d1: "d1 = fst (redeem_magic_link hash token INTENT_CLAIM now d)" by (metis fst_conv redeem_claim_fst)
  have "links d' = links d1 \<and> users d' = users d1 \<and> claims d' = claims d1"
    using assms r by (auto simp: decline_claim_def split: option.splits if_splits)
  with d1 redeem_other_tables show "links d' = links (fst (redeem_magic_link hash token INTENT_CLAIM now d))"
    "users d' = users d" "claims d' = claims d" by simp_all
qed

lemma create_tables:
  assumes "create_magic_link hash token raw intent node now d = (d', out)"
  shows "users d' = users d" "claims d' = claims d"
    "l \<in> set (links d') \<Longrightarrow> l \<in> set (links d) \<or> (token_hash l = hash token \<and> l_intent l = intent \<and>
       l_email l = normalise_email raw \<and> l_node l = node)"
  using assms by (auto simp: create_magic_link_def Let_def split: if_splits)

lemma claim_inv_click:
  assumes inj: "inj hash" and inv: "claim_inv hash s" and i: "i < length (clicks s)" "clicks s ! i = (token, ph)"
    and keeps: "keeps_accounts meanwhile"
    and st: "click_step hash meanwhile uid now (cdb s, token, ph) = (d, ph')"
  defines "sp \<equiv> spent s @ (case ph of Resolved _ _ _ \<Rightarrow> spend_of hash token INTENT_CLAIM now (cdb s) | _ \<Rightarrow> [])"
  shows "links_inv hash (links d) (minted s) sp \<and> accounts_kept (users (cdb s)) (users d) \<and>
    click_ok (minted s) (users d) sp (token, ph')"
proof -
  have li: "links_inv hash (links (cdb s)) (minted s) (spent s)" and en: "emails_normal (minted s)"
    and ok: "click_ok (minted s) (users (cdb s)) (spent s) (token, ph)"
    using inv i nth_mem [OF i(1)] by (auto simp: claim_inv_def)
  show ?thesis
  proof (cases ph)
    case Clicked
    with st li show ?thesis
      by (auto simp: click_step_def sp_def peek_claim_minted [OF inj li] split: option.splits)
  next
    case (Peeked e n)
    with st li ok show ?thesis by (auto simp: click_step_def sp_def)
  next
    case (Checked e n)
    obtain d1 r where g: "get_or_create_magic_link_user meanwhile uid e (cdb s) = (d1, r)" by fastforce
    note acc = account_step [OF g keeps]
    have "normalise_email e = e" using en ok Checked by (auto simp: emails_normal_def)
    then show ?thesis using st li ok Checked g acc by (auto simp: click_step_def sp_def split: sum.splits)
  next
    case (Resolved e n u)
    obtain d1 r where r: "redeem_claim hash token now (cdb s) = (d1, r)" by fastforce
    then have d1: "d1 = fst (redeem_magic_link hash token INTENT_CLAIM now (cdb s))" by (metis fst_conv redeem_claim_fst)
    have d: "d = d1" using st r Resolved by (auto simp: click_step_def split: option.splits)
    have li': "links_inv hash (links d) (minted s) sp"
      unfolding d d1 sp_def Resolved using links_inv_redeem [OF inj li, of token INTENT_CLAIM now] by simp
    have us: "users d = users (cdb s)" unfolding d d1 by (rule redeem_other_tables)
    have "(token, INTENT_CLAIM) \<in> set sp" if "r \<noteq> None"
    proof -
      have "resolved (snd (redeem_magic_link hash token INTENT_CLAIM now (cdb s))) \<noteq> None"
        using r that by (simp add: redeem_claim_def split_def Let_def)
      then have "snd (redeem_magic_link hash token INTENT_CLAIM now (cdb s)) \<noteq> None"
        by (cases "snd (redeem_magic_link hash token INTENT_CLAIM now (cdb s))") auto
      then show ?thesis by (auto simp: sp_def Resolved spend_of_def)
    qed
    then have "click_ok (minted s) (users d) sp (token, ph')"
      using st r ok Resolved us by (auto simp: click_step_def split: option.splits)
    then show ?thesis using li' us by simp
  next
    case (Redeemed e n u)
    then have "ph' = Answered (snd (bind_claim now u n e (cdb s)))" "d = fst (bind_claim now u n e (cdb s))"
      using st by (simp_all add: click_step_def split: prod.splits)
    with li Redeemed show ?thesis by (simp add: sp_def)
  next
    case (Answered out)
    with st li show ?thesis unfolding sp_def by (auto simp: click_step_def)
  qed
qed

lemma claim_inv_move:
  assumes inj: "inj hash"
  shows "claim_move hash s e t \<Longrightarrow> claim_inv hash s \<Longrightarrow> claim_inv hash t"
proof (induction rule: claim_move.induct)
  case (mint s token raw intent node now d out)
  note ct = create_tables [OF mint.hyps(2)]
  have li: "links_inv hash (links (cdb s)) (minted s) (spent s)" and en: "emails_normal (minted s)"
    and ok: "\<forall>c \<in> set (clicks s). click_ok (minted s) (users (cdb s)) (spent s) c"
    using mint.prems by (auto simp: claim_inv_def)
  let ?m = "dict_set (minted s) token (intent, normalise_email raw, node)"
  have "links_inv hash (links d) ?m (spent s)"
    by (rule links_inv_mint [OF inj li mint.hyps(1)]) (use ct(3) in blast)
  moreover have "emails_normal ?m" using en by (auto simp: emails_normal_def)
  moreover have "click_ok ?m (users d) (spent s) c" if "c \<in> set (clicks s)" for c
  proof (rule click_ok_mono)
    show "click_ok (minted s) (users (cdb s)) (spent s) c" using ok that by blast
    show "dict_get ?m u = Some v" if "dict_get (minted s) u = Some v" for u v
      using that mint.hyps(1) by (cases "u = token") (simp_all add: dict_has_get)
    show "accounts_kept (users (cdb s)) (users d)" using ct(1) by simp
  qed simp
  ultimately show ?case by (simp add: claim_inv_def)
next
  case (invalidate s handle)
  then show ?case
    using links_inv_sub [of hash "links (cdb s)" "minted s" "spent s" "links (invalidate_magic_link handle (cdb s))"]
    by (auto simp: claim_inv_def invalidate_magic_link_def)
next
  case (sign_in token now s d out)
  then have d: "d = fst (redeem_magic_link hash token INTENT_SIGNIN now (cdb s))"
    by (auto simp: consume_magic_link_def split: prod.splits)
  show ?case
    using sign_in.prems links_inv_redeem [OF inj, of "cdb s" "minted s" "spent s" token INTENT_SIGNIN now]
    by (auto simp: claim_inv_def d redeem_other_tables intro: click_ok_mono)
next
  case (decline token now s d out)
  then show ?case
    using links_inv_redeem [OF inj, of "cdb s" "minted s" "spent s" token INTENT_CLAIM now]
    by (auto simp: claim_inv_def decline_tables intro: click_ok_mono)
next
  case (click i s token ph meanwhile uid now d ph')
  note cl = claim_inv_click [OF inj click.prems click.hyps(1,2,3,4)]
  let ?sp = "spent s @ (case ph of Resolved _ _ _ \<Rightarrow> spend_of hash token INTENT_CLAIM now (cdb s) | _ \<Rightarrow> [])"
  have old: "click_ok (minted s) (users d) ?sp c" if "c \<in> set (clicks s)" for c
  proof (rule click_ok_mono)
    show "click_ok (minted s) (users (cdb s)) (spent s) c" using click.prems that by (simp add: claim_inv_def)
    show "accounts_kept (users (cdb s)) (users d)" using cl by blast
  qed simp_all
  have "\<forall>c \<in> set ((clicks s)[i := (token, ph')]). click_ok (minted s) (users d) ?sp c"
    using set_update_subset_insert [of "clicks s" i "(token, ph')"] old cl by blast
  with cl click.prems show ?case unfolding claim_inv_def by simp
next
  case (challenge now node email handle expires s d out)
  then have "d = fst (put_challenge now node email handle expires (cdb s))" by simp
  with challenge.prems show ?case by (simp add: claim_inv_def)
next
  case (drop node s d out)
  then have "d = fst (drop_challenge node (cdb s))" by simp
  with drop.prems show ?case by (simp add: claim_inv_def)
next
  case (bounce now node email s d out)
  then have "d = fst (mark_undeliverable now node email (cdb s))" by simp
  with bounce.prems show ?case by (simp add: claim_inv_def)
next
  case (assign now node uid s d)
  then show ?case using set_owner_tables [OF assign.hyps] by (simp add: claim_inv_def)
next
  case (release node uid s d out)
  then have "d = fst (release_node node uid (cdb s))" by simp
  with release.prems show ?case by (simp add: claim_inv_def)
qed (simp_all add: claim_inv_def)

lemma claim_reachable_inv:
  assumes "inj hash" and "claim_reachable hash s"
  shows "claim_inv hash s"
  using assms(2)
proof (induction rule: claim_reachable.induct)
  case (start ns)
  show ?case by (simp add: claim_inv_def claim_start_def links_inv_def emails_normal_def)
qed (use claim_inv_move [OF assms(1)] in blast)

subsection \<open>Who can change an owner\<close>

lemma read_owner_claims: "claims d' = claims d \<Longrightarrow> read_owner n d' = read_owner n d"
  by (simp add: read_owner_def)

lemma read_owner_writes:
  "read_owner n (set_claim_address now node email d) = read_owner n d"
  "read_owner n (mark_verified now node email d) = read_owner n d"
  "read_owner n (fst (mark_undeliverable now node email d)) = read_owner n d"
  by (auto simp: read_owner_def set_claim_address_def mark_verified_def mark_undeliverable_def drop_challenge_def
      split: option.splits)

lemma read_owner_set_owner:
  "set_owner now node uid d = Inr d' \<Longrightarrow> read_owner n d' \<noteq> read_owner n d \<Longrightarrow> n = node"
  by (auto simp: set_owner_def read_owner_def clear_claim_def drop_challenge_def Let_def split: option.splits if_splits)

lemma read_owner_release:
  "release_node node uid d = (d', out) \<Longrightarrow> read_owner n d' \<noteq> read_owner n d \<Longrightarrow> n = node \<and> read_owner n d = Some uid"
  by (auto simp: release_node_def read_owner_def clear_claim_def split: if_splits option.splits)

lemma read_owner_bind:
  assumes "bind_claim now uid node email d = (d', out)" and "read_owner n d' \<noteq> read_owner n d"
  shows "n = node \<and> read_owner n d = None \<and> read_owner n d' = Some uid \<and> out = BOUND \<and>
    (\<exists>c. dict_get (claims d) n = Some c \<and> c_email c = Some email)"
proof (cases "dict_get (claims d) node")
  case None
  with assms show ?thesis by (simp add: bind_claim_def)
next
  case (Some c)
  let ?d1 = "d\<lparr>claims := dict_set (claims d) node (c\<lparr>user_id := Some uid\<rparr>)\<rparr>"
  have own: "read_owner m ?d1 = (if m = node then Some uid else read_owner m d)" for m
    by (simp add: read_owner_def)
  show ?thesis
  proof (cases "user_id c")
    case None
    then have "c_email c = Some email \<and> d' = mark_verified now node email ?d1 \<and> out = BOUND"
      using assms Some by (auto simp: bind_claim_def split: if_splits)
    moreover have "read_owner node d = None" using None Some by (simp add: read_owner_def)
    ultimately show ?thesis using assms(2) Some by (auto simp: read_owner_writes own split: if_splits)
  next
    case (Some owner)
    then have "d' = d \<or> d' = mark_verified now node email d"
      using assms \<open>dict_get (claims d) node = Some c\<close> by (auto simp: bind_claim_def split: if_splits)
    with assms(2) show ?thesis by (auto simp: read_owner_writes)
  qed
qed

lemma click_owner:
  assumes "click_step hash meanwhile uid now (d, token, ph) = (d', ph')" and "read_owner n d' \<noteq> read_owner n d"
    and keeps: "keeps_accounts meanwhile"
  shows "\<exists>email u. ph = Redeemed email n u \<and> read_owner n d = None \<and> read_owner n d' = Some u \<and>
    (\<exists>c. dict_get (claims d) n = Some c \<and> c_email c = Some email)"
proof (cases ph)
  case (Checked e node)
  obtain d1 r where g: "get_or_create_magic_link_user meanwhile uid e d = (d1, r)" by fastforce
  have "d' = d1" using assms(1) g Checked by (cases r) (simp_all add: click_step_def)
  with account_step(3) [OF g keeps] assms(2) show ?thesis by (simp add: read_owner_def)
next
  case (Resolved e node u)
  obtain d1 r where r: "redeem_claim hash token now d = (d1, r)" by fastforce
  have "d' = d1" using assms(1) r Resolved by (cases r) (simp_all add: click_step_def)
  then have "d' = fst (redeem_claim hash token now d)" using r by simp
  then have "claims d' = claims d" by (simp only: redeem_claim_fst redeem_other_tables)
  with assms(2) have False by (simp add: read_owner_def)
  then show ?thesis ..
next
  case (Redeemed e node u)
  obtain out where "bind_claim now u node e d = (d', out)"
    using assms(1) Redeemed by (auto simp: click_step_def split: prod.splits)
  from read_owner_bind [OF this assms(2)] Redeemed show ?thesis by auto
qed (use assms in \<open>auto simp: click_step_def split: option.splits\<close>)

subsection \<open>How many links an address holds\<close>

text \<open>What happens to the link table, with the clock each reads: a link is asked for, redeemed or
  invalidated.\<close>

datatype link_op =
    AskLink string string string "string option"
  | RedeemLink string string
  | KillLink string

definition link_step :: "(string \<Rightarrow> string) \<Rightarrow> claim_db \<Rightarrow> real \<times> link_op \<Rightarrow> claim_db \<times> bool" where
  "link_step hash d q =
     (case snd q of
        AskLink token raw intent node \<Rightarrow>
          (let (d', out) = create_magic_link hash token raw intent node (fst q) d in (d', out \<noteq> None))
      | RedeemLink token intent \<Rightarrow>
          (let (d', out) = redeem_magic_link hash token intent (fst q) d in (d', out \<noteq> None))
      | KillLink handle \<Rightarrow> (invalidate_magic_link handle d, True))"

definition links_capped :: "real \<Rightarrow> claim_db \<Rightarrow> bool" where
  "links_capped now d \<longleftrightarrow>
     (\<forall>t email intent. now \<le> t \<longrightarrow> length (outstanding t email intent (links d)) \<le> MAX_OUTSTANDING_MAGIC_LINKS)"

lemma length_filter_le_map:
  assumes "\<And>x. P (f x) \<Longrightarrow> P x"
  shows "length (filter P (map f xs)) \<le> length (filter P xs)"
  using assms by (induction xs) (auto simp: le_SucI)

lemma length_filter_mono:
  assumes "\<And>x. P x \<Longrightarrow> Q x"
  shows "length (filter P xs) \<le> length (filter Q xs)"
  using assms by (induction xs) (auto simp: le_SucI)

lemma outstanding_filter: "length (outstanding t e i (filter P ls)) \<le> length (outstanding t e i ls)"
  unfolding outstanding_def filter_filter by (rule length_filter_mono) simp

lemma outstanding_later: "now \<le> t \<Longrightarrow> length (outstanding t e i ls) \<le> length (outstanding now e i ls)"
  unfolding outstanding_def by (rule length_filter_mono) (auto simp: live_def)

lemma outstanding_append: "outstanding t e i (ls @ ks) = outstanding t e i ls @ outstanding t e i ks"
  by (simp add: outstanding_def)

lemma capped_create:
  assumes "links_capped now d"
  shows "links_capped now (fst (create_magic_link hash token raw intent node now d))"
  unfolding links_capped_def
proof (intro allI impI)
  fix t e i
  assume t: "now \<le> t"
  let ?kept = "filter (\<lambda>l. \<not> (l_email l = normalise_email raw \<and> l_expires l < now)) (links d)"
  have old: "length (outstanding t e i ?kept) \<le> MAX_OUTSTANDING_MAGIC_LINKS"
    using outstanding_filter assms t unfolding links_capped_def by (metis (no_types, lifting) le_trans)
  have "length (outstanding t e i ?kept) < MAX_OUTSTANDING_MAGIC_LINKS"
    if "length (outstanding now e i ?kept) < MAX_OUTSTANDING_MAGIC_LINKS"
    using outstanding_later [OF t, of e i ?kept] that by linarith
  with old show "length (outstanding t e i (links (fst (create_magic_link hash token raw intent node now d))))
      \<le> MAX_OUTSTANDING_MAGIC_LINKS"
    by (auto simp: create_magic_link_def Let_def outstanding_append not_le)
      (auto simp: outstanding_def not_le)
qed

lemma capped_redeem:
  assumes "links_capped now d"
  shows "links_capped now (fst (redeem_magic_link hash token intent tnow d))"
  unfolding links_capped_def
proof (intro allI impI)
  fix t e i
  assume t: "now \<le> t"
  have old: "length (outstanding t e i (links d)) \<le> MAX_OUTSTANDING_MAGIC_LINKS"
    using assms t by (simp add: links_capped_def)
  have map_le: "length (outstanding t e i (map (\<lambda>r. if token_hash r = h then r\<lparr>l_used := Some u\<rparr> else r) ls))
      \<le> length (outstanding t e i ls)" for h u ls
    unfolding outstanding_def by (rule length_filter_le_map) (auto simp: live_def split: if_splits)
  have "length (outstanding t e i (links (fst (redeem_magic_link hash token intent tnow d))))
      \<le> length (outstanding t e i (links d))"
    using le_trans [OF outstanding_filter map_le]
    by (simp add: redeem_magic_link_def Let_def split: option.split)
  with old show "length (outstanding t e i (links (fst (redeem_magic_link hash token intent tnow d))))
      \<le> MAX_OUTSTANDING_MAGIC_LINKS" by linarith
qed

lemma capped_invalidate:
  assumes "links_capped now d"
  shows "links_capped now (invalidate_magic_link handle d)"
  unfolding links_capped_def
proof (intro allI impI)
  fix t e i
  assume "now \<le> t"
  with assms have "length (outstanding t e i (links d)) \<le> MAX_OUTSTANDING_MAGIC_LINKS" by (simp add: links_capped_def)
  with outstanding_filter [of t e i "\<lambda>l. token_hash l \<noteq> handle" "links d"]
  show "length (outstanding t e i (links (invalidate_magic_link handle d))) \<le> MAX_OUTSTANDING_MAGIC_LINKS"
    by (simp add: invalidate_magic_link_def)
qed

lemma capped_step: "links_capped now d \<Longrightarrow> links_capped now (fst (link_step hash d (now, op)))"
  using capped_create capped_redeem capped_invalidate
  by (cases op) (simp_all add: link_step_def split_def Let_def)

lemma capped_run:
  assumes "links_capped now d" and "sorted (now # map fst qs)"
  shows "links_capped (last (now # map fst qs)) (fst (run (link_step hash) d qs))"
  using assms
proof (induction qs arbitrary: d now)
  case (Cons q qs)
  obtain t op where q: "q = (t, op)" by fastforce
  from Cons.prems q have "now \<le> t" by simp
  with Cons.prems have "links_capped t d" by (auto simp: links_capped_def)
  from Cons.IH [OF capped_step [OF this]] Cons.prems q show ?case by (simp add: split_def Let_def)
qed simp

subsection \<open>How much mail an address gets\<close>

text \<open>The two calls of a node that may mail, and the nomination a call comes down to.\<close>

datatype claim_call = Put string "json option" | Resend string

definition handle_call ::
    "(string \<Rightarrow> string) \<Rightarrow> claim_server \<Rightarrow> real \<times> (real \<times> string \<times> claim_call) \<Rightarrow> claim_server \<times> claim_answer" where
  "handle_call hash s q =
     (let (now, token, call) = snd q in
      case call of
        Put node offered \<Rightarrow> put_claim hash token node offered (fst q) now s
      | Resend node \<Rightarrow> resend_claim hash token node (fst q) now s)"

definition nomination :: "claim_call \<Rightarrow> real \<Rightarrow> claim_db \<Rightarrow> (string \<times> string) option" where
  "nomination call now d =
     (case call of
        Put node offered \<Rightarrow>
          (case offered of None \<Rightarrow> None
           | Some payload \<Rightarrow>
               (case validate_claim payload of Inl _ \<Rightarrow> None
                | Inr email \<Rightarrow>
                    if state (claim_status node now d) = Owned \<or> status_email (claim_status node now d) = Some email
                    then None else Some (node, email)))
      | Resend node \<Rightarrow>
          if state (claim_status node now d) = Owned \<or> status_undeliverable (claim_status node now d) then None
          else map_option (Pair node) (status_email (claim_status node now d)))"

fun mailed_to :: "claim_answer \<Rightarrow> string option" where
  "mailed_to (State _ _ posted) = map_option fst posted"
| "mailed_to _ = None"

lemma handle_nominated:
  assumes "nomination call now (store s) = Some (node, email)"
  shows "handle_call hash s (tick, now, token, call) = start_claim hash token node email tick now s"
proof (cases call)
  case (Put n offered)
  with assms obtain p where "offered = Some p" "validate_claim p = Inr email" "n = node"
      "state (claim_status node now (store s)) \<noteq> Owned" "status_email (claim_status node now (store s)) \<noteq> Some email"
    by (auto simp: nomination_def split: option.splits sum.splits if_splits)
  then show ?thesis using Put by (simp add: handle_call_def put_claim_def Let_def)
next
  case (Resend n)
  with assms show ?thesis
    by (auto simp: nomination_def handle_call_def resend_claim_def Let_def split: if_splits)
qed

lemma no_nomination_no_mail:
  assumes "nomination call now (store s) = None"
  shows "mailed_to (snd (handle_call hash s (tick, now, token, call))) = None \<and>
    fst (handle_call hash s (tick, now, token, call)) = s"
proof (cases call)
  case (Put n offered)
  show ?thesis
  proof (cases "\<exists>p email. offered = Some p \<and> validate_claim p = Inr email")
    case True
    with assms Put show ?thesis by (auto simp: nomination_def handle_call_def put_claim_def Let_def split: if_splits)
  next
    case False
    then have "offered = None \<or> (\<exists>p f r. offered = Some p \<and> validate_claim p = Inl (ClaimInvalid f r))"
      by (metis claim_error.exhaust option.exhaust sumE)
    with Put show ?thesis by (auto simp: handle_call_def put_claim_def)
  qed
next
  case (Resend n)
  with assms show ?thesis
    by (auto simp: nomination_def handle_call_def resend_claim_def Let_def split: if_splits option.splits)
qed

text \<open>A call as a step that answers whether it spent the address's allowance.\<close>

definition nominating_step :: "(string \<Rightarrow> string) \<Rightarrow> string \<Rightarrow> claim_server \<Rightarrow> real \<times> (real \<times> string \<times> claim_call) \<Rightarrow> claim_server \<times> bool" where
  "nominating_step hash a s q =
     (fst (handle_call hash s q),
      case nomination (snd (snd (snd q))) (fst (snd q)) (store s) of
        None \<Rightarrow> False
      | Some (node, email) \<Rightarrow> email = a \<and> snd (claim_step (limiter s) (fst q, node, email)))"

definition mailing_step :: "(string \<Rightarrow> string) \<Rightarrow> string \<Rightarrow> claim_server \<Rightarrow> real \<times> (real \<times> string \<times> claim_call) \<Rightarrow> claim_server \<times> bool" where
  "mailing_step hash a s q = (fst (handle_call hash s q), mailed_to (snd (handle_call hash s q)) = Some a)"

lemma start_claim_limiter:
  "limiter (fst (start_claim hash token node email tick now s)) = fst (claim_step (limiter s) (tick, node, email))"
  by (simp add: start_claim_def claim_step_def Let_def split: prod.split option.split)

lemma start_claim_mail:
  "mailed_to (snd (start_claim hash token node email tick now s)) = Some a \<Longrightarrow>
     a = email \<and> snd (claim_step (limiter s) (tick, node, email))"
  by (auto simp: start_claim_def claim_step_def Let_def split: prod.splits option.splits)

lemma mailing_nominates: "snd (mailing_step hash a s q) \<Longrightarrow> snd (nominating_step hash a s q)"
proof -
  assume m: "snd (mailing_step hash a s q)"
  obtain tick now token call where q: "q = (tick, now, token, call)" by (metis prod_cases4)
  show ?thesis
  proof (cases "nomination call now (store s)")
    case None
    with no_nomination_no_mail [OF None] m show ?thesis by (simp add: mailing_step_def q)
  next
    case (Some ne)
    obtain node email where ne: "ne = (node, email)" by fastforce
    from m have "mailed_to (snd (start_claim hash token node email tick now s)) = Some a"
      by (simp add: mailing_step_def q handle_nominated [OF Some [unfolded ne]])
    from start_claim_mail [OF this] Some ne show ?thesis by (simp add: nominating_step_def q)
  qed
qed

lemma nominating_limiter:
  "limiter (fst (nominating_step hash a s (tick, now, token, call))) =
    (case nomination call now (store s) of
       None \<Rightarrow> limiter s
     | Some (node, email) \<Rightarrow> fst (claim_step (limiter s) (tick, node, email)))"
proof (cases "nomination call now (store s)")
  case None
  then show ?thesis using no_nomination_no_mail [OF None] by (simp add: nominating_step_def)
next
  case (Some ne)
  obtain node email where ne: "ne = (node, email)" by fastforce
  then show ?thesis using handle_nominated [OF Some [unfolded ne]] Some
    by (simp add: nominating_step_def start_claim_limiter)
qed

text \<open>The handlers keep the contract of one address's key, because the limiter under them does.\<close>

interpretation claim_mail: window_limited "nominating_step hash a" "\<lambda>_. True"
    "\<lambda>s. key_used (a, Tagged ''claim_address'' 0) (limiter s)"
    "\<lambda>t s. key_fits (a, Tagged ''claim_address'' 0) 5 3600 t (limiter s)" 5 3600 for hash a
proof
  fix t and s :: claim_server and r :: "real \<times> string \<times> claim_call"
  obtain now token call where r: "r = (now, token, call)" by (metis prod_cases3)
  note lm = nominating_limiter [of hash a s t now token call, folded r]
  assume fits: "key_fits (a, Tagged ''claim_address'' 0) 5 3600 t (limiter s)"
  show "key_fits (a, Tagged ''claim_address'' 0) 5 3600 t (limiter (fst (nominating_step hash a s (t, r))))"
    using claim_hour.step_fits [OF fits] fits by (simp add: lm split: option.split prod.split)
  show "key_used (a, Tagged ''claim_address'' 0) (limiter (fst (nominating_step hash a s (t, r)))) (window_end_after t 3600) =
      key_used (a, Tagged ''claim_address'' 0) (limiter s) (window_end_after t 3600) + 1"
    if "snd (nominating_step hash a s (t, r))"
    using that claim_hour.step_charges [OF fits]
    unfolding lm by (auto simp: nominating_step_def r split: option.splits)
  show "key_used (a, Tagged ''claim_address'' 0) (limiter (fst (nominating_step hash a s (t, r)))) (window_end_after t 3600) =
      key_used (a, Tagged ''claim_address'' 0) (limiter s) (window_end_after t 3600)"
    if "\<not> (True \<and> snd (nominating_step hash a s (t, r)))"
  proof -
    have keeps: "key_used (a, Tagged ''claim_address'' 0) (fst (claim_step (limiter s) (t, n, e))) (window_end_after t 3600) =
        key_used (a, Tagged ''claim_address'' 0) (limiter s) (window_end_after t 3600)"
      if "\<not> (e = a \<and> snd (claim_step (limiter s) (t, n, e)))" for n e
      using claim_hour.step_keeps [OF fits, of "(n, e)"] that by simp
    show ?thesis
    proof (cases "nomination call now (store s)")
      case (Some ne)
      obtain n e where ne: "ne = (n, e)" by fastforce
      have "\<not> (e = a \<and> snd (claim_step (limiter s) (t, n, e)))"
        using that Some ne by (simp add: nominating_step_def r)
      then show ?thesis unfolding lm using Some ne keeps by simp
    qed (simp add: lm)
  qed
qed (use claim_hour.fits_later claim_hour.used_bounded claim_hour.used_future in auto)

subsection \<open>A run\<close>

text \<open>A node offers an address and its owner clicks; \<open>claimed\<close> is just before the binding.\<close>

definition click_on :: "claim_system \<Rightarrow> claim_system" where
  "click_on s =
     (let (token, ph) = clicks s ! 0;
          (d, ph') = click_step id id ''u'' 5 (cdb s, token, ph)
      in s\<lparr>cdb := d, clicks := (clicks s)[0 := (token, ph')],
           spent := spent s @ (case ph of Resolved _ _ _ \<Rightarrow> spend_of id token INTENT_CLAIM 5 (cdb s) | _ \<Rightarrow> [])\<rparr>)"

lemma click_on_move: "clicks s \<noteq> [] \<Longrightarrow> claim_move id s (Bind 0) (click_on s)"
proof -
  assume ne: "clicks s \<noteq> []"
  obtain token ph where c: "clicks s ! 0 = (token, ph)" by fastforce
  obtain d ph' where st: "click_step id id ''u'' 5 (cdb s, token, ph) = (d, ph')" by fastforce
  have "keeps_accounts id" by (simp add: keeps_accounts_def)
  from claim_move.click [OF _ c this st] ne show ?thesis by (simp add: click_on_def c st)
qed

definition offered_run :: claim_system where
  "offered_run =
     (let s0 = claim_start [(''n'', ''ref'')];
          s1 = s0\<lparr>cdb := fst (create_magic_link id ''t'' ''a@b.c'' INTENT_CLAIM (Some ''n'') 1 (cdb s0)),
                  minted := dict_set (minted s0) ''t'' (INTENT_CLAIM, normalise_email ''a@b.c'', Some ''n'')\<rparr>;
          s2 = s1\<lparr>cdb := set_claim_address 1 ''n'' ''a@b.c'' (cdb s1)\<rparr>
      in s2\<lparr>clicks := clicks s2 @ [(''t'', Clicked)]\<rparr>)"

definition claimed :: claim_system where
  "claimed = click_on (click_on (click_on (click_on offered_run)))"

lemma reachable_offered: "claim_reachable id offered_run"
proof -
  let ?s0 = "claim_start [(''n'', ''ref'')]"
  obtain d out where c: "create_magic_link id ''t'' ''a@b.c'' INTENT_CLAIM (Some ''n'') 1 (cdb ?s0) = (d, out)" by fastforce
  have "\<not> dict_has (minted ?s0) ''t''" by (simp add: claim_start_def dict_has_get)
  note s1 = claim_reachable.move [OF claim_reachable.start claim_move.mint [OF this c]]
  note s2 = claim_reachable.move [OF s1 claim_move.nominate [of id _ 1 "''n''" "''a@b.c''"]]
  show ?thesis
    using claim_reachable.move [OF s2 claim_move.open_link [of id _ "''t''"]] c
    by (simp add: offered_run_def Let_def)
qed

lemma clicks_click_on [simp]: "length (clicks (click_on s)) = length (clicks s)"
  by (simp add: click_on_def split_def Let_def)

lemma reachable_click_on: "claim_reachable id s \<Longrightarrow> clicks s \<noteq> [] \<Longrightarrow> claim_reachable id (click_on s)"
  by (rule claim_reachable.move [OF _ click_on_move])

lemma reachable_claimed: "claim_reachable id claimed"
  unfolding claimed_def
  by (intro reachable_click_on reachable_offered) (simp_all add: offered_run_def Let_def flip: length_0_conv)

lemma normal_sample: "normalise_email ''a@b.c'' = ''a@b.c''"
  by (simp add: normalise_email_def strip_def is_space_def code_def lower_def lower_char_def)

lemma inj_identity: "inj (id :: string \<Rightarrow> string)"
  by simp

lemma blank_sample: "\<not> blank ''t''"
  by (simp add: blank_def strip_def is_space_def code_def)

lemmas run_simps = offered_run_def claim_start_def create_magic_link_def set_claim_address_def Let_def
  normal_sample blank_sample outstanding_def MAX_OUTSTANDING_MAGIC_LINKS_def MAGIC_LINK_EXPIRY_S_def
  click_on_def click_step_def peek_claim_def peek_magic_link_def find_link_def live_def dict_get_def dict_set_def
  taken_up_front_def read_owner_def get_or_create_magic_link_user_def redeem_claim_def redeem_magic_link_def
  spend_of_def bind_claim_def mark_verified_def drop_challenge_def

lemma claimed_eq:
  "clicks claimed = [(''t'', Redeemed ''a@b.c'' ''n'' ''u'')]"
  "read_owner ''n'' (cdb claimed) = None" "spent claimed = [(''t'', INTENT_CLAIM)]"
  "read_owner ''n'' (cdb (click_on claimed)) = Some ''u''"
  by (simp_all add: claimed_def run_simps)

lemma claimed_facts:
  "read_owner ''n'' (cdb claimed) = None" "read_owner ''n'' (cdb (click_on claimed)) = Some ''u''"
  "(''t'', INTENT_CLAIM) \<in> set (spent claimed)" "clicks claimed \<noteq> []"
  by (simp_all add: claimed_eq)

subsection \<open>Properties\<close>





text \<open>Whatever is asked for, redeemed and killed, an address never holds more than five live links
  of one intent, from the last clock reading on.\<close>

theorem links_never_exceed_cap:
  assumes "sorted (map fst qs)" and "\<nexists>q. q \<in> set qs \<and> t < fst q" and "links d = []"
  shows "length (outstanding t email intent (links (fst (run (link_step hash) d qs)))) \<le> 5"
proof (cases qs)
  case Nil
  with assms(3) show ?thesis by (simp add: outstanding_def)
next
  case (Cons q qs')
  have "links_capped (fst q) d" using assms(3) by (simp add: links_capped_def outstanding_def)
  from capped_run [OF this, of qs hash] assms(1) Cons have
    "links_capped (last (map fst qs)) (fst (run (link_step hash) d qs))" by simp
  moreover have "last (map fst qs) \<le> t" using assms(2) Cons by (metis (no_types, lifting) last_in_set last_map list.distinct(1) not_le)
  ultimately show ?thesis by (simp add: links_capped_def MAX_OUTSTANDING_MAGIC_LINKS_def)
qed

theorem links_never_exceed_cap_witness:
  "length (outstanding 3 ''a@b.c'' ''signin'' (links (fst (run (link_step id)
     \<lparr>links = [], claims = [], challenges = [], users = [], nodes = []\<rparr>
     [(1, AskLink ''s'' ''a@b.c'' ''signin'' None), (2, AskLink ''t'' ''a@b.c'' ''signin'' None)])))) \<le> 5"
  by (rule links_never_exceed_cap) auto

text \<open>However nodes offer addresses and ask for the mail again, one address is mailed claim links
  at most 5 times in a clock hour, and at most 10 times in any 3600 seconds.\<close>

theorem mailbox_bounded:
  assumes "sorted (0 # map fst qs)" and "limiter s = new_counters MAX_CLAIM_KEYS True"
  shows "admitted (mailing_step hash a) (in_window (\<lambda>_. True) 3600 E) s qs \<le> 5 \<and>
         admitted (mailing_step hash a) (\<lambda>q. from \<le> fst q \<and> fst q < from + 3600) s qs \<le> 10"
proof -
  have fits: "key_fits (a, Tagged ''claim_address'' 0) 5 3600 0 (limiter s)"
    unfolding assms(2) by (rule new_counters_fit) simp
  have le: "admitted (mailing_step hash a) sel s qs \<le> admitted (nominating_step hash a) sel s qs" for sel
    by (rule admitted_mono) (simp add: mailing_step_def nominating_step_def, erule mailing_nominates)
  show ?thesis
    using le [of "in_window (\<lambda>_. True) 3600 E"] claim_mail.window_limit [OF fits assms(1), of hash E]
      le [of "\<lambda>q. from \<le> fst q \<and> fst q < from + 3600"] claim_mail.span_limit [OF fits assms(1), of hash "from"]
    by simp
qed

theorem mailbox_bounded_witness:
  "admitted (mailing_step id ''a@b.c'') (in_window (\<lambda>_. True) 3600 3600)
     \<lparr>store = \<lparr>links = [], claims = [], challenges = [], users = [], nodes = [(''n'', ''ref'')]\<rparr>,
      limiter = new_counters MAX_CLAIM_KEYS True\<rparr>
     (map (\<lambda>i. (of_nat i, of_nat i, [char_of i], Put ''n'' (Some (JObj [(''email'', JStr ''a@b.c'')])))) [1..<9]) \<le> 5"
  by (rule mailbox_bounded [THEN conjunct1]) (simp_all add: upt_rec)

subsection \<open>A link the next nomination does not kill\<close>

text \<open>
  \<open>start_claim\<close> kills the link of the challenge it displaces.  A challenge an administrator's
  release has removed is not there to be displaced, so its link outlives the next nomination and
  the node has two live links; both lead to the one address, and the bind re-reads it.
\<close>

definition before_claims :: claim_server where
  "before_claims = \<lparr>store = \<lparr>links = [], claims = [], challenges = [], users = [], nodes = [(''n'', ''ref'')]\<rparr>,
     limiter = new_counters MAX_CLAIM_KEYS True\<rparr>"

definition offered_again :: "claim_server" where
  "offered_again =
     (let s1 = fst (start_claim id ''t'' ''n'' ''a@b.c'' 1 1 before_claims)
      in fst (start_claim id ''v'' ''n'' ''a@b.c'' 2 2 (s1\<lparr>store := clear_claim ''n'' (store s1)\<rparr>)))"

theorem cleared_claim_leaves_link_live:
  "map token_hash (filter (\<lambda>l. l_node l = Some ''n'' \<and> live 3 l) (links (store offered_again))) = [''t'', ''v'']"
  by (simp add: offered_again_def before_claims_def start_claim_def claim_admit_def admit_def claim_specs_eq
      new_counters_def MAX_CLAIM_KEYS_def tracked_counters_def reclaim_if_crowded_def dict_len_def
      unknown_caller_def dict_has_def dict_get_default_def window_end_after_def clear_claim_def issue_def
      put_challenge_def dict_del_def AList.delete_eq INTENT_CLAIM_def run_simps)

end
