(* ===== verification/IpAddress.thy ===== *)
theory IpAddress
  imports PyValues
begin

text \<open>
  What the server uses of Python's \<open>ipaddress\<close> module: addresses and networks as the integers the
  module keeps, their textual forms, and the classes \<open>is_global\<close>, \<open>is_multicast\<close>,
  \<open>is_unspecified\<close>, \<open>is_reserved\<close> and \<open>is_site_local\<close> over the IANA registries of Python 3.12.
  An address's zone is checked and dropped.
\<close>

datatype ip = V4 nat | V6 nat
datatype ip_network = N4 nat nat | N6 nat nat

text \<open>\<open>address in network\<close>: the same version and the same leading bits.\<close>

fun in_network :: "ip \<Rightarrow> ip_network \<Rightarrow> bool" where
  "in_network (V4 a) (N4 n p) = (a div 2 ^ (32 - p) = n div 2 ^ (32 - p))"
| "in_network (V6 a) (N6 n p) = (a div 2 ^ (128 - p) = n div 2 ^ (128 - p))"
| "in_network _ _ = False"

fun ip_version :: "ip \<Rightarrow> nat" where
  "ip_version (V4 _) = 4"
| "ip_version (V6 _) = 6"

fun ip_ok :: "ip \<Rightarrow> bool" where
  "ip_ok (V4 a) = (a < 2 ^ 32)"
| "ip_ok (V6 a) = (a < 2 ^ 128)"

subsection \<open>The registries\<close>

definition quad :: "nat \<Rightarrow> nat \<Rightarrow> nat \<Rightarrow> nat \<Rightarrow> nat" where
  "quad a b c d = ((a * 256 + b) * 256 + c) * 256 + d"

text \<open>An address from its first four sixteen-bit groups, the rest zero.\<close>

definition groups :: "nat \<Rightarrow> nat \<Rightarrow> nat \<Rightarrow> nat \<Rightarrow> nat" where
  "groups a b c d = (((a * 65536 + b) * 65536 + c) * 65536 + d) * 2 ^ 64"

definition PRIVATE4 :: "ip_network list" where
  "PRIVATE4 = [N4 (quad 0 0 0 0) 8, N4 (quad 10 0 0 0) 8, N4 (quad 127 0 0 0) 8, N4 (quad 169 254 0 0) 16,
     N4 (quad 172 16 0 0) 12, N4 (quad 192 0 0 0) 24, N4 (quad 192 0 0 170) 31, N4 (quad 192 0 2 0) 24,
     N4 (quad 192 168 0 0) 16, N4 (quad 198 18 0 0) 15, N4 (quad 198 51 100 0) 24, N4 (quad 203 0 113 0) 24,
     N4 (quad 240 0 0 0) 4, N4 (quad 255 255 255 255) 32]"

definition PRIVATE4_EXCEPTIONS :: "ip_network list" where
  "PRIVATE4_EXCEPTIONS = [N4 (quad 192 0 0 9) 32, N4 (quad 192 0 0 10) 32]"

definition SHARED4 :: ip_network where "SHARED4 = N4 (quad 100 64 0 0) 10"
definition MULTICAST4 :: ip_network where "MULTICAST4 = N4 (quad 224 0 0 0) 4"
definition RESERVED4 :: ip_network where "RESERVED4 = N4 (quad 240 0 0 0) 4"

definition PRIVATE6 :: "ip_network list" where
  "PRIVATE6 = [N6 1 128, N6 0 128, N6 (0xFFFF * 2 ^ 32) 96, N6 (groups 0x64 0xff9b 1 0) 48, N6 (groups 0x100 0 0 0) 64,
     N6 (groups 0x2001 0 0 0) 23, N6 (groups 0x2001 0xdb8 0 0) 32, N6 (groups 0x2002 0 0 0) 16,
     N6 (groups 0xfc00 0 0 0) 7, N6 (groups 0xfe80 0 0 0) 10]"

definition PRIVATE6_EXCEPTIONS :: "ip_network list" where
  "PRIVATE6_EXCEPTIONS = [N6 (groups 0x2001 1 0 0 + 1) 128, N6 (groups 0x2001 1 0 0 + 2) 128,
     N6 (groups 0x2001 3 0 0) 32, N6 (groups 0x2001 4 0x112 0) 48, N6 (groups 0x2001 0x20 0 0) 28,
     N6 (groups 0x2001 0x30 0 0) 28]"

definition SITE_LOCAL6 :: ip_network where "SITE_LOCAL6 = N6 (groups 0xfec0 0 0 0) 10"
definition MULTICAST6 :: ip_network where "MULTICAST6 = N6 (groups 0xff00 0 0 0) 8"

definition RESERVED6 :: "ip_network list" where
  "RESERVED6 = [N6 0 8, N6 (groups 0x100 0 0 0) 8, N6 (groups 0x200 0 0 0) 7, N6 (groups 0x400 0 0 0) 6,
     N6 (groups 0x800 0 0 0) 5, N6 (groups 0x1000 0 0 0) 4, N6 (groups 0x4000 0 0 0) 3, N6 (groups 0x6000 0 0 0) 3,
     N6 (groups 0x8000 0 0 0) 3, N6 (groups 0xA000 0 0 0) 3, N6 (groups 0xC000 0 0 0) 3, N6 (groups 0xE000 0 0 0) 4,
     N6 (groups 0xF000 0 0 0) 5, N6 (groups 0xF800 0 0 0) 6, N6 (groups 0xFE00 0 0 0) 9]"

subsection \<open>Classes\<close>

definition in_any :: "ip \<Rightarrow> ip_network list \<Rightarrow> bool" where
  "in_any a ns = list_ex (in_network a) ns"

definition ipv4_mapped :: "nat \<Rightarrow> nat option" where
  "ipv4_mapped n = (if n div 2 ^ 32 = 0xFFFF then Some (n mod 2 ^ 32) else None)"

definition sixtofour :: "nat \<Rightarrow> nat option" where
  "sixtofour n = (if n div 2 ^ 112 = 0x2002 then Some (n div 2 ^ 80 mod 2 ^ 32) else None)"

definition is_private4 :: "nat \<Rightarrow> bool" where
  "is_private4 a \<longleftrightarrow> in_any (V4 a) PRIVATE4 \<and> \<not> in_any (V4 a) PRIVATE4_EXCEPTIONS"

fun is_private :: "ip \<Rightarrow> bool" where
  "is_private (V4 a) = is_private4 a"
| "is_private (V6 a) =
     (case ipv4_mapped a of
        Some m \<Rightarrow> is_private4 m
      | None \<Rightarrow> in_any (V6 a) PRIVATE6 \<and> \<not> in_any (V6 a) PRIVATE6_EXCEPTIONS)"

fun is_global :: "ip \<Rightarrow> bool" where
  "is_global (V4 a) = (\<not> in_network (V4 a) SHARED4 \<and> \<not> is_private4 a)"
| "is_global (V6 a) = (\<not> is_private (V6 a))"

fun is_multicast :: "ip \<Rightarrow> bool" where
  "is_multicast (V4 a) = in_network (V4 a) MULTICAST4"
| "is_multicast (V6 a) = in_network (V6 a) MULTICAST6"

fun is_unspecified :: "ip \<Rightarrow> bool" where
  "is_unspecified (V4 a) = (a = 0)"
| "is_unspecified (V6 a) = (a = 0)"

fun is_reserved :: "ip \<Rightarrow> bool" where
  "is_reserved (V4 a) = in_network (V4 a) RESERVED4"
| "is_reserved (V6 a) = in_any (V6 a) RESERVED6"

subsection \<open>Reading an address\<close>

text \<open>The fold of options a loop that may raise is.\<close>

fun traverse :: "('a \<Rightarrow> 'b option) \<Rightarrow> 'a list \<Rightarrow> 'b list option" where
  "traverse f [] = Some []"
| "traverse f (x # xs) =
     (case f x of None \<Rightarrow> None | Some y \<Rightarrow> map_option (Cons y) (traverse f xs))"

definition read_octet :: "string \<Rightarrow> nat option" where
  "read_octet s =
     (if s = [] \<or> \<not> list_all is_digit s \<or> 3 < length s \<or> (s \<noteq> ''0'' \<and> hd s = CHR ''0'') \<or> 255 < nat_of_digits s
      then None else Some (nat_of_digits s))"

definition ip4_of_string :: "string \<Rightarrow> nat option" where
  "ip4_of_string s =
     (case traverse read_octet (split_on CHR ''.'' s) of
        Some [a, b, c, d] \<Rightarrow> Some (quad a b c d)
      | _ \<Rightarrow> None)"

definition is_hex_digit :: "char \<Rightarrow> bool" where
  "is_hex_digit c \<longleftrightarrow> is_digit c \<or> 65 \<le> code c \<and> code c \<le> 70 \<or> 97 \<le> code c \<and> code c \<le> 102"

definition hex_value :: "char \<Rightarrow> nat" where
  "hex_value c = (if is_digit c then code c - 48 else if code c \<le> 70 then code c - 55 else code c - 87)"

definition read_hextet :: "string \<Rightarrow> nat option" where
  "read_hextet s =
     (if s = [] \<or> \<not> list_all is_hex_digit s \<or> 4 < length s then None
      else Some (foldl (\<lambda>n c. 16 * n + hex_value c) 0 s))"

fun hex_chars :: "nat \<Rightarrow> char" where
  "hex_chars n = char_of (if n < 10 then n + 48 else n + 87)"

text \<open>\<open>'%x' % n\<close> for a sixteen-bit \<open>n\<close>.\<close>

definition show_hextet :: "nat \<Rightarrow> string" where
  "show_hextet n =
     (let ds = dropWhile (\<lambda>d. d = 0) [n div 4096 mod 16, n div 256 mod 16, n div 16 mod 16, n mod 16]
      in if ds = [] then ''0'' else map hex_chars ds)"

text \<open>The parts of an address between colons, a dotted tail turned into two groups.\<close>

definition ip6_parts :: "string \<Rightarrow> string list option" where
  "ip6_parts s =
     (let parts = split_on CHR '':'' s in
      if s = [] \<or> length parts < 3 then None
      else if CHR ''.'' \<in> set (last parts) then
        (case ip4_of_string (last parts) of
           None \<Rightarrow> None
         | Some v \<Rightarrow> Some (butlast parts @ [show_hextet (v div 65536), show_hextet (v mod 65536)]))
      else Some parts)"

definition base16 :: "nat list \<Rightarrow> nat" where
  "base16 hs = foldl (\<lambda>n h. n * 65536 + h) 0 hs"

text \<open>The empty parts strictly inside: none, or the one place where zeros were left out.\<close>

definition skip_indices :: "string list \<Rightarrow> nat list" where
  "skip_indices parts = filter (\<lambda>i. parts ! i = []) [1..<length parts - 1]"

definition ip6_of_parts :: "string list \<Rightarrow> nat option" where
  "ip6_of_parts parts =
     (if 9 < length parts then None
      else
        (case skip_indices parts of
           [] \<Rightarrow>
             if length parts \<noteq> 8 \<or> hd parts = [] \<or> last parts = [] then None
             else map_option base16 (traverse read_hextet parts)
         | [i] \<Rightarrow>
             (let hi = (if hd parts = [] then i - 1 else i);
                  lo = (if last parts = [] then length parts - i - 2 else length parts - i - 1)
              in if (hd parts = [] \<and> hi \<noteq> 0) \<or> (last parts = [] \<and> lo \<noteq> 0) \<or> 8 < hi + lo + 1 then None
                 else
                   (case (traverse read_hextet (take hi parts), traverse read_hextet (drop (length parts - lo) parts)) of
                      (Some hs, Some ls) \<Rightarrow> Some (base16 (hs @ replicate (8 - (hi + lo)) 0 @ ls))
                    | _ \<Rightarrow> None))
         | _ \<Rightarrow> None))"

text \<open>\<open>IPv6Address(s)\<close>, its zone checked and dropped.\<close>

definition ip6_of_string :: "string \<Rightarrow> nat option" where
  "ip6_of_string s =
     (case partition_at CHR ''%'' s of (addr, zoned, zone) \<Rightarrow>
        if CHR ''/'' \<in> set s \<or> (zoned \<and> (zone = [] \<or> CHR ''%'' \<in> set zone)) then None
        else Option.bind (ip6_parts addr) ip6_of_parts)"

definition ip_of_string :: "string \<Rightarrow> ip option" where
  "ip_of_string s =
     (case ip4_of_string s of Some a \<Rightarrow> Some (V4 a) | None \<Rightarrow> map_option V6 (ip6_of_string s))"

subsection \<open>Writing an address\<close>

fun show_nat_rev :: "nat \<Rightarrow> nat \<Rightarrow> string" where
  "show_nat_rev 0 n = []"
| "show_nat_rev (Suc fuel) n =
     char_of (48 + n mod 10) # (if n < 10 then [] else show_nat_rev fuel (n div 10))"

text \<open>\<open>str(n)\<close>; a number has at most as many digits as its value plus one.\<close>

definition show_nat :: "nat \<Rightarrow> string" where
  "show_nat n = rev (show_nat_rev (Suc n) n)"

definition show_ip4 :: "nat \<Rightarrow> string" where
  "show_ip4 a = show_nat (a div 2 ^ 24 mod 256) @ ''.'' @ show_nat (a div 2 ^ 16 mod 256) @ ''.'' @
     show_nat (a div 2 ^ 8 mod 256) @ ''.'' @ show_nat (a mod 256)"

definition hextets :: "nat \<Rightarrow> nat list" where
  "hextets n = map (\<lambda>i. n div 2 ^ (16 * (7 - i)) mod 65536) [0..<8]"

text \<open>The longest run of zero groups, the first of equals: its start and length.\<close>

fun zero_runs :: "nat \<Rightarrow> nat \<Rightarrow> nat list \<Rightarrow> (nat \<times> nat) list" where
  "zero_runs i len [] = (if len = 0 then [] else [(i - len, len)])"
| "zero_runs i len (h # hs) =
     (if h = 0 then zero_runs (Suc i) (Suc len) hs
      else (if len = 0 then [] else [(i - len, len)]) @ zero_runs (Suc i) 0 hs)"

definition longest_run :: "(nat \<times> nat) list \<Rightarrow> nat \<times> nat" where
  "longest_run rs = foldl (\<lambda>best r. if snd best < snd r then r else best) (0, 0) rs"

fun join_with :: "char \<Rightarrow> string list \<Rightarrow> string" where
  "join_with c [] = []"
| "join_with c [w] = w"
| "join_with c (w # ws) = w @ c # join_with c ws"

text \<open>\<open>IPv6Address.compressed\<close>\<close>

definition show_ip6 :: "nat \<Rightarrow> string" where
  "show_ip6 n =
     (let hs = hextets n; (start, len) = longest_run (zero_runs 0 0 hs); words = map show_hextet hs in
      if len \<le> 1 then join_with CHR '':'' words
      else join_with CHR '':''
        ((if start = 0 then [[]] else []) @ take start words @ [[]] @ drop (start + len) words @
         (if start + len = 8 then [[]] else [])))"

subsection \<open>Reading a network\<close>

definition netmask4 :: "nat \<Rightarrow> nat" where "netmask4 p = 2 ^ 32 - 2 ^ (32 - p)"
definition hostmask4 :: "nat \<Rightarrow> nat" where "hostmask4 p = 2 ^ (32 - p) - 1"

definition read_prefix :: "nat \<Rightarrow> string \<Rightarrow> nat option" where
  "read_prefix width s =
     (if s \<noteq> [] \<and> list_all is_digit s \<and> nat_of_digits s \<le> width then Some (nat_of_digits s) else None)"

text \<open>An IPv4 mask may be a prefix length, a netmask or a hostmask.\<close>

definition read_mask4 :: "string \<Rightarrow> nat option" where
  "read_mask4 s =
     (case read_prefix 32 s of
        Some p \<Rightarrow> Some p
      | None \<Rightarrow> Option.bind (ip4_of_string s) (\<lambda>m.
          case find (\<lambda>p. netmask4 p = m) [0..<33] of
            Some p \<Rightarrow> Some p
          | None \<Rightarrow> find (\<lambda>p. hostmask4 p = m) [0..<33]))"

text \<open>\<open>ip_network(s, strict=False)\<close>; the host bits do not matter to \<open>in_network\<close>.\<close>

definition network_of_string :: "string \<Rightarrow> ip_network option" where
  "network_of_string s =
     (case split_on CHR ''/'' s of
        [a] \<Rightarrow> (case ip_of_string a of Some (V4 n) \<Rightarrow> Some (N4 n 32) | Some (V6 n) \<Rightarrow> Some (N6 n 128) | None \<Rightarrow> None)
      | [a, m] \<Rightarrow>
          (case (ip4_of_string a, read_mask4 m) of
             (Some n, Some p) \<Rightarrow> Some (N4 n p)
           | _ \<Rightarrow> (case (ip6_of_string a, read_prefix 128 m) of
                    (Some n, Some p) \<Rightarrow> Some (N6 n p)
                  | _ \<Rightarrow> None))
      | _ \<Rightarrow> None)"

subsection \<open>The textual forms on examples\<close>

lemmas ip_text_simps = ip_of_string_def ip4_of_string_def ip6_of_string_def ip6_parts_def ip6_of_parts_def
  read_octet_def read_hextet_def is_hex_digit_def hex_value_def is_digit_def code_def nat_of_digits_def quad_def
  skip_indices_def base16_def partition_at_def upt_rec
  show_ip4_def show_ip6_def show_nat_def show_hextet_def hextets_def longest_run_def

lemma replicate_7: "replicate 7 x = [x, x, x, x, x, x, x]"
  by (simp add: numeral_eq_Suc)

lemma ip_text_examples:
  "ip_of_string ''192.168.0.1'' = Some (V4 3232235521)"
  "ip_of_string ''192.168.00.1'' = None"
  "ip_of_string ''::1'' = Some (V6 1)"
  "ip_of_string ''1::2::3'' = None"
  by (simp_all add: ip_text_simps replicate_7)

lemma show_ip_examples:
  "show_ip6 1 = ''::1''"
  "show_ip6 (groups 0x2001 0xdb8 0 0) = ''2001:db8::''"
  by (simp_all add: ip_text_simps groups_def char_of_def bit_Suc_0_iff)

end
