(* ===== verification/Endpoint.thy ===== *)
theory Endpoint
  imports IpAddress
begin

text \<open>
  The endpoints of polled radars (\<open>services/polled_endpoint.py\<close>): what an operator may type, which
  addresses the server may connect to, and the client that sends its requests to the vetted
  addresses alone.

  \<open>idna\<close> is the third-party IDNA encoder (\<open>None\<close> where it raises) and \<open>unquote\<close> the percent
  decoder of the credentials, whose result the server only passes on.  The resolver and what the
  network answers are arguments too.  The wording of a refusal is left out; its code is kept.
\<close>

named_theorems endpoint_simps "unfolding the endpoint operations"

subsection \<open>Refusals\<close>

datatype refusal_code =
    INVALID_ENDPOINT | UNSUPPORTED_SCHEME | INVALID_PORT | PATH_NOT_SUPPORTED
  | UNRESOLVABLE | ADDRESS_NOT_PUBLIC | POLICY_UNAVAILABLE
  | UNREACHABLE | TLS_FAILED | TIMED_OUT | REDIRECTED | BAD_RESPONSE | TOO_LARGE

record polled_endpoint =
  scheme :: string
  host :: string
  port :: nat
  endpoint_key :: string
  auth_user :: "string option"
  auth_secret :: "string option"
  raw :: string

definition BLAH2_DEFAULT_PORT :: nat where "BLAH2_DEFAULT_PORT = 3000"

definition SCHEME_PORTS :: "(string, nat) dict" where
  "SCHEME_PORTS = [(''http'', 80), (''https'', 443)]"

definition MAX_RAW_LENGTH :: nat where "MAX_RAW_LENGTH = 1024"

subsection \<open>Splitting a URL\<close>

text \<open>\<open>s in t\<close>\<close>

fun has_prefix :: "string \<Rightarrow> string \<Rightarrow> bool" where
  "has_prefix [] t = True"
| "has_prefix (c # cs) [] = False"
| "has_prefix (c # cs) (d # ds) = (c = d \<and> has_prefix cs ds)"

fun has_sub :: "string \<Rightarrow> string \<Rightarrow> bool" where
  "has_sub s [] = (s = [])"
| "has_sub s (c # cs) = (has_prefix s (c # cs) \<or> has_sub s cs)"

text \<open>\<open>s.rpartition(c)\<close>\<close>

definition rpartition_at :: "char \<Rightarrow> string \<Rightarrow> string \<times> bool \<times> string" where
  "rpartition_at c s =
     (case partition_at c (rev s) of (l, found, r) \<Rightarrow> if found then (rev r, True, rev l) else ([], False, s))"

definition is_alpha_ascii :: "char \<Rightarrow> bool" where
  "is_alpha_ascii c \<longleftrightarrow> is_upper_ascii c \<or> is_lower_ascii c"

definition scheme_char :: "char \<Rightarrow> bool" where
  "scheme_char c \<longleftrightarrow> is_alpha_ascii c \<or> is_digit c \<or> c \<in> {CHR ''+'', CHR ''-'', CHR ''.''}"

record url_parts =
  u_scheme :: string
  u_netloc :: string
  u_path :: string
  u_query :: string
  u_fragment :: string

definition bracketed_host_ok :: "string \<Rightarrow> bool" where
  "bracketed_host_ok h =
     (case h of
        c # cs \<Rightarrow>
          if c = CHR ''v'' then
            (let rest = dropWhile is_hex_digit cs in
             takeWhile is_hex_digit cs \<noteq> [] \<and> rest \<noteq> [] \<and> hd rest = CHR ''.'' \<and> tl rest \<noteq> [])
          else (case ip_of_string h of Some (V6 _) \<Rightarrow> True | _ \<Rightarrow> False)
      | [] \<Rightarrow> False)"

definition netloc_ok :: "string \<Rightarrow> bool" where
  "netloc_ok netloc \<longleftrightarrow>
     (CHR ''['' \<in> set netloc \<longleftrightarrow> CHR '']'' \<in> set netloc) \<and>
     (CHR ''['' \<in> set netloc \<longrightarrow>
       (case rpartition_at CHR ''@'' netloc of (_, _, hostport) \<Rightarrow>
        case partition_at CHR ''['' hostport of (before, opened, bracketed) \<Rightarrow>
          if opened then
            before = [] \<and>
            (case partition_at CHR '']'' bracketed of (h, _, rest) \<Rightarrow>
               (rest = [] \<or> hd rest = CHR '':'') \<and> bracketed_host_ok h)
          else (case partition_at CHR '':'' hostport of (h, _, _) \<Rightarrow> bracketed_host_ok h)))"

text \<open>
  \<open>urllib.parse.urlsplit\<close> on a text without white space or control characters.  \<open>None\<close> is its
  \<open>ValueError\<close>.
\<close>

definition urlsplit :: "string \<Rightarrow> url_parts option" where
  "urlsplit url =
     (case partition_at CHR '':'' url of (before, found, after) \<Rightarrow>
      case (if found \<and> before \<noteq> [] \<and> is_alpha_ascii (hd before) \<and> list_all scheme_char before
            then (lower before, after) else ([], url)) of (sch, rest) \<Rightarrow>
      case (if has_prefix ''//'' rest
            then (takeWhile (\<lambda>c. c \<notin> {CHR ''/'', CHR ''?'', CHR ''#''}) (drop 2 rest),
                  dropWhile (\<lambda>c. c \<notin> {CHR ''/'', CHR ''?'', CHR ''#''}) (drop 2 rest))
            else ([], rest)) of (netloc, tail) \<Rightarrow>
      case partition_at CHR ''#'' tail of (tail, _, fragment) \<Rightarrow>
      case partition_at CHR ''?'' tail of (path, _, query) \<Rightarrow>
        if netloc_ok netloc
        then Some \<lparr>u_scheme = sch, u_netloc = netloc, u_path = path, u_query = query, u_fragment = fragment\<rparr>
        else None)"

subsection \<open>What an operator typed\<close>

definition split_scheme :: "string \<Rightarrow> string" where
  "split_scheme text =
     (if has_sub ''://'' text then text
      else if ip6_of_string text = None then ''http://'' @ text
      else ''http://['' @ text @ '']'')"

definition port_of :: "string option \<Rightarrow> string \<Rightarrow> bool \<Rightarrow> refusal_code + nat" where
  "port_of text sch defaulted =
     (case text of
        None \<Rightarrow> Inr (if defaulted then BLAH2_DEFAULT_PORT else dict_get_default SCHEME_PORTS sch 0)
      | Some t \<Rightarrow>
          if t = [] then Inr (if defaulted then BLAH2_DEFAULT_PORT else dict_get_default SCHEME_PORTS sch 0)
          else if \<not> list_all is_digit t \<or> nat_of_digits t = 0 \<or> 65535 < nat_of_digits t then Inl INVALID_PORT
          else Inr (nat_of_digits t))"

text \<open>A last label \<open>getaddrinfo\<close> would read as part of an IPv4 address.\<close>

definition numeric_label :: "string \<Rightarrow> bool" where
  "numeric_label l \<longleftrightarrow> (l \<noteq> [] \<and> list_all is_digit l) \<or>
     (take 2 l \<in> {''0x'', ''0X''} \<and> list_all is_hex_digit (drop 2 l))"

definition without_final_dot :: "string \<Rightarrow> string" where
  "without_final_dot s = (if s \<noteq> [] \<and> last s = CHR ''.'' then butlast s else s)"

text \<open>The stored host, and its form in the key.\<close>

definition host_of :: "(string \<Rightarrow> string option) \<Rightarrow> string \<Rightarrow> bool \<Rightarrow> refusal_code + (string \<times> string)" where
  "host_of idna text bracketed =
     (if bracketed then
        (if CHR ''%'' \<in> set text then Inl INVALID_ENDPOINT
         else case ip6_of_string text of
           None \<Rightarrow> Inl INVALID_ENDPOINT
         | Some n \<Rightarrow> Inr (show_ip6 n, ''['' @ show_ip6 n @ '']''))
      else
        (case idna text of
           None \<Rightarrow> Inl INVALID_ENDPOINT
         | Some encoded \<Rightarrow>
             (let name = without_final_dot encoded in
              case rpartition_at CHR ''.'' name of (_, _, label) \<Rightarrow>
                if numeric_label label then
                  (case ip4_of_string name of
                     None \<Rightarrow> Inl INVALID_ENDPOINT
                   | Some n \<Rightarrow> Inr (show_ip4 n, show_ip4 n))
                else Inr (name, name))))"

definition unprintable :: "char \<Rightarrow> bool" where
  "unprintable c \<longleftrightarrow> code c < 32 \<or> (127 \<le> code c \<and> code c \<le> 160) \<or> code c = 173"

text \<open>The host and port parts of an authority, and whether the host was in brackets.\<close>

definition split_hostport :: "string \<Rightarrow> refusal_code + (string \<times> string option \<times> bool)" where
  "split_hostport hostport =
     (if has_prefix ''['' hostport then
        (case partition_at CHR '']'' (drop 1 hostport) of (h, shut, rest) \<Rightarrow>
           if \<not> shut \<or> (rest \<noteq> [] \<and> hd rest \<noteq> CHR '':'') then Inl INVALID_ENDPOINT
           else Inr (h, if rest \<noteq> [] then Some (drop 1 rest) else None, True))
      else
        (case partition_at CHR '':'' hostport of (h, colon, p) \<Rightarrow>
           Inr (h, if colon then Some p else None, False)))"

definition credentials :: "(string \<Rightarrow> string) \<Rightarrow> bool \<Rightarrow> string \<Rightarrow> string option \<times> string option" where
  "credentials unquote signed userinfo =
     (if signed \<and> userinfo \<noteq> [] then
        (case partition_at CHR '':'' userinfo of (user, colon, secret) \<Rightarrow>
           (Some (unquote user), if colon then Some (unquote secret) else None))
      else (None, None))"

definition parse_endpoint ::
    "(string \<Rightarrow> string option) \<Rightarrow> (string \<Rightarrow> string) \<Rightarrow> string \<Rightarrow> refusal_code + polled_endpoint" where
  "parse_endpoint idna unquote typed =
     (let text = strip typed in
      if text = [] \<or> MAX_RAW_LENGTH < length text then Inl INVALID_ENDPOINT
      else if list_ex (\<lambda>c. is_space c \<or> unprintable c) text then Inl INVALID_ENDPOINT
      else
        (case urlsplit (split_scheme text) of
           None \<Rightarrow> Inl INVALID_ENDPOINT
         | Some parts \<Rightarrow>
             if \<not> dict_has SCHEME_PORTS (u_scheme parts) then Inl UNSUPPORTED_SCHEME
             else if u_fragment parts \<noteq> [] \<or> CHR ''#'' \<in> set text then Inl PATH_NOT_SUPPORTED
             else if u_query parts \<noteq> [] \<or> CHR ''?'' \<in> set text then Inl PATH_NOT_SUPPORTED
             else if u_path parts \<noteq> [] \<and> u_path parts \<noteq> ''/'' then Inl PATH_NOT_SUPPORTED
             else
               (case rpartition_at CHR ''@'' (u_netloc parts) of (userinfo, signed, hostport) \<Rightarrow>
                bind_result (split_hostport hostport) (\<lambda>(host_text, port_text, bracketed).
                if host_text = [] then Inl INVALID_ENDPOINT
                else
                  bind_result (port_of port_text (u_scheme parts) (\<not> has_sub ''://'' text)) (\<lambda>p.
                  bind_result (host_of idna host_text bracketed) (\<lambda>(h, key_host).
                    (case credentials unquote signed userinfo of (user, secret) \<Rightarrow>
                       Inr \<lparr>scheme = u_scheme parts, host = h, port = p,
                            endpoint_key = key_host @ '':'' @ show_nat p,
                            auth_user = user, auth_secret = secret, raw = typed\<rparr>)))))))"

subsection \<open>Which addresses may be connected to\<close>

definition NAT64 :: ip_network where "NAT64 = N6 (groups 0x64 0xff9b 0 0) 96"
definition IPV4_COMPATIBLE :: ip_network where "IPV4_COMPATIBLE = N6 0 96"

definition carried_ipv4 :: "nat \<Rightarrow> nat option" where
  "carried_ipv4 n =
     (case ipv4_mapped n of
        Some m \<Rightarrow> Some m
      | None \<Rightarrow> if in_network (V6 n) NAT64 \<or> in_network (V6 n) IPV4_COMPATIBLE then Some (n mod 2 ^ 32) else None)"

definition public4 :: "ip_network list \<Rightarrow> nat \<Rightarrow> bool" where
  "public4 deny a \<longleftrightarrow> \<not> in_any (V4 a) deny \<and> is_global (V4 a) \<and>
     \<not> (is_multicast (V4 a) \<or> is_unspecified (V4 a) \<or> is_reserved (V4 a))"

definition is_public_address :: "ip_network list \<Rightarrow> ip \<Rightarrow> bool" where
  "is_public_address deny address =
     (if in_any address deny then False
      else (case address of
        V4 a \<Rightarrow> public4 deny a
      | V6 n \<Rightarrow>
          (case carried_ipv4 n of
             Some a \<Rightarrow> public4 deny a
           | None \<Rightarrow>
               if (case sixtofour n of Some a \<Rightarrow> \<not> public4 deny a | None \<Rightarrow> False) then False
               else if in_network (V6 n) SITE_LOCAL6 then False
               else is_global (V6 n) \<and>
                 \<not> (is_multicast (V6 n) \<or> is_unspecified (V6 n) \<or> is_reserved (V6 n)))))"

definition parse_comma_list :: "string \<Rightarrow> string list" where
  "parse_comma_list text = filter (\<lambda>p. p \<noteq> []) (map strip (split_on CHR '','' text))"

text \<open>The deny list in the environment; \<open>None\<close> is the \<open>ValueError\<close> of an entry that is no CIDR.\<close>

definition deny_networks_from_env :: "string option \<Rightarrow> ip_network list option" where
  "deny_networks_from_env env =
     traverse network_of_string (parse_comma_list (case env of None \<Rightarrow> [] | Some v \<Rightarrow> v))"

definition default_policy :: "string option \<Rightarrow> refusal_code + (ip \<Rightarrow> bool)" where
  "default_policy env =
     (case deny_networks_from_env env of
        None \<Rightarrow> Inl POLICY_UNAVAILABLE
      | Some deny \<Rightarrow> Inr (is_public_address deny))"

text \<open>\<open>dict.fromkeys\<close>: the first of equals, in order.\<close>

definition unique :: "'a list \<Rightarrow> 'a list" where
  "unique xs = rev (remdups (rev xs))"

text \<open>\<open>resolver\<close> is \<open>None\<close> where resolving raises or takes longer than \<open>RESOLVE_TIMEOUT_S\<close>.\<close>

definition vet_addresses ::
    "(string \<Rightarrow> nat \<Rightarrow> ip list option) \<Rightarrow> (refusal_code + (ip \<Rightarrow> bool)) \<Rightarrow> polled_endpoint \<Rightarrow> refusal_code + ip list" where
  "vet_addresses resolver policy e =
     bind_result policy (\<lambda>may_connect.
       (let addresses =
              (case ip_of_string (host e) of
                 Some a \<Rightarrow> [a]
               | None \<Rightarrow> (case resolver (host e) (port e) of None \<Rightarrow> [] | Some as \<Rightarrow> as));
            vetted = unique addresses
        in if vetted = [] then Inl UNRESOLVABLE
           else if \<not> list_all may_connect vetted then Inl ADDRESS_NOT_PUBLIC
           else Inr vetted))"

subsection \<open>The pinned client\<close>

text \<open>A request as it leaves: the address in its URL, the name in its headers.\<close>

record request =
  r_scheme :: string
  r_address :: ip
  r_port :: nat
  r_path :: string
  r_host_header :: string
  r_sni :: "string option"
  r_auth :: "(string \<times> string) option"

text \<open>What sending it comes to.  \<open>NoConnection tls\<close> is a failure to connect, told apart by whether
  TLS caused it; \<open>Expired\<close> is the end of \<open>REQUEST_DEADLINE_S\<close>; the rest are \<open>httpx\<close>'s.\<close>

datatype failure = Expired | RemoteProtocolError | TimeoutException | OtherHTTPError

record response =
  status_code :: int
  content_encoding :: "string option"
  content_length :: "string option"
  chunks :: "string list"
  broken :: "failure option"

datatype outcome = NoConnection bool | Failed failure | Answered response

record pinned_client =
  c_endpoint :: polled_endpoint
  addresses :: "ip list"
  address :: "ip option"

definition failure_code :: "failure \<Rightarrow> refusal_code" where
  "failure_code f = (case f of
     Expired \<Rightarrow> TIMED_OUT
   | RemoteProtocolError \<Rightarrow> BAD_RESPONSE
   | TimeoutException \<Rightarrow> TIMED_OUT
   | OtherHTTPError \<Rightarrow> UNREACHABLE)"

definition host_header :: "polled_endpoint \<Rightarrow> string" where
  "host_header e =
     (let h = (if CHR '':'' \<in> set (host e) then ''['' @ host e @ '']'' else host e) in
      if dict_get SCHEME_PORTS (scheme e) = Some (port e) then h else h @ '':'' @ show_nat (port e))"

definition build_request :: "polled_endpoint \<Rightarrow> ip \<Rightarrow> string \<Rightarrow> request" where
  "build_request e a path =
     \<lparr>r_scheme = scheme e, r_address = a, r_port = port e, r_path = path, r_host_header = host_header e,
      r_sni = (if scheme e = ''https'' then Some (host e) else None),
      r_auth = map_option (\<lambda>u. (u, case auth_secret e of None \<Rightarrow> [] | Some s \<Rightarrow> s)) (auth_user e)\<rparr>"

text \<open>Reading the body, counting as it arrives.\<close>

fun read_chunks :: "nat \<Rightarrow> failure option \<Rightarrow> string \<Rightarrow> string list \<Rightarrow> refusal_code + string" where
  "read_chunks max_bytes ending got [] =
     (case ending of None \<Rightarrow> Inr got | Some f \<Rightarrow> Inl (failure_code f))"
| "read_chunks max_bytes ending got (c # cs) =
     (if max_bytes < length (got @ c) then Inl TOO_LARGE else read_chunks max_bytes ending (got @ c) cs)"

definition read_body :: "nat \<Rightarrow> response \<Rightarrow> refusal_code + string" where
  "read_body max_bytes r =
     (if 300 \<le> status_code r \<and> status_code r < 400 then Inl REDIRECTED
      else if status_code r \<noteq> 200 then Inl BAD_RESPONSE
      else if lower (strip (case content_encoding r of None \<Rightarrow> ''identity'' | Some e \<Rightarrow> e)) \<notin> {[], ''identity''}
        then Inl BAD_RESPONSE
      else
        (let declared = (case content_length r of None \<Rightarrow> [] | Some d \<Rightarrow> d) in
         if declared \<noteq> [] \<and> list_all is_digit declared \<and> max_bytes < nat_of_digits declared then Inl TOO_LARGE
         else read_chunks max_bytes (broken r) [] (chunks r)))"

text \<open>The loop over the candidates: the requests sent, the address that answered, the result.\<close>

fun try_addresses ::
    "(request \<Rightarrow> outcome) \<Rightarrow> polled_endpoint \<Rightarrow> string \<Rightarrow> nat \<Rightarrow> ip list
     \<Rightarrow> request list \<times> ip option \<times> (refusal_code + string)" where
  "try_addresses net e path max_bytes [] = ([], None, Inl UNREACHABLE)"
| "try_addresses net e path max_bytes (a # as) =
     (let r = build_request e a path in
      case net r of
        NoConnection tls \<Rightarrow>
          if tls then ([r], None, Inl TLS_FAILED)
          else (case try_addresses net e path max_bytes as of (rs, got, out) \<Rightarrow> (r # rs, got, out))
      | Failed f \<Rightarrow> ([r], None, Inl (failure_code f))
      | Answered resp \<Rightarrow> ([r], Some a, read_body max_bytes resp))"

definition client_get ::
    "(request \<Rightarrow> outcome) \<Rightarrow> string \<Rightarrow> nat \<Rightarrow> pinned_client \<Rightarrow> pinned_client \<times> request list \<times> (refusal_code + string)" where
  "client_get net path max_bytes c =
     (let candidates = (case address c of None \<Rightarrow> addresses c | Some a \<Rightarrow> [a]) in
      case try_addresses net (c_endpoint c) path max_bytes candidates of (rs, got, out) \<Rightarrow>
        (case got of None \<Rightarrow> c | Some a \<Rightarrow> c\<lparr>address := Some a\<rparr>, rs, out))"

definition open_client ::
    "(string \<Rightarrow> nat \<Rightarrow> ip list option) \<Rightarrow> (refusal_code + (ip \<Rightarrow> bool)) \<Rightarrow> polled_endpoint \<Rightarrow> refusal_code + pinned_client" where
  "open_client resolver policy e =
     bind_result (vet_addresses resolver policy e) (\<lambda>vetted.
       Inr \<lparr>c_endpoint = e, addresses = vetted, address = None\<rparr>)"

text \<open>A session of requests through one client, each with its own moment of the network.\<close>

fun client_run ::
    "((request \<Rightarrow> outcome) \<times> string \<times> nat) list \<Rightarrow> pinned_client \<Rightarrow> pinned_client \<times> request list" where
  "client_run [] c = (c, [])"
| "client_run ((net, path, max_bytes) # gets) c =
     (case client_get net path max_bytes c of (c1, rs, _) \<Rightarrow>
      case client_run gets c1 of (c2, rs2) \<Rightarrow> (c2, rs @ rs2))"

subsection \<open>No way into the server's own networks\<close>

lemma div_interval: "0 < k \<Longrightarrow> (a :: nat) div k = q \<longleftrightarrow> q * k \<le> a \<and> a < (q + 1) * k"
  by (metis Suc_eq_plus1 div_nat_eqI dividend_less_times_div mult.commute div_times_less_eq_dividend mult_Suc_right add.commute)

lemma in_network_interval:
  "in_network (V4 a) (N4 n p) \<longleftrightarrow> n div 2 ^ (32 - p) * 2 ^ (32 - p) \<le> a \<and> a < (n div 2 ^ (32 - p) + 1) * 2 ^ (32 - p)"
  "in_network (V6 a) (N6 n p) \<longleftrightarrow> n div 2 ^ (128 - p) * 2 ^ (128 - p) \<le> a \<and> a < (n div 2 ^ (128 - p) + 1) * 2 ^ (128 - p)"
  by (simp_all only: in_network.simps div_interval zero_less_power zero_less_numeral)

lemmas registry_simps = PRIVATE4_def PRIVATE4_EXCEPTIONS_def SHARED4_def MULTICAST4_def RESERVED4_def
  PRIVATE6_def PRIVATE6_EXCEPTIONS_def SITE_LOCAL6_def MULTICAST6_def RESERVED6_def NAT64_def IPV4_COMPATIBLE_def
  quad_def groups_def

text \<open>Where the server's own hosts and its neighbours are.\<close>

definition INTERNAL4 :: "ip_network list" where
  "INTERNAL4 = [N4 (quad 0 0 0 0) 8, N4 (quad 10 0 0 0) 8, N4 (quad 100 64 0 0) 10, N4 (quad 127 0 0 0) 8,
     N4 (quad 169 254 0 0) 16, N4 (quad 172 16 0 0) 12, N4 (quad 192 168 0 0) 16, N4 (quad 224 0 0 0) 4,
     N4 (quad 240 0 0 0) 4]"

definition INTERNAL6 :: "ip_network list" where
  "INTERNAL6 = [N6 0 128, N6 1 128, N6 (groups 0xfc00 0 0 0) 7, N6 (groups 0xfe80 0 0 0) 10,
     N6 (groups 0xfec0 0 0 0) 10, N6 (groups 0xff00 0 0 0) 8]"

lemma exceptions4: "in_any (V4 a) PRIVATE4_EXCEPTIONS \<Longrightarrow> a = 3221225481 \<or> a = 3221225482"
  by (auto simp: in_any_def PRIVATE4_EXCEPTIONS_def quad_def)

lemma exceptions4_not_internal: "in_any (V4 a) PRIVATE4_EXCEPTIONS \<Longrightarrow> \<not> in_any (V4 a) INTERNAL4"
  apply (drule exceptions4) by (elim disjE) (simp_all add: in_any_def INTERNAL4_def quad_def)

lemma INTERNAL4_private: "set INTERNAL4 \<subseteq> set PRIVATE4 \<union> {SHARED4, MULTICAST4}"
  by (simp add: INTERNAL4_def PRIVATE4_def SHARED4_def MULTICAST4_def)

lemma public4_not_internal: 
  assumes "public4 deny a" shows "\<not> in_any (V4 a) INTERNAL4"
proof
  assume i: "in_any (V4 a) INTERNAL4"
  then obtain n where n: "n \<in> set INTERNAL4" "in_network (V4 a) n" by (auto simp: in_any_def list_ex_iff)
  have "n \<noteq> SHARED4" "n \<noteq> MULTICAST4" "\<not> is_private4 a" using assms n(2) by (auto simp: public4_def)
  then show False using n i exceptions4_not_internal INTERNAL4_private
    by (auto simp: is_private4_def in_any_def list_ex_iff)
qed

lemma exceptions6: 
  assumes "in_any (V6 n) PRIVATE6_EXCEPTIONS" shows "n < 2 ^ 126"
proof -
  obtain net where "net \<in> set PRIVATE6_EXCEPTIONS" "in_network (V6 n) net"
    using assms by (auto simp: in_any_def list_ex_iff)
  then show ?thesis
    unfolding PRIVATE6_EXCEPTIONS_def groups_def list.set
    by (elim insertE emptyE; hypsubst; simp only: in_network_interval) simp_all
qed

lemma carried_bound: "carried_ipv4 n = Some a \<Longrightarrow> n < 2 ^ 124"
proof -
  assume a: "carried_ipv4 n = Some a"
  have "ipv4_mapped n \<noteq> None \<Longrightarrow> n < 2 ^ 124"
    by (auto simp: ipv4_mapped_def div_interval split: if_splits)
  moreover have "in_network (V6 n) NAT64 \<Longrightarrow> n < 2 ^ 124" "in_network (V6 n) IPV4_COMPATIBLE \<Longrightarrow> n < 2 ^ 124"
    by (simp_all only: NAT64_def IPV4_COMPATIBLE_def groups_def in_network_interval) simp_all
  ultimately show ?thesis using a by (auto simp: carried_ipv4_def split: option.splits if_splits)
qed

lemma high_only6:
  assumes "2 ^ 126 \<le> n"
  shows "carried_ipv4 n = None" "ipv4_mapped n = None" "\<not> in_any (V6 n) PRIVATE6_EXCEPTIONS"
proof -
  show c: "carried_ipv4 n = None"
  proof (rule ccontr)
    assume "carried_ipv4 n \<noteq> None"
    then obtain a where "carried_ipv4 n = Some a" by blast
    from carried_bound [OF this] assms show False by simp
  qed
  then show "ipv4_mapped n = None" by (simp add: carried_ipv4_def split: option.splits)
  show "\<not> in_any (V6 n) PRIVATE6_EXCEPTIONS"
    using exceptions6 [of n] assms by linarith
qed

lemma high_networks: "net \<in> {N6 (groups 0xfc00 0 0 0) 7, N6 (groups 0xfe80 0 0 0) 10,
     N6 (groups 0xfec0 0 0 0) 10, N6 (groups 0xff00 0 0 0) 8} \<Longrightarrow> in_network (V6 n) net \<Longrightarrow> 2 ^ 126 \<le> n"
  by (elim insertE emptyE; hypsubst; simp only: groups_def in_network_interval) simp_all

lemma public6_not_internal:
  assumes p: "is_public_address deny (V6 n)" shows "\<not> in_any (V6 n) INTERNAL6"
proof
  assume "in_any (V6 n) INTERNAL6"
  then consider (low) "n = 0 \<or> n = 1" | (local) "in_any (V6 n) [N6 (groups 0xfc00 0 0 0) 7, N6 (groups 0xfe80 0 0 0) 10]"
    | (site) "in_network (V6 n) SITE_LOCAL6" | (multi) "in_network (V6 n) MULTICAST6"
    by (simp add: in_any_def INTERNAL6_def SITE_LOCAL6_def MULTICAST6_def) blast
  then show False
  proof cases
    case low
    then have "carried_ipv4 n = Some n" by (auto simp: carried_ipv4_def ipv4_mapped_def IPV4_COMPATIBLE_def)
    then have "public4 deny n" using p by (simp add: is_public_address_def split: if_splits)
    moreover have "in_any (V4 n) INTERNAL4" using low by (auto simp: in_any_def INTERNAL4_def quad_def)
    ultimately show False using public4_not_internal by blast
  next
    case local
    then have "2 ^ 126 \<le> n" using high_networks [of _ n] by (auto simp: in_any_def simp del: in_network.simps)
    note high = high_only6 [OF this]
    have "in_any (V6 n) PRIVATE6" using local by (auto simp: in_any_def PRIVATE6_def simp del: in_network.simps)
    then show False using p high by (simp add: is_public_address_def split: if_splits)
  next
    case site
    then have "2 ^ 126 \<le> n" using high_networks [of SITE_LOCAL6 n] by (simp add: SITE_LOCAL6_def)
    then show False using p site high_only6 [of n] by (simp add: is_public_address_def split: if_splits)
  next
    case multi
    then have "2 ^ 126 \<le> n" using high_networks [of MULTICAST6 n] by (simp add: MULTICAST6_def)
    then show False using p multi high_only6 [of n] by (simp add: is_public_address_def split: if_splits)
  qed
qed

text \<open>The four ways an IPv6 address leads to an IPv4 host.\<close>

definition leads_to :: "nat \<Rightarrow> nat \<Rightarrow> bool" where
  "leads_to n a \<longleftrightarrow> a < 2 ^ 32 \<and>
     (n = 0xFFFF * 2 ^ 32 + a \<or> n = groups 0x64 0xff9b 0 0 + a \<or> n = a \<or> n div 2 ^ 80 = 0x2002 * 2 ^ 32 + a)"

lemma leads_to_public:
  assumes p: "is_public_address deny (V6 n)" and l: "leads_to n a"
  shows "public4 deny a"
proof -
  from l have a: "a < 2 ^ 32" by (simp add: leads_to_def)
  from l consider (carried) "carried_ipv4 n = Some a" | (six) "sixtofour n = Some a" "carried_ipv4 n = None"
  proof -
    have m: "ipv4_mapped (0xFFFF * 2 ^ 32 + a) = Some a"
      unfolding ipv4_mapped_def using a by (simp only: mod_mult_self3 mod_less div_mult_self3) simp
    have n: "ipv4_mapped (groups 0x64 0xff9b 0 0 + a) = None"
      using a by (simp add: ipv4_mapped_def groups_def div_interval)
    have g: "groups 0x64 0xff9b 0 0 = (((0x64 * 65536 + 0xff9b) * 65536 * 65536) * 2 ^ 32) * 2 ^ 32"
      by (simp add: groups_def)
    have n2: "in_network (V6 (groups 0x64 0xff9b 0 0 + a)) NAT64"
      unfolding NAT64_def in_network_interval using a by (simp add: groups_def)
    have n3: "(groups 0x64 0xff9b 0 0 + a) mod 2 ^ 32 = a"
      using a by (simp only: g mod_mult_self3 mod_less)
    have c: "ipv4_mapped a = None" "in_network (V6 a) IPV4_COMPATIBLE"
      using a by (simp_all add: ipv4_mapped_def IPV4_COMPATIBLE_def)
    show ?thesis
    proof (cases "n div 2 ^ 80 = 0x2002 * 2 ^ 32 + a")
      case True
      have "n div 2 ^ 112 = n div 2 ^ 80 div 2 ^ 32" by (simp flip: div_mult2_eq)
      then have high: "n div 2 ^ 112 = 0x2002" using True a by (simp only: div_mult_self3 div_less)
      have "n div 2 ^ 80 mod 2 ^ 32 = a" using True a by (simp only: mod_mult_self3 mod_less)
      then have "sixtofour n = Some a" by (simp only: sixtofour_def high simp_thms if_True)
      moreover have "carried_ipv4 n = None"
      proof (rule ccontr)
        assume "carried_ipv4 n \<noteq> None"
        then have "n < 2 ^ 124" using carried_bound by blast
        then have "n div 2 ^ 112 < 2 ^ 12" by (simp add: less_mult_imp_div_less)
        then show False using high by simp
      qed
      ultimately show ?thesis using that by blast
    next
      case False
      then have "carried_ipv4 n = Some a"
        using l m n n2 n3 c a by (auto simp: leads_to_def carried_ipv4_def)
      then show ?thesis using that by blast
    qed
  qed
  then show ?thesis
    using p by cases (auto simp: is_public_address_def split: if_splits)
qed

lemma network_examples:
  "network_of_string ''198.51.0.0/16'' = Some (N4 (quad 198 51 0 0) 16)"
  by (simp add: network_of_string_def read_mask4_def read_prefix_def ip4_of_string_def
        read_octet_def is_digit_def code_def nat_of_digits_def)

subsection \<open>Every request of a client\<close>

lemma try_addresses_requests:
  assumes "try_addresses net e path max_bytes as = (rs, got, out)"
  shows "set rs \<subseteq> (\<lambda>a. build_request e a path) ` set as" and "got = Some a \<Longrightarrow> a \<in> set as"
  using assms
  by (induction as arbitrary: rs got out)
    (auto simp: Let_def split: outcome.splits if_splits prod.splits)

definition client_ok :: "(ip \<Rightarrow> bool) \<Rightarrow> polled_endpoint \<Rightarrow> pinned_client \<Rightarrow> bool" where
  "client_ok may e c \<longleftrightarrow> c_endpoint c = e \<and> list_all may (addresses c) \<and>
     (case address c of None \<Rightarrow> True | Some a \<Rightarrow> a \<in> set (addresses c))"

lemma open_client_ok:
  assumes "open_client resolver (Inr may) e = Inr c"
  shows "client_ok may e c"
  using assms by (auto simp: open_client_def vet_addresses_def client_ok_def Let_def split: if_splits)

lemma client_get_ok:
  assumes ok: "client_ok may e c" and "client_get net path max_bytes c = (c', rs, out)"
  shows "client_ok may e c'" and "\<And>r. r \<in> set rs \<Longrightarrow> \<exists>a. may a \<and> r = build_request e a path"
proof -
  let ?as = "case address c of None \<Rightarrow> addresses c | Some a \<Rightarrow> [a]"
  obtain got out' where t: "try_addresses net e path max_bytes ?as = (rs, got, out')"
    and c': "c' = (case got of None \<Rightarrow> c | Some a \<Rightarrow> c\<lparr>address := Some a\<rparr>)"
    using assms by (auto simp: client_get_def client_ok_def split: prod.splits)
  have sub: "set ?as \<subseteq> set (addresses c)" using ok by (auto simp: client_ok_def split: option.splits)
  note r = try_addresses_requests [OF t]
  show "client_ok may e c'"
    using ok r(2) sub c' by (cases got) (auto simp: client_ok_def)
  show "\<exists>a. may a \<and> r = build_request e a path" if "r \<in> set rs" for r
    using that r(1) sub ok by (fastforce simp: client_ok_def list_all_iff)
qed

lemma client_run_ok:
  assumes "client_ok may e c" and "client_run gets c = (c', rs)" and "r \<in> set rs"
  shows "\<exists>a path. may a \<and> r = build_request e a path"
  using assms
proof (induction gets arbitrary: c rs)
  case (Cons g gets)
  obtain net path mb where g: "g = (net, path, mb)" by (cases g)
  obtain c1 rs1 out where 1: "client_get net path mb c = (c1, rs1, out)" by (cases "client_get net path mb c")
  obtain rs2 where 2: "client_run gets c1 = (c', rs2)" and rs: "rs = rs1 @ rs2"
    using Cons.prems(2) g 1 by (auto split: prod.splits)
  from Cons.prems(3) rs consider "r \<in> set rs1" | "r \<in> set rs2" by auto
  then show ?case
    by cases (use client_get_ok(2) [OF Cons.prems(1) 1] Cons.IH [OF client_get_ok(1) [OF Cons.prems(1) 1] 2] in blast)+
qed simp


definition sample_endpoint :: polled_endpoint where
  "sample_endpoint = \<lparr>scheme = ''https'', host = ''radar.example'', port = 443, endpoint_key = ''radar.example:443'',
     auth_user = None, auth_secret = None, raw = ''https://radar.example''\<rparr>"

definition sample_resolver :: "string \<Rightarrow> nat \<Rightarrow> ip list option" where
  "sample_resolver h p = Some [V4 (quad 8 8 8 8), V6 (groups 0x2a00 0 0 0 + 1)]"


subsection \<open>The key names the host and port\<close>

lemma show_nat_rev_digits: "n < fuel \<Longrightarrow> list_all is_digit (show_nat_rev fuel n) \<and>
    foldr (\<lambda>c n. 10 * n + (code c - 48)) (show_nat_rev fuel n) 0 = n"
proof (induction fuel arbitrary: n)
  case (Suc fuel)
  have d: "code (char_of (48 + n mod 10)) = 48 + n mod 10" by (simp add: code_def)
  show ?case
  proof (cases "n < 10")
    case True
    then show ?thesis using d by (simp add: is_digit_def)
  next
    case False
    then have "n div 10 < fuel" using Suc.prems by simp
    from Suc.IH [OF this] show ?thesis using d False by (simp add: is_digit_def)
  qed
qed simp

lemma show_nat_digits [simp]: "list_all is_digit (show_nat n)"
  using show_nat_rev_digits [of n "Suc n"] by (simp add: show_nat_def list_all_iff)

lemma nat_of_show_nat [simp]: "nat_of_digits (show_nat n) = n"
  using show_nat_rev_digits [of n "Suc n"] by (simp add: show_nat_def nat_of_digits_def foldl_conv_foldr)

lemma show_nat_inj: "show_nat m = show_nat n \<longleftrightarrow> m = n"
  by (metis nat_of_show_nat)

lemma show_nat_no_colon: "CHR '':'' \<notin> set (show_nat n)" "CHR ''['' \<notin> set (show_nat n)"
proof -
  have "\<not> is_digit CHR '':''" "\<not> is_digit CHR ''[''" by (simp_all add: is_digit_def code_def)
  then show "CHR '':'' \<notin> set (show_nat n)" "CHR ''['' \<notin> set (show_nat n)"
    using show_nat_digits [of n] by (auto simp: list_all_iff)
qed

lemma join_with_sep: "2 \<le> length ws \<Longrightarrow> c \<in> set (join_with c ws)"
  by (cases ws; cases "tl ws") auto

lemma show_ip6_colon: "CHR '':'' \<in> set (show_ip6 n)"
proof -
  obtain start len where r: "longest_run (zero_runs 0 0 (hextets n)) = (start, len)" by fastforce
  show ?thesis unfolding show_ip6_def Let_def r prod.case
    by (auto intro!: join_with_sep simp: hextets_def)
qed

lemma show_ip4_plain: "CHR '':'' \<notin> set (show_ip4 n)" "CHR ''['' \<notin> set (show_ip4 n)"
  by (simp_all add: show_ip4_def show_nat_no_colon)

text \<open>What the IDNA encoder documents of its output, as far as it is relied on.\<close>

definition plain_names :: "(string \<Rightarrow> string option) \<Rightarrow> bool" where
  "plain_names idna \<longleftrightarrow> (\<forall>s t. idna s = Some t \<longrightarrow> CHR '':'' \<notin> set t \<and> CHR ''['' \<notin> set t)"

definition key_of :: "string \<Rightarrow> string" where
  "key_of h = (if CHR '':'' \<in> set h then ''['' @ h @ '']'' else h)"

lemma set_without_final_dot: "set (without_final_dot s) \<subseteq> set s"
  by (auto simp: without_final_dot_def dest: in_set_butlastD)

lemma host_of_key:
  assumes "plain_names idna" and "host_of idna text bracketed = Inr (h, k)"
  shows "k = key_of h" and "CHR ''['' \<notin> set h \<or> CHR '':'' \<in> set h"
proof -
  show "k = key_of h" "CHR ''['' \<notin> set h \<or> CHR '':'' \<in> set h"
    using assms show_ip6_colon show_ip4_plain set_without_final_dot
    by (fastforce simp: host_of_def key_of_def plain_names_def Let_def split: if_splits option.splits prod.splits)+
qed

lemma append_colon_inj:
  assumes "CHR '':'' \<notin> set p" "CHR '':'' \<notin> set q" and "a @ CHR '':'' # p = b @ CHR '':'' # q"
  shows "a = b \<and> p = q"
proof -
  have "rev p @ CHR '':'' # rev a = rev q @ CHR '':'' # rev b"
    using arg_cong [OF assms(3), of rev] by simp
  moreover have "takeWhile (\<lambda>c. c \<noteq> CHR '':'') (rev x @ CHR '':'' # y) = rev x" if "CHR '':'' \<notin> set x" for x y
    using that by (subst takeWhile_append2) auto
  ultimately have "rev p = rev q" using assms(1,2) by metis
  then show ?thesis using assms(3) by simp
qed

lemma key_of_inj:
  assumes "CHR ''['' \<notin> set h \<or> CHR '':'' \<in> set h" "CHR ''['' \<notin> set g \<or> CHR '':'' \<in> set g"
  shows "key_of h = key_of g \<longleftrightarrow> h = g"
  using assms by (auto simp: key_of_def)

lemma port_of_range:
  assumes "port_of text s d = Inr p" and "dict_has SCHEME_PORTS s"
  shows "1 \<le> p \<and> p \<le> 65535"
  using assms
  by (auto simp: port_of_def BLAH2_DEFAULT_PORT_def SCHEME_PORTS_def dict_get_default_def dict_has_def
      split: option.splits if_splits)

lemma parse_endpoint_parts:
  assumes "plain_names idna" and "parse_endpoint idna unquote a = Inr e"
  shows "endpoint_key e = key_of (host e) @ CHR '':'' # show_nat (port e)"
    and "CHR ''['' \<notin> set (host e) \<or> CHR '':'' \<in> set (host e)"
    and "1 \<le> port e \<and> port e \<le> 65535"
    and "scheme e = ''http'' \<or> scheme e = ''https''"
proof -
  obtain parts where u: "urlsplit (split_scheme (strip a)) = Some parts" and has: "dict_has SCHEME_PORTS (u_scheme parts)"
    using assms(2) unfolding parse_endpoint_def Let_def by (auto split: option.splits if_splits)
  obtain userinfo signed hostport where r: "rpartition_at CHR ''@'' (u_netloc parts) = (userinfo, signed, hostport)"
    by (cases "rpartition_at CHR ''@'' (u_netloc parts)")
  obtain user secret where cr: "credentials unquote signed userinfo = (user, secret)" by fastforce
  obtain h_text p_text b where "split_hostport hostport = Inr (h_text, p_text, b)"
    using assms(2) u r by (auto simp: parse_endpoint_def Let_def bind_result_eq_Inr split: if_splits)
  then obtain p h k where p: "port_of p_text (u_scheme parts) (\<not> has_sub ''://'' (strip a)) = Inr p"
    and h: "host_of idna h_text b = Inr (h, k)"
    and e: "e = \<lparr>scheme = u_scheme parts, host = h, port = p, endpoint_key = k @ '':'' @ show_nat p,
              auth_user = user, auth_secret = secret, raw = a\<rparr>"
    using assms(2) u r cr by (auto simp: parse_endpoint_def Let_def bind_result_eq_Inr split: if_splits)
  note hk = host_of_key [OF assms(1) h]
  show "endpoint_key e = key_of (host e) @ CHR '':'' # show_nat (port e)"
    "CHR ''['' \<notin> set (host e) \<or> CHR '':'' \<in> set (host e)"
    "1 \<le> port e \<and> port e \<le> 65535"
    "scheme e = ''http'' \<or> scheme e = ''https''"
    using hk e port_of_range [OF p has] has by (auto simp: SCHEME_PORTS_def dict_has_def split: if_splits)
qed

text \<open>Two addresses operators typed have the same key exactly when they name the same stored host
  and port, however they were spelled, with whatever scheme or credentials; and an accepted
  endpoint is http or https on a port from 1 to 65535.\<close>

theorem endpoint_identity:
  assumes "plain_names idna"
    and "parse_endpoint idna unquote a = Inr e" and "parse_endpoint idna unquote b = Inr f"
  shows "(endpoint_key e = endpoint_key f \<longleftrightarrow> host e = host f \<and> port e = port f) \<and>
    (scheme e = ''http'' \<or> scheme e = ''https'') \<and> 1 \<le> port e \<and> port e \<le> 65535"
proof -
  note pe = parse_endpoint_parts [OF assms(1,2)] and pf = parse_endpoint_parts [OF assms(1,3)]
  have "endpoint_key e = endpoint_key f \<longleftrightarrow> host e = host f \<and> port e = port f"
  proof
    assume "endpoint_key e = endpoint_key f"
    then have "key_of (host e) = key_of (host f) \<and> show_nat (port e) = show_nat (port f)"
      using pe(1) pf(1) by (metis append_colon_inj show_nat_no_colon(1))
    then show "host e = host f \<and> port e = port f"
      using key_of_inj [OF pe(2) pf(2)] by (simp add: show_nat_inj)
  qed (simp add: pe(1) pf(1))
  then show ?thesis using pe by blast
qed

definition sample_idna :: "string \<Rightarrow> string option" where
  "sample_idna s = (if list_all (\<lambda>c. is_alpha_ascii c \<or> is_digit c \<or> c = CHR ''-'' \<or> c = CHR ''.'') s
     then Some (lower s) else None)"

lemma lower_char_plain:
  assumes "is_alpha_ascii c \<or> is_digit c \<or> c = CHR ''-'' \<or> c = CHR ''.''"
  shows "lower_char c \<noteq> CHR '':''" and "lower_char c \<noteq> CHR ''[''"
proof -
  have "code (CHR '':'') = 58" "code (CHR ''['') = 91" by (simp_all add: code_def)
  moreover have "code (lower_char c) \<noteq> 58 \<and> code (lower_char c) \<noteq> 91"
    using assms by (auto simp: lower_char_def Let_def code_def is_alpha_ascii_def is_upper_ascii_def is_lower_ascii_def is_digit_def)
  ultimately show "lower_char c \<noteq> CHR '':''" "lower_char c \<noteq> CHR ''[''" by fastforce+
qed

lemma sample_idna_plain: "plain_names sample_idna"
  unfolding plain_names_def
proof (intro allI impI)
  fix s t
  assume t: "sample_idna s = Some t"
  let ?P = "\<lambda>c. is_alpha_ascii c \<or> is_digit c \<or> c = CHR ''-'' \<or> c = CHR ''.''"
  have p: "list_all ?P s" and m: "t = map lower_char s"
    using t by (simp_all add: sample_idna_def lower_def split: if_splits)
  show "CHR '':'' \<notin> set t \<and> CHR ''['' \<notin> set t"
    using p unfolding m
  proof (induction s)
    case (Cons c s)
    from Cons.prems have c: "?P c" and s: "list_all ?P s" by (simp_all only: list.pred_inject simp_thms)
    show ?case using Cons.IH [OF s] lower_char_plain [OF c] by (metis list.simps(9) set_ConsD)
  qed simp
qed

definition parsed_endpoint :: polled_endpoint where
  "parsed_endpoint = \<lparr>scheme = ''http'', host = ''radar.example'', port = 80, endpoint_key = ''radar.example:80'',
     auth_user = None, auth_secret = None, raw = ''http://radar.example/''\<rparr>"

lemma sample_host: "host_of sample_idna ''radar.example'' False = Inr (''radar.example'', ''radar.example'')" "show_nat 80 = ''80''"
  by code_simp+

lemma sample_parse: "parse_endpoint sample_idna id ''http://radar.example/'' = Inr parsed_endpoint"
proof -
  let ?t = "''http://radar.example/''"
  have t1: "strip ?t = ?t" by code_simp
  have t2: "list_ex (\<lambda>c. is_space c \<or> unprintable c) ?t = False" by code_simp
  have t3: "split_scheme ?t = ?t" by code_simp
  have t4: "urlsplit ?t = Some \<lparr>u_scheme = ''http'', u_netloc = ''radar.example'', u_path = ''/'', u_query = [], u_fragment = []\<rparr>"
    by code_simp
  have t5: "rpartition_at CHR ''@'' ''radar.example'' = ([], False, ''radar.example'')" by code_simp
  have t6: "split_hostport ''radar.example'' = Inr (''radar.example'', None, False)" by code_simp
  have t7: "has_sub ''://'' ?t = True" by code_simp
  have t8: "port_of None ''http'' False = Inr 80" by (simp add: port_of_def SCHEME_PORTS_def dict_get_default_def)
  show ?thesis
    unfolding parse_endpoint_def Let_def t1 t2 t3 t4 t7
    by (simp add: t5 t6 t8 sample_host MAX_RAW_LENGTH_def SCHEME_PORTS_def dict_has_def credentials_def parsed_endpoint_def)
qed

theorem endpoint_identity_witness:
  "\<exists>e f. parse_endpoint sample_idna id ''http://radar.example/'' = Inr e \<and>
     parse_endpoint sample_idna id ''radar.example:80'' = Inr f \<and>
     (endpoint_key e = endpoint_key f \<longleftrightarrow> host e = host f \<and> port e = port f)"
proof -
  let ?f = "\<lparr>scheme = ''http'', host = ''radar.example'', port = 80, endpoint_key = ''radar.example:80'',
     auth_user = None, auth_secret = None, raw = ''radar.example:80''\<rparr>"
  let ?b = "''radar.example:80''"
  have b1: "strip ?b = ?b" by code_simp
  have b2: "list_ex (\<lambda>c. is_space c \<or> unprintable c) ?b = False" by code_simp
  have b3: "split_scheme ?b = ''http://radar.example:80''" by code_simp
  have b4: "urlsplit ''http://radar.example:80'' = Some \<lparr>u_scheme = ''http'', u_netloc = ''radar.example:80'', u_path = [],
      u_query = [], u_fragment = []\<rparr>" by code_simp
  have b5: "rpartition_at CHR ''@'' ''radar.example:80'' = ([], False, ''radar.example:80'')" by code_simp
  have b6: "split_hostport ''radar.example:80'' = Inr (''radar.example'', Some ''80'', False)" by code_simp
  have b7: "has_sub ''://'' ?b = False" by code_simp
  have b8: "port_of (Some ''80'') ''http'' True = Inr 80"
    by (simp add: port_of_def is_digit_def code_def nat_of_digits_def)
  have f: "parse_endpoint sample_idna id ?b = Inr ?f"
    unfolding parse_endpoint_def Let_def b1 b2 b3 b4 b7
    by (simp add: b5 b6 b8 sample_host MAX_RAW_LENGTH_def SCHEME_PORTS_def dict_has_def credentials_def)
  show ?thesis using endpoint_identity [OF sample_idna_plain sample_parse f] sample_parse f by blast
qed

end
