(* ===== verification/Blah2.thy ===== *)
theory Blah2
  imports Endpoint NodeConfig
begin

text \<open>
  The probe of a stock blah2 radar (\<open>services/blah2_probe.py\<close>): what its \<open>/api/config\<close> and
  \<open>/api/detection\<close> bodies must say, the fingerprint of what it declares, and the three reads
  that judge it live.

  \<open>loads\<close> is \<open>json.loads\<close> on a body, \<open>None\<close> where it raises; \<open>digest\<close> is SHA-256 in hex of a
  value's canonical dump.  Times on the radar's clock are whole milliseconds.
\<close>

subsection \<open>Refusals and declarations\<close>

datatype radar_refusal =
    Unreached refusal_code
  | BLAH2_ARM | NOT_BLAH2 | EXAMPLE_CONFIG | NO_DETECTION_YET | STALLED | CLOCK_OFFSET
  | DivisionOverflow \<comment> \<open>no refusal but the \<open>OverflowError\<close> of a timestamp too large to divide\<close>

record site =
  latitude :: real
  longitude :: real
  altitude_m :: real
  site_name :: "string option"

record blah2_config =
  b_rx :: site
  b_tx :: site
  b_fc_hz :: real
  b_fs_hz :: "real option"
  b_cpi_s :: "real option"

record blah2_frame =
  timestamp_ms :: int
  delay_km :: "real list"
  doppler_hz :: "real list"
  snr_db :: "real list"

definition CONFIG_PATH :: string where "CONFIG_PATH = ''/api/config''"
definition DETECTION_PATH :: string where "DETECTION_PATH = ''/api/detection''"
definition CONFIG_MAX_BYTES :: nat where "CONFIG_MAX_BYTES = 64 * 1024"
definition DETECTION_MAX_BYTES :: nat where "DETECTION_MAX_BYTES = 256 * 1024"
definition MIN_FRESHNESS_GAP_S :: real where "MIN_FRESHNESS_GAP_S = 1.75"
definition MAX_FRESHNESS_GAP_S :: real where "MAX_FRESHNESS_GAP_S = 5"
definition MAX_CLOCK_OFFSET_S :: real where "MAX_CLOCK_OFFSET_S = 10"

definition EXAMPLE_RX :: "real \<times> real \<times> real" where "EXAMPLE_RX = (-34.9286, 138.5999, 50)"
definition EXAMPLE_TX :: "real \<times> real \<times> real" where "EXAMPLE_TX = (-34.9810, 138.7081, 750)"
definition EXAMPLE_TOLERANCE_DEG :: real where "EXAMPLE_TOLERANCE_DEG = 1 / 10000"
definition EXAMPLE_TOLERANCE_M :: real where "EXAMPLE_TOLERANCE_M = 1"

definition finite_number :: "json \<Rightarrow> real option" where
  "finite_number v = (case as_finite_float v of Inl _ \<Rightarrow> None | Inr x \<Rightarrow> Some x)"

definition positive_number :: "json \<Rightarrow> real option" where
  "positive_number v = (case finite_number v of Some x \<Rightarrow> if 0 < x then Some x else None | None \<Rightarrow> None)"

subsection \<open>\<open>/api/config\<close>\<close>

text \<open>\<open>d.get(k)\<close> where the value must be an object.\<close>

definition get_object :: "(string, json) dict \<Rightarrow> string \<Rightarrow> (string, json) dict option" where
  "get_object d k = (case py_get d k of JObj o' \<Rightarrow> Some o' | _ \<Rightarrow> None)"

definition string_value :: "json \<Rightarrow> string option" where
  "string_value v = (case v of JStr s \<Rightarrow> Some s | _ \<Rightarrow> None)"

definition read_site :: "(string, json) dict \<Rightarrow> string \<Rightarrow> radar_refusal + site" where
  "read_site location key =
     (case get_object location key of
        None \<Rightarrow> Inl NOT_BLAH2
      | Some s \<Rightarrow>
          (let lat = finite_number (py_get s ''latitude'');
               lon = finite_number (py_get s ''longitude'');
               alt = finite_number (py_get s ''altitude'')
           in if lat = None \<or> \<not> (-90 \<le> the lat \<and> the lat \<le> 90) then Inl NOT_BLAH2
              else if lon = None \<or> \<not> (-180 \<le> the lon \<and> the lon \<le> 180) then Inl NOT_BLAH2
              else if alt = None then Inl NOT_BLAH2
              else Inr \<lparr>latitude = the lat, longitude = the lon, altitude_m = the alt,
                        site_name = string_value (py_get s ''name'')\<rparr>))"

definition is_blah2_arm :: "(string, json) dict \<Rightarrow> bool" where
  "is_blah2_arm payload \<longleftrightarrow>
     set (dict_keys payload) = {''truth''} \<and>
     (case Option.bind (get_object payload ''truth'') (\<lambda>t. get_object t ''adsb'') of
        Some adsb \<Rightarrow> dict_has adsb ''enabled''
      | None \<Rightarrow> False)"

definition is_example :: "site \<Rightarrow> real \<times> real \<times> real \<Rightarrow> bool" where
  "is_example s ex \<longleftrightarrow> (case ex of (lat, lon, alt) \<Rightarrow>
     \<bar>latitude s - lat\<bar> \<le> EXAMPLE_TOLERANCE_DEG \<and> \<bar>longitude s - lon\<bar> \<le> EXAMPLE_TOLERANCE_DEG \<and>
     \<bar>altitude_m s - alt\<bar> \<le> EXAMPLE_TOLERANCE_M)"

definition parse_config :: "json \<Rightarrow> radar_refusal + blah2_config" where
  "parse_config payload = (case payload of
     JObj d \<Rightarrow>
       if is_blah2_arm d then Inl BLAH2_ARM
       else
         (case get_object d ''location'' of
            None \<Rightarrow> Inl NOT_BLAH2
          | Some location \<Rightarrow>
              bind_result (read_site location ''rx'') (\<lambda>rx.
              bind_result (read_site location ''tx'') (\<lambda>tx.
                (case Option.bind (get_object d ''capture'') (\<lambda>c. positive_number (py_get c ''fc'')) of
                   None \<Rightarrow> Inl NOT_BLAH2
                 | Some fc \<Rightarrow>
                     (let capture = the (get_object d ''capture'');
                          fs = positive_number (py_get capture ''fs'');
                          cpi = Option.bind (get_object d ''process'') (\<lambda>p.
                                  Option.bind (get_object p ''data'') (\<lambda>q. positive_number (py_get q ''cpi'')))
                      in if is_example rx EXAMPLE_RX \<and> is_example tx EXAMPLE_TX then Inl EXAMPLE_CONFIG
                         else Inr \<lparr>b_rx = rx, b_tx = tx, b_fc_hz = fc, b_fs_hz = fs, b_cpi_s = cpi\<rparr>)))))
   | _ \<Rightarrow> Inl NOT_BLAH2)"

definition read_config :: "(string \<Rightarrow> json option) \<Rightarrow> string \<Rightarrow> radar_refusal + blah2_config" where
  "read_config loads text = (case loads text of None \<Rightarrow> Inl NOT_BLAH2 | Some v \<Rightarrow> parse_config v)"

text \<open>The value whose sorted dump is hashed.\<close>

definition site_value :: "site \<Rightarrow> json" where
  "site_value s = JObj
     [(''altitude'', JFloat (Fin (altitude_m s))), (''latitude'', JFloat (Fin (latitude s))),
      (''longitude'', JFloat (Fin (longitude s))),
      (''name'', case site_name s of None \<Rightarrow> JNull | Some n \<Rightarrow> JStr n)]"

definition canonical_value :: "blah2_config \<Rightarrow> json" where
  "canonical_value c = JObj [(''fc'', JFloat (Fin (b_fc_hz c))), (''rx'', site_value (b_rx c)), (''tx'', site_value (b_tx c))]"

definition fingerprint :: "(json \<Rightarrow> string) \<Rightarrow> blah2_config \<Rightarrow> string" where
  "fingerprint digest c = digest (canonical_value c)"

definition config_fingerprint :: "(json \<Rightarrow> string) \<Rightarrow> json \<Rightarrow> radar_refusal + string" where
  "config_fingerprint digest payload = bind_result (parse_config payload) (\<lambda>c. Inr (fingerprint digest c))"

subsection \<open>\<open>/api/detection\<close>\<close>

definition blank_byte :: "char \<Rightarrow> bool" where
  "blank_byte c \<longleftrightarrow> 9 \<le> code c \<and> code c \<le> 13 \<or> code c = 32"

definition read_numbers :: "(string, json) dict \<Rightarrow> string \<Rightarrow> radar_refusal + real list" where
  "read_numbers d key =
     (case py_get d key of
        JArr vs \<Rightarrow> (case traverse finite_number vs of None \<Rightarrow> Inl NOT_BLAH2 | Some xs \<Rightarrow> Inr xs)
      | _ \<Rightarrow> Inl NOT_BLAH2)"

definition parse_detection :: "(string \<Rightarrow> json option) \<Rightarrow> string \<Rightarrow> radar_refusal + blah2_frame" where
  "parse_detection loads text =
     (if list_all blank_byte text then Inl NO_DETECTION_YET
      else
        (case loads (if has_prefix ''undefined{'' text then drop 9 text else text) of
           Some (JObj d) \<Rightarrow>
             (case py_get d ''timestamp'' of
                JInt t \<Rightarrow>
                  if t \<le> 0 then Inl NOT_BLAH2
                  else
                    bind_result (read_numbers d ''delay'') (\<lambda>delay.
                    bind_result (read_numbers d ''doppler'') (\<lambda>doppler.
                    bind_result (read_numbers d ''snr'') (\<lambda>snr.
                      if length delay = length doppler \<and> length doppler = length snr
                      then Inr \<lparr>timestamp_ms = t, delay_km = delay, doppler_hz = doppler, snr_db = snr\<rparr>
                      else Inl NOT_BLAH2)))
              | _ \<Rightarrow> Inl NOT_BLAH2)
         | _ \<Rightarrow> Inl NOT_BLAH2))"

subsection \<open>The probe\<close>

definition freshness_gap_s :: "real option \<Rightarrow> real" where
  "freshness_gap_s cpi =
     (case cpi of
        None \<Rightarrow> MIN_FRESHNESS_GAP_S
      | Some c \<Rightarrow> min (max MIN_FRESHNESS_GAP_S (2 * c)) MAX_FRESHNESS_GAP_S)"

text \<open>\<open>round(x, 3)\<close>, halves to even.\<close>

definition round3 :: "real \<Rightarrow> real" where
  "round3 x =
     (let y = x * 1000; n = \<lfloor>y\<rfloor>; d = y - of_int n
      in of_int (if d < 1 / 2 \<or> (d = 1 / 2 \<and> even n) then n else n + 1) / 1000)"

record blah2_probe =
  p_endpoint :: polled_endpoint
  p_config :: blah2_config
  p_fingerprint :: string
  p_address :: "ip option"
  p_clock_offset_s :: real

text \<open>
  What the world does during one probe: how the name resolves, what each of the three reads meets,
  how many of the awaited steps (vetting, two reads, the wait, the last read) end before
  \<open>PROBE_DEADLINE_S\<close>, and the server's clock after the last.
\<close>

record probe_world =
  resolver :: "string \<Rightarrow> nat \<Rightarrow> ip list option"
  policy :: "refusal_code + (ip \<Rightarrow> bool)"
  net_config :: "request \<Rightarrow> outcome"
  net_first :: "request \<Rightarrow> outcome"
  net_latest :: "request \<Rightarrow> outcome"
  finished :: nat
  received :: real

definition unreached :: "refusal_code + 'a \<Rightarrow> radar_refusal + 'a" where
  "unreached r = (case r of Inl c \<Rightarrow> Inl (Unreached c) | Inr x \<Rightarrow> Inr x)"

definition judge ::
    "(json \<Rightarrow> string) \<Rightarrow> polled_endpoint \<Rightarrow> ip option \<Rightarrow> blah2_config \<Rightarrow> blah2_frame \<Rightarrow> blah2_frame \<Rightarrow> real
     \<Rightarrow> radar_refusal + blah2_probe" where
  "judge digest e addr config first latest now =
     (if timestamp_ms latest \<le> timestamp_ms first then Inl STALLED
      else
        (let seconds = of_int (timestamp_ms latest) / 1000; offset = seconds - now in
         if of_int float_overflow \<le> seconds then Inl DivisionOverflow
         else if \<bar>offset\<bar> > MAX_CLOCK_OFFSET_S then Inl CLOCK_OFFSET
         else Inr \<lparr>p_endpoint = e, p_config = config, p_fingerprint = fingerprint digest config,
                   p_address = addr, p_clock_offset_s = round3 offset\<rparr>))"

definition probe_blah2 ::
    "(string \<Rightarrow> json option) \<Rightarrow> (json \<Rightarrow> string) \<Rightarrow> probe_world \<Rightarrow> polled_endpoint
     \<Rightarrow> request list \<times> (radar_refusal + blah2_probe)" where
  "probe_blah2 loads digest w e =
     (if finished w = 0 then ([], Inl (Unreached TIMED_OUT))
      else case open_client (resolver w) (policy w) e of
        Inl c \<Rightarrow> ([], Inl (Unreached c))
      | Inr c0 \<Rightarrow>
     (case client_get (net_config w) CONFIG_PATH CONFIG_MAX_BYTES c0 of (c1, rs1, out1) \<Rightarrow>
      if finished w = 1 then (rs1, Inl (Unreached TIMED_OUT))
      else case bind_result (unreached out1) (read_config loads) of
        Inl x \<Rightarrow> (rs1, Inl x)
      | Inr config \<Rightarrow>
     (case client_get (net_first w) DETECTION_PATH DETECTION_MAX_BYTES c1 of (c2, rs2, out2) \<Rightarrow>
      if finished w = 2 then (rs1 @ rs2, Inl (Unreached TIMED_OUT))
      else case bind_result (unreached out2) (parse_detection loads) of
        Inl x \<Rightarrow> (rs1 @ rs2, Inl x)
      | Inr first \<Rightarrow>
      if finished w = 3 then (rs1 @ rs2, Inl (Unreached TIMED_OUT))
      else
     (case client_get (net_latest w) DETECTION_PATH DETECTION_MAX_BYTES c2 of (c3, rs3, out3) \<Rightarrow>
      if finished w = 4 then (rs1 @ rs2 @ rs3, Inl (Unreached TIMED_OUT))
      else case bind_result (unreached out3) (parse_detection loads) of
        Inl x \<Rightarrow> (rs1 @ rs2 @ rs3, Inl x)
      | Inr latest \<Rightarrow> (rs1 @ rs2 @ rs3, judge digest e (address c3) config first latest (received w))))))"

subsection \<open>What an accepted declaration is\<close>

definition site_ok :: "site \<Rightarrow> bool" where
  "site_ok s \<longleftrightarrow> -90 \<le> latitude s \<and> latitude s \<le> 90 \<and> -180 \<le> longitude s \<and> longitude s \<le> 180"

definition declaration_ok :: "blah2_config \<Rightarrow> bool" where
  "declaration_ok c \<longleftrightarrow> site_ok (b_rx c) \<and> site_ok (b_tx c) \<and> 0 < b_fc_hz c \<and>
     pred_option ((<) 0) (b_fs_hz c) \<and> pred_option ((<) 0) (b_cpi_s c) \<and>
     \<not> (is_example (b_rx c) EXAMPLE_RX \<and> is_example (b_tx c) EXAMPLE_TX)"

lemma read_site_ok: "read_site d k = Inr s \<Longrightarrow> site_ok s"
  by (auto simp: read_site_def site_ok_def Let_def split: option.splits if_splits)

lemma positive_number_pos: "positive_number v = Some x \<Longrightarrow> 0 < x"
  by (auto simp: positive_number_def split: option.splits if_splits)

lemma pred_positive: "pred_option ((<) 0) (positive_number v)"
  using positive_number_pos by (cases "positive_number v") auto

lemma parse_config_ok:
  assumes "parse_config v = Inr c" shows "declaration_ok c"
proof -
  obtain d location rx tx fc where d: "v = JObj d" and rx: "read_site location ''rx'' = Inr rx"
    and tx: "read_site location ''tx'' = Inr tx"
    and fc: "Option.bind (get_object d ''capture'') (\<lambda>c. positive_number (py_get c ''fc'')) = Some fc"
    and c: "b_rx c = rx" "b_tx c = tx" "b_fc_hz c = fc"
      "b_fs_hz c = positive_number (py_get (the (get_object d ''capture'')) ''fs'')"
      "b_cpi_s c = Option.bind (get_object d ''process'') (\<lambda>p. Option.bind (get_object p ''data'')
         (\<lambda>q. positive_number (py_get q ''cpi'')))"
    and example: "\<not> (is_example rx EXAMPLE_RX \<and> is_example tx EXAMPLE_TX)"
    using assms by (auto simp: parse_config_def bind_result_eq_Inr Let_def split: json.splits option.splits if_splits)
  have "0 < fc" using fc positive_number_pos by (cases "get_object d ''capture''") auto
  moreover have "pred_option ((<) 0) (b_cpi_s c)"
    unfolding c(5) by (cases "get_object d ''process''"; cases "get_object (the (get_object d ''process'')) ''data''")
      (simp_all add: pred_positive)
  ultimately show ?thesis
    using read_site_ok [OF rx] read_site_ok [OF tx] c example by (simp add: declaration_ok_def pred_positive)
qed

lemma read_config_ok: "read_config loads b = Inr c \<Longrightarrow> declaration_ok c"
  using parse_config_ok by (auto simp: read_config_def split: option.splits)

lemma parse_detection_ok:
  "parse_detection loads b = Inr f \<Longrightarrow>
     0 < timestamp_ms f \<and> length (delay_km f) = length (doppler_hz f) \<and> length (doppler_hz f) = length (snr_db f)"
  by (auto simp: parse_detection_def bind_result_eq_Inr split: option.splits json.splits if_splits)

subsection \<open>What the fingerprint follows\<close>

lemma canonical_value_eq:
  "canonical_value c = canonical_value c' \<longleftrightarrow> b_rx c = b_rx c' \<and> b_tx c = b_tx c' \<and> b_fc_hz c = b_fc_hz c'"
proof -
  have "site_value s = site_value s' \<longleftrightarrow> s = s'" for s s' :: site
    by (cases s; cases s') (auto simp: site_value_def split: option.splits)
  then show ?thesis by (auto simp: canonical_value_def)
qed

text \<open>Where the digest does not collide on them, two accepted declarations have the same fingerprint exactly when they give the same two
  sites, names included, and the same centre frequency: a change of sampling rate or CPI never
  moves it and nothing else is ignored.  An accepted declaration lies on the globe, has positive
  rates and is not the shipped example.\<close>

theorem fingerprint_follows_declaration:
  assumes "parse_config v = Inr c" and "parse_config v' = Inr c'"
    and "inj_on digest {canonical_value c, canonical_value c'}"
  shows "(config_fingerprint digest v = config_fingerprint digest v' \<longleftrightarrow>
      b_rx c = b_rx c' \<and> b_tx c = b_tx c' \<and> b_fc_hz c = b_fc_hz c') \<and> declaration_ok c"
  using assms parse_config_ok [OF assms(1)]
  by (auto simp: config_fingerprint_def fingerprint_def inj_on_eq_iff [OF assms(3)] canonical_value_eq)

definition sample_site :: "json" where
  "sample_site = JObj [(''latitude'', JFloat (Fin 51)), (''longitude'', JInt 4), (''altitude'', JInt 30)]"

definition sample_config :: "int \<Rightarrow> json \<Rightarrow> json" where
  "sample_config fc fs = JObj [(''capture'', JObj [(''fc'', JInt fc), (''fs'', fs)]),
     (''location'', JObj [(''rx'', sample_site), (''tx'', sample_site)])]"

definition sample_declared :: "real \<Rightarrow> real option \<Rightarrow> blah2_config" where
  "sample_declared fc fs = (let s = \<lparr>latitude = 51, longitude = 4, altitude_m = 30, site_name = None\<rparr>
     in \<lparr>b_rx = s, b_tx = s, b_fc_hz = fc, b_fs_hz = fs, b_cpi_s = None\<rparr>)"

lemma sample_config_parsed:
  "parse_config (sample_config 204640000 (JInt 2000000)) = Inr (sample_declared 204640000 (Some 2000000))"
  "parse_config (sample_config 204640000 JNull) = Inr (sample_declared 204640000 None)"
  "parse_config (sample_config 98000000 JNull) = Inr (sample_declared 98000000 None)"
  by (simp_all add: parse_config_def sample_config_def sample_site_def sample_declared_def is_blah2_arm_def get_object_def
      py_get_def dict_get_def dict_keys_def read_site_def Let_def finite_number_def positive_number_def float_of_int_def
      float_overflow_def string_value_def is_example_def EXAMPLE_RX_def EXAMPLE_TOLERANCE_DEG_def)

theorem fingerprint_follows_declaration_witness:
  "\<exists>digest.
     config_fingerprint digest (sample_config 204640000 (JInt 2000000)) = config_fingerprint digest (sample_config 204640000 JNull) \<and>
     config_fingerprint digest (sample_config 204640000 JNull) \<noteq> config_fingerprint digest (sample_config 98000000 JNull) \<and>
     declaration_ok (sample_declared 204640000 None)"
proof -
  let ?digest = "\<lambda>v. if v = canonical_value (sample_declared 98000000 None) then ''b'' else ''a''"
  have ne: "canonical_value (sample_declared 204640000 None) \<noteq> canonical_value (sample_declared 98000000 None)"
    by (simp add: canonical_value_eq sample_declared_def Let_def)
  have eq: "canonical_value (sample_declared 204640000 (Some 2000000)) = canonical_value (sample_declared 204640000 None)"
    by (simp add: canonical_value_eq sample_declared_def Let_def)
  have "config_fingerprint ?digest (sample_config 204640000 (JInt 2000000)) = config_fingerprint ?digest (sample_config 204640000 JNull)"
    using fingerprint_follows_declaration [OF sample_config_parsed(1,2), of ?digest] eq
    by (simp add: sample_declared_def Let_def)
  moreover have "config_fingerprint ?digest (sample_config 204640000 JNull) \<noteq> config_fingerprint ?digest (sample_config 98000000 JNull)
      \<and> declaration_ok (sample_declared 204640000 None)"
    using fingerprint_follows_declaration [OF sample_config_parsed(2,3), of ?digest] ne
    by (auto simp: inj_on_def sample_declared_def Let_def)
  ultimately show ?thesis by blast
qed

subsection \<open>What a probe asks and accepts\<close>

text \<open>A request a probe makes: one of the two paths, to a vetted address.\<close>

definition probe_request :: "(ip \<Rightarrow> bool) \<Rightarrow> polled_endpoint \<Rightarrow> request \<Rightarrow> bool" where
  "probe_request may e r \<longleftrightarrow> (\<exists>a path. may a \<and> path \<in> {CONFIG_PATH, DETECTION_PATH} \<and> r = build_request e a path)"

lemma client_get_probe_request:
  assumes "client_ok may e c" and "client_get net path mb c = (c', rs, out)" and "path \<in> {CONFIG_PATH, DETECTION_PATH}"
  shows "client_ok may e c'" and "list_all (probe_request may e) rs"
  using client_get_ok [OF assms(1,2)] assms(3) unfolding list_all_iff probe_request_def by blast+

lemma unreached_Inr [simp]: "unreached r = Inr x \<longleftrightarrow> r = Inr x"
  by (cases r) (simp_all add: unreached_def)

lemma judge_Inr:
  assumes "judge digest e addr config first latest now = Inr p"
  shows "timestamp_ms first < timestamp_ms latest \<and>
    \<bar>of_int (timestamp_ms latest) / 1000 - now\<bar> \<le> MAX_CLOCK_OFFSET_S \<and>
    p_endpoint p = e \<and> p_config p = config \<and> p_fingerprint p = fingerprint digest config \<and> p_address p = addr"
  using assms by (auto simp: judge_def Let_def not_le split: if_splits)

lemma probe_blah2_requests:
  assumes "policy w = Inr may"
  shows "list_all (probe_request may e) (fst (probe_blah2 loads digest w e))"
proof (cases "finished w = 0 \<or> (\<exists>x. open_client (resolver w) (policy w) e = Inl x)")
  case True
  then show ?thesis by (auto simp: probe_blah2_def)
next
  case False
  then obtain c0 where c0: "open_client (resolver w) (policy w) e = Inr c0" "finished w \<noteq> 0"
    by (cases "open_client (resolver w) (policy w) e") auto
  have ok0: "client_ok may e c0" using c0 assms by (auto intro: open_client_ok)
  obtain c1 rs1 o1 where 1: "client_get (net_config w) CONFIG_PATH CONFIG_MAX_BYTES c0 = (c1, rs1, o1)"
    by (cases "client_get (net_config w) CONFIG_PATH CONFIG_MAX_BYTES c0")
  obtain c2 rs2 o2 where 2: "client_get (net_first w) DETECTION_PATH DETECTION_MAX_BYTES c1 = (c2, rs2, o2)"
    by (cases "client_get (net_first w) DETECTION_PATH DETECTION_MAX_BYTES c1")
  obtain c3 rs3 o3 where 3: "client_get (net_latest w) DETECTION_PATH DETECTION_MAX_BYTES c2 = (c3, rs3, o3)"
    by (cases "client_get (net_latest w) DETECTION_PATH DETECTION_MAX_BYTES c2")
  note r1 = client_get_probe_request [OF ok0 1, simplified]
  note r2 = client_get_probe_request [OF r1(1) 2, simplified]
  note r3 = client_get_probe_request [OF r2(1) 3, simplified]
  have "fst (probe_blah2 loads digest w e) \<in> {rs1, rs1 @ rs2, rs1 @ rs2 @ rs3}"
    using c0 1 2 3 by (simp add: probe_blah2_def split: sum.split)
  then show ?thesis using r1 r2 r3 by auto
qed

lemma probe_blah2_Inr:
  assumes "snd (probe_blah2 loads digest w e) = Inr p"
  obtains config first latest text1 text2 text3 where
    "read_config loads text1 = Inr config" "parse_detection loads text2 = Inr first"
    "parse_detection loads text3 = Inr latest"
    "judge digest e (p_address p) config first latest (received w) = Inr p"
proof -
  obtain c0 where c0: "open_client (resolver w) (policy w) e = Inr c0" "finished w \<noteq> 0"
    using assms by (cases "open_client (resolver w) (policy w) e") (auto simp: probe_blah2_def split: if_splits)
  obtain c1 rs1 o1 where 1: "client_get (net_config w) CONFIG_PATH CONFIG_MAX_BYTES c0 = (c1, rs1, o1)"
    by (cases "client_get (net_config w) CONFIG_PATH CONFIG_MAX_BYTES c0")
  obtain c2 rs2 o2 where 2: "client_get (net_first w) DETECTION_PATH DETECTION_MAX_BYTES c1 = (c2, rs2, o2)"
    by (cases "client_get (net_first w) DETECTION_PATH DETECTION_MAX_BYTES c1")
  obtain c3 rs3 o3 where 3: "client_get (net_latest w) DETECTION_PATH DETECTION_MAX_BYTES c2 = (c3, rs3, o3)"
    by (cases "client_get (net_latest w) DETECTION_PATH DETECTION_MAX_BYTES c2")
  obtain config where config: "bind_result (unreached o1) (read_config loads) = Inr config" and f1: "finished w \<noteq> 1"
    using assms c0 1 2 by (cases "bind_result (unreached o1) (read_config loads)") (auto simp: probe_blah2_def split: if_splits)
  obtain first where first: "bind_result (unreached o2) (parse_detection loads) = Inr first" and f2: "finished w \<noteq> 2" "finished w \<noteq> 3"
    using assms c0 1 2 config f1
    by (cases "bind_result (unreached o2) (parse_detection loads)") (auto simp: probe_blah2_def split: if_splits)
  obtain latest where latest: "bind_result (unreached o3) (parse_detection loads) = Inr latest"
    and j: "judge digest e (address c3) config first latest (received w) = Inr p"
    using assms c0 1 2 3 config f1 first f2
    by (cases "bind_result (unreached o3) (parse_detection loads)") (auto simp: probe_blah2_def split: if_splits)
  have "p_address p = address c3" using judge_Inr [OF j] by simp
  then show ?thesis using that config first latest j by (auto simp: bind_result_eq_Inr)
qed

text \<open>A probe never asks a radar for anything but its configuration and detection paths, and
  only at addresses the policy passes.  It accepts a radar only when the declaration it fingerprints
  is one a stock blah2 with its own sites makes, and when two detection reads of it advanced and the
  later is within ten seconds of the server's clock.\<close>

theorem probe_accepts_live_radars:
  assumes "policy w = Inr may" and "probe_blah2 loads digest w e = (rs, out)"
  shows "list_all (probe_request may e) rs \<and>
    (\<forall>p. out = Inr p \<longrightarrow> p_endpoint p = e \<and> declaration_ok (p_config p) \<and>
       p_fingerprint p = fingerprint digest (p_config p) \<and>
       (\<exists>text1 text2 first latest. parse_detection loads text1 = Inr first \<and> parse_detection loads text2 = Inr latest \<and>
          timestamp_ms first < timestamp_ms latest \<and>
          \<bar>of_int (timestamp_ms latest) / 1000 - received w\<bar> \<le> MAX_CLOCK_OFFSET_S))"
proof (intro conjI allI impI)
  show "list_all (probe_request may e) rs" using probe_blah2_requests [OF assms(1)] assms(2) by (metis fst_conv)
next
  fix p
  assume "out = Inr p"
  then have "snd (probe_blah2 loads digest w e) = Inr p" using assms(2) by simp
  then obtain config first latest text1 text2 text3 where
    c: "read_config loads text1 = Inr config" and d: "parse_detection loads text2 = Inr first"
    "parse_detection loads text3 = Inr latest"
    and j: "judge digest e (p_address p) config first latest (received w) = Inr p"
    by (rule probe_blah2_Inr)
  note j' = judge_Inr [OF j]
  show "p_endpoint p = e" "declaration_ok (p_config p)" "p_fingerprint p = fingerprint digest (p_config p)"
    using j' read_config_ok [OF c] by simp_all
  show "\<exists>text1 text2 first latest. parse_detection loads text1 = Inr first \<and> parse_detection loads text2 = Inr latest \<and>
          timestamp_ms first < timestamp_ms latest \<and>
          \<bar>of_int (timestamp_ms latest) / 1000 - received w\<bar> \<le> MAX_CLOCK_OFFSET_S"
    using d j' by blast
qed

definition sample_detection :: "int \<Rightarrow> json" where
  "sample_detection t = JObj [(''timestamp'', JInt t), (''delay'', JArr [JInt 20]), (''doppler'', JArr [JInt 80]), (''snr'', JArr [JInt 12])]"

definition sample_loads :: "string \<Rightarrow> json option" where
  "sample_loads t = (if t = ''c'' then Some (sample_config 204640000 JNull)
     else if t = ''1'' then Some (sample_detection 1000000) else Some (sample_detection 1001000))"

definition sample_answer :: "string \<Rightarrow> request \<Rightarrow> outcome" where
  "sample_answer text r = Answered \<lparr>status_code = 200, content_encoding = None, content_length = None, chunks = [text], broken = None\<rparr>"

definition sample_world :: probe_world where
  "sample_world = \<lparr>resolver = sample_resolver, policy = Inr (is_public_address []), net_config = sample_answer ''c'',
     net_first = sample_answer ''1'', net_latest = sample_answer ''2'', finished = 5, received = 1002\<rparr>"

definition sample_probe :: blah2_probe where
  "sample_probe = \<lparr>p_endpoint = sample_endpoint, p_config = sample_declared 204640000 None,
     p_fingerprint = ''f'', p_address = Some (V4 (quad 8 8 8 8)), p_clock_offset_s = round3 (- 1)\<rparr>"

lemma sample_probed: "\<exists>rs. probe_blah2 sample_loads (\<lambda>_. ''f'') sample_world sample_endpoint = (rs, Inr sample_probe)"
proof -
  have host: "ip_of_string (host sample_endpoint) = None"
    by (simp add: sample_endpoint_def ip_text_simps)
  have public: "is_public_address [] (V4 (quad 8 8 8 8))" "is_public_address [] (V6 (groups 0x2a00 0 0 0 + 1))"
    by (simp_all add: is_public_address_def public4_def in_any_def is_private4_def registry_simps carried_ipv4_def
        ipv4_mapped_def sixtofour_def)
  have client: "open_client sample_resolver (Inr (is_public_address [])) sample_endpoint =
      Inr \<lparr>c_endpoint = sample_endpoint, addresses = [V4 (quad 8 8 8 8), V6 (groups 0x2a00 0 0 0 + 1)], address = None\<rparr>"
    using public by (simp add: open_client_def vet_addresses_def host sample_resolver_def unique_def)
  have det: "parse_detection sample_loads ''1'' = Inr \<lparr>timestamp_ms = 1000000, delay_km = [20], doppler_hz = [80], snr_db = [12]\<rparr>"
    "parse_detection sample_loads ''2'' = Inr \<lparr>timestamp_ms = 1001000, delay_km = [20], doppler_hz = [80], snr_db = [12]\<rparr>"
    by (simp_all add: parse_detection_def sample_loads_def sample_detection_def blank_byte_def code_def py_get_def dict_get_def
        read_numbers_def finite_number_def float_of_int_def float_overflow_def)
  have cfg: "read_config sample_loads ''c'' = Inr (sample_declared 204640000 None)"
    by (simp add: read_config_def sample_loads_def sample_config_parsed)
  show ?thesis
    by (simp add: probe_blah2_def sample_world_def client client_get_def sample_answer_def read_body_def lower_def strip_def
        is_space_def code_def lower_char_def CONFIG_MAX_BYTES_def DETECTION_MAX_BYTES_def cfg det judge_def
        float_overflow_def MAX_CLOCK_OFFSET_S_def sample_probe_def fingerprint_def unreached_def)
qed

theorem probe_accepts_live_radars_witness:
  "\<exists>rs. probe_blah2 sample_loads (\<lambda>_. ''f'') sample_world sample_endpoint = (rs, Inr sample_probe) \<and>
     list_all (probe_request (is_public_address []) sample_endpoint) rs \<and> declaration_ok (p_config sample_probe)"
proof -
  obtain rs where rs: "probe_blah2 sample_loads (\<lambda>_. ''f'') sample_world sample_endpoint = (rs, Inr sample_probe)"
    using sample_probed by blast
  have "policy sample_world = Inr (is_public_address [])" by (simp add: sample_world_def)
  from probe_accepts_live_radars [OF this rs] rs show ?thesis by blast
qed

text \<open>A radar may answer with a timestamp no division by a thousand can hold.  \<open>parse_detection\<close>
  accepts it, and the probe ends in the \<open>OverflowError\<close> of the division, which is no refusal.\<close>

lemma huge_timestamp_overflows:
  assumes "timestamp_ms first < timestamp_ms latest" and "1000 * float_overflow \<le> timestamp_ms latest"
  shows "judge digest e addr config first latest now = Inl DivisionOverflow"
proof -
  have "real_of_int (1000 * float_overflow) \<le> of_int (timestamp_ms latest)" using assms(2) by (simp only: of_int_le_iff)
  then have "of_int float_overflow \<le> real_of_int (timestamp_ms latest) / 1000" by simp
  then show ?thesis using assms(1) by (simp add: judge_def Let_def)
qed

end
