(* ===== verification/TimedCache.thy ===== *)
theory TimedCache
  imports Prelude
begin

text \<open>
  The contract of the caches that answer from the last read of the database until it is due again:
  the probation fence, the publication policy and the published handles.  A question brings the
  time and what a read would give then (\<open>None\<close> where it fails).  What differs is the value kept
  after a failed read.
\<close>

locale timed_cache =
  fixes ask :: "real \<Rightarrow> 'r option \<Rightarrow> 's \<Rightarrow> 's"
    and due :: "'s \<Rightarrow> real"
    and held :: "'s \<Rightarrow> 'v"
    and load :: "'r \<Rightarrow> 'v"
    and on_fail :: "'v \<Rightarrow> 'v"
    and ttl :: real
    and retry :: real
  assumes not_due: "now < due s \<Longrightarrow> ask now read s = s"
    and loaded: "due s \<le> now \<Longrightarrow> held (ask now (Some r) s) = load r"
    and loaded_due: "due s \<le> now \<Longrightarrow> due (ask now (Some r) s) = now + ttl"
    and failed: "due s \<le> now \<Longrightarrow> held (ask now None s) = on_fail (held s)"
    and failed_due: "due s \<le> now \<Longrightarrow> due (ask now None s) = now + retry"
    and intervals: "0 < retry" "retry \<le> ttl"
begin

fun reads :: "(real \<times> 'r option) list \<Rightarrow> 's \<Rightarrow> real list" where
  "reads [] s = []"
| "reads ((now, r) # qs) s = (if due s \<le> now then [now] else []) @ reads qs (ask now r s)"

lemma asked_due: "due s \<le> now \<Longrightarrow> now + retry \<le> due (ask now r s)"
  using intervals(2) loaded_due failed_due by (cases r) auto

lemma due_grows: "due s \<le> due (ask now r s)"
  using asked_due [of s now r] not_due [of now s r] intervals(1) by (cases "due s \<le> now") auto

lemma reads_due: "t \<in> set (reads qs s) \<Longrightarrow> due s \<le> t"
proof (induction qs arbitrary: s)
  case (Cons q qs)
  obtain now r where q: "q = (now, r)" by fastforce
  from Cons.prems consider "t = now" "due s \<le> now" | "t \<in> set (reads qs (ask now r s))"
    by (auto simp: q split: if_splits)
  then show ?case using Cons.IH [of "ask now r s"] due_grows [of s now r] by cases auto
qed simp

text \<open>Two reads are at least a retry apart, whatever is asked in between.\<close>

lemma reads_spaced: "sorted_wrt (\<lambda>a b. a + retry \<le> b) (reads qs s)"
proof (induction qs arbitrary: s)
  case (Cons q qs)
  obtain now r where q: "q = (now, r)" by fastforce
  show ?case
  proof (cases "due s \<le> now")
    case True
    then have "now + retry \<le> t" if "t \<in> set (reads qs (ask now r s))" for t
      using reads_due [OF that] asked_due [of s now r] by simp
    then show ?thesis using True Cons.IH by (simp add: q)
  qed (use Cons.IH in \<open>simp add: q\<close>)
qed simp

lemma spaced_span:
  "sorted_wrt (\<lambda>a b. a + retry \<le> b) (t # ts) \<Longrightarrow> t + retry * real (length ts) \<le> last (t # ts)"
proof (induction ts arbitrary: t)
  case (Cons u us)
  then have "u + retry * real (length us) \<le> last (u # us)" "t + retry \<le> u" by simp_all
  then show ?case by (simp add: algebra_simps)
qed simp

text \<open>So an interval of \<open>n\<close> retries holds at most \<open>n + 1\<close> reads.\<close>

lemma reads_bounded:
  assumes "\<forall>t \<in> set (reads qs s). from \<le> t \<and> t \<le> from + retry * real n"
  shows "length (reads qs s) \<le> n + 1"
proof (cases "reads qs s")
  case (Cons t ts)
  have "t + retry * real (length ts) \<le> last (t # ts)" using reads_spaced [of qs s] Cons spaced_span by metis
  moreover have "last (t # ts) \<in> set (reads qs s)" "t \<in> set (reads qs s)" by (simp_all add: Cons)
  then have "last (t # ts) \<le> from + retry * real n" "from \<le> t" using assms by blast+
  ultimately have "retry * real (length ts) \<le> retry * real n" by linarith
  then show ?thesis using intervals(1) Cons by simp
qed simp

end

end
