(* ===== verification/PolledRadars.thy ===== *)
theory PolledRadars
  imports Blah2 ConfigStore Claims TimedCache
begin

text \<open>
  Polled radars as nodes: their ids (\<open>core/node_ids.py\<close>), their rows and the operations on them
  (\<open>services/polled_radars.py\<close>), an administrator's trust decisions (\<open>services/graduation.py\<close>) and
  the fence that holds back what is not trusted (\<open>services/probation.py\<close>).

  The database is one record; an operation that raises returns its error and no database, which is
  the rollback of its transaction or savepoint.  Fernet is a parameter: \<open>encrypt\<close> and \<open>decrypt\<close>
  give \<open>None\<close> where the key is unset or wrong.  Random draws are arguments.
\<close>

subsection \<open>Node ids\<close>

definition FLEET :: string where "FLEET = ''ret''"
definition POLLED_BLAH2 :: string where "POLLED_BLAH2 = ''bla''"
definition SYSTEMS :: "string list" where "SYSTEMS = [FLEET, POLLED_BLAH2]"
definition MINTED_SYSTEMS :: "string list" where "MINTED_SYSTEMS = [POLLED_BLAH2]"
definition MINT_ATTEMPTS :: nat where "MINT_ATTEMPTS = 5"

definition is_lower_hex :: "char \<Rightarrow> bool" where
  "is_lower_hex c \<longleftrightarrow> is_digit c \<or> 97 \<le> code c \<and> code c \<le> 102"

text \<open>\<open>re\<close>'s \<open>$\<close> also matches before one final newline.\<close>

definition shape_matches :: "string \<Rightarrow> bool" where
  "shape_matches s \<longleftrightarrow>
     (length s = 11 \<or> (length s = 12 \<and> last s = char_of (10 :: nat))) \<and>
     list_all is_lower_ascii (take 3 s) \<and> list_all is_lower_hex (take 8 (drop 3 s))"

definition system_of :: "string \<Rightarrow> string option" where
  "system_of node_id =
     (if shape_matches node_id \<and> take 3 node_id \<in> set SYSTEMS then Some (take 3 node_id) else None)"

subsection \<open>The database\<close>

record node_row =
  n_board :: string
  n_status :: string
  n_version :: int
  n_licence :: "string option"
  n_licence_at :: "real option"
  n_publication :: string
  n_publication_at :: "real option"
  n_last_seen :: "real option"

datatype liveness = LIVE_PENDING | LIVE_STREAMING | LIVE_STALLED | LIVE_UNREACHABLE

record polled_radar =
  epoch :: int
  endpoint_raw :: string
  pr_scheme :: string
  pr_host :: string
  pr_port :: nat
  pr_key :: string
  pr_user :: "string option"
  pr_secret_enc :: "string option"
  last_resolved_ip :: "ip option"
  resolved_at :: "real option"
  network_moves :: int
  last_network_move_at :: "real option"
  pr_fingerprint :: string
  probe_passed_at :: real
  endpoint_changed_at :: real
  trust_state :: string
  unprotected :: bool
  pr_liveness :: liveness
  last_frame_at :: "real option"
  last_config_at :: "real option"
  consecutive_failures :: int
  pr_created :: real

record endpoint_change =
  h_node :: string
  old_key :: "string option"
  new_key :: string
  h_ip :: "ip option"
  changed_by :: string
  changed_at :: real

record node_event =
  e_node :: string
  e_kind :: string
  e_epoch :: "int option"
  e_actor :: string

record radar_db =
  node_rows :: "(string, node_row) dict"
  configs :: "config_row list"
  claiming :: claim_db
  radars :: "(string, polled_radar) dict"
  history :: "endpoint_change list"
  events :: "node_event list"

datatype radar_error =
    EndpointAlreadyRegistered | EpochChanged | SecretKeyUnavailable | IntegrityError
  | NotMinted string | BadPublication string | BadTrust string | NotPolled string | EpochMoved int string
  | InvalidConfig config_error | StoreFault store_error | NoActiveConfig string

text \<open>\<open>update(PolledRadar).where(node_id, epoch)\<close>: the new table, or nothing where no row matched.\<close>

definition update_radar ::
    "string \<Rightarrow> int \<Rightarrow> (polled_radar \<Rightarrow> polled_radar) \<Rightarrow> radar_db \<Rightarrow> radar_db option" where
  "update_radar node e f db =
     (case dict_get (radars db) node of
        Some r \<Rightarrow> if epoch r = e then Some (db\<lparr>radars := dict_set (radars db) node (f r)\<rparr>) else None
      | None \<Rightarrow> None)"

definition update_node :: "string \<Rightarrow> (node_row \<Rightarrow> node_row) \<Rightarrow> radar_db \<Rightarrow> radar_db" where
  "update_node node f db =
     (case dict_get (node_rows db) node of
        Some n \<Rightarrow> db\<lparr>node_rows := dict_set (node_rows db) node (f n)\<rparr>
      | None \<Rightarrow> db)"

definition key_taken :: "string \<Rightarrow> string option \<Rightarrow> radar_db \<Rightarrow> bool" where
  "key_taken key except db \<longleftrightarrow> list_ex (\<lambda>(n, r). pr_key r = key \<and> Some n \<noteq> except) (radars db)"

text \<open>
  \<open>add_with_minted_id\<close>: an attempt clashes where the node id or the public handle of the row is
  taken.  A draw is the eight hex digits and the handle \<open>build\<close> mints beside them.
\<close>

definition clashes :: "radar_db \<Rightarrow> string \<Rightarrow> string \<Rightarrow> bool" where
  "clashes db node_id node_ref \<longleftrightarrow>
     dict_has (node_rows db) node_id \<or> node_ref \<in> set (map snd (nodes (claiming db)))"

fun mint_attempts :: "nat \<Rightarrow> string \<Rightarrow> (string \<times> string) list \<Rightarrow> radar_db \<Rightarrow> (string \<times> string) option" where
  "mint_attempts 0 system draws db = None"
| "mint_attempts (Suc k) system [] db = None"
| "mint_attempts (Suc k) system ((hex, ref) # draws) db =
     (if clashes db (system @ hex) ref then mint_attempts k system draws db else Some (system @ hex, ref))"

definition add_with_minted_id ::
    "string \<Rightarrow> (string \<times> string) list \<Rightarrow> node_row \<Rightarrow> radar_db \<Rightarrow> radar_error + (radar_db \<times> string)" where
  "add_with_minted_id system draws row db =
     (if system \<notin> set MINTED_SYSTEMS then Inl (NotMinted system)
      else
        (case mint_attempts MINT_ATTEMPTS system draws db of
           None \<Rightarrow> Inl IntegrityError
         | Some (node_id, ref) \<Rightarrow>
             Inr (db\<lparr>node_rows := dict_set (node_rows db) node_id row,
                     claiming := (claiming db)\<lparr>nodes := dict_set (nodes (claiming db)) node_id ref\<rparr>\<rparr>, node_id)))"

subsection \<open>What a radar declares, as a configuration\<close>

definition FEET_PER_METRE :: real where "FEET_PER_METRE = 1 / 0.3048"
definition PUBLICATIONS :: "string list" where "PUBLICATIONS = [''public'', ''private'']"

definition feet :: "real \<Rightarrow> real" where
  "feet metres = metres * FEET_PER_METRE"

text \<open>\<open>math.isclose(held, declared, rel_tol=1e-9)\<close> where \<open>held\<close> is a number.\<close>

definition same_number :: "json \<Rightarrow> real \<Rightarrow> bool" where
  "same_number held declared =
     (case numeric_value_of held of
        Some (Fin x) \<Rightarrow> \<bar>x - declared\<bar> \<le> max \<bar>x\<bar> \<bar>declared\<bar> / 1000000000
      | _ \<Rightarrow> False)"

definition declared_fields :: "blah2_config \<Rightarrow> (string \<times> real option) list" where
  "declared_fields c =
     [(''rx_lat'', Some (latitude (b_rx c))), (''rx_lon'', Some (longitude (b_rx c))),
      (''rx_alt_ft'', Some (feet (altitude_m (b_rx c)))),
      (''tx_lat'', Some (latitude (b_tx c))), (''tx_lon'', Some (longitude (b_tx c))),
      (''tx_alt_ft'', Some (feet (altitude_m (b_tx c)))),
      (''fc_hz'', Some (b_fc_hz c)), (''fs_hz'', b_fs_hz c), (''cpi_s'', b_cpi_s c)]"

fun lay_over :: "(string, json) dict \<Rightarrow> (string \<times> real option) list \<Rightarrow> (string, json) dict \<Rightarrow> (string, json) dict" where
  "lay_over base [] merged = merged"
| "lay_over base ((field, declared) # rest) merged =
     lay_over base rest
       (case declared of
          None \<Rightarrow> merged
        | Some v \<Rightarrow> if same_number (py_get base field) v then merged else dict_set merged field (JFloat (Fin v)))"

definition probed_config :: "blah2_config \<Rightarrow> (string, json) dict \<Rightarrow> config_error + (string, json) dict" where
  "probed_config c base = validate_config (JObj (lay_over base (declared_fields c) base))"

subsection \<open>The typed address, without its credentials\<close>

definition scheme_prefix :: "string \<Rightarrow> string" where
  "scheme_prefix s =
     (case s of
        [] \<Rightarrow> []
      | c # cs \<Rightarrow>
          if is_alpha_ascii c then
            (let word = c # takeWhile scheme_char cs; rest = dropWhile scheme_char cs
             in if has_prefix ''://'' rest then word @ ''://'' else [])
          else if has_prefix ''//'' s then ''//''
          else [])"

text \<open>The expression takes the scheme if what follows it holds an \<open>@\<close> before any delimiter, and is tried
  without one otherwise.\<close>

definition cut_userinfo :: "string \<Rightarrow> string option" where
  "cut_userinfo s =
     (let authority = takeWhile (\<lambda>c. c \<notin> {CHR ''/'', CHR ''?'', CHR ''#''}) s;
          tail = dropWhile (\<lambda>c. c \<notin> {CHR ''/'', CHR ''?'', CHR ''#''}) s
      in case rpartition_at CHR ''@'' authority of (_, found, rest) \<Rightarrow> if found then Some (rest @ tail) else None)"

definition without_userinfo :: "string \<Rightarrow> string" where
  "without_userinfo raw0 =
     (let s = strip raw0; p = scheme_prefix s in
      case cut_userinfo (drop (length p) s) of
        Some rest \<Rightarrow> p @ rest
      | None \<Rightarrow> (case cut_userinfo s of Some rest \<Rightarrow> rest | None \<Rightarrow> s))"

subsection \<open>Creating a radar\<close>

record radar_geometry =
  g_rx_lat :: "real option"
  g_rx_lon :: "real option"
  g_rx_alt_m :: "real option"
  g_tx_lat :: "real option"
  g_tx_lon :: "real option"
  g_tx_alt_m :: "real option"

record radar_request =
  owner_user_id :: string
  owner_email :: string
  q_endpoint :: polled_endpoint
  q_geometry :: radar_geometry
  q_fc_hz :: json
  q_fs_hz :: json
  q_max_range_km :: json
  q_cpi_s :: json
  q_delay_tolerance_us :: json
  q_doppler_tolerance_hz :: json
  q_fingerprint :: string
  q_ip :: "ip option"
  q_publication :: string
  q_licence :: "string option"
  q_unprotected :: bool
  q_claim_verified :: bool

definition first_config :: "radar_request \<Rightarrow> (string, json) dict" where
  "first_config q =
     (let g = q_geometry q in
      [(''rx_lat'', json_of_real (g_rx_lat g)), (''rx_lon'', json_of_real (g_rx_lon g)),
       (''rx_alt_ft'', json_of_real (map_option feet (g_rx_alt_m g))),
       (''tx_lat'', json_of_real (g_tx_lat g)), (''tx_lon'', json_of_real (g_tx_lon g)),
       (''tx_alt_ft'', json_of_real (map_option feet (g_tx_alt_m g))),
       (''fc_hz'', q_fc_hz q), (''fs_hz'', q_fs_hz q), (''max_range_km'', q_max_range_km q), (''cpi_s'', q_cpi_s q),
       (''delay_tolerance_us'', q_delay_tolerance_us q), (''doppler_tolerance_hz'', q_doppler_tolerance_hz q)])"

definition encrypt_secret :: "(string \<Rightarrow> string option) \<Rightarrow> string option \<Rightarrow> radar_error + string option" where
  "encrypt_secret encrypt secret =
     (case secret of
        None \<Rightarrow> Inr None
      | Some s \<Rightarrow> (case encrypt s of None \<Rightarrow> Inl SecretKeyUnavailable | Some c \<Rightarrow> Inr (Some c)))"

definition new_node :: "real \<Rightarrow> radar_request \<Rightarrow> node_row" where
  "new_node now q =
     \<lparr>n_board = ''blah2'', n_status = ''active'', n_version = 1, n_licence = q_licence q,
      n_licence_at = (if q_licence q \<noteq> None then Some now else None),
      n_publication = q_publication q, n_publication_at = Some now, n_last_seen = None\<rparr>"

definition new_radar :: "real \<Rightarrow> string option \<Rightarrow> radar_request \<Rightarrow> polled_radar" where
  "new_radar now secret_enc q =
     (let e = q_endpoint q in
      \<lparr>epoch = 1, endpoint_raw = without_userinfo (raw e), pr_scheme = scheme e, pr_host = host e, pr_port = port e,
       pr_key = endpoint_key e, pr_user = auth_user e, pr_secret_enc = secret_enc, last_resolved_ip = q_ip q,
       resolved_at = (if q_ip q \<noteq> None then Some now else None), network_moves = 0, last_network_move_at = None,
       pr_fingerprint = q_fingerprint q, probe_passed_at = now, endpoint_changed_at = now,
       trust_state = ''probation'', unprotected = q_unprotected q, pr_liveness = LIVE_PENDING, last_frame_at = None,
       last_config_at = None, consecutive_failures = 0, pr_created = now\<rparr>)"

definition create_polled_radar ::
    "(string \<Rightarrow> string option) \<Rightarrow> (string \<times> string) list \<Rightarrow> real \<Rightarrow> radar_request \<Rightarrow> radar_db
     \<Rightarrow> radar_error + (radar_db \<times> string)" where
  "create_polled_radar encrypt draws now q db =
     (if q_publication q \<notin> set PUBLICATIONS then Inl (BadPublication (q_publication q))
      else
        bind_result (encrypt_secret encrypt (auth_secret (q_endpoint q))) (\<lambda>secret_enc.
        bind_result (add_with_minted_id POLLED_BLAH2 draws (new_node now q) db) (\<lambda>(db1, node).
        bind_result
          (case insert_row \<lparr>row_node = node, version = 1, config_of = first_config q, created_at = now,
                            superseded_at = None\<rparr> (configs db1) of
             Inl x \<Rightarrow> Inl (StoreFault x) | Inr rows \<Rightarrow> Inr rows) (\<lambda>rows.
          if key_taken (endpoint_key (q_endpoint q)) None db1 then Inl EndpointAlreadyRegistered
          else
            (let claim = \<lparr>user_id = Some (owner_user_id q), c_email = Some (owner_email q),
                          verified = q_claim_verified q, undeliverable = False, c_updated = now\<rparr>
             in Inr (db1\<lparr>configs := rows,
                         claiming := (claiming db1)\<lparr>claims := dict_set (claims (claiming db1)) node claim\<rparr>,
                         radars := dict_set (radars db1) node (new_radar now secret_enc q),
                         history := history db1 @ [\<lparr>h_node = node, old_key = None,
                           new_key = endpoint_key (q_endpoint q), h_ip = q_ip q, changed_by = owner_user_id q,
                           changed_at = now\<rparr>]\<rparr>, node))))))"

subsection \<open>Moving and removing a radar\<close>

definition adopt ::
    "real \<Rightarrow> string \<Rightarrow> blah2_config \<Rightarrow> radar_db \<Rightarrow> radar_error + (radar_db \<times> int)" where
  "adopt now node c db =
     (case active_config (configs db) node of
        None \<Rightarrow> Inl (NoActiveConfig node)
      | Some active \<Rightarrow>
          (case probed_config c (config_fields active) of
             Inl x \<Rightarrow> Inl (InvalidConfig x)
           | Inr config \<Rightarrow>
               (case upsert_config now node config (configs db) of
                  Inl x \<Rightarrow> Inl (StoreFault x)
                | Inr (rows, v) \<Rightarrow> Inr (db\<lparr>configs := rows\<rparr>, v))))"

definition moved_row :: "real \<Rightarrow> blah2_probe \<Rightarrow> polled_radar \<Rightarrow> polled_radar" where
  "moved_row now p r =
     r\<lparr>epoch := epoch r + 1, pr_key := endpoint_key (p_endpoint p), trust_state := ''probation'',
       pr_fingerprint := p_fingerprint p, probe_passed_at := now, endpoint_changed_at := now,
       last_resolved_ip := p_address p, resolved_at := Some now, last_config_at := Some now,
       pr_liveness := LIVE_PENDING, consecutive_failures := 0\<rparr>"

text \<open>\<open>read\<close> is the radar's row as the caller read it, before the probe.\<close>

definition set_polled_radar_address ::
    "(string \<Rightarrow> string option) \<Rightarrow> real \<Rightarrow> string \<Rightarrow> polled_radar \<Rightarrow> blah2_probe \<Rightarrow> bool \<Rightarrow> string \<Rightarrow> radar_db
     \<Rightarrow> radar_error + (radar_db \<times> bool)" where
  "set_polled_radar_address encrypt now node read p unprot by_whom db =
     (let e = p_endpoint p; moved = (endpoint_key e \<noteq> pr_key read) in
      bind_result (encrypt_secret encrypt (auth_secret e)) (\<lambda>secret_enc.
        (let reach = (\<lambda>r. r\<lparr>endpoint_raw := without_userinfo (raw e), pr_scheme := scheme e, pr_host := host e,
                            pr_port := port e, pr_user := auth_user e, pr_secret_enc := secret_enc,
                            unprotected := unprot\<rparr>);
             write = (\<lambda>r. if moved then moved_row now p (reach r) else reach r)
         in case update_radar node (epoch read) write db of
              None \<Rightarrow> Inl EpochChanged
            | Some db1 \<Rightarrow>
                if moved \<and> key_taken (endpoint_key e) (Some node) db then Inl EndpointAlreadyRegistered
                else if \<not> moved then Inr (db1, False)
                else
                  bind_result (adopt now node (p_config p) db1) (\<lambda>(db2, v).
                    Inr ((update_node node (\<lambda>n. n\<lparr>n_version := v\<rparr>) db2)
                           \<lparr>history := history db2 @ [\<lparr>h_node = node, old_key = Some (pr_key read),
                              new_key = endpoint_key e, h_ip = p_address p, changed_by = by_whom,
                              changed_at = now\<rparr>]\<rparr>, True)))))"

definition retire_polled_radar :: "string \<Rightarrow> string \<Rightarrow> radar_db \<Rightarrow> radar_db" where
  "retire_polled_radar node actor db =
     (let radar = dict_get (radars db) node;
          db1 = db\<lparr>claiming := clear_claim node (claiming db), radars := dict_del (radars db) node,
                   history := (if radar = None then history db else filter (\<lambda>h. h_node h \<noteq> node) (history db))\<rparr>;
          db2 = update_node node (\<lambda>n. n\<lparr>n_status := ''retired''\<rparr>) db1
      in db2\<lparr>events := events db2 @ [\<lparr>e_node = node, e_kind = ''removed'', e_epoch = map_option epoch radar,
                                       e_actor = actor\<rparr>]\<rparr>)"

definition remove_polled_radar :: "string \<Rightarrow> string \<Rightarrow> radar_db \<Rightarrow> radar_db \<times> bool" where
  "remove_polled_radar node uid db =
     (if read_owner node (claiming db) \<noteq> Some uid then (db, False)
      else (retire_polled_radar node uid db, True))"

text \<open>\<open>None\<close> is the error of a credential no key opens.\<close>

definition poller_credentials :: "(string \<Rightarrow> string option) \<Rightarrow> polled_radar \<Rightarrow> (string \<times> string) option option" where
  "poller_credentials decrypt r =
     (case pr_secret_enc r of
        None \<Rightarrow> Some None
      | Some c \<Rightarrow> map_option (\<lambda>s. Some (case pr_user r of None \<Rightarrow> [] | Some u \<Rightarrow> u, s)) (decrypt c))"

definition owner_views :: "string list \<Rightarrow> radar_db \<Rightarrow> (string \<times> string \<times> bool \<times> liveness \<times> string) list" where
  "owner_views ids db =
     (if ids = [] then []
      else map (\<lambda>(n, r). (n, endpoint_raw r, unprotected r, pr_liveness r, trust_state r))
             (filter (\<lambda>(n, r). n \<in> set ids) (radars db)))"

subsection \<open>Trust\<close>

definition GRADUATED :: string where "GRADUATED = ''graduated''"

definition KINDS :: "(string, string) dict" where
  "KINDS = [(GRADUATED, ''graduated''), (''probation'', ''returned_to_probation'')]"

definition set_trust :: "string \<Rightarrow> string \<Rightarrow> int \<Rightarrow> string \<Rightarrow> radar_db \<Rightarrow> radar_error + radar_db" where
  "set_trust node trust e actor db =
     (case dict_get KINDS trust of
        None \<Rightarrow> Inl (BadTrust trust)
      | Some kind \<Rightarrow>
          (case dict_get (radars db) node of
             None \<Rightarrow> Inl (NotPolled node)
           | Some r \<Rightarrow>
               if epoch r = e \<and> trust_state r \<noteq> trust then
                 Inr (db\<lparr>radars := dict_set (radars db) node (r\<lparr>trust_state := trust\<rparr>),
                         events := events db @ [\<lparr>e_node = node, e_kind = kind, e_epoch = Some e, e_actor = actor\<rparr>]\<rparr>)
               else if epoch r \<noteq> e then Inl (EpochMoved (epoch r) (trust_state r))
               else Inr db))"

text \<open>\<open>graduation.listing\<close>: every polled radar with its trust, the decisions about it newest first, and
  its owner with whether they have signed in.  Accounts are kept under their addresses.\<close>

definition account_by_id :: "string \<Rightarrow> radar_db \<Rightarrow> (string \<times> user) option" where
  "account_by_id uid db = find (\<lambda>(email, u). u_id u = uid) (users (claiming db))"

definition radar_owner :: "string \<Rightarrow> radar_db \<Rightarrow> (string option \<times> bool) option" where
  "radar_owner node db =
     (case dict_get (claims (claiming db)) node of
        None \<Rightarrow> None
      | Some c \<Rightarrow>
          (case Option.bind (user_id c) (\<lambda>uid. account_by_id uid db) of
             Some (email, u) \<Rightarrow> Some (Some email, is_verified u)
           | None \<Rightarrow> Some (c_email c, True)))"

record radar_listing =
  l_node_id :: string
  l_node_ref :: string
  l_endpoint :: string
  l_liveness :: liveness
  l_last_frame :: "real option"
  l_epoch :: int
  l_trust :: string
  l_events :: "node_event list"
  l_owner :: "(string option \<times> bool) option"

definition listing :: "radar_db \<Rightarrow> radar_listing list" where
  "listing db =
     List.map_filter (\<lambda>(n, r). map_option (\<lambda>ref.
         \<lparr>l_node_id = n, l_node_ref = ref, l_endpoint = pr_key r, l_liveness = pr_liveness r,
          l_last_frame = last_frame_at r, l_epoch = epoch r, l_trust = trust_state r,
          l_events = rev (filter (\<lambda>e. e_node e = n) (events db)), l_owner = radar_owner n db\<rparr>)
       (dict_get (nodes (claiming db)) n))
       (sort_key (\<lambda>(n, r). pr_created r) (sort_key fst (radars db)))"

subsection \<open>The fence\<close>

definition TTL_S :: real where "TTL_S = 5"
definition ERROR_RETRY_S :: real where "ERROR_RETRY_S = 2"

record fence =
  graduated :: "string list"
  expires_at :: real

text \<open>\<open>POLLED_RADAR_PROBATION_ENABLED\<close> as the environment has it.\<close>

definition fence_enabled :: "string option \<Rightarrow> bool" where
  "fence_enabled env \<longleftrightarrow> env \<noteq> Some ''0''"

definition query_graduated :: "radar_db \<Rightarrow> string list" where
  "query_graduated db = map fst (filter (\<lambda>(n, r). trust_state r = GRADUATED) (radars db))"

text \<open>\<open>readable\<close> is whether the query works at this moment.\<close>

definition graduated_ids :: "real \<Rightarrow> bool \<Rightarrow> radar_db \<Rightarrow> fence \<Rightarrow> fence \<times> string list" where
  "graduated_ids now readable db f =
     (if now < expires_at f then (f, graduated f)
      else if readable then
        (\<lparr>graduated = query_graduated db, expires_at = now + TTL_S\<rparr>, query_graduated db)
      else (\<lparr>graduated = [], expires_at = now + ERROR_RETRY_S\<rparr>, []))"

interpretation fence_reads: timed_cache "\<lambda>now read f. fst (graduated_ids now (read \<noteq> None) (the read) f)"
    expires_at graduated query_graduated "\<lambda>_. []" TTL_S ERROR_RETRY_S
  by unfold_locales (auto simp: graduated_ids_def TTL_S_def ERROR_RETRY_S_def)

definition invalidate_fence :: "fence \<Rightarrow> fence" where
  "invalidate_fence f = f\<lparr>expires_at := 0\<rparr>"

definition in_probation ::
    "string option \<Rightarrow> real \<Rightarrow> bool \<Rightarrow> radar_db \<Rightarrow> string option \<Rightarrow> fence \<Rightarrow> fence \<times> bool" where
  "in_probation env now readable db node f =
     (case node of
        None \<Rightarrow> (f, False)
      | Some n \<Rightarrow>
          if \<not> has_prefix POLLED_BLAH2 n then (f, False)
          else if \<not> fence_enabled env \<or> system_of n \<noteq> Some POLLED_BLAH2 then (f, False)
          else (case graduated_ids now readable db f of (f', ids) \<Rightarrow> (f', n \<notin> set ids)))"

subsection \<open>Adopting what a radar declares\<close>

definition rows_valid :: "config_row list \<Rightarrow> bool" where
  "rows_valid rows \<longleftrightarrow> (\<forall>r \<in> set rows. config_ok (config_fields r))"

definition holds_declared :: "(string, json) dict \<Rightarrow> (string \<times> real option) list \<Rightarrow> bool" where
  "holds_declared d ds \<longleftrightarrow>
     list_all (\<lambda>(f, declared). case declared of None \<Rightarrow> True | Some v \<Rightarrow> same_number (py_get d f) v) ds"

lemma lay_over_id: "holds_declared base ds \<Longrightarrow> lay_over base ds m = m"
  by (induction ds arbitrary: m) (auto simp: holds_declared_def split: option.splits)

lemma lay_over_other: "f \<notin> fst ` set ds \<Longrightarrow> py_get (lay_over base ds m) f = py_get m f"
  by (induction base ds m rule: lay_over.induct) (auto split: option.splits)

lemma lay_over_dict_ok: "dict_ok m \<Longrightarrow> dict_ok (lay_over base ds m)"
  by (induction base ds m rule: lay_over.induct) (auto split: option.splits)

lemma lay_over_get:
  assumes "(f, Some v) \<in> set ds" and "distinct (map fst ds)" and "\<forall>g \<in> fst ` set ds. py_get m g = py_get base g"
  shows "py_get (lay_over base ds m) f = JFloat (Fin v) \<or>
    (same_number (py_get base f) v \<and> py_get (lay_over base ds m) f = py_get base f)"
  using assms
proof (induction base ds m rule: lay_over.induct)
  case (2 base g declared rest m)
  show ?case
  proof (cases "f = g")
    case True
    then have f: "declared = Some v" "f \<notin> fst ` set rest" using "2.prems" by force+
    show ?thesis using True f "2.prems"(3) by (simp add: lay_over_other)
  next
    case False
    let ?m = "case declared of None \<Rightarrow> m
       | Some v \<Rightarrow> if same_number (py_get base g) v then m else dict_set m g (JFloat (Fin v))"
    have "g \<notin> fst ` set rest" using "2.prems"(2) by simp
    then have "\<forall>h \<in> fst ` set rest. py_get ?m h = py_get base h"
      using "2.prems"(3) by (auto split: option.split)
    moreover have "(f, Some v) \<in> set rest" "distinct (map fst rest)" using False "2.prems" by auto
    ultimately show ?thesis using "2.IH" by simp
  qed
qed simp

lemma same_number_refl: "same_number (JFloat (Fin v)) v"
  by (simp add: same_number_def)

lemma same_number_stored: "same_number (stored j) v \<longleftrightarrow> same_number j v"
  by (cases j) (simp_all add: same_number_def)

lemma declared_distinct: "distinct (map fst (declared_fields c))"
  by (simp add: declared_fields_def)

lemma config_fields_get: "dict_get (config_fields r) f = (if f \<in> set CONFIG_FIELDS then Some (py_get (config_of r) f) else None)"
proof -
  have "dict_get (map (\<lambda>f. (f, g f)) fs) f = (if f \<in> set fs then Some (g f) else None)" for fs :: "string list" and g :: "string \<Rightarrow> json"
    by (induction fs) (auto simp: dict_get_def)
  then show ?thesis by (simp add: config_fields_def)
qed

lemma probed_config_holds:
  assumes "dict_ok base" and "probed_config c base = Inr config"
  shows "holds_declared config (declared_fields c)" and "config_ok config"
proof -
  let ?m = "lay_over base (declared_fields c) base"
  have v: "validate_config (JObj ?m) = Inr config" using assms(2) by (simp add: probed_config_def)
  have get: "py_get config f = stored (py_get ?m f)" for f
    using validate_get [OF v, of f] by (simp add: py_get_def split: option.splits)
  show "holds_declared config (declared_fields c)"
    unfolding holds_declared_def list_all_iff
  proof (clarsimp split: option.splits)
    fix f x
    assume "(f, Some x) \<in> set (declared_fields c)"
    from lay_over_get [OF this declared_distinct, of base base] show "same_number (py_get config f) x"
      by (auto simp: get same_number_stored same_number_refl)
  qed
  show "config_ok config" by (rule validate_config_ok [OF v lay_over_dict_ok [OF assms(1)]])
qed

lemma config_ok_fields_eq:
  assumes "config_ok config" and that: "config_of r = config"
  shows "config_ok (config_fields r) \<longleftrightarrow> config_ok config"
proof -
  have st: "set (dict_keys config) = set CONFIG_FIELDS" using config_ok_storable [OF assms(1)] by (simp add: storable_def)
  have "dict_get (config_fields r) f = dict_get config f" for f
  proof (cases "f \<in> set CONFIG_FIELDS")
    case True
    then show ?thesis using storable_get [OF config_ok_storable [OF assms(1)]] that by (simp add: config_fields_get)
  next
    case False
    then show ?thesis using st dict_has_keys [of config f] by (simp add: config_fields_get dict_has_get)
  qed
  moreover have "dict_ok (config_fields r)" by (simp add: config_fields_def dict_ok_def o_def CONFIG_FIELDS_def)
  ultimately show ?thesis using config_ok_cong assms(1) by (metis config_ok_def)
qed

lemma rows_valid_upsert:
  assumes "rows_valid rows" and "config_ok config" and "upsert_config now n config rows = Inr (rows', v)"
  shows "rows_valid rows'"
proof -
  have sup: "rows_valid (superseded_by now n rows)"
    using assms(1) by (auto simp: rows_valid_def superseded_by_def supersede_def config_fields_def split: option.splits)
  have "config_ok (config_fields (new_row now n config rows))"
    using config_ok_fields_eq [OF assms(2)] assms(2) by (simp add: new_row_def)
  then have "rows_valid (superseded_by now n rows @ [new_row now n config rows])"
    using sup by (auto simp: rows_valid_def)
  then show ?thesis
    using assms upsert_config_cases [OF config_ok_storable [OF assms(2)], of now n rows]
    by (auto split: option.splits if_splits)
qed

lemma numeric_py_eq: "py_eq v w \<Longrightarrow> same_number v x = same_number w x"
  by (auto simp: py_eq_def same_number_def split: option.splits)

lemma declared_in_config: "(f, Some x) \<in> set (declared_fields c) \<Longrightarrow> f \<in> set CONFIG_FIELDS"
  by (auto simp: declared_fields_def CONFIG_FIELDS_def)

lemma matches_holds:
  assumes "matches a config" and "holds_declared config (declared_fields c)"
  shows "holds_declared (config_fields a) (declared_fields c)"
  unfolding holds_declared_def list_all_iff
proof (clarsimp split: option.splits)
  fix f x
  assume f: "(f, Some x) \<in> set (declared_fields c)"
  then have in_fields: "f \<in> set CONFIG_FIELDS" by (rule declared_in_config)
  have "same_number (py_get config f) x" using f assms(2) by (force simp: holds_declared_def list_all_iff)
  moreover have "py_eq (py_get (config_of a) f) (py_get config f)" using in_fields assms(1) by (simp add: matches_def list_all_iff)
  moreover have "py_get (config_fields a) f = py_get (config_of a) f" using in_fields by (simp add: py_get_def config_fields_get)
  ultimately show "same_number (py_get (config_fields a) f) x" by (simp add: numeric_py_eq)
qed

lemma adopt_again:
  assumes a: "active_config (configs db) node = Some a" and valid: "config_ok (config_fields a)"
    and holds: "holds_declared (config_fields a) (declared_fields c)"
  shows "adopt now node c db = Inr (db, version a)"
proof -
  let ?base = "config_fields a"
  have st: "stored (py_get ?base f) = py_get ?base f" for f
    using config_ok_store_all [OF valid, of f] by (auto simp: py_get_def split: option.splits)
  have ok: "dict_ok ?base" using valid by (simp add: config_ok_def)
  have "config_ok (store_all ?base)" "all_representable ?base"
    using config_ok_store_all [OF valid] config_ok_stored [OF valid] ok config_ok_cong [of "store_all ?base" ?base] valid
    by (simp_all add: all_representable_def list_all_iff)
  then obtain config where v: "validate_config (JObj ?base) = Inr config" using validate_accepts [OF ok] by blast
  have get: "py_get config f = py_get ?base f" for f
    using validate_get [OF v, of f] st [of f] by (simp add: py_get_def split: option.splits)
  have cok: "config_ok config" by (rule validate_config_ok [OF v ok])
  have "matches a config"
    unfolding matches_def list_all_iff
  proof
    fix f assume f: "f \<in> set CONFIG_FIELDS"
    then have "py_get (config_of a) f = py_get config f" by (simp add: get) (simp add: py_get_def config_fields_get)
    then show "py_eq (py_get (config_of a) f) (py_get config f)" using py_eq_storable [OF config_ok_storable [OF cok] f] by simp
  qed
  then have "upsert_config now node config (configs db) = Inr (configs db, version a)"
    using upsert_config_cases [OF config_ok_storable [OF cok], of now node "configs db"] a by simp
  then show ?thesis using a v lay_over_id [OF holds] by (simp add: adopt_def probed_config_def)
qed

lemma adopt_settled:
  assumes rows: "table_ok (configs db)" "rows_valid (configs db)" and ad: "adopt now node c db = Inr (db', v)"
  shows "\<exists>a. active_config (configs db') node = Some a \<and> version a = v \<and> config_ok (config_fields a) \<and>
      holds_declared (config_fields a) (declared_fields c)"
    and "table_ok (configs db') \<and> rows_valid (configs db')" and "\<exists>rows. db' = db\<lparr>configs := rows\<rparr>"
proof -
  obtain active config rows' where act: "active_config (configs db) node = Some active"
    and p: "probed_config c (config_fields active) = Inr config"
    and u: "upsert_config now node config (configs db) = Inr (rows', v)" and db': "db' = db\<lparr>configs := rows'\<rparr>"
    using ad by (auto simp: adopt_def split: option.splits sum.splits)
  have "config_ok (config_fields active)" using active_config_Some [OF act] rows(2) by (simp add: rows_valid_def)
  then have base: "dict_ok (config_fields active)" by (simp add: config_ok_def)
  note ph = probed_config_holds [OF base p]
  note st = config_ok_storable [OF ph(2)]
  obtain a where a: "active_config rows' node = Some a" "version a = v" "matches a config"
    using upsert_active [OF rows(1) st u] by blast
  have valid: "rows_valid rows'" by (rule rows_valid_upsert [OF rows(2) ph(2) u])
  show "\<exists>a. active_config (configs db') node = Some a \<and> version a = v \<and> config_ok (config_fields a) \<and>
      holds_declared (config_fields a) (declared_fields c)"
    using a valid active_config_Some [OF a(1)] matches_holds [OF a(3) ph(1)] db' by (auto simp: rows_valid_def)
  show "table_ok (configs db') \<and> rows_valid (configs db')" using upsert_keeps_ok [OF rows(1) st u] valid db' by simp
  show "\<exists>rows. db' = db\<lparr>configs := rows\<rparr>" using db' by blast
qed

text \<open>Adopting a declaration leaves the node running under a version that says what the radar
  declared, and reading the same declaration again, at any later time, writes nothing: the same
  version is answered from the same rows.\<close>

theorem adoption_settles:
  assumes "table_ok (configs db)" and "rows_valid (configs db)" and "adopt now node c db = Inr (db', v)"
  shows "adopt later node c db' = Inr (db', v) \<and>
    (\<exists>a. active_config (configs db') node = Some a \<and> version a = v \<and>
       holds_declared (config_fields a) (declared_fields c)) \<and>
    table_ok (configs db') \<and> rows_valid (configs db')"
proof -
  note s = adopt_settled [OF assms]
  obtain a where a: "active_config (configs db') node = Some a" "version a = v" "config_ok (config_fields a)"
    "holds_declared (config_fields a) (declared_fields c)" using s(1) by blast
  show ?thesis using adopt_again [OF a(1,3,4)] a s(2) by auto
qed

definition sample_row :: config_row where
  "sample_row = \<lparr>row_node = ''bla00000001'', version = 1, config_of = store_all NodeConfig.sample_config, created_at = 0,
     superseded_at = None\<rparr>"

definition empty_claims :: claim_db where
  "empty_claims = \<lparr>links = [], claims = [], challenges = [], users = [], nodes = []\<rparr>"

definition sample_db :: radar_db where
  "sample_db = \<lparr>node_rows = [], configs = [sample_row], claiming = empty_claims, radars = [], history = [], events = []\<rparr>"

definition sample_declaration :: blah2_config where
  "sample_declaration = \<lparr>b_rx = \<lparr>latitude = 38, longitude = -77, altitude_m = 274.32, site_name = None\<rparr>,
     b_tx = \<lparr>latitude = 77 / 2, longitude = -78, altitude_m = 274.32, site_name = None\<rparr>,
     b_fc_hz = 98000000, b_fs_hz = None, b_cpi_s = None\<rparr>"

lemma sample_row_valid: "config_ok (config_fields sample_row)"
  using config_ok_fields_eq [OF sample_config_facts(2), of sample_row] sample_config_facts(2) by (simp add: sample_row_def)

definition sample_adopted :: "(string, json) dict" where
  "sample_adopted = lay_over (config_fields sample_row) (declared_fields sample_declaration) (config_fields sample_row)"

lemma sample_adopted_eq: "sample_adopted =
    [(''rx_lat'', JFloat (Fin 38)), (''rx_lon'', JFloat (Fin (-77))), (''rx_alt_ft'', JFloat (Fin 900)),
     (''tx_lat'', JFloat (Fin (77 / 2))), (''tx_lon'', JFloat (Fin (-78))), (''tx_alt_ft'', JFloat (Fin 900)),
     (''tx_callsign'', JStr ''WETA''), (''fc_hz'', JFloat (Fin 98000000)), (''fs_hz'', JFloat (Fin 2000000)),
     (''beam_width_deg'', JNull), (''beam_azimuth_deg'', JNull), (''max_range_km'', JFloat (Fin 60)),
     (''cpi_s'', JFloat (Fin (1 / 2))), (''delay_tolerance_us'', JFloat (Fin 10)), (''doppler_tolerance_hz'', JFloat (Fin 5))]"
proof -
  have fields: "config_fields sample_row =
    [(''rx_lat'', JFloat (Fin 38)), (''rx_lon'', JFloat (Fin (-77))), (''rx_alt_ft'', JNull),
     (''tx_lat'', JFloat (Fin (77 / 2))), (''tx_lon'', JFloat (Fin (-78))), (''tx_alt_ft'', JFloat (Fin 900)),
     (''tx_callsign'', JStr ''WETA''), (''fc_hz'', JFloat (Fin 195000000)), (''fs_hz'', JFloat (Fin 2000000)),
     (''beam_width_deg'', JNull), (''beam_azimuth_deg'', JNull), (''max_range_km'', JFloat (Fin 60)),
     (''cpi_s'', JFloat (Fin (1 / 2))), (''delay_tolerance_us'', JFloat (Fin 10)), (''doppler_tolerance_hz'', JFloat (Fin 5))]"
    by (simp add: config_fields_def CONFIG_FIELDS_def sample_row_def py_get_store_all py_get_def dict_get_def
        NodeConfig.sample_config_def store_all_def)
  show ?thesis unfolding sample_adopted_def fields
    by (simp add: declared_fields_def sample_declaration_def feet_def FEET_PER_METRE_def py_get_def dict_get_def same_number_def
        dict_set_def)
qed

lemma sample_adopts: "\<exists>db' v. adopt 5 ''bla00000001'' sample_declaration sample_db = Inr (db', v)"
proof -
  have ok: "dict_ok sample_adopted" by (simp add: dict_ok_def sample_adopted_eq)
  have "all_representable sample_adopted"
    by (simp add: all_representable_def REQUIRED_def NUMERIC_BOUNDS_def UNTABLED_PROPERTIES_def dict_keys_def
        py_get_def dict_get_def sample_adopted_eq representable_def)
  moreover have "fields_ok (store_all sample_adopted)"
    by (simp add: fields_ok_def NUMERIC_BOUNDS_def NULLABLE_def in_bounds_def below_bound_def above_bound_def
        width_bounds_def azimuth_bounds_def py_get_def dict_get_def store_all_def sample_adopted_eq)
  moreover have "set (dict_keys sample_adopted) = set REQUIRED"
    by (simp add: sample_adopted_eq REQUIRED_def NUMERIC_BOUNDS_def UNTABLED_PROPERTIES_def dict_keys_def insert_commute)
  moreover have "paired sample_adopted ''rx_lat'' ''rx_lon''" "paired sample_adopted ''tx_lat'' ''tx_lon''"
    by (simp_all add: paired_def py_get_def dict_get_def sample_adopted_eq)
  moreover have "\<not> same_point (store_all sample_adopted)"
    by (simp add: same_point_def py_get_def dict_get_def store_all_def sample_adopted_eq MIN_BASELINE_DEG_def)
  ultimately obtain config where v: "validate_config (JObj sample_adopted) = Inr config"
    using validate_accepts [OF ok] ok by (auto simp: config_ok_alt)
  have act: "active_config (configs sample_db) ''bla00000001'' = Some sample_row"
    by (simp add: active_config_def sample_db_def sample_row_def)
  have "config_ok config" by (rule validate_config_ok [OF v ok])
  from upsert_total [OF config_ok_storable [OF this]] obtain rows w where
    "upsert_config 5 ''bla00000001'' config (configs sample_db) = Inr (rows, w)" by blast
  then show ?thesis using act v by (simp add: adopt_def probed_config_def sample_adopted_def)
qed

theorem adoption_settles_witness:
  "\<exists>db' v. adopt 5 ''bla00000001'' sample_declaration sample_db = Inr (db', v) \<and>
     adopt 9 ''bla00000001'' sample_declaration db' = Inr (db', v)"
proof -
  have "table_ok (configs sample_db)" by (simp add: table_ok_def sample_db_def sample_row_def)
  moreover have "rows_valid (configs sample_db)" using sample_row_valid by (simp add: rows_valid_def sample_db_def)
  ultimately show ?thesis using adoption_settles sample_adopts by blast
qed

subsection \<open>The fence fails closed\<close>

text \<open>What reaches the fence: a frame's question, or an invalidation after a committed change.\<close>

datatype fence_call = Ask "string option" real bool radar_db "string option" | Invalidate

definition fence_step :: "fence_call \<Rightarrow> fence \<Rightarrow> fence" where
  "fence_step c f = (case c of
     Ask env now readable db node \<Rightarrow> fst (in_probation env now readable db node f)
   | Invalidate \<Rightarrow> invalidate_fence f)"

definition initial_fence :: fence where
  "initial_fence = \<lparr>graduated = [], expires_at = 0\<rparr>"

text \<open>The times and databases asked about since the last invalidation.\<close>

fun asked_since :: "fence_call list \<Rightarrow> (real \<times> radar_db) list" where
  "asked_since [] = []"
| "asked_since (Invalidate # calls) = asked_since calls"
| "asked_since (Ask env now readable db node # calls) =
     (if Invalidate \<in> set calls then asked_since calls else (now, db) # asked_since calls)"

definition fence_inv :: "fence_call list \<Rightarrow> fence \<Rightarrow> bool" where
  "fence_inv calls f \<longleftrightarrow> graduated f = [] \<or> expires_at f = 0 \<or>
     (\<exists>(t, db) \<in> set (asked_since calls). graduated f = query_graduated db \<and> expires_at f = t + TTL_S)"

lemma asked_since_snoc:
  "asked_since (calls @ [Invalidate]) = []"
  "asked_since (calls @ [Ask env now readable db node]) = asked_since calls @ [(now, db)]"
proof -
  show "asked_since (calls @ [Invalidate]) = []"
    by (induction calls rule: asked_since.induct) auto
  show "asked_since (calls @ [Ask env now readable db node]) = asked_since calls @ [(now, db)]"
    by (induction calls rule: asked_since.induct) auto
qed

lemma fence_inv_step:
  assumes "fence_inv calls f" shows "fence_inv (calls @ [c]) (fence_step c f)"
proof (cases c)
  case Invalidate
  then show ?thesis by (simp add: fence_inv_def fence_step_def invalidate_fence_def)
next
  case (Ask env now readable db node)
  then show ?thesis using assms
    by (auto simp: fence_inv_def fence_step_def in_probation_def graduated_ids_def asked_since_snoc split: option.splits)
qed

lemma fence_inv_run: "fence_inv calls (fold fence_step calls initial_fence)"
proof (induction calls rule: rev_induct)
  case Nil
  then show ?case by (simp add: fence_inv_def initial_fence_def)
next
  case (snoc c calls)
  then show ?case using fence_inv_step [OF snoc] by simp
qed

text \<open>C9: However questions, failing reads and invalidations interleave, while the fence is on a
  polled radar's frame is let out only if its row says graduated in a database some question read
  less than five seconds ago and since the last invalidation, or in the one this question reads.\<close>

theorem fence_fails_closed:
  assumes "fence_enabled env" and "system_of n = Some POLLED_BLAH2" and "0 \<le> now"
    and "in_probation env now readable db (Some n) (fold fence_step calls initial_fence) = (f', False)"
  shows "\<exists>(t, d) \<in> insert (now, db) (set (asked_since calls)). now < t + TTL_S \<and>
     (\<exists>r. (n, r) \<in> set (radars d) \<and> trust_state r = GRADUATED)"
proof -
  let ?f = "fold fence_step calls initial_fence"
  have "take 3 n = POLLED_BLAH2" using assms(2) by (simp add: system_of_def split: if_splits)
  moreover have "has_prefix (take k s) s" for k s
  proof (induction s arbitrary: k)
    case (Cons c s)
    then show ?case by (cases k) simp_all
  qed simp
  ultimately have pre: "has_prefix POLLED_BLAH2 n" by metis
  obtain ids where ids: "graduated_ids now readable db ?f = (f', ids)" "n \<in> set ids"
    using assms pre by (auto simp: in_probation_def split: prod.splits)
  have q: "(\<exists>r. (n, r) \<in> set (radars d) \<and> trust_state r = GRADUATED)" if "n \<in> set (query_graduated d)" for d
    using that by (auto simp: query_graduated_def)
  show ?thesis
  proof (cases "now < expires_at ?f")
    case True
    then have "graduated_ids now readable db ?f = (?f, graduated ?f)" by (simp add: graduated_ids_def)
    then have "ids = graduated ?f" using ids(1) by (metis prod.inject)
    then have "graduated ?f \<noteq> []" "expires_at ?f \<noteq> 0" using ids True assms(3) by auto
    then obtain t d where "(t, d) \<in> set (asked_since calls)" "graduated ?f = query_graduated d" "expires_at ?f = t + TTL_S"
      using fence_inv_run [of calls] by (auto simp: fence_inv_def)
    then show ?thesis using True ids q \<open>ids = graduated ?f\<close> by (auto intro!: bexI [of _ "(t, d)"])
  next
    case False
    then have "ids = query_graduated db" using ids by (auto simp: graduated_ids_def split: if_splits)
    then show ?thesis using ids q [of db] by (auto simp: TTL_S_def)
  qed
qed

definition sample_radar :: "string \<Rightarrow> polled_radar" where
  "sample_radar trust = \<lparr>epoch = 1, endpoint_raw = ''radar.example'', pr_scheme = ''http'', pr_host = ''radar.example'',
     pr_port = 3000, pr_key = ''radar.example:3000'', pr_user = None, pr_secret_enc = None, last_resolved_ip = None,
     resolved_at = None, network_moves = 0, last_network_move_at = None, pr_fingerprint = ''f'', probe_passed_at = 0,
     endpoint_changed_at = 0, trust_state = trust, unprotected = True, pr_liveness = LIVE_PENDING, last_frame_at = None,
     last_config_at = None, consecutive_failures = 0, pr_created = 0\<rparr>"

theorem fence_fails_closed_witness:
  "\<exists>calls f'. in_probation None 13 True sample_db (Some ''bla00000001'') (fold fence_step calls initial_fence) = (f', False) \<and>
     (\<exists>(t, d) \<in> insert (13, sample_db) (set (asked_since calls)). 13 < t + TTL_S)"
proof -
  let ?db = "sample_db\<lparr>radars := [(''bla00000001'', sample_radar GRADUATED)]\<rparr>"
  let ?calls = "[Invalidate, Ask None 10 True ?db (Some ''bla00000001'')]"
  have s: "system_of ''bla00000001'' = Some POLLED_BLAH2"
    by (simp add: system_of_def shape_matches_def is_lower_ascii_def is_lower_hex_def is_digit_def code_def SYSTEMS_def FLEET_def POLLED_BLAH2_def)
  have e: "fence_enabled None" by (simp add: fence_enabled_def)
  have "fold fence_step ?calls initial_fence = \<lparr>graduated = [''bla00000001''], expires_at = 15\<rparr>"
    by (simp add: fence_step_def invalidate_fence_def initial_fence_def in_probation_def s e graduated_ids_def query_graduated_def
        sample_radar_def TTL_S_def) (simp add: POLLED_BLAH2_def)
  then have a: "in_probation None 13 True sample_db (Some ''bla00000001'') (fold fence_step ?calls initial_fence) =
      (\<lparr>graduated = [''bla00000001''], expires_at = 15\<rparr>, False)"
    by (simp add: in_probation_def s e graduated_ids_def POLLED_BLAH2_def)
  have "\<exists>(t, d) \<in> insert (13, sample_db) (set (asked_since ?calls)). 13 < t + TTL_S"
    using fence_fails_closed [OF e s _ a] by fastforce
  with a show ?thesis by blast
qed

end
