(* ===== verification/WireFrame.thy ===== *)
theory WireFrame
  imports PyValues
begin

text \<open>
  The detection frame of the v1 contract (\<open>DetectionFrame\<close> in \<open>routes/node_schemas.py\<close>) with its
  validators, and the dictionary a frame becomes on the frame queue (\<open>services/node_pipeline.py\<close>).
  The fields of a frame have been parsed to their types: what is left of the model's own checks
  are the bounds and patterns of the annotations and the two validators over the whole frame.
\<close>

subsection \<open>The wire model\<close>

definition MAX_DETECTIONS :: nat where "MAX_DETECTIONS = 512"
definition MAX_TRACKS :: nat where "MAX_TRACKS = 32"

record adsb_tag =
  tag_hex :: string
  tag_lat :: real
  tag_lon :: real
  tag_alt :: "real option"
  tag_gs :: "real option"
  tag_track :: "real option"
  tag_expected_delay :: "real option"
  tag_expected_doppler :: "real option"
  tag_delay_residual :: "real option"
  tag_doppler_residual :: "real option"

datatype track_state = Active | Coasting | Deleted

record wire_track =
  w_id :: string
  w_state :: track_state
  w_hit :: "int option"
  w_associated :: int
  w_missed :: int
  w_hex :: "string option"
  w_anomalous :: bool
  w_anomaly_types :: "string list"
  w_max_velocity :: real
  w_born_t :: "real option"
  w_avg_snr :: "real option"
  w_shadow :: "real option"
  w_interference :: "real option"

record wire_frame =
  f_t :: real
  f_seq :: int
  f_boot_id :: string
  f_config_version :: int
  f_delay :: "real list"
  f_doppler :: "real list"
  f_snr :: "real list"
  f_adsb_hex :: "string option list option"
  f_adsb :: "adsb_tag option list option"
  f_tracker :: "string option"
  f_tracks :: "wire_track list option"

definition hex6 :: "string \<Rightarrow> bool" where
  "hex6 s \<longleftrightarrow> length s = 6 \<and> list_all (\<lambda>c. is_digit c \<or> 97 \<le> code c \<and> code c \<le> 102) s"

definition boot_id_ok :: "string \<Rightarrow> bool" where
  "boot_id_ok s \<longleftrightarrow> 8 \<le> length s \<and> length s \<le> 32 \<and> list_all (\<lambda>c. is_digit c \<or> is_lower_ascii c) s"

definition tracker_token :: "string \<Rightarrow> bool" where
  "tracker_token s \<longleftrightarrow> 1 \<le> length s \<and> length s \<le> 64 \<and>
     list_all (\<lambda>c. is_digit c \<or> is_upper_ascii c \<or> is_lower_ascii c \<or> c = CHR ''.'' \<or> c = CHR ''_'' \<or> c = CHR ''-'') s"

definition anomaly_type :: "string \<Rightarrow> bool" where
  "anomaly_type s \<longleftrightarrow> 1 \<le> length s \<and> length s \<le> 48 \<and> list_all is_lower_ascii (take 1 s) \<and>
     list_all (\<lambda>c. is_lower_ascii c \<or> is_digit c \<or> c = CHR ''_'') (drop 1 s)"

definition some_ok :: "('a \<Rightarrow> bool) \<Rightarrow> 'a option \<Rightarrow> bool" where
  "some_ok p x = (case x of None \<Rightarrow> True | Some v \<Rightarrow> p v)"

definition tag_fields_ok :: "adsb_tag \<Rightarrow> bool" where
  "tag_fields_ok g \<longleftrightarrow> hex6 (tag_hex g) \<and> -90 \<le> tag_lat g \<and> tag_lat g \<le> 90 \<and> -180 \<le> tag_lon g \<and> tag_lon g \<le> 180"

definition track_fields_ok :: "wire_track \<Rightarrow> bool" where
  "track_fields_ok w \<longleftrightarrow>
     tracker_token (w_id w) \<and> some_ok (\<lambda>h. 0 \<le> h) (w_hit w) \<and> 1 \<le> w_associated w \<and> 0 \<le> w_missed w \<and>
     some_ok hex6 (w_hex w) \<and> length (w_anomaly_types w) \<le> 16 \<and> list_all anomaly_type (w_anomaly_types w) \<and>
     0 \<le> w_max_velocity w \<and> some_ok (\<lambda>x. 0 \<le> x) (w_born_t w) \<and>
     some_ok (\<lambda>x. 0 \<le> x \<and> x \<le> 1) (w_shadow w) \<and> some_ok (\<lambda>x. 0 \<le> x \<and> x \<le> 1) (w_interference w)"

definition frame_fields_ok :: "wire_frame \<Rightarrow> bool" where
  "frame_fields_ok f \<longleftrightarrow>
     0 \<le> f_t f \<and> 0 \<le> f_seq f \<and> boot_id_ok (f_boot_id f) \<and> 1 \<le> f_config_version f \<and>
     length (f_delay f) \<le> MAX_DETECTIONS \<and> length (f_doppler f) \<le> MAX_DETECTIONS \<and>
     length (f_snr f) \<le> MAX_DETECTIONS \<and>
     some_ok (\<lambda>hs. length hs \<le> MAX_DETECTIONS \<and> list_all (some_ok hex6) hs) (f_adsb_hex f) \<and>
     some_ok (\<lambda>gs. length gs \<le> MAX_DETECTIONS \<and> list_all (some_ok tag_fields_ok) gs) (f_adsb f) \<and>
     some_ok tracker_token (f_tracker f) \<and>
     some_ok (\<lambda>ws. length ws \<le> MAX_TRACKS \<and> list_all track_fields_ok ws) (f_tracks f)"

datatype frame_error =
    FieldRefused
  | ColumnsDiffer | HexColumnDiffers | TagColumnDiffers | TagContradictsHex nat
  | TracksWithoutTracker | IdRepeats nat | ActiveWithoutHit nat | HitNotAllowed nat
  | HitOutside nat | HitTaken nat

text \<open>\<open>_arrays_are_parallel\<close>.  Where tags and hexes are compared the two lists have one length.\<close>

fun tags_agree :: "nat \<Rightarrow> adsb_tag option list \<Rightarrow> string option list \<Rightarrow> frame_error + unit" where
  "tags_agree i (tag # tags) (h # hs) =
     (case tag of
        Some g \<Rightarrow> if Some (tag_hex g) \<noteq> h then Inl (TagContradictsHex i) else tags_agree (Suc i) tags hs
      | None \<Rightarrow> tags_agree (Suc i) tags hs)"
| "tags_agree i _ _ = Inr ()"

definition arrays_are_parallel :: "wire_frame \<Rightarrow> frame_error + unit" where
  "arrays_are_parallel f =
     (let n = length (f_delay f) in
      if length (f_doppler f) \<noteq> n \<or> length (f_snr f) \<noteq> n then Inl ColumnsDiffer
      else if (case f_adsb_hex f of None \<Rightarrow> False | Some hs \<Rightarrow> length hs \<noteq> n) then Inl HexColumnDiffers
      else (case f_adsb f of
              None \<Rightarrow> Inr ()
            | Some tags \<Rightarrow>
                if length tags \<noteq> n then Inl TagColumnDiffers
                else (case f_adsb_hex f of None \<Rightarrow> Inr () | Some hs \<Rightarrow> tags_agree 0 tags hs)))"

text \<open>\<open>_tracks_name_this_frames_detections\<close>, the loop with the ids and hits seen so far.\<close>

fun check_tracks :: "int \<Rightarrow> nat \<Rightarrow> string list \<Rightarrow> int list \<Rightarrow> wire_track list \<Rightarrow> frame_error + unit" where
  "check_tracks n i ids hits [] = Inr ()"
| "check_tracks n i ids hits (w # ws) =
     (if w_id w \<in> set ids then Inl (IdRepeats i)
      else if w_state w = Active \<and> w_hit w = None then Inl (ActiveWithoutHit i)
      else if w_state w \<noteq> Active \<and> w_hit w \<noteq> None then Inl (HitNotAllowed i)
      else (case w_hit w of
              None \<Rightarrow> check_tracks n (Suc i) (w_id w # ids) hits ws
            | Some h \<Rightarrow>
                if n \<le> h then Inl (HitOutside i)
                else if h \<in> set hits then Inl (HitTaken i)
                else check_tracks n (Suc i) (w_id w # ids) (h # hits) ws))"

definition tracks_name_detections :: "wire_frame \<Rightarrow> frame_error + unit" where
  "tracks_name_detections f =
     (case f_tracks f of
        None \<Rightarrow> Inr ()
      | Some ws \<Rightarrow>
          if f_tracker f = None then Inl TracksWithoutTracker
          else check_tracks (int (length (f_delay f))) 0 [] [] ws)"

definition detection_frame :: "wire_frame \<Rightarrow> frame_error + wire_frame" where
  "detection_frame f =
     (if \<not> frame_fields_ok f then Inl FieldRefused
      else bind_result (arrays_are_parallel f) (\<lambda>_. bind_result (tracks_name_detections f) (\<lambda>_. Inr f)))"

subsection \<open>The frame on the queue\<close>

type_synonym queue_frame = "(string, json) dict"

definition jnum :: "real \<Rightarrow> json" where "jnum x = JFloat (Fin x)"

definition jopt :: "('a \<Rightarrow> json) \<Rightarrow> 'a option \<Rightarrow> json" where
  "jopt f x = (case x of None \<Rightarrow> JNull | Some v \<Rightarrow> f v)"

definition hexes :: "wire_frame \<Rightarrow> string option list" where
  "hexes f =
     (case f_adsb_hex f of
        Some hs \<Rightarrow> hs
      | None \<Rightarrow>
          (case f_adsb f of
             Some tags \<Rightarrow> map (map_option tag_hex) tags
           | None \<Rightarrow> replicate (length (f_delay f)) None))"

definition tag_record :: "adsb_tag \<Rightarrow> json" where
  "tag_record g =
     JObj ([(''hex'', JStr (tag_hex g)), (''lat'', jnum (tag_lat g)), (''lon'', jnum (tag_lon g))] @
       List.map_filter (\<lambda>(k, v). map_option (\<lambda>x. (k, jnum x)) v)
         [(''alt_baro'', tag_alt g), (''gs'', tag_gs g), (''track'', tag_track g),
          (''expected_delay'', tag_expected_delay g), (''expected_doppler'', tag_expected_doppler g),
          (''delay_residual'', tag_delay_residual g), (''doppler_residual'', tag_doppler_residual g)])"

definition state_name :: "track_state \<Rightarrow> string" where
  "state_name s = (case s of Active \<Rightarrow> ''active'' | Coasting \<Rightarrow> ''coasting'' | Deleted \<Rightarrow> ''deleted'')"

definition dump_track :: "wire_track \<Rightarrow> json" where
  "dump_track w =
     JObj [(''id'', JStr (w_id w)), (''state'', JStr (state_name (w_state w))), (''hit'', jopt JInt (w_hit w)),
       (''n_associated'', JInt (w_associated w)), (''n_missed'', JInt (w_missed w)),
       (''adsb_hex'', jopt JStr (w_hex w)), (''is_anomalous'', JBool (w_anomalous w)),
       (''anomaly_types'', JArr (map JStr (w_anomaly_types w))), (''max_velocity_ms'', jnum (w_max_velocity w)),
       (''born_t'', jopt jnum (w_born_t w)), (''avg_snr'', jopt jnum (w_avg_snr w)),
       (''shadow_fraction'', jopt jnum (w_shadow w)), (''interference_fraction'', jopt jnum (w_interference w))]"

text \<open>\<open>int(frame.t * 1000)\<close> truncates, and \<open>t\<close> is never negative.\<close>

definition milliseconds :: "real \<Rightarrow> int" where "milliseconds t = \<lfloor>t * 1000\<rfloor>"

definition pipeline_frame :: "wire_frame \<Rightarrow> queue_frame" where
  "pipeline_frame f =
     [(''timestamp'', JInt (milliseconds (f_t f))),
      (''delay'', JArr (map jnum (f_delay f))), (''doppler'', JArr (map jnum (f_doppler f))),
      (''snr'', JArr (map jnum (f_snr f))), (''adsb_hex'', JArr (map (jopt JStr) (hexes f))),
      (''seq'', JInt (f_seq f)), (''boot_id'', JStr (f_boot_id f)),
      (''config_version'', JInt (f_config_version f))] @
     (case f_adsb f of None \<Rightarrow> [] | Some tags \<Rightarrow> [(''adsb'', JArr (map (jopt tag_record) tags))]) @
     (case f_tracker f of
        None \<Rightarrow> []
      | Some r \<Rightarrow>
          (''tracker'', JObj [(''run'', JStr r)]) #
          (case f_tracks f of None \<Rightarrow> [] | Some ws \<Rightarrow> [(''tracks'', JArr (map dump_track ws))]))"

subsection \<open>What an accepted frame is\<close>

lemma tags_agree_nth:
  "tags_agree i tags hs = Inr () \<Longrightarrow> length tags = length hs \<Longrightarrow> j < length tags \<Longrightarrow> tags ! j = Some g
   \<Longrightarrow> hs ! j = Some (tag_hex g)"
proof (induction i tags hs arbitrary: j rule: tags_agree.induct)
  case (1 i tag tags h hs)
  show ?case
  proof (cases j)
    case 0
    then show ?thesis using 1 by (auto split: if_splits)
  next
    case (Suc k)
    then show ?thesis using 1 by (auto split: option.splits if_splits)
  qed
qed auto

lemma check_tracks_ok:
  "check_tracks n i ids hits ws = Inr () \<longleftrightarrow>
     distinct (map w_id ws) \<and> set (map w_id ws) \<inter> set ids = {} \<and>
     (\<forall>w \<in> set ws. (w_state w = Active) = (w_hit w \<noteq> None)) \<and>
     distinct (List.map_filter w_hit ws) \<and> set (List.map_filter w_hit ws) \<inter> set hits = {} \<and>
     (\<forall>h \<in> set (List.map_filter w_hit ws). h < n)"
proof (induction n i ids hits ws rule: check_tracks.induct)
  case (2 n i ids hits w ws)
  show ?case
    by (cases "w_hit w") (auto simp: 2 map_filter_simps not_le)
qed (simp add: map_filter_simps)

lemma detection_frame_Inr:
  "detection_frame f = Inr g \<longleftrightarrow>
     g = f \<and> frame_fields_ok f \<and> arrays_are_parallel f = Inr () \<and> tracks_name_detections f = Inr ()"
  by (auto simp: detection_frame_def bind_result_eq_Inr)

lemma parallel_lengths:
  assumes "arrays_are_parallel f = Inr ()"
  shows "length (f_doppler f) = length (f_delay f)" and "length (f_snr f) = length (f_delay f)"
    and "length (hexes f) = length (f_delay f)"
    and "f_adsb f = Some tags \<Longrightarrow> length tags = length (f_delay f)"
  using assms by (auto simp: arrays_are_parallel_def hexes_def Let_def split: if_splits option.splits)

lemma parallel_tags:
  assumes "arrays_are_parallel f = Inr ()" and "f_adsb f = Some tags" and "j < length tags" and "tags ! j = Some g"
  shows "hexes f ! j = Some (tag_hex g)"
proof (cases "f_adsb_hex f")
  case None
  then show ?thesis using assms(2,3,4) by (simp add: hexes_def)
next
  case (Some hs)
  then show ?thesis using assms tags_agree_nth [of 0 tags hs j g]
    by (auto simp: arrays_are_parallel_def hexes_def Let_def split: if_splits)
qed

text \<open>
  The columns of a queue frame are the lists under its keys.
\<close>

definition column :: "queue_frame \<Rightarrow> string \<Rightarrow> json list" where
  "column d k = (case dict_get d k of Some (JArr xs) \<Rightarrow> xs | _ \<Rightarrow> [])"

lemma pipeline_columns:
  "column (pipeline_frame f) ''delay'' = map jnum (f_delay f)"
  "column (pipeline_frame f) ''doppler'' = map jnum (f_doppler f)"
  "column (pipeline_frame f) ''snr'' = map jnum (f_snr f)"
  "column (pipeline_frame f) ''adsb_hex'' = map (jopt JStr) (hexes f)"
  "dict_get (pipeline_frame f) ''timestamp'' = Some (JInt (milliseconds (f_t f)))"
  "dict_get (pipeline_frame f) ''adsb'' = map_option (\<lambda>tags. JArr (map (jopt tag_record) tags)) (f_adsb f)"
  "dict_get (pipeline_frame f) ''tracker'' = map_option (\<lambda>r. JObj [(''run'', JStr r)]) (f_tracker f)"
  "dict_get (pipeline_frame f) ''tracks'' =
     (if f_tracker f = None then None else map_option (\<lambda>ws. JArr (map dump_track ws)) (f_tracks f))"
  by (simp_all add: column_def pipeline_frame_def dict_get_def split: option.split)

lemma accepted_tracks:
  assumes "detection_frame f = Inr g" and "f_tracks f = Some ws"
  shows "distinct (map w_id ws)" and "distinct (List.map_filter w_hit ws)"
    and "w \<in> set ws \<Longrightarrow> (case w_hit w of None \<Rightarrow> w_state w \<noteq> Active
           | Some h \<Rightarrow> w_state w = Active \<and> 0 \<le> h \<and> h < int (length (f_delay f)))"
proof -
  from assms have fo: "frame_fields_ok f" and "tracks_name_detections f = Inr ()"
    by (simp_all add: detection_frame_Inr)
  then have "check_tracks (int (length (f_delay f))) 0 [] [] ws = Inr ()"
    using assms(2) by (auto simp: tracks_name_detections_def split: if_splits)
  then have ok: "distinct (map w_id ws)" "\<forall>w \<in> set ws. (w_state w = Active) = (w_hit w \<noteq> None)"
    "distinct (List.map_filter w_hit ws)" "\<forall>h \<in> set (List.map_filter w_hit ws). h < int (length (f_delay f))"
    by (simp_all add: check_tracks_ok)
  show "distinct (map w_id ws)" "distinct (List.map_filter w_hit ws)" by (rule ok)+
  assume w: "w \<in> set ws"
  show "case w_hit w of None \<Rightarrow> w_state w \<noteq> Active
          | Some h \<Rightarrow> w_state w = Active \<and> 0 \<le> h \<and> h < int (length (f_delay f))"
  proof (cases "w_hit w")
    case None
    then show ?thesis using ok(2) w by auto
  next
    case (Some h)
    then have "h \<in> set (List.map_filter w_hit ws)" using w by (force simp: List.map_filter_def)
    moreover have "some_ok (\<lambda>h. 0 \<le> h) (w_hit w)"
      using fo w assms(2) by (auto simp: frame_fields_ok_def some_ok_def list_all_iff track_fields_ok_def)
    ultimately show ?thesis using ok(2,4) w Some by (auto simp: some_ok_def)
  qed
qed

text \<open>C10:A frame the wire model accepts reaches the queue as one table: \<open>delay\<close>, \<open>doppler\<close>, \<open>snr\<close> and
  \<open>adsb_hex\<close> all have one entry per detection, an ADS-B tag stands beside its own hex, track ids
  are unique, exactly the active tracks name a hit, and the hits are distinct indices of the
  table.  Accepting the frame changes nothing about it.
\<close>
theorem accepted_frame_is_one_table:
  assumes "detection_frame f = Inr g"
  shows "g = f \<and>
    (\<forall>k. k = ''delay'' \<or> k = ''doppler'' \<or> k = ''snr'' \<or> k = ''adsb_hex'' \<longrightarrow>
       length (column (pipeline_frame g) k) = length (f_delay f)) \<and>
    (\<forall>tags j tag. f_adsb f = Some tags \<and> j < length tags \<and> tags ! j = Some tag \<longrightarrow>
       column (pipeline_frame g) ''adsb_hex'' ! j = JStr (tag_hex tag)) \<and>
    (\<forall>ws. f_tracks f = Some ws \<longrightarrow> distinct (map w_id ws) \<and> distinct (List.map_filter w_hit ws) \<and>
       (\<forall>w \<in> set ws. case w_hit w of None \<Rightarrow> w_state w \<noteq> Active
          | Some h \<Rightarrow> w_state w = Active \<and> 0 \<le> h \<and> h < int (length (f_delay f))))"
proof -
  from assms have g: "g = f" and par: "arrays_are_parallel f = Inr ()" by (simp_all add: detection_frame_Inr)
  have "column (pipeline_frame g) ''adsb_hex'' ! j = JStr (tag_hex tag)"
    if "f_adsb f = Some tags" "j < length tags" "tags ! j = Some tag" for tags j tag
    using parallel_tags [OF par that] parallel_lengths(3) [OF par] parallel_lengths(4) [OF par that(1)] that(2)
    by (simp add: g pipeline_columns jopt_def)
  then show ?thesis
    using g parallel_lengths [OF par] accepted_tracks [OF assms] by (auto simp: pipeline_columns)
qed

definition sample_frame :: wire_frame where
  "sample_frame =
     \<lparr>f_t = 1700000000, f_seq = 7, f_boot_id = ''abcdef01'', f_config_version = 1,
      f_delay = [20, 35], f_doppler = [4, -8], f_snr = [12, 9], f_adsb_hex = None,
      f_adsb = Some [Some \<lparr>tag_hex = ''4ca1b2'', tag_lat = 51, tag_lon = -1, tag_alt = None, tag_gs = Some 420,
                       tag_track = None, tag_expected_delay = None, tag_expected_doppler = None,
                       tag_delay_residual = None, tag_doppler_residual = None\<rparr>, None],
      f_tracker = Some ''run1'',
      f_tracks = Some [\<lparr>w_id = ''t1'', w_state = Active, w_hit = Some 1, w_associated = 3, w_missed = 0, w_hex = None,
                         w_anomalous = False, w_anomaly_types = [], w_max_velocity = 0, w_born_t = None,
                         w_avg_snr = None, w_shadow = None, w_interference = None\<rparr>]\<rparr>"

lemma sample_frame_accepted: "detection_frame sample_frame = Inr sample_frame"
  by (simp add: detection_frame_def sample_frame_def frame_fields_ok_def boot_id_ok_def some_ok_def MAX_DETECTIONS_def
      MAX_TRACKS_def tag_fields_ok_def hex6_def tracker_token_def track_fields_ok_def is_digit_def is_lower_ascii_def
      is_upper_ascii_def code_def arrays_are_parallel_def tracks_name_detections_def)

theorem accepted_frame_is_one_table_witness:
  "length (column (pipeline_frame sample_frame) ''adsb_hex'') = 2 \<and>
   column (pipeline_frame sample_frame) ''adsb_hex'' ! 0 = JStr ''4ca1b2''"
  using accepted_frame_is_one_table [OF sample_frame_accepted] by (simp add: sample_frame_def)

end
