(* ===== verification/NodeTracks.thy ===== *)
theory NodeTracks
  imports WireFrame
begin

text \<open>
  Each node's own tracks (\<open>services/node_tracks.py\<close>): the store a frame worker files a frame's
  tracks in, the views the dark lane reads, and the tracker that stands on them.  A frame is the
  queue's dictionary, which may have arrived untyped, so a track is read from JSON.  Python's
  \<open>str\<close> on a value that is no string is the parameter \<open>show\<close>; the lock makes every
  operation one step.
\<close>

definition STALE_TRACK_S :: int where "STALE_TRACK_S = 120"
definition DISPLAY_STALE_TRACK_S :: int where "DISPLAY_STALE_TRACK_S = 15"
definition N2_TRACK_HISTORY_MAX :: nat where "N2_TRACK_HISTORY_MAX = 20"
definition FORGET_MS :: int where "FORGET_MS = STALE_TRACK_S * 1000"
definition SHOWN_MS :: int where "SHOWN_MS = DISPLAY_STALE_TRACK_S * 1000"

subsection \<open>Python on JSON values\<close>

fun truthy :: "json \<Rightarrow> bool" where
  "truthy JNull = False"
| "truthy (JBool b) = b"
| "truthy (JInt i) = (i \<noteq> 0)"
| "truthy (JFloat x) = (x \<noteq> Fin 0)"
| "truthy (JStr s) = (s \<noteq> [])"
| "truthy (JArr xs) = (xs \<noteq> [])"
| "truthy (JObj d) = (d \<noteq> [])"

definition py_str :: "(json \<Rightarrow> string) \<Rightarrow> json \<Rightarrow> string" where
  "py_str show v = (case v of JStr s \<Rightarrow> s | _ \<Rightarrow> show v)"

text \<open>What a loop over a value, or \<open>list\<close> of it, goes through; \<open>None\<close> is a \<open>TypeError\<close>.\<close>

definition py_iter :: "json \<Rightarrow> json list option" where
  "py_iter v =
     (case v of JArr xs \<Rightarrow> Some xs | JStr s \<Rightarrow> Some (map (\<lambda>c. JStr [c]) s) | JObj d \<Rightarrow> Some (map JStr (dict_keys d))
      | _ \<Rightarrow> None)"

text \<open>\<open>v[i]\<close> for an index that is not negative.\<close>

definition py_index :: "json \<Rightarrow> nat \<Rightarrow> json option" where
  "py_index v i =
     (case v of JArr xs \<Rightarrow> if i < length xs then Some (xs ! i) else None
      | JStr s \<Rightarrow> if i < length s then Some (JStr [s ! i]) else None
      | _ \<Rightarrow> None)"

definition int_of_string :: "string \<Rightarrow> int option" where
  "int_of_string s0 =
     (let s = strip s0 in
      if \<not> underscores_ok None s then None
      else (let (sg, ds) = read_sign (filter (\<lambda>c. c \<noteq> CHR ''_'') s)
            in if ds \<noteq> [] \<and> list_all is_digit ds then Some (sg * int (nat_of_digits ds)) else None))"

text \<open>\<open>int(v)\<close>, which truncates a float.\<close>

definition py_int :: "json \<Rightarrow> int option" where
  "py_int v =
     (case v of JInt i \<Rightarrow> Some i | JBool b \<Rightarrow> Some (if b then 1 else 0)
      | JFloat (Fin x) \<Rightarrow> Some (if x < 0 then \<lceil>x\<rceil> else \<lfloor>x\<rfloor>)
      | JStr s \<Rightarrow> int_of_string s
      | _ \<Rightarrow> None)"

definition normalize_hex_key :: "(json \<Rightarrow> string) \<Rightarrow> json \<Rightarrow> string" where
  "normalize_hex_key show v = lower (strip (if truthy v then py_str show v else []))"

subsection \<open>The store\<close>

datatype closing = DeletedByNode | TrackerRestart

record track_point =
  pt_timestamp :: int
  pt_delay :: json
  pt_doppler :: json
  pt_snr :: json
  pt_adsb :: json

text \<open>What a frame says of a track: the fields \<open>_file\<close> copies.\<close>

record track_update =
  u_track :: string
  u_state :: track_state
  u_associated :: json
  u_missed :: json
  u_hex :: json
  u_anomalous :: json
  u_anomaly_types :: "json list"
  u_max_velocity :: json
  u_born_t :: json
  u_avg_snr :: json
  u_shadow :: json
  u_interference :: json

record node_track =
  nt_said :: track_update
  nt_closed :: "closing option"
  nt_window :: "track_point list"
  nt_unclaimed :: nat
  nt_tags :: "string list"
  nt_last_named :: int

record tracked_node =
  tn_run :: "string option"
  tn_tracks :: "(string \<times> string, node_track) dict"

type_synonym track_store = "(string, tracked_node) dict"

definition tracker_run :: "(json \<Rightarrow> string) \<Rightarrow> queue_frame \<Rightarrow> string option" where
  "tracker_run show frame =
     (case py_get frame ''tracker'' of
        JObj d \<Rightarrow> if truthy (py_get d ''run'') then Some (py_str show (py_get d ''run'')) else None
      | _ \<Rightarrow> None)"

definition state_of :: "json \<Rightarrow> track_state option" where
  "state_of v =
     (if v = JStr ''active'' then Some Active else if v = JStr ''coasting'' then Some Coasting
      else if v = JStr ''deleted'' then Some Deleted else None)"

definition read_point :: "queue_frame \<Rightarrow> int \<Rightarrow> nat \<Rightarrow> track_point option" where
  "read_point frame now hit =
     (let cell = (\<lambda>k. Option.bind (dict_get frame k) (\<lambda>v. py_index v hit)); adsb = py_get frame ''adsb'' in
      case (cell ''delay'', cell ''doppler'', cell ''snr'', if truthy adsb then py_index adsb hit else Some JNull) of
        (Some d, Some p, Some s, Some a) \<Rightarrow>
          Some \<lparr>pt_timestamp = now, pt_delay = d, pt_doppler = p, pt_snr = s, pt_adsb = a\<rparr>
      | _ \<Rightarrow> None)"

text \<open>\<open>_read\<close>: \<open>None\<close> where it raises one of the errors the caller refuses the track for.\<close>

definition read_update :: "(json \<Rightarrow> string) \<Rightarrow> queue_frame \<Rightarrow> track_update option" where
  "read_update show d =
     (case (Option.bind (dict_get d ''state'') state_of, dict_get d ''id'', dict_get d ''n_associated'',
            dict_get d ''n_missed'', dict_get d ''is_anomalous'',
            if truthy (py_get d ''anomaly_types'') then py_iter (py_get d ''anomaly_types'') else Some [],
            dict_get d ''max_velocity_ms'') of
        (Some st, Some i, Some a, Some m, Some an, Some types, Some v) \<Rightarrow>
          Some \<lparr>u_track = py_str show i, u_state = st, u_associated = a, u_missed = m, u_hex = py_get d ''adsb_hex'',
                u_anomalous = an, u_anomaly_types = types, u_max_velocity = v, u_born_t = py_get d ''born_t'',
                u_avg_snr = py_get d ''avg_snr'', u_shadow = py_get d ''shadow_fraction'',
                u_interference = py_get d ''interference_fraction''\<rparr>
      | _ \<Rightarrow> None)"

definition read_track ::
    "(json \<Rightarrow> string) \<Rightarrow> json \<Rightarrow> queue_frame \<Rightarrow> int \<Rightarrow> (track_update \<times> (nat \<times> track_point) option) option" where
  "read_track show wire frame now =
     (case wire of
        JObj d \<Rightarrow>
          (case read_update show d of
             None \<Rightarrow> None
           | Some u \<Rightarrow>
               (case py_get d ''hit'' of
                  JNull \<Rightarrow> Some (u, None)
                | JInt h \<Rightarrow>
                    if h < 0 then None
                    else map_option (\<lambda>p. (u, Some (nat h, p))) (read_point frame now (nat h))
                | _ \<Rightarrow> None))
      | _ \<Rightarrow> None)"

definition new_track :: "track_update \<Rightarrow> node_track" where
  "new_track u = \<lparr>nt_said = u, nt_closed = None, nt_window = [], nt_unclaimed = 0, nt_tags = [], nt_last_named = 0\<rparr>"

definition keep_last :: "nat \<Rightarrow> 'a list \<Rightarrow> 'a list" where
  "keep_last n xs = drop (length xs - n) xs"

definition tag_of :: "(json \<Rightarrow> string) \<Rightarrow> track_point \<Rightarrow> string" where
  "tag_of show p = (case pt_adsb p of JObj d \<Rightarrow> normalize_hex_key show (py_get d ''hex'') | _ \<Rightarrow> [])"

definition take_point :: "(json \<Rightarrow> string) \<Rightarrow> bool \<Rightarrow> track_point \<Rightarrow> node_track \<Rightarrow> node_track" where
  "take_point show claimed p t =
     (let t1 = t\<lparr>nt_window := keep_last N2_TRACK_HISTORY_MAX (nt_window t @ [p])\<rparr> in
      if claimed then t1\<lparr>nt_unclaimed := 0, nt_tags := []\<rparr>
      else (let tag = tag_of show p in
            t1\<lparr>nt_unclaimed := nt_unclaimed t1 + 1,
               nt_tags := (if tag = [] then nt_tags t1 else List.insert tag (nt_tags t1))\<rparr>))"

definition file_track ::
    "(json \<Rightarrow> string) \<Rightarrow> string \<Rightarrow> track_update \<Rightarrow> track_point option \<Rightarrow> bool \<Rightarrow> int \<Rightarrow> tracked_node \<Rightarrow> tracked_node" where
  "file_track show rn u point claimed now node =
     (let key = (rn, u_track u); t = dict_get_default (tn_tracks node) key (new_track u) in
      if nt_closed t \<noteq> None then node
      else
        (let t1 = t\<lparr>nt_said := u, nt_last_named := now\<rparr>;
             t2 = (case point of None \<Rightarrow> t1 | Some p \<Rightarrow> take_point show claimed p t1);
             t3 = (if u_state u = Deleted then t2\<lparr>nt_closed := Some DeletedByNode\<rparr> else t2)
         in node\<lparr>tn_tracks := dict_set (tn_tracks node) key t3\<rparr>))"

definition forget :: "int \<Rightarrow> tracked_node \<Rightarrow> tracked_node" where
  "forget now node = node\<lparr>tn_tracks := dict_filter (\<lambda>k t. \<not> now - nt_last_named t > FORGET_MS) (tn_tracks node)\<rparr>"

definition start_run :: "string \<Rightarrow> tracked_node \<Rightarrow> tracked_node" where
  "start_run rn node =
     (if tn_run node = Some rn then node
      else \<lparr>tn_run = Some rn,
            tn_tracks = map (\<lambda>(k, t). (k, if nt_closed t = None then t\<lparr>nt_closed := Some TrackerRestart\<rparr> else t))
                          (tn_tracks node)\<rparr>)"

text \<open>The loop over the frame's tracks, with the count of the refused.\<close>

fun file_tracks ::
    "(json \<Rightarrow> string) \<Rightarrow> queue_frame \<Rightarrow> string \<Rightarrow> nat set \<Rightarrow> int \<Rightarrow> json list \<Rightarrow> tracked_node \<Rightarrow> nat \<Rightarrow> tracked_node \<times> nat" where
  "file_tracks show frame rn claimed now [] node refused = (node, refused)"
| "file_tracks show frame rn claimed now (wire # wires) node refused =
     (case read_track show wire frame now of
        None \<Rightarrow> file_tracks show frame rn claimed now wires node (refused + 1)
      | Some (u, hit) \<Rightarrow>
          file_tracks show frame rn claimed now wires
            (file_track show rn u (map_option snd hit) (case hit of None \<Rightarrow> False | Some (h, _) \<Rightarrow> h \<in> claimed) now node)
            refused)"

definition empty_node :: tracked_node where
  "empty_node = \<lparr>tn_run = None, tn_tracks = []\<rparr>"

definition the_node :: "track_store \<Rightarrow> string \<Rightarrow> tracked_node" where
  "the_node st node_id = dict_get_default st node_id empty_node"

text \<open>\<open>ingest\<close>: the store, and how many tracks it refused, or \<open>None\<close> where it raises.\<close>

definition ingest ::
    "(json \<Rightarrow> string) \<Rightarrow> string \<Rightarrow> queue_frame \<Rightarrow> nat set \<Rightarrow> track_store \<Rightarrow> track_store \<times> nat option" where
  "ingest show node_id frame claimed st =
     (let stamp = Option.bind (dict_get frame ''timestamp'') py_int in
      case tracker_run show frame of
        None \<Rightarrow>
          (case dict_get st node_id of
             None \<Rightarrow> (st, Some 0)
           | Some node \<Rightarrow>
               (case stamp of
                  None \<Rightarrow> (st, None)
                | Some now \<Rightarrow>
                    (let node1 = forget now node in
                     (if tn_tracks node1 = [] then dict_del st node_id else dict_set st node_id node1, Some 0))))
      | Some rn \<Rightarrow>
          (case stamp of
             None \<Rightarrow> (st, None)
           | Some now \<Rightarrow>
               (let node = start_run rn (the_node st node_id); tracks = py_get frame ''tracks'' in
                case (if truthy tracks then py_iter tracks else Some []) of
                  None \<Rightarrow> (dict_set st node_id node, None)
                | Some wires \<Rightarrow>
                    (case file_tracks show frame rn claimed now wires node 0 of
                       (node1, refused) \<Rightarrow> (dict_set st node_id (forget now node1), Some refused)))))"

subsection \<open>What the readers see\<close>

record track_view =
  v_id :: string
  v_state :: track_state
  v_said :: track_update
  v_points :: "track_point list"
  v_hex :: "string option"

definition node_track_view :: "(json \<Rightarrow> string) \<Rightarrow> string \<Rightarrow> string \<times> string \<Rightarrow> node_track \<Rightarrow> track_view" where
  "node_track_view show node_id key t =
     (let hexn = normalize_hex_key show (u_hex (nt_said t)) in
      \<lparr>v_id = node_id @ '':'' @ fst key @ '':'' @ snd key, v_state = u_state (nt_said t), v_said = nt_said t,
       v_points = drop (length (nt_window t) - nt_unclaimed t) (nt_window t),
       v_hex = (if hexn \<in> set (nt_tags t) then Some hexn else None)\<rparr>)"

definition shown :: "int \<Rightarrow> node_track \<Rightarrow> bool" where
  "shown now t \<longleftrightarrow> nt_closed t = None \<and> nt_unclaimed t \<noteq> 0 \<and> now - nt_last_named t \<le> SHOWN_MS"

definition views :: "(json \<Rightarrow> string) \<Rightarrow> string \<Rightarrow> int \<Rightarrow> track_store \<Rightarrow> track_view list" where
  "views show node_id now st =
     (case dict_get st node_id of
        None \<Rightarrow> []
      | Some node \<Rightarrow> map (\<lambda>(k, t). node_track_view show node_id k t) (filter (\<lambda>(k, t). shown now t) (tn_tracks node)))"

definition get_recent_detections :: "int \<Rightarrow> track_view \<Rightarrow> track_point list" where
  "get_recent_detections n v = (if n > 0 then keep_last (nat n) (v_points v) else [])"

record track_summary =
  nodes_sending :: nat
  open_tracks :: nat
  closed_tracks :: nat
  claimed_tracks :: nat
  summary_points :: nat

definition summary :: "track_store \<Rightarrow> track_summary" where
  "summary st =
     (let tracks = concat (map (\<lambda>(_, node). map snd (tn_tracks node)) st) in
      \<lparr>nodes_sending = length (filter (\<lambda>(_, node). tn_run node \<noteq> None) st),
       open_tracks = length (filter (\<lambda>t. nt_closed t = None) tracks),
       closed_tracks = length (filter (\<lambda>t. nt_closed t \<noteq> None) tracks),
       claimed_tracks = length (filter (\<lambda>t. nt_closed t = None \<and> nt_window t \<noteq> [] \<and> nt_unclaimed t = 0) tracks),
       summary_points = sum_list (map (\<lambda>t. length (nt_window t)) tracks)\<rparr>)"

text \<open>\<open>NodeTracker.process_frame\<close>: the tracker's new list of tracks, and the views an event is written for.\<close>

definition process_frame :: "(json \<Rightarrow> string) \<Rightarrow> string \<Rightarrow> int \<Rightarrow> track_store \<Rightarrow> track_view list \<times> track_view list" where
  "process_frame show node_id now st =
     (let vs = views show node_id now st in
      (vs, filter (\<lambda>v. case get_recent_detections 1 v of [] \<Rightarrow> False | p # _ \<Rightarrow> pt_timestamp p = now) vs))"

subsection \<open>A view shows the hits after the newest claimed one\<close>

text \<open>
  The specification keeps, per track, every hit filed with whether a binding lane had claimed it.
  A track forgotten or never seen starts a new log.  \<open>fresh\<close> are the hits after the newest
  claimed one.
\<close>

type_synonym hit_log = "(track_point \<times> bool) list"

definition fresh :: "hit_log \<Rightarrow> track_point list" where
  "fresh l = map fst (rev (takeWhile (\<lambda>h. \<not> snd h) (rev l)))"

definition log_track ::
    "string \<Rightarrow> track_update \<Rightarrow> track_point option \<Rightarrow> bool \<Rightarrow> tracked_node \<Rightarrow> (string \<times> string \<Rightarrow> hit_log)
     \<Rightarrow> string \<times> string \<Rightarrow> hit_log" where
  "log_track rn u point claimed node logs =
     (let key = (rn, u_track u);
          old = (if dict_has (tn_tracks node) key then logs key else []);
          hit = (case point of None \<Rightarrow> [] | Some p \<Rightarrow> [(p, claimed)])
      in if (case dict_get (tn_tracks node) key of None \<Rightarrow> False | Some t \<Rightarrow> nt_closed t \<noteq> None) then logs
         else logs(key := old @ hit))"

fun log_tracks ::
    "(json \<Rightarrow> string) \<Rightarrow> queue_frame \<Rightarrow> string \<Rightarrow> nat set \<Rightarrow> int \<Rightarrow> json list \<Rightarrow> tracked_node
     \<Rightarrow> (string \<times> string \<Rightarrow> hit_log) \<Rightarrow> string \<times> string \<Rightarrow> hit_log" where
  "log_tracks show frame rn claimed now [] node logs = logs"
| "log_tracks show frame rn claimed now (wire # wires) node logs =
     (case read_track show wire frame now of
        None \<Rightarrow> log_tracks show frame rn claimed now wires node logs
      | Some (u, hit) \<Rightarrow>
          (let c = (case hit of None \<Rightarrow> False | Some (h, _) \<Rightarrow> h \<in> claimed) in
           log_tracks show frame rn claimed now wires (file_track show rn u (map_option snd hit) c now node)
             (log_track rn u (map_option snd hit) c node logs)))"

definition log_ingest ::
    "(json \<Rightarrow> string) \<Rightarrow> string \<Rightarrow> queue_frame \<Rightarrow> nat set \<Rightarrow> track_store \<Rightarrow> (string \<Rightarrow> string \<times> string \<Rightarrow> hit_log)
     \<Rightarrow> string \<Rightarrow> string \<times> string \<Rightarrow> hit_log" where
  "log_ingest show node_id frame claimed st logs =
     (case (tracker_run show frame, Option.bind (dict_get frame ''timestamp'') py_int,
            if truthy (py_get frame ''tracks'') then py_iter (py_get frame ''tracks'') else Some []) of
        (Some rn, Some now, Some wires) \<Rightarrow>
          logs(node_id := log_tracks show frame rn claimed now wires (start_run rn (the_node st node_id)) (logs node_id))
      | _ \<Rightarrow> logs)"

definition logged :: "(json \<Rightarrow> string) \<Rightarrow> hit_log \<Rightarrow> node_track \<Rightarrow> bool" where
  "logged show l t \<longleftrightarrow>
     nt_window t = keep_last N2_TRACK_HISTORY_MAX (map fst l) \<and> nt_unclaimed t = length (fresh l) \<and>
     set (nt_tags t) = tag_of show ` set (fresh l) - {[]}"

definition node_logged :: "(json \<Rightarrow> string) \<Rightarrow> (string \<times> string \<Rightarrow> hit_log) \<Rightarrow> tracked_node \<Rightarrow> bool" where
  "node_logged show logs node \<longleftrightarrow> dict_ok (tn_tracks node) \<and>
     (\<forall>key t. dict_get (tn_tracks node) key = Some t \<longrightarrow> logged show (logs key) t)"

lemma keep_last_snoc: "keep_last n (keep_last n xs @ [x]) = keep_last n (xs @ [x])"
  by (cases "n \<le> length xs") (simp_all add: keep_last_def Suc_diff_le)

lemma fresh_snoc: "fresh (l @ [(p, c)]) = (if c then [] else fresh l @ [p])"
  by (simp add: fresh_def)

lemma take_point_logged: "logged show l t \<Longrightarrow> logged show (l @ [(p, c)]) (take_point show c p t)"
  by (auto simp: logged_def take_point_def Let_def keep_last_snoc fresh_snoc)

lemma logged_other:
  "logged show l (t\<lparr>nt_said := u, nt_last_named := now\<rparr>) = logged show l t"
  "logged show l (t\<lparr>nt_closed := x\<rparr>) = logged show l t"
  by (simp_all add: logged_def)

lemma new_track_logged: "logged show [] (new_track u)" "nt_closed (new_track u) = None"
  by (simp_all add: logged_def new_track_def fresh_def keep_last_def)

lemma file_track_logged:
  assumes "node_logged show logs node"
  shows "node_logged show (log_track rn u point c node logs) (file_track show rn u point c now node)"
proof -
  let ?key = "(rn, u_track u)"
  show ?thesis
  proof (cases "dict_get (tn_tracks node) ?key")
    case None
    then show ?thesis
      using assms None take_point_logged [of "show" "[]" "(new_track u)\<lparr>nt_said := u, nt_last_named := now\<rparr>"]
      by (auto simp: node_logged_def log_track_def file_track_def Let_def dict_simps logged_other new_track_logged
          split: option.split)
  next
    case (Some t)
    then have "logged show (logs ?key) t" using assms by (simp add: node_logged_def)
    then show ?thesis
      using assms Some take_point_logged [of "show" "logs ?key" "t\<lparr>nt_said := u, nt_last_named := now\<rparr>"]
      by (auto simp: node_logged_def log_track_def file_track_def Let_def dict_simps logged_other split: option.split)
  qed
qed

lemma file_tracks_logged:
  "node_logged show logs node \<Longrightarrow>
   node_logged show (log_tracks show frame rn claimed now wires node logs)
     (fst (file_tracks show frame rn claimed now wires node refused))"
  by (induction "show" frame rn claimed now wires node refused arbitrary: logs rule: file_tracks.induct)
    (auto simp: Let_def file_track_logged split: option.split)

lemma forget_logged: "node_logged show logs node \<Longrightarrow> node_logged show logs (forget now node)"
  by (auto simp: node_logged_def forget_def dict_get_filter split: option.splits if_splits)

lemma map_of_map_pair: "map_of (map (\<lambda>(k, t). (k, f t)) d) k = map_option f (map_of d k)"
  by (induction d) auto

lemma start_run_logged: "node_logged show logs node \<Longrightarrow> node_logged show logs (start_run rn node)"
  by (auto simp: node_logged_def start_run_def dict_ok_def dict_get_def case_prod_unfold comp_def logged_other
      map_of_map_pair [unfolded case_prod_unfold, where f = "\<lambda>t. if nt_closed t = None then t\<lparr>nt_closed := Some TrackerRestart\<rparr> else t"])

definition store_logged :: "(json \<Rightarrow> string) \<Rightarrow> (string \<Rightarrow> string \<times> string \<Rightarrow> hit_log) \<Rightarrow> track_store \<Rightarrow> bool" where
  "store_logged show logs st \<longleftrightarrow> (\<forall>n node. dict_get st n = Some node \<longrightarrow> node_logged show (logs n) node)"

lemma the_node_logged: "store_logged show logs st \<Longrightarrow> node_logged show (logs n) (the_node st n)"
  by (auto simp: store_logged_def the_node_def dict_simps empty_node_def node_logged_def split: option.split)

lemma ingest_logged:
  assumes "store_logged show logs st"
  shows "store_logged show (log_ingest show n frame claimed st logs) (fst (ingest show n frame claimed st))"
proof (cases "tracker_run show frame")
  case None
  then show ?thesis using assms
    by (auto simp: ingest_def log_ingest_def Let_def store_logged_def forget_logged split: option.split)
next
  case (Some rn)
  note r = Some
  show ?thesis
  proof (cases "Option.bind (dict_get frame ''timestamp'') py_int")
    case None
    then show ?thesis using assms r by (simp add: ingest_def log_ingest_def)
  next
    case (Some now)
    note started = start_run_logged [OF the_node_logged [OF assms]]
    show ?thesis
    proof (cases "if truthy (py_get frame ''tracks'') then py_iter (py_get frame ''tracks'') else Some []")
      case None
      then show ?thesis using assms r Some started by (auto simp: ingest_def log_ingest_def Let_def store_logged_def)
    next
      case (Some wires)
      note w = Some
      obtain node1 k where f: "file_tracks show frame rn claimed now wires (start_run rn (the_node st n)) 0 = (node1, k)"
        by fastforce
      have "node_logged show (log_tracks show frame rn claimed now wires (start_run rn (the_node st n)) (logs n)) node1"
        using file_tracks_logged [OF started, where refused = 0] f by (metis fst_conv)
      then have "node_logged show (log_tracks show frame rn claimed now wires (start_run rn (the_node st n)) (logs n))
          (forget now node1)" by (rule forget_logged)
      with assms f r w \<open>Option.bind _ _ = Some now\<close> show ?thesis
        unfolding ingest_def log_ingest_def Let_def by (simp add: store_logged_def)
    qed
  qed
qed

definition logged_step ::
    "(json \<Rightarrow> string) \<Rightarrow> string \<times> queue_frame \<times> nat set \<Rightarrow> track_store \<times> (string \<Rightarrow> string \<times> string \<Rightarrow> hit_log)
     \<Rightarrow> track_store \<times> (string \<Rightarrow> string \<times> string \<Rightarrow> hit_log)" where
  "logged_step show c s =
     (case c of (n, frame, claimed) \<Rightarrow>
        (fst (ingest show n frame claimed (fst s)), log_ingest show n frame claimed (fst s) (snd s)))"

lemma run_logged:
  "store_logged show (snd s) (fst s) \<Longrightarrow>
   store_logged show (snd (fold (logged_step show) calls s)) (fst (fold (logged_step show) calls s))"
  by (induction calls arbitrary: s) (auto simp: logged_step_def ingest_logged split: prod.split)

lemma length_takeWhile_rev: "length (takeWhile p (rev l)) \<le> length l"
  using length_takeWhile_le [of p "rev l"] by simp

lemma fresh_keep_last: "fresh l = keep_last (length (fresh l)) (map fst l)"
proof -
  have "l = rev (dropWhile (\<lambda>h. \<not> snd h) (rev l)) @ rev (takeWhile (\<lambda>h. \<not> snd h) (rev l))"
    by (simp flip: rev_append)
  then have "map fst l = map fst (rev (dropWhile (\<lambda>h. \<not> snd h) (rev l))) @ fresh l"
    by (simp add: fresh_def flip: map_append)
  then show ?thesis by (metis keep_last_def add_diff_cancel_right' append_eq_conv_conj length_append)
qed

lemma keep_last_keep_last: "keep_last n (keep_last m xs) = keep_last m (keep_last n xs)"
proof -
  have "length xs - (length xs - m + n) + (length xs - m) = length xs - (length xs - n + m) + (length xs - n)"
    by arith
  then show ?thesis by (simp add: keep_last_def)
qed

lemma view_points_fresh:
  assumes "logged show l t"
  shows "v_points (node_track_view show n key t) = keep_last N2_TRACK_HISTORY_MAX (fresh l)"
proof -
  have "v_points (node_track_view show n key t) = keep_last (length (fresh l)) (keep_last N2_TRACK_HISTORY_MAX (map fst l))"
    using assms by (simp add: node_track_view_def logged_def Let_def flip: keep_last_def)
  then show ?thesis by (simp add: keep_last_keep_last flip: fresh_keep_last)
qed

definition ingest_all :: "(json \<Rightarrow> string) \<Rightarrow> (string \<times> queue_frame \<times> nat set) list \<Rightarrow> track_store" where
  "ingest_all show calls = fold (\<lambda>(n, frame, claimed) st. fst (ingest show n frame claimed st)) calls []"

definition logs_of ::
    "(json \<Rightarrow> string) \<Rightarrow> (string \<times> queue_frame \<times> nat set) list \<Rightarrow> string \<Rightarrow> string \<times> string \<Rightarrow> hit_log" where
  "logs_of show calls = snd (fold (logged_step show) calls ([], \<lambda>_ _. []))"

lemma fst_logged: "fst (fold (logged_step show) calls s) = fold (\<lambda>(n, frame, claimed) st. fst (ingest show n frame claimed st)) calls (fst s)"
  by (induction calls arbitrary: s) (simp_all add: logged_step_def case_prod_unfold)

lemma ingest_all_logged: "store_logged show (logs_of show calls) (ingest_all show calls)"
  using run_logged [of "show" "([], \<lambda>_ _. [])" calls]
  by (simp add: store_logged_def ingest_all_def logs_of_def fst_logged)

text \<open>C11:
  Whatever frames arrive, in whatever order and however malformed, a track shown to the dark lane
  shows exactly the newest hits filed for it since the last one a binding lane claimed, at most
  twenty of them and at least one, and carries a hex only where one of the hits since then was
  tagged with it.
\<close>
theorem views_show_unclaimed_hits:
  assumes "v \<in> set (views show n now (ingest_all show calls))"
  shows "\<exists>rn i. v_id v = n @ '':'' @ rn @ '':'' @ i \<and>
    v_points v = keep_last N2_TRACK_HISTORY_MAX (fresh (logs_of show calls n (rn, i))) \<and> fresh (logs_of show calls n (rn, i)) \<noteq> [] \<and>
    (\<forall>h. v_hex v = Some h \<longrightarrow> h \<in> tag_of show ` set (fresh (logs_of show calls n (rn, i))))"
proof -
  let ?logs = "logs_of show calls"
  note ok = ingest_all_logged [of "show" calls]
  from assms obtain node key t where node: "dict_get (ingest_all show calls) n = Some node" and t: "(key, t) \<in> set (tn_tracks node)"
    and shown: "shown now t" and v: "v = node_track_view show n key t"
    unfolding views_def by (cases "dict_get (ingest_all show calls) n") auto
  have "node_logged show (?logs n) node" using ok node by (simp add: store_logged_def)
  then have l: "logged show (?logs n key) t" using t dict_mem_get [of "tn_tracks node" key t]
    by (cases key) (simp add: node_logged_def)
  have hex: "h \<in> tag_of show ` set (fresh (?logs n key))" if "v_hex v = Some h" for h
  proof -
    from that have "h \<in> set (nt_tags t)" by (auto simp: v node_track_view_def Let_def split: if_splits)
    then show ?thesis using l by (auto simp: logged_def)
  qed
  obtain rn i where key: "key = (rn, i)" by (cases key)
  have "fresh (?logs n key) \<noteq> []" using l shown by (auto simp: logged_def shown_def)
  moreover have "v_id v = n @ '':'' @ rn @ '':'' @ i" by (simp add: v node_track_view_def Let_def key)
  moreover note view_points_fresh [OF l, of n key, folded v] hex
  ultimately show ?thesis unfolding key by blast
qed

subsection \<open>Every track of an accepted frame is filed\<close>

text \<open>What the store keeps of a track the wire model has accepted.\<close>

definition update_of :: "wire_track \<Rightarrow> track_update" where
  "update_of w =
     \<lparr>u_track = w_id w, u_state = w_state w, u_associated = JInt (w_associated w), u_missed = JInt (w_missed w),
      u_hex = jopt JStr (w_hex w), u_anomalous = JBool (w_anomalous w),
      u_anomaly_types = map JStr (w_anomaly_types w), u_max_velocity = jnum (w_max_velocity w),
      u_born_t = jopt jnum (w_born_t w), u_avg_snr = jopt jnum (w_avg_snr w), u_shadow = jopt jnum (w_shadow w),
      u_interference = jopt jnum (w_interference w)\<rparr>"

definition detection_at :: "wire_frame \<Rightarrow> nat \<Rightarrow> track_point" where
  "detection_at f h =
     \<lparr>pt_timestamp = milliseconds (f_t f), pt_delay = jnum (f_delay f ! h), pt_doppler = jnum (f_doppler f ! h),
      pt_snr = jnum (f_snr f ! h),
      pt_adsb = (case f_adsb f of None \<Rightarrow> JNull | Some tags \<Rightarrow> jopt tag_record (tags ! h))\<rparr>"

lemma state_of_name: "state_of (JStr (state_name s)) = Some s"
  by (cases s) (simp_all add: state_of_def state_name_def)

lemma read_update_dump:
  "dump_track w = JObj d \<Longrightarrow> read_update show d = Some (update_of w)"
  by (auto simp: dump_track_def read_update_def update_of_def dict_get_def py_get_def state_of_name py_str_def py_iter_def)

lemma pipeline_cells:
  "dict_get (pipeline_frame f) ''delay'' = Some (JArr (map jnum (f_delay f)))"
  "dict_get (pipeline_frame f) ''doppler'' = Some (JArr (map jnum (f_doppler f)))"
  "dict_get (pipeline_frame f) ''snr'' = Some (JArr (map jnum (f_snr f)))"
  by (simp_all add: pipeline_frame_def dict_get_def)

lemma read_point_accepted:
  assumes "detection_frame f = Inr g" and "h < length (f_delay f)"
  shows "read_point (pipeline_frame f) (milliseconds (f_t f)) h = Some (detection_at f h)"
proof -
  from assms(1) have par: "arrays_are_parallel f = Inr ()" by (simp add: detection_frame_Inr)
  note len = parallel_lengths [OF par]
  show ?thesis
  proof (cases "f_adsb f")
    case None
    then show ?thesis using assms(2) len(1,2)
      by (simp add: read_point_def pipeline_cells py_get_def pipeline_columns(6) py_index_def detection_at_def)
  next
    case (Some tags)
    then have "h < length tags" using len(4) assms(2) by simp
    then show ?thesis using Some assms(2) len(1,2)
      by (auto simp: read_point_def pipeline_cells py_get_def pipeline_columns(6) py_index_def detection_at_def)
  qed
qed

definition hit_of :: "wire_frame \<Rightarrow> wire_track \<Rightarrow> (nat \<times> track_point) option" where
  "hit_of f w = map_option (\<lambda>h. (nat h, detection_at f (nat h))) (w_hit w)"

lemma read_track_accepted:
  assumes "detection_frame f = Inr g" and "f_tracks f = Some ws" and "w \<in> set ws"
  shows "read_track show (dump_track w) (pipeline_frame f) (milliseconds (f_t f)) =
    Some (update_of w, hit_of f w)"
proof -
  obtain d where d: "dump_track w = JObj d" by (simp add: dump_track_def)
  have hit: "py_get d ''hit'' = jopt JInt (w_hit w)" using d by (auto simp: dump_track_def py_get_def dict_get_def)
  show ?thesis
  proof (cases "w_hit w")
    case None
    then show ?thesis by (simp add: read_track_def d read_update_dump [OF d] hit jopt_def hit_of_def)
  next
    case (Some h)
    with accepted_tracks(3) [OF assms] have h: "0 \<le> h" "nat h < length (f_delay f)" by auto
    then show ?thesis using read_point_accepted [OF assms(1) h(2)] Some
      by (simp add: read_track_def d read_update_dump [OF d] hit jopt_def hit_of_def)
  qed
qed

definition filed :: "wire_frame \<Rightarrow> nat set \<Rightarrow> wire_track \<Rightarrow> node_track \<Rightarrow> bool" where
  "filed f claimed w t \<longleftrightarrow>
     nt_said t = update_of w \<and> nt_last_named t = milliseconds (f_t f) \<and>
     (nt_closed t = (if w_state w = Deleted then Some DeletedByNode else None)) \<and>
     (case w_hit w of None \<Rightarrow> True
      | Some h \<Rightarrow> nt_window t \<noteq> [] \<and> last (nt_window t) = detection_at f (nat h) \<and>
          (nt_unclaimed t = 0 \<longleftrightarrow> nat h \<in> claimed))"

lemma keep_last_snoc_last: "0 < n \<Longrightarrow> keep_last n (xs @ [x]) \<noteq> []" "0 < n \<Longrightarrow> last (keep_last n (xs @ [x])) = x"
  by (simp_all add: keep_last_def last_drop)

definition file_wire ::
    "(json \<Rightarrow> string) \<Rightarrow> wire_frame \<Rightarrow> string \<Rightarrow> nat set \<Rightarrow> wire_track \<Rightarrow> tracked_node \<Rightarrow> tracked_node" where
  "file_wire show f rn claimed w node =
     file_track show rn (update_of w) (map_option snd (hit_of f w))
       (case hit_of f w of None \<Rightarrow> False | Some (h, _) \<Rightarrow> h \<in> claimed) (milliseconds (f_t f)) node"

definition unclosed :: "string \<Rightarrow> wire_track \<Rightarrow> tracked_node \<Rightarrow> bool" where
  "unclosed rn w node \<longleftrightarrow> (\<forall>t. dict_get (tn_tracks node) (rn, w_id w) = Some t \<longrightarrow> nt_closed t = None)"

lemma u_track_update_of [simp]: "u_track (update_of w) = w_id w" "u_state (update_of w) = w_state w"
  by (simp_all add: update_of_def)

lemma file_wire_filed:
  assumes "unclosed rn w node"
  shows "\<exists>t. dict_get (tn_tracks (file_wire show f rn claimed w node)) (rn, w_id w) = Some t \<and> filed f claimed w t"
proof -
  define t where "t = dict_get_default (tn_tracks node) (rn, w_id w) (new_track (update_of w))"
  have t: "nt_closed t = None"
    using assms by (auto simp: t_def unclosed_def dict_simps new_track_def split: option.split)
  show ?thesis
  proof (cases "w_hit w")
    case None
    then show ?thesis using t by (simp add: file_wire_def file_track_def hit_of_def filed_def flip: t_def)
  next
    case (Some h)
    then show ?thesis using t
      by (simp add: file_wire_def file_track_def hit_of_def filed_def take_point_def Let_def keep_last_snoc_last
          N2_TRACK_HISTORY_MAX_def flip: t_def)
  qed
qed

lemma file_wire_other:
  "key \<noteq> (rn, w_id w) \<Longrightarrow> dict_get (tn_tracks (file_wire show f rn claimed w node)) key = dict_get (tn_tracks node) key"
  by (auto simp: file_wire_def file_track_def Let_def)

lemma file_wires:
  assumes "detection_frame f = Inr g" and "f_tracks f = Some all" and "set ws \<subseteq> set all"
  shows "file_tracks show (pipeline_frame f) rn claimed (milliseconds (f_t f)) (map dump_track ws) node k =
    (fold (file_wire show f rn claimed) ws node, k)"
  using assms(3)
proof (induction ws arbitrary: node)
  case (Cons w ws)
  then show ?case using read_track_accepted [OF assms(1,2), of w "show"] by (simp add: file_wire_def)
qed simp

lemma fold_file_wire_other:
  "(\<forall>w \<in> set ws. key \<noteq> (rn, w_id w)) \<Longrightarrow>
   dict_get (tn_tracks (fold (file_wire show f rn claimed) ws node)) key = dict_get (tn_tracks node) key"
  by (induction ws arbitrary: node) (simp_all add: file_wire_other)

lemma fold_file_wire:
  assumes "distinct (map w_id ws)" and "w \<in> set ws" and "unclosed rn w node"
  shows "\<exists>t. dict_get (tn_tracks (fold (file_wire show f rn claimed) ws node)) (rn, w_id w) = Some t \<and> filed f claimed w t"
  using assms
proof (induction ws arbitrary: node)
  case (Cons v ws)
  show ?case
  proof (cases "w = v")
    case True
    then have "\<forall>u \<in> set ws. (rn, w_id w) \<noteq> (rn, w_id u)" using Cons.prems(1) by auto
    then have "dict_get (tn_tracks (fold (file_wire show f rn claimed) ws (file_wire show f rn claimed w node))) (rn, w_id w) =
        dict_get (tn_tracks (file_wire show f rn claimed w node)) (rn, w_id w)"
      by (rule fold_file_wire_other)
    then show ?thesis using file_wire_filed [OF Cons.prems(3)] True by simp
  next
    case False
    then have w: "w \<in> set ws" using Cons.prems(2) by simp
    then have "w_id w \<noteq> w_id v" using w Cons.prems(1) by (metis distinct.simps(2) image_eqI list.set_map list.simps(9))
    then have "unclosed rn w (file_wire show f rn claimed v node)"
      using Cons.prems(3) by (simp add: unclosed_def file_wire_other)
    with Cons.IH Cons.prems(1) w show ?thesis by simp
  qed
qed simp

lemma ingest_accepted:
  assumes "detection_frame f = Inr g" and "f_tracker f = Some rn" and "f_tracks f = Some ws"
  shows "ingest show n (pipeline_frame f) claimed st =
    (dict_set st n (forget (milliseconds (f_t f)) (fold (file_wire show f rn claimed) ws (start_run rn (the_node st n)))),
     Some 0)"
proof -
  have fo: "frame_fields_ok f" using assms(1) by (simp add: detection_frame_Inr)
  have rn: "rn \<noteq> []" using fo assms(2) by (auto simp: frame_fields_ok_def some_ok_def tracker_token_def)
  have "py_get (pipeline_frame f) ''tracker'' = JObj [(''run'', JStr rn)]"
    by (simp add: py_get_def pipeline_columns(7) assms(2))
  moreover have "py_get [(''run'', JStr rn)] ''run'' = JStr rn" by (simp add: py_get_def dict_get_def)
  ultimately have run: "tracker_run show (pipeline_frame f) = Some rn"
    by (simp add: tracker_run_def py_str_def rn)
  have now: "Option.bind (dict_get (pipeline_frame f) ''timestamp'') py_int = Some (milliseconds (f_t f))"
    by (simp add: pipeline_columns(5) py_int_def)
  have "py_get (pipeline_frame f) ''tracks'' = JArr (map dump_track ws)"
    by (simp add: py_get_def pipeline_columns(8) assms(2,3))
  then have wires: "(if truthy (py_get (pipeline_frame f) ''tracks'') then py_iter (py_get (pipeline_frame f) ''tracks'')
      else Some []) = Some (map dump_track ws)" by (simp add: py_iter_def)
  show ?thesis
    unfolding ingest_def Let_def run now wires
    using file_wires [OF assms(1,3) subset_refl, of "show" rn claimed "start_run rn (the_node st n)" 0] by simp
qed

text \<open>The store loses nothing of a frame the wire model accepted: it refuses none of its tracks, and every
  track whose key is not closed ends up with what the frame says of it, the frame's time as the
  last it was named, and, where it names a hit, that detection as its newest point, counted as
  claimed exactly when a binding lane took it.
\<close>
theorem accepted_frame_files_every_track:
  assumes "detection_frame f = Inr g" and "f_tracker f = Some rn" and "f_tracks f = Some ws" and "w \<in> set ws"
    and "unclosed rn w (start_run rn (the_node (ingest_all show calls) n))"
  shows "snd (ingest show n (pipeline_frame g) claimed (ingest_all show calls)) = Some 0 \<and>
    (\<exists>node t. dict_get (fst (ingest show n (pipeline_frame g) claimed (ingest_all show calls))) n = Some node \<and>
       dict_get (tn_tracks node) (rn, w_id w) = Some t \<and> filed f claimed w t)"
proof -
  let ?st = "ingest_all show calls" and ?now = "milliseconds (f_t f)"
  let ?node = "start_run rn (the_node ?st n)"
  let ?node1 = "fold (file_wire show f rn claimed) ws ?node"
  have g: "g = f" using assms(1) by (simp add: detection_frame_Inr)
  obtain t where t: "dict_get (tn_tracks ?node1) (rn, w_id w) = Some t" "filed f claimed w t"
    using fold_file_wire [OF accepted_tracks(1) [OF assms(1,3)] assms(4,5)] by blast
  have "node_logged show (logs_of show calls n) ?node"
    by (rule start_run_logged [OF the_node_logged [OF ingest_all_logged]])
  from file_tracks_logged [OF this, of "pipeline_frame f" rn claimed ?now "map dump_track ws" 0]
    file_wires [OF assms(1,3) subset_refl, of "show" rn claimed ?node 0]
  have "dict_ok (tn_tracks ?node1)" by (simp add: node_logged_def)
  then have "dict_get (tn_tracks (forget ?now ?node1)) (rn, w_id w) = Some t"
    using t by (simp add: forget_def dict_get_filter filed_def FORGET_MS_def STALE_TRACK_S_def)
  with t(2) show ?thesis unfolding g ingest_accepted [OF assms(1-3)] by simp
qed

definition sample_track :: wire_track where
  "sample_track = hd (the (f_tracks sample_frame))"

lemma sample_track_facts:
  "f_tracker sample_frame = Some ''run1''" "f_tracks sample_frame = Some [sample_track]" "w_id sample_track = ''t1''"
  "w_hit sample_track = Some 1" "w_state sample_track = Active"
  by (simp_all add: sample_track_def sample_frame_def)

lemma sample_unclosed:
  "unclosed ''run1'' sample_track (start_run ''run1'' (the_node (ingest_all (\<lambda>_. []) []) ''n1''))"
  by (simp add: unclosed_def start_run_def the_node_def ingest_all_def dict_get_default_def empty_node_def)

theorem accepted_frame_files_every_track_witness:
  "snd (ingest (\<lambda>_. []) ''n1'' (pipeline_frame sample_frame) {1} (ingest_all (\<lambda>_. []) [])) = Some 0 \<and>
   (\<exists>node t. dict_get (fst (ingest (\<lambda>_. []) ''n1'' (pipeline_frame sample_frame) {1} (ingest_all (\<lambda>_. []) []))) ''n1'' = Some node \<and>
      dict_get (tn_tracks node) (''run1'', ''t1'') = Some t \<and> nt_unclaimed t = 0)"
proof -
  have "sample_track \<in> set [sample_track]" by simp
  from accepted_frame_files_every_track
    [OF sample_frame_accepted sample_track_facts(1,2) this sample_unclosed, where claimed = "{1}"]
  show ?thesis by (auto simp: sample_track_facts filed_def)
qed

lemma sample_shown:
  "\<exists>v. v \<in> set (views (\<lambda>_. []) ''n1'' 1700000000000 (ingest_all (\<lambda>_. []) [(''n1'', pipeline_frame sample_frame, {})]))"
proof -
  let ?node = "start_run ''run1'' (the_node [] ''n1'')"
  have now: "milliseconds (f_t sample_frame) = 1700000000000" by (simp add: milliseconds_def sample_frame_def)
  have "unclosed ''run1'' sample_track ?node" using sample_unclosed by (simp add: ingest_all_def)
  then obtain t where t: "dict_get (tn_tracks (file_wire (\<lambda>_. []) sample_frame ''run1'' {} sample_track ?node))
      (''run1'', ''t1'') = Some t" "filed sample_frame {} sample_track t"
    using file_wire_filed [of "''run1''" sample_track ?node "\<lambda>_. []" sample_frame "{}"] by (auto simp: sample_track_facts)
  then have "shown 1700000000000 t" "\<not> 1700000000000 - nt_last_named t > FORGET_MS"
    by (simp_all add: filed_def shown_def now sample_track_facts SHOWN_MS_def DISPLAY_STALE_TRACK_S_def FORGET_MS_def STALE_TRACK_S_def)
  moreover from t(1) have "((''run1'', ''t1''), t) \<in> set (tn_tracks (file_wire (\<lambda>_. []) sample_frame ''run1'' {} sample_track ?node))"
    by (rule dict_get_mem)
  moreover have "ingest_all (\<lambda>_. []) [(''n1'', pipeline_frame sample_frame, {})] =
      dict_set [] ''n1'' (forget 1700000000000 (file_wire (\<lambda>_. []) sample_frame ''run1'' {} sample_track ?node))"
    by (simp add: ingest_all_def ingest_accepted [OF sample_frame_accepted sample_track_facts(1,2)] now)
  ultimately show ?thesis
    by (auto simp: views_def forget_def dict_filter_def image_iff)
qed

theorem views_show_unclaimed_hits_witness:
  "\<exists>v. v \<in> set (views (\<lambda>_. []) ''n1'' 1700000000000 (ingest_all (\<lambda>_. []) [(''n1'', pipeline_frame sample_frame, {})])) \<and>
     (\<exists>rn i. fresh (logs_of (\<lambda>_. []) [(''n1'', pipeline_frame sample_frame, {})] ''n1'' (rn, i)) \<noteq> [])"
proof -
  obtain v where v: "v \<in> set (views (\<lambda>_. []) ''n1'' 1700000000000
      (ingest_all (\<lambda>_. []) [(''n1'', pipeline_frame sample_frame, {})]))" using sample_shown by blast
  from views_show_unclaimed_hits [OF v] v show ?thesis by blast
qed

end
