(* ===== verification/NodePipeline.thy ===== *)
theory NodePipeline
  imports WireFrame FrameQueue PolledRadars
begin

text \<open>
  The in-process registries a node reaches the map through, and the operations that put it there
  (\<open>services/node_pipeline.py\<close>, \<open>services/node_registration.py\<close>, the offline sweep of
  \<open>routes/admin.py\<close>).  The analytics and association libraries are outside the repository: of
  them the model keeps the calls made.  \<open>digest\<close> is the hash of a configuration's JSON text.
  Every step under the registry's lock is one step.
\<close>

definition NODE_OFFLINE_THRESHOLD_S :: real where "NODE_OFFLINE_THRESHOLD_S = 120"
definition NODE_HEALTH_CHECK_INTERVAL_S :: real where "NODE_HEALTH_CHECK_INTERVAL_S = 30"

definition SYNTHETIC_NODE_PREFIXES :: "string list" where
  "SYNTHETIC_NODE_PREFIXES = [''synth-'', ''e2e-'', ''realnode-'', ''test-'']"

definition is_synthetic_node :: "string \<Rightarrow> bool" where
  "is_synthetic_node node_id \<longleftrightarrow> list_ex (\<lambda>p. has_prefix p node_id) SYNTHETIC_NODE_PREFIXES"

definition PIPELINE_DEFAULTS :: "(string, json) dict" where
  "PIPELINE_DEFAULTS = [(''doppler_min'', JInt (-300)), (''doppler_max'', JInt 300), (''min_doppler'', JInt 15)]"

definition WIRE_FIELDS :: "string list" where
  "WIRE_FIELDS = [''rx_lat'', ''rx_lon'', ''rx_alt_ft'', ''tx_lat'', ''tx_lon'', ''tx_alt_ft'', ''fc_hz'', ''fs_hz'',
     ''beam_width_deg'', ''beam_azimuth_deg'', ''max_range_km'']"

text \<open>An entry of \<open>connected_nodes\<close>; \<open>None\<close> is the empty heartbeat of a node never heard from.\<close>

record registry_entry =
  re_hash :: string
  re_config :: "(string, json) dict"
  re_status :: string
  re_heartbeat :: "real option"
  re_peer :: string
  re_synthetic :: bool
  re_adsb_report :: bool

text \<open>
  \<open>pipelines\<close> are the nodes with a cached pipeline; \<open>analytics_calls\<close> the calls of
  \<open>node_analytics.register_node\<close> (node, configuration, whether its declared geometry is truth)
  and \<open>associator_calls\<close> those of \<open>node_associator.register_node\<close>, in order.
\<close>

record registries =
  connected :: "(string, registry_entry) dict"
  pipelines :: "string list"
  analytics_calls :: "(string \<times> (string, json) dict \<times> bool) list"
  associator_calls :: "(string \<times> (string, json) dict) list"
  frames :: "queue_frame frame_queue"
  frames_dropped :: int
  last_health_check :: real

subsection \<open>Registration\<close>

definition pipeline_config :: "config_row list \<Rightarrow> string \<Rightarrow> (string, json) dict option" where
  "pipeline_config rows node =
     (case filter (\<lambda>r. row_node r = node \<and> superseded_at r = None) rows of
        [] \<Rightarrow> None
      | r # _ \<Rightarrow> Some (map (\<lambda>f. (f, py_get (config_of r) f)) WIRE_FIELDS @ PIPELINE_DEFAULTS))"

definition config_hash :: "(json \<Rightarrow> string) \<Rightarrow> (string, json) dict \<Rightarrow> string" where
  "config_hash digest config = take 16 (digest (JObj config))"

definition register_node_blocking :: "string \<Rightarrow> (string, json) dict \<Rightarrow> registries \<Rightarrow> registries" where
  "register_node_blocking node config g =
     (let config1 = resolve_altitudes (canonical_config (JObj config)) in
      g\<lparr>analytics_calls := analytics_calls g @ [(node, config1, is_synthetic_node node)],
        associator_calls := associator_calls g @ [(node, config1)]\<rparr>)"

definition evict_pipeline :: "string \<Rightarrow> registries \<Rightarrow> registries" where
  "evict_pipeline node g = g\<lparr>pipelines := filter (\<lambda>n. n \<noteq> node) (pipelines g)\<rparr>"

text \<open>\<open>heard\<close> is the row's \<open>last_seen_at\<close>.  \<open>None\<close> is the \<open>ValueError\<close> of a node without configuration.\<close>

definition register_with_pipeline ::
    "(json \<Rightarrow> string) \<Rightarrow> real \<Rightarrow> config_row list \<Rightarrow> string \<Rightarrow> real option \<Rightarrow> registries \<Rightarrow> registries option" where
  "register_with_pipeline digest now rows node heard g =
     (case pipeline_config rows node of
        None \<Rightarrow> None
      | Some declared \<Rightarrow>
          (let config = canonical_config (JObj declared);
               online = (case heard of None \<Rightarrow> False | Some t \<Rightarrow> now - t \<le> NODE_OFFLINE_THRESHOLD_S);
               entry = \<lparr>re_hash = config_hash digest declared, re_config = config,
                        re_status = (if online then ''active'' else ''disconnected''), re_heartbeat = heard,
                        re_peer = ''v1'', re_synthetic = False, re_adsb_report = True\<rparr>
           in Some (register_node_blocking node config
                (evict_pipeline node (g\<lparr>connected := dict_set (connected g) node entry\<rparr>)))))"

definition mark_heard :: "string \<Rightarrow> real \<Rightarrow> registries \<Rightarrow> registries" where
  "mark_heard node t g =
     (case dict_get (connected g) node of
        None \<Rightarrow> g
      | Some e \<Rightarrow> g\<lparr>connected := dict_set (connected g) node (e\<lparr>re_heartbeat := Some t, re_status := ''active''\<rparr>)\<rparr>)"

fun prime_nodes ::
    "(json \<Rightarrow> string) \<Rightarrow> real \<Rightarrow> config_row list \<Rightarrow> (string \<times> node_row) list \<Rightarrow> registries \<times> nat \<Rightarrow> registries \<times> nat" where
  "prime_nodes digest now rows [] (g, primed) = (g, primed)"
| "prime_nodes digest now rows ((node, r) # rest) (g, primed) =
     (case register_with_pipeline digest now rows node (n_last_seen r) g of
        None \<Rightarrow> prime_nodes digest now rows rest (g, primed)
      | Some g' \<Rightarrow> prime_nodes digest now rows rest (g', primed + 1))"

definition prime_pipeline :: "(json \<Rightarrow> string) \<Rightarrow> real \<Rightarrow> radar_db \<Rightarrow> registries \<Rightarrow> registries \<times> nat" where
  "prime_pipeline digest now db g =
     prime_nodes digest now (configs db) (filter (\<lambda>(_, r). n_status r = ''active'') (node_rows db)) (g, 0)"

text \<open>\<open>check_node_health\<close>, which runs when its interval is up.\<close>

definition swept :: "real \<Rightarrow> registry_entry \<Rightarrow> registry_entry" where
  "swept now e =
     (case re_heartbeat e of
        None \<Rightarrow> e
      | Some t \<Rightarrow> if now - t > NODE_OFFLINE_THRESHOLD_S then e\<lparr>re_status := ''disconnected''\<rparr> else e)"

definition check_node_health :: "real \<Rightarrow> registries \<Rightarrow> registries" where
  "check_node_health now g =
     (if now - last_health_check g < NODE_HEALTH_CHECK_INTERVAL_S then g
      else g\<lparr>last_health_check := now, connected := map (\<lambda>(n, e). (n, swept now e)) (connected g)\<rparr>)"

subsection \<open>Frames\<close>

definition submit_frame :: "string \<Rightarrow> queue_frame \<Rightarrow> registries \<Rightarrow> registries \<times> bool" where
  "submit_frame node frame g =
     (case put_nowait (node, dict_set frame ''_node_id'' (JStr node)) (frames g) of
        Inl _ \<Rightarrow> (g\<lparr>frames_dropped := frames_dropped g + 1\<rparr>, False)
      | Inr q \<Rightarrow> (g\<lparr>frames := q\<rparr>, True))"

subsection \<open>What registration and hearing leave\<close>

lemma pipeline_config_active:
  assumes "table_ok rows"
  shows "pipeline_config rows node = map_option (\<lambda>r. map (\<lambda>f. (f, py_get (config_of r) f)) WIRE_FIELDS @ PIPELINE_DEFAULTS)
    (active_config rows node)"
proof -
  let ?active = "filter (\<lambda>r. row_node r = node \<and> superseded_at r = None) rows"
  have one: "r = s" if "r \<in> set ?active" "s \<in> set ?active" for r s
  proof -
    from that assms have "version r \<le> version s" "version s \<le> version r" by (auto simp: table_ok_def)
    then have "(row_node r, version r) = (row_node s, version s)" using that by simp
    moreover have "inj_on (\<lambda>r. (row_node r, version r)) (set rows)"
      using assms by (simp add: table_ok_def distinct_map)
    ultimately show ?thesis using that by (auto dest: inj_onD)
  qed
  show ?thesis
  proof (cases ?active)
    case Nil
    then show ?thesis by (simp add: pipeline_config_def active_config_def)
  next
    case (Cons r rs)
    have r: "r \<in> set ?active" unfolding Cons by simp
    let ?sorted = "rev (sort_key version ?active)"
    obtain s ss where s: "?sorted = s # ss"
      using Cons by (cases ?sorted) (auto dest: arg_cong [where f = length])
    then have "s \<in> set ?sorted" by simp
    then have "s \<in> set ?active" by simp
    then have "s = r" using one r by blast
    then show ?thesis using s by (simp only: active_config_def pipeline_config_def) (simp add: Cons)
  qed
qed

lemma registered_is_connected:
  "register_with_pipeline digest now rows node heard g = Some g' \<Longrightarrow> dict_get (connected g') node \<noteq> None"
  by (auto simp: register_with_pipeline_def register_node_blocking_def evict_pipeline_def Let_def split: option.splits)

lemma register_frames:
  "register_with_pipeline digest now rows node heard g = Some g' \<Longrightarrow> frames g' = frames g \<and> frames_dropped g' = frames_dropped g"
  by (auto simp: register_with_pipeline_def register_node_blocking_def evict_pipeline_def Let_def split: option.splits)

lemma register_others:
  "register_with_pipeline digest now rows node heard g = Some g' \<Longrightarrow> n \<noteq> node \<Longrightarrow>
   dict_get (connected g') n = dict_get (connected g) n \<and> (n \<in> set (pipelines g') \<longleftrightarrow> n \<in> set (pipelines g))"
  by (auto simp: register_with_pipeline_def register_node_blocking_def evict_pipeline_def Let_def split: option.splits)

lemma register_evicts:
  "register_with_pipeline digest now rows node heard g = Some g' \<Longrightarrow> node \<notin> set (pipelines g')"
  by (auto simp: register_with_pipeline_def register_node_blocking_def evict_pipeline_def Let_def split: option.splits)

lemma mark_heard_connected:
  "dict_get (connected (mark_heard node t g)) n =
     (if n = node then map_option (\<lambda>e. e\<lparr>re_heartbeat := Some t, re_status := ''active''\<rparr>) (dict_get (connected g) n)
      else dict_get (connected g) n)"
  by (auto simp: mark_heard_def split: option.split)

lemma mark_heard_frames: "frames (mark_heard node t g) = frames g" "frames_dropped (mark_heard node t g) = frames_dropped g"
  by (simp_all add: mark_heard_def split: option.split)

lemma submit_frame_True:
  "submit_frame node f g = (g', True) \<longleftrightarrow>
     (\<exists>q. put_nowait (node, dict_set f ''_node_id'' (JStr node)) (frames g) = Inr q \<and> g' = g\<lparr>frames := q\<rparr>)"
  by (auto simp: submit_frame_def split: sum.splits)

lemma submit_frame_False:
  "submit_frame node f g = (g', False) \<longleftrightarrow>
     full (frames g) \<and> g' = g\<lparr>frames_dropped := frames_dropped g + 1\<rparr>"
  by (auto simp: submit_frame_def put_nowait_def Let_def)

end
