(* ===== verification/DetectionMirror.thy ===== *)
theory DetectionMirror
  imports NodePipeline
begin

text \<open>
  The detection mirror (\<open>services/detection_mirror.py\<close>): accepted frames are queued once and sent in
  batches to every other environment.  What a receiver answers is an argument, as is the public
  handle of a node.  The log lines and the throttle of the dropped-frame line are left out.
\<close>

definition QUEUE_MAX :: nat where "QUEUE_MAX = 240"
definition LOG_INTERVAL_S :: real where "LOG_INTERVAL_S = 60"

record mirror_target =
  mt_label :: string
  mt_url :: string
  mt_key :: string
  mt_sent :: int
  mt_rejected :: int
  mt_failed :: int
  mt_healthy :: bool
  mt_logged_at :: real

text \<open>\<open>waiting_frames\<close> is \<open>None\<close> while the mirror is unarmed.\<close>

record mirror =
  targets :: "mirror_target list"
  waiting_frames :: "(string \<times> wire_frame) list option"
  m_accepted :: int
  m_dropped :: int
  m_unregistered :: int

subsection \<open>Configuration\<close>

definition rstrip_slash :: "string \<Rightarrow> string" where
  "rstrip_slash s = rev (dropWhile (\<lambda>c. c = CHR ''/'') (rev s))"

definition new_target :: "string \<Rightarrow> string \<Rightarrow> string \<Rightarrow> mirror_target" where
  "new_target label url key =
     \<lparr>mt_label = label, mt_url = url, mt_key = key, mt_sent = 0, mt_rejected = 0, mt_failed = 0, mt_healthy = True,
      mt_logged_at = 0\<rparr>"

text \<open>The loop over the parallel lists.  \<open>None\<close> is the \<open>ValueError\<close> of \<open>urlsplit\<close>; the refusals are
  the empty list.\<close>

fun add_targets :: "(string \<times> string) list \<Rightarrow> mirror_target list \<Rightarrow> mirror_target list option" where
  "add_targets [] ts = Some ts"
| "add_targets ((url, key) # rest) ts =
     (case urlsplit url of
        None \<Rightarrow> None
      | Some parts \<Rightarrow>
          (let label = u_netloc parts in
           if \<not> has_prefix ''https://'' url \<or> label = [] then Some []
           else if list_ex (\<lambda>t. mt_label t = label) ts then Some []
           else add_targets rest (ts @ [new_target label url key])))"

definition parse_targets :: "string option \<Rightarrow> string option \<Rightarrow> mirror_target list option" where
  "parse_targets url_env key_env =
     (let raw_urls = strip (case url_env of None \<Rightarrow> [] | Some s \<Rightarrow> s);
          raw_keys = strip (case key_env of None \<Rightarrow> [] | Some s \<Rightarrow> s)
      in if raw_urls = [] then Some []
         else
           (let urls = map (\<lambda>u. rstrip_slash (strip u)) (split_on CHR '','' raw_urls);
                keys0 = (if raw_keys \<noteq> [] then map strip (split_on CHR '','' raw_keys) else []);
                keys = (if keys0 = [] \<and> length urls = 1 then [[]] else keys0)
            in if length keys \<noteq> length urls then Some [] else add_targets (zip urls keys) []))"

definition configure_from_env :: "string option \<Rightarrow> string option \<Rightarrow> mirror option" where
  "configure_from_env url_env key_env =
     (case parse_targets url_env key_env of
        None \<Rightarrow> None
      | Some ts \<Rightarrow> Some \<lparr>targets = ts, waiting_frames = (if ts = [] then None else Some []), m_accepted = 0,
                        m_dropped = 0, m_unregistered = 0\<rparr>)"

subsection \<open>Taking frames\<close>

text \<open>\<open>held\<close> is what the probation fence says of the node.\<close>

definition enqueue_frame :: "string \<Rightarrow> wire_frame \<Rightarrow> bool \<Rightarrow> mirror \<Rightarrow> mirror" where
  "enqueue_frame node f held m =
     (case waiting_frames m of
        None \<Rightarrow> m
      | Some q \<Rightarrow>
          if held then m
          else if QUEUE_MAX \<le> length q then m\<lparr>m_dropped := m_dropped m + 1\<rparr>
          else m\<lparr>waiting_frames := Some (q @ [(node, f)]), m_accepted := m_accepted m + 1\<rparr>)"

text \<open>The fence is asked only once the mirror is armed.\<close>

definition offer ::
    "string option \<Rightarrow> real \<Rightarrow> bool \<Rightarrow> radar_db \<Rightarrow> string \<Rightarrow> wire_frame \<Rightarrow> mirror \<times> fence \<Rightarrow> mirror \<times> fence" where
  "offer env now readable db node f s =
     (case s of (m, fence) \<Rightarrow>
        if waiting_frames m = None then (m, fence)
        else (case in_probation env now readable db (Some node) fence of
                (fence', held) \<Rightarrow> (enqueue_frame node f held m, fence')))"

definition drain :: "mirror \<Rightarrow> mirror \<times> (string \<times> wire_frame) list" where
  "drain m = (case waiting_frames m of None \<Rightarrow> (m, []) | Some q \<Rightarrow> (m\<lparr>waiting_frames := Some []\<rparr>, q))"

subsection \<open>Sending\<close>

record batch_entry =
  be_node :: string
  be_config :: "(string, json) dict"
  be_frames :: "queue_frame list"
  be_ref :: "string option"

fun group_frames :: "(string \<times> wire_frame) list \<Rightarrow> (string, queue_frame list) dict \<Rightarrow> (string, queue_frame list) dict" where
  "group_frames [] d = d"
| "group_frames ((node, f) # rest) d =
     group_frames rest (dict_set d node (dict_get_default d node [] @ [pipeline_frame f]))"

definition entry_of ::
    "(string \<Rightarrow> string option) \<Rightarrow> (string, registry_entry) dict \<Rightarrow> string \<times> queue_frame list \<Rightarrow> batch_entry option" where
  "entry_of ref_for conn e =
     (case dict_get conn (fst e) of
        None \<Rightarrow> None
      | Some known \<Rightarrow>
          if re_config known = [] then None
          else Some \<lparr>be_node = fst e, be_config = re_config known, be_frames = snd e,
                     be_ref = (case ref_for (fst e) of Some r \<Rightarrow> if r = [] then None else Some r | None \<Rightarrow> None)\<rparr>)"

definition build_batch ::
    "(string \<Rightarrow> string option) \<Rightarrow> (string, registry_entry) dict \<Rightarrow> (string \<times> wire_frame) list \<Rightarrow> batch_entry list" where
  "build_batch ref_for conn items = List.map_filter (entry_of ref_for conn) (group_frames items [])"

definition frame_count :: "batch_entry list \<Rightarrow> int" where
  "frame_count es = int (sum_list (map (\<lambda>e. length (be_frames e)) es))"

definition note_outcome :: "real \<Rightarrow> bool \<Rightarrow> mirror_target \<Rightarrow> mirror_target" where
  "note_outcome now ok t =
     (if ok then t\<lparr>mt_healthy := True\<rparr>
      else if mt_healthy t then t\<lparr>mt_healthy := False, mt_logged_at := now\<rparr>
      else if now - mt_logged_at t \<ge> LOG_INTERVAL_S then t\<lparr>mt_logged_at := now\<rparr> else t)"

text \<open>\<open>landed\<close> is the \<open>frames_queued\<close> of the answer, or \<open>None\<close> for any failure to get one.\<close>

definition send_to_target :: "real \<Rightarrow> batch_entry list \<Rightarrow> int option \<Rightarrow> mirror_target \<Rightarrow> mirror_target" where
  "send_to_target now es landed t =
     (let n = frame_count es in
      case landed of
        None \<Rightarrow> note_outcome now False (t\<lparr>mt_failed := mt_failed t + n\<rparr>)
      | Some k \<Rightarrow>
          if n - k > 0 then note_outcome now False (t\<lparr>mt_sent := mt_sent t + k, mt_rejected := mt_rejected t + (n - k)\<rparr>)
          else note_outcome now True (t\<lparr>mt_sent := mt_sent t + n\<rparr>))"

text \<open>
  One pass of \<open>mirror_task\<close>.  \<open>fault\<close> is an exception while the drained frames are converted, before
  any target is tried; \<open>answers\<close> is what each target answers to its copy of the batch.
\<close>

definition mirror_flush ::
    "(string \<Rightarrow> string option) \<Rightarrow> real \<Rightarrow> bool \<Rightarrow> (string \<Rightarrow> int option) \<Rightarrow> (string, registry_entry) dict \<Rightarrow> mirror \<Rightarrow> mirror" where
  "mirror_flush ref_for now fault answers conn m0 =
     (case drain m0 of (m, items) \<Rightarrow>
        if items = [] then m
        else if fault then
          m\<lparr>targets := map (\<lambda>t. note_outcome now False (t\<lparr>mt_failed := mt_failed t + int (length items)\<rparr>)) (targets m)\<rparr>
        else
          (let es = build_batch ref_for conn items;
               m1 = (if int (length items) > frame_count es
                     then m\<lparr>m_unregistered := m_unregistered m + (int (length items) - frame_count es)\<rparr> else m)
           in if es = [] then m1
              else m1\<lparr>targets := map (\<lambda>t. send_to_target now es (answers (mt_label t)) t) (targets m1)\<rparr>))"

subsection \<open>Every accepted frame is accounted for\<close>

definition queue_depth :: "mirror \<Rightarrow> int" where
  "queue_depth m = (case waiting_frames m of None \<Rightarrow> 0 | Some q \<Rightarrow> int (length q))"

definition balances :: "mirror \<Rightarrow> bool" where
  "balances m \<longleftrightarrow>
     (\<forall>t \<in> set (targets m).
        mt_sent t + mt_rejected t + mt_failed t + m_unregistered m + queue_depth m = m_accepted m)"

lemma note_counts:
  "mt_sent (note_outcome now ok t) = mt_sent t" "mt_rejected (note_outcome now ok t) = mt_rejected t"
  "mt_failed (note_outcome now ok t) = mt_failed t" "mt_label (note_outcome now ok t) = mt_label t"
  by (simp_all add: note_outcome_def)

lemma send_counts:
  "mt_sent (send_to_target now es landed t) + mt_rejected (send_to_target now es landed t) +
     mt_failed (send_to_target now es landed t) = mt_sent t + mt_rejected t + mt_failed t + frame_count es"
  by (cases landed) (simp_all add: send_to_target_def Let_def note_counts)

lemma sum_list_map_filter_le:
  "sum_list (map (\<lambda>e. length (be_frames e)) (List.map_filter (entry_of ref_for conn) d)) \<le>
   sum_list (map (\<lambda>e. length (snd e)) d)"
proof (induction d)
  case (Cons e d)
  have "be_frames b = snd e" if "entry_of ref_for conn e = Some b" for b
    using that by (auto simp: entry_of_def split: option.splits if_splits)
  with Cons show ?case by (cases "entry_of ref_for conn e") (auto simp: map_filter_simps)
qed (simp add: map_filter_simps)

lemma sum_list_dict_set:
  "sum_list (map (\<lambda>e. length (snd e)) (dict_set d k (dict_get_default d k [] @ [x]))) =
   Suc (sum_list (map (\<lambda>e. length (snd e)) d))"
  by (induction d) (auto simp: dict_set_def dict_get_default_def)

lemma group_frames_count:
  "sum_list (map (\<lambda>e. length (snd e)) (group_frames items d)) = length items + sum_list (map (\<lambda>e. length (snd e)) d)"
  by (induction items d rule: group_frames.induct) (simp_all add: sum_list_dict_set)

lemma built_le: "frame_count (build_batch ref_for conn items) \<le> int (length items)"
  using sum_list_map_filter_le [of ref_for conn "group_frames items []"] group_frames_count [of items "[]"]
  by (simp add: frame_count_def build_batch_def)

lemma enqueue_balances: "balances m \<Longrightarrow> balances (enqueue_frame node f held m)"
  by (auto simp: enqueue_frame_def balances_def queue_depth_def split: option.split)

lemma flush_balances:
  assumes "balances m"
  shows "balances (mirror_flush ref_for now fault answers conn m)"
proof (cases "waiting_frames m")
  case None
  then show ?thesis using assms by (simp add: mirror_flush_def drain_def)
next
  case (Some q)
  let ?es = "build_batch ref_for conn q"
  have le: "frame_count ?es \<le> int (length q)" by (rule built_le)
  have empty: "frame_count ?es = 0" if "?es = []" using that by (simp add: frame_count_def)
  show ?thesis
  proof (cases "q = [] \<or> fault")
    case True
    then show ?thesis using assms Some
      by (auto simp: mirror_flush_def drain_def balances_def queue_depth_def note_counts)
  next
    case False
    define m1 where "m1 = (if int (length q) > frame_count ?es
        then (m\<lparr>waiting_frames := Some []\<rparr>)\<lparr>m_unregistered := m_unregistered m + (int (length q) - frame_count ?es)\<rparr>
        else m\<lparr>waiting_frames := Some []\<rparr>)"
    have m1: "m_unregistered m1 = m_unregistered m + (int (length q) - frame_count ?es)" "queue_depth m1 = 0"
      "m_accepted m1 = m_accepted m" "targets m1 = targets m"
      using le by (simp_all add: m1_def queue_depth_def)
    have flush: "mirror_flush ref_for now fault answers conn m =
        (if ?es = [] then m1
         else m1\<lparr>targets := map (\<lambda>t. send_to_target now ?es (answers (mt_label t)) t) (targets m1)\<rparr>)"
      using False Some by (simp add: mirror_flush_def drain_def Let_def m1_def)
    show ?thesis
    proof (cases "?es = []")
      case True
      then have "mirror_flush ref_for now fault answers conn m = m1" using flush by simp
      then show ?thesis using assms Some m1 empty [OF True] by (simp add: balances_def queue_depth_def algebra_simps)
    next
      case False
      then have "mirror_flush ref_for now fault answers conn m =
          m1\<lparr>targets := map (\<lambda>t. send_to_target now ?es (answers (mt_label t)) t) (targets m)\<rparr>"
        using flush m1(4) by simp
      then have fl: "mirror_flush ref_for now fault answers conn m =
          m1\<lparr>targets := map (\<lambda>t. send_to_target now ?es (answers (mt_label t)) t) (targets m)\<rparr>" .
      show ?thesis unfolding balances_def
      proof
        fix t' assume "t' \<in> set (targets (mirror_flush ref_for now fault answers conn m))"
        then obtain t where t: "t \<in> set (targets m)" "t' = send_to_target now ?es (answers (mt_label t)) t"
          unfolding fl by auto
        have "mt_sent t + mt_rejected t + mt_failed t + m_unregistered m + int (length q) = m_accepted m"
          using assms t(1) Some by (simp add: balances_def queue_depth_def)
        then show "mt_sent t' + mt_rejected t' + mt_failed t' + m_unregistered (mirror_flush ref_for now fault answers conn m) +
            queue_depth (mirror_flush ref_for now fault answers conn m) =
            m_accepted (mirror_flush ref_for now fault answers conn m)"
          using send_counts [of now ?es "answers (mt_label t)" t] m1(1-3) unfolding t(2) fl
          by (simp add: queue_depth_def)
      qed
    qed
  qed
qed

text \<open>What happens to the mirror of a process: a frame offered, or a pass of the task.\<close>

datatype mirror_call =
    Offer "string option" real bool radar_db string wire_frame
  | Flush "string \<Rightarrow> string option" real bool "string \<Rightarrow> int option" "(string, registry_entry) dict"

fun mirror_step :: "mirror_call \<Rightarrow> mirror \<times> fence \<Rightarrow> mirror \<times> fence" where
  "mirror_step (Offer env now readable db node f) s = offer env now readable db node f s"
| "mirror_step (Flush ref_for now fault answers conn) s = (mirror_flush ref_for now fault answers conn (fst s), snd s)"

lemma mirror_step_balances: "balances (fst s) \<Longrightarrow> balances (fst (mirror_step c s))"
  by (cases c) (auto simp: offer_def enqueue_balances flush_balances split: prod.split)

lemma queue_bounded_step:
  "queue_depth (fst s) \<le> int QUEUE_MAX \<Longrightarrow> queue_depth (fst (mirror_step c s)) \<le> int QUEUE_MAX"
  by (cases c) (auto simp: offer_def enqueue_frame_def queue_depth_def mirror_flush_def drain_def Let_def
      split: prod.split option.splits)

lemma configured_balances: "configure_from_env u k = Some m \<Longrightarrow> balances m \<and> queue_depth m = 0"
proof -
  have new: "list_all (\<lambda>t. mt_sent t = 0 \<and> mt_rejected t = 0 \<and> mt_failed t = 0) ts'"
    if "add_targets uks ts = Some ts'" "list_all (\<lambda>t. mt_sent t = 0 \<and> mt_rejected t = 0 \<and> mt_failed t = 0) ts" for uks ts ts'
    using that
    by (induction uks ts rule: add_targets.induct) (auto simp: Let_def new_target_def split: option.splits if_splits)
  assume c: "configure_from_env u k = Some m"
  then have "list_all (\<lambda>t. mt_sent t = 0 \<and> mt_rejected t = 0 \<and> mt_failed t = 0) (targets m)"
    by (auto simp: configure_from_env_def parse_targets_def Let_def split: option.splits if_splits dest: new)
  with c show ?thesis
    by (auto simp: configure_from_env_def balances_def queue_depth_def list_all_iff split: option.splits if_splits)
qed

text \<open>Whatever is offered and however the receivers answer, for every target the frames it was sent,
  those it rejected, those it failed on, those whose node had left the registry and those still
  queued add up to the frames the mirror accepted, and the queue never passes its bound.
\<close>
theorem mirror_reconciles:
  assumes "configure_from_env urls keys = Some m"
  shows "balances (fst (fold mirror_step calls (m, fence))) \<and>
    queue_depth (fst (fold mirror_step calls (m, fence))) \<le> int QUEUE_MAX"
proof -
  have "balances (fst s) \<and> queue_depth (fst s) \<le> int QUEUE_MAX \<Longrightarrow>
      balances (fst (fold mirror_step calls s)) \<and> queue_depth (fst (fold mirror_step calls s)) \<le> int QUEUE_MAX" for s
    by (induction calls arbitrary: s) (simp_all add: mirror_step_balances queue_bounded_step)
  then show ?thesis using configured_balances [OF assms] by (simp add: QUEUE_MAX_def)
qed

lemma parse_one_target:
  "parse_targets (Some ''https://r.test/'') None = Some [new_target ''r.test'' ''https://r.test'' []]"
  "parse_targets (Some ''https://[r.test'') None = None"
  by code_simp+

theorem mirror_reconciles_witness:
  "\<exists>m. configure_from_env (Some ''https://r.test/'') None = Some m \<and> targets m \<noteq> [] \<and>
     balances (fst (fold mirror_step
       [Offer None 10 True sample_db ''ret0000000a'' sample_frame, Flush (\<lambda>_. None) 11 False (\<lambda>_. Some 1) []]
       (m, initial_fence)))"
proof -
  have "configure_from_env (Some ''https://r.test/'') None =
      Some \<lparr>targets = [new_target ''r.test'' ''https://r.test'' []], waiting_frames = Some [], m_accepted = 0,
            m_dropped = 0, m_unregistered = 0\<rparr>"
    by (simp add: configure_from_env_def parse_one_target)
  from this mirror_reconciles [OF this] show ?thesis
    by (intro exI conjI) (assumption, simp, blast)
qed

end
