(* ===== verification/NodeStream.thy ===== *)
theory NodeStream
  imports DetectionMirror NodeTracks
begin

text \<open>
  What a node sends: its bearer token (\<open>services/node_auth.py\<close>), a detection frame and a heartbeat
  (\<open>routes/node_stream.py\<close>), and its account of itself (\<open>services/node_report_store.py\<close>).  The
  handlers run on one server state; \<open>hash\<close> and \<open>digest\<close> are the hashes of a token and of a
  configuration.  A frame arrives here once the wire model has accepted it.
\<close>

subsection \<open>Bearer tokens\<close>

record node_token =
  tk_node :: string
  tk_hash :: string
  tk_revoked :: "real option"
  tk_reason :: "string option"

text \<open>\<open>token_hash\<close> is unique in the table, so minting fails on a hash already held.\<close>

definition mint_token :: "(string \<Rightarrow> string) \<Rightarrow> string \<Rightarrow> string \<Rightarrow> node_token list \<Rightarrow> node_token list option" where
  "mint_token hash token node tokens =
     (if hash token \<in> set (map tk_hash tokens) then None
      else Some (tokens @ [\<lparr>tk_node = node, tk_hash = hash token, tk_revoked = None, tk_reason = None\<rparr>]))"

definition revoke_tokens :: "real \<Rightarrow> string \<Rightarrow> string \<Rightarrow> node_token list \<Rightarrow> node_token list \<times> nat" where
  "revoke_tokens now node reason tokens =
     (map (\<lambda>t. if tk_node t = node \<and> tk_revoked t = None then t\<lparr>tk_revoked := Some now, tk_reason := Some reason\<rparr> else t) tokens,
      length (filter (\<lambda>t. tk_node t = node \<and> tk_revoked t = None) tokens))"

text \<open>\<open>None\<close> is the 401.\<close>

definition bearer_node :: "(string \<Rightarrow> string) \<Rightarrow> string option \<Rightarrow> node_token list \<Rightarrow> string option" where
  "bearer_node hash header tokens =
     (case partition_at CHR '' '' (case header of None \<Rightarrow> [] | Some h \<Rightarrow> h) of (sch, _, presented) \<Rightarrow>
        if lower sch \<noteq> ''bearer'' \<or> strip presented = [] then None
        else map_option tk_node (find (\<lambda>t. tk_hash t = hash (strip presented) \<and> tk_revoked t = None) tokens))"

subsection \<open>A node's account of itself\<close>

definition ERRORS_KEPT :: nat where "ERRORS_KEPT = 64"

record heartbeat =
  hb_state :: string
  hb_uptime :: int
  hb_boot :: string
  hb_version :: "int option"
  hb_health :: json
  hb_versions :: json
  hb_errors :: "string list"

record node_report =
  rp_received :: real
  rp_boot :: string
  rp_state :: string
  rp_state_since :: real
  rp_uptime :: int
  rp_version :: "int option"
  rp_health :: json
  rp_versions :: json
  rp_errors :: "(real \<times> string) list"

definition record_report :: "heartbeat \<Rightarrow> real \<Rightarrow> node_report option \<Rightarrow> node_report" where
  "record_report b now old =
     (let since = (case old of
            Some r \<Rightarrow> if rp_state r \<noteq> hb_state b \<or> rp_boot r \<noteq> hb_boot b then now else rp_state_since r
          | None \<Rightarrow> now);
          held = (case old of None \<Rightarrow> [] | Some r \<Rightarrow> rp_errors r)
      in \<lparr>rp_received = now, rp_boot = hb_boot b, rp_state = hb_state b, rp_state_since = since,
          rp_uptime = hb_uptime b, rp_version = hb_version b, rp_health = hb_health b, rp_versions = hb_versions b,
          rp_errors = (if hb_errors b = [] then held
                       else keep_last ERRORS_KEPT (held @ map (\<lambda>e. (now, e)) (hb_errors b)))\<rparr>)"

subsection \<open>The handlers\<close>

record stream_server =
  db :: radar_db
  tokens :: "node_token list"
  throttle :: limiter
  regs :: registries
  mirrors :: "mirror \<times> fence"
  reports :: "(string, node_report) dict"
  reported_state :: "(string, string \<times> real) dict"

text \<open>What of the world a handler sees: the clocks, the hashes, the probation switch and whether the
  fence can read the database.\<close>

record stream_world =
  w_now :: real
  w_tick :: real
  w_hash :: "string \<Rightarrow> string"
  w_digest :: "json \<Rightarrow> string"
  w_fence_env :: "string option"
  w_readable :: bool

datatype stream_answer =
    Unauthorized
  | Throttled refusal
  | UnknownVersion
  | Ack nat bool bool
  | Beat bool bool "string option" claim_status

definition version_was_ever_issued :: "config_row list \<Rightarrow> string \<Rightarrow> int \<Rightarrow> bool" where
  "version_was_ever_issued rows node v \<longleftrightarrow> list_ex (\<lambda>r. row_node r = node \<and> version r = v) rows"

definition file_frame :: "stream_world \<Rightarrow> string \<Rightarrow> wire_frame \<Rightarrow> stream_server \<Rightarrow> stream_server \<times> nat" where
  "file_frame w node f s =
     (if dict_get (connected (regs s)) node = None
      then (s\<lparr>regs := (regs s)\<lparr>frames_dropped := frames_dropped (regs s) + 1\<rparr>\<rparr>, 0)
      else (case submit_frame node (pipeline_frame f) (regs s) of
              (g, False) \<Rightarrow> (s\<lparr>regs := g\<rparr>, 0)
            | (g, True) \<Rightarrow>
                (s\<lparr>regs := g, mirrors := offer (w_fence_env w) (w_tick w) (w_readable w) (db s) node f (mirrors s)\<rparr>,
                 length (f_delay f))))"

text \<open>The limiter knows both of its endpoints, so its \<open>ValueError\<close> does not arise.\<close>

definition admitted :: "stream_world \<Rightarrow> string \<Rightarrow> string \<Rightarrow> stream_server \<Rightarrow> stream_server \<times> refusal option" where
  "admitted w node endpoint s =
     (case token_admit (w_tick w) node endpoint (throttle s) of
        Inl _ \<Rightarrow> (s, None)
      | Inr (lm, r) \<Rightarrow> (s\<lparr>throttle := lm\<rparr>, r))"

definition post_detection ::
    "stream_world \<Rightarrow> string option \<Rightarrow> wire_frame \<Rightarrow> stream_server \<Rightarrow> stream_server \<times> stream_answer" where
  "post_detection w header f s0 =
     (case bearer_node (w_hash w) header (tokens s0) of
        None \<Rightarrow> (s0, Unauthorized)
      | Some node \<Rightarrow>
          (case admitted w node ''detection'' s0 of
             (s, Some refusal) \<Rightarrow> (s, Throttled refusal)
           | (s, None) \<Rightarrow>
               (case dict_get (node_rows (db s)) node of
                  None \<Rightarrow> (s, Unauthorized)
                | Some n \<Rightarrow>
                    (let stale = (f_config_version f \<noteq> n_version n) in
                     if stale \<and> \<not> version_was_ever_issued (configs (db s)) node (f_config_version f)
                     then (s, UnknownVersion)
                     else
                       (let allowed = (n_status n = ''active'') in
                        case (if allowed then file_frame w node f s else (s, 0)) of
                          (s', k) \<Rightarrow> (s', Ack k stale allowed))))))"

text \<open>
  \<open>kept\<close> is whether the report's savepoint is released; when it is not the report is lost and
  the in-process note of the state, set inside it, stays.
\<close>

definition store_report :: "bool \<Rightarrow> string \<Rightarrow> heartbeat \<Rightarrow> real \<Rightarrow> stream_server \<Rightarrow> stream_server" where
  "store_report kept node b now s =
     (let r = record_report b now (dict_get (reports s) node);
          s1 = s\<lparr>reported_state := dict_set (reported_state s) node (hb_state b, rp_state_since r)\<rparr>
      in if kept then s1\<lparr>reports := dict_set (reports s1) node r\<rparr> else s1)"

definition recover :: "stream_world \<Rightarrow> string \<Rightarrow> node_row \<Rightarrow> stream_server \<Rightarrow> stream_server" where
  "recover w node n s =
     (if dict_get (connected (regs s)) node \<noteq> None \<or> n_status n \<noteq> ''active'' then s
      else (case register_with_pipeline (w_digest w) (w_now w) (configs (db s)) node (Some (w_now w)) (regs s) of
              None \<Rightarrow> s
            | Some g \<Rightarrow> s\<lparr>regs := g\<rparr>))"

definition post_heartbeat ::
    "stream_world \<Rightarrow> bool \<Rightarrow> string option \<Rightarrow> heartbeat \<Rightarrow> stream_server \<Rightarrow> stream_server \<times> stream_answer" where
  "post_heartbeat w kept header b s0 =
     (case bearer_node (w_hash w) header (tokens s0) of
        None \<Rightarrow> (s0, Unauthorized)
      | Some node \<Rightarrow>
          (case admitted w node ''heartbeat'' s0 of
             (s, Some refusal) \<Rightarrow> (s, Throttled refusal)
           | (s, None) \<Rightarrow>
               (case dict_get (node_rows (db s)) node of
                  None \<Rightarrow> (s, Unauthorized)
                | Some n \<Rightarrow>
                    (let s1 = s\<lparr>db := update_node node (\<lambda>n. n\<lparr>n_last_seen := Some (w_now w)\<rparr>) (db s)\<rparr>;
                         s2 = recover w node n s1;
                         s3 = s2\<lparr>regs := mark_heard node (w_now w) (regs s2)\<rparr>;
                         s4 = store_report kept node b (w_now w) s3
                     in (s4, Beat (hb_version b \<noteq> Some (n_version n)) (n_status n = ''active'')
                           (dict_get (nodes (claiming (db s4))) node)
                           (claim_status node (w_now w) (claiming (db s4))))))))"

subsection \<open>Tokens and reports\<close>

lemma bearer_node_live:
  "bearer_node hash header toks = Some node \<Longrightarrow> \<exists>t \<in> set toks. tk_node t = node \<and> tk_revoked t = None"
proof -
  have f: "find p ts = Some t \<Longrightarrow> t \<in> set ts \<and> p t" for p and ts :: "node_token list" and t
    by (induction ts) (auto split: if_splits)
  assume "bearer_node hash header toks = Some node"
  then obtain q where "map_option tk_node (find q toks) = Some node" and "\<And>t. q t \<Longrightarrow> tk_revoked t = None"
    by (auto simp only: bearer_node_def split: prod.splits if_splits)
  then show ?thesis using f by blast
qed

text \<open>Revocation takes effect on the next request.\<close>

lemma revoked_node_is_refused: "bearer_node hash header (fst (revoke_tokens now node reason toks)) \<noteq> Some node"
proof
  assume "bearer_node hash header (fst (revoke_tokens now node reason toks)) = Some node"
  from bearer_node_live [OF this] obtain t where "t \<in> set (fst (revoke_tokens now node reason toks))"
    "tk_node t = node" "tk_revoked t = None" by blast
  then obtain u where t: "t = (if tk_node u = node \<and> tk_revoked u = None
      then u\<lparr>tk_revoked := Some now, tk_reason := Some reason\<rparr> else u)"
    and n: "tk_node t = node" "tk_revoked t = None" by (auto simp only: revoke_tokens_def fst_conv set_map image_iff)
  show False
  proof (cases "tk_node u = node \<and> tk_revoked u = None")
    case True
    then show ?thesis using t n(2) by simp
  next
    case False
    then show ?thesis using t n by (simp only: if_False) simp
  qed
qed

lemma revoke_leaves_others:
  "tk_node t \<noteq> node \<Longrightarrow> t \<in> set toks \<Longrightarrow> t \<in> set (fst (revoke_tokens now node reason toks))"
  unfolding revoke_tokens_def by simp

lemma length_keep_last: "length (keep_last n xs) = min n (length xs)"
  by (simp add: keep_last_def)

lemma report_errors:
  "length (rp_errors (record_report b now old)) \<le> max ERRORS_KEPT (case old of None \<Rightarrow> 0 | Some r \<Rightarrow> length (rp_errors r))"
  "length (hb_errors b) \<le> ERRORS_KEPT \<Longrightarrow> hb_errors b \<noteq> [] \<Longrightarrow>
   keep_last (length (hb_errors b)) (rp_errors (record_report b now old)) = map (\<lambda>e. (now, e)) (hb_errors b)"
proof -
  show "length (rp_errors (record_report b now old)) \<le> max ERRORS_KEPT (case old of None \<Rightarrow> 0 | Some r \<Rightarrow> length (rp_errors r))"
    by (cases old) (auto simp: record_report_def Let_def length_keep_last intro: min.coboundedI1)
  assume "length (hb_errors b) \<le> ERRORS_KEPT" "hb_errors b \<noteq> []"
  then show "keep_last (length (hb_errors b)) (rp_errors (record_report b now old)) = map (\<lambda>e. (now, e)) (hb_errors b)"
    by (simp add: record_report_def Let_def keep_last_def drop_append min_def)
qed

subsection \<open>A frame is filed whole, under its own node, or not at all\<close>

lemma admitted_only_throttle:
  "admitted w node e s = (s', r) \<Longrightarrow> regs s' = regs s \<and> db s' = db s \<and> tokens s' = tokens s \<and> mirrors s' = mirrors s"
  by (auto simp: admitted_def split: sum.splits prod.splits)

definition queued_as :: "string \<Rightarrow> wire_frame \<Rightarrow> queue_frame item" where
  "queued_as node f = (node, dict_set (pipeline_frame f) ''_node_id'' (JStr node))"

lemma file_frame_cases:
  assumes "file_frame w node f s = (s', k)"
  shows "k = 0 \<and> frames (regs s') = frames (regs s) \<or>
    k = length (f_delay f) \<and> dict_get (connected (regs s)) node \<noteq> None \<and>
    put_nowait (queued_as node f) (frames (regs s)) = Inr (frames (regs s'))"
proof (cases "dict_get (connected (regs s)) node")
  case None
  then show ?thesis using assms by (auto simp: file_frame_def)
next
  case (Some e)
  obtain g ok where g: "submit_frame node (pipeline_frame f) (regs s) = (g, ok)" by fastforce
  show ?thesis
  proof (cases ok)
    case True
    then show ?thesis using assms Some g by (auto simp: file_frame_def submit_frame_True queued_as_def)
  next
    case False
    then show ?thesis using assms Some g by (auto simp: file_frame_def submit_frame_False)
  qed
qed

text \<open>C12:
  A frame is filed whole or not at all, and only under the node whose live token carried it.  Either
  the queue is as it was and the answer counts no detection, or the queue has exactly this frame
  more, on its node's shard and stamped with its node, the answer counts every detection, and the
  node is active, known to the pipeline, and was once issued the configuration the frame names.
\<close>
theorem frame_filed_whole_under_its_node:
  assumes "post_detection w header f s = (s', answer)"
  shows "frames (regs s') = frames (regs s) \<and> (\<forall>k stale allowed. answer = Ack k stale allowed \<longrightarrow> k = 0) \<or>
    (\<exists>node n t stale. bearer_node (w_hash w) header (tokens s) = Some node \<and>
       t \<in> set (tokens s) \<and> tk_node t = node \<and> tk_revoked t = None \<and>
       dict_get (node_rows (db s)) node = Some n \<and> n_status n = ''active'' \<and>
       dict_get (connected (regs s)) node \<noteq> None \<and>
       (f_config_version f = n_version n \<or> (\<exists>r \<in> set (configs (db s)). row_node r = node \<and> version r = f_config_version f)) \<and>
       put_nowait (queued_as node f) (frames (regs s)) = Inr (frames (regs s')) \<and>
       answer = Ack (length (f_delay f)) stale True)"
proof (cases "bearer_node (w_hash w) header (tokens s)")
  case None
  then show ?thesis using assms by (auto simp: post_detection_def)
next
  case (Some node)
  note bearer = Some
  obtain s1 r where adm: "admitted w node ''detection'' s = (s1, r)" by fastforce
  note same = admitted_only_throttle [OF adm]
  show ?thesis
  proof (cases "r \<noteq> None \<or> dict_get (node_rows (db s)) node = None")
    case True
    then show ?thesis using assms bearer adm same by (auto simp: post_detection_def split: option.splits)
  next
    case False
    then obtain n where r: "r = None" and n: "dict_get (node_rows (db s)) node = Some n" by auto
    let ?stale = "f_config_version f \<noteq> n_version n"
    show ?thesis
    proof (cases "?stale \<and> \<not> version_was_ever_issued (configs (db s)) node (f_config_version f) \<or> n_status n \<noteq> ''active''")
      case True
      then show ?thesis using assms bearer adm same r n by (auto simp: post_detection_def Let_def split: if_splits)
    next
      case False
      obtain k where fl: "file_frame w node f s1 = (s', k)" and ans: "answer = Ack k ?stale True"
        using assms bearer adm same r n False by (auto simp: post_detection_def Let_def split: prod.splits if_splits)
      obtain t where t: "t \<in> set (tokens s)" "tk_node t = node" "tk_revoked t = None"
        using bearer_node_live [OF bearer] by blast
      have known: "f_config_version f = n_version n \<or> (\<exists>r \<in> set (configs (db s)). row_node r = node \<and> version r = f_config_version f)"
        using False by (auto simp: version_was_ever_issued_def list_ex_iff)
      from file_frame_cases [OF fl] show ?thesis
      proof
        assume "k = 0 \<and> frames (regs s') = frames (regs s1)"
        then show ?thesis using ans same by simp
      next
        assume "k = length (f_delay f) \<and> dict_get (connected (regs s1)) node \<noteq> None \<and>
          put_nowait (queued_as node f) (frames (regs s1)) = Inr (frames (regs s'))"
        then show ?thesis using ans same bearer t n known False
          by (intro disjI2 exI [of _ node] exI [of _ n] exI [of _ t] exI [of _ ?stale]) simp
      qed
    qed
  qed
qed

subsection \<open>A heartbeat brings a lost node back\<close>

lemma recover_connected:
  assumes "n_status n = ''active''" and "pipeline_config (configs (db s)) node \<noteq> None"
  shows "dict_get (connected (regs (recover w node n s))) node \<noteq> None"
  using assms by (auto simp: recover_def register_with_pipeline_def register_node_blocking_def evict_pipeline_def Let_def)

lemma recover_keeps:
  "frames (regs (recover w node n s)) = frames (regs s)" "db (recover w node n s) = db s" "tokens (recover w node n s) = tokens s"
  "throttle (recover w node n s) = throttle s"
  by (auto simp: recover_def dest: register_frames split: option.split)

lemma update_node_row:
  "dict_get (node_rows (update_node node f d)) node = map_option f (dict_get (node_rows d) node)"
  "configs (update_node node f d) = configs d"
  by (simp_all add: update_node_def split: option.split)

lemma store_report_keeps:
  "regs (store_report kept node b now s) = regs s" "db (store_report kept node b now s) = db s"
  "tokens (store_report kept node b now s) = tokens s" "throttle (store_report kept node b now s) = throttle s"
  by (simp_all add: store_report_def Let_def)

lemma heartbeat_leaves:
  assumes "post_heartbeat w kept header b s = (s', Beat stale allowed ref claim)"
  obtains node n s1 where "bearer_node (w_hash w) header (tokens s) = Some node"
    "admitted w node ''heartbeat'' s = (s1, None)" "dict_get (node_rows (db s)) node = Some n"
    "db s' = update_node node (\<lambda>n. n\<lparr>n_last_seen := Some (w_now w)\<rparr>) (db s)" "tokens s' = tokens s"
    "throttle s' = throttle s1" "frames (regs s') = frames (regs s)"
    "regs s' = mark_heard node (w_now w) (regs (recover w node n (s1\<lparr>db := db s'\<rparr>)))"
    "stale = (hb_version b \<noteq> Some (n_version n))" "allowed = (n_status n = ''active'')"
proof -
  obtain node where bearer: "bearer_node (w_hash w) header (tokens s) = Some node"
    using assms by (cases "bearer_node (w_hash w) header (tokens s)") (auto simp: post_heartbeat_def)
  obtain s1 r where adm: "admitted w node ''heartbeat'' s = (s1, r)" by fastforce
  note same = admitted_only_throttle [OF adm]
  have r: "r = None" using assms bearer adm by (cases r) (auto simp: post_heartbeat_def)
  obtain n where n: "dict_get (node_rows (db s)) node = Some n"
    using assms bearer adm r same by (cases "dict_get (node_rows (db s)) node") (auto simp: post_heartbeat_def)
  show ?thesis
    using assms bearer adm r same n
    by (intro that [of node s1 n])
      (auto simp: post_heartbeat_def Let_def store_report_keeps recover_keeps mark_heard_frames)
qed

text \<open>The states the server can be in as far as this path reads them: the limiter admits the node's next
  frame, and the queue has room.\<close>

definition frame_admitted :: "stream_world \<Rightarrow> string \<Rightarrow> stream_server \<Rightarrow> bool" where
  "frame_admitted w node s \<longleftrightarrow> snd (admitted w node ''detection'' s) = None \<and> \<not> full (frames (regs s))"

text \<open>A heartbeat is enough to bring back an active node the in-process registries have lost: once one of
  its beats is answered, the node is registered as active and heard from just now, and the next
  frame under its active version is filed whole, provided its limiter admits it and the queue has room.
\<close>
theorem heartbeat_restores_streaming:
  assumes "post_heartbeat w kept header b s = (s1, Beat stale True ref claim)"
    and "bearer_node (w_hash w) header (tokens s) = Some node"
    and "active_config (configs (db s)) node \<noteq> None" and "table_ok (configs (db s))"
    and "dict_get (node_rows (db s)) node = Some n" and "f_config_version f = n_version n"
    and "w_hash w' = w_hash w" and "frame_admitted w' node s1"
  shows "(\<exists>e. dict_get (connected (regs s1)) node = Some e \<and> re_status e = ''active'' \<and> re_heartbeat e = Some (w_now w)) \<and>
    snd (post_detection w' header f s1) = Ack (length (f_delay f)) False True \<and>
    put_nowait (queued_as node f) (frames (regs s1)) = Inr (frames (regs (fst (post_detection w' header f s1))))"
proof -
  obtain node' n' s0 where left: "bearer_node (w_hash w) header (tokens s) = Some node'"
    "dict_get (node_rows (db s)) node' = Some n'" and
    db': "db s1 = update_node node' (\<lambda>n. n\<lparr>n_last_seen := Some (w_now w)\<rparr>) (db s)" and tok: "tokens s1 = tokens s"
    and regs': "regs s1 = mark_heard node' (w_now w) (regs (recover w node' n' (s0\<lparr>db := db s1\<rparr>)))"
    and act': "True = (n_status n' = ''active'')" by (rule heartbeat_leaves [OF assms(1)])
  have eq: "node' = node" "n' = n" using left assms(2,5) by simp_all
  note db1 = db' [unfolded eq] and regs1 = regs' [unfolded eq]
  have act: "n_status n = ''active''" using act' eq by simp
  have "pipeline_config (configs (db s1)) node \<noteq> None"
    using assms(3,4) by (simp add: db1 update_node_row pipeline_config_active)
  then have "dict_get (connected (regs (recover w node n (s0\<lparr>db := db s1\<rparr>)))) node \<noteq> None"
    using recover_connected [OF act, of "s0\<lparr>db := db s1\<rparr>" node w] by simp
  then obtain e where e: "dict_get (connected (regs s1)) node = Some e" "re_status e = ''active''" "re_heartbeat e = Some (w_now w)"
    unfolding regs1 mark_heard_connected by auto
  obtain s2 where adm: "admitted w' node ''detection'' s1 = (s2, None)"
    using assms(8) by (cases "admitted w' node ''detection'' s1") (simp add: frame_admitted_def)
  note same = admitted_only_throttle [OF adm]
  have room: "\<not> full (frames (regs s2))" using assms(8) same by (simp add: frame_admitted_def)
  obtain q where q: "put_nowait (queued_as node f) (frames (regs s2)) = Inr q" using room by (simp add: put_nowait_def Let_def)
  then have sub: "submit_frame node (pipeline_frame f) (regs s2) = ((regs s2)\<lparr>frames := q\<rparr>, True)"
    by (simp add: submit_frame_True queued_as_def)
  have row: "dict_get (node_rows (db s2)) node = Some (n\<lparr>n_last_seen := Some (w_now w)\<rparr>)"
    using same assms(5) by (simp add: db1 update_node_row)
  have "bearer_node (w_hash w') header (tokens s1) = Some node" using assms(2,7) tok by simp
  then have "post_detection w' header f s1 =
      (s2\<lparr>regs := (regs s2)\<lparr>frames := q\<rparr>,
          mirrors := offer (w_fence_env w') (w_tick w') (w_readable w') (db s2) node f (mirrors s2)\<rparr>,
       Ack (length (f_delay f)) False True)"
    using adm row act assms(6) same e sub by (simp add: post_detection_def Let_def file_frame_def)
  then show ?thesis using e q same by simp
qed

text \<open>The sample: one fleet node with a token and a configuration, and no registries yet.\<close>

definition sample_world :: stream_world where
  "sample_world = \<lparr>w_now = 1000, w_tick = 50, w_hash = (\<lambda>t. ''#'' @ t), w_digest = (\<lambda>_. ''0123456789abcdef''),
     w_fence_env = None, w_readable = True\<rparr>"

definition sample_node :: node_row where
  "sample_node = \<lparr>n_board = ''pi5'', n_status = ''active'', n_version = 1, n_licence = None, n_licence_at = None,
     n_publication = ''public'', n_publication_at = None, n_last_seen = None\<rparr>"

definition sample_registries :: registries where
  "sample_registries = \<lparr>registries.connected = [], pipelines = [], analytics_calls = [], associator_calls = [],
     frames = new_queue 4 2, frames_dropped = 0, last_health_check = 0\<rparr>"

definition sample_server :: stream_server where
  "sample_server =
     \<lparr>db = sample_db\<lparr>node_rows := [(''bla00000001'', sample_node)]\<rparr>,
      tokens = [\<lparr>tk_node = ''bla00000001'', tk_hash = ''#secret'', tk_revoked = None, tk_reason = None\<rparr>],
      throttle = new_counters 10 False, regs = sample_registries,
      mirrors = (\<lparr>targets = [], waiting_frames = None, m_accepted = 0, m_dropped = 0, m_unregistered = 0\<rparr>, initial_fence),
      reports = [], reported_state = []\<rparr>"

definition sample_beat :: heartbeat where
  "sample_beat = \<lparr>hb_state = ''streaming'', hb_uptime = 5, hb_boot = ''abcdef01'', hb_version = Some 1, hb_health = JNull,
     hb_versions = JNull, hb_errors = []\<rparr>"

lemma sample_bearer: "bearer_node (w_hash sample_world) (Some ''Bearer secret'') (tokens sample_server) = Some ''bla00000001''"
proof -
  have "partition_at CHR '' '' ''Bearer secret'' = (''Bearer'', True, ''secret'')" by code_simp
  moreover have "lower ''Bearer'' = ''bearer''" "strip ''secret'' = ''secret''" by code_simp+
  ultimately show ?thesis by (simp add: bearer_node_def sample_world_def sample_server_def)
qed

lemma sample_throttle:
  "token_admit 50 ''bla00000001'' ''heartbeat'' (new_counters 10 False) =
     Inr ((new_counters 10 False)\<lparr>counters := [((''bla00000001'', Endpoint ''heartbeat''),
       (window_end_after 50 60, 1))]\<rparr>, None)"
  "\<exists>lm. token_admit 50 ''bla00000001'' ''detection'' ((new_counters 10 False)\<lparr>counters :=
     [((''bla00000001'', Endpoint ''heartbeat''), (window_end_after 50 60, 1))]\<rparr>) = Inr (lm, None)"
  by (simp_all add: token_admit_def ENDPOINT_LIMITS_def dict_get_def admit_def reclaim_if_crowded_def Let_def new_counters_def
      dict_len_def dict_get_default_def dict_set_def)

lemma heartbeat_answers:
  assumes "bearer_node (w_hash w) header (tokens s) = Some node" and "admitted w node ''heartbeat'' s = (s1, None)"
    and "dict_get (node_rows (db s)) node = Some n"
  shows "\<exists>s' ref claim. post_heartbeat w kept header b s =
    (s', Beat (hb_version b \<noteq> Some (n_version n)) (n_status n = ''active'') ref claim)"
  using assms admitted_only_throttle [OF assms(2)] by (simp add: post_heartbeat_def Let_def)

lemma sample_admits:
  "admitted sample_world ''bla00000001'' ''heartbeat'' sample_server =
     (sample_server\<lparr>throttle := (new_counters 10 False)\<lparr>counters := [((''bla00000001'', Endpoint ''heartbeat''),
       (window_end_after 50 60, 1))]\<rparr>\<rparr>, None)"
  using sample_throttle(1) by (simp add: admitted_def sample_server_def sample_world_def)

lemma sample_row_known:
  "dict_get (node_rows (db sample_server)) ''bla00000001'' = Some sample_node"
  "active_config (configs (db sample_server)) ''bla00000001'' \<noteq> None" "table_ok (configs (db sample_server))"
  "n_status sample_node = ''active''" "n_version sample_node = 1"
  by (simp_all add: sample_server_def sample_db_def dict_get_def active_config_def sample_row_def table_ok_def sample_node_def)

theorem heartbeat_restores_streaming_witness:
  "\<exists>s1 ref claim. post_heartbeat sample_world True (Some ''Bearer secret'') sample_beat sample_server = (s1, Beat False True ref claim) \<and>
     (\<exists>e. dict_get (registries.connected (regs s1)) ''bla00000001'' = Some e \<and> re_status e = ''active'') \<and>
     snd (post_detection sample_world (Some ''Bearer secret'') sample_frame s1) = Ack 2 False True"
proof -
  obtain s1 ref claim where beat: "post_heartbeat sample_world True (Some ''Bearer secret'') sample_beat sample_server =
      (s1, Beat False True ref claim)"
    using heartbeat_answers [OF sample_bearer sample_admits sample_row_known(1), of True sample_beat]
    by (auto simp: sample_row_known sample_beat_def)
  have thr: "throttle s1 = (new_counters 10 False)\<lparr>counters := [((''bla00000001'', Endpoint ''heartbeat''),
       (window_end_after 50 60, 1))]\<rparr>" and fr: "frames (regs s1) = new_queue 4 2"
  proof -
    obtain node n s0 where "bearer_node (w_hash sample_world) (Some ''Bearer secret'') (tokens sample_server) = Some node"
      and adm: "admitted sample_world node ''heartbeat'' sample_server = (s0, None)"
      and t: "throttle s1 = throttle s0" and f: "frames (regs s1) = frames (regs sample_server)"
      by (rule heartbeat_leaves [OF beat])
    then have "node = ''bla00000001''" using sample_bearer by simp
    then have "s0 = sample_server\<lparr>throttle := (new_counters 10 False)\<lparr>counters := [((''bla00000001'', Endpoint ''heartbeat''),
       (window_end_after 50 60, 1))]\<rparr>\<rparr>" using adm sample_admits by simp
    then show "throttle s1 = (new_counters 10 False)\<lparr>counters := [((''bla00000001'', Endpoint ''heartbeat''),
       (window_end_after 50 60, 1))]\<rparr>" using t by simp
    show "frames (regs s1) = new_queue 4 2" using f by (simp add: sample_server_def sample_registries_def)
  qed
  have "frame_admitted sample_world ''bla00000001'' s1"
    using sample_throttle(2)
    by (auto simp add: frame_admitted_def admitted_def thr fr sample_world_def full_def qsize_def new_queue_def empty_shard_def numeral_2_eq_2)
  from heartbeat_restores_streaming [OF beat sample_bearer sample_row_known(2,3,1) _ refl this, of sample_frame]
  show ?thesis using beat by (auto simp: sample_row_known sample_frame_def)
qed

theorem frame_filed_whole_under_its_node_witness:
  "\<exists>s' answer. post_detection sample_world (Some ''Bearer secret'') sample_frame sample_server = (s', answer) \<and>
     frames (regs s') = frames (regs sample_server)"
proof -
  obtain s' answer where p: "post_detection sample_world (Some ''Bearer secret'') sample_frame sample_server = (s', answer)"
    by fastforce
  from frame_filed_whole_under_its_node [OF p] have "frames (regs s') = frames (regs sample_server)"
    by (auto simp: sample_bearer sample_server_def sample_registries_def dict_get_def)
  with p show ?thesis by blast
qed

end
