(* ===== verification/Covariance.thy ===== *)
theory Covariance
  imports Prelude
begin

text \<open>
  The matrix arithmetic of the track filter (\<open>services/track_filter.py\<close> uses numpy arrays of
  shape 4x4, 2x4 and 2x2): a matrix is a function of its indices, its dimensions are arguments
  of the operations that sum over them.  The second half is the theory the filter's lemmas
  rest on: symmetric, positive covariances, and the optimality of the Kalman gain.
\<close>

named_theorems covariance_intros "operations that keep a covariance symmetric and positive"

subsection \<open>Vectors and matrices\<close>

type_synonym vec = "nat \<Rightarrow> real"
type_synonym mat = "nat \<Rightarrow> nat \<Rightarrow> real"

definition inner :: "nat \<Rightarrow> vec \<Rightarrow> vec \<Rightarrow> real" where
  "inner n x y = (\<Sum>i<n. x i * y i)"

definition mvec :: "nat \<Rightarrow> mat \<Rightarrow> vec \<Rightarrow> vec" where
  "mvec n a x = (\<lambda>i. \<Sum>k<n. a i k * x k)"

definition mmul :: "nat \<Rightarrow> mat \<Rightarrow> mat \<Rightarrow> mat" where
  "mmul n a b = (\<lambda>i j. \<Sum>k<n. a i k * b k j)"

definition mtransp :: "mat \<Rightarrow> mat" where
  "mtransp a = (\<lambda>i j. a j i)"

definition madd :: "mat \<Rightarrow> mat \<Rightarrow> mat" where
  "madd a b = (\<lambda>i j. a i j + b i j)"

definition msub :: "mat \<Rightarrow> mat \<Rightarrow> mat" where
  "msub a b = (\<lambda>i j. a i j - b i j)"

definition mscale :: "real \<Rightarrow> mat \<Rightarrow> mat" where
  "mscale c a = (\<lambda>i j. c * a i j)"

definition eye :: mat where
  "eye = (\<lambda>i j. if i = j then 1 else 0)"

definition symmetrized :: "mat \<Rightarrow> mat" where
  "symmetrized a = mscale (1 / 2) (madd a (mtransp a))"

definition det2 :: "mat \<Rightarrow> real" where
  "det2 a = a 0 0 * a 1 1 - a 0 1 * a 1 0"

text \<open>\<open>np.linalg.inv\<close> of a 2x2 matrix; a singular one raises \<open>LinAlgError\<close>.\<close>

definition inv2 :: "mat \<Rightarrow> mat option" where
  "inv2 a =
     (if det2 a = 0 then None
      else Some (\<lambda>i j. (if i = 0 then (if j = 0 then a 1 1 else - a 0 1)
                        else (if j = 0 then - a 1 0 else a 0 0)) / det2 a))"

subsection \<open>The algebra of sums\<close>

lemma inner_cong: "(\<And>i. i < n \<Longrightarrow> x i = x' i) \<Longrightarrow> (\<And>i. i < n \<Longrightarrow> y i = y' i) \<Longrightarrow> inner n x y = inner n x' y'"
  by (simp add: inner_def)

lemma mvec_cong: "(\<And>k. k < n \<Longrightarrow> x k = y k) \<Longrightarrow> mvec n a x = mvec n a y"
  by (simp add: mvec_def fun_eq_iff)

lemma inner_add_left: "inner n (\<lambda>i. x i + y i) z = inner n x z + inner n y z"
  by (simp add: inner_def distrib_right sum.distrib)

lemma inner_add_right: "inner n z (\<lambda>i. x i + y i) = inner n z x + inner n z y"
  by (simp add: inner_def distrib_left sum.distrib)

lemma inner_diff_left: "inner n (\<lambda>i. x i - y i) z = inner n x z - inner n y z"
  by (simp add: inner_def left_diff_distrib sum_subtractf)

lemma inner_diff_right: "inner n z (\<lambda>i. x i - y i) = inner n z x - inner n z y"
  by (simp add: inner_def right_diff_distrib sum_subtractf)

lemma inner_commute: "inner n x y = inner n y x"
  by (simp add: inner_def mult.commute)

lemma inner_scale_right: "inner n x (\<lambda>i. c * y i) = c * inner n x y"
  by (simp add: inner_def sum_distrib_left mult.left_commute)

lemma mvec_diff: "mvec n a (\<lambda>i. x i - y i) = (\<lambda>i. mvec n a x i - mvec n a y i)"
  by (simp add: mvec_def fun_eq_iff right_diff_distrib sum_subtractf)

lemma mvec_mmul: "mvec n (mmul m a b) x = mvec m a (mvec n b x)"
  by (rule ext) (simp add: mvec_def mmul_def sum_distrib_left sum_distrib_right mult.assoc sum.swap [of _ "{..<m}"])

lemma mvec_madd: "mvec n (madd a b) x = (\<lambda>i. mvec n a x i + mvec n b x i)"
  by (simp add: mvec_def madd_def fun_eq_iff distrib_right sum.distrib)

lemma mvec_msub: "mvec n (msub a b) x = (\<lambda>i. mvec n a x i - mvec n b x i)"
  by (simp add: mvec_def msub_def fun_eq_iff left_diff_distrib sum_subtractf)

lemma mvec_mscale: "mvec n (mscale c a) x = (\<lambda>i. c * mvec n a x i)"
  by (simp add: mvec_def mscale_def fun_eq_iff sum_distrib_left mult.assoc)

lemma mvec_eye: "i < n \<Longrightarrow> mvec n eye x i = x i"
  by (simp add: mvec_def eye_def if_distrib [of "\<lambda>c. c * _"] sum.delta cong: if_cong)

lemma mtransp_transp [simp]: "mtransp (mtransp a) = a"
  by (simp add: mtransp_def)

lemma mtransp_mmul: "mtransp (mmul n a b) = mmul n (mtransp b) (mtransp a)"
  by (simp add: mtransp_def mmul_def fun_eq_iff mult.commute)

lemma mtransp_msub: "mtransp (msub a b) = msub (mtransp a) (mtransp b)"
  by (simp add: mtransp_def msub_def)

lemma mtransp_eye [simp]: "mtransp eye = eye"
  by (auto simp: mtransp_def eye_def fun_eq_iff)

text \<open>Moving a matrix across the inner product: \<open>a\<close> has \<open>n\<close> rows and \<open>m\<close> columns.\<close>

lemma inner_mvec: "inner n (mvec m a x) y = inner m x (mvec n (mtransp a) y)"
proof -
  have "inner n (mvec m a x) y = (\<Sum>i<n. \<Sum>k<m. a i k * x k * y i)"
    by (simp add: inner_def mvec_def sum_distrib_right)
  also have "\<dots> = (\<Sum>k<m. \<Sum>i<n. a i k * x k * y i)"
    by (rule sum.swap)
  also have "\<dots> = inner m x (mvec n (mtransp a) y)"
    by (simp add: inner_def mvec_def mtransp_def sum_distrib_left mult.commute mult.left_commute)
  finally show ?thesis .
qed

subsection \<open>Covariances\<close>

definition sym_mat :: "nat \<Rightarrow> mat \<Rightarrow> bool" where
  "sym_mat n p \<longleftrightarrow> (\<forall>i<n. \<forall>j<n. p i j = p j i)"

definition quad_form :: "nat \<Rightarrow> mat \<Rightarrow> vec \<Rightarrow> real" where
  "quad_form n p v = inner n v (mvec n p v)"

definition covariance :: "nat \<Rightarrow> mat \<Rightarrow> bool" where
  "covariance n p \<longleftrightarrow> sym_mat n p \<and> (\<forall>v. 0 \<le> quad_form n p v)"

text \<open>Positive definite, for the 2x2 matrices the filter inverts.\<close>

definition definite2 :: "mat \<Rightarrow> bool" where
  "definite2 r \<longleftrightarrow> r 0 1 = r 1 0 \<and> r 0 0 > 0 \<and> det2 r > 0"

lemma sum_lessThan_2: "(\<Sum>i<(2::nat). f i) = (f 0 + f 1 :: real)"
  by (simp add: numeral_2_eq_2)

lemma sum_lessThan_4: "(\<Sum>i<(4::nat). f i) = (f 0 + f 1 + f 2 + f 3 :: real)"
  by (simp add: eval_nat_numeral)

lemma less_2_cases_nat: "(i::nat) < 2 \<Longrightarrow> i = 0 \<or> i = 1"
  by auto

lemma sym_mvec:
  assumes "sym_mat n p"
  shows "inner n u (mvec n p v) = inner n v (mvec n p u)"
proof -
  have "inner n u (mvec n p v) = inner n (mvec n p v) u" by (rule inner_commute)
  also have "\<dots> = inner n v (mvec n (mtransp p) u)" by (rule inner_mvec)
  also have "\<dots> = inner n v (mvec n p u)"
    using assms by (intro inner_cong) (auto simp: mvec_def mtransp_def sym_mat_def)
  finally show ?thesis .
qed

lemma quad_form_2: "sym_mat 2 r \<Longrightarrow> quad_form 2 r v = r 0 0 * v 0 ^ 2 + 2 * r 0 1 * v 0 * v 1 + r 1 1 * v 1 ^ 2"
  by (simp add: quad_form_def inner_def mvec_def sum_lessThan_2 sym_mat_def power2_eq_square algebra_simps)

lemma definite2_sym: "definite2 r \<Longrightarrow> sym_mat 2 r"
  by (auto simp: definite2_def sym_mat_def dest!: less_2_cases_nat)

lemma definite2_scaled:
  assumes "definite2 r"
  shows "r 0 0 * quad_form 2 r v = (r 0 0 * v 0 + r 0 1 * v 1) ^ 2 + det2 r * v 1 ^ 2"
  using assms by (simp add: quad_form_2 [OF definite2_sym [OF assms]] definite2_def det2_def power2_eq_square algebra_simps)

lemma definite2_quad: "definite2 r \<Longrightarrow> 0 \<le> quad_form 2 r v"
proof -
  assume r: "definite2 r"
  then have "0 < r 0 0" "0 < det2 r" by (auto simp: definite2_def)
  then have "0 \<le> r 0 0 * quad_form 2 r v" by (simp add: definite2_scaled [OF r])
  then show "0 \<le> quad_form 2 r v" using \<open>0 < r 0 0\<close> by (simp add: zero_le_mult_iff)
qed

lemma covariance_definite2 [covariance_intros]: "definite2 r \<Longrightarrow> covariance 2 r"
  by (simp add: covariance_def definite2_sym definite2_quad)

lemma definite2_quad_pos: "definite2 r \<Longrightarrow> v 1 \<noteq> 0 \<Longrightarrow> 0 < quad_form 2 r v"
proof -
  assume r: "definite2 r" and v: "v 1 \<noteq> 0"
  have "0 < det2 r * v 1 ^ 2" using r v by (simp add: definite2_def)
  then have "0 < r 0 0 * quad_form 2 r v"
    by (simp add: definite2_scaled [OF r] add_nonneg_pos)
  moreover have "0 < r 0 0" using r by (simp add: definite2_def)
  ultimately show "0 < quad_form 2 r v" by (simp add: zero_less_mult_iff)
qed

lemma covariance_diag:
  assumes "covariance n p" "i < n"
  shows "0 \<le> p i i"
proof -
  have "0 \<le> quad_form n p (\<lambda>k. of_bool (k = i))" using assms(1) by (simp add: covariance_def)
  moreover have "{..<n} \<inter> {k. k = i} = {i}" using assms(2) by auto
  ultimately show ?thesis
    by (simp add: quad_form_def inner_def mvec_def sum_of_bool_mult_eq sum_mult_of_bool_eq)
qed

lemma quad_form_add: "quad_form n (madd p q) v = quad_form n p v + quad_form n q v"
  by (simp add: quad_form_def mvec_madd inner_add_right)

lemma quad_form_congruence: "quad_form n (mmul m a (mmul m p (mtransp a))) v = quad_form m p (mvec n (mtransp a) v)"
  by (simp add: quad_form_def mvec_mmul inner_mvec [of n m a, symmetric] inner_commute [of n v])
     (metis inner_commute inner_mvec mtransp_transp)

lemma covariance_add [covariance_intros]: "covariance n p \<Longrightarrow> covariance n q \<Longrightarrow> covariance n (madd p q)"
  by (auto simp: covariance_def quad_form_add sym_mat_def) (simp add: madd_def)

lemma covariance_scale [covariance_intros]: "covariance n p \<Longrightarrow> 0 \<le> c \<Longrightarrow> covariance n (mscale c p)"
  by (auto simp: covariance_def quad_form_def mvec_mscale inner_scale_right sym_mat_def) (simp add: mscale_def)

lemma sym_congruence:
  assumes "sym_mat m p"
  shows "sym_mat n (mmul m a (mmul m p (mtransp a)))"
proof -
  have "mmul m a (mmul m p (mtransp a)) i j = mmul m a (mmul m p (mtransp a)) j i" for i j
  proof -
    have "mmul m a (mmul m p (mtransp a)) i j = inner m (\<lambda>k. a i k) (mvec m p (\<lambda>k. a j k))" for i j
      by (simp add: mmul_def inner_def mvec_def mtransp_def)
    then show ?thesis by (simp add: sym_mvec [OF assms, of "\<lambda>k. a i k"])
  qed
  then show ?thesis by (simp add: sym_mat_def)
qed

lemma covariance_congruence [covariance_intros]: "covariance m p \<Longrightarrow> covariance n (mmul m a (mmul m p (mtransp a)))"
  by (simp add: covariance_def quad_form_congruence sym_congruence)

lemma mmul_assoc: "mmul m (mmul n a b) c = mmul n a (mmul m b c)"
  by (intro ext) (simp add: mmul_def sum_distrib_left sum_distrib_right mult.assoc sum.swap [of _ "{..<n}"])

lemma symmetrized_sym: "sym_mat n p \<Longrightarrow> i < n \<Longrightarrow> j < n \<Longrightarrow> symmetrized p i j = p i j"
  by (simp add: symmetrized_def mscale_def madd_def mtransp_def sym_mat_def)

lemma quad_form_cong: "(\<And>i j. i < n \<Longrightarrow> j < n \<Longrightarrow> p i j = q i j) \<Longrightarrow> quad_form n p v = quad_form n q v"
  by (simp add: quad_form_def inner_def mvec_def)

lemma covariance_cong: "(\<And>i j. i < n \<Longrightarrow> j < n \<Longrightarrow> p i j = q i j) \<Longrightarrow> covariance n p = covariance n q"
  by (simp add: covariance_def sym_mat_def quad_form_cong [of n p q])

lemma covariance_symmetrized [covariance_intros]: "covariance n p \<Longrightarrow> covariance n (symmetrized p)"
  using covariance_cong [of n "symmetrized p" p] symmetrized_sym [of n p] by (auto simp: covariance_def)

lemma quad_form_symmetrized: "covariance n p \<Longrightarrow> quad_form n (symmetrized p) v = quad_form n p v"
  by (rule quad_form_cong) (rule symmetrized_sym, simp_all add: covariance_def)

subsection \<open>The Kalman correction\<close>

text \<open>
  \<open>joseph\<close> is the covariance the correction computes for any gain, \<open>s\<close> the innovation's
  covariance.  At the Kalman gain it is the smallest over all the gains, in every direction.
\<close>

definition innovation_cov :: "mat \<Rightarrow> mat \<Rightarrow> mat \<Rightarrow> mat" where
  "innovation_cov p h r = madd (mmul 4 h (mmul 4 p (mtransp h))) r"

definition joseph :: "mat \<Rightarrow> mat \<Rightarrow> mat \<Rightarrow> mat \<Rightarrow> mat" where
  "joseph p h r k =
     madd (mmul 4 (msub eye (mmul 2 k h)) (mmul 4 p (mtransp (msub eye (mmul 2 k h))))) (mmul 2 k (mmul 2 r (mtransp k)))"

lemma quad_form_joseph:
  "quad_form 4 (joseph p h r k) v =
   quad_form 4 p (\<lambda>i. v i - mvec 2 (mtransp h) (mvec 4 (mtransp k) v) i) + quad_form 2 r (mvec 4 (mtransp k) v)"
proof -
  have "quad_form 4 p (mvec 4 (mtransp (msub eye (mmul 2 k h))) v) =
        quad_form 4 p (\<lambda>i. v i - mvec 2 (mtransp h) (mvec 4 (mtransp k) v) i)"
    unfolding quad_form_def
    by (intro inner_cong) (auto simp: mtransp_msub mtransp_mmul mvec_msub mvec_mmul mvec_eye intro!: fun_cong [OF mvec_cong])
  then show ?thesis by (simp add: joseph_def quad_form_add quad_form_congruence)
qed

lemma innovation_definite:
  assumes p: "covariance 4 p" and r: "definite2 r"
  shows "definite2 (innovation_cov p h r)"
proof -
  let ?a = "mmul 4 h (mmul 4 p (mtransp h))" and ?s = "innovation_cov p h r"
  have a: "covariance 2 ?a" by (rule covariance_congruence [OF p])
  have s: "sym_mat 2 ?s"
    using covariance_add [OF a covariance_definite2 [OF r]] by (simp add: innovation_cov_def covariance_def)
  have s0: "0 < ?s 0 0"
    using covariance_diag [OF a, of 0] r by (simp add: innovation_cov_def madd_def definite2_def)
  have "0 < quad_form 2 ?s (\<lambda>i. if i = 0 then - ?s 0 1 else ?s 0 0)"
    using definite2_quad_pos [OF r, of "\<lambda>i. if i = 0 then - ?s 0 1 else ?s 0 0"] a s0
    by (simp add: innovation_cov_def quad_form_add covariance_def add_nonneg_pos)
  then have "0 < ?s 0 0 * det2 ?s"
    using s by (simp add: quad_form_2 [OF s] det2_def sym_mat_def power2_eq_square algebra_simps)
  then show ?thesis using s0 s by (simp add: definite2_def zero_less_mult_iff sym_mat_def)
qed

lemma inv2_right:
  assumes "inv2 a = Some b" "i < 2"
  shows "mvec 2 a (mvec 2 b y) i = y i"
proof -
  have d: "det2 a \<noteq> 0" and b: "b = (\<lambda>i j. (if i = 0 then (if j = 0 then a 1 1 else - a 0 1)
                        else (if j = 0 then - a 1 0 else a 0 0)) / det2 a)"
    using assms(1) by (auto simp: inv2_def split: if_splits)
  have "mvec 2 a (mvec 2 b y) i * det2 a =
        a i 0 * (a 1 1 * y 0 - a 0 1 * y 1) + a i 1 * (a 0 0 * y 1 - a 1 0 * y 0)"
    using d by (simp add: b mvec_def sum_lessThan_2 field_simps)
  also have "\<dots> = y i * det2 a"
    using less_2_cases_nat [OF assms(2)] by (auto simp: det2_def algebra_simps)
  finally show ?thesis using d by simp
qed

lemma inv2_sym:
  assumes "inv2 a = Some b" "sym_mat 2 a"
  shows "sym_mat 2 b"
  using assms by (auto simp: inv2_def sym_mat_def split: if_splits dest!: less_2_cases_nat)

text \<open>At the Kalman gain the joseph form is no larger than for the gain whose transpose maps \<open>v\<close> to \<open>g\<close>.\<close>

lemma joseph_optimal:
  assumes p: "covariance 4 p" and r: "definite2 r" and b: "inv2 (innovation_cov p h r) = Some b"
  shows "quad_form 4 (joseph p h r (mmul 2 (mmul 4 p (mtransp h)) b)) v
         \<le> quad_form 4 p (\<lambda>i. v i - mvec 2 (mtransp h) g i) + quad_form 2 r g"
proof -
  let ?s = "innovation_cov p h r" and ?a = "mmul 4 h (mmul 4 p (mtransp h))"
  have sp: "sym_mat 4 p" using p by (simp add: covariance_def)
  have sr: "sym_mat 2 r" using r by (rule definite2_sym)
  have sd: "definite2 ?s" using p r by (rule innovation_definite)
  define w where "w = mvec 4 h (mvec 4 p v)"
  define u where "u = mvec 4 (mtransp (mmul 2 (mmul 4 p (mtransp h)) b)) v"
  have cost: "quad_form 4 p (\<lambda>i. v i - mvec 2 (mtransp h) x i) + quad_form 2 r x =
              quad_form 4 p v - 2 * inner 2 x w + quad_form 2 ?s x" for x
  proof -
    have cross: "inner 4 (mvec 2 (mtransp h) x) (mvec 4 p v) = inner 2 x w"
      by (simp add: w_def inner_mvec)
    have "quad_form 4 p (mvec 2 (mtransp h) x) = quad_form 2 ?a x"
      by (simp add: quad_form_congruence)
    then show ?thesis
      using cross sym_mvec [OF sp, of v "mvec 2 (mtransp h) x"]
      by (simp add: quad_form_def mvec_diff inner_diff_left inner_diff_right innovation_cov_def mvec_madd inner_add_right)
  qed
  have so: "mvec 2 ?s u i = w i" if "i < 2" for i
  proof -
    have "u i = mvec 2 b w i" if "i < 2" for i
    proof -
      have "mvec 4 h (mvec 4 (mtransp p) v) = w"
        unfolding w_def using sp by (intro mvec_cong) (simp add: mvec_def mtransp_def sym_mat_def)
      then have "u = mvec 2 (mtransp b) w" by (simp add: u_def mtransp_mmul mvec_mmul)
      then show ?thesis
        using inv2_sym [OF b definite2_sym [OF sd]] that by (simp add: mvec_def mtransp_def sym_mat_def)
    qed
    then have "mvec 2 ?s u i = mvec 2 ?s (mvec 2 b w) i" by (metis mvec_cong)
    then show ?thesis using inv2_right [OF b that] by simp
  qed
  have "0 \<le> quad_form 2 ?s (\<lambda>i. g i - u i)" using sd by (rule definite2_quad)
  also have "\<dots> = quad_form 2 ?s g - 2 * inner 2 g (mvec 2 ?s u) + quad_form 2 ?s u"
    using sym_mvec [OF definite2_sym [OF sd], of u g]
    by (simp add: quad_form_def mvec_diff inner_diff_left inner_diff_right)
  also have "inner 2 g (mvec 2 ?s u) = inner 2 g w" by (rule inner_cong) (auto simp: so)
  finally have "0 \<le> quad_form 2 ?s g - 2 * inner 2 g w + quad_form 2 ?s u" by simp
  moreover have "quad_form 2 ?s u = inner 2 u w" unfolding quad_form_def by (rule inner_cong) (auto simp: so)
  ultimately have "quad_form 2 ?s u - 2 * inner 2 u w \<le> quad_form 2 ?s g - 2 * inner 2 g w" by simp
  then show ?thesis by (simp add: quad_form_joseph cost flip: u_def)
qed

end
