(* ===== verification/Publication.thy ===== *)
theory Publication
  imports PolledRadars
begin

text \<open>
  Withholding what owners declined to publish (\<open>services/publication.py\<close>).  The policy is the set
  of private node ids as last read, with the times and flags of its cache.  Membership also asks
  the probation fence; what it answers at the moment a payload is cut is the predicate \<open>held\<close>.
\<close>

definition POLICY_TTL_S :: real where "POLICY_TTL_S = 30"
definition POLICY_RETRY_S :: real where "POLICY_RETRY_S = 5"

record policy_cache =
  cached_ids :: "string list"
  policy_expires :: real
  have_data :: bool

definition boot_policy :: policy_cache where
  "boot_policy = \<lparr>cached_ids = [], policy_expires = 0, have_data = False\<rparr>"

text \<open>\<open>_query\<close>.\<close>

definition query_private :: "(string \<Rightarrow> bool) \<Rightarrow> radar_db \<Rightarrow> string list" where
  "query_private held d =
     map fst (filter (\<lambda>(n, r). n \<noteq> [] \<and> (n_publication r = ''private'' \<or> held n)) (node_rows d))"

definition cached_policy :: "policy_cache \<Rightarrow> string list option" where
  "cached_policy p = (if have_data p then Some (cached_ids p) else None)"

definition invalidate_policy :: "policy_cache \<Rightarrow> policy_cache" where
  "invalidate_policy p = p\<lparr>policy_expires := 0\<rparr>"

text \<open>\<open>None\<close> in \<open>read\<close> is a query that fails; \<open>None\<close> in the answer is \<open>PublicationUnavailable\<close>.\<close>

definition private_node_ids :: "real \<Rightarrow> string list option \<Rightarrow> policy_cache \<Rightarrow> policy_cache \<times> string list option" where
  "private_node_ids now read p =
     (if now < policy_expires p then (p, cached_policy p)
      else
        (let p' = (case read of
                     Some ids \<Rightarrow> \<lparr>cached_ids = ids, policy_expires = now + POLICY_TTL_S, have_data = True\<rparr>
                   | None \<Rightarrow> p\<lparr>policy_expires := now + POLICY_RETRY_S\<rparr>)
         in (p', cached_policy p')))"

interpretation policy_reads: timed_cache "\<lambda>now read p. fst (private_node_ids now read p)"
    policy_expires cached_policy Some "\<lambda>v. v" POLICY_TTL_S POLICY_RETRY_S
  by unfold_locales (auto simp: private_node_ids_def cached_policy_def Let_def POLICY_TTL_S_def POLICY_RETRY_S_def)

text \<open>\<open>PrivateNodeIds\<close>: membership, of a value that may be no string, and truth.\<close>

definition in_private :: "(string \<Rightarrow> bool) \<Rightarrow> string list \<Rightarrow> json \<Rightarrow> bool" where
  "in_private held ids v = (case v of JStr n \<Rightarrow> n \<in> set ids \<or> held n | _ \<Rightarrow> False)"

definition any_private :: "bool \<Rightarrow> string list \<Rightarrow> bool" where
  "any_private fence_on ids \<longleftrightarrow> ids \<noteq> [] \<or> fence_on"

definition is_private :: "(string \<Rightarrow> bool) \<Rightarrow> string list option \<Rightarrow> string option \<Rightarrow> bool" where
  "is_private held pol node =
     (case node of
        None \<Rightarrow> False
      | Some n \<Rightarrow> n \<noteq> [] \<and> (case pol of None \<Rightarrow> True | Some ids \<Rightarrow> in_private held ids (JStr n)))"

subsection \<open>Payloads\<close>

text \<open>The entries of a payload are objects; a field that is not there reads as an empty list.\<close>

fun json_list :: "json \<Rightarrow> json list" where
  "json_list (JArr xs) = xs"
| "json_list _ = []"

fun obj_get :: "json \<Rightarrow> string \<Rightarrow> json" where
  "obj_get (JObj d) k = py_get d k"
| "obj_get _ k = JNull"

fun obj_set :: "json \<Rightarrow> string \<Rightarrow> json \<Rightarrow> json" where
  "obj_set (JObj d) k v = JObj (dict_set d k v)"
| "obj_set x k v = x"

definition CONTRIBUTORS :: string where "CONTRIBUTORS = ''contributing_node_ids''"

text \<open>One aircraft of the loop: \<open>None\<close> where it is dropped.\<close>

definition redact_aircraft :: "(json \<Rightarrow> bool) \<Rightarrow> json \<Rightarrow> json option" where
  "redact_aircraft private ac =
     (if private (obj_get ac ''node_id'') then None
      else
        (let contributors = json_list (obj_get ac CONTRIBUTORS); kept = filter (\<lambda>n. \<not> private n) contributors in
         if contributors = [] then Some ac
         else if kept = [] then None
         else if length kept \<noteq> length contributors then Some (obj_set ac CONTRIBUTORS (JArr kept))
         else Some ac))"

definition set_if_there :: "string \<Rightarrow> json \<Rightarrow> (string, json) dict \<Rightarrow> (string, json) dict" where
  "set_if_there k v d = (if dict_has d k then dict_set d k v else d)"

text \<open>What is served before any policy was read.\<close>

definition withheld_payload :: "(string, json) dict \<Rightarrow> (string, json) dict" where
  "withheld_payload data =
     set_if_there ''messages'' (JInt 0)
       (fold (\<lambda>k. set_if_there k (JObj [])) [''detecting_nodes'', ''ground_truth'', ''ground_truth_meta'']
         (fold (\<lambda>k. set_if_there k (JArr [])) [''detection_arcs'', ''anomaly_hexes'']
           (dict_set data ''aircraft'' (JArr []))))"

definition redact_detecting :: "(json \<Rightarrow> bool) \<Rightarrow> (string, json) dict \<Rightarrow> (string, json) dict" where
  "redact_detecting private d =
     List.map_filter (\<lambda>(hex, nids). (case filter (\<lambda>n. \<not> private n) (json_list nids) of
                                      [] \<Rightarrow> None | kept \<Rightarrow> Some (hex, JArr kept))) d"

definition public_aircraft_payload ::
    "(string \<Rightarrow> bool) \<Rightarrow> bool \<Rightarrow> string list option \<Rightarrow> (string, json) dict \<Rightarrow> (string, json) dict" where
  "public_aircraft_payload held fence_on pol data =
     (case pol of
        None \<Rightarrow> withheld_payload data
      | Some ids \<Rightarrow>
          if \<not> any_private fence_on ids then data
          else
            (let private = in_private held ids;
                 aircraft = List.map_filter (redact_aircraft private) (json_list (py_get data ''aircraft''));
                 arcs = filter (\<lambda>arc. \<not> private (obj_get arc ''node_id'')) (json_list (py_get data ''detection_arcs''));
                 out1 = set_if_there ''detection_arcs'' (JArr arcs) (dict_set data ''aircraft'' (JArr aircraft));
                 out2 = (case py_get data ''detecting_nodes'' of
                           JObj d \<Rightarrow> dict_set out1 ''detecting_nodes'' (JObj (redact_detecting private d))
                         | _ \<Rightarrow> out1)
             in set_if_there ''messages'' (JInt (int (length aircraft))) out2))"

text \<open>One aircraft of an owner's own feed.\<close>

definition own_aircraft :: "(json \<Rightarrow> bool) \<Rightarrow> json \<Rightarrow> json" where
  "own_aircraft shown_to_owner ac =
     (let contributors = json_list (obj_get ac CONTRIBUTORS); kept = filter shown_to_owner contributors in
      if contributors \<noteq> [] \<and> length kept \<noteq> length contributors then obj_set ac CONTRIBUTORS (JArr kept) else ac)"

definition without_others_private_nodes ::
    "(string \<Rightarrow> bool) \<Rightarrow> bool \<Rightarrow> string list option \<Rightarrow> string list \<Rightarrow> (string, json) dict \<Rightarrow> (string, json) dict" where
  "without_others_private_nodes held fence_on pol owned data =
     (case pol of
        Some ids \<Rightarrow>
          if \<not> any_private fence_on ids then data
          else dict_set data ''aircraft'' (JArr (map
                 (own_aircraft (\<lambda>v. v \<in> JStr ` set owned \<or> \<not> in_private held ids v)) (json_list (py_get data ''aircraft''))))
      | None \<Rightarrow>
          dict_set data ''aircraft'' (JArr (map
            (own_aircraft (\<lambda>v. v \<in> JStr ` set owned)) (json_list (py_get data ''aircraft'')))))"

definition public_summaries ::
    "(string \<Rightarrow> bool) \<Rightarrow> bool \<Rightarrow> string list option \<Rightarrow> (string, json) dict \<Rightarrow> (string, json) dict" where
  "public_summaries held fence_on pol summaries =
     (case pol of
        None \<Rightarrow> []
      | Some ids \<Rightarrow>
          if \<not> any_private fence_on ids then summaries
          else dict_filter (\<lambda>n s. \<not> in_private held ids (JStr n)) summaries)"

definition registered_private :: "string list \<Rightarrow> radar_db \<Rightarrow> string list" where
  "registered_private ids d =
     map fst (filter (\<lambda>(n, r). n \<in> set ids \<and> n_publication r = ''private'') (node_rows d))"


subsection \<open>What a payload still names\<close>

lemma set_if_there_get: "py_get (set_if_there k v d) x = (if x = k \<and> dict_has d k then v else py_get d x)"
  by (simp add: set_if_there_def)

lemma set_if_there_has [simp]: "dict_has (set_if_there k v d) x = dict_has d x"
  by (auto simp: set_if_there_def)

lemma absent_field: "\<not> dict_has d k \<Longrightarrow> py_get d k = JNull"
  by (simp add: py_get_def dict_has_get)

lemma obj_get_set: "obj_get (obj_set x k v) j = (if j = k \<and> (\<exists>d. x = JObj d) then v else obj_get x j)"
  by (cases x) simp_all

lemma contributors_object: "json_list (obj_get x k) \<noteq> [] \<Longrightarrow> \<exists>d. x = JObj d"
  by (cases x) simp_all

text \<open>What the loop makes of one aircraft.\<close>

lemma redact_Some:
  assumes "redact_aircraft private ac = Some ac'"
  shows "\<not> private (obj_get ac ''node_id'') \<and> (\<forall>k. k \<noteq> CONTRIBUTORS \<longrightarrow> obj_get ac' k = obj_get ac k) \<and>
    json_list (obj_get ac' CONTRIBUTORS) = filter (\<lambda>n. \<not> private n) (json_list (obj_get ac CONTRIBUTORS))"
proof -
  let ?cs = "json_list (obj_get ac CONTRIBUTORS)" and ?kept = "filter (\<lambda>n. \<not> private n) (json_list (obj_get ac CONTRIBUTORS))"
  consider (same) "ac' = ac" "?cs = [] \<or> length ?kept = length ?cs"
    | (cut) "ac' = obj_set ac CONTRIBUTORS (JArr ?kept)" "?cs \<noteq> []"
    using assms by (auto simp: redact_aircraft_def Let_def split: if_splits)
  then show ?thesis
  proof cases
    case same
    have "?kept = ?cs" using same(2)
      by (metis filter.simps(1) filter_True length_filter_less less_irrefl)
    then show ?thesis using assms same(1) by (simp add: redact_aircraft_def split: if_splits)
  next
    case cut
    obtain d where "ac = JObj d" using contributors_object [OF cut(2)] by blast
    then show ?thesis using assms cut by (auto simp: redact_aircraft_def split: if_splits)
  qed
qed

lemma redact_kept:
  "\<not> private (obj_get ac ''node_id'') \<Longrightarrow>
   json_list (obj_get ac CONTRIBUTORS) = [] \<or> (\<exists>c \<in> set (json_list (obj_get ac CONTRIBUTORS)). \<not> private c) \<Longrightarrow>
   \<exists>ac'. redact_aircraft private ac = Some ac'"
  by (auto simp: redact_aircraft_def Let_def filter_empty_conv)

lemma map_filter_set: "x \<in> set (List.map_filter f xs) \<longleftrightarrow> (\<exists>y \<in> set xs. f y = Some x)"
  by (induction xs) (auto simp: List.map_filter_simps split: option.split)

text \<open>The fields of a payload that is cut under a known policy.\<close>

lemma public_fields:
  assumes "any_private fence_on ids"
  shows "json_list (py_get (public_aircraft_payload held fence_on (Some ids) data) ''aircraft'') =
      List.map_filter (redact_aircraft (in_private held ids)) (json_list (py_get data ''aircraft''))"
    and "json_list (py_get (public_aircraft_payload held fence_on (Some ids) data) ''detection_arcs'') =
      filter (\<lambda>arc. \<not> in_private held ids (obj_get arc ''node_id'')) (json_list (py_get data ''detection_arcs''))"
    and "py_get (public_aircraft_payload held fence_on (Some ids) data) ''detecting_nodes'' =
      (case py_get data ''detecting_nodes'' of
         JObj d \<Rightarrow> JObj (redact_detecting (in_private held ids) d) | v \<Rightarrow> v)"
    and "dict_has data ''messages'' \<Longrightarrow> py_get (public_aircraft_payload held fence_on (Some ids) data) ''messages'' =
      JInt (int (length (json_list (py_get (public_aircraft_payload held fence_on (Some ids) data) ''aircraft''))))"
  using assms absent_field [of data "''detection_arcs''"]
  by (auto simp: public_aircraft_payload_def Let_def set_if_there_get split: json.split)

lemma redact_detecting_clean:
  "(hex, nids) \<in> set (redact_detecting private d) \<Longrightarrow> v \<in> set (json_list nids) \<Longrightarrow> \<not> private v"
proof -
  assume a: "(hex, nids) \<in> set (redact_detecting private d)" and v: "v \<in> set (json_list nids)"
  then obtain ms where "nids = JArr (filter (\<lambda>n. \<not> private n) ms)"
    by (auto simp: redact_detecting_def map_filter_set split: list.splits) (metis)+
  then show "\<not> private v" using v by simp
qed

text \<open>What is left names no private node.\<close>

lemma payload_clean:
  assumes "\<forall>n. held n \<longrightarrow> fence_on" and "n \<in> set ids \<or> held n"
    and "public_aircraft_payload held fence_on (Some ids) data = out"
  shows "\<forall>ac \<in> set (json_list (py_get out ''aircraft'')).
      obj_get ac ''node_id'' \<noteq> JStr n \<and> JStr n \<notin> set (json_list (obj_get ac CONTRIBUTORS))"
    and "\<forall>arc \<in> set (json_list (py_get out ''detection_arcs'')). obj_get arc ''node_id'' \<noteq> JStr n"
    and "py_get out ''detecting_nodes'' = JObj d \<Longrightarrow> (hex, nids) \<in> set d \<Longrightarrow> JStr n \<notin> set (json_list nids)"
proof -
  have any: "any_private fence_on ids" using assms(1,2) by (auto simp: any_private_def)
  note f = public_fields [OF any, where held = held and data = data, unfolded assms(3)]
  have priv: "in_private held ids (JStr n)" using assms(2) by (simp add: in_private_def)
  show "\<forall>ac \<in> set (json_list (py_get out ''aircraft'')).
      obj_get ac ''node_id'' \<noteq> JStr n \<and> JStr n \<notin> set (json_list (obj_get ac CONTRIBUTORS))"
  proof
    fix ac assume "ac \<in> set (json_list (py_get out ''aircraft''))"
    then obtain ac0 where "redact_aircraft (in_private held ids) ac0 = Some ac" by (auto simp: f(1) map_filter_set)
    from redact_Some [OF this] priv
    show "obj_get ac ''node_id'' \<noteq> JStr n \<and> JStr n \<notin> set (json_list (obj_get ac CONTRIBUTORS))" by (auto simp: CONTRIBUTORS_def)
  qed
  show "\<forall>arc \<in> set (json_list (py_get out ''detection_arcs'')). obj_get arc ''node_id'' \<noteq> JStr n"
    using priv by (auto simp: f(2))
  show "JStr n \<notin> set (json_list nids)" if out: "py_get out ''detecting_nodes'' = JObj d" and mem: "(hex, nids) \<in> set d"
  proof -
    from out f(3) obtain d0 where "d = redact_detecting (in_private held ids) d0"
      by (cases "py_get data ''detecting_nodes''") auto
    then show ?thesis using mem redact_detecting_clean priv by blast
  qed
qed

text \<open>C16:
  No published aircraft payload names a node its owner declined to publish, or one the probation
  fence holds: not as the source of an entry, not among a solve's contributors, not at the focus of
  an arc, not as a detecting node.  Until a policy has been read the payload carries no aircraft,
  arcs, memberships or ground truth at all.  And nothing else is lost: every entry that is not a
  private node's and keeps a contributor stays, as it was but for the struck contributors.
\<close>
theorem public_payload_names_no_private_node:
  assumes "\<forall>n. held n \<longrightarrow> fence_on" and "public_aircraft_payload held fence_on pol data = out"
  shows "(pol = None \<longrightarrow> json_list (py_get out ''aircraft'') = [] \<and> json_list (py_get out ''detection_arcs'') = [] \<and>
      (\<forall>k \<in> {''detecting_nodes'', ''ground_truth'', ''ground_truth_meta''}. py_get out k \<in> {JNull, JObj []})) \<and>
    (\<forall>ids n. pol = Some ids \<and> (n \<in> set ids \<or> held n) \<longrightarrow>
       (\<forall>ac \<in> set (json_list (py_get out ''aircraft'')).
          obj_get ac ''node_id'' \<noteq> JStr n \<and> JStr n \<notin> set (json_list (obj_get ac CONTRIBUTORS))) \<and>
       (\<forall>arc \<in> set (json_list (py_get out ''detection_arcs'')). obj_get arc ''node_id'' \<noteq> JStr n) \<and>
       (\<forall>d hex nids. py_get out ''detecting_nodes'' = JObj d \<and> (hex, nids) \<in> set d \<longrightarrow> JStr n \<notin> set (json_list nids))) \<and>
    (\<forall>ids ac. pol = Some ids \<and> ac \<in> set (json_list (py_get data ''aircraft'')) \<and>
       \<not> in_private held ids (obj_get ac ''node_id'') \<and>
       (json_list (obj_get ac CONTRIBUTORS) = [] \<or>
        (\<exists>c \<in> set (json_list (obj_get ac CONTRIBUTORS)). \<not> in_private held ids c)) \<longrightarrow>
       (\<exists>ac' \<in> set (json_list (py_get out ''aircraft'')). (\<forall>k. k \<noteq> CONTRIBUTORS \<longrightarrow> obj_get ac' k = obj_get ac k) \<and>
          json_list (obj_get ac' CONTRIBUTORS) =
            filter (\<lambda>c. \<not> in_private held ids c) (json_list (obj_get ac CONTRIBUTORS))))"
proof (cases pol)
  case None
  have "py_get data k = JNull" if "\<not> dict_has data k" for k using that by (rule absent_field)
  then show ?thesis using assms(2) None
    by (auto simp: public_aircraft_payload_def withheld_payload_def set_if_there_get)
next
  case (Some ids)
  show ?thesis
  proof (cases "any_private fence_on ids")
    case False
    then have none: "ids = []" "\<And>n. \<not> held n" using assms(1) by (auto simp: any_private_def)
    then have "\<not> in_private held ids v" for v by (simp add: in_private_def split: json.split)
    moreover have "out = data" using assms(2) Some False by (simp add: public_aircraft_payload_def)
    ultimately show ?thesis using Some none by auto
  next
    case True
    have out: "public_aircraft_payload held fence_on (Some ids) data = out" using assms(2) Some by simp
    note f = public_fields [OF True, where held = held and data = data, unfolded out]
    note clean = payload_clean [OF assms(1) _ out]
    have stays: "\<exists>ac' \<in> set (json_list (py_get out ''aircraft'')). (\<forall>k. k \<noteq> CONTRIBUTORS \<longrightarrow> obj_get ac' k = obj_get ac k) \<and>
          json_list (obj_get ac' CONTRIBUTORS) = filter (\<lambda>c. \<not> in_private held ids c) (json_list (obj_get ac CONTRIBUTORS))"
      if "ac \<in> set (json_list (py_get data ''aircraft''))" "\<not> in_private held ids (obj_get ac ''node_id'')"
       "json_list (obj_get ac CONTRIBUTORS) = [] \<or> (\<exists>c \<in> set (json_list (obj_get ac CONTRIBUTORS)). \<not> in_private held ids c)" for ac
    proof -
      from redact_kept [of "in_private held ids", OF that(2,3)]
      obtain ac' where r: "redact_aircraft (in_private held ids) ac = Some ac'" by blast
      have "ac' \<in> set (json_list (py_get out ''aircraft''))" unfolding f(1) map_filter_set using that(1) r by blast
      then show ?thesis using redact_Some [OF r] by blast
    qed
    show ?thesis using Some clean stays by simp blast
  qed
qed


subsection \<open>The cache answers with the last policy read\<close>

datatype policy_call = AskPolicy real "string list option" | ExpirePolicy

text \<open>A call, with the successful reads and the failed ones as they happen.\<close>

fun policy_step ::
    "policy_call \<Rightarrow> policy_cache \<times> (real \<times> string list) list \<times> real list \<Rightarrow> policy_cache \<times> (real \<times> string list) list \<times> real list" where
  "policy_step ExpirePolicy (p, good, bad) = (invalidate_policy p, good, bad)"
| "policy_step (AskPolicy now read) (p, good, bad) =
     (fst (private_node_ids now read p),
      if now < policy_expires p then good else (case read of Some ids \<Rightarrow> good @ [(now, ids)] | None \<Rightarrow> good),
      if now < policy_expires p then bad else (case read of Some ids \<Rightarrow> bad | None \<Rightarrow> bad @ [now]))"

definition policy_inv :: "policy_cache \<times> (real \<times> string list) list \<times> real list \<Rightarrow> bool" where
  "policy_inv s \<longleftrightarrow> (case s of (p, good, bad) \<Rightarrow>
     (have_data p \<longleftrightarrow> good \<noteq> []) \<and> (good \<noteq> [] \<longrightarrow> cached_ids p = snd (last good)) \<and>
     (policy_expires p = 0 \<or> good \<noteq> [] \<and> policy_expires p = fst (last good) + POLICY_TTL_S \<or>
      (\<exists>t \<in> set bad. policy_expires p = t + POLICY_RETRY_S)))"

lemma policy_inv_step: "policy_inv s \<Longrightarrow> policy_inv (policy_step c s)"
  by (cases c; cases s) (auto simp: policy_inv_def private_node_ids_def invalidate_policy_def Let_def split: option.splits)

lemma policy_inv_run: "policy_inv (fold policy_step calls (boot_policy, [], []))"
proof (induction calls rule: rev_induct)
  case Nil
  then show ?case by (simp add: policy_inv_def boot_policy_def)
next
  case (snoc c calls)
  then show ?case using policy_inv_step by simp
qed

text \<open>However questions, failing reads and invalidations interleave, the policy a question is answered
  with is the one read last, never an empty stand-in: without any successful read there is no answer
  and publishing is withheld.  An answered policy was read less than thirty seconds ago, or a read
  of it failed less than five seconds ago; an invalidated one is read again before it is served.
\<close>
theorem policy_served_is_last_read:
  assumes "fold policy_step calls (boot_policy, [], []) = (p, good, bad)" and "0 \<le> now"
    and "policy_step (AskPolicy now read) (p, good, bad) = (p', good', bad')"
  shows "(snd (private_node_ids now read p) = None \<longleftrightarrow> good' = []) \<and>
    (\<forall>ids. snd (private_node_ids now read p) = Some ids \<longrightarrow>
       ids = snd (last good') \<and>
       (now < fst (last good') + 30 \<or> (\<exists>t \<in> set bad'. now < t + 5))) \<and>
    (policy_expires p = 0 \<longrightarrow> length good' + length bad' = length good + length bad + 1)"
proof -
  have "policy_inv (p, good, bad)" using policy_inv_run [of calls] assms(1) by simp
  then have inv: "have_data p \<longleftrightarrow> good \<noteq> []" "good \<noteq> [] \<Longrightarrow> cached_ids p = snd (last good)"
    "policy_expires p = 0 \<or> good \<noteq> [] \<and> policy_expires p = fst (last good) + POLICY_TTL_S \<or>
      (\<exists>t \<in> set bad. policy_expires p = t + POLICY_RETRY_S)" by (auto simp: policy_inv_def)
  show ?thesis
  proof (cases "now < policy_expires p")
    case True
    then have "good' = good" "bad' = bad" using assms(3) by auto
    then show ?thesis using True inv assms(2)
      by (auto simp: private_node_ids_def cached_policy_def POLICY_TTL_S_def POLICY_RETRY_S_def)
  next
    case False
    then show ?thesis using inv assms(3)
      by (cases read) (auto simp: private_node_ids_def cached_policy_def Let_def)
  qed
qed

theorem policy_served_is_last_read_witness:
  "snd (private_node_ids 60 None \<lparr>cached_ids = [''n1''], policy_expires = 40, have_data = True\<rparr>) = Some [''n1'']"
proof -
  let ?calls = "[AskPolicy 5 None, AskPolicy 10 (Some [''n1''])]"
  have run: "fold policy_step ?calls (boot_policy, [], []) =
      (\<lparr>cached_ids = [''n1''], policy_expires = 40, have_data = True\<rparr>, [(10, [''n1''])], [5])"
    by (simp add: boot_policy_def private_node_ids_def POLICY_TTL_S_def POLICY_RETRY_S_def Let_def)
  have step: "policy_step (AskPolicy 60 None) (\<lparr>cached_ids = [''n1''], policy_expires = 40, have_data = True\<rparr>, [(10, [''n1''])], [5]) =
      (\<lparr>cached_ids = [''n1''], policy_expires = 65, have_data = True\<rparr>, [(10, [''n1''])], [5, 60])"
    by (simp add: private_node_ids_def POLICY_RETRY_S_def Let_def)
  have "(0::real) \<le> 60" by simp
  from policy_served_is_last_read [OF run this step]
  show ?thesis by (cases "snd (private_node_ids 60 None \<lparr>cached_ids = [''n1''], policy_expires = 40, have_data = True\<rparr>)") auto
qed

definition sample_payload :: "(string, json) dict" where
  "sample_payload = [(''aircraft'', JArr [JObj [(''node_id'', JStr ''n1'')],
     JObj [(CONTRIBUTORS, JArr [JStr ''n1'', JStr ''n2''])]])]"

text \<open>At a payload whose second aircraft two nodes contributed to.\<close>

theorem public_payload_names_no_private_node_witness:
  "\<exists>ac' \<in> set (json_list (py_get (public_aircraft_payload (\<lambda>_. False) True (Some [''n1'']) sample_payload) ''aircraft'')).
     json_list (obj_get ac' CONTRIBUTORS) = [JStr ''n2'']"
proof -
  let ?ac = "JObj [(CONTRIBUTORS, JArr [JStr ''n1'', JStr ''n2''])]"
  have fence: "\<forall>n. (\<lambda>_. False) n \<longrightarrow> True" by simp
  note all = public_payload_names_no_private_node [OF fence refl, of "Some [''n1'']" sample_payload,
    THEN conjunct2, THEN conjunct2, rule_format, of "[''n1'']" ?ac]
  have "?ac \<in> set (json_list (py_get sample_payload ''aircraft''))" "obj_get ?ac ''node_id'' = JNull"
    "json_list (obj_get ?ac CONTRIBUTORS) = [JStr ''n1'', JStr ''n2'']"
    by (simp_all add: sample_payload_def py_get_def dict_get_def CONTRIBUTORS_def)
  then have "Some [''n1''] = Some [''n1''] \<and> ?ac \<in> set (json_list (py_get sample_payload ''aircraft'')) \<and>
      \<not> in_private (\<lambda>_. False) [''n1''] (obj_get ?ac ''node_id'') \<and>
      (json_list (obj_get ?ac CONTRIBUTORS) = [] \<or>
       (\<exists>c \<in> set (json_list (obj_get ?ac CONTRIBUTORS)). \<not> in_private (\<lambda>_. False) [''n1''] c))"
    and kept: "filter (\<lambda>c. \<not> in_private (\<lambda>_. False) [''n1''] c) (json_list (obj_get ?ac CONTRIBUTORS)) = [JStr ''n2'']"
    by (simp_all only: in_private_def json.case) simp_all
  from all [OF this(1)] show ?thesis unfolding kept by blast
qed

end
