(* ===== verification/NodeRefs.thy ===== *)
theory NodeRefs
  imports Publication NodePipeline NodeTracks
begin

text \<open>
  What a node is published as (\<open>services/node_refs.py\<close>): the private id becomes the public handle
  at the edge.  The two maps are the registry's rows as last read.  \<open>connected\<close> here is the
  registry of connected nodes as the dictionaries the routes fill, of which \<open>node_ref\<close> is read.
  A payload is cut under the maps in force: a refresh is a step of its own, and what is logged once
  per refresh is not kept.  Identities in a payload are strings or null.
\<close>

subsection \<open>The maps\<close>

record ref_maps =
  forward :: "(string, string) dict"
  reverse :: "(string, string) dict"
  refs_expire :: real

definition boot_refs :: ref_maps where "boot_refs = \<lparr>forward = [], reverse = [], refs_expire = 0\<rparr>"

definition REFS_TTL_S :: real where "REFS_TTL_S = 30"
definition REFS_RETRY_S :: real where "REFS_RETRY_S = 5"

text \<open>\<open>rows\<close> are the ids and handles of the table \<open>nodes\<close>.\<close>

definition load_refs :: "(string \<times> string) list \<Rightarrow> (string, string) dict \<times> (string, string) dict" where
  "load_refs rows =
     (let pairs = filter (\<lambda>(nid, ref). nid \<noteq> [] \<and> ref \<noteq> []) rows
      in (fold (\<lambda>(nid, ref) d. dict_set d nid ref) pairs [], fold (\<lambda>(nid, ref) d. dict_set d ref nid) pairs []))"

text \<open>\<open>None\<close> is a read that fails.\<close>

definition refresh_refs :: "real \<Rightarrow> (string \<times> string) list option \<Rightarrow> ref_maps \<Rightarrow> ref_maps" where
  "refresh_refs now read m =
     (if now < refs_expire m then m
      else (case read of
              None \<Rightarrow> m\<lparr>refs_expire := now + REFS_RETRY_S\<rparr>
            | Some rows \<Rightarrow> (case load_refs rows of (f, r) \<Rightarrow>
                \<lparr>forward = f, reverse = r, refs_expire = now + REFS_TTL_S\<rparr>)))"

type_synonym node_fields = "(string, (string, json) dict) dict"

definition ref_for :: "ref_maps \<Rightarrow> string \<Rightarrow> string option" where
  "ref_for m node = (if node = [] then None else dict_get (forward m) node)"

definition id_for_ref :: "ref_maps \<Rightarrow> string \<Rightarrow> string option" where
  "id_for_ref m ref = (if ref = [] then None else dict_get (reverse m) ref)"

definition mirrored_ref :: "node_fields \<Rightarrow> string \<Rightarrow> string option" where
  "mirrored_ref conn node =
     (case dict_get conn node of
        None \<Rightarrow> None
      | Some known \<Rightarrow> (case py_get known ''node_ref'' of JStr r \<Rightarrow> if r = [] then None else Some r | _ \<Rightarrow> None))"

definition owner_identity :: "ref_maps \<Rightarrow> node_fields \<Rightarrow> string \<Rightarrow> string option" where
  "owner_identity m conn node =
     (if node = [] then None
      else if is_synthetic_node node then Some node
      else (case ref_for m node of Some r \<Rightarrow> Some r | None \<Rightarrow> mirrored_ref conn node))"

text \<open>\<open>public_identity\<close> answers the same and logs an id that has no handle.\<close>

definition public_identity :: "ref_maps \<Rightarrow> node_fields \<Rightarrow> string \<Rightarrow> string option" where
  "public_identity m conn node = (if node = [] then None else owner_identity m conn node)"

definition mirrored_id :: "ref_maps \<Rightarrow> node_fields \<Rightarrow> string \<Rightarrow> string option" where
  "mirrored_id m conn ref =
     map_option fst (find (\<lambda>(n, known). py_get known ''node_ref'' = JStr ref \<and> owner_identity m conn n = Some ref) conn)"

definition id_for_identity :: "ref_maps \<Rightarrow> node_fields \<Rightarrow> string \<Rightarrow> string option" where
  "id_for_identity m conn identity =
     (if identity = [] then None
      else if is_synthetic_node identity then Some identity
      else (case id_for_ref m identity of Some n \<Rightarrow> Some n | None \<Rightarrow> mirrored_id m conn identity))"

definition ref_to_id_map :: "ref_maps \<Rightarrow> node_fields \<Rightarrow> string list \<Rightarrow> (string, string) dict" where
  "ref_to_id_map m conn ids =
     fold (\<lambda>n d. case owner_identity m conn n of
                   None \<Rightarrow> d
                 | Some ref \<Rightarrow> if dict_has d ref then d else dict_set d ref n) ids (reverse m)"

definition names_a_node :: "ref_maps \<Rightarrow> string \<Rightarrow> string list \<Rightarrow> bool" where
  "names_a_node m s known \<longleftrightarrow> \<not> is_synthetic_node s \<and> (dict_has (forward m) s \<or> s \<in> set known)"

definition public_name :: "ref_maps \<Rightarrow> json \<Rightarrow> string option \<Rightarrow> string list \<Rightarrow> string option" where
  "public_name m name fallback known =
     (case name of
        JStr s \<Rightarrow> if s = [] \<or> names_a_node m s known then fallback else Some s
      | _ \<Rightarrow> fallback)"

text \<open>\<open>_record_mirrored_ref\<close> of the bulk endpoint (\<open>routes/radar.py\<close>).\<close>

definition record_mirrored_ref :: "ref_maps \<Rightarrow> string \<Rightarrow> string option \<Rightarrow> node_fields \<Rightarrow> node_fields" where
  "record_mirrored_ref m node ref conn =
     (case ref of
        None \<Rightarrow> conn
      | Some r \<Rightarrow>
          if r = [] \<or> id_for_ref m r \<notin> {None, Some node} then conn
          else (case dict_get conn node of
                  None \<Rightarrow> conn
                | Some known \<Rightarrow> dict_set conn node (dict_set known ''node_ref'' (JStr r))))"

subsection \<open>A feed payload under its published names\<close>

definition CONTRIBUTING_REFS :: string where "CONTRIBUTING_REFS = ''contributing_node_refs''"

definition renamed :: "string \<Rightarrow> string \<Rightarrow> json \<Rightarrow> (string, json) dict \<Rightarrow> (string, json) dict" where
  "renamed old new v entry =
     fold (\<lambda>(k, x) out. dict_set out (if k = old then new else k) (if k = old then v else x)) entry []"

definition identity_of :: "(string \<Rightarrow> string option) \<Rightarrow> json \<Rightarrow> string option" where
  "identity_of publish v = (case v of JStr n \<Rightarrow> publish n | _ \<Rightarrow> None)"

definition kept_refs :: "(string \<Rightarrow> string option) \<Rightarrow> json \<Rightarrow> string list" where
  "kept_refs publish v = filter (\<lambda>r. r \<noteq> []) (List.map_filter (identity_of publish) (json_list v))"

definition ref_json :: "string option \<Rightarrow> json" where
  "ref_json r = (case r of None \<Rightarrow> JNull | Some s \<Rightarrow> JStr s)"

text \<open>The two halves of the loop over the aircraft; \<open>None\<close> is \<open>continue\<close>.\<close>

definition publish_contributors :: "(string \<Rightarrow> string option) \<Rightarrow> (string, json) dict \<Rightarrow> (string, json) dict option" where
  "publish_contributors publish ac =
     (if dict_has ac CONTRIBUTORS then
        (let contributors = py_get ac CONTRIBUTORS; kept = kept_refs publish contributors in
         if json_list contributors \<noteq> [] \<and> kept = [] then None
         else Some (renamed CONTRIBUTORS CONTRIBUTING_REFS (JArr (map JStr kept)) ac))
      else Some ac)"

definition publish_node :: "(string \<Rightarrow> string option) \<Rightarrow> (string, json) dict \<Rightarrow> (string, json) dict option" where
  "publish_node publish ac =
     (if dict_has ac ''node_id'' then
        (let node = py_get ac ''node_id''; ref = identity_of publish node in
         if node \<noteq> JNull \<and> ref = None then None else Some (renamed ''node_id'' ''node_ref'' (ref_json ref) ac))
      else Some ac)"

fun publish_aircraft :: "(string \<Rightarrow> string option) \<Rightarrow> json \<Rightarrow> json option" where
  "publish_aircraft publish (JObj ac) =
     map_option JObj (Option.bind (publish_contributors publish ac) (publish_node publish))"
| "publish_aircraft publish _ = None"

fun publish_arc :: "(string \<Rightarrow> string option) \<Rightarrow> json \<Rightarrow> json option" where
  "publish_arc publish (JObj arc) =
     (case identity_of publish (py_get arc ''node_id'') of
        None \<Rightarrow> None
      | Some ref \<Rightarrow> Some (JObj (renamed ''node_id'' ''node_ref'' (JStr ref) arc)))"
| "publish_arc publish _ = None"

definition publish_detecting :: "(string \<Rightarrow> string option) \<Rightarrow> (string, json) dict \<Rightarrow> (string, json) dict" where
  "publish_detecting publish d =
     List.map_filter (\<lambda>(hex, nids). (case kept_refs publish nids of [] \<Rightarrow> None | kept \<Rightarrow> Some (hex, JArr (map JStr kept)))) d"

definition substitute_identities :: "(string \<Rightarrow> string option) \<Rightarrow> (string, json) dict \<Rightarrow> (string, json) dict" where
  "substitute_identities publish data =
     (let aircraft = List.map_filter (publish_aircraft publish) (json_list (py_get data ''aircraft''));
          arcs = List.map_filter (publish_arc publish) (json_list (py_get data ''detection_arcs''));
          out1 = set_if_there ''detection_arcs'' (JArr arcs) (dict_set data ''aircraft'' (JArr aircraft));
          out2 = (case py_get data ''detecting_nodes'' of
                    JObj d \<Rightarrow> dict_set out1 ''detecting_nodes'' (JObj (publish_detecting publish d))
                  | _ \<Rightarrow> out1)
      in set_if_there ''messages'' (JInt (int (length aircraft))) out2)"

subsection \<open>The frame as it is flushed (\<open>services/tasks/aircraft_flush.py\<close>)\<close>

definition feed_field :: "(string, json) dict \<Rightarrow> string \<Rightarrow> json \<Rightarrow> json" where
  "feed_field d k v = dict_get_default d k v"

definition of_nodes :: "string list \<Rightarrow> json \<Rightarrow> bool" where
  "of_nodes ids ac \<longleftrightarrow> obj_get ac ''node_id'' \<in> JStr ` set ids \<or>
     (truthy (obj_get ac ''multinode'') \<or> obj_get ac ''position_source'' = JStr ''adsb_multi_node'') \<and>
     (\<exists>c \<in> set (json_list (obj_get ac CONTRIBUTORS)). c \<in> JStr ` set ids)"

definition filter_payload_to_nodes :: "string list \<Rightarrow> (string, json) dict \<Rightarrow> (string, json) dict" where
  "filter_payload_to_nodes ids data =
     (let matched = filter (of_nodes ids) (json_list (py_get data ''aircraft'')) in
      [(''now'', feed_field data ''now'' (JInt 0)), (''messages'', JInt (int (length matched))), (''aircraft'', JArr matched),
       (''detection_arcs'', JArr (filter (\<lambda>arc. obj_get arc ''node_id'' \<in> JStr ` set ids) (json_list (py_get data ''detection_arcs'')))),
       (''detecting_nodes'', JObj []), (''ground_truth'', JObj []), (''ground_truth_meta'', JObj []), (''anomaly_hexes'', JArr [])])"

definition real_nodes :: "node_fields \<Rightarrow> string list" where
  "real_nodes conn = map fst (filter (\<lambda>(n, info). \<not> truthy (feed_field info ''is_synthetic'' (JBool True))) conn)"

text \<open>The full and the real-only payload of one frame.\<close>

definition flush_once ::
    "(string \<Rightarrow> bool) \<Rightarrow> bool \<Rightarrow> string list option \<Rightarrow> ref_maps \<Rightarrow> node_fields \<Rightarrow> (string, json) dict
     \<Rightarrow> (string, json) dict \<times> (string, json) dict" where
  "flush_once held fence_on pol m conn data =
     (let public_data = public_aircraft_payload held fence_on pol data; publish = public_identity m conn
      in (substitute_identities publish public_data,
          substitute_identities publish (filter_payload_to_nodes (real_nodes conn) public_data)))"

definition owner_payload ::
    "(string \<Rightarrow> bool) \<Rightarrow> bool \<Rightarrow> string list option \<Rightarrow> ref_maps \<Rightarrow> node_fields \<Rightarrow> string list \<Rightarrow> (string, json) dict
     \<Rightarrow> (string, json) dict" where
  "owner_payload held fence_on pol m conn owned data =
     substitute_identities (public_identity m conn)
       (without_others_private_nodes held fence_on pol owned (filter_payload_to_nodes owned data))"

subsection \<open>Records with node ids anywhere\<close>

definition REDACTED :: string where "REDACTED = ''[unpublished node]''"

definition has_suffix :: "string \<Rightarrow> string \<Rightarrow> bool" where
  "has_suffix p s \<longleftrightarrow> has_prefix (rev p) (rev s)"

definition published_key :: "string \<Rightarrow> string" where
  "published_key key =
     (if has_suffix ''node_ids'' key then take (length key - 3) key @ ''refs''
      else if has_suffix ''node_id'' key then take (length key - 2) key @ ''ref''
      else key)"

definition named_here :: "json \<Rightarrow> string list" where
  "named_here v = List.map_filter (\<lambda>x. case x of JStr s \<Rightarrow> if s = [] then None else Some s | _ \<Rightarrow> None)
     (case v of JArr xs \<Rightarrow> xs | _ \<Rightarrow> [v])"

fun named_node_ids :: "json \<Rightarrow> string list" where
  "named_node_ids (JObj d) =
     concat (map (\<lambda>(k, v). (if published_key k \<noteq> k then named_here v else []) @ named_node_ids v) d)"
| "named_node_ids (JArr xs) = concat (map named_node_ids xs)"
| "named_node_ids _ = []"

record vocabulary =
  by_id :: "(string, string option) dict"
  longest_first :: "(string \<times> string option) list"

text \<open>\<open>order\<close> is the order in which the set of ids is iterated.\<close>

definition vocabulary_of :: "(string list \<Rightarrow> string list) \<Rightarrow> ref_maps \<Rightarrow> node_fields \<Rightarrow> string list \<Rightarrow> vocabulary" where
  "vocabulary_of order m conn known =
     (let ids = order (remdups (dict_keys (forward m) @ filter (\<lambda>i. i \<noteq> []) known));
          d = map (\<lambda>n. (n, public_identity m conn n)) (filter (\<lambda>n. \<not> is_synthetic_node n) ids)
      in \<lparr>by_id = d, longest_first = sort_key (\<lambda>p. - int (length (fst p))) d\<rparr>)"

text \<open>\<open>s.replace(old, new)\<close>, for a nonempty \<open>old\<close>.\<close>

function replace_all :: "string \<Rightarrow> string \<Rightarrow> string \<Rightarrow> string" where
  "replace_all old new s =
     (case s of
        [] \<Rightarrow> []
      | c # cs \<Rightarrow> if old \<noteq> [] \<and> has_prefix old s then new @ replace_all old new (drop (length old) s)
                  else c # replace_all old new cs)"
  by pat_completeness auto
termination by (relation "measure (\<lambda>(old, new, s). length s)") auto

declare replace_all.simps [simp del]

definition republish_text :: "vocabulary \<Rightarrow> string \<Rightarrow> string" where
  "republish_text voc s =
     fold (\<lambda>(nid, ref) s. replace_all nid (case ref of None \<Rightarrow> REDACTED | Some r \<Rightarrow> if r = [] then REDACTED else r) s)
       (longest_first voc) s"

text \<open>\<open>None\<close> is \<open>_DROP\<close>, and for a key the entry left out.\<close>

definition republish_key :: "vocabulary \<Rightarrow> string \<Rightarrow> string option" where
  "republish_key voc k =
     (case dict_get (by_id voc) (published_key k) of None \<Rightarrow> Some (published_key k) | Some ref \<Rightarrow> ref)"

fun republished :: "vocabulary \<Rightarrow> string option \<Rightarrow> json \<Rightarrow> json option"
  and republished_fields :: "vocabulary \<Rightarrow> string option \<Rightarrow> (string \<times> json) list \<Rightarrow> (string, json) dict \<Rightarrow> json option"
  and republished_items :: "vocabulary \<Rightarrow> string option \<Rightarrow> json list \<Rightarrow> json list" where
  "republished voc owner (JStr s) =
     (case dict_get (by_id voc) s of
        Some ref \<Rightarrow> map_option JStr ref
      | None \<Rightarrow> Some (JStr (republish_text voc s)))"
| "republished voc owner (JObj d) = republished_fields voc owner d []"
| "republished voc owner (JArr xs) = Some (JArr (republished_items voc owner xs))"
| "republished voc owner v = Some v"
| "republished_fields voc owner [] out = Some (JObj out)"
| "republished_fields voc owner ((k, v) # d) out =
     (if k = ''node_id'' \<and> v = ref_json owner then republished_fields voc owner d out
      else (case republish_key voc k of
              None \<Rightarrow> republished_fields voc owner d out
            | Some key \<Rightarrow>
                (case republished voc owner v of
                   None \<Rightarrow> None
                 | Some w \<Rightarrow> republished_fields voc owner d (dict_set out key w))))"
| "republished_items voc owner [] = []"
| "republished_items voc owner (v # vs) =
     (case republished voc owner v of None \<Rightarrow> republished_items voc owner vs | Some w \<Rightarrow> w # republished_items voc owner vs)"

definition public_records ::
    "(string list \<Rightarrow> string list) \<Rightarrow> ref_maps \<Rightarrow> node_fields \<Rightarrow> string list \<Rightarrow> json list \<Rightarrow> json list" where
  "public_records order m conn known records =
     republished_items (vocabulary_of order m conn (known @ named_node_ids (JArr records))) None records"

definition public_analytics ::
    "(string list \<Rightarrow> string list) \<Rightarrow> ref_maps \<Rightarrow> node_fields \<Rightarrow> string list \<Rightarrow> (string, json) dict \<Rightarrow> json
     \<Rightarrow> (string, json) dict \<times> json" where
  "public_analytics order m conn known summaries cross_node =
     (let voc = vocabulary_of order m conn known;
          nodes = fold (\<lambda>(nid, summary) out.
            (case public_identity m conn nid of
               None \<Rightarrow> out
             | Some ref \<Rightarrow> (case republished voc (Some nid) summary of None \<Rightarrow> out | Some w \<Rightarrow> dict_set out ref w))) summaries [];
          cross = (case republished voc None cross_node of None \<Rightarrow> JObj [] | Some w \<Rightarrow> w)
      in (nodes, cross))"

interpretation ref_reads: timed_cache refresh_refs refs_expire "\<lambda>m. (forward m, reverse m)"
    "load_refs" "\<lambda>v. v" REFS_TTL_S REFS_RETRY_S
  by unfold_locales (auto simp: refresh_refs_def REFS_TTL_S_def REFS_RETRY_S_def split: prod.split)

subsection \<open>Renaming a field\<close>

lemma dict_set_new: "\<not> dict_has d k \<Longrightarrow> dict_set d k v = d @ [(k, v)]"
  by (induction d) (auto simp: dict_set_def dict_has_def split: if_splits)

lemma fold_set_fresh:
  "distinct (map fst (out @ xs)) \<Longrightarrow> fold (\<lambda>(k, v) d. dict_set d k v) xs out = out @ xs"
proof (induction xs arbitrary: out)
  case (Cons x xs)
  obtain k v where x: "x = (k, v)" by fastforce
  have "\<not> dict_has out k" using Cons.prems by (auto simp: x dict_has_keys dict_keys_def)
  then show ?case using Cons.IH [of "out @ [(k, v)]"] Cons.prems by (simp add: x dict_set_new)
qed simp

definition rename_pair :: "string \<Rightarrow> string \<Rightarrow> json \<Rightarrow> string \<times> json \<Rightarrow> string \<times> json" where
  "rename_pair old new v = (\<lambda>(k, x). (if k = old then new else k, if k = old then v else x))"

lemma rename_fst: "fst (rename_pair old new v x) = (if fst x = old then new else fst x)"
  by (simp add: rename_pair_def split_def)

lemma renamed_keys_distinct:
  assumes "dict_ok entry" and "\<not> dict_has entry new"
  shows "distinct (map fst (map (rename_pair old new v) entry))"
proof -
  have "inj_on (\<lambda>k. if k = old then new else k) (set (map fst entry))"
    using assms(2) by (auto simp: inj_on_def dict_has_keys dict_keys_def)
  then have "distinct (map (\<lambda>k. if k = old then new else k) (map fst entry))"
    using assms(1) by (simp add: distinct_map dict_ok_def del: map_map)
  moreover have "map fst (map (rename_pair old new v) entry) = map (\<lambda>k. if k = old then new else k) (map fst entry)"
    by (simp add: rename_fst)
  ultimately show ?thesis by metis
qed

lemma renamed_map:
  assumes "dict_ok entry" and "\<not> dict_has entry new"
  shows "renamed old new v entry = map (rename_pair old new v) entry"
proof -
  have "renamed old new v entry = fold (\<lambda>(k, v) d. dict_set d k v) (map (rename_pair old new v) entry) []"
    by (simp add: renamed_def fold_map o_def rename_pair_def split_def)
  also have "\<dots> = map (rename_pair old new v) entry"
    using fold_set_fresh [of "[]" "map (rename_pair old new v) entry"] renamed_keys_distinct [OF assms] by simp
  finally show ?thesis .
qed

lemma renamed_ok: "dict_ok entry \<Longrightarrow> \<not> dict_has entry new \<Longrightarrow> dict_ok (renamed old new v entry)"
  using renamed_keys_distinct by (simp add: renamed_map dict_ok_def)

lemma renamed_get:
  assumes "dict_ok entry" and "\<not> dict_has entry new" and "dict_has entry old"
  shows "dict_get (renamed old new v entry) k =
    (if k = new then Some v else if k = old then None else dict_get entry k)"
proof -
  have "new \<notin> fst ` set entry \<Longrightarrow> map_of (map (rename_pair old new v) entry) k =
      (if k = new then (if old \<in> fst ` set entry then Some v else None) else if k = old then None else map_of entry k)"
  proof (induction entry)
    case (Cons x entry)
    then show ?case by (cases x) (force simp: rename_pair_def)
  qed simp
  then show ?thesis using assms by (simp add: renamed_map dict_get_def dict_has_keys dict_keys_def)
qed


subsection \<open>What a published payload names\<close>

text \<open>
  An entry as the feed builds it: a dictionary that has private names only, and a node of its own
  only where it is one node's product.
\<close>

definition unpublished :: "json \<Rightarrow> bool" where
  "unpublished e \<longleftrightarrow> (case e of
     JObj d \<Rightarrow> dict_ok d \<and> \<not> dict_has d ''node_ref'' \<and> \<not> dict_has d CONTRIBUTING_REFS \<and>
       (truthy (py_get d ''multinode'') \<or> py_get d ''position_source'' = JStr ''adsb_multi_node'' \<longrightarrow> py_get d ''node_id'' = JNull)
   | _ \<Rightarrow> False)"

definition feed_ok :: "(string, json) dict \<Rightarrow> bool" where
  "feed_ok data \<longleftrightarrow> list_all unpublished (json_list (py_get data ''aircraft'')) \<and>
     list_all (\<lambda>e. unpublished e \<and> obj_get e CONTRIBUTORS = JNull) (json_list (py_get data ''detection_arcs''))"

definition feed_entries :: "(string, json) dict \<Rightarrow> json list" where
  "feed_entries data = json_list (py_get data ''aircraft'') @ json_list (py_get data ''detection_arcs'')"

text \<open>The nodes an entry is of, under its private and under its published names.\<close>

definition entry_nodes :: "json \<Rightarrow> json list" where
  "entry_nodes e = obj_get e ''node_id'' # json_list (obj_get e CONTRIBUTORS)"

definition entry_refs :: "json \<Rightarrow> json list" where
  "entry_refs e = obj_get e ''node_ref'' # json_list (obj_get e CONTRIBUTING_REFS)"

definition detecting_lists :: "(string, json) dict \<Rightarrow> json list" where
  "detecting_lists data = (case py_get data ''detecting_nodes'' of JObj d \<Rightarrow> concat (map (json_list \<circ> snd) d) | _ \<Rightarrow> [])"

definition feed_nodes :: "(string, json) dict \<Rightarrow> json list" where
  "feed_nodes data = concat (map entry_nodes (feed_entries data)) @ detecting_lists data"

definition feed_refs :: "(string, json) dict \<Rightarrow> json list" where
  "feed_refs data = concat (map entry_refs (feed_entries data)) @ detecting_lists data"

lemma unpublished_obj: "unpublished e \<Longrightarrow> \<exists>d. e = JObj d \<and> dict_ok d \<and> \<not> dict_has d ''node_ref'' \<and> \<not> dict_has d CONTRIBUTING_REFS"
  by (cases e) (auto simp: unpublished_def)

lemma identity_of_Some: "identity_of publish v = Some r \<longleftrightarrow> (\<exists>n. v = JStr n \<and> publish n = Some r)"
  by (cases v) (simp_all add: identity_of_def)

lemma kept_refs_from: "r \<in> set (kept_refs publish v) \<Longrightarrow> \<exists>n. JStr n \<in> set (json_list v) \<and> publish n = Some r"
  by (auto simp: kept_refs_def map_filter_set identity_of_Some)

lemma field_names [simp]:
  "CONTRIBUTORS \<noteq> CONTRIBUTING_REFS" "CONTRIBUTORS \<noteq> ''node_id''" "CONTRIBUTORS \<noteq> ''node_ref''"
  "CONTRIBUTING_REFS \<noteq> ''node_id''" "CONTRIBUTING_REFS \<noteq> ''node_ref''" "CONTRIBUTING_REFS \<noteq> CONTRIBUTORS"
  "''node_id'' \<noteq> CONTRIBUTORS" "''node_ref'' \<noteq> CONTRIBUTORS" "''node_id'' \<noteq> CONTRIBUTING_REFS" "''node_ref'' \<noteq> CONTRIBUTING_REFS"
  by (simp_all add: CONTRIBUTORS_def CONTRIBUTING_REFS_def)

lemma has_py_get: "\<not> dict_has d k \<Longrightarrow> py_get d k = JNull"
  by (rule absent_field)

lemma publish_contributors_Some:
  assumes "publish_contributors publish ac = Some ac1" and "dict_ok ac" "\<not> dict_has ac CONTRIBUTING_REFS"
  shows "dict_ok ac1 \<and> \<not> dict_has ac1 CONTRIBUTORS \<and>
    (\<forall>k. k \<noteq> CONTRIBUTORS \<and> k \<noteq> CONTRIBUTING_REFS \<longrightarrow> dict_get ac1 k = dict_get ac k) \<and>
    json_list (py_get ac1 CONTRIBUTING_REFS) = map JStr (kept_refs publish (py_get ac CONTRIBUTORS))"
proof (cases "dict_has ac CONTRIBUTORS")
  case True
  then have ac1: "ac1 = renamed CONTRIBUTORS CONTRIBUTING_REFS (JArr (map JStr (kept_refs publish (py_get ac CONTRIBUTORS)))) ac"
    using assms(1) by (simp add: publish_contributors_def Let_def split: if_splits)
  show ?thesis unfolding ac1 using renamed_get [OF assms(2,3) True] renamed_ok [OF assms(2,3)]
    by (simp add: dict_has_get py_get_def)
next
  case False
  then have "ac1 = ac" using assms(1) by (simp add: publish_contributors_def)
  then show ?thesis using False assms has_py_get [OF False] has_py_get [OF assms(3)]
    by (simp add: kept_refs_def List.map_filter_simps)
qed

lemma publish_node_Some:
  assumes "publish_node publish ac = Some ac1" and "dict_ok ac" "\<not> dict_has ac ''node_ref''"
  shows "\<not> dict_has ac1 ''node_id'' \<and>
    (\<forall>k. k \<noteq> ''node_id'' \<and> k \<noteq> ''node_ref'' \<longrightarrow> dict_get ac1 k = dict_get ac k) \<and>
    py_get ac1 ''node_ref'' = ref_json (identity_of publish (py_get ac ''node_id''))"
proof (cases "dict_has ac ''node_id''")
  case True
  then have ac1: "ac1 = renamed ''node_id'' ''node_ref'' (ref_json (identity_of publish (py_get ac ''node_id''))) ac"
    using assms(1) by (simp add: publish_node_def Let_def split: if_splits)
  show ?thesis unfolding ac1 using renamed_get [OF assms(2,3) True] by (simp add: dict_has_get py_get_def)
next
  case False
  then have "ac1 = ac" using assms(1) by (simp add: publish_node_def)
  then show ?thesis using False has_py_get [OF False] has_py_get [OF assms(3)] by (simp add: identity_of_def ref_json_def)
qed

text \<open>What a published entry names was in the entry it is made from.\<close>

definition published_from :: "(string \<Rightarrow> string option) \<Rightarrow> json \<Rightarrow> json \<Rightarrow> bool" where
  "published_from publish e e' \<longleftrightarrow> obj_get e' ''node_id'' = JNull \<and> obj_get e' CONTRIBUTORS = JNull \<and>
     (\<forall>r. JStr r \<in> set (entry_refs e') \<longrightarrow> (\<exists>n. JStr n \<in> set (entry_nodes e) \<and> publish n = Some r))"

lemma publish_aircraft_from:
  assumes "unpublished e" and "publish_aircraft publish e = Some e'"
  shows "published_from publish e e'"
proof -
  obtain d where e: "e = JObj d" and d: "dict_ok d" "\<not> dict_has d ''node_ref''" "\<not> dict_has d CONTRIBUTING_REFS"
    using unpublished_obj [OF assms(1)] by blast
  obtain d1 d2 where c: "publish_contributors publish d = Some d1" and n: "publish_node publish d1 = Some d2" and e': "e' = JObj d2"
    using assms(2) by (auto simp: e bind_eq_Some_conv)
  note C = publish_contributors_Some [OF c d(1,3)]
  have d1: "\<not> dict_has d1 ''node_ref''" using C d(2) by (simp add: dict_has_get)
  note N = publish_node_Some [OF n C [THEN conjunct1] d1]
  have refs: "py_get d2 CONTRIBUTING_REFS = py_get d1 CONTRIBUTING_REFS" using N by (simp add: py_get_def)
  have node: "py_get d1 ''node_id'' = py_get d ''node_id''" using C by (simp add: py_get_def)
  have "\<exists>n. JStr n \<in> set (entry_nodes e) \<and> publish n = Some r" if r: "JStr r \<in> set (entry_refs e')" for r
  proof -
    consider "py_get d2 ''node_ref'' = JStr r" | "r \<in> set (kept_refs publish (py_get d CONTRIBUTORS))"
      using r C by (auto simp: entry_refs_def e' refs)
    then show ?thesis
    proof cases
      case 1
      then have "identity_of publish (py_get d ''node_id'') = Some r"
        using N node by (simp add: ref_json_def split: option.splits)
      then show ?thesis by (auto simp: identity_of_Some entry_nodes_def e)
    next
      case 2
      then show ?thesis using kept_refs_from by (fastforce simp: entry_nodes_def e)
    qed
  qed
  moreover have "\<not> dict_has d2 CONTRIBUTORS" using C N by (simp add: dict_has_get)
  ultimately show ?thesis using N has_py_get by (simp add: published_from_def e')
qed

lemma publish_arc_from:
  assumes "unpublished e" and "obj_get e CONTRIBUTORS = JNull" and "publish_arc publish e = Some e'"
  shows "published_from publish e e'"
proof -
  obtain d where e: "e = JObj d" and d: "dict_ok d" "\<not> dict_has d ''node_ref''" "\<not> dict_has d CONTRIBUTING_REFS"
    using unpublished_obj [OF assms(1)] by blast
  obtain ref where ref: "identity_of publish (py_get d ''node_id'') = Some ref"
    and e': "e' = JObj (renamed ''node_id'' ''node_ref'' (JStr ref) d)"
    using assms(3) by (auto simp: e split: option.splits)
  then obtain n where n: "py_get d ''node_id'' = JStr n" "publish n = Some ref" by (auto simp: identity_of_Some)
  then have "dict_has d ''node_id''" using has_py_get [of d "''node_id''"] by auto
  from renamed_get [OF d(1,2) this] show ?thesis
    using n d(3) assms(2) by (simp add: published_from_def e' e py_get_def entry_refs_def entry_nodes_def dict_has_get)
qed

text \<open>
  A payload whose identities are substituted: nothing under a private name is left, and what it
  names under a published one are nodes of the payload it was made from.
\<close>

lemma substitute_fields:
  shows "json_list (py_get (substitute_identities publish data) ''aircraft'') =
      List.map_filter (publish_aircraft publish) (json_list (py_get data ''aircraft''))"
    and "json_list (py_get (substitute_identities publish data) ''detection_arcs'') =
      List.map_filter (publish_arc publish) (json_list (py_get data ''detection_arcs''))"
    and "py_get (substitute_identities publish data) ''detecting_nodes'' =
      (case py_get data ''detecting_nodes'' of JObj d \<Rightarrow> JObj (publish_detecting publish d) | v \<Rightarrow> v)"
  using absent_field [of data "''detection_arcs''"]
  by (auto simp: substitute_identities_def Let_def set_if_there_get List.map_filter_simps split: json.split)

lemma detecting_from:
  assumes "JStr r \<in> set (detecting_lists (substitute_identities publish data))"
  shows "\<exists>n. JStr n \<in> set (detecting_lists data) \<and> publish n = Some r"
proof -
  obtain d where d: "py_get data ''detecting_nodes'' = JObj d"
    using assms by (cases "py_get data ''detecting_nodes''") (simp_all add: detecting_lists_def substitute_fields)
  then obtain hex nids where e: "(hex, nids) \<in> set (publish_detecting publish d)" "JStr r \<in> set (json_list nids)"
    using assms by (auto simp: detecting_lists_def substitute_fields)
  then obtain nids0 where k: "(hex, nids0) \<in> set d" "r \<in> set (kept_refs publish nids0)"
    by (auto simp: publish_detecting_def map_filter_set split: list.splits)
  from kept_refs_from [OF k(2)] obtain n where "JStr n \<in> set (json_list nids0)" "publish n = Some r" by blast
  then show ?thesis using k(1) d by (auto simp: detecting_lists_def intro!: exI [of _ n] bexI [of _ "(hex, nids0)"])
qed

lemma substitute_from:
  assumes "feed_ok data"
  shows "\<forall>e' \<in> set (feed_entries (substitute_identities publish data)). obj_get e' ''node_id'' = JNull \<and> obj_get e' CONTRIBUTORS = JNull"
    and "JStr r \<in> set (feed_refs (substitute_identities publish data)) \<Longrightarrow> \<exists>n. JStr n \<in> set (feed_nodes data) \<and> publish n = Some r"
proof -
  have from_entry: "\<exists>e \<in> set (feed_entries data). published_from publish e e'"
    if "e' \<in> set (feed_entries (substitute_identities publish data))" for e'
    using that assms publish_aircraft_from publish_arc_from
    unfolding feed_entries_def substitute_fields set_append Un_iff map_filter_set feed_ok_def list_all_iff by blast
  show "\<forall>e' \<in> set (feed_entries (substitute_identities publish data)). obj_get e' ''node_id'' = JNull \<and> obj_get e' CONTRIBUTORS = JNull"
    using from_entry by (auto simp: published_from_def)
  show "\<exists>n. JStr n \<in> set (feed_nodes data) \<and> publish n = Some r"
    if r: "JStr r \<in> set (feed_refs (substitute_identities publish data))"
  proof (cases "JStr r \<in> set (detecting_lists (substitute_identities publish data))")
    case True
    from detecting_from [OF this] show ?thesis by (auto simp: feed_nodes_def)
  next
    case False
    then obtain e' where e': "e' \<in> set (feed_entries (substitute_identities publish data))" "JStr r \<in> set (entry_refs e')"
      using r by (auto simp: feed_refs_def)
    then obtain e where "e \<in> set (feed_entries data)" "published_from publish e e'" using from_entry by blast
    then show ?thesis using e'(2) by (fastforce simp: published_from_def feed_nodes_def)
  qed
qed

text \<open>Every cut keeps the shape of a feed.\<close>

lemma unpublished_contributors: "unpublished e \<Longrightarrow> unpublished (obj_set e CONTRIBUTORS v)"
  by (cases e) (auto simp: unpublished_def CONTRIBUTORS_def CONTRIBUTING_REFS_def)

lemma unpublished_redacted:
  assumes "unpublished e" and "redact_aircraft priv e = Some e'"
  shows "unpublished e'"
proof -
  consider "e' = e" | v where "e' = obj_set e CONTRIBUTORS v"
    using assms(2) by (auto simp: redact_aircraft_def Let_def split: if_splits)
  then show ?thesis using assms(1) unpublished_contributors by cases auto
qed

lemma feed_ok_public:
  assumes "feed_ok data"
  shows "feed_ok (public_aircraft_payload held fence_on pol data)"
proof -
  consider (none) "pol = None" | (plain) ids where "pol = Some ids" "\<not> any_private fence_on ids"
    | (cut) ids where "pol = Some ids" "any_private fence_on ids" by (cases pol) auto
  then show ?thesis
  proof cases
    case none
    have "json_list (py_get (withheld_payload data) ''aircraft'') = []" "json_list (py_get (withheld_payload data) ''detection_arcs'') = []"
      using absent_field [of data "''detection_arcs''"] by (auto simp: withheld_payload_def set_if_there_get)
    then show ?thesis using none by (simp add: feed_ok_def public_aircraft_payload_def)
  next
    case plain
    then show ?thesis using assms by (simp add: public_aircraft_payload_def)
  next
    case cut
    have "unpublished x" if "y \<in> set (json_list (py_get data ''aircraft''))" "redact_aircraft (in_private held ids) y = Some x" for x y
      using assms that(1) unpublished_redacted [OF _ that(2)] by (simp add: feed_ok_def list_all_iff)
    then show ?thesis using assms
      by (auto simp: cut(1) feed_ok_def list_all_iff public_fields [OF cut(2)] map_filter_set)
  qed
qed

lemma feed_ok_filter: "feed_ok data \<Longrightarrow> feed_ok (filter_payload_to_nodes ids data)"
  by (auto simp: feed_ok_def list_all_iff filter_payload_to_nodes_def py_get_def dict_get_def Let_def)

lemma filter_nodes: "set (feed_nodes (filter_payload_to_nodes ids data)) \<subseteq> set (feed_nodes data)"
  by (auto simp: feed_nodes_def feed_entries_def detecting_lists_def filter_payload_to_nodes_def py_get_def dict_get_def Let_def)

text \<open>No node of a public payload is private, and none at all before the policy was read.\<close>

lemma public_nodes:
  assumes "feed_ok data" "\<forall>n. held n \<longrightarrow> fence_on" and "JStr n \<in> set (feed_nodes (public_aircraft_payload held fence_on pol data))"
  shows "\<exists>ids. pol = Some ids \<and> n \<notin> set ids \<and> \<not> held n"
proof (cases pol)
  case None
  have "json_list (py_get (withheld_payload data) ''aircraft'') = []" "json_list (py_get (withheld_payload data) ''detection_arcs'') = []"
    "py_get (withheld_payload data) ''detecting_nodes'' \<in> {JNull, JObj []}"
    using absent_field [of data "''detection_arcs''"] absent_field [of data "''detecting_nodes''"]
    by (auto simp: withheld_payload_def set_if_there_get)
  then show ?thesis using assms(3) None
    by (auto simp: feed_nodes_def feed_entries_def detecting_lists_def public_aircraft_payload_def)
next
  case (Some ids)
  let ?out = "public_aircraft_payload held fence_on (Some ids) data"
  note clean = payload_clean [OF assms(2) _ refl, of n ids data]
  have "False" if priv: "n \<in> set ids \<or> held n"
  proof -
    have "JStr n \<notin> set (entry_nodes e)" if "e \<in> set (json_list (py_get ?out ''aircraft''))" for e
      using that clean(1) [OF priv] by (auto simp: entry_nodes_def)
    moreover have "JStr n \<notin> set (entry_nodes e)" if "e \<in> set (json_list (py_get ?out ''detection_arcs''))" for e
      using that clean(2) [OF priv] feed_ok_public [OF assms(1)] by (auto simp: entry_nodes_def feed_ok_def list_all_iff)
    moreover have "JStr n \<notin> set (detecting_lists ?out)"
      using clean(3) [OF priv] by (cases "py_get ?out ''detecting_nodes''") (auto simp: detecting_lists_def)
    ultimately show False using assms(3) by (auto simp: Some feed_nodes_def feed_entries_def)
  qed
  then show ?thesis using Some by auto
qed

text \<open>C17:
  What leaves the server on the unauthenticated feeds, the full one and the one cut to real nodes.
  No entry keeps a field under a private name.  Every identity in either payload, the node of an
  entry, the contributors of a solve, the focus of an arc and the detecting nodes of an aircraft, is
  what a node of the frame publishes as, and that node is neither one whose owner declined nor one
  the probation fence holds.  Before a policy has been read no identity leaves at all.
\<close>
theorem public_feeds_name_published_nodes:
  assumes "feed_ok data" and "\<forall>n. held n \<longrightarrow> fence_on"
    and "flush_once held fence_on pol m conn data = (whole, slim)" and "out \<in> {whole, slim}"
  shows "(\<forall>e \<in> set (feed_entries out). obj_get e ''node_id'' = JNull \<and> obj_get e CONTRIBUTORS = JNull) \<and>
    (\<forall>r. JStr r \<in> set (feed_refs out) \<longrightarrow>
       (\<exists>n ids. public_identity m conn n = Some r \<and> pol = Some ids \<and> n \<notin> set ids \<and> \<not> held n))"
proof -
  let ?pub = "public_aircraft_payload held fence_on pol data"
  obtain payload where out: "out = substitute_identities (public_identity m conn) payload"
    and payload: "payload \<in> {?pub, filter_payload_to_nodes (real_nodes conn) ?pub}"
    using assms(3,4) by (auto simp: flush_once_def Let_def)
  have ok: "feed_ok payload" using payload feed_ok_public [OF assms(1)] feed_ok_filter by blast
  have "set (feed_nodes payload) \<subseteq> set (feed_nodes ?pub)" using payload filter_nodes by blast
  then show ?thesis
    using substitute_from [OF ok, where publish = "public_identity m conn"] public_nodes [OF assms(1,2)] unfolding out by blast
qed

lemma own_contributors:
  "json_list (obj_get (own_aircraft keep e) CONTRIBUTORS) = filter keep (json_list (obj_get e CONTRIBUTORS))"
  "unpublished e \<Longrightarrow> unpublished (own_aircraft keep e)"
  "k \<noteq> CONTRIBUTORS \<Longrightarrow> obj_get (own_aircraft keep e) k = obj_get e k"
proof -
  let ?cs = "json_list (obj_get e CONTRIBUTORS)"
  have same: "length (filter keep ?cs) = length ?cs \<Longrightarrow> filter keep ?cs = ?cs"
    by (metis filter_True length_filter_less less_irrefl)
  show "json_list (obj_get (own_aircraft keep e) CONTRIBUTORS) = filter keep ?cs"
    using same contributors_object [of e CONTRIBUTORS] by (auto simp: own_aircraft_def Let_def obj_get_set)
  show "unpublished e \<Longrightarrow> unpublished (own_aircraft keep e)"
    using unpublished_contributors by (simp add: own_aircraft_def Let_def)
  show "k \<noteq> CONTRIBUTORS \<Longrightarrow> obj_get (own_aircraft keep e) k = obj_get e k"
    by (simp add: own_aircraft_def Let_def obj_get_set)
qed

text \<open>The nodes of one owner's cut.\<close>

lemma of_nodes_entry: "unpublished e \<Longrightarrow> of_nodes ids e \<Longrightarrow> obj_get e ''node_id'' = JStr n \<Longrightarrow> n \<in> set ids"
  by (cases e) (auto simp: of_nodes_def unpublished_def)

definition owner_cut :: "(json \<Rightarrow> bool) \<Rightarrow> string list \<Rightarrow> (string, json) dict \<Rightarrow> (string, json) dict" where
  "owner_cut keep owned data =
     (let mine = filter_payload_to_nodes owned data in
      dict_set mine ''aircraft'' (JArr (map (own_aircraft keep) (json_list (py_get mine ''aircraft'')))))"

lemma own_aircraft_all: "own_aircraft (\<lambda>_. True) = (\<lambda>e. e)"
  by (rule ext) (simp add: own_aircraft_def Let_def)

lemma owner_cut_all: "owner_cut (\<lambda>_. True) owned data = filter_payload_to_nodes owned data"
  by (simp add: owner_cut_def filter_payload_to_nodes_def own_aircraft_all Let_def py_get_def dict_get_def dict_set_def)

lemma owner_cut_fields:
  "json_list (py_get (owner_cut keep owned data) ''aircraft'') =
     map (own_aircraft keep) (filter (of_nodes owned) (json_list (py_get data ''aircraft'')))"
  "json_list (py_get (owner_cut keep owned data) ''detection_arcs'') =
     filter (\<lambda>arc. obj_get arc ''node_id'' \<in> JStr ` set owned) (json_list (py_get data ''detection_arcs''))"
  "detecting_lists (owner_cut keep owned data) = []"
  by (simp_all add: owner_cut_def filter_payload_to_nodes_def Let_def py_get_def dict_get_def dict_set_def detecting_lists_def)

lemma owner_cut_nodes:
  assumes "feed_ok data"
  shows "feed_ok (owner_cut keep owned data)"
    and "JStr n \<in> set (feed_nodes (owner_cut keep owned data)) \<Longrightarrow> n \<in> set owned \<or> keep (JStr n)"
proof -
  show "feed_ok (owner_cut keep owned data)"
    using assms own_contributors(2) by (auto simp: feed_ok_def list_all_iff owner_cut_fields)
  show "n \<in> set owned \<or> keep (JStr n)" if n: "JStr n \<in> set (feed_nodes (owner_cut keep owned data))"
  proof -
    consider (aircraft) e where "e \<in> set (json_list (py_get data ''aircraft''))" "of_nodes owned e"
        "JStr n \<in> set (entry_nodes (own_aircraft keep e))"
      | (arc) e where "e \<in> set (json_list (py_get data ''detection_arcs''))" "obj_get e ''node_id'' \<in> JStr ` set owned"
        "JStr n \<in> set (entry_nodes e)"
      using n by (auto simp: feed_nodes_def feed_entries_def owner_cut_fields)
    then show ?thesis
    proof cases
      case aircraft
      have "unpublished e" using assms aircraft(1) by (simp add: feed_ok_def list_all_iff)
      then show ?thesis using aircraft(2,3) of_nodes_entry by (auto simp: entry_nodes_def own_contributors)
    next
      case arc
      then show ?thesis using assms by (auto simp: entry_nodes_def feed_ok_def list_all_iff)
    qed
  qed
qed

text \<open>The feed one owner reads, cut from the unredacted frame: every identity it holds is what a node
  publishes as that the caller owns, or whose owner publishes it and the fence does not hold.  Until
  a policy is known it names the caller's own nodes only.
\<close>
theorem owner_feed_spares_other_private_nodes:
  assumes "feed_ok data" and "\<forall>n. held n \<longrightarrow> fence_on"
    and "JStr r \<in> set (feed_refs (owner_payload held fence_on pol m conn owned data))"
  shows "\<exists>n. public_identity m conn n = Some r \<and>
    (n \<in> set owned \<or> (\<exists>ids. pol = Some ids \<and> n \<notin> set ids \<and> \<not> held n))"
proof -
  obtain keep where cut: "without_others_private_nodes held fence_on pol owned (filter_payload_to_nodes owned data) = owner_cut keep owned data"
    and keep: "\<And>n. keep (JStr n) \<Longrightarrow> n \<in> set owned \<or> (\<exists>ids. pol = Some ids \<and> n \<notin> set ids \<and> \<not> held n)"
  proof (cases pol)
    case None
    then show ?thesis by (intro that [of "\<lambda>v. v \<in> JStr ` set owned"])
        (auto simp: without_others_private_nodes_def owner_cut_def Let_def)
  next
    case (Some ids)
    show ?thesis
    proof (cases "any_private fence_on ids")
      case True
      then show ?thesis using Some by (intro that [of "\<lambda>v. v \<in> JStr ` set owned \<or> \<not> in_private held ids v"])
          (auto simp: without_others_private_nodes_def in_private_def owner_cut_def Let_def)
    next
      case False
      then have "ids = []" "\<not> held n" for n using assms(2) by (auto simp: any_private_def)
      then show ?thesis using Some False by (intro that [of "\<lambda>_. True"])
          (auto simp: without_others_private_nodes_def owner_cut_all)
    qed
  qed
  note ok = owner_cut_nodes [OF assms(1), where keep = keep and owned = owned]
  from assms(3) have "JStr r \<in> set (feed_refs (substitute_identities (public_identity m conn) (owner_cut keep owned data)))"
    by (simp add: owner_payload_def cut)
  from substitute_from(2) [OF ok(1) this] show ?thesis using ok(2) keep by blast
qed

subsection \<open>Handles lead back to what they stand for\<close>

text \<open>The rows the table can hold: the id is the key, the handle is unique, and neither is synthetic.\<close>

definition rows_ok :: "(string \<times> string) list \<Rightarrow> bool" where
  "rows_ok rows \<longleftrightarrow> distinct (map fst rows) \<and> distinct (map snd rows) \<and>
     list_all (\<lambda>(n, r). \<not> is_synthetic_node n \<and> \<not> is_synthetic_node r) rows"

lemma loaded_maps:
  assumes "rows_ok rows" and "load_refs rows = (f, r)"
  shows "dict_get f n = Some ref \<longleftrightarrow> (n, ref) \<in> set rows \<and> n \<noteq> [] \<and> ref \<noteq> []"
    and "dict_get r ref = Some n \<longleftrightarrow> (n, ref) \<in> set rows \<and> n \<noteq> [] \<and> ref \<noteq> []"
proof -
  let ?pairs = "filter (\<lambda>(nid, ref). nid \<noteq> [] \<and> ref \<noteq> []) rows"
  have get: "dict_get d k = Some v \<longleftrightarrow> (k, v) \<in> set d" if "dict_ok d" for d :: "(string, string) dict" and k v
    using dict_get_mem dict_mem_get that by metis
  have fst: "distinct (map fst ?pairs)" using assms(1) by (simp add: rows_ok_def distinct_map_filter)
  have snd: "distinct (map fst (map prod.swap ?pairs))"
    using assms(1) distinct_map_filter [of snd rows] by (simp add: rows_ok_def o_def comp_def)
  have f: "f = ?pairs" using assms(2) fold_set_fresh [of "[]" ?pairs] fst by (auto simp: load_refs_def Let_def)
  have "r = fold (\<lambda>(k, v) d. dict_set d k v) (map prod.swap ?pairs) []"
    using assms(2) by (simp add: load_refs_def Let_def fold_map o_def split_def)
  then have r: "r = map prod.swap ?pairs" using fold_set_fresh [of "[]" "map prod.swap ?pairs"] snd by simp
  show "dict_get f n = Some ref \<longleftrightarrow> (n, ref) \<in> set rows \<and> n \<noteq> [] \<and> ref \<noteq> []"
    unfolding f get [of ?pairs, unfolded dict_ok_def, OF fst] by simp
  show "dict_get r ref = Some n \<longleftrightarrow> (n, ref) \<in> set rows \<and> n \<noteq> [] \<and> ref \<noteq> []"
    unfolding r get [of "map prod.swap ?pairs", unfolded dict_ok_def, OF snd] by (auto simp: image_iff)
qed

text \<open>C18:
  A published handle resolves to a node that is published under exactly that handle, and to nothing
  else: in particular a private id is no handle.  Every handle a node is published under resolves;
  for a node in the registry, and for a synthetic one, to that node itself.  (Two mirrored nodes
  that were sent with one handle share it; the handle then leads to the first of them.)
\<close>
theorem published_handles_resolve:
  assumes "rows_ok rows" and "load_refs rows = (forward m, reverse m)" and "dict_ok conn"
  shows "(id_for_identity m conn handle = Some n \<longrightarrow> public_identity m conn n = Some handle) \<and>
    (public_identity m conn n = Some handle \<longrightarrow> (\<exists>n'. id_for_identity m conn handle = Some n') \<and>
       (is_synthetic_node n \<or> dict_has (forward m) n \<longrightarrow> id_for_identity m conn handle = Some n))"
proof -
  note maps = loaded_maps [OF assms(1,2)]
  have plain: "\<not> is_synthetic_node n \<and> \<not> is_synthetic_node r" if "(n, r) \<in> set rows" for n r
    using assms(1) that by (auto simp: rows_ok_def list_all_iff)
  have sound: "public_identity m conn n = Some handle" if id: "id_for_identity m conn handle = Some n"
  proof -
    have ne: "handle \<noteq> []" using id by (cases handle) (simp_all add: id_for_identity_def)
    consider (synthetic) "is_synthetic_node handle" | (registered) "id_for_ref m handle = Some n"
      | (mirrored) "mirrored_id m conn handle = Some n"
      using id ne by (cases "is_synthetic_node handle"; cases "id_for_ref m handle"; simp add: id_for_identity_def)
    then show ?thesis
    proof cases
      case synthetic
      then have "n = handle" using id ne by (simp add: id_for_identity_def)
      then show ?thesis using synthetic ne by (simp add: public_identity_def owner_identity_def)
    next
      case registered
      then have row: "(n, handle) \<in> set rows" "n \<noteq> []" "handle \<noteq> []" using maps(2) by (auto simp: id_for_ref_def split: if_splits)
      then have "dict_get (forward m) n = Some handle" using maps(1) by blast
      then show ?thesis using plain [OF row(1)] row(2) by (simp add: public_identity_def owner_identity_def ref_for_def)
    next
      case mirrored
      then have "owner_identity m conn n = Some handle"
        by (auto simp: mirrored_id_def find_Some_iff)
      then show ?thesis by (auto simp: public_identity_def owner_identity_def)
    qed
  qed
  have forth: "(\<exists>n'. id_for_identity m conn handle = Some n') \<and>
      (is_synthetic_node n \<or> dict_has (forward m) n \<longrightarrow> id_for_identity m conn handle = Some n)"
    if pub: "public_identity m conn n = Some handle"
  proof -
    have n: "n \<noteq> []" "owner_identity m conn n = Some handle" using pub by (auto simp: public_identity_def split: if_splits)
    consider (synthetic) "is_synthetic_node n" "handle = n" | (registered) "\<not> is_synthetic_node n" "dict_get (forward m) n = Some handle"
      | (mirrored) "\<not> is_synthetic_node n" "dict_get (forward m) n = None" "mirrored_ref conn n = Some handle"
      using n by (cases "is_synthetic_node n"; cases "dict_get (forward m) n"; simp add: owner_identity_def ref_for_def)
    then show ?thesis
    proof cases
      case synthetic
      then show ?thesis using n by (simp add: id_for_identity_def)
    next
      case registered
      then have row: "(n, handle) \<in> set rows" "handle \<noteq> []" using maps(1) by auto
      then have "dict_get (reverse m) handle = Some n" using maps(2) n(1) by blast
      then show ?thesis using plain [OF row(1)] row(2) by (simp add: id_for_identity_def id_for_ref_def)
    next
      case mirrored
      then obtain known where k: "dict_get conn n = Some known" "py_get known ''node_ref'' = JStr handle" "handle \<noteq> []"
        by (auto simp: mirrored_ref_def split: option.splits json.splits if_splits)
      then have "(n, known) \<in> set conn" by (simp add: dict_get_mem)
      then have "find (\<lambda>(n, known). py_get known ''node_ref'' = JStr handle \<and> owner_identity m conn n = Some handle) conn \<noteq> None"
        using k(2) n(2) by (auto simp: find_None_iff)
      then have "\<exists>n'. id_for_identity m conn handle = Some n'"
        using k(3) by (auto simp: id_for_identity_def mirrored_id_def split: option.splits)
      then show ?thesis using mirrored by (simp add: dict_has_get)
    qed
  qed
  show ?thesis using sound forth by blast
qed

subsection \<open>Records name no private id\<close>

fun json_strings :: "json \<Rightarrow> string list" where
  "json_strings (JStr s) = [s]"
| "json_strings (JArr xs) = concat (map json_strings xs)"
| "json_strings (JObj d) = concat (map (\<lambda>(k, v). k # json_strings v) d)"
| "json_strings _ = []"

text \<open>The private ids a caller can know of: the registry's and those named to the walk.\<close>

definition private_id :: "ref_maps \<Rightarrow> string list \<Rightarrow> string \<Rightarrow> bool" where
  "private_id m known s \<longleftrightarrow> s \<noteq> [] \<and> \<not> is_synthetic_node s \<and> (dict_has (forward m) s \<or> s \<in> set known)"

text \<open>
  Ids are shorter than handles: eleven characters in the registry against fifteen, and eighteen
  for the mark that stands for a node without a handle.
\<close>

definition handles_longer :: "ref_maps \<Rightarrow> node_fields \<Rightarrow> string list \<Rightarrow> nat \<Rightarrow> bool" where
  "handles_longer m conn known len \<longleftrightarrow> len < length REDACTED \<and> (\<forall>n. private_id m known n \<longrightarrow> length n \<le> len) \<and>
     (\<forall>n r. \<not> is_synthetic_node n \<and> public_identity m conn n = Some r \<longrightarrow> len < length r)"

lemma replace_all_long: "replace_all old new s = s \<or> length new \<le> length (replace_all old new s)"
proof (induction old new s rule: replace_all.induct)
  case (1 old new s)
  show ?case
  proof (cases s)
    case (Cons c cs)
    show ?thesis
    proof (cases "old \<noteq> [] \<and> has_prefix old s")
      case True
      then have "replace_all old new s = new @ replace_all old new (drop (length old) s)"
        using Cons by (subst replace_all.simps) simp
      then show ?thesis by simp
    next
      case False
      then have "replace_all old new s = c # replace_all old new cs"
        using Cons by (subst replace_all.simps) auto
      then show ?thesis using "1.IH"(2) [OF Cons False] Cons by auto
    qed
  qed (simp add: replace_all.simps)
qed

definition vocabulary_longer :: "vocabulary \<Rightarrow> nat \<Rightarrow> bool" where
  "vocabulary_longer voc len \<longleftrightarrow> len < length REDACTED \<and> set (longest_first voc) = set (by_id voc) \<and>
     (\<forall>(n, ref) \<in> set (by_id voc). length n \<le> len \<and> (\<forall>r. ref = Some r \<longrightarrow> len < length r))"

lemma republish_text_long:
  assumes "vocabulary_longer voc len"
  shows "republish_text voc s = s \<or> len < length (republish_text voc s)"
proof -
  have "\<forall>(n, ref) \<in> set xs. \<forall>r. ref = Some r \<longrightarrow> len < length r \<Longrightarrow> t = s \<or> len < length t \<Longrightarrow>
      (let u = fold (\<lambda>(nid, ref) s. replace_all nid (case ref of None \<Rightarrow> REDACTED | Some r \<Rightarrow> if r = [] then REDACTED else r) s) xs t
       in u = s \<or> len < length u)" for xs t
  proof (induction xs arbitrary: t)
    case (Cons x xs)
    obtain n ref where x: "x = (n, ref)" by fastforce
    let ?new = "case ref of None \<Rightarrow> REDACTED | Some r \<Rightarrow> if r = [] then REDACTED else r"
    have "len < length ?new" using Cons.prems(1) assms by (auto simp: x vocabulary_longer_def split: option.splits)
    then have "replace_all n ?new t = s \<or> len < length (replace_all n ?new t)"
      using replace_all_long [of n ?new t] Cons.prems(2) by force
    with Cons.IH [of "replace_all n ?new t"] Cons.prems(1) show ?case by (simp add: x)
  qed simp
  then show ?thesis using assms by (auto simp: republish_text_def vocabulary_longer_def Let_def) blast
qed

lemma known_short: "vocabulary_longer voc len \<Longrightarrow> dict_has (by_id voc) s \<Longrightarrow> length s \<le> len"
  by (auto simp: vocabulary_longer_def dict_has_keys dict_keys_def)

lemma ref_unknown:
  "vocabulary_longer voc len \<Longrightarrow> dict_get (by_id voc) n = Some (Some r) \<Longrightarrow> \<not> dict_has (by_id voc) r"
  using known_short dict_get_mem by (fastforce simp: vocabulary_longer_def)

lemma strings_set: "set (json_strings (JObj (dict_set d k v))) \<subseteq> insert k (set (json_strings v) \<union> set (json_strings (JObj d)))"
proof -
  have "set (dict_set d k v) \<subseteq> insert (k, v) (set d)" by (induction d) (auto simp: dict_set_def)
  then show ?thesis by fastforce
qed

definition clean :: "vocabulary \<Rightarrow> json \<Rightarrow> bool" where
  "clean voc v \<longleftrightarrow> (\<forall>s \<in> set (json_strings v). \<not> dict_has (by_id voc) s)"

lemma clean_simps [simp]:
  "clean voc (JStr s) \<longleftrightarrow> \<not> dict_has (by_id voc) s"
  "clean voc (JArr xs) \<longleftrightarrow> list_all (clean voc) xs"
  "clean voc (JObj [])" "clean voc JNull" "clean voc (JBool b)" "clean voc (JInt i)" "clean voc (JFloat x)"
  by (auto simp: clean_def list_all_iff)

lemma clean_set:
  "clean voc (JObj d) \<Longrightarrow> \<not> dict_has (by_id voc) k \<Longrightarrow> clean voc v \<Longrightarrow> clean voc (JObj (dict_set d k v))"
  using strings_set [of d k v] unfolding clean_def by blast

lemma republish_key_unknown:
  "vocabulary_longer voc len \<Longrightarrow> republish_key voc k = Some key \<Longrightarrow> \<not> dict_has (by_id voc) key"
  using ref_unknown by (fastforce simp: republish_key_def dict_has_get split: option.splits)

lemma republish_text_unknown:
  assumes "vocabulary_longer voc len" and "dict_get (by_id voc) s = None"
  shows "\<not> dict_has (by_id voc) (republish_text voc s)"
  using republish_text_long [OF assms(1), of s] known_short [OF assms(1)] assms(2) by (fastforce simp: dict_has_get)

lemma republished_clean:
  "vocabulary_longer voc len \<longrightarrow> (\<forall>w. republished voc owner v = Some w \<longrightarrow> clean voc w)"
  "vocabulary_longer voc len \<longrightarrow> clean voc (JObj out) \<longrightarrow> (\<forall>w. republished_fields voc owner d out = Some w \<longrightarrow> clean voc w)"
  "vocabulary_longer voc len \<longrightarrow> list_all (clean voc) (republished_items voc owner vs)"
proof (induction voc owner v and voc owner d out and voc owner vs rule: republished_republished_fields_republished_items.induct)
  case (1 voc owner s)
  then show ?case using ref_unknown republish_text_unknown by (fastforce split: option.splits)
next
  case (6 voc owner k v d out)
  show ?case
  proof (intro impI allI)
    fix w
    assume voc: "vocabulary_longer voc len" and out: "clean voc (JObj out)"
      and w: "republished_fields voc owner ((k, v) # d) out = Some w"
    show "clean voc w"
    proof (cases "k = ''node_id'' \<and> v = ref_json owner")
      case True
      then show ?thesis using "6.IH"(1) voc out w by simp
    next
      case False
      show ?thesis
      proof (cases "republish_key voc k")
        case None
        then show ?thesis using "6.IH"(2) [OF False None] voc out w False by auto
      next
        case (Some key)
        then obtain x where x: "republished voc owner v = Some x" "republished_fields voc owner d (dict_set out key x) = Some w"
          using w False by (auto split: option.splits)
        have "clean voc (JObj (dict_set out key x))"
          using clean_set [OF out republish_key_unknown [OF voc Some]] "6.IH"(3) [OF False Some] voc x(1) by blast
        then show ?thesis using "6.IH"(4) [OF False Some x(1)] voc x(2) by blast
      qed
    qed
  qed
qed (auto split: option.splits)

lemma vocabulary_known:
  assumes "\<forall>xs. set (order xs) = set xs"
  shows "dict_has (by_id (vocabulary_of order m conn known)) n \<longleftrightarrow>
    \<not> is_synthetic_node n \<and> (dict_has (forward m) n \<or> n \<noteq> [] \<and> n \<in> set known)"
  using assms by (auto simp: vocabulary_of_def Let_def dict_has_keys dict_keys_def o_def)

lemma vocabulary_entries:
  "set (longest_first (vocabulary_of order m conn known)) = set (by_id (vocabulary_of order m conn known))"
  "(n, ref) \<in> set (by_id (vocabulary_of order m conn known)) \<Longrightarrow> ref = public_identity m conn n"
  by (auto simp: vocabulary_of_def Let_def)

lemma vocabulary_is_longer:
  assumes "\<forall>xs. set (order xs) = set xs" and "handles_longer m conn known len"
  shows "vocabulary_longer (vocabulary_of order m conn known) len"
proof -
  have "length n \<le> len \<and> (\<forall>r. ref = Some r \<longrightarrow> len < length r)"
    if mem: "(n, ref) \<in> set (by_id (vocabulary_of order m conn known))" for n ref
  proof -
    have has: "dict_has (by_id (vocabulary_of order m conn known)) n"
      using mem by (force simp: dict_has_keys dict_keys_def)
    then have "n = [] \<or> private_id m known n" by (auto simp: vocabulary_known [OF assms(1)] private_id_def)
    then show ?thesis using has assms vocabulary_entries(2) [OF mem]
      by (auto simp: handles_longer_def vocabulary_known [OF assms(1)])
  qed
  then show ?thesis using assms(2) by (auto simp: vocabulary_longer_def handles_longer_def vocabulary_entries(1))
qed

lemma identity_unknown:
  assumes "\<forall>xs. set (order xs) = set xs" and "handles_longer m conn known len" and "public_identity m conn n = Some r"
  shows "\<not> dict_has (by_id (vocabulary_of order m conn known)) r"
proof (cases "is_synthetic_node n")
  case True
  then have "r = n" using assms(3) by (simp add: public_identity_def owner_identity_def split: if_splits)
  then show ?thesis using True by (simp add: vocabulary_known [OF assms(1)])
next
  case False
  then have "len < length r" using assms(2,3) unfolding handles_longer_def by blast
  then show ?thesis using known_short [OF vocabulary_is_longer [OF assms(1,2)], of r] by linarith
qed

text \<open>C19:
  Records whose fields nobody lists leave with no private id in them.  Whatever a diagnostic record
  or an analytics summary holds, at any depth, none of the strings in what is served, no value and
  no key, is an id of the registry or an id the record itself names, synthetic nodes apart.  It
  rests on ids being shorter than handles: a rewritten text is then too long to be one.
\<close>
theorem records_name_no_private_id:
  assumes "\<forall>xs. set (order xs) = set xs" and "handles_longer m conn ids len"
    and "public_analytics order m conn ids summaries cross_node = (served, cross)"
  shows "(ids = known @ named_node_ids (JArr records) \<longrightarrow>
       (\<forall>s \<in> set (json_strings (JArr (public_records order m conn known records))). \<not> private_id m ids s)) \<and>
    (\<forall>s \<in> set (json_strings (JObj served)) \<union> set (json_strings cross). \<not> private_id m ids s)"
proof -
  let ?voc = "vocabulary_of order m conn ids"
  note longer = vocabulary_is_longer [OF assms(1,2)]
  have unknown: "\<not> private_id m ids s" if "\<not> dict_has (by_id ?voc) s" for s
    using that by (auto simp: vocabulary_known [OF assms(1)] private_id_def)
  have "clean ?voc (JObj (fold (\<lambda>(nid, summary) out. (case public_identity m conn nid of
               None \<Rightarrow> out
             | Some ref \<Rightarrow> (case republished ?voc (Some nid) summary of None \<Rightarrow> out | Some w \<Rightarrow> dict_set out ref w))) xs out))"
    if "clean ?voc (JObj out)" for xs out
    using that
  proof (induction xs arbitrary: out)
    case (Cons x xs)
    obtain nid summary where x: "x = (nid, summary)" by fastforce
    have "clean ?voc (JObj (dict_set out ref w))"
      if "public_identity m conn nid = Some ref" "republished ?voc (Some nid) summary = Some w" for ref w
      using clean_set [OF Cons.prems identity_unknown [OF assms(1,2) that(1)]] republished_clean(1) longer that(2) by blast
    then show ?case using Cons by (simp add: x split: option.split)
  qed simp
  from this [of "[]" summaries] have nodes: "clean ?voc (JObj served)"
    using assms(3) by (auto simp: public_analytics_def Let_def)
  have cross: "clean ?voc cross"
    using assms(3) republished_clean(1) [of ?voc len] longer
    by (auto simp: public_analytics_def Let_def split: option.splits)
  have "clean ?voc (JArr (public_records order m conn known records))" if "ids = known @ named_node_ids (JArr records)"
    using republished_clean(3) [of ?voc len] longer that by (simp add: public_records_def)
  then show ?thesis using nodes cross unknown unfolding clean_def by blast
qed

subsection \<open>Witnesses\<close>

definition sample_refs :: ref_maps where
  "sample_refs = \<lparr>forward = [(''ret00000001'', ''nde000000000001''), (''ret00000002'', ''nde000000000002'')],
     reverse = [(''nde000000000001'', ''ret00000001''), (''nde000000000002'', ''ret00000002'')], refs_expire = 30\<rparr>"

definition sample_frame :: "(string, json) dict" where
  "sample_frame = [(''aircraft'', JArr [JObj [(''node_id'', JStr ''ret00000001'')],
     JObj [(''multinode'', JBool True), (CONTRIBUTORS, JArr [JStr ''ret00000001'', JStr ''ret00000002''])]])]"

lemma sample_frame_ok: "feed_ok sample_frame"
  by (simp add: feed_ok_def sample_frame_def unpublished_def py_get_def dict_get_def dict_ok_def dict_has_def CONTRIBUTORS_def CONTRIBUTING_REFS_def)

text \<open>With the first node private, only the second is named.\<close>

theorem public_feeds_name_published_nodes_witness:
  "JStr ''nde000000000002'' \<in> set (feed_refs (fst (flush_once (\<lambda>_. False) True (Some [''ret00000001'']) sample_refs [] sample_frame))) \<and>
   (\<exists>n. public_identity sample_refs [] n = Some ''nde000000000002'' \<and> n \<noteq> ''ret00000001'')"
proof -
  let ?fl = "flush_once (\<lambda>_. False) True (Some [''ret00000001'']) sample_refs [] sample_frame"
  have fl: "?fl = (fst ?fl, snd ?fl)" by simp
  have r: "JStr ''nde000000000002'' \<in> set (feed_refs (fst ?fl))" by code_simp
  have "\<forall>n. (\<lambda>_. False) n \<longrightarrow> True" by simp
  from public_feeds_name_published_nodes [OF sample_frame_ok this fl, of "fst ?fl"] r
  obtain n ids where "public_identity sample_refs [] n = Some ''nde000000000002''"
    "Some [''ret00000001''] = Some ids" "n \<notin> set ids" by auto
  then show ?thesis using r by auto
qed

theorem owner_feed_spares_other_private_nodes_witness:
  "\<exists>n. public_identity sample_refs [] n = Some ''nde000000000002'' \<and> (n = ''ret00000002'' \<or> n \<noteq> ''ret00000001'')"
proof -
  have r: "JStr ''nde000000000002'' \<in> set (feed_refs (owner_payload (\<lambda>_. False) True (Some [''ret00000001'']) sample_refs [] [''ret00000002''] sample_frame))"
    by code_simp
  have fence: "\<forall>n. (\<lambda>_. False) n \<longrightarrow> True" by simp
  from owner_feed_spares_other_private_nodes [OF sample_frame_ok fence r] show ?thesis by auto
qed

theorem published_handles_resolve_witness:
  "id_for_identity sample_refs [] ''nde000000000001'' = Some ''ret00000001''"
proof -
  have rows: "rows_ok [(''ret00000001'', ''nde000000000001''), (''ret00000002'', ''nde000000000002'')]" by code_simp
  have load: "load_refs [(''ret00000001'', ''nde000000000001''), (''ret00000002'', ''nde000000000002'')] = (forward sample_refs, reverse sample_refs)"
    by code_simp
  have "public_identity sample_refs [] ''ret00000001'' = Some ''nde000000000001''" "dict_has (forward sample_refs) ''ret00000001''"
    by code_simp+
  then show ?thesis using published_handles_resolve [OF rows load dict_ok_Nil, of "''nde000000000001''" "''ret00000001''"] by simp
qed

definition sample_record :: json where
  "sample_record = JObj [(''dropped_node_id'', JStr ''ret00000001''), (''note'', JStr ''ret00000002 disagreed'')]"

theorem records_name_no_private_id_witness:
  "list_all (\<lambda>s. \<not> private_id sample_refs (named_node_ids (JArr [sample_record])) s)
     (json_strings (JArr (public_records (\<lambda>xs. xs) sample_refs [] [] [sample_record])))"
proof -
  let ?ids = "named_node_ids (JArr [sample_record])"
  have ids: "?ids = [''ret00000001'']" by code_simp
  have "length n \<le> 11" if "private_id sample_refs ?ids n" for n
    using that unfolding ids by (auto simp: private_id_def sample_refs_def dict_has_def split: if_splits)
  moreover have "11 < length r" if "\<not> is_synthetic_node n" "public_identity sample_refs [] n = Some r" for n r
    using that by (auto simp: public_identity_def owner_identity_def ref_for_def mirrored_ref_def sample_refs_def dict_get_def split: if_splits)
  ultimately have "handles_longer sample_refs [] ?ids 11" unfolding handles_longer_def REDACTED_def by simp blast
  from records_name_no_private_id [OF _ this, of "\<lambda>xs. xs" "[]" JNull _ _ "[]" "[sample_record]"]
  show ?thesis by (simp add: public_analytics_def list_all_iff)
qed

end
