(* ===== verification/Poller.thy ===== *)
theory Poller
  imports NodeStream Blah2
begin

text \<open>
  Polling registered radars (\<open>services/blah2_poller.py\<close>).  One task per radar reads what the radar
  declares at the start of a session, then asks for a detection every second and files each new
  frame as a node's own is filed.  The registry is shared with owners and administrators: each
  database transaction of a task is one function on the database, and what other writers do
  between two of them is an argument.  A cancellation ends a task and is not modelled further;
  the semaphore bounds requests and holds no state.
\<close>

definition C_KM_US :: real where "C_KM_US = 0.299792458"
definition POLL_INTERVAL_S :: real where "POLL_INTERVAL_S = 1"
definition SESSION_S :: real where "SESSION_S = 60"
definition MAX_FAILURES :: nat where "MAX_FAILURES = 5"
definition BACKOFF_BASE_S :: real where "BACKOFF_BASE_S = 5"
definition BACKOFF_MAX_S :: real where "BACKOFF_MAX_S = 60"
definition STALLED_AFTER_S :: real where "STALLED_AFTER_S = 10"
definition PERSIST_INTERVAL_S :: real where "PERSIST_INTERVAL_S = 60"
definition REREGISTER_INTERVAL_S :: real where "REREGISTER_INTERVAL_S = 60"
definition CUSTODY_CLASS :: string where "CUSTODY_CLASS = ''polled''"

definition polling_enabled :: "string option \<Rightarrow> bool" where
  "polling_enabled env \<longleftrightarrow> env = Some ''1''"

text \<open>\<open>NETWORK_PREFIX\<close> is by IP version: 16 bits of an IPv4 address, 32 of an IPv6 one.\<close>

definition network_around :: "ip \<Rightarrow> ip_network" where
  "network_around a = (case a of V4 n \<Rightarrow> N4 n 16 | V6 n \<Rightarrow> N6 n 32)"

definition moved_network :: "ip option \<Rightarrow> ip list \<Rightarrow> bool" where
  "moved_network previous current =
     (case previous of
        None \<Rightarrow> False
      | Some before \<Rightarrow>
          (let same_family = filter (\<lambda>a. ip_version a = ip_version before) current
           in same_family \<noteq> [] \<and> \<not> list_ex (\<lambda>a. in_network a (network_around before)) same_family))"

subsection \<open>Targets\<close>

record poll_target =
  t_node :: string
  t_epoch :: int
  t_version :: int
  t_endpoint :: polled_endpoint

definition target_of ::
    "(string \<Rightarrow> string option) \<Rightarrow> radar_db \<Rightarrow> string \<times> polled_radar \<Rightarrow> (string \<times> poll_target) option" where
  "target_of decrypt d e =
     (case e of (node, r) \<Rightarrow>
        (case dict_get (node_rows d) node of
           None \<Rightarrow> None
         | Some n \<Rightarrow>
             if n_status n \<noteq> ''active'' \<or> probe_passed_at r < endpoint_changed_at r then None
             else
               (case poller_credentials decrypt r of
                  None \<Rightarrow> None
                | Some creds \<Rightarrow>
                    (let (usr, pw) = (case creds of Some (u, p) \<Rightarrow> (Some u, Some p) | None \<Rightarrow> (pr_user r, None))
                     in Some (node, \<lparr>t_node = node, t_epoch = epoch r, t_version = n_version n,
                          t_endpoint = \<lparr>scheme = pr_scheme r, host = pr_host r, port = pr_port r, endpoint_key = pr_key r,
                                        auth_user = usr, auth_secret = pw, raw = endpoint_raw r\<rparr>\<rparr>)))))"

definition load_targets :: "(string \<Rightarrow> string option) \<Rightarrow> radar_db \<Rightarrow> (string, poll_target) dict" where
  "load_targets decrypt d = List.map_filter (target_of decrypt d) (radars d)"

subsection \<open>A task's own state\<close>

datatype poll_reason = Refused radar_refusal | TooManyDetections | InvalidConfiguration | NoConfiguration | PollError

record radar_poller =
  target :: poll_target
  boot_id :: string
  seq :: int
  p_live :: liveness
  failures :: nat
  last_timestamp_ms :: int
  clock_offset_s :: "real option"
  reason :: "poll_reason option"
  answered_at :: "real option"
  frame_at :: "real option"
  since :: real
  persist_due :: real
  register_due :: real

definition new_poller :: "real \<Rightarrow> string \<Rightarrow> poll_target \<Rightarrow> radar_poller" where
  "new_poller tick token t =
     \<lparr>target = t, boot_id = token, seq = 0, p_live = LIVE_PENDING, failures = 0, last_timestamp_ms = 0,
      clock_offset_s = None, reason = None, answered_at = None, frame_at = None, since = tick, persist_due = 0,
      register_due = 0\<rparr>"

text \<open>The handlers of \<open>run\<close>: \<open>None\<close> is any exception but a refusal.\<close>

definition poll_failed :: "radar_refusal option \<Rightarrow> radar_poller \<Rightarrow> radar_poller" where
  "poll_failed x p = p\<lparr>failures := failures p + 1, reason := Some (case x of Some r \<Rightarrow> Refused r | None \<Rightarrow> PollError)\<rparr>"

definition poll_delay_s :: "nat \<Rightarrow> real" where
  "poll_delay_s n =
     (if n < MAX_FAILURES then POLL_INTERVAL_S
      else min BACKOFF_MAX_S (BACKOFF_BASE_S * 2 ^ min (n - MAX_FAILURES) 16))"

definition heard_radar :: "real \<Rightarrow> radar_poller \<Rightarrow> registries \<Rightarrow> radar_poller \<times> registries" where
  "heard_radar now p g = (p\<lparr>failures := 0, answered_at := Some now\<rparr>, mark_heard (t_node (target p)) now g)"

text \<open>
  \<open>_answered\<close>: the frame in an answer, if it is new and on time.  A timestamp too large to be
  divided raises, which is \<open>Inl\<close>.
\<close>

definition answered ::
    "(string \<Rightarrow> json option) \<Rightarrow> real \<Rightarrow> string \<Rightarrow> radar_poller \<Rightarrow> radar_poller \<times> (unit + blah2_frame option)" where
  "answered loads now text p =
     (case parse_detection loads text of
        Inl x \<Rightarrow> (p\<lparr>reason := Some (Refused x)\<rparr>, Inr None)
      | Inr f \<Rightarrow>
          if timestamp_ms f \<le> last_timestamp_ms p then (p\<lparr>reason := Some (Refused STALLED)\<rparr>, Inr None)
          else if of_int float_overflow \<le> real_of_int (timestamp_ms f) / 1000 then (p, Inl ())
          else
            (let offset = real_of_int (timestamp_ms f) / 1000 - now; p1 = p\<lparr>clock_offset_s := Some (round3 offset)\<rparr>
             in if \<bar>offset\<bar> > MAX_CLOCK_OFFSET_S then (p1\<lparr>reason := Some (Refused CLOCK_OFFSET)\<rparr>, Inr None)
                else (p1\<lparr>last_timestamp_ms := timestamp_ms f\<rparr>, Inr (Some f))))"

subsection \<open>Filing a frame\<close>

definition to_wire :: "blah2_frame \<Rightarrow> int \<Rightarrow> string \<Rightarrow> int \<Rightarrow> wire_frame" where
  "to_wire f n boot v =
     \<lparr>f_t = of_int (timestamp_ms f) / 1000, f_seq = n, f_boot_id = boot, f_config_version = v,
      f_delay = map (\<lambda>d. d / C_KM_US) (delay_km f), f_doppler = doppler_hz f, f_snr = snr_db f,
      f_adsb_hex = Some (replicate (length (delay_km f)) None), f_adsb = None, f_tracker = None, f_tracks = None\<rparr>"

text \<open>A delay whose microseconds no double holds is infinite, which the wire model refuses.\<close>

definition wire_frame_of :: "blah2_frame \<Rightarrow> int \<Rightarrow> string \<Rightarrow> int \<Rightarrow> wire_frame option" where
  "wire_frame_of f n boot v =
     (if MAX_DETECTIONS < length (delay_km f) then None
      else if \<not> list_all (\<lambda>d. is_finite (float_of_real (d / C_KM_US))) (delay_km f) then None
      else (case detection_frame (to_wire f n boot v) of Inl _ \<Rightarrow> None | Inr g \<Rightarrow> Some g))"

definition polled_frame :: "wire_frame \<Rightarrow> int \<Rightarrow> queue_frame" where
  "polled_frame f e = dict_set (dict_set (pipeline_frame f) ''signing_mode'' (JStr CUSTODY_CLASS)) ''epoch'' (JInt e)"

definition in_pipeline ::
    "stream_world \<Rightarrow> radar_poller \<Rightarrow> stream_server \<Rightarrow> radar_poller \<times> stream_server \<times> bool" where
  "in_pipeline w p s =
     (let node = t_node (target p) in
      if dict_get (connected (regs s)) node \<noteq> None then (p, s, True)
      else if w_tick w < register_due p then (p, s, False)
      else
        (let p1 = p\<lparr>register_due := w_tick w + REREGISTER_INTERVAL_S\<rparr> in
         case dict_get (node_rows (db s)) node of
           None \<Rightarrow> (p1, s, False)
         | Some n \<Rightarrow>
             if n_status n \<noteq> ''active'' then (p1, s, False)
             else (case register_with_pipeline (w_digest w) (w_now w) (configs (db s)) node (n_last_seen n) (regs s) of
                     None \<Rightarrow> (p1, s, False)
                   | Some g \<Rightarrow> (p1, s\<lparr>regs := g\<rparr>, True))))"

definition file_polled ::
    "stream_world \<Rightarrow> blah2_frame \<Rightarrow> radar_poller \<Rightarrow> stream_server \<Rightarrow> radar_poller \<times> stream_server" where
  "file_polled w f p s =
     (let node = t_node (target p);
          wire = wire_frame_of f (seq p) (boot_id p) (t_version (target p));
          p1 = p\<lparr>seq := seq p + 1\<rparr>
      in case wire of
           None \<Rightarrow> (p1\<lparr>reason := Some TooManyDetections\<rparr>, s)
         | Some g \<Rightarrow>
             (case in_pipeline w p1 s of
                (p2, s1, False) \<Rightarrow> (p2, s1\<lparr>regs := (regs s1)\<lparr>frames_dropped := frames_dropped (regs s1) + 1\<rparr>\<rparr>)
              | (p2, s1, True) \<Rightarrow>
                  (case submit_frame node (polled_frame g (t_epoch (target p))) (regs s1) of
                     (r, False) \<Rightarrow> (p2, s1\<lparr>regs := r\<rparr>)
                   | (r, True) \<Rightarrow>
                       (p2\<lparr>since := w_tick w, frame_at := Some (w_now w), reason := None\<rparr>,
                        s1\<lparr>regs := r, mirrors := offer (w_fence_env w) (w_tick w) (w_readable w) (db s1) node g (mirrors s1)\<rparr>))))"

subsection \<open>Liveness\<close>

definition current_liveness :: "real \<Rightarrow> radar_poller \<Rightarrow> liveness" where
  "current_liveness tick p =
     (if failures p \<ge> MAX_FAILURES then LIVE_UNREACHABLE
      else
        (let quiet = tick - since p in
         if frame_at p \<noteq> None \<and> quiet < STALLED_AFTER_S then LIVE_STREAMING
         else if answered_at p \<noteq> None \<and> quiet \<ge> STALLED_AFTER_S then LIVE_STALLED
         else p_live p))"

definition persist_liveness :: "radar_poller \<Rightarrow> radar_db \<Rightarrow> radar_db" where
  "persist_liveness p d =
     (let node = t_node (target p);
          d1 = (case update_radar node (t_epoch (target p))
                       (\<lambda>r. r\<lparr>pr_liveness := p_live p, consecutive_failures := int (failures p),
                              last_frame_at := (if frame_at p \<noteq> None then frame_at p else last_frame_at r)\<rparr>) d of
                  None \<Rightarrow> d | Some d' \<Rightarrow> d')
      in case answered_at p of None \<Rightarrow> d1 | Some t \<Rightarrow> update_node node (\<lambda>n. n\<lparr>n_last_seen := Some t\<rparr>) d1)"

text \<open>\<open>writable\<close> is whether the transaction commits; a failure to is only logged.\<close>

definition settle :: "real \<Rightarrow> bool \<Rightarrow> radar_poller \<Rightarrow> stream_server \<Rightarrow> radar_poller \<times> stream_server" where
  "settle tick writable p s =
     (let l = current_liveness tick p; changed = (l \<noteq> p_live p); p1 = p\<lparr>p_live := l\<rparr>
      in if changed \<or> tick \<ge> persist_due p
         then (p1\<lparr>persist_due := tick + PERSIST_INTERVAL_S\<rparr>,
               if writable then s\<lparr>db := persist_liveness p1 (db s)\<rparr> else s)
         else (p1, s))"

text \<open>One poll of a session whose verdict is current: the answer's text, then what it leads to.\<close>

definition poll_once ::
    "(string \<Rightarrow> json option) \<Rightarrow> stream_world \<Rightarrow> bool \<Rightarrow> string \<Rightarrow> radar_poller \<Rightarrow> stream_server \<Rightarrow> radar_poller \<times> stream_server" where
  "poll_once loads w writable text p s =
     (case heard_radar (w_now w) p (regs s) of
        (p1, g) \<Rightarrow>
          (case answered loads (w_now w) text p1 of
             (p2, Inl _) \<Rightarrow> settle (w_tick w) writable (poll_failed None p2) (s\<lparr>regs := g\<rparr>)
           | (p2, Inr None) \<Rightarrow> settle (w_tick w) writable p2 (s\<lparr>regs := g\<rparr>)
           | (p2, Inr (Some f)) \<Rightarrow>
               (case file_polled w f p2 (s\<lparr>regs := g\<rparr>) of (p3, s3) \<Rightarrow> settle (w_tick w) writable p3 s3)))"

text \<open>One poll that got no answer, or another fault.\<close>

definition poll_fault ::
    "stream_world \<Rightarrow> bool \<Rightarrow> radar_refusal option \<Rightarrow> radar_poller \<Rightarrow> stream_server \<Rightarrow> radar_poller \<times> stream_server" where
  "poll_fault w writable x p s = settle (w_tick w) writable (poll_failed x p) s"


subsection \<open>What a session's configuration check does to the registry\<close>

datatype verdict = CURRENT | HELD poll_reason | SUPERSEDED | RAISED

datatype declaration_check = Gone | Unconfigured | Redeclared | Readdressed | Unmoved

definition check_declaration ::
    "(json \<Rightarrow> string) \<Rightarrow> poll_target \<Rightarrow> blah2_config \<Rightarrow> ip list \<Rightarrow> radar_db \<Rightarrow> declaration_check" where
  "check_declaration digest t c addrs d =
     (case dict_get (radars d) (t_node t) of
        None \<Rightarrow> Gone
      | Some r \<Rightarrow>
          if epoch r \<noteq> t_epoch t then Gone
          else if active_config (configs d) (t_node t) = None then Unconfigured
          else if fingerprint digest c \<noteq> pr_fingerprint r then Redeclared
          else if moved_network (last_resolved_ip r) addrs then Readdressed
          else Unmoved)"

text \<open>The part the two writes share: the declaration as a configuration version.\<close>

definition adopt_verdict :: "radar_error \<Rightarrow> verdict" where
  "adopt_verdict x =
     (case x of NoActiveConfig _ \<Rightarrow> HELD NoConfiguration | InvalidConfig _ \<Rightarrow> HELD InvalidConfiguration | _ \<Rightarrow> RAISED)"

definition next_epoch_row :: "real \<Rightarrow> int \<Rightarrow> blah2_probe \<Rightarrow> polled_radar \<Rightarrow> polled_radar" where
  "next_epoch_row now e p r =
     r\<lparr>epoch := e, trust_state := ''probation'', pr_fingerprint := p_fingerprint p, probe_passed_at := now,
       last_resolved_ip := p_address p, resolved_at := Some now, last_config_at := Some now\<rparr>"

text \<open>The write of \<open>_next_epoch\<close>; the last component is whether the caches expire and the poller wakes.\<close>

definition next_epoch ::
    "real \<Rightarrow> poll_target \<Rightarrow> blah2_probe \<Rightarrow> radar_db \<Rightarrow> radar_db \<times> verdict \<times> bool" where
  "next_epoch now t p d =
     (case adopt now (t_node t) (p_config p) d of
        Inl x \<Rightarrow> (d, adopt_verdict x, False)
      | Inr (d1, v) \<Rightarrow>
          (case update_radar (t_node t) (t_epoch t) (next_epoch_row now (t_epoch t + 1) p) d1 of
             None \<Rightarrow> (d, SUPERSEDED, False)
           | Some d2 \<Rightarrow> (update_node (t_node t) (\<lambda>n. n\<lparr>n_version := v\<rparr>) d2, SUPERSEDED, True)))"

definition same_epoch ::
    "real \<Rightarrow> poll_target \<Rightarrow> blah2_config \<Rightarrow> radar_db \<Rightarrow> radar_db \<times> verdict \<times> bool" where
  "same_epoch now t c d =
     (case adopt now (t_node t) c d of
        Inl x \<Rightarrow> (d, adopt_verdict x, False)
      | Inr (d1, v) \<Rightarrow>
          (case update_radar (t_node t) (t_epoch t) (\<lambda>r. r\<lparr>last_config_at := Some now\<rparr>) d1 of
             None \<Rightarrow> (d, SUPERSEDED, False)
           | Some d2 \<Rightarrow>
               if map_option version (active_config (configs d) (t_node t)) = Some v then (d2, CURRENT, False)
               else (update_node (t_node t) (\<lambda>n. n\<lparr>n_version := v\<rparr>) d2, SUPERSEDED, True)))"

text \<open>The write of \<open>_address_moved\<close>, with the address and whether the re-probe passed.\<close>

definition address_moved :: "real \<Rightarrow> poll_target \<Rightarrow> ip option \<Rightarrow> bool \<Rightarrow> radar_db \<Rightarrow> radar_db" where
  "address_moved now t addr passed d =
     (case update_radar (t_node t) (t_epoch t)
             (\<lambda>r. r\<lparr>last_resolved_ip := addr, resolved_at := Some now, network_moves := network_moves r + 1,
                    last_network_move_at := Some now,
                    probe_passed_at := (if passed then now else probe_passed_at r)\<rparr>) d of
        None \<Rightarrow> d | Some d' \<Rightarrow> d')"

text \<open>
  What a check meets besides the database: the answer to its read of the configuration, what a
  re-probe would find, and what other writers commit before each of its two later transactions.
\<close>

record check_world =
  k_now :: real
  k_client :: pinned_client
  k_net :: "request \<Rightarrow> outcome"
  k_probe :: probe_world
  k_before_first :: "radar_db \<Rightarrow> radar_db"
  k_before_second :: "radar_db \<Rightarrow> radar_db"

definition probed :: "(string \<Rightarrow> json option) \<Rightarrow> (json \<Rightarrow> string) \<Rightarrow> check_world \<Rightarrow> poll_target \<Rightarrow> radar_refusal + blah2_probe" where
  "probed loads digest k t = snd (probe_blah2 loads digest (k_probe k) (t_endpoint t))"

text \<open>\<open>Inl\<close> is the refusal of the first read, which leaves the session.\<close>

definition check_config ::
    "(string \<Rightarrow> json option) \<Rightarrow> (json \<Rightarrow> string) \<Rightarrow> check_world \<Rightarrow> poll_target \<Rightarrow> radar_db
     \<Rightarrow> refusal_code + (radar_db \<times> verdict \<times> bool)" where
  "check_config loads digest k t d =
     (case client_get (k_net k) CONFIG_PATH CONFIG_MAX_BYTES (k_client k) of (client, _, out) \<Rightarrow>
      bind_result out (\<lambda>text. Inr
        (case read_config loads text of
           Inl x \<Rightarrow> (d, HELD (Refused x), False)
         | Inr c \<Rightarrow>
             (case check_declaration digest t c (addresses client) d of
                Gone \<Rightarrow> (d, SUPERSEDED, False)
              | Unconfigured \<Rightarrow> (d, HELD NoConfiguration, False)
              | Redeclared \<Rightarrow>
                  (case probed loads digest k t of
                     Inl DivisionOverflow \<Rightarrow> (d, RAISED, False)
                   | Inl x \<Rightarrow> (d, HELD (Refused x), False)
                   | Inr p \<Rightarrow> next_epoch (k_now k) t p (k_before_first k d))
              | Readdressed \<Rightarrow>
                  (case probed loads digest k t of
                     Inl DivisionOverflow \<Rightarrow> (d, RAISED, False)
                   | Inl x \<Rightarrow>
                       same_epoch (k_now k) t c
                         (k_before_second k (address_moved (k_now k) t (address client) False (k_before_first k d)))
                   | Inr p \<Rightarrow>
                       same_epoch (k_now k) t c
                         (k_before_second k (address_moved (k_now k) t (p_address p) True (k_before_first k d))))
              | Unmoved \<Rightarrow> same_epoch (k_now k) t c (k_before_first k d)))))"

text \<open>What the check leaves of the task's own state: a held session heard its radar.\<close>

definition after_check :: "real \<Rightarrow> verdict \<Rightarrow> radar_poller \<Rightarrow> registries \<Rightarrow> radar_poller \<times> registries" where
  "after_check now v p g =
     (case v of
        HELD x \<Rightarrow> (case heard_radar now p g of (p1, g1) \<Rightarrow> (p1\<lparr>reason := Some x\<rparr>, g1))
      | RAISED \<Rightarrow> (poll_failed None p, g)
      | _ \<Rightarrow> (p, g))"

subsection \<open>The poller over the registry\<close>

text \<open>A running task: its target, and whether it has ended by itself.\<close>

record poll_task =
  task_target :: poll_target
  task_done :: bool

definition rejoin :: "(json \<Rightarrow> string) \<Rightarrow> real \<Rightarrow> radar_db \<Rightarrow> string \<Rightarrow> registries \<Rightarrow> registries" where
  "rejoin digest now d node g =
     (case dict_get (node_rows d) node of
        None \<Rightarrow> g
      | Some n \<Rightarrow>
          (case register_with_pipeline digest now (configs d) node (n_last_seen n) g of None \<Rightarrow> g | Some g' \<Rightarrow> g'))"

definition stopping :: "(string, poll_target) dict \<Rightarrow> string \<times> poll_task \<Rightarrow> bool" where
  "stopping wanted e \<longleftrightarrow> dict_get wanted (fst e) \<noteq> Some (task_target (snd e)) \<or> task_done (snd e)"

definition needs_rejoin :: "(string, poll_target) dict \<Rightarrow> string \<times> poll_task \<Rightarrow> bool" where
  "needs_rejoin wanted e =
     (case dict_get wanted (fst e) of
        None \<Rightarrow> False
      | Some t \<Rightarrow> (t_epoch t, t_version t) \<noteq> (t_epoch (task_target (snd e)), t_version (task_target (snd e))))"

text \<open>\<open>d\<close> is the registry as read, \<open>d'\<close> as it stands while the stopped radars rejoin.\<close>

definition sync ::
    "(string \<Rightarrow> string option) \<Rightarrow> (json \<Rightarrow> string) \<Rightarrow> real \<Rightarrow> radar_db \<Rightarrow> radar_db
     \<Rightarrow> (string, poll_task) dict \<times> registries \<Rightarrow> (string, poll_task) dict \<times> registries" where
  "sync decrypt digest now d d' s =
     (case s of (running, g) \<Rightarrow>
        (let wanted = load_targets decrypt d;
             gone = filter (stopping wanted) running;
             kept = filter (\<lambda>e. \<not> stopping wanted e) running;
             g1 = fold (\<lambda>e. rejoin digest now d' (fst e)) (filter (needs_rejoin wanted) gone) g;
             started = map (\<lambda>(n, t). (n, \<lparr>task_target = t, task_done = False\<rparr>))
                         (filter (\<lambda>(n, t). \<not> dict_has kept n) wanted)
         in (kept @ started, g1)))"


subsection \<open>Graduation covers one address and one declaration\<close>

text \<open>Everything that writes a polled radar's row: owners and administrators, and the tasks.\<close>

datatype registry_event =
    Created "string \<Rightarrow> string option" "(string \<times> string) list" real radar_request
  | Moved "string \<Rightarrow> string option" real string polled_radar blah2_probe bool string
  | Retired string string
  | TrustSet string string int string
  | NextEpoch real poll_target blah2_probe
  | SameEpoch real poll_target blah2_config
  | AddressMoved real poll_target "ip option" bool
  | Persisted radar_poller

fun registry_step :: "registry_event \<Rightarrow> radar_db \<Rightarrow> radar_db" where
  "registry_step (Created encrypt draws now q) d =
     (case create_polled_radar encrypt draws now q d of Inl _ \<Rightarrow> d | Inr (d', _) \<Rightarrow> d')"
| "registry_step (Moved encrypt now node r p unprot whom) d =
     (case set_polled_radar_address encrypt now node r p unprot whom d of Inl _ \<Rightarrow> d | Inr (d', _) \<Rightarrow> d')"
| "registry_step (Retired node actor) d = retire_polled_radar node actor d"
| "registry_step (TrustSet node trust e actor) d = (case set_trust node trust e actor d of Inl _ \<Rightarrow> d | Inr d' \<Rightarrow> d')"
| "registry_step (NextEpoch now t p) d = fst (next_epoch now t p d)"
| "registry_step (SameEpoch now t c) d = fst (same_epoch now t c d)"
| "registry_step (AddressMoved now t addr passed) d = address_moved now t addr passed d"
| "registry_step (Persisted p) d = persist_liveness p d"

lemma update_radar_Some:
  "update_radar n e f d = Some d' \<longleftrightarrow>
     (\<exists>r. dict_get (radars d) n = Some r \<and> epoch r = e \<and> d' = d\<lparr>radars := dict_set (radars d) n (f r)\<rparr>)"
  by (auto simp: update_radar_def split: option.splits)

lemma update_node_radars [simp]: "radars (update_node n f d) = radars d"
  by (simp add: update_node_def split: option.split)

lemma adopt_radars: "adopt now n c d = Inr (d', v) \<Longrightarrow> radars d' = radars d"
  by (auto simp: adopt_def split: option.splits sum.splits)

lemma minted_radars: "add_with_minted_id sy draws row d = Inr (d', n) \<Longrightarrow> radars d' = radars d"
  by (auto simp: add_with_minted_id_def split: if_splits option.splits)

lemma create_radars:
  assumes "create_polled_radar encrypt draws now q d = Inr (d', n)"
  shows "\<exists>enc. radars d' = dict_set (radars d) n (new_radar now enc q)"
  using assms
  by (auto simp: create_polled_radar_def bind_result_eq_Inr Let_def minted_radars split: if_splits sum.splits)

lemma retire_radars: "radars (retire_polled_radar n actor d) = dict_del (radars d) n"
  by (simp add: retire_polled_radar_def Let_def)

text \<open>Two rows of one radar at one epoch, as far as what was vetted goes.\<close>

definition same_radar :: "polled_radar \<Rightarrow> polled_radar \<Rightarrow> bool" where
  "same_radar r r' \<longleftrightarrow> epoch r = epoch r' \<and> pr_key r = pr_key r' \<and> pr_fingerprint r = pr_fingerprint r'"

lemma same_radar_trans: "same_radar a b \<Longrightarrow> same_radar b c \<Longrightarrow> same_radar a c"
  by (simp add: same_radar_def)

definition row_kept :: "registry_event \<Rightarrow> radar_db \<Rightarrow> string \<Rightarrow> polled_radar \<Rightarrow> bool" where
  "row_kept e d n r' \<longleftrightarrow>
     (\<exists>r. dict_get (radars d) n = Some r \<and> same_radar r r' \<and>
        (trust_state r' = trust_state r \<or> (\<exists>actor. e = TrustSet n (trust_state r') (epoch r') actor))) \<or>
     trust_state r' = ''probation''"

lemma unchanged_kept: "dict_get (radars d) n = Some r' \<Longrightarrow> row_kept e d n r'"
  by (auto simp: row_kept_def same_radar_def)

lemma update_kept:
  assumes "update_radar node ep f d = Some d1" and "dict_get (radars d1) n = Some r'"
    and "\<And>r. same_radar r (f r) \<and> trust_state (f r) = trust_state r \<or> trust_state (f r) = ''probation''"
  shows "row_kept e d n r'"
proof -
  from assms(1) obtain r where r: "dict_get (radars d) node = Some r" "radars d1 = dict_set (radars d) node (f r)"
    by (auto simp: update_radar_Some)
  show ?thesis
  proof (cases "n = node")
    case True
    then have "r' = f r" using assms(2) r by simp
    then show ?thesis using assms(3) [of r] r True by (auto simp: row_kept_def)
  next
    case False
    then show ?thesis using assms(2) r by (auto intro: unchanged_kept)
  qed
qed

lemma moved_radars:
  assumes "set_polled_radar_address encrypt now node read p unprot whom d = Inr (d', m)"
    and "dict_get (radars d') n = Some r'"
  shows "row_kept e d n r'"
proof -
  from assms(1) obtain f d1 where up: "update_radar node (epoch read) f d = Some d1" and rad: "radars d' = radars d1"
    and f: "\<And>r. same_radar r (f r) \<and> trust_state (f r) = trust_state r \<or> trust_state (f r) = ''probation''"
  proof -
    let ?reach = "\<lambda>enc r. r\<lparr>endpoint_raw := without_userinfo (raw (p_endpoint p)), pr_scheme := scheme (p_endpoint p),
        pr_host := host (p_endpoint p), pr_port := port (p_endpoint p), pr_user := auth_user (p_endpoint p),
        pr_secret_enc := enc, unprotected := unprot\<rparr>"
    from assms(1) obtain enc d1 where
      up: "update_radar node (epoch read)
          (\<lambda>r. if endpoint_key (p_endpoint p) \<noteq> pr_key read then moved_row now p (?reach enc r) else ?reach enc r) d = Some d1"
      and rad: "radars d' = radars d1"
      by (auto simp: set_polled_radar_address_def bind_result_eq_Inr Let_def adopt_radars split: option.splits if_splits)
    show ?thesis
      by (rule that [OF up rad]) (simp add: same_radar_def moved_row_def)
  qed
  show ?thesis using update_kept [OF up _ f] assms(2) rad by simp
qed

lemma set_trust_radars:
  "set_trust node trust ep actor d = Inr d' \<Longrightarrow>
   radars d' = radars d \<or>
   (\<exists>r. dict_get (radars d) node = Some r \<and> epoch r = ep \<and> radars d' = dict_set (radars d) node (r\<lparr>trust_state := trust\<rparr>))"
  by (auto simp: set_trust_def split: option.splits if_splits)

lemma row_kept_radars: "radars d1 = radars d \<Longrightarrow> row_kept e d1 n r' = row_kept e d n r'"
  by (simp add: row_kept_def)

lemma registry_step_kept:
  assumes "dict_get (radars (registry_step e d)) n = Some r'"
  shows "row_kept e d n r'"
proof (cases e)
  case (Created encrypt draws now q)
  then show ?thesis using assms create_radars [of encrypt draws now q d]
    by (cases "create_polled_radar encrypt draws now q d")
      (auto simp: new_radar_def Let_def row_kept_def same_radar_def split: if_splits)
next
  case (Moved encrypt now node r p unprot whom)
  then show ?thesis using assms moved_radars [of encrypt now node r p unprot whom d]
    by (cases "set_polled_radar_address encrypt now node r p unprot whom d") (auto intro: unchanged_kept)
next
  case (Retired node actor)
  then show ?thesis using assms by (simp add: retire_radars unchanged_kept split: if_splits)
next
  case (TrustSet node trust ep actor)
  show ?thesis
  proof (cases "set_trust node trust ep actor d")
    case (Inl x)
    then show ?thesis using assms TrustSet by (auto intro: unchanged_kept)
  next
    case (Inr d')
    from set_trust_radars [OF Inr] show ?thesis
    proof
      assume "radars d' = radars d"
      then show ?thesis using assms TrustSet Inr by (auto intro: unchanged_kept)
    next
      assume "\<exists>r. dict_get (radars d) node = Some r \<and> epoch r = ep \<and>
        radars d' = dict_set (radars d) node (r\<lparr>trust_state := trust\<rparr>)"
      then obtain r where r: "dict_get (radars d) node = Some r" "epoch r = ep"
        "radars d' = dict_set (radars d) node (r\<lparr>trust_state := trust\<rparr>)" by blast
      show ?thesis
      proof (cases "n = node")
        case True
        then have "r' = r\<lparr>trust_state := trust\<rparr>" using assms TrustSet Inr r(3) by simp
        then show ?thesis using r True TrustSet by (simp add: row_kept_def same_radar_def)
      next
        case False
        then show ?thesis using assms TrustSet Inr r(3) by (simp add: unchanged_kept)
      qed
    qed
  qed
next
  case (NextEpoch now t p)
  show ?thesis
  proof (cases "adopt now (t_node t) (p_config p) d")
    case (Inl x)
    then show ?thesis using assms NextEpoch by (simp add: next_epoch_def unchanged_kept)
  next
    case (Inr z)
    obtain d1 v where z: "z = (d1, v)" by fastforce
    have rad: "radars d1 = radars d" using Inr z adopt_radars by simp
    show ?thesis
    proof (cases "update_radar (t_node t) (t_epoch t) (next_epoch_row now (t_epoch t + 1) p) d1")
      case None
      then show ?thesis using assms NextEpoch Inr z by (simp add: next_epoch_def unchanged_kept)
    next
      case (Some d2)
      have "radars (registry_step e d) = radars d2" by (simp add: NextEpoch next_epoch_def Inr z Some)
      then have here: "dict_get (radars d2) n = Some r'" using assms by simp
      have "row_kept e d1 n r'" by (rule update_kept [OF Some here]) (simp add: next_epoch_row_def)
      then show ?thesis by (rule row_kept_radars [OF rad, THEN iffD1])
    qed
  qed
next
  case (SameEpoch now t c)
  show ?thesis
  proof (cases "adopt now (t_node t) c d")
    case (Inl x)
    then show ?thesis using assms SameEpoch by (simp add: same_epoch_def unchanged_kept)
  next
    case (Inr z)
    obtain d1 v where z: "z = (d1, v)" by fastforce
    have rad: "radars d1 = radars d" using Inr z adopt_radars by simp
    show ?thesis
    proof (cases "update_radar (t_node t) (t_epoch t) (\<lambda>r. r\<lparr>last_config_at := Some now\<rparr>) d1")
      case None
      then show ?thesis using assms SameEpoch Inr z by (simp add: same_epoch_def unchanged_kept)
    next
      case (Some d2)
      have "radars (registry_step e d) = radars d2" by (simp add: SameEpoch same_epoch_def Inr z Some)
      then have here: "dict_get (radars d2) n = Some r'" using assms by simp
      have "row_kept e d1 n r'" by (rule update_kept [OF Some here]) (simp add: same_radar_def)
      then show ?thesis by (rule row_kept_radars [OF rad, THEN iffD1])
    qed
  qed
next
  case (AddressMoved now t addr passed)
  let ?f = "\<lambda>r. r\<lparr>last_resolved_ip := addr, resolved_at := Some now, network_moves := network_moves r + 1,
      last_network_move_at := Some now, probe_passed_at := (if passed then now else probe_passed_at r)\<rparr>"
  show ?thesis
  proof (cases "update_radar (t_node t) (t_epoch t) ?f d")
    case None
    then show ?thesis using assms by (simp add: AddressMoved address_moved_def unchanged_kept)
  next
    case (Some d2)
    then have "radars (registry_step e d) = radars d2" by (simp add: AddressMoved address_moved_def)
    then have here: "dict_get (radars d2) n = Some r'" using assms by simp
    show ?thesis by (rule update_kept [OF Some here]) (simp add: same_radar_def)
  qed
next
  case (Persisted p)
  let ?f = "\<lambda>r. r\<lparr>pr_liveness := p_live p, consecutive_failures := int (failures p),
      last_frame_at := (if frame_at p \<noteq> None then frame_at p else last_frame_at r)\<rparr>"
  show ?thesis
  proof (cases "update_radar (t_node (target p)) (t_epoch (target p)) ?f d")
    case None
    then have "radars (registry_step e d) = radars d"
      by (simp add: Persisted persist_liveness_def Let_def split: option.split)
    then show ?thesis using assms by (simp add: unchanged_kept)
  next
    case (Some d2)
    then have "radars (registry_step e d) = radars d2"
      by (simp add: Persisted persist_liveness_def Let_def split: option.split)
    then have here: "dict_get (radars d2) n = Some r'" using assms by simp
    show ?thesis by (rule update_kept [OF Some here]) (simp add: same_radar_def)
  qed
qed

text \<open>Graduation covers what the administrator was shown and nothing later.  Through any sequence of
  registrations, moves, removals, trust decisions and writes of the polling tasks, a radar that
  stands graduated was graduated by an administrator's decision against its present epoch, when
  its row already had its present endpoint key and the present fingerprint of what it declares.
\<close>
theorem graduation_covers_one_declaration:
  assumes "radars d0 = []" and "dict_get (radars (fold registry_step es d0)) n = Some r" and "trust_state r = GRADUATED"
  shows "\<exists>before after actor r0. es = before @ TrustSet n GRADUATED (epoch r) actor # after \<and>
    dict_get (radars (fold registry_step before d0)) n = Some r0 \<and>
    epoch r0 = epoch r \<and> pr_key r0 = pr_key r \<and> pr_fingerprint r0 = pr_fingerprint r"
  using assms(2,3)
proof (induction es arbitrary: r rule: rev_induct)
  case Nil
  then show ?case using assms(1) by simp
next
  case (snoc e es)
  let ?d = "fold registry_step es d0"
  from snoc.prems have "row_kept e ?d n r" by (intro registry_step_kept) simp
  with snoc.prems(2) obtain r1 where r1: "dict_get (radars ?d) n = Some r1" "same_radar r1 r"
    and why: "trust_state r1 = GRADUATED \<or> (\<exists>actor. e = TrustSet n GRADUATED (epoch r) actor)"
    by (auto simp: row_kept_def GRADUATED_def)
  from why show ?case
  proof
    assume "trust_state r1 = GRADUATED"
    from snoc.IH [OF r1(1) this] obtain before after actor r0 where
      "es = before @ TrustSet n GRADUATED (epoch r1) actor # after"
      "dict_get (radars (fold registry_step before d0)) n = Some r0"
      "epoch r0 = epoch r1" "pr_key r0 = pr_key r1" "pr_fingerprint r0 = pr_fingerprint r1" by blast
    then show ?thesis using r1(2)
      by (intro exI [of _ before] exI [of _ "after @ [e]"] exI [of _ actor] exI [of _ r0]) (simp add: same_radar_def)
  next
    assume "\<exists>actor. e = TrustSet n GRADUATED (epoch r) actor"
    then obtain actor where "e = TrustSet n GRADUATED (epoch r) actor" by blast
    then show ?thesis using r1
      by (intro exI [of _ es] exI [of _ "[]"] exI [of _ actor] exI [of _ r1]) (simp add: same_radar_def)
  qed
qed


definition sample_endpoint :: polled_endpoint where
  "sample_endpoint = \<lparr>scheme = ''http'', host = ''radar.example'', port = 3000, endpoint_key = ''radar.example:3000'',
     auth_user = None, auth_secret = None, raw = ''radar.example''\<rparr>"

definition sample_request :: radar_request where
  "sample_request = \<lparr>owner_user_id = ''u1'', owner_email = ''o@x.org'', q_endpoint = sample_endpoint,
     q_geometry = \<lparr>g_rx_lat = Some 38, g_rx_lon = Some (-77), g_rx_alt_m = None, g_tx_lat = Some 39, g_tx_lon = Some (-78),
       g_tx_alt_m = None\<rparr>, q_fc_hz = JFloat (Fin 98000000), q_fs_hz = JFloat (Fin 2000000), q_max_range_km = JFloat (Fin 60),
     q_cpi_s = JFloat (Fin (1 / 2)), q_delay_tolerance_us = JFloat (Fin 10), q_doppler_tolerance_hz = JFloat (Fin 5),
     q_fingerprint = ''f'', q_ip = None, q_publication = ''public'', q_licence = None, q_unprotected = True,
     q_claim_verified = True\<rparr>"

lemma sample_created:
  "\<exists>d. create_polled_radar Some [(''00000001'', ''ref1'')] 7 sample_request (sample_db\<lparr>configs := []\<rparr>) = Inr (d, ''bla00000001'') \<and>
     radars d = [(''bla00000001'', new_radar 7 None sample_request)]"
  by (simp add: create_polled_radar_def sample_request_def sample_endpoint_def PUBLICATIONS_def encrypt_secret_def
      add_with_minted_id_def MINTED_SYSTEMS_def POLLED_BLAH2_def MINT_ATTEMPTS_def clashes_def sample_db_def empty_claims_def
      insert_row_def first_config_def Let_def dict_keys_def CONFIG_FIELDS_def versions_of_def key_taken_def dict_set_def
      dict_has_def eval_nat_numeral)

theorem graduation_covers_one_declaration_witness:
  "\<exists>es r. dict_get (radars (fold registry_step es (sample_db\<lparr>configs := []\<rparr>))) ''bla00000001'' = Some r \<and>
     trust_state r = GRADUATED \<and>
     (\<exists>before after actor r0. es = before @ TrustSet ''bla00000001'' GRADUATED (epoch r) actor # after \<and>
       dict_get (radars (fold registry_step before (sample_db\<lparr>configs := []\<rparr>))) ''bla00000001'' = Some r0 \<and>
       epoch r0 = epoch r \<and> pr_key r0 = pr_key r \<and> pr_fingerprint r0 = pr_fingerprint r)"
proof -
  let ?d0 = "sample_db\<lparr>configs := []\<rparr>"
  let ?es = "[Created Some [(''00000001'', ''ref1'')] 7 sample_request, TrustSet ''bla00000001'' GRADUATED 1 ''admin'']"
  let ?r = "(new_radar 7 None sample_request)\<lparr>trust_state := GRADUATED\<rparr>"
  obtain d where d: "create_polled_radar Some [(''00000001'', ''ref1'')] 7 sample_request ?d0 = Inr (d, ''bla00000001'')"
    "radars d = [(''bla00000001'', new_radar 7 None sample_request)]" using sample_created by blast
  have row: "dict_get (radars (fold registry_step ?es ?d0)) ''bla00000001'' = Some ?r"
    by (simp add: d set_trust_def KINDS_def dict_get_def new_radar_def Let_def dict_set_def GRADUATED_def)
  have none: "radars ?d0 = []" by (simp add: sample_db_def)
  show ?thesis using graduation_covers_one_declaration [OF none row] row by fastforce
qed


subsection \<open>What one task files\<close>

definition poller_same :: "radar_poller \<Rightarrow> radar_poller \<Rightarrow> bool" where
  "poller_same p p' \<longleftrightarrow> target p' = target p \<and> boot_id p' = boot_id p \<and> seq p' = seq p \<and>
     last_timestamp_ms p' = last_timestamp_ms p"

lemma poller_same_refl: "poller_same p p"
  by (simp add: poller_same_def)

lemma poller_same_trans: "poller_same p q \<Longrightarrow> poller_same q r \<Longrightarrow> poller_same p r"
  by (simp add: poller_same_def)

lemma settle_keeps: "settle tick wr p s = (p', s') \<Longrightarrow> poller_same p p' \<and> regs s' = regs s"
  by (auto simp: settle_def Let_def poller_same_def split: if_splits)

lemma poll_failed_keeps: "poller_same p (poll_failed x p)"
  by (simp add: poll_failed_def poller_same_def)

lemma heard_radar_keeps: "heard_radar now p g = (p', g') \<Longrightarrow> poller_same p p' \<and> frames g' = frames g"
  by (auto simp: heard_radar_def poller_same_def mark_heard_frames)

lemma in_pipeline_keeps:
  assumes "in_pipeline w p s = (p', s', b)" shows "poller_same p p' \<and> frames (regs s') = frames (regs s)"
proof (cases "dict_get (connected (regs s)) (t_node (target p))")
  case None
  then show ?thesis using assms
    by (auto simp: in_pipeline_def Let_def poller_same_def register_frames split: if_splits option.splits)
next
  case (Some e)
  then show ?thesis using assms by (simp add: in_pipeline_def poller_same_def)
qed

lemma answered_cases:
  assumes "answered loads now text p = (p', out)"
  shows "(\<exists>f. out = Inr (Some f) \<and> parse_detection loads text = Inr f \<and> target p' = target p \<and> boot_id p' = boot_id p \<and>
      seq p' = seq p \<and> last_timestamp_ms p < timestamp_ms f \<and> last_timestamp_ms p' = timestamp_ms f \<and>
      \<bar>real_of_int (timestamp_ms f) / 1000 - now\<bar> \<le> MAX_CLOCK_OFFSET_S) \<or>
    (out = Inr None \<or> out = Inl ()) \<and> poller_same p p'"
  using assms by (auto simp: answered_def Let_def poller_same_def split: sum.splits if_splits)

lemma wire_frame_of_Some:
  "wire_frame_of f n boot v = Some g \<Longrightarrow> g = to_wire f n boot v \<and> frame_fields_ok g \<and> arrays_are_parallel g = Inr ()"
  by (auto simp: wire_frame_of_def detection_frame_Inr split: if_splits sum.splits)

text \<open>What the queue holds for a frame this task filed.\<close>

definition polled_item :: "blah2_frame \<Rightarrow> radar_poller \<Rightarrow> queue_frame item" where
  "polled_item f p = (let t = target p in
     (t_node t, dict_set (polled_frame (to_wire f (seq p) (boot_id p) (t_version t)) (t_epoch t)) ''_node_id'' (JStr (t_node t))))"

lemma file_polled_cases:
  assumes "file_polled w f p s = (p', s')"
  shows "target p' = target p \<and> boot_id p' = boot_id p \<and> seq p' = seq p + 1 \<and> last_timestamp_ms p' = last_timestamp_ms p \<and>
    (frames (regs s') = frames (regs s) \<or>
     put_nowait (polled_item f p) (frames (regs s)) = Inr (frames (regs s')) \<and>
     arrays_are_parallel (to_wire f (seq p) (boot_id p) (t_version (target p))) = Inr ())"
proof (cases "wire_frame_of f (seq p) (boot_id p) (t_version (target p))")
  case None
  then show ?thesis using assms by (auto simp: file_polled_def Let_def)
next
  case (Some g)
  note g = wire_frame_of_Some [OF Some]
  obtain p2 s2 b where i: "in_pipeline w (p\<lparr>seq := seq p + 1\<rparr>) s = (p2, s2, b)" by (cases "in_pipeline w (p\<lparr>seq := seq p + 1\<rparr>) s") auto
  note k = in_pipeline_keeps [OF i, unfolded poller_same_def]
  obtain r ok where sub: "submit_frame (t_node (target p)) (polled_frame g (t_epoch (target p))) (regs s2) = (r, ok)" by fastforce
  show ?thesis
  proof (cases "b \<and> ok")
    case True
    then have now_filed: "p' = p2\<lparr>since := w_tick w, frame_at := Some (w_now w), reason := None\<rparr>" "regs s' = r"
      using assms Some i sub by (auto simp: file_polled_def Let_def)
    have "put_nowait (polled_item f p) (frames (regs s2)) = Inr (frames r)"
      using sub True g by (auto simp: submit_frame_True polled_item_def Let_def)
    moreover have "arrays_are_parallel (to_wire f (seq p) (boot_id p) (t_version (target p))) = Inr ()" using g by metis
    ultimately show ?thesis using now_filed k by simp
  next
    case False
    then show ?thesis using assms Some i k sub
      by (cases b) (auto simp: file_polled_def Let_def submit_frame_False)
  qed
qed

lemma poll_once_cases:
  assumes "poll_once loads w wr text p s = (p', s')"
  shows "target p' = target p \<and> boot_id p' = boot_id p \<and> seq p \<le> seq p' \<and> last_timestamp_ms p \<le> last_timestamp_ms p' \<and>
    (frames (regs s') = frames (regs s) \<or>
     (\<exists>f. put_nowait (polled_item f p) (frames (regs s)) = Inr (frames (regs s')) \<and>
        arrays_are_parallel (to_wire f (seq p) (boot_id p) (t_version (target p))) = Inr () \<and>
        seq p' = seq p + 1 \<and> last_timestamp_ms p < timestamp_ms f \<and> last_timestamp_ms p' = timestamp_ms f \<and>
        \<bar>real_of_int (timestamp_ms f) / 1000 - w_now w\<bar> \<le> MAX_CLOCK_OFFSET_S))"
proof -
  obtain p1 g where h: "heard_radar (w_now w) p (regs s) = (p1, g)" by fastforce
  obtain p2 out where a: "answered loads (w_now w) text p1 = (p2, out)" by fastforce
  note hk = heard_radar_keeps [OF h]
  from answered_cases [OF a] show ?thesis
  proof
    assume "\<exists>f. out = Inr (Some f) \<and> parse_detection loads text = Inr f \<and> target p2 = target p1 \<and> boot_id p2 = boot_id p1 \<and>
      seq p2 = seq p1 \<and> last_timestamp_ms p1 < timestamp_ms f \<and> last_timestamp_ms p2 = timestamp_ms f \<and>
      \<bar>real_of_int (timestamp_ms f) / 1000 - w_now w\<bar> \<le> MAX_CLOCK_OFFSET_S"
    then obtain f where f: "out = Inr (Some f)" "target p2 = target p1" "boot_id p2 = boot_id p1" "seq p2 = seq p1"
      "last_timestamp_ms p1 < timestamp_ms f" "last_timestamp_ms p2 = timestamp_ms f"
      "\<bar>real_of_int (timestamp_ms f) / 1000 - w_now w\<bar> \<le> MAX_CLOCK_OFFSET_S" by blast
    obtain p3 s3 where fp: "file_polled w f p2 (s\<lparr>regs := g\<rparr>) = (p3, s3)" by fastforce
    have st: "settle (w_tick w) wr p3 s3 = (p', s')" using assms h a f(1) fp by (simp add: poll_once_def)
    have same: "polled_item f p2 = polled_item f p" using hk f by (simp add: polled_item_def poller_same_def)
    show ?thesis using settle_keeps [OF st] file_polled_cases [OF fp] hk f(2-7) unfolding same
      by (auto simp: poller_same_def)
  next
    assume "(out = Inr None \<or> out = Inl ()) \<and> poller_same p1 p2"
    then obtain q where q: "poller_same p q" "settle (w_tick w) wr q (s\<lparr>regs := g\<rparr>) = (p', s')"
    proof (elim conjE disjE)
      assume "out = Inr None" "poller_same p1 p2"
      then show ?thesis using that [of p2] assms h a hk by (auto simp: poll_once_def intro: poller_same_trans)
    next
      assume "out = Inl ()" "poller_same p1 p2"
      then show ?thesis using that [of "poll_failed None p2"] assms h a hk poll_failed_keeps [of p2 None]
        by (auto simp: poll_once_def intro: poller_same_trans)
    qed
    show ?thesis using settle_keeps [OF q(2)] q(1) hk by (auto simp: poller_same_def)
  qed
qed

text \<open>
  A task's life: answers and faults of its own polls, and between them anything the rest of the
  server does, which is a new server state.  \<open>poll_step\<close> also keeps what the task's polls put on its
  radar's shard, with the server's clock at the time.
\<close>

datatype poll_event =
    Polled stream_world bool string
  | Faulted stream_world bool "radar_refusal option"
  | Meanwhile stream_server

definition lane_tail :: "queue_frame frame_queue \<Rightarrow> string \<Rightarrow> queue_frame" where
  "lane_tail q n = snd (last (waiting (shards q ! shard_for q n)))"

fun poll_step ::
    "(string \<Rightarrow> json option) \<Rightarrow> poll_event \<Rightarrow> radar_poller \<times> stream_server \<times> (real \<times> queue_frame) list
     \<Rightarrow> radar_poller \<times> stream_server \<times> (real \<times> queue_frame) list" where
  "poll_step loads (Polled w wr text) (p, s, sent) =
     (case poll_once loads w wr text p s of (p', s') \<Rightarrow>
        (p', s', if frames (regs s') = frames (regs s) then sent
                 else sent @ [(w_now w, lane_tail (frames (regs s')) (t_node (target p)))]))"
| "poll_step loads (Faulted w wr x) (p, s, sent) = (case poll_fault w wr x p s of (p', s') \<Rightarrow> (p', s', sent))"
| "poll_step loads (Meanwhile s') (p, s, sent) = (p, s', sent)"

fun server_ok :: "poll_event \<Rightarrow> bool" where
  "server_ok (Meanwhile s) = has_shards (frames (regs s))"
| "server_ok _ = True"

definition int_field :: "queue_frame \<Rightarrow> string \<Rightarrow> int" where
  "int_field fr k = (case dict_get fr k of Some (JInt i) \<Rightarrow> i | _ \<Rightarrow> 0)"

definition filed_for :: "poll_target \<Rightarrow> string \<Rightarrow> real \<times> queue_frame \<Rightarrow> bool" where
  "filed_for t token e \<longleftrightarrow>
     dict_get (snd e) ''_node_id'' = Some (JStr (t_node t)) \<and> dict_get (snd e) ''epoch'' = Some (JInt (t_epoch t)) \<and>
     dict_get (snd e) ''config_version'' = Some (JInt (t_version t)) \<and> dict_get (snd e) ''boot_id'' = Some (JStr token) \<and>
     dict_get (snd e) ''signing_mode'' = Some (JStr CUSTODY_CLASS) \<and>
     (\<forall>k \<in> {''doppler'', ''snr'', ''adsb_hex''}. length (column (snd e) k) = length (column (snd e) ''delay'')) \<and>
     \<bar>of_int (int_field (snd e) ''timestamp'') / 1000 - fst e\<bar> \<le> MAX_CLOCK_OFFSET_S"

definition life_inv :: "poll_target \<Rightarrow> string \<Rightarrow> radar_poller \<times> stream_server \<times> (real \<times> queue_frame) list \<Rightarrow> bool" where
  "life_inv t token l \<longleftrightarrow> (case l of (p, s, sent) \<Rightarrow>
     target p = t \<and> boot_id p = token \<and> has_shards (frames (regs s)) \<and>
     (\<forall>e \<in> set sent. filed_for t token e \<and> int_field (snd e) ''timestamp'' \<le> last_timestamp_ms p \<and>
        int_field (snd e) ''seq'' < seq p) \<and>
     sorted_wrt (<) (map (\<lambda>e. int_field (snd e) ''timestamp'') sent) \<and>
     sorted_wrt (<) (map (\<lambda>e. int_field (snd e) ''seq'') sent))"

lemma put_shards:
  assumes "put_nowait (n, x) q = Inr q'" and "has_shards q"
  shows "has_shards q'" and "lane_tail q' n = x" and "q' \<noteq> q"
proof -
  have q': "q' = q\<lparr>shards := (shards q)[shard_for q n := shard_put (n, x) (shards q ! shard_for q n)]\<rparr>"
    using assms(1) by (simp add: put_nowait_Inr)
  have less: "shard_for q n < length (shards q)" by (rule shard_for_less [OF assms(2)])
  have same: "shard_for q' n = shard_for q n" by (simp add: shard_for_def q')
  show "has_shards q'" using assms(2) by (simp add: has_shards_def q')
  have lane: "shards q' ! shard_for q n = shard_put (n, x) (shards q ! shard_for q n)" using less by (simp add: q')
  then show "lane_tail q' n = x" by (simp add: lane_tail_def same shard_put_def)
  show "q' \<noteq> q"
  proof
    assume "q' = q"
    then have "unfinished (shard_put (n, x) (shards q ! shard_for q n)) = unfinished (shards q ! shard_for q n)"
      using lane by simp
    then show False by (simp add: shard_put_def)
  qed
qed

lemma polled_item_fields:
  assumes "arrays_are_parallel (to_wire f (seq p) (boot_id p) (t_version (target p))) = Inr ()"
    and "\<bar>real_of_int (timestamp_ms f) / 1000 - now\<bar> \<le> MAX_CLOCK_OFFSET_S"
  shows "filed_for (target p) (boot_id p) (now, snd (polled_item f p))"
    and "int_field (snd (polled_item f p)) ''timestamp'' = timestamp_ms f"
    and "int_field (snd (polled_item f p)) ''seq'' = seq p"
proof -
  let ?w = "to_wire f (seq p) (boot_id p) (t_version (target p))"
  have ms: "milliseconds (of_int k / 1000) = k" for k :: int by (simp add: milliseconds_def)
  have get: "dict_get (snd (polled_item f p)) k = dict_get (pipeline_frame ?w) k"
    if "k \<notin> {''_node_id'', ''epoch'', ''signing_mode''}" for k
    using that by (simp add: polled_item_def polled_frame_def Let_def)
  have col: "column (snd (polled_item f p)) k = column (pipeline_frame ?w) k"
    if "k \<in> {''delay'', ''doppler'', ''snr'', ''adsb_hex''}" for k
    using get [of k] that by (auto simp: column_def)
  have head: "dict_get (pipeline_frame ?w) ''seq'' = Some (JInt (seq p))"
      "dict_get (pipeline_frame ?w) ''boot_id'' = Some (JStr (boot_id p))"
      "dict_get (pipeline_frame ?w) ''config_version'' = Some (JInt (t_version (target p)))"
      "dict_get (pipeline_frame ?w) ''timestamp'' = Some (JInt (timestamp_ms f))"
    by (simp_all add: pipeline_frame_def to_wire_def dict_get_def ms)
  show ts: "int_field (snd (polled_item f p)) ''timestamp'' = timestamp_ms f"
    and "int_field (snd (polled_item f p)) ''seq'' = seq p"
    by (simp_all add: int_field_def get head)
  show "filed_for (target p) (boot_id p) (now, snd (polled_item f p))"
    using assms(2) parallel_lengths(1-3) [OF assms(1)]
    by (simp add: filed_for_def ts get head col pipeline_columns)
      (simp add: polled_item_def polled_frame_def Let_def)
qed


lemma life_inv_step:
  assumes "life_inv t token l" and "server_ok e" shows "life_inv t token (poll_step loads e l)"
proof -
  obtain p s sent where l: "l = (p, s, sent)" by (metis prod.exhaust)
  show ?thesis
  proof (cases e)
    case (Meanwhile s')
    then show ?thesis using assms by (simp add: l life_inv_def)
  next
    case (Faulted w wr x)
    obtain p' s' where st: "settle (w_tick w) wr (poll_failed x p) s = (p', s')" by fastforce
    show ?thesis using assms(1) settle_keeps [OF st] poll_failed_keeps [of p x]
      by (auto simp: l Faulted poll_fault_def st life_inv_def poller_same_def)
  next
    case (Polled w wr txt0)
    obtain p' s' where po: "poll_once loads w wr txt0 p s = (p', s')" by fastforce
    note c = poll_once_cases [OF po]
    show ?thesis
    proof (cases "frames (regs s') = frames (regs s)")
      case True
      then show ?thesis using assms(1) c by (fastforce simp: l Polled po life_inv_def)
    next
      case False
      with c obtain f where f: "put_nowait (polled_item f p) (frames (regs s)) = Inr (frames (regs s'))"
        "arrays_are_parallel (to_wire f (seq p) (boot_id p) (t_version (target p))) = Inr ()"
        "seq p' = seq p + 1" "last_timestamp_ms p < timestamp_ms f" "last_timestamp_ms p' = timestamp_ms f"
        "\<bar>real_of_int (timestamp_ms f) / 1000 - w_now w\<bar> \<le> MAX_CLOCK_OFFSET_S" by blast
      let ?fr = "snd (polled_item f p)"
      have it: "polled_item f p = (t_node (target p), ?fr)" by (simp add: polled_item_def Let_def)
      have ok: "has_shards (frames (regs s))" using assms(1) by (simp add: l life_inv_def)
      have put: "put_nowait (t_node (target p), ?fr) (frames (regs s)) = Inr (frames (regs s'))" using f(1) it by metis
      have step: "poll_step loads e l = (p', s', sent @ [(w_now w, ?fr)])"
        using False put_shards(2) [OF put ok] by (simp add: l Polled po)
      note fl = polled_item_fields [OF f(2,6)]
      have inv: "target p = t" "boot_id p = token"
          "\<forall>e \<in> set sent. filed_for t token e \<and> int_field (snd e) ''timestamp'' \<le> last_timestamp_ms p \<and>
             int_field (snd e) ''seq'' < seq p"
          "sorted_wrt (<) (map (\<lambda>e. int_field (snd e) ''timestamp'') sent)"
          "sorted_wrt (<) (map (\<lambda>e. int_field (snd e) ''seq'') sent)"
        using assms(1) by (simp_all add: l life_inv_def)
      have old: "filed_for t token e \<and> int_field (snd e) ''timestamp'' < timestamp_ms f \<and> int_field (snd e) ''seq'' < seq p"
        if "e \<in> set sent" for e using bspec [OF inv(3) that] f(4) by simp
      have p': "target p' = t" "boot_id p' = token" using c inv by simp_all
      have "\<forall>e \<in> set sent. filed_for t token e \<and> int_field (snd e) ''timestamp'' \<le> last_timestamp_ms p' \<and>
             int_field (snd e) ''seq'' < seq p'" using old f(3,5) by fastforce
      then show ?thesis
        using put_shards(1) [OF put ok] p' f(3,5) fl inv(1,2,4,5) old
        by (simp add: step life_inv_def sorted_wrt_append)
    qed
  qed
qed

lemma life_inv_run:
  assumes "life_inv t token l" and "list_all server_ok es" shows "life_inv t token (fold (poll_step loads) es l)"
  using assms by (induction es arbitrary: l) (simp_all add: life_inv_step)

text \<open>C13:
  What one polling task files over its whole life, whatever the radar answers and whatever the rest
  of the server does in between.  Its frames' timestamps and sequence numbers strictly increase, so
  the tracker never sees a repeat or a step back from one task; each frame carries the task's node,
  epoch, configuration version and boot id and the custody class of a polled frame, is one table
  of detections, and was captured within the allowed offset of the server's clock when filed.
\<close>
theorem polled_frames_advance:
  assumes "has_shards (frames (regs s))" and "list_all server_ok es"
    and "fold (poll_step loads) es (new_poller tick token t, s, []) = (p, s', sent)"
  shows "sorted_wrt (<) (map (\<lambda>e. int_field (snd e) ''timestamp'') sent) \<and>
    sorted_wrt (<) (map (\<lambda>e. int_field (snd e) ''seq'') sent) \<and> (\<forall>e \<in> set sent. filed_for t token e)"
proof -
  have "life_inv t token (new_poller tick token t, s, [])" using assms(1) by (simp add: life_inv_def new_poller_def)
  from life_inv_run [OF this assms(2), of loads] have "life_inv t token (p, s', sent)" unfolding assms(3) .
  then show ?thesis by (simp add: life_inv_def)
qed


definition sample_target :: poll_target where
  "sample_target = \<lparr>t_node = ''bla00000001'', t_epoch = 1, t_version = 1, t_endpoint = sample_endpoint\<rparr>"

definition sample_polled :: stream_server where
  "sample_polled = sample_server\<lparr>regs := sample_registries\<lparr>registries.connected := [(''bla00000001'',
     \<lparr>re_hash = ''h'', re_config = [], re_status = ''active'', re_heartbeat = None, re_peer = ''v1'', re_synthetic = False,
      re_adsb_report = True\<rparr>)]\<rparr>\<rparr>"

definition sample_loads :: "string \<Rightarrow> json option" where
  "sample_loads text = Some (JObj [(''timestamp'', JInt 1000000), (''delay'', JArr [JInt 30]), (''doppler'', JArr [JInt 5]),
     (''snr'', JArr [JInt 12])])"

definition sample_blah2_frame :: blah2_frame where
  "sample_blah2_frame = \<lparr>timestamp_ms = 1000000, delay_km = [30], doppler_hz = [5], snr_db = [12]\<rparr>"

lemma sample_parses: "parse_detection sample_loads ''x'' = Inr sample_blah2_frame"
  by (simp add: parse_detection_def blank_byte_def code_def sample_loads_def py_get_def dict_get_def read_numbers_def finite_number_def
      float_of_int_def float_overflow_def sample_blah2_frame_def)

lemma sample_wire:
  "wire_frame_of sample_blah2_frame 0 ''0123456789abcdef'' 1 = Some (to_wire sample_blah2_frame 0 ''0123456789abcdef'' 1)"
proof -
  have "boot_id_ok ''0123456789abcdef''" by code_simp
  then have "frame_fields_ok (to_wire sample_blah2_frame 0 ''0123456789abcdef'' 1)"
    by (simp add: frame_fields_ok_def to_wire_def sample_blah2_frame_def MAX_DETECTIONS_def some_ok_def)
  then have "detection_frame (to_wire sample_blah2_frame 0 ''0123456789abcdef'' 1) =
      Inr (to_wire sample_blah2_frame 0 ''0123456789abcdef'' 1)"
    by (simp add: detection_frame_Inr)
      (simp add: arrays_are_parallel_def tracks_name_detections_def to_wire_def sample_blah2_frame_def)
  moreover have "is_finite (float_of_real (30 / C_KM_US))"
    by (simp add: float_of_real_def C_KM_US_def float_overflow_def)
  ultimately show ?thesis by (simp add: wire_frame_of_def sample_blah2_frame_def MAX_DETECTIONS_def)
qed


lemma sample_poll:
  "\<exists>p s. poll_once sample_loads sample_world True ''x'' (new_poller 0 ''0123456789abcdef'' sample_target) sample_polled = (p, s) \<and>
     frames (regs s) \<noteq> frames (regs sample_polled)"
proof -
  let ?p = "new_poller 0 ''0123456789abcdef'' sample_target"
  obtain p1 g where h: "heard_radar 1000 ?p (regs sample_polled) = (p1, g)" by fastforce
  have p1: "p1 = ?p\<lparr>failures := 0, answered_at := Some 1000\<rparr>" and fr: "frames g = frames (regs sample_polled)"
    and g: "g = mark_heard ''bla00000001'' 1000 (regs sample_polled)"
    using h by (auto simp: heard_radar_def mark_heard_frames new_poller_def sample_target_def)
  have con: "dict_get (connected g) ''bla00000001'' \<noteq> None"
    unfolding g mark_heard_connected by (simp add: sample_polled_def) (simp add: dict_get_def)
  let ?p2 = "p1\<lparr>clock_offset_s := Some (round3 0), last_timestamp_ms := 1000000\<rparr>"
  have a: "answered sample_loads 1000 ''x'' p1 = (?p2, Inr (Some sample_blah2_frame))"
    by (simp add: answered_def sample_parses p1 new_poller_def float_overflow_def MAX_CLOCK_OFFSET_S_def Let_def)
      (simp add: sample_blah2_frame_def)
  obtain p3 s3 where fp: "file_polled sample_world sample_blah2_frame ?p2 (sample_polled\<lparr>regs := g\<rparr>) = (p3, s3)" by fastforce
  have pipe: "in_pipeline sample_world (?p2\<lparr>seq := 1\<rparr>) (sample_polled\<lparr>regs := g\<rparr>) = (?p2\<lparr>seq := 1\<rparr>, sample_polled\<lparr>regs := g\<rparr>, True)"
    using con by (simp add: in_pipeline_def p1 new_poller_def sample_target_def)
  have free: "\<not> full (frames g)" and sh: "has_shards (frames g)"
    by (simp_all add: fr sample_polled_def sample_registries_def full_def qsize_def new_queue_def empty_shard_def has_shards_def
        eval_nat_numeral)
  let ?w = "to_wire sample_blah2_frame 0 ''0123456789abcdef'' 1"
  obtain q where put: "put_nowait (''bla00000001'', dict_set (polled_frame ?w 1) ''_node_id'' (JStr ''bla00000001'')) (frames g) = Inr q"
    using free by (simp add: put_nowait_Inr)
  then have sub: "submit_frame ''bla00000001'' (polled_frame ?w 1) g = (g\<lparr>frames := q\<rparr>, True)" by (simp add: submit_frame_True)
  have "frames (regs s3) = q"
    using fp pipe sub by (auto simp: file_polled_def Let_def p1 new_poller_def sample_target_def sample_wire)
  then have "frames (regs s3) \<noteq> frames (regs sample_polled)" using put_shards(3) [OF put sh] fr by simp
  moreover obtain p4 s4 where st: "settle (w_tick sample_world) True p3 s3 = (p4, s4)" by fastforce
  ultimately have "frames (regs s4) \<noteq> frames (regs sample_polled)" using settle_keeps [OF st] by simp
  moreover have "w_now sample_world = 1000" by (simp add: sample_world_def)
  ultimately show ?thesis using h a fp st by (simp add: poll_once_def)
qed

theorem polled_frames_advance_witness:
  "\<exists>es p s e. fold (poll_step sample_loads) es (new_poller 0 ''0123456789abcdef'' sample_target, sample_polled, []) = (p, s, [e]) \<and>
     filed_for sample_target ''0123456789abcdef'' e"
proof -
  let ?p = "new_poller 0 ''0123456789abcdef'' sample_target"
  obtain p s where o: "poll_once sample_loads sample_world True ''x'' ?p sample_polled = (p, s)"
    "frames (regs s) \<noteq> frames (regs sample_polled)" using sample_poll by blast
  let ?es = "[Polled sample_world True ''x'']"
  let ?e = "(w_now sample_world, lane_tail (frames (regs s)) (t_node (target ?p)))"
  have f: "fold (poll_step sample_loads) ?es (?p, sample_polled, []) = (p, s, [?e])" using o by simp
  have "has_shards (frames (regs sample_polled))"
    by (simp add: sample_polled_def sample_registries_def new_queue_def has_shards_def)
  from polled_frames_advance [OF this _ f] f show ?thesis by fastforce
qed


subsection \<open>A session that polls is configured as its radar declares\<close>

definition config_tables_ok :: "radar_db \<Rightarrow> bool" where
  "config_tables_ok d \<longleftrightarrow> table_ok (configs d) \<and> rows_valid (configs d)"

lemma same_epoch_current:
  assumes "config_tables_ok d" and "same_epoch now t c d = (d', CURRENT, b)"
  shows "\<exists>r a. dict_get (radars d') (t_node t) = Some r \<and> epoch r = t_epoch t \<and> last_config_at r = Some now \<and>
    active_config (configs d') (t_node t) = Some a \<and>
    map_option version (active_config (configs d) (t_node t)) = Some (version a) \<and>
    holds_declared (config_fields a) (declared_fields c)"
proof (cases "adopt now (t_node t) c d")
  case (Inl x)
  then show ?thesis using assms(2) by (simp add: same_epoch_def adopt_verdict_def split: radar_error.splits)
next
  case (Inr z)
  obtain d1 v where z: "z = (d1, v)" by fastforce
  have ad: "adopt now (t_node t) c d = Inr (d1, v)" using Inr z by simp
  obtain d2 where up: "update_radar (t_node t) (t_epoch t) (\<lambda>r. r\<lparr>last_config_at := Some now\<rparr>) d1 = Some d2"
    and v: "map_option version (active_config (configs d) (t_node t)) = Some v" and d': "d' = d2"
    using assms(2) ad by (auto simp: same_epoch_def split: option.splits if_splits)
  obtain r where r: "dict_get (radars d1) (t_node t) = Some r" "epoch r = t_epoch t"
    "d2 = d1\<lparr>radars := dict_set (radars d1) (t_node t) (r\<lparr>last_config_at := Some now\<rparr>)\<rparr>"
    using up by (auto simp: update_radar_Some)
  obtain a where a: "active_config (configs d1) (t_node t) = Some a" "version a = v"
    "holds_declared (config_fields a) (declared_fields c)"
    using adopt_settled(1) [OF assms(1)[unfolded config_tables_ok_def, THEN conjunct1] assms(1)[unfolded config_tables_ok_def, THEN conjunct2] ad]
    by blast
  show ?thesis using r a v d' by simp
qed

text \<open>Detections are polled only under a target the registry still holds.  A configuration check that
  comes out current read a declaration whose fingerprint the radar's row carried at the target's
  epoch; and whatever other writers committed meanwhile, when it commits the row is still at that
  epoch and the node's active configuration says what the radar declared.
\<close>
theorem current_session_is_configured:
  assumes "check_config loads digest k t d = Inr (d', CURRENT, b)"
    and "config_tables_ok (k_before_first k d)"
    and "\<forall>e. config_tables_ok e \<longrightarrow> config_tables_ok (k_before_second k e)"
  shows "\<exists>c r0 r a. dict_get (radars d) (t_node t) = Some r0 \<and> epoch r0 = t_epoch t \<and>
    pr_fingerprint r0 = fingerprint digest c \<and>
    dict_get (radars d') (t_node t) = Some r \<and> epoch r = t_epoch t \<and> last_config_at r = Some (k_now k) \<and>
    active_config (configs d') (t_node t) = Some a \<and> holds_declared (config_fields a) (declared_fields c)"
proof -
  obtain client rs out where g: "client_get (k_net k) CONFIG_PATH CONFIG_MAX_BYTES (k_client k) = (client, rs, out)"
    by (metis prod.exhaust)
  obtain answer where o: "out = Inr answer" using assms(1) g by (cases out) (auto simp: check_config_def)
  obtain c where "read_config loads answer = Inr c"
    using assms(1) g o by (cases "read_config loads answer") (auto simp: check_config_def)
  note c = o this
  let ?chk = "check_declaration digest t c (addresses client) d"
  have to_same: "?chk \<in> {Readdressed, Unmoved} \<and> (\<exists>e. config_tables_ok e \<and> same_epoch (k_now k) t c e = (d', CURRENT, b))"
  proof (cases ?chk)
    case Redeclared
    have "snd (next_epoch (k_now k) t p e) \<noteq> (CURRENT, b)" for p e
      by (auto simp: next_epoch_def adopt_verdict_def split: sum.splits option.splits radar_error.splits)
    then show ?thesis using assms(1) g c Redeclared
      by (auto simp: check_config_def split: sum.splits radar_refusal.splits) (metis snd_conv)+
  next
    case Readdressed
    have moved: "config_tables_ok e \<Longrightarrow> config_tables_ok (address_moved (k_now k) t addr passed e)" for e addr passed
      by (auto simp: config_tables_ok_def address_moved_def update_radar_Some split: option.split)
    have "\<exists>addr passed. same_epoch (k_now k) t c
        (k_before_second k (address_moved (k_now k) t addr passed (k_before_first k d))) = (d', CURRENT, b)"
      using assms(1) g c Readdressed by (auto simp: check_config_def split: sum.splits radar_refusal.splits)
    then show ?thesis using Readdressed assms(2,3) moved by blast
  next
    case Unmoved
    then show ?thesis using assms g c by (auto simp: check_config_def)
  qed (use assms(1) g c in \<open>simp_all add: check_config_def\<close>)
  then obtain e where e: "config_tables_ok e" "same_epoch (k_now k) t c e = (d', CURRENT, b)" by blast
  have "\<exists>r0. dict_get (radars d) (t_node t) = Some r0 \<and> epoch r0 = t_epoch t \<and> pr_fingerprint r0 = fingerprint digest c"
    using to_same by (auto simp: check_declaration_def split: option.splits if_splits)
  then show ?thesis using same_epoch_current [OF e] by blast
qed

subsection \<open>The running tasks are the registry's radars\<close>

lemma dict_filter_eq: "filter P d = dict_filter (\<lambda>k v. P (k, v)) d"
  by (simp add: dict_filter_def)

lemma map_filter_keys: "set (map fst (List.map_filter f xs)) \<subseteq> fst ` set xs" if "\<And>x y. f x = Some y \<Longrightarrow> fst y = fst x"
  using that by (induction xs) (auto simp: List.map_filter_simps split: option.splits)

lemma map_filter_ok:
  assumes "\<And>x y. f x = Some y \<Longrightarrow> fst y = fst x" and "dict_ok xs" shows "dict_ok (List.map_filter f xs)"
  using assms(2)
proof (induction xs)
  case (Cons x xs)
  have "fst y \<notin> set (map fst (List.map_filter f xs))" if "f x = Some y" for y
    using map_filter_keys [of f xs, OF assms(1)] assms(1) [OF that] Cons.prems by (auto simp: dict_ok_def)
  then show ?case using Cons by (auto simp: dict_ok_def List.map_filter_simps split: option.splits)
qed (simp add: List.map_filter_simps)

lemma targets_ok: "dict_ok (radars d) \<Longrightarrow> dict_ok (load_targets decrypt d)"
  unfolding load_targets_def
  by (rule map_filter_ok) (auto simp: target_of_def Let_def split: prod.splits option.splits if_splits)

lemma started_get:
  "dict_get (map (\<lambda>(n, t). (n, f t)) (filter (\<lambda>(n, t). \<not> P n) d)) k = (if P k then None else map_option f (dict_get d k))"
  by (induction d) (auto simp: dict_get_def)

lemma rejoin_evicts:
  assumes "dict_get (node_rows d) n \<noteq> None" and "pipeline_config (configs d) n \<noteq> None"
  shows "n \<notin> set (pipelines (rejoin digest now d n g))"
proof -
  obtain row c where "dict_get (node_rows d) n = Some row" "pipeline_config (configs d) n = Some c" using assms by blast
  moreover then obtain g' where "register_with_pipeline digest now (configs d) n (n_last_seen row) g = Some g'"
    by (simp add: register_with_pipeline_def Let_def)
  ultimately show ?thesis using register_evicts by (fastforce simp: rejoin_def)
qed

lemma rejoin_others: "n \<notin> set (pipelines g) \<Longrightarrow> n \<notin> set (pipelines (rejoin digest now d m g))"
  by (cases "m = n")
    (auto simp: rejoin_def dest: register_evicts register_others split: option.splits)

lemma rejoined_evicted:
  assumes "n \<in> set ns" and "dict_get (node_rows d) n \<noteq> None" and "pipeline_config (configs d) n \<noteq> None"
  shows "n \<notin> set (pipelines (fold (\<lambda>m. rejoin digest now d m) ns g))"
proof -
  have keep: "n \<notin> set (pipelines g) \<Longrightarrow> n \<notin> set (pipelines (fold (\<lambda>m. rejoin digest now d m) ms g))" for ms g
    by (induction ms arbitrary: g) (simp_all add: rejoin_others)
  show ?thesis using assms(1)
    by (induction ns arbitrary: g) (auto simp: keep rejoin_evicts [OF assms(2,3)])
qed

text \<open>C14:
  After a sync the tasks that run are exactly the radars the registry wants polled, one live task
  for each and under its present target; and where a radar's epoch or configuration version moved
  on while its node still has a configuration, the pipeline of the epoch before is gone, so no
  track runs on into the new one.
\<close>
theorem sync_matches_registry:
  assumes "dict_ok (radars d)" and "dict_ok running" and "sync decrypt digest now d d' (running, g) = (running', g')"
  shows "dict_ok running' \<and>
    (\<forall>n. map_option task_target (dict_get running' n) = dict_get (load_targets decrypt d) n) \<and>
    (\<forall>(n, k) \<in> set running'. \<not> task_done k) \<and>
    (\<forall>n k t. dict_get running n = Some k \<and> dict_get (load_targets decrypt d) n = Some t \<and>
       (t_epoch t, t_version t) \<noteq> (t_epoch (task_target k), t_version (task_target k)) \<and>
       dict_get (node_rows d') n \<noteq> None \<and> pipeline_config (configs d') n \<noteq> None \<longrightarrow> n \<notin> set (pipelines g'))"
proof -
  let ?wanted = "load_targets decrypt d"
  let ?kept = "filter (\<lambda>e. \<not> stopping ?wanted e) running"
  let ?started = "map (\<lambda>(n, t). (n, \<lparr>task_target = t, task_done = False\<rparr>)) (filter (\<lambda>(n, t). \<not> dict_has ?kept n) ?wanted)"
  have run: "running' = ?kept @ ?started"
    and g': "g' = fold (\<lambda>m. rejoin digest now d' m) (map fst (filter (needs_rejoin ?wanted) (filter (stopping ?wanted) running))) g"
    using assms(3) by (simp_all add: sync_def Let_def fold_map comp_def)
  have kept: "dict_get ?kept n = (case dict_get running n of None \<Rightarrow> None
      | Some k \<Rightarrow> if dict_get ?wanted n = Some (task_target k) \<and> \<not> task_done k then Some k else None)" for n
    unfolding dict_filter_eq dict_get_filter [OF assms(2)] by (simp add: stopping_def split: option.split)
  have same: "map_option task_target (dict_get running' n) = dict_get ?wanted n" for n
    unfolding run dict_get_append started_get
    by (cases "dict_get ?kept n") (auto simp: dict_has_get kept map_option.compositionality comp_def option.map_ident split: option.splits if_splits)
  have ok: "dict_ok running'"
  proof -
    have a: "dict_ok ?kept" unfolding dict_filter_eq by (rule dict_ok_filter [OF assms(2)])
    have b: "map fst ?started = map fst (filter (\<lambda>(n, t). \<not> dict_has ?kept n) ?wanted)" by (induction ?wanted) auto
    have c: "distinct (map fst (filter (\<lambda>(n, t). \<not> dict_has ?kept n) ?wanted))"
      using targets_ok [OF assms(1), of decrypt] by (simp add: dict_ok_def distinct_map_filter)
    have e: "set (map fst ?kept) \<inter> set (map fst ?started) = {}"
      unfolding b by (force simp: dict_has_keys dict_keys_def)
    show ?thesis using a c e unfolding run dict_ok_def map_append distinct_append b by blast
  qed
  have live: "\<forall>(n, k) \<in> set running'. \<not> task_done k" by (auto simp: run stopping_def)
  have evicted: "n \<notin> set (pipelines g')"
    if "dict_get running n = Some k" "dict_get ?wanted n = Some t"
      "(t_epoch t, t_version t) \<noteq> (t_epoch (task_target k), t_version (task_target k))"
      "dict_get (node_rows d') n \<noteq> None" "pipeline_config (configs d') n \<noteq> None" for n k t
  proof -
    have "stopping ?wanted (n, k)" "needs_rejoin ?wanted (n, k)" using that by (auto simp: stopping_def needs_rejoin_def)
    moreover have "(n, k) \<in> set running" by (rule dict_get_mem [OF that(1)])
    ultimately have "n \<in> set (map fst (filter (needs_rejoin ?wanted) (filter (stopping ?wanted) running)))"
      by force
    then show ?thesis unfolding g' using that(4,5) by (rule rejoined_evicted)
  qed
  show ?thesis using ok same live evicted by blast
qed


definition declared_json :: json where
  "declared_json = JObj [(''capture'', JObj [(''fc'', JInt 98000000)]),
     (''location'', JObj
       [(''rx'', JObj [(''latitude'', JInt 38), (''longitude'', JInt (-77)), (''altitude'', JFloat (Fin 274.32))]),
        (''tx'', JObj [(''latitude'', JFloat (Fin (77 / 2))), (''longitude'', JInt (-78)), (''altitude'', JFloat (Fin 274.32))])])]"

lemma declared_read: "read_config (\<lambda>_. Some declared_json) ''c'' = Inr sample_declaration"
  by (simp add: read_config_def parse_config_def declared_json_def sample_declaration_def is_blah2_arm_def get_object_def
      py_get_def dict_get_def dict_keys_def read_site_def Let_def finite_number_def positive_number_def float_of_int_def
      float_overflow_def string_value_def is_example_def EXAMPLE_RX_def EXAMPLE_TOLERANCE_DEG_def)

definition sample_check :: check_world where
  "sample_check = \<lparr>k_now = 9, k_client = \<lparr>c_endpoint = Poller.sample_endpoint, addresses = [V4 1], address = None\<rparr>,
     k_net = sample_answer ''c'', k_probe = Blah2.sample_world, k_before_first = (\<lambda>d. d), k_before_second = (\<lambda>d. d)\<rparr>"

theorem current_session_is_configured_witness:
  "\<exists>d d' b r a. check_config (\<lambda>_. Some declared_json) (\<lambda>_. ''f'') sample_check sample_target d = Inr (d', CURRENT, b) \<and>
     dict_get (radars d') (t_node sample_target) = Some r \<and> last_config_at r = Some 9 \<and>
     active_config (configs d') (t_node sample_target) = Some a \<and>
     holds_declared (config_fields a) (declared_fields sample_declaration)"
proof -
  have ok0: "table_ok (configs sample_db)" "rows_valid (configs sample_db)"
    using sample_row_valid by (simp_all add: table_ok_def rows_valid_def sample_db_def sample_row_def)
  obtain d1 v where ad: "adopt 5 ''bla00000001'' sample_declaration sample_db = Inr (d1, v)" using sample_adopts by blast
  note s = adopt_settled [OF ok0 ad]
  obtain a where a: "active_config (configs d1) ''bla00000001'' = Some a" "version a = v" "config_ok (config_fields a)"
    "holds_declared (config_fields a) (declared_fields sample_declaration)" using s(1) by blast
  let ?row = "sample_radar GRADUATED"
  let ?d = "d1\<lparr>radars := [(''bla00000001'', ?row)]\<rparr>"
  let ?k = sample_check let ?t = sample_target
  have t: "t_node ?t = ''bla00000001''" "t_epoch ?t = 1" by (simp_all add: sample_target_def)
  have row: "dict_get (radars ?d) ''bla00000001'' = Some ?row" "epoch ?row = 1" "pr_fingerprint ?row = ''f''" "last_resolved_ip ?row = None"
    by (simp_all add: dict_get_def sample_radar_def)
  have get: "client_get (k_net ?k) CONFIG_PATH CONFIG_MAX_BYTES (k_client ?k) =
      (k_client ?k\<lparr>address := Some (V4 1)\<rparr>, [build_request Poller.sample_endpoint (V4 1) CONFIG_PATH], Inr ''c'')"
    by (simp add: client_get_def sample_check_def sample_answer_def read_body_def lower_def strip_def is_space_def code_def
        lower_char_def CONFIG_MAX_BYTES_def)
  have chk: "check_declaration (\<lambda>_. ''f'') ?t sample_declaration as ?d = Unmoved" for as
    unfolding check_declaration_def t using row a(1) by (simp add: fingerprint_def moved_network_def)
  have again: "adopt 9 ''bla00000001'' sample_declaration ?d = Inr (?d, v)"
    using adopt_again [of ?d "''bla00000001''" a sample_declaration 9] a by simp
  let ?d' = "?d\<lparr>radars := dict_set (radars ?d) ''bla00000001'' (?row\<lparr>last_config_at := Some 9\<rparr>)\<rparr>"
  have "update_radar ''bla00000001'' 1 (\<lambda>r. r\<lparr>last_config_at := Some 9\<rparr>) ?d = Some ?d'"
    unfolding update_radar_Some using row(1,2) by blast
  then have same: "same_epoch 9 ?t sample_declaration ?d = (?d', CURRENT, False)"
    using a(1,2) unfolding same_epoch_def t again by simp
  have k: "k_now ?k = 9" "k_before_first ?k = (\<lambda>d. d)" "k_before_second ?k = (\<lambda>d. d)" by (simp_all add: sample_check_def)
  have run: "check_config (\<lambda>_. Some declared_json) (\<lambda>_. ''f'') ?k ?t ?d = Inr (?d', CURRENT, False)"
    unfolding check_config_def get by (simp add: declared_read chk k same del: dict_get_set)
  have "config_tables_ok (k_before_first ?k ?d)" using s(2) by (simp add: k config_tables_ok_def)
  from current_session_is_configured [OF run this] k obtain r a' where
    "dict_get (radars ?d') (t_node ?t) = Some r" "last_config_at r = Some 9" by auto
  moreover have "active_config (configs ?d') (t_node ?t) = Some a" using a(1) by (simp add: t)
  ultimately show ?thesis using run a(4) by blast
qed

theorem sync_matches_registry_witness:
  "\<exists>d d' running running' g g'. sync Some (\<lambda>_. ''h'') 0 d d' (running, g) = (running', g') \<and>
     map_option task_target (dict_get running' ''bla00000001'') = dict_get (load_targets Some d) ''bla00000001'' \<and>
     dict_get (load_targets Some d) ''bla00000001'' \<noteq> None"
proof -
  let ?d = "sample_db\<lparr>node_rows := [(''bla00000001'', sample_node)], radars := [(''bla00000001'', sample_radar GRADUATED)]\<rparr>"
  let ?running = "[(''bla00000001'', \<lparr>task_target = sample_target\<lparr>t_epoch := 0\<rparr>, task_done = False\<rparr>)]"
  have ok: "dict_ok (radars ?d)" "dict_ok ?running" by (simp_all add: dict_ok_def)
  have want: "dict_get (load_targets Some ?d) ''bla00000001'' \<noteq> None"
    by (simp add: load_targets_def target_of_def dict_get_def sample_node_def sample_radar_def poller_credentials_def
        List.map_filter_simps)
  obtain running' g' where run: "sync Some (\<lambda>_. ''h'') 0 ?d ?d (?running, sample_registries) = (running', g')" by fastforce
  show ?thesis using sync_matches_registry [OF ok run] run want by blast
qed

end
