(* ===== verification/DarkFollow.thy ===== *)
theory DarkFollow
  imports NodeRefs Poller
begin

text \<open>
  The multinode tracks on the map and the lane that follows the dark ones
  (\<open>services/dark_follow.py\<close>): which keys may be followed, the guard that drops a key that stops
  earning its place, its cooldown, the reprieve of a manoeuvring key, and who owns a key.  The
  settings are the defaults of their environment variables.  The filter's answer for a key
  (\<open>track_filter.learned_velocity_manoeuvre\<close>) and the age cap of a fix, which is
  retina-analytics', are arguments.  One pass reads the clock once; counters are left out.
\<close>

subsection \<open>An entry of \<open>state.multinode_tracks\<close>\<close>

text \<open>
  What the identity rules read of an entry.  A position is there when latitude and longitude are;
  an altitude when it is a finite number.
\<close>

record mn_entry =
  e_pos :: "(real \<times> real) option"
  e_time_ms :: int
  e_vel :: "real \<times> real"
  e_alt :: "real option"
  e_nodes :: int
  e_max_nodes :: int
  e_solves :: int
  e_kf_sigma_m :: "real option"
  e_sigma_km :: "real option"
  e_contributors :: "string list"
  e_sources :: "string list"
  e_recent :: "(string, real) dict"
  e_anomalous :: bool
  e_types :: "string list"
  e_predecessor :: "string option"

definition MN_DARK_PREFIX :: string where "MN_DARK_PREFIX = ''mn-dark-''"

definition is_dark :: "string \<Rightarrow> bool" where
  "is_dark key \<longleftrightarrow> has_prefix MN_DARK_PREFIX key"

definition entry_time_s :: "mn_entry \<Rightarrow> real" where
  "entry_time_s e = real_of_int (e_time_ms e) / 1000"

text \<open>\<open>state.node_world\<close>.\<close>

definition node_world :: "node_fields \<Rightarrow> string \<Rightarrow> string" where
  "node_world conn node =
     (let by_id = (if is_synthetic_node node then ''sim'' else ''real'') in
      case dict_get conn node of
        None \<Rightarrow> by_id
      | Some info \<Rightarrow> (case dict_get info ''is_synthetic'' of
            None \<Rightarrow> by_id | Some v \<Rightarrow> if truthy v then ''sim'' else ''real''))"

subsection \<open>Settings\<close>

definition DARK_FOLLOW_MAX_AGE_S :: real where "DARK_FOLLOW_MAX_AGE_S = 20"
definition DARK_FOLLOW_MIN_SOLVES :: int where "DARK_FOLLOW_MIN_SOLVES = 3"
definition DARK_FOLLOW_MIN_NODES :: int where "DARK_FOLLOW_MIN_NODES = 3"
definition DARK_FOLLOW_MAX_VEL_SIGMA_MS :: real where "DARK_FOLLOW_MAX_VEL_SIGMA_MS = 115"
definition DARK_FOLLOW_MANOEUVRE_KEEP :: real where "DARK_FOLLOW_MANOEUVRE_KEEP = 3 / 10"
definition DARK_FOLLOW_MANOEUVRE_MAX_VEL_SIGMA_MS :: real where "DARK_FOLLOW_MANOEUVRE_MAX_VEL_SIGMA_MS = 600"
definition DARK_FOLLOW_MANOEUVRE_KEEP_MAX_S :: real where "DARK_FOLLOW_MANOEUVRE_KEEP_MAX_S = 30"
definition DARK_FOLLOW_GATE_VEL_SIGMA_CAP_MS :: real where "DARK_FOLLOW_GATE_VEL_SIGMA_CAP_MS = 115"
definition DARK_FOLLOW_COOLDOWN_S :: real where "DARK_FOLLOW_COOLDOWN_S = 30"
definition DARK_FOLLOW_OWN_S :: real where "DARK_FOLLOW_OWN_S = 6"
definition DARK_FOLLOW_SHADOW_KM :: real where "DARK_FOLLOW_SHADOW_KM = 2"
definition MAX_CONSECUTIVE_REJECTS :: int where "MAX_CONSECUTIVE_REJECTS = 2"
definition DEFAULT_POS_SIGMA_M :: real where "DEFAULT_POS_SIGMA_M = 1200"
definition MAX_DELAY_GATE_US :: real where "MAX_DELAY_GATE_US = 40"
definition MAX_DOPPLER_GATE_HZ :: real where "MAX_DOPPLER_GATE_HZ = 100"
definition TARGETS_TTL_S :: real where "TARGETS_TTL_S = 1"
definition MANOEUVRE_KEEP_TTL_S :: real where "MANOEUVRE_KEEP_TTL_S = 300"
definition FOLLOWED_TTL_S :: real where "FOLLOWED_TTL_S = 60"
definition C_M_PER_US :: real where "C_M_PER_US = C_KM_US * 1000"
definition C_M_PER_S :: real where "C_M_PER_S = C_KM_US * 10 ^ 9"

datatype follow_mode = FollowOff | FollowShadow | FollowBinding

definition follow_mode_of :: "string \<Rightarrow> follow_mode" where
  "follow_mode_of m = (if m = ''shadow'' then FollowShadow else if m = ''binding'' then FollowBinding else FollowOff)"

subsection \<open>The guard\<close>

record follow_guard =
  reject_streak :: "(string, int) dict"
  cooldown_until :: "(string, real) dict"
  keep_since :: "(string, real) dict"
  followed_at :: "(string, real) dict"

definition in_cooldown :: "string \<Rightarrow> real \<Rightarrow> follow_guard \<Rightarrow> bool" where
  "in_cooldown key now g \<longleftrightarrow> dict_get_default (cooldown_until g) key 0 > now"

definition drop_target :: "real \<Rightarrow> string \<Rightarrow> follow_guard \<Rightarrow> follow_guard" where
  "drop_target now key g =
     (if in_cooldown key now g then g
      else g\<lparr>cooldown_until := dict_set (cooldown_until g) key (now + DARK_FOLLOW_COOLDOWN_S),
             reject_streak := dict_del (reject_streak g) key\<rparr>)"

definition was_dropped :: "real \<Rightarrow> real \<Rightarrow> string \<Rightarrow> follow_guard \<Rightarrow> bool" where
  "was_dropped now window key g =
     (let til = dict_get_default (cooldown_until g) key 0 in
      if til \<le> now then False else now - (til - DARK_FOLLOW_COOLDOWN_S) \<le> window)"

definition record_outcome :: "real \<Rightarrow> string \<Rightarrow> bool \<Rightarrow> follow_guard \<Rightarrow> follow_guard" where
  "record_outcome now key ok g =
     (if ok then g\<lparr>reject_streak := dict_del (reject_streak g) key\<rparr>
      else
        (let streak = dict_get_default (reject_streak g) key 0 + 1;
             g1 = g\<lparr>reject_streak := dict_set (reject_streak g) key streak\<rparr>
         in if streak \<ge> MAX_CONSECUTIVE_REJECTS then drop_target now key g1 else g1))"

definition note_follow_publish :: "string \<Rightarrow> real \<Rightarrow> follow_guard \<Rightarrow> follow_guard" where
  "note_follow_publish key ts g =
     (if key = [] \<or> ts \<le> 0 then g
      else g\<lparr>followed_at := dict_filter (\<lambda>_ t. t \<ge> ts - FOLLOWED_TTL_S) (dict_set (followed_at g) key ts)\<rparr>)"

definition recently_followed :: "string \<Rightarrow> real \<Rightarrow> real \<Rightarrow> follow_guard \<Rightarrow> bool" where
  "recently_followed key now window g =
     (case dict_get (followed_at g) key of None \<Rightarrow> False | Some t \<Rightarrow> \<bar>now - t\<bar> \<le> window)"

definition sweep_guard :: "real \<Rightarrow> follow_guard \<Rightarrow> follow_guard" where
  "sweep_guard now g =
     (let expired = map fst (filter (\<lambda>(k, til). til \<le> now) (cooldown_until g)) in
      g\<lparr>cooldown_until := dict_filter (\<lambda>_ til. \<not> til \<le> now) (cooldown_until g),
        reject_streak := dict_filter (\<lambda>k _. k \<notin> set expired) (reject_streak g),
        keep_since := dict_filter (\<lambda>_ t0. \<not> t0 \<le> now - MANOEUVRE_KEEP_TTL_S) (keep_since g)\<rparr>)"

definition clear_manoeuvre_keep :: "string \<Rightarrow> follow_guard \<Rightarrow> follow_guard" where
  "clear_manoeuvre_keep key g = g\<lparr>keep_since := dict_del (keep_since g) key\<rparr>"

definition manoeuvre_reprieve :: "string \<Rightarrow> real \<Rightarrow> real \<Rightarrow> real \<Rightarrow> follow_guard \<Rightarrow> follow_guard \<times> bool" where
  "manoeuvre_reprieve key level vel_sigma now g =
     (if level < DARK_FOLLOW_MANOEUVRE_KEEP then (clear_manoeuvre_keep key g, False)
      else if vel_sigma > DARK_FOLLOW_MANOEUVRE_MAX_VEL_SIGMA_MS then (g, False)
      else (case dict_get (keep_since g) key of
              None \<Rightarrow> (g\<lparr>keep_since := dict_set (keep_since g) key now\<rparr>, True)
            | Some t0 \<Rightarrow> (g, now - t0 \<le> DARK_FOLLOW_MANOEUVRE_KEEP_MAX_S)))"

subsection \<open>The targets\<close>

record follow_target =
  ft_key :: string
  ft_pos :: "real \<times> real"
  ft_alt_m :: real
  ft_vel :: "real \<times> real"
  ft_vel_sigma :: real
  ft_pos_sigma :: real
  ft_time_ms :: int
  ft_world :: "string option"

definition pos_sigma_m :: "mn_entry \<Rightarrow> real" where
  "pos_sigma_m e =
     (case e_kf_sigma_m e of
        Some s \<Rightarrow> if s > 0 then s
                  else (case e_sigma_km e of Some f \<Rightarrow> if f > 0 then f * 1000 else DEFAULT_POS_SIGMA_M | None \<Rightarrow> DEFAULT_POS_SIGMA_M)
      | None \<Rightarrow> (case e_sigma_km e of Some f \<Rightarrow> if f > 0 then f * 1000 else DEFAULT_POS_SIGMA_M | None \<Rightarrow> DEFAULT_POS_SIGMA_M))"

text \<open>\<open>learned\<close> gives a key's velocity, its sigma and the manoeuvre level, where the filter has a state.\<close>

type_synonym learned_state = "string \<Rightarrow> ((real \<times> real) \<times> real \<times> real) option"

definition new_follow_target :: "node_fields \<Rightarrow> string \<Rightarrow> mn_entry \<Rightarrow> real \<times> real \<Rightarrow> real \<times> real \<Rightarrow> real \<Rightarrow> follow_target" where
  "new_follow_target conn key e pos vel vel_sigma =
     \<lparr>ft_key = key, ft_pos = pos, ft_alt_m = (case e_alt e of None \<Rightarrow> 0 | Some a \<Rightarrow> a), ft_vel = vel, ft_vel_sigma = vel_sigma,
      ft_pos_sigma = pos_sigma_m e, ft_time_ms = e_time_ms e,
      ft_world = (case e_contributors e of [] \<Rightarrow> None | n # _ \<Rightarrow> Some (node_world conn n))\<rparr>"

text \<open>One key of the walk; the first three tests of an entry are its age, its solves and its widest solve.\<close>

definition established :: "real \<Rightarrow> mn_entry \<Rightarrow> bool" where
  "established now_s e \<longleftrightarrow> 0 \<le> now_s - entry_time_s e \<and> now_s - entry_time_s e \<le> DARK_FOLLOW_MAX_AGE_S \<and>
     DARK_FOLLOW_MIN_SOLVES \<le> e_solves e \<and> DARK_FOLLOW_MIN_NODES \<le> max (e_max_nodes e) (e_nodes e)"


definition consider_key ::
    "node_fields \<Rightarrow> learned_state \<Rightarrow> real \<Rightarrow> real \<Rightarrow> string \<Rightarrow> mn_entry \<Rightarrow> follow_guard \<Rightarrow> follow_guard \<times> follow_target option" where
  "consider_key conn learned now_s now_mono key e g =
     (if \<not> is_dark key \<or> in_cooldown key now_mono g then (g, None)
      else (case e_pos e of
        None \<Rightarrow> (g, None)
      | Some pos \<Rightarrow>
          if \<not> established now_s e then (g, None)
          else (case learned key of
             None \<Rightarrow> (g, None)
           | Some (vel, vel_sigma, manoeuvre) \<Rightarrow>
               (let t = new_follow_target conn key e pos vel vel_sigma in
                if vel_sigma > DARK_FOLLOW_MAX_VEL_SIGMA_MS then
                  (case manoeuvre_reprieve key manoeuvre vel_sigma now_mono g of
                     (g1, kept) \<Rightarrow> if kept then (g1, Some t) else (drop_target now_mono key g1, None))
                else (clear_manoeuvre_keep key g, Some t)))))"

fun build_targets ::
    "node_fields \<Rightarrow> learned_state \<Rightarrow> real \<Rightarrow> real \<Rightarrow> (string, mn_entry) dict \<Rightarrow> follow_guard \<Rightarrow> follow_guard \<times> follow_target list" where
  "build_targets conn learned now_s now_mono [] g = (g, [])"
| "build_targets conn learned now_s now_mono ((key, e) # rest) g =
     (case consider_key conn learned now_s now_mono key e g of
        (g1, t) \<Rightarrow> (case build_targets conn learned now_s now_mono rest g1 of
          (g2, ts) \<Rightarrow> (g2, (case t of None \<Rightarrow> ts | Some x \<Rightarrow> x # ts))))"

text \<open>The list is rebuilt at most once per second; \<open>0\<close> is a list never built.\<close>

record follow_state =
  fguard :: follow_guard
  ftargets :: "follow_target list"
  built_mono :: real

definition follow_targets ::
    "follow_mode \<Rightarrow> node_fields \<Rightarrow> learned_state \<Rightarrow> real \<Rightarrow> real \<Rightarrow> (string, mn_entry) dict \<Rightarrow> follow_state
     \<Rightarrow> follow_state \<times> follow_target list" where
  "follow_targets m conn learned now_s now_mono tracks s =
     (if m = FollowOff then (s, [])
      else if built_mono s \<noteq> 0 \<and> now_mono - built_mono s < TARGETS_TTL_S then (s, ftargets s)
      else (case build_targets conn learned now_s now_mono tracks (sweep_guard now_mono (fguard s)) of
              (g, ts) \<Rightarrow> (\<lparr>fguard = g, ftargets = ts, built_mono = now_mono\<rparr>, ts)))"

text \<open>\<open>known_claiming._gate_scale\<close>, with the age cap it takes from retina-analytics.\<close>

definition gate_scale :: "real \<Rightarrow> real \<Rightarrow> real" where
  "gate_scale max_age age = 1 + min \<bar>age\<bar> max_age / max_age"

definition follow_gates :: "real \<Rightarrow> follow_target \<Rightarrow> real \<Rightarrow> real \<Rightarrow> real \<Rightarrow> real \<Rightarrow> real \<times> real" where
  "follow_gates max_age t dt base_delay base_doppler fc =
     (let scale = gate_scale max_age dt;
          vel_sigma = (if ft_vel_sigma t > DARK_FOLLOW_GATE_VEL_SIGMA_CAP_MS then DARK_FOLLOW_GATE_VEL_SIGMA_CAP_MS else ft_vel_sigma t);
          pos_err = ft_pos_sigma t + vel_sigma * max dt 0;
          d_gate = base_delay * scale + 2 * pos_err / C_M_PER_US;
          f_gate = base_doppler * scale + 2 * vel_sigma * fc / C_M_PER_S
      in (min d_gate MAX_DELAY_GATE_US, min f_gate MAX_DOPPLER_GATE_HZ))"


subsection \<open>What happens to the lane\<close>

text \<open>
  A verdict on a follow-solve, a question for the targets, a publish on a key: each at its time, and
  the log of what was offered when.
\<close>

datatype follow_event =
    Verdict real string bool
  | Walk follow_mode node_fields learned_state real real "(string, mn_entry) dict"
  | Published string real

fun event_ok :: "real \<Rightarrow> real \<Rightarrow> follow_event \<Rightarrow> bool" where
  "event_ok from to (Verdict now _ _) = (from \<le> now \<and> now < to)"
| "event_ok from to (Walk _ _ _ _ now _) = (from \<le> now \<and> now < to)"
| "event_ok from to (Published _ _) = True"

type_synonym follow_log = "(real \<times> follow_target list) list"

fun follow_step :: "follow_event \<Rightarrow> follow_state \<times> follow_log \<Rightarrow> follow_state \<times> follow_log" where
  "follow_step (Verdict now key ok) (s, l) = (s\<lparr>fguard := record_outcome now key ok (fguard s)\<rparr>, l)"
| "follow_step (Walk m conn learned now_s now tracks) (s, l) =
     (case follow_targets m conn learned now_s now tracks s of (s1, ts) \<Rightarrow> (s1, l @ [(now, ts)]))"
| "follow_step (Published key ts) (s, l) = (s\<lparr>fguard := note_follow_publish key ts (fguard s)\<rparr>, l)"

lemma dict_filter_keeps: "dict_get d k = Some v \<Longrightarrow> p k v \<Longrightarrow> dict_get (dict_filter p d) k = Some v"
  by (induction d) (auto simp: dict_get_def dict_filter_def split: if_splits)

subsection \<open>A dropped key rests\<close>

definition rests :: "string \<Rightarrow> real \<Rightarrow> follow_guard \<Rightarrow> bool" where
  "rests key u g \<longleftrightarrow> dict_get (cooldown_until g) key = Some u"

lemma rests_cooldown: "rests key u g \<Longrightarrow> now < u \<Longrightarrow> in_cooldown key now g"
  by (simp add: rests_def in_cooldown_def dict_get_default_get)

lemma drop_rests: "rests key u g \<Longrightarrow> now < u \<Longrightarrow> rests key u (drop_target now k g)"
  using rests_cooldown [of key u g now] by (cases "k = key") (auto simp: rests_def drop_target_def)

lemma outcome_rests: "rests key u g \<Longrightarrow> now < u \<Longrightarrow> rests key u (record_outcome now k ok g)"
  by (auto simp: record_outcome_def Let_def rests_def [symmetric] intro!: drop_rests) (simp_all add: rests_def)

lemma reprieve_cooldown: "manoeuvre_reprieve k lv sg now g = (g1, b) \<Longrightarrow> cooldown_until g1 = cooldown_until g"
  by (auto simp: manoeuvre_reprieve_def clear_manoeuvre_keep_def split: if_splits option.splits)

text \<open>The outcomes of looking at one key.\<close>

lemma consider_cases:
  assumes "consider_key conn learned now_s now k e g = (g1, t)"
  obtains (left_alone) "g1 = g" "t = None"
    | (steady) pos vel sg lv where "is_dark k" "\<not> in_cooldown k now g" "e_pos e = Some pos" "established now_s e"
        "learned k = Some (vel, sg, lv)" "sg \<le> DARK_FOLLOW_MAX_VEL_SIGMA_MS" "g1 = clear_manoeuvre_keep k g"
        "t = Some (new_follow_target conn k e pos vel sg)"
    | (reprieved) pos vel sg lv where "is_dark k" "\<not> in_cooldown k now g" "e_pos e = Some pos" "established now_s e"
        "learned k = Some (vel, sg, lv)" "sg > DARK_FOLLOW_MAX_VEL_SIGMA_MS" "manoeuvre_reprieve k lv sg now g = (g1, True)"
        "t = Some (new_follow_target conn k e pos vel sg)"
    | (dropped) vel sg lv g' where "is_dark k" "\<not> in_cooldown k now g" "learned k = Some (vel, sg, lv)" "sg > DARK_FOLLOW_MAX_VEL_SIGMA_MS"
        "manoeuvre_reprieve k lv sg now g = (g', False)" "g1 = drop_target now k g'" "t = None"
proof (cases "is_dark k \<and> \<not> in_cooldown k now g \<and> established now_s e")
  case False
  then have "g1 = g \<and> t = None"
    using assms by (auto simp: consider_key_def split: option.splits if_splits)
  then show ?thesis using left_alone by blast
next
  case True
  show ?thesis
  proof (cases "e_pos e")
    case None
    then show ?thesis using assms left_alone by (simp add: consider_key_def split: if_splits)
  next
    case (Some pos)
    show ?thesis
    proof (cases "learned k")
      case None
      then show ?thesis using assms left_alone Some True \<open>e_pos e = Some pos\<close> by (simp add: consider_key_def)
    next
      case (Some l)
      obtain vel sg lv where l: "l = (vel, sg, lv)" using prod_cases3 by blast
      obtain g' kept where r: "manoeuvre_reprieve k lv sg now g = (g', kept)" by fastforce
      have c: "(if sg > DARK_FOLLOW_MAX_VEL_SIGMA_MS then
            if kept then (g', Some (new_follow_target conn k e pos vel sg)) else (drop_target now k g', None)
          else (clear_manoeuvre_keep k g, Some (new_follow_target conn k e pos vel sg))) = (g1, t)"
        using assms True \<open>e_pos e = Some pos\<close> Some l r by (auto simp: consider_key_def Let_def split: if_splits)
      show ?thesis
        using c True \<open>e_pos e = Some pos\<close> Some l r steady reprieved dropped by (auto split: if_splits)
    qed
  qed
qed

lemma consider_rests:
  assumes "consider_key conn learned now_s now k e g = (g1, t)" and "rests key u g" and "now < u"
  shows "rests key u g1" and "t = Some x \<Longrightarrow> ft_key x \<noteq> key"
proof -
  have "k = key \<Longrightarrow> g1 = g \<and> t = None"
    using assms(1) rests_cooldown [OF assms(2,3)] by (simp add: consider_key_def)
  moreover have "rests key u g1 \<and> (\<forall>x. t = Some x \<longrightarrow> ft_key x = k)"
    using assms(1)
  proof (cases rule: consider_cases)
    case left_alone
    then show ?thesis using assms(2) by simp
  next
    case steady
    then show ?thesis using assms(2) by (simp add: rests_def clear_manoeuvre_keep_def new_follow_target_def)
  next
    case reprieved
    then show ?thesis using assms(2) reprieve_cooldown by (simp add: rests_def new_follow_target_def)
  next
    case dropped
    then show ?thesis using drop_rests [of key u _ now k] assms(2,3) reprieve_cooldown [OF dropped(5)] by (simp add: rests_def)
  qed
  ultimately show "rests key u g1" and "t = Some x \<Longrightarrow> ft_key x \<noteq> key" by auto
qed

lemma build_rests:
  assumes "build_targets conn learned now_s now tracks g = (g1, ts)" and "rests key u g" and "now < u"
  shows "rests key u g1 \<and> key \<notin> ft_key ` set ts"
  using assms
proof (induction tracks arbitrary: g g1 ts)
  case (Cons kv tracks)
  obtain k e where kv: "kv = (k, e)" by fastforce
  obtain g' t where c: "consider_key conn learned now_s now k e g = (g', t)" by fastforce
  obtain g2 ts2 where b: "build_targets conn learned now_s now tracks g' = (g2, ts2)" by fastforce
  note R = consider_rests [OF c Cons.prems(2,3)]
  have "rests key u g2 \<and> key \<notin> ft_key ` set ts2" using Cons.IH [OF b R(1) Cons.prems(3)] .
  then show ?case using Cons.prems(1) R(2) by (auto simp: kv c b split: option.splits)
qed simp

lemma sweep_rests: "rests key u g \<Longrightarrow> now < u \<Longrightarrow> rests key u (sweep_guard now g)"
  by (simp add: rests_def sweep_guard_def Let_def dict_filter_keeps)

definition resting :: "string \<Rightarrow> real \<Rightarrow> follow_state \<times> follow_log \<Rightarrow> bool" where
  "resting key t sl \<longleftrightarrow> (case sl of (s, l) \<Rightarrow> rests key (t + DARK_FOLLOW_COOLDOWN_S) (fguard s) \<and>
     (t < built_mono s \<longrightarrow> key \<notin> ft_key ` set (ftargets s)) \<and>
     (\<forall>(now, ts) \<in> set l. t + TARGETS_TTL_S \<le> now \<longrightarrow> key \<notin> ft_key ` set ts))"

lemma resting_step:
  assumes "resting key t (s, l)" and "event_ok t (t + DARK_FOLLOW_COOLDOWN_S) ev"
  shows "resting key t (follow_step ev (s, l))"
proof (cases ev)
  case (Verdict now k ok)
  then show ?thesis using assms outcome_rests by (auto simp: resting_def)
next
  case (Published k ts)
  then show ?thesis using assms(1) by (auto simp: resting_def rests_def note_follow_publish_def)
next
  case (Walk m conn learned now_s now tracks)
  have now: "now < t + DARK_FOLLOW_COOLDOWN_S" using assms(2) Walk by simp
  have r: "rests key (t + DARK_FOLLOW_COOLDOWN_S) (fguard s)" using assms(1) by (simp add: resting_def)
  consider (off) "m = FollowOff" | (cached) "m \<noteq> FollowOff" "built_mono s \<noteq> 0" "now - built_mono s < TARGETS_TTL_S"
    | (rebuilt) "m \<noteq> FollowOff" "\<not> (built_mono s \<noteq> 0 \<and> now - built_mono s < TARGETS_TTL_S)" by blast
  then show ?thesis
  proof cases
    case off
    then show ?thesis using assms(1) by (auto simp: Walk resting_def follow_targets_def)
  next
    case cached
    then show ?thesis using assms(1) by (auto simp: Walk resting_def follow_targets_def)
  next
    case rebuilt
    obtain g ts where b: "build_targets conn learned now_s now tracks (sweep_guard now (fguard s)) = (g, ts)" by fastforce
    from build_rests [OF b sweep_rests [OF r now] now]
    have "rests key (t + DARK_FOLLOW_COOLDOWN_S) g" "key \<notin> ft_key ` set ts" by auto
    then show ?thesis using assms(1) rebuilt by (auto simp: Walk resting_def follow_targets_def b)
  qed
qed

lemma resting_run:
  "resting key t sl \<Longrightarrow> list_all (event_ok t (t + DARK_FOLLOW_COOLDOWN_S)) evs \<Longrightarrow> resting key t (fold follow_step evs sl)"
proof (induction evs arbitrary: sl)
  case (Cons ev evs)
  then show ?case using resting_step by (cases sl) simp
qed simp

text \<open>C33:
  The ghost guard.  The second rejected follow-solve in a row rests its key: whatever is judged,
  published and walked in the next thirty seconds, the key is offered to no claiming pass, but for
  the second in which a list built before the verdict may still be served.
\<close>
theorem second_reject_rests_key:
  assumes "dict_get (reject_streak (fguard s)) key = Some 1" and "\<not> in_cooldown key t (fguard s)" and "built_mono s \<le> t"
    and "list_all (event_ok t (t + 30)) evs"
    and "fold follow_step (Verdict t key False # evs) (s, []) = (s', offered)"
  shows "\<forall>(now, ts) \<in> set offered. t + 1 \<le> now \<longrightarrow> key \<notin> ft_key ` set ts"
proof -
  have "rests key (t + DARK_FOLLOW_COOLDOWN_S) (record_outcome t key False (fguard s))"
    using assms(1,2) by (simp add: record_outcome_def rests_def drop_target_def in_cooldown_def MAX_CONSECUTIVE_REJECTS_def
        dict_get_default_get Let_def)
  then have "resting key t (follow_step (Verdict t key False) (s, []))" using assms(3) by (simp add: resting_def)
  from resting_run [OF this, of evs] assms(4,5) have "resting key t (s', offered)"
    unfolding DARK_FOLLOW_COOLDOWN_S_def by (simp del: follow_step.simps)
  then show ?thesis by (simp add: resting_def TARGETS_TTL_S_def)
qed

subsection \<open>What is offered, and how wide it may claim\<close>

lemma reprieve_True: "manoeuvre_reprieve k lv sg now g = (g1, True) \<Longrightarrow>
    DARK_FOLLOW_MANOEUVRE_KEEP \<le> lv \<and> sg \<le> DARK_FOLLOW_MANOEUVRE_MAX_VEL_SIGMA_MS"
  by (auto simp: manoeuvre_reprieve_def split: if_splits)

lemma build_mem:
  assumes "build_targets conn learned now_s now tracks g = (g1, ts)" and "x \<in> set ts"
  shows "\<exists>k e g' g''. (k, e) \<in> set tracks \<and> consider_key conn learned now_s now k e g' = (g'', Some x)"
  using assms
proof (induction tracks arbitrary: g g1 ts)
  case (Cons kv tracks)
  obtain k e where kv: "kv = (k, e)" by fastforce
  obtain g' t where c: "consider_key conn learned now_s now k e g = (g', t)" by fastforce
  obtain g2 ts2 where b: "build_targets conn learned now_s now tracks g' = (g2, ts2)" by fastforce
  consider "t = Some x" | "x \<in> set ts2" using Cons.prems by (auto simp: kv c b split: option.splits)
  then show ?case
  proof cases
    case 1
    then show ?thesis using c kv by auto
  next
    case 2
    then show ?thesis using Cons.IH [OF b] by auto
  qed
qed simp

text \<open>What the lane may follow and how far it may claim.  A target is a dark key with a position, solved
  at most twenty seconds ago, at least three times and once by three nodes, whose filter has a state;
  over the sigma ceiling it is offered only in a manoeuvre the filter confirms and never past the
  hard ceiling.  Its claim gates stay under the hard caps, and are those of a target at the ordinary
  ceiling however large the sigma a reprieved key carries.
\<close>
theorem follow_targets_are_established:
  assumes "build_targets conn learned now_s now tracks g = (g', ts)" and "x \<in> set ts"
  shows "(\<exists>e lv. (ft_key x, e) \<in> set tracks \<and> is_dark (ft_key x) \<and> e_pos e = Some (ft_pos x) \<and>
      0 \<le> now_s - entry_time_s e \<and> now_s - entry_time_s e \<le> 20 \<and> 3 \<le> e_solves e \<and> 3 \<le> max (e_max_nodes e) (e_nodes e) \<and>
      learned (ft_key x) = Some (ft_vel x, ft_vel_sigma x, lv) \<and>
      (ft_vel_sigma x \<le> 115 \<or> 3 / 10 \<le> lv \<and> ft_vel_sigma x \<le> 600)) \<and>
    fst (follow_gates max_age x dt d f fc) \<le> 40 \<and> snd (follow_gates max_age x dt d f fc) \<le> 100 \<and>
    follow_gates max_age x dt d f fc = follow_gates max_age (x\<lparr>ft_vel_sigma := min (ft_vel_sigma x) 115\<rparr>) dt d f fc"
proof -
  obtain k e g0 g1 where mem: "(k, e) \<in> set tracks" and c: "consider_key conn learned now_s now k e g0 = (g1, Some x)"
    using build_mem [OF assms] by blast
  have "\<exists>pos vel sg lv. is_dark k \<and> e_pos e = Some pos \<and> established now_s e \<and> learned k = Some (vel, sg, lv) \<and>
      (sg \<le> DARK_FOLLOW_MAX_VEL_SIGMA_MS \<or> DARK_FOLLOW_MANOEUVRE_KEEP \<le> lv \<and> sg \<le> DARK_FOLLOW_MANOEUVRE_MAX_VEL_SIGMA_MS) \<and>
      x = new_follow_target conn k e pos vel sg"
    using c
  proof (cases rule: consider_cases)
    case reprieved
    then show ?thesis using reprieve_True by blast
  qed auto
  then have "\<exists>e lv. (ft_key x, e) \<in> set tracks \<and> is_dark (ft_key x) \<and> e_pos e = Some (ft_pos x) \<and>
      0 \<le> now_s - entry_time_s e \<and> now_s - entry_time_s e \<le> 20 \<and> 3 \<le> e_solves e \<and> 3 \<le> max (e_max_nodes e) (e_nodes e) \<and>
      learned (ft_key x) = Some (ft_vel x, ft_vel_sigma x, lv) \<and> (ft_vel_sigma x \<le> 115 \<or> 3 / 10 \<le> lv \<and> ft_vel_sigma x \<le> 600)"
    using mem by (auto simp: established_def new_follow_target_def DARK_FOLLOW_MAX_AGE_S_def DARK_FOLLOW_MIN_SOLVES_def
        DARK_FOLLOW_MIN_NODES_def DARK_FOLLOW_MAX_VEL_SIGMA_MS_def DARK_FOLLOW_MANOEUVRE_KEEP_def
        DARK_FOLLOW_MANOEUVRE_MAX_VEL_SIGMA_MS_def)
  moreover have "fst (follow_gates max_age x dt d f fc) \<le> 40" "snd (follow_gates max_age x dt d f fc) \<le> 100"
    by (simp_all add: follow_gates_def Let_def MAX_DELAY_GATE_US_def MAX_DOPPLER_GATE_HZ_def)
  moreover have "follow_gates max_age x dt d f fc = follow_gates max_age (x\<lparr>ft_vel_sigma := min (ft_vel_sigma x) 115\<rparr>) dt d f fc"
    by (simp add: follow_gates_def Let_def DARK_FOLLOW_GATE_VEL_SIGMA_CAP_MS_def min_def)
  ultimately show ?thesis by blast
qed

subsection \<open>A manoeuvre is reprieved once\<close>

definition spending :: "string \<Rightarrow> real \<Rightarrow> follow_guard \<Rightarrow> bool" where
  "spending key t0 g \<longleftrightarrow> dict_get (keep_since g) key = Some t0"

text \<open>The key is over the ceiling and manoeuvring at every pass.\<close>

definition turning :: "string \<Rightarrow> learned_state \<Rightarrow> bool" where
  "turning key learned \<longleftrightarrow> (case learned key of None \<Rightarrow> False
     | Some (vel, sg, lv) \<Rightarrow> DARK_FOLLOW_MAX_VEL_SIGMA_MS < sg \<and> DARK_FOLLOW_MANOEUVRE_KEEP \<le> lv)"

fun event_turning :: "string \<Rightarrow> follow_event \<Rightarrow> bool" where
  "event_turning key (Walk _ _ learned _ _ _) = turning key learned"
| "event_turning key _ = True"

lemma drop_spending: "spending key t0 (drop_target now k g) \<longleftrightarrow> spending key t0 g"
  by (simp add: drop_target_def spending_def)

lemma outcome_spending: "spending key t0 (record_outcome now k ok g) \<longleftrightarrow> spending key t0 g"
  by (simp add: record_outcome_def drop_target_def spending_def Let_def)

lemma sweep_spending: "spending key t0 g \<Longrightarrow> now < t0 + MANOEUVRE_KEEP_TTL_S \<Longrightarrow> spending key t0 (sweep_guard now g)"
  by (simp add: spending_def sweep_guard_def Let_def dict_filter_keeps)

lemma reprieve_spending:
  assumes "manoeuvre_reprieve k lv sg now g = (g1, b)" and "spending key t0 g" and "k = key \<Longrightarrow> DARK_FOLLOW_MANOEUVRE_KEEP \<le> lv"
  shows "spending key t0 g1" and "k = key \<Longrightarrow> b \<Longrightarrow> now \<le> t0 + DARK_FOLLOW_MANOEUVRE_KEEP_MAX_S"
  using assms by (auto simp: manoeuvre_reprieve_def clear_manoeuvre_keep_def spending_def split: if_splits option.splits)

lemma consider_spending:
  assumes "consider_key conn learned now_s now k e g = (g1, t)" and "spending key t0 g" and "turning key learned"
  shows "spending key t0 g1" and "t = Some x \<Longrightarrow> ft_key x = key \<Longrightarrow> now \<le> t0 + DARK_FOLLOW_MANOEUVRE_KEEP_MAX_S"
proof -
  have "spending key t0 g1 \<and> (\<forall>x. t = Some x \<and> ft_key x = key \<longrightarrow> now \<le> t0 + DARK_FOLLOW_MANOEUVRE_KEEP_MAX_S)"
    using assms(1)
  proof (cases rule: consider_cases)
    case left_alone
    then show ?thesis using assms(2) by simp
  next
    case steady
    then have "k \<noteq> key" using assms(3) by (auto simp: turning_def)
    then show ?thesis using steady assms(2) by (simp add: spending_def clear_manoeuvre_keep_def new_follow_target_def)
  next
    case (reprieved pos vel sg lv)
    have lv: "k = key \<Longrightarrow> DARK_FOLLOW_MANOEUVRE_KEEP \<le> lv" using assms(3) reprieved(5) by (auto simp: turning_def)
    show ?thesis using reprieve_spending [OF reprieved(7) assms(2) lv] reprieved(8) by (auto simp: new_follow_target_def)
  next
    case (dropped vel sg lv g')
    have lv: "k = key \<Longrightarrow> DARK_FOLLOW_MANOEUVRE_KEEP \<le> lv" using assms(3) dropped(3) by (auto simp: turning_def)
    show ?thesis using reprieve_spending(1) [OF dropped(5) assms(2) lv] dropped(6,7) by (simp add: drop_spending)
  qed
  then show "spending key t0 g1" and "t = Some x \<Longrightarrow> ft_key x = key \<Longrightarrow> now \<le> t0 + DARK_FOLLOW_MANOEUVRE_KEEP_MAX_S" by auto
qed

lemma build_spending:
  assumes "build_targets conn learned now_s now tracks g = (g1, ts)" and "spending key t0 g" and "turning key learned"
  shows "spending key t0 g1 \<and> (key \<in> ft_key ` set ts \<longrightarrow> now \<le> t0 + DARK_FOLLOW_MANOEUVRE_KEEP_MAX_S)"
  using assms
proof (induction tracks arbitrary: g g1 ts)
  case (Cons kv tracks)
  obtain k e where kv: "kv = (k, e)" by fastforce
  obtain g' t where c: "consider_key conn learned now_s now k e g = (g', t)" by fastforce
  obtain g2 ts2 where b: "build_targets conn learned now_s now tracks g' = (g2, ts2)" by fastforce
  note C = consider_spending [OF c Cons.prems(2,3)]
  show ?case using Cons.prems(1) C(2) Cons.IH [OF b C(1) Cons.prems(3)] by (auto simp: kv c b split: option.splits)
qed simp

definition spent :: "string \<Rightarrow> real \<Rightarrow> follow_state \<times> follow_log \<Rightarrow> bool" where
  "spent key t0 sl \<longleftrightarrow> (case sl of (s, l) \<Rightarrow> spending key t0 (fguard s) \<and>
     (key \<in> ft_key ` set (ftargets s) \<longrightarrow> built_mono s \<le> t0 + DARK_FOLLOW_MANOEUVRE_KEEP_MAX_S) \<and>
     (\<forall>(now, ts) \<in> set l. key \<in> ft_key ` set ts \<longrightarrow> now < t0 + DARK_FOLLOW_MANOEUVRE_KEEP_MAX_S + TARGETS_TTL_S))"

lemma spent_step:
  assumes "spent key t0 (s, l)" and "event_ok t0 (t0 + MANOEUVRE_KEEP_TTL_S) ev" and "event_turning key ev"
  shows "spent key t0 (follow_step ev (s, l))"
proof (cases ev)
  case (Verdict now k ok)
  then show ?thesis using assms(1) by (simp add: spent_def outcome_spending)
next
  case (Published k ts)
  then show ?thesis using assms(1) by (auto simp: spent_def spending_def note_follow_publish_def)
next
  case (Walk m conn learned now_s now tracks)
  have now: "now < t0 + MANOEUVRE_KEEP_TTL_S" and turn: "turning key learned" using assms(2,3) Walk by simp_all
  have sp: "spending key t0 (fguard s)" using assms(1) by (simp add: spent_def)
  consider (off) "m = FollowOff" | (cached) "m \<noteq> FollowOff" "built_mono s \<noteq> 0" "now - built_mono s < TARGETS_TTL_S"
    | (rebuilt) "m \<noteq> FollowOff" "\<not> (built_mono s \<noteq> 0 \<and> now - built_mono s < TARGETS_TTL_S)" by blast
  then show ?thesis
  proof cases
    case off
    then show ?thesis using assms(1) by (auto simp: Walk spent_def follow_targets_def)
  next
    case cached
    then show ?thesis using assms(1) by (auto simp: Walk spent_def follow_targets_def)
  next
    case rebuilt
    obtain g ts where b: "build_targets conn learned now_s now tracks (sweep_guard now (fguard s)) = (g, ts)" by fastforce
    from build_spending [OF b sweep_spending [OF sp now] turn]
    show ?thesis using assms(1) rebuilt by (auto simp: Walk spent_def follow_targets_def b TARGETS_TTL_S_def)
  qed
qed

lemma spent_run:
  "spent key t0 sl \<Longrightarrow> list_all (event_ok t0 (t0 + MANOEUVRE_KEEP_TTL_S)) evs \<Longrightarrow> list_all (event_turning key) evs \<Longrightarrow>
    spent key t0 (fold follow_step evs sl)"
proof (induction evs arbitrary: sl)
  case (Cons ev evs)
  then show ?case using spent_step by (cases sl) simp
qed simp

text \<open>A reprieve is spent once.  While a key stays over the ceiling and manoeuvring it is offered for
  thirty seconds from the start of its episode, and for the second a list is served; no drop,
  cooldown or re-admission in the first five minutes gives it a second reprieve.
\<close>
theorem reprieve_is_spent_once:
  assumes "dict_get (keep_since (fguard s)) key = Some t0" and "built_mono s \<le> t0"
    and "list_all (event_ok t0 (t0 + 300)) evs" and "list_all (event_turning key) evs"
    and "fold follow_step evs (s, []) = (s', offered)"
  shows "\<forall>(now, ts) \<in> set offered. key \<in> ft_key ` set ts \<longrightarrow> now < t0 + 31"
proof -
  have "spent key t0 (s, [])" using assms(1,2) by (simp add: spent_def spending_def DARK_FOLLOW_MANOEUVRE_KEEP_MAX_S_def)
  from spent_run [OF this] assms(3,4,5) have "spent key t0 (s', offered)" unfolding MANOEUVRE_KEEP_TTL_S_def by metis
  moreover have "t0 + DARK_FOLLOW_MANOEUVRE_KEEP_MAX_S + TARGETS_TTL_S = t0 + 31"
    by (simp add: DARK_FOLLOW_MANOEUVRE_KEEP_MAX_S_def TARGETS_TTL_S_def)
  ultimately show ?thesis by (simp add: spent_def)
qed

text \<open>
  After those five minutes the sweep forgets the episode by its start, though the key was tested at
  every pass, and the same manoeuvre is reprieved again.
\<close>

lemma spent_reprieve_returns:
  assumes "dict_ok (keep_since g)" and "spending key t0 g" and "t0 + MANOEUVRE_KEEP_TTL_S \<le> now"
    and "DARK_FOLLOW_MANOEUVRE_KEEP \<le> lv" and "sg \<le> DARK_FOLLOW_MANOEUVRE_MAX_VEL_SIGMA_MS"
  shows "snd (manoeuvre_reprieve key lv sg now g) = False \<and> snd (manoeuvre_reprieve key lv sg now (sweep_guard now g)) = True"
  using assms
  by (auto simp: manoeuvre_reprieve_def spending_def sweep_guard_def Let_def dict_get_filter MANOEUVRE_KEEP_TTL_S_def
      DARK_FOLLOW_MANOEUVRE_KEEP_MAX_S_def)

subsection \<open>Witnesses\<close>

definition sample_mn :: mn_entry where
  "sample_mn = \<lparr>e_pos = Some (40, -74), e_time_ms = 1000000, e_vel = (100, 0), e_alt = Some 3000, e_nodes = 3, e_max_nodes = 4,
     e_solves = 5, e_kf_sigma_m = Some 500, e_sigma_km = None, e_contributors = [''synth-1''], e_sources = [''t1'', ''t2''],
     e_recent = [(''t1'', 999)], e_anomalous = False, e_types = [], e_predecessor = None\<rparr>"

definition sample_turn :: learned_state where
  "sample_turn = (\<lambda>_. Some ((100, 0), 300, 1))"

definition sample_guard :: follow_guard where
  "sample_guard = \<lparr>reject_streak = [(''mn-dark-1'', 1)], cooldown_until = [], keep_since = [(''mn-dark-1'', 50)], followed_at = []\<rparr>"

definition sample_follow :: follow_state where
  "sample_follow = \<lparr>fguard = sample_guard, ftargets = [], built_mono = 0\<rparr>"

definition sample_walk :: "real \<Rightarrow> follow_event" where
  "sample_walk now = Walk FollowBinding [] sample_turn 1001 now [(''mn-dark-1'', sample_mn)]"

lemmas sample_simps = sample_follow_def sample_guard_def sample_walk_def sample_turn_def sample_mn_def follow_targets_def
  consider_key_def established_def entry_time_s_def in_cooldown_def manoeuvre_reprieve_def sweep_guard_def is_dark_def MN_DARK_PREFIX_def
  dict_filter_def dict_get_default_def dict_get_def Let_def new_follow_target_def
  DARK_FOLLOW_MAX_AGE_S_def DARK_FOLLOW_MIN_SOLVES_def DARK_FOLLOW_MIN_NODES_def DARK_FOLLOW_MAX_VEL_SIGMA_MS_def
  DARK_FOLLOW_MANOEUVRE_KEEP_def DARK_FOLLOW_MANOEUVRE_MAX_VEL_SIGMA_MS_def MANOEUVRE_KEEP_TTL_S_def DARK_FOLLOW_MANOEUVRE_KEEP_MAX_S_def

lemma sample_offer:
  "build_targets [] sample_turn 1001 60 [(''mn-dark-1'', sample_mn)] sample_guard =
     (sample_guard, [new_follow_target [] ''mn-dark-1'' sample_mn (40, -74) (100, 0) 300])"
  by (simp add: sample_simps)

theorem follow_targets_are_established_witness:
  "snd (follow_gates 45 (new_follow_target [] ''mn-dark-1'' sample_mn (40, -74) (100, 0) 300) 2 3 25 195000000) \<le> 100"
proof -
  have "new_follow_target [] ''mn-dark-1'' sample_mn (40, -74) (100, 0) 300 \<in>
      set [new_follow_target [] ''mn-dark-1'' sample_mn (40, -74) (100, 0) 300]" by simp
  from follow_targets_are_established [OF sample_offer this] show ?thesis by blast
qed

text \<open>Ten seconds into its episode the key is offered; after a rejected solve, it is not.\<close>

theorem reprieve_is_spent_once_witness:
  "\<exists>s' ts. fold follow_step [sample_walk 60] (sample_follow, []) = (s', [(60, ts)]) \<and> ''mn-dark-1'' \<in> ft_key ` set ts \<and> (60::real) < 50 + 31"
proof -
  obtain s' ts where run: "fold follow_step [sample_walk 60] (sample_follow, []) = (s', [(60, ts)])" "''mn-dark-1'' \<in> ft_key ` set ts"
    by (simp add: sample_simps)
  have "list_all (event_ok 50 (50 + 300)) [sample_walk 60]" "list_all (event_turning ''mn-dark-1'') [sample_walk 60]"
    by (simp_all add: sample_walk_def sample_turn_def turning_def DARK_FOLLOW_MAX_VEL_SIGMA_MS_def DARK_FOLLOW_MANOEUVRE_KEEP_def)
  moreover have "dict_get (keep_since (fguard sample_follow)) ''mn-dark-1'' = Some 50" "built_mono sample_follow \<le> 50"
    by (simp_all add: sample_follow_def sample_guard_def dict_get_def)
  ultimately show ?thesis using reprieve_is_spent_once [OF _ _ _ _ run(1), of "''mn-dark-1''" 50] run by auto
qed

theorem second_reject_rests_key_witness:
  "\<exists>s' ts. fold follow_step [Verdict 60 ''mn-dark-1'' False, sample_walk 62] (sample_follow, []) = (s', [(62, ts)]) \<and>
     ''mn-dark-1'' \<notin> ft_key ` set ts"
proof -
  let ?s = "sample_follow\<lparr>fguard := record_outcome 60 ''mn-dark-1'' False (fguard sample_follow)\<rparr>"
  obtain s' ts where "follow_targets FollowBinding [] sample_turn 1001 62 [(''mn-dark-1'', sample_mn)] ?s = (s', ts)" by fastforce
  then have run: "fold follow_step [Verdict 60 ''mn-dark-1'' False, sample_walk 62] (sample_follow, []) = (s', [(62, ts)])"
    by (simp add: sample_walk_def)
  have "dict_get (reject_streak (fguard sample_follow)) ''mn-dark-1'' = Some 1" "\<not> in_cooldown ''mn-dark-1'' 60 (fguard sample_follow)"
    "built_mono sample_follow \<le> 60" "list_all (event_ok 60 (60 + 30)) [sample_walk 62]"
    by (simp_all add: sample_follow_def sample_guard_def sample_walk_def dict_get_def in_cooldown_def dict_get_default_def)
  from second_reject_rests_key [OF this run] run show ?thesis by auto
qed

end
