(* ===== verification/TrackFilter.thy ===== *)
theory TrackFilter
  imports Covariance DarkFollow
begin

text \<open>
  The Kalman filter behind the published position of a multinode track
  (\<open>services/track_filter.py\<close>): one entry per track key, a state of east and north position
  and velocity in a frame fixed at the entry's first solve, and the gate, the manoeuvre retry
  and the re-anchoring that decide what a solve does to it.  Settings are the defaults of their
  environment variables.  Positions are exact reals; the geodesy and the age limit of a
  transponder fix are retina-analytics' and are fields of \<open>geodesy\<close>.
\<close>

subsection \<open>Settings\<close>

definition KF_SIGMA_A_MS2 :: real where "KF_SIGMA_A_MS2 = 3 / 2"
definition KF_SIGMA_A_MANOEUVRE_MS2 :: real where "KF_SIGMA_A_MANOEUVRE_MS2 = 800"
definition KF_MANOEUVRE_D2 :: real where "KF_MANOEUVRE_D2 = 2"
definition KF_MANOEUVRE_TAU_S :: real where "KF_MANOEUVRE_TAU_S = 15"
definition KF_DEFAULT_POS_SIGMA_M :: real where "KF_DEFAULT_POS_SIGMA_M = 1200"
definition KF_N2_POS_SIGMA_M :: real where "KF_N2_POS_SIGMA_M = 2500"
definition KF_R_INFLATE :: real where "KF_R_INFLATE = 4"
definition KF_MIN_POS_SIGMA_M :: real where "KF_MIN_POS_SIGMA_M = 500"
definition KF_MAX_POS_SIGMA_M :: real where "KF_MAX_POS_SIGMA_M = 8000"
definition KF_VEL_SIGMA_ADSB_MS :: real where "KF_VEL_SIGMA_ADSB_MS = 5"
definition KF_VEL_SIGMA_SOLVE_MS :: real where "KF_VEL_SIGMA_SOLVE_MS = 150"
definition KF_MAX_GAP_S :: real where "KF_MAX_GAP_S = 160"
definition KF_GATE_CHI2 :: real where "KF_GATE_CHI2 = 138 / 10"
definition KF_TTL_S :: real where "KF_TTL_S = 600"

type_synonym place = "real \<times> real"

record geodesy =
  haversine :: "place \<Rightarrow> place \<Rightarrow> real"
  offset :: "place \<Rightarrow> real \<Rightarrow> real \<Rightarrow> place"
  m_per_deg_lat :: real
  km_per_deg_lon :: "real \<Rightarrow> real"
  seed_max_age_s :: real

text \<open>\<open>round(x, k)\<close>, halves to even.\<close>

definition round_half_even :: "real \<Rightarrow> int" where
  "round_half_even y =
     (let n = \<lfloor>y\<rfloor>; d = y - of_int n in if d < 1 / 2 \<or> (d = 1 / 2 \<and> even n) then n else n + 1)"

definition round_to :: "nat \<Rightarrow> real \<Rightarrow> real" where
  "round_to k x = of_int (round_half_even (x * 10 ^ k)) / 10 ^ k"

subsection \<open>Entries\<close>

record track_kf =
  kf_ref :: place
  kf_x :: vec
  kf_p :: mat
  kf_last_s :: real
  kf_manoeuvre :: real

datatype kf_action = KfInit | KfSmoothed | KfRescued | KfReanchored | KfHeld

record kf_stamp =
  st_action :: kf_action
  st_d2 :: "real option"
  st_innov_m :: "real option"

record kf_counts =
  n_init :: nat
  n_gap_reinit :: nat
  n_passthrough :: nat
  n_smoothed :: nat
  n_reanchors :: nat
  n_rescues :: nat

record kf_store =
  kf_tracks :: "(string, track_kf) dict"
  kf_last_sweep :: real
  kf_counts :: kf_counts

definition boot_kf :: kf_store where
  "boot_kf = \<lparr>kf_tracks = [], kf_last_sweep = 0,
     kf_counts = \<lparr>n_init = 0, n_gap_reinit = 0, n_passthrough = 0, n_smoothed = 0, n_reanchors = 0, n_rescues = 0\<rparr>\<rparr>"

definition H_POS :: mat where
  "H_POS = (\<lambda>i j. if (i = 0 \<and> j = 0) \<or> (i = 1 \<and> j = 2) then 1 else 0)"

definition H_VEL :: mat where
  "H_VEL = (\<lambda>i j. if (i = 0 \<and> j = 1) \<or> (i = 1 \<and> j = 3) then 1 else 0)"

text \<open>What the other components ask a key's entry.\<close>

definition drop_key :: "string \<Rightarrow> kf_store \<Rightarrow> kf_store" where
  "drop_key key s = s\<lparr>kf_tracks := dict_del (kf_tracks s) key\<rparr>"

definition vel_sigma :: "track_kf \<Rightarrow> real" where
  "vel_sigma e = sqrt (max 0 (1 / 2 * (kf_p e 1 1 + kf_p e 3 3)))"

definition learned_velocity :: "kf_store \<Rightarrow> string \<Rightarrow> (real \<times> real) option" where
  "learned_velocity s key = map_option (\<lambda>e. (kf_x e 1, kf_x e 3)) (dict_get (kf_tracks s) key)"

definition manoeuvre_level :: "kf_store \<Rightarrow> string \<Rightarrow> real option" where
  "manoeuvre_level s key = map_option kf_manoeuvre (dict_get (kf_tracks s) key)"

definition learned_velocity_manoeuvre :: "kf_store \<Rightarrow> learned_state" where
  "learned_velocity_manoeuvre s key =
     map_option (\<lambda>e. ((kf_x e 1, kf_x e 3), vel_sigma e, kf_manoeuvre e)) (dict_get (kf_tracks s) key)"

definition kf_sweep :: "real \<Rightarrow> kf_store \<Rightarrow> kf_store" where
  "kf_sweep now s =
     (if now - kf_last_sweep s < KF_TTL_S / 10 then s
      else s\<lparr>kf_last_sweep := now, kf_tracks := dict_filter (\<lambda>_ e. \<not> now - kf_last_s e > KF_TTL_S) (kf_tracks s)\<rparr>)"

subsection \<open>The frame and the process noise\<close>

definition enu_offset_m :: "geodesy \<Rightarrow> place \<Rightarrow> place \<Rightarrow> real \<times> real" where
  "enu_offset_m g ref p = ((snd p - snd ref) * km_per_deg_lon g (fst ref) * 1000, (fst p - fst ref) * m_per_deg_lat g)"

definition entry_sigma_a :: "track_kf \<Rightarrow> real" where
  "entry_sigma_a e =
     (if KF_SIGMA_A_MANOEUVRE_MS2 \<le> KF_SIGMA_A_MS2 \<or> KF_MANOEUVRE_D2 \<le> 0 then KF_SIGMA_A_MS2
      else KF_SIGMA_A_MS2 + kf_manoeuvre e * (KF_SIGMA_A_MANOEUVRE_MS2 - KF_SIGMA_A_MS2))"

definition update_manoeuvre :: "real \<Rightarrow> real \<Rightarrow> real \<Rightarrow> real" where
  "update_manoeuvre m dt d2 =
     (let decayed = (if KF_MANOEUVRE_TAU_S > 0 then m * exp (- dt / KF_MANOEUVRE_TAU_S) else 0);
          trigger = (if KF_MANOEUVRE_D2 > 0 \<and> d2 > KF_MANOEUVRE_D2 then min 1 ((d2 - KF_MANOEUVRE_D2) / KF_MANOEUVRE_D2) else 0)
      in max decayed trigger)"

definition transition :: "real \<Rightarrow> mat" where
  "transition dt = (\<lambda>i j. if i = j then 1 else if (i = 0 \<and> j = 1) \<or> (i = 2 \<and> j = 3) then dt else 0)"

definition process_noise :: "real \<Rightarrow> real \<Rightarrow> mat" where
  "process_noise dt sigma_a =
     (\<lambda>i j. sigma_a *
        (if (i = 0 \<and> j = 0) \<or> (i = 2 \<and> j = 2) then dt ^ 3 / 3
         else if (i = 0 \<and> j = 1) \<or> (i = 1 \<and> j = 0) \<or> (i = 2 \<and> j = 3) \<or> (i = 3 \<and> j = 2) then dt ^ 2 / 2
         else if (i = 1 \<and> j = 1) \<or> (i = 3 \<and> j = 3) then dt else 0))"

subsection \<open>The correction\<close>

text \<open>
  The new state, its covariance, the innovation and the inverse of its covariance; no value
  where numpy raises on a singular one.
\<close>

definition kf_correct :: "vec \<Rightarrow> mat \<Rightarrow> vec \<Rightarrow> mat \<Rightarrow> mat \<Rightarrow> (vec \<times> mat \<times> vec \<times> mat) option" where
  "kf_correct x p z h r =
     (let y = (\<lambda>i. z i - mvec 4 h x i); s = innovation_cov p h r
      in case inv2 s of
           None \<Rightarrow> None
         | Some si \<Rightarrow>
             (let k = mmul 2 (mmul 4 p (mtransp h)) si
              in Some (\<lambda>i. x i + mvec 2 k y i, symmetrized (joseph p h r k), y, si)))"

definition base_pos_sigma_m :: "int \<Rightarrow> bool \<Rightarrow> real" where
  "base_pos_sigma_m n_nodes has_transponder =
     (if n_nodes \<noteq> 2 \<or> has_transponder then KF_DEFAULT_POS_SIGMA_M else KF_N2_POS_SIGMA_M)"

text \<open>\<open>cov\<close> is the solve's covariance in square kilometres, where it is a finite 2x2 array.\<close>

definition solve_noise :: "real \<Rightarrow> mat option \<Rightarrow> mat" where
  "solve_noise sigma cov =
     (let base = mscale (sigma ^ 2) eye
      in case cov of
           None \<Rightarrow> base
         | Some c \<Rightarrow> (let a = symmetrized (mscale (10 ^ 6) c) in
             if a 0 0 > 0 \<and> a 1 1 > 0 \<and> det2 a \<ge> 0 then madd (mscale (KF_R_INFLATE ^ 2) a) base else base))"

definition measurement_R :: "int \<Rightarrow> bool \<Rightarrow> mat option \<Rightarrow> mat" where
  "measurement_R n_nodes has_transponder cov =
     (let r = solve_noise (base_pos_sigma_m n_nodes has_transponder) cov;
          s = sqrt (1 / 2 * (r 0 0 + r 1 1))
      in if s < KF_MIN_POS_SIGMA_M then mscale ((KF_MIN_POS_SIGMA_M / s) ^ 2) r
         else if s > KF_MAX_POS_SIGMA_M then mscale ((KF_MAX_POS_SIGMA_M / s) ^ 2) r
         else r)"

definition init_entry :: "place \<Rightarrow> real \<Rightarrow> (real \<times> real) option \<Rightarrow> real \<times> real \<Rightarrow> mat \<Rightarrow> track_kf" where
  "init_entry pos ts adsb_vel vel r =
     (let v = (case adsb_vel of Some a \<Rightarrow> a | None \<Rightarrow> vel);
          p_vel = (case adsb_vel of Some _ \<Rightarrow> KF_VEL_SIGMA_ADSB_MS ^ 2 | None \<Rightarrow> KF_VEL_SIGMA_SOLVE_MS ^ 2)
      in \<lparr>kf_ref = pos, kf_x = (\<lambda>i. if i = 1 then fst v else if i = 3 then snd v else 0),
          kf_p = (\<lambda>i j. if i = 0 \<and> j = 0 then r 0 0 else if i = 0 \<and> j = 2 then r 0 1
                        else if i = 2 \<and> j = 0 then r 1 0 else if i = 2 \<and> j = 2 then r 1 1
                        else if (i = 1 \<and> j = 1) \<or> (i = 3 \<and> j = 3) then p_vel else 0),
          kf_last_s = ts, kf_manoeuvre = 0\<rparr>)"

definition predict_update :: "track_kf \<Rightarrow> real \<Rightarrow> vec \<Rightarrow> mat \<Rightarrow> real \<Rightarrow> (vec \<times> mat \<times> real \<times> real) option" where
  "predict_update e dt z r sigma_a =
     (let f = transition dt;
          x_pred = mvec 4 f (kf_x e);
          p_pred = symmetrized (madd (mmul 4 f (mmul 4 (kf_p e) (mtransp f))) (process_noise dt sigma_a))
      in map_option (\<lambda>(x, p, y, si). (x, p, inner 2 y (mvec 2 si y), sqrt (y 0 ^ 2 + y 1 ^ 2)))
           (kf_correct x_pred p_pred z H_POS r))"

subsection \<open>Smoothing a solve\<close>

definition pos_sigma :: "track_kf \<Rightarrow> real" where
  "pos_sigma e = sqrt (max 0 (1 / 2 * (kf_p e 0 0 + kf_p e 2 2)))"

definition posterior_place :: "geodesy \<Rightarrow> track_kf \<Rightarrow> place" where
  "posterior_place g e = offset g (kf_ref e) (kf_x e 0) (kf_x e 2)"

text \<open>The filter's own position and sigma, written over a copy of the solve.\<close>

definition filtered :: "geodesy \<Rightarrow> track_kf \<Rightarrow> mn_entry \<Rightarrow> mn_entry" where
  "filtered g e result =
     (let p = posterior_place g e
      in result\<lparr>e_pos := Some (round_to 6 (fst p), round_to 6 (snd p)), e_kf_sigma_m := Some (round_to 1 (pos_sigma e))\<rparr>)"

definition no_stamp :: "kf_action \<Rightarrow> kf_stamp" where
  "no_stamp a = \<lparr>st_action = a, st_d2 = None, st_innov_m = None\<rparr>"

definition stamp :: "kf_action \<Rightarrow> real \<Rightarrow> real \<Rightarrow> kf_stamp" where
  "stamp a d2 innov = \<lparr>st_action = a, st_d2 = Some (round_to 2 d2), st_innov_m = Some (round_to 1 innov)\<rparr>"

text \<open>What the transponder says of the aircraft, and the velocity it is good for.\<close>

record adsb_fix =
  a_ground_knots :: real
  a_track_deg :: real
  a_fix_ms :: int
  a_seen_ms :: int

definition adsb_velocity :: "geodesy \<Rightarrow> (string, adsb_fix) dict \<Rightarrow> string option \<Rightarrow> int \<Rightarrow> (real \<times> real) option" where
  "adsb_velocity g aircraft hex now_ms =
     (case (case hex of None \<Rightarrow> None | Some h \<Rightarrow> if h = [] then None else dict_get aircraft h) of
        None \<Rightarrow> None
      | Some a \<Rightarrow>
          (let fix_ms = (if a_fix_ms a \<noteq> 0 then a_fix_ms a else a_seen_ms a)
           in if fix_ms \<noteq> 0 \<and> real_of_int (now_ms - fix_ms) / 1000 > seed_max_age_s g then None
              else (let v = a_ground_knots a * (514444 / 1000000); d = a_track_deg a * pi / 180
                    in Some (v * sin d, v * cos d))))"

record solve_input =
  si_result :: mn_entry
  si_pos :: place
  si_cov :: "mat option"
  si_transponder :: bool
  si_adsb_vel :: "(real \<times> real) option"

definition measured :: "solve_input \<Rightarrow> mat" where
  "measured i = measurement_R (e_nodes (si_result i)) (si_transponder i) (si_cov i)"

definition fresh_entry :: "solve_input \<Rightarrow> track_kf" where
  "fresh_entry i = init_entry (si_pos i) (entry_time_s (si_result i)) (si_adsb_vel i) (e_vel (si_result i)) (measured i)"

text \<open>The in-gate end of a solve: the transponder's velocity, the entry, the published point.\<close>

definition finish_update :: "geodesy \<Rightarrow> track_kf \<Rightarrow> real \<Rightarrow> real \<Rightarrow> solve_input \<Rightarrow> vec \<times> mat \<Rightarrow> (track_kf \<times> mn_entry) option" where
  "finish_update g e dt d2 i = (\<lambda>(x, p).
     (case (case si_adsb_vel i of
              None \<Rightarrow> Some (x, p)
            | Some (ve, vn) \<Rightarrow>
                map_option (\<lambda>(x', p', _, _). (x', p'))
                  (kf_correct x p (\<lambda>k. if k = 0 then ve else vn) H_VEL (mscale (KF_VEL_SIGMA_ADSB_MS ^ 2) eye))) of
        None \<Rightarrow> None
      | Some (x', p') \<Rightarrow>
          (let e' = e\<lparr>kf_x := x', kf_p := p', kf_last_s := entry_time_s (si_result i),
                      kf_manoeuvre := update_manoeuvre (kf_manoeuvre e) dt d2\<rparr>
           in Some (e', filtered g e' (si_result i)))))"

definition put_entry :: "string \<Rightarrow> track_kf \<Rightarrow> (kf_counts \<Rightarrow> kf_counts) \<Rightarrow> kf_store \<Rightarrow> kf_store" where
  "put_entry key e count s = s\<lparr>kf_tracks := dict_set (kf_tracks s) key e, kf_counts := count (kf_counts s)\<rparr>"

text \<open>The update of a live entry, with the breach of the gate and its retry.\<close>

definition update_entry :: "geodesy \<Rightarrow> string \<Rightarrow> solve_input \<Rightarrow> track_kf \<Rightarrow> real \<Rightarrow> kf_store \<Rightarrow> (kf_store \<times> mn_entry \<times> kf_stamp) option" where
  "update_entry g key i e dt s =
     (let z = enu_offset_m g (kf_ref e) (si_pos i); zv = (\<lambda>k::nat. if k = 0 then fst z else snd z); r = measured i
      in case predict_update e dt zv r (entry_sigma_a e) of
           None \<Rightarrow> None
         | Some (x, p, d2, innov) \<Rightarrow>
             if d2 > KF_GATE_CHI2 then
               (case predict_update e dt zv r KF_SIGMA_A_MANOEUVRE_MS2 of
                  None \<Rightarrow> None
                | Some (x', p', d2', _) \<Rightarrow>
                    if d2' \<le> KF_GATE_CHI2 \<and> KF_SIGMA_A_MANOEUVRE_MS2 > KF_SIGMA_A_MS2 then
                      map_option (\<lambda>(e', result). (put_entry key e' (\<lambda>c. c\<lparr>n_rescues := n_rescues c + 1\<rparr>) s, result, stamp KfRescued d2 innov))
                        (finish_update g e dt d2 i (x', p'))
                    else Some (put_entry key (fresh_entry i) (\<lambda>c. c\<lparr>n_reanchors := n_reanchors c + 1\<rparr>) s,
                               si_result i, stamp KfReanchored d2 innov))
             else map_option (\<lambda>(e', result). (put_entry key e' (\<lambda>c. c\<lparr>n_smoothed := n_smoothed c + 1\<rparr>) s, result, stamp KfSmoothed d2 innov))
                    (finish_update g e dt d2 i (x, p)))"

definition smooth_kf :: "geodesy \<Rightarrow> string \<Rightarrow> solve_input \<Rightarrow> kf_store \<Rightarrow> (kf_store \<times> mn_entry \<times> kf_stamp) option" where
  "smooth_kf g key i s0 =
     (let ts = entry_time_s (si_result i); s = kf_sweep ts s0
      in case dict_get (kf_tracks s) key of
           None \<Rightarrow> Some (put_entry key (fresh_entry i) (\<lambda>c. c\<lparr>n_init := n_init c + 1\<rparr>) s, si_result i, no_stamp KfInit)
         | Some e \<Rightarrow>
             (let dt = ts - kf_last_s e
              in if dt \<le> 0 then
                   Some (s\<lparr>kf_counts := (kf_counts s)\<lparr>n_passthrough := n_passthrough (kf_counts s) + 1\<rparr>\<rparr>,
                         filtered g e (si_result i), no_stamp KfHeld)
                 else if dt > KF_MAX_GAP_S then
                   Some (put_entry key (fresh_entry i) (\<lambda>c. c\<lparr>n_gap_reinit := n_gap_reinit c + 1\<rparr>) s, si_result i, no_stamp KfInit)
                 else update_entry g key i e dt s))"

definition manoeuvre_active :: "kf_store \<Rightarrow> nat" where
  "manoeuvre_active s = length (filter (\<lambda>(_, e). entry_sigma_a e > KF_SIGMA_A_MS2) (kf_tracks s))"

subsection \<open>Covariances of the filter\<close>

lemmas kf_settings =
  KF_SIGMA_A_MS2_def KF_SIGMA_A_MANOEUVRE_MS2_def KF_MANOEUVRE_D2_def KF_MANOEUVRE_TAU_S_def KF_DEFAULT_POS_SIGMA_M_def
  KF_N2_POS_SIGMA_M_def KF_R_INFLATE_def KF_MIN_POS_SIGMA_M_def KF_MAX_POS_SIGMA_M_def KF_VEL_SIGMA_ADSB_MS_def
  KF_VEL_SIGMA_SOLVE_MS_def KF_MAX_GAP_S_def KF_GATE_CHI2_def KF_TTL_S_def

lemma process_noise_block:
  "x * (a * (dt ^ 3 / 3) * x + a * (dt ^ 2 / 2) * y) + y * (a * (dt ^ 2 / 2) * x + a * dt * y) =
   a * dt * ((dt * x / 2 + y) ^ 2 + (dt * x) ^ 2 / 12)" for x y a dt :: real
  by (simp add: power2_eq_square power3_eq_cube distrib_left distrib_right mult_ac)

lemma covariance_process_noise [covariance_intros]:
  assumes "0 \<le> dt" "0 \<le> sigma_a"
  shows "covariance 4 (process_noise dt sigma_a)"
proof -
  have "quad_form 4 (process_noise dt sigma_a) v =
        (v 0 * (sigma_a * (dt ^ 3 / 3) * v 0 + sigma_a * (dt ^ 2 / 2) * v 1) + v 1 * (sigma_a * (dt ^ 2 / 2) * v 0 + sigma_a * dt * v 1)) +
        (v 2 * (sigma_a * (dt ^ 3 / 3) * v 2 + sigma_a * (dt ^ 2 / 2) * v 3) + v 3 * (sigma_a * (dt ^ 2 / 2) * v 2 + sigma_a * dt * v 3))" for v
    by (simp add: quad_form_def inner_def mvec_def sum_lessThan_4 process_noise_def)
  then have "0 \<le> quad_form 4 (process_noise dt sigma_a) v" for v
    using assms unfolding process_noise_block by simp
  moreover have "process_noise dt sigma_a i j = process_noise dt sigma_a j i" for i j
    unfolding process_noise_def by (simp only: conj_ac disj_ac)
  ultimately show ?thesis by (simp add: covariance_def sym_mat_def)
qed

lemma definite2_scale: "definite2 r \<Longrightarrow> 0 < c \<Longrightarrow> definite2 (mscale c r)"
proof -
  assume r: "definite2 r" and c: "0 < c"
  have "det2 (mscale c r) = c ^ 2 * det2 r" by (simp add: det2_def mscale_def power2_eq_square algebra_simps)
  then show ?thesis using r c by (simp add: definite2_def) (simp add: mscale_def)
qed

lemma definite2_eye: "0 < c \<Longrightarrow> definite2 (mscale c eye)"
  by (simp add: definite2_def mscale_def eye_def det2_def)

lemma definite2_add_eye:
  assumes "a 0 1 = a 1 0" "0 < a 0 0" "0 < a 1 1" "0 \<le> det2 a" "0 < b" "0 < c"
  shows "definite2 (madd (mscale b a) (mscale c eye))"
proof -
  have "det2 (madd (mscale b a) (mscale c eye)) = b ^ 2 * det2 a + b * c * (a 0 0 + a 1 1) + c ^ 2"
    by (simp add: det2_def madd_def mscale_def eye_def power2_eq_square algebra_simps)
  moreover have "0 < b ^ 2 * det2 a + b * c * (a 0 0 + a 1 1) + c ^ 2"
    using assms by (intro add_nonneg_pos) auto
  moreover have "0 < b * a 0 0 + c" using assms by (simp add: add_pos_pos)
  ultimately show ?thesis using assms by (simp add: definite2_def) (simp add: madd_def mscale_def eye_def)
qed

lemma base_pos_sigma_pos: "0 < base_pos_sigma_m n t"
  by (simp add: base_pos_sigma_m_def kf_settings)

lemma definite2_diag: "definite2 r \<Longrightarrow> 0 < r 0 0 \<and> 0 < r 1 1"
  using definite2_quad_pos [of r "\<lambda>i. of_bool (i = 1)"] by (simp add: quad_form_2 definite2_sym definite2_def)

lemma solve_noise_definite:
  assumes "0 < sigma"
  shows "definite2 (solve_noise sigma cov)"
proof (cases cov)
  case None
  then show ?thesis using assms by (simp add: solve_noise_def definite2_eye)
next
  case (Some c)
  let ?a = "symmetrized (mscale (10 ^ 6) c)"
  have "?a 0 1 = ?a 1 0" by (simp add: symmetrized_def mscale_def madd_def mtransp_def)
  then have "0 < ?a 0 0 \<and> 0 < ?a 1 1 \<and> 0 \<le> det2 ?a \<Longrightarrow> definite2 (madd (mscale (KF_R_INFLATE ^ 2) ?a) (mscale (sigma ^ 2) eye))"
    using assms by (intro definite2_add_eye) (simp_all add: kf_settings)
  moreover have "definite2 (mscale (sigma ^ 2) eye)" using assms by (simp add: definite2_eye)
  ultimately show ?thesis by (simp add: solve_noise_def Some Let_def)
qed

text \<open>The noise of a solve's position is invertible, and its mean sigma stays between the settings.\<close>

lemma measurement_R_ok:
  defines "trace r \<equiv> r 0 0 + r (1::nat) (1::nat)"
  shows "definite2 (measurement_R n t cov)"
    and "2 * KF_MIN_POS_SIGMA_M ^ 2 \<le> trace (measurement_R n t cov)"
    and "trace (measurement_R n t cov) \<le> 2 * KF_MAX_POS_SIGMA_M ^ 2"
proof -
  define r where "r = solve_noise (base_pos_sigma_m n t) cov"
  define s where "s = sqrt (1 / 2 * (r 0 0 + r 1 1))"
  have r: "definite2 r" unfolding r_def using base_pos_sigma_pos by (rule solve_noise_definite)
  have pos: "0 < r 0 0" "0 < r 1 1" using definite2_diag [OF r] by auto
  have s2: "s ^ 2 = trace r / 2" and s0: "0 < s" using pos by (simp_all add: s_def trace_def)
  have eq: "measurement_R n t cov =
     (if s < KF_MIN_POS_SIGMA_M then mscale ((KF_MIN_POS_SIGMA_M / s) ^ 2) r
      else if s > KF_MAX_POS_SIGMA_M then mscale ((KF_MAX_POS_SIGMA_M / s) ^ 2) r else r)"
    unfolding measurement_R_def Let_def r_def s_def by (rule refl)
  have scaled: "trace (mscale ((c / s) ^ 2) r) = 2 * c ^ 2" for c
  proof -
    have "trace (mscale ((c / s) ^ 2) r) = (c / s) ^ 2 * trace r" by (simp add: trace_def mscale_def algebra_simps)
    moreover have "trace r = 2 * s ^ 2" using s2 by simp
    ultimately show ?thesis using s0 by (simp add: power_divide)
  qed
  show "definite2 (measurement_R n t cov)" using r s0 by (auto simp: eq kf_settings intro!: definite2_scale)
  have low: "KF_MIN_POS_SIGMA_M \<le> s \<Longrightarrow> KF_MIN_POS_SIGMA_M ^ 2 \<le> s ^ 2" by (rule power_mono) (simp_all add: kf_settings)
  have high: "s \<le> KF_MAX_POS_SIGMA_M \<Longrightarrow> s ^ 2 \<le> KF_MAX_POS_SIGMA_M ^ 2" using s0 by (intro power_mono) auto
  have order: "KF_MIN_POS_SIGMA_M ^ 2 \<le> KF_MAX_POS_SIGMA_M ^ 2" by (simp add: kf_settings)
  show "2 * KF_MIN_POS_SIGMA_M ^ 2 \<le> trace (measurement_R n t cov)" using low order s2 scaled by (auto simp: eq not_less)
  show "trace (measurement_R n t cov) \<le> 2 * KF_MAX_POS_SIGMA_M ^ 2" using high order s2 scaled by (auto simp: eq not_less)
qed

lemma covariance_mscale_eye [covariance_intros]: "0 < c \<Longrightarrow> covariance 2 (mscale c eye)"
  by (simp add: covariance_definite2 definite2_eye)

lemma quad_form_unit:
  assumes "i < n"
  shows "quad_form n p (\<lambda>k. of_bool (k = i)) = p i i"
proof -
  have "{..<n} \<inter> {k. k = i} = {i}" using assms by auto
  then show ?thesis by (simp add: quad_form_def inner_def mvec_def sum_of_bool_mult_eq sum_mult_of_bool_eq)
qed

text \<open>
  A correction by an invertible noise always has a value, and no gain would have left less
  variance in any direction.
\<close>

lemma kf_correct_optimal:
  assumes "covariance 4 p" "definite2 r"
  obtains x' p' y si where "kf_correct x p z h r = Some (x', p', y, si)" "covariance 4 p'"
    "\<And>v g. quad_form 4 p' v \<le> quad_form 4 p (\<lambda>i. v i - mvec 2 (mtransp h) g i) + quad_form 2 r g"
proof -
  have s: "definite2 (innovation_cov p h r)" using assms by (rule innovation_definite)
  then obtain si where si: "inv2 (innovation_cov p h r) = Some si" by (auto simp: inv2_def definite2_def)
  let ?p' = "joseph p h r (mmul 2 (mmul 4 p (mtransp h)) si)"
  have cov: "covariance 4 ?p'"
    unfolding joseph_def using assms by (intro covariance_intros)
  have eq: "kf_correct x p z h r =
      Some (\<lambda>i. x i + mvec 2 (mmul 2 (mmul 4 p (mtransp h)) si) (\<lambda>i. z i - mvec 4 h x i) i, symmetrized ?p', \<lambda>i. z i - mvec 4 h x i, si)"
    by (simp add: kf_correct_def si Let_def)
  show ?thesis
  proof (rule that [OF eq covariance_symmetrized [OF cov]])
    show "quad_form 4 (symmetrized ?p') v \<le> quad_form 4 p (\<lambda>i. v i - mvec 2 (mtransp h) g i) + quad_form 2 r g" for v g
      using joseph_optimal [OF assms si] by (simp add: quad_form_symmetrized [OF cov])
  qed
qed

lemma kf_correct_shrinks:
  assumes "covariance 4 p" "definite2 r"
  obtains x' p' y si where "kf_correct x p z h r = Some (x', p', y, si)" "covariance 4 p'" "\<And>i. i < 4 \<Longrightarrow> p' i i \<le> p i i"
proof -
  from assms obtain x' p' y si where c: "kf_correct x p z h r = Some (x', p', y, si)" "covariance 4 p'"
    and le: "\<And>v g. quad_form 4 p' v \<le> quad_form 4 p (\<lambda>i. v i - mvec 2 (mtransp h) g i) + quad_form 2 r g"
    by (rule kf_correct_optimal) blast
  have "p' i i \<le> p i i" if "i < 4" for i
    using le [of "\<lambda>k. of_bool (k = i)" "\<lambda>_. 0"] that by (simp add: quad_form_unit mvec_def quad_form_def [of 2] inner_def)
  with c show ?thesis by (rule that)
qed

lemma kf_correct_position:
  assumes "covariance 4 p" "definite2 r"
  obtains x' p' y si where "kf_correct x p z H_POS r = Some (x', p', y, si)" "covariance 4 p'"
    "p' 0 0 \<le> p 0 0" "p' 2 2 \<le> p 2 2" "p' 0 0 \<le> r 0 0" "p' 2 2 \<le> r 1 1"
proof -
  from assms obtain x' p' y si where c: "kf_correct x p z H_POS r = Some (x', p', y, si)" "covariance 4 p'"
    and le: "\<And>v g. quad_form 4 p' v \<le> quad_form 4 p (\<lambda>i. v i - mvec 2 (mtransp H_POS) g i) + quad_form 2 r g"
    by (rule kf_correct_optimal) blast
  have keep: "p' i i \<le> p i i" if "i < 4" for i
    using le [of "\<lambda>k. of_bool (k = i)" "\<lambda>_. 0"] that by (simp add: quad_form_unit mvec_def quad_form_def [of 2] inner_def)
  have noise: "p' i i \<le> r j j" if "i < 4" "j < 2" "i = 2 * j" for i j
  proof -
    have "(\<lambda>k. of_bool (k = i) - mvec 2 (mtransp H_POS) (\<lambda>k. of_bool (k = j)) k) = (\<lambda>_. 0 :: real)"
      using that less_2_cases_nat [OF that(2)] by (auto simp: mvec_def mtransp_def H_POS_def sum_lessThan_2 fun_eq_iff)
    then show ?thesis
      using le [of "\<lambda>k. of_bool (k = i)" "\<lambda>k. of_bool (k = j)"] that by (simp add: quad_form_unit quad_form_def [of 4 p] inner_def)
  qed
  show ?thesis using that [OF c] keep [of 0] keep [of 2] noise [of 0 0] noise [of 2 1] by simp
qed

subsection \<open>The entries stay sound\<close>

definition entry_ok :: "track_kf \<Rightarrow> bool" where
  "entry_ok e \<longleftrightarrow> covariance 4 (kf_p e) \<and> kf_p e 0 0 + kf_p e 2 2 \<le> 2 * KF_MAX_POS_SIGMA_M ^ 2 \<and>
     0 \<le> kf_manoeuvre e \<and> kf_manoeuvre e \<le> 1"

definition kf_ok :: "kf_store \<Rightarrow> bool" where
  "kf_ok s \<longleftrightarrow> dict_ok (kf_tracks s) \<and> (\<forall>k e. dict_get (kf_tracks s) k = Some e \<longrightarrow> entry_ok e)"

lemma kf_ok_entry: "kf_ok s \<Longrightarrow> dict_get (kf_tracks s) k = Some e \<Longrightarrow> entry_ok e"
  by (simp add: kf_ok_def)

lemma measured_ok:
  "definite2 (measured i)" "measured i 0 0 + measured i 1 1 \<le> 2 * KF_MAX_POS_SIGMA_M ^ 2"
  using measurement_R_ok by (simp_all add: measured_def)

lemma fresh_entry_ok: "entry_ok (fresh_entry i)"
proof -
  let ?r = "measured i"
  define c where "c = (case si_adsb_vel i of Some _ \<Rightarrow> KF_VEL_SIGMA_ADSB_MS ^ 2 | None \<Rightarrow> KF_VEL_SIGMA_SOLVE_MS ^ 2)"
  have c: "0 \<le> c" by (simp add: c_def split: option.split)
  have p: "kf_p (fresh_entry i) =
     (\<lambda>i j. if i = 0 \<and> j = 0 then ?r 0 0 else if i = 0 \<and> j = 2 then ?r 0 1 else if i = 2 \<and> j = 0 then ?r 1 0
            else if i = 2 \<and> j = 2 then ?r 1 1 else if (i = 1 \<and> j = 1) \<or> (i = 3 \<and> j = 3) then c else 0)"
    unfolding c_def by (cases "si_adsb_vel i") (simp_all add: fresh_entry_def init_entry_def Let_def cong: if_cong)
  have s: "?r 0 1 = ?r 1 0" using measured_ok(1) by (simp add: definite2_def)
  have "quad_form 4 (kf_p (fresh_entry i)) v = quad_form 2 ?r (\<lambda>k. if k = 0 then v 0 else v 2) + c * v 1 ^ 2 + c * v 3 ^ 2" for v
    by (simp add: p quad_form_def inner_def mvec_def sum_lessThan_4 sum_lessThan_2 power2_eq_square algebra_simps)
  then have "0 \<le> quad_form 4 (kf_p (fresh_entry i)) v" for v
    using definite2_quad [OF measured_ok(1)] c by simp
  moreover have "sym_mat 4 (kf_p (fresh_entry i))" unfolding sym_mat_def p using s by auto
  moreover have "kf_p (fresh_entry i) 0 0 + kf_p (fresh_entry i) 2 2 \<le> 2 * KF_MAX_POS_SIGMA_M ^ 2"
    using measured_ok(2) by (simp add: p)
  ultimately show ?thesis by (simp add: entry_ok_def covariance_def) (simp add: fresh_entry_def init_entry_def Let_def)
qed

lemma entry_sigma_a_pos: "entry_ok e \<Longrightarrow> 0 \<le> entry_sigma_a e"
  by (simp add: entry_ok_def entry_sigma_a_def kf_settings)

lemma predict_update_ok:
  assumes "entry_ok e" "0 < dt" "0 \<le> sigma_a"
  obtains x p d2 innov where "predict_update e dt z (measured i) sigma_a = Some (x, p, d2, innov)"
    "covariance 4 p" "p 0 0 + p 2 2 \<le> 2 * KF_MAX_POS_SIGMA_M ^ 2"
proof -
  let ?p = "symmetrized (madd (mmul 4 (transition dt) (mmul 4 (kf_p e) (mtransp (transition dt)))) (process_noise dt sigma_a))"
  have "covariance 4 ?p" using assms by (intro covariance_intros) (auto simp: entry_ok_def)
  then obtain x p y si where c: "kf_correct (mvec 4 (transition dt) (kf_x e)) ?p z H_POS (measured i) = Some (x, p, y, si)"
      "covariance 4 p" "p 0 0 \<le> measured i 0 0" "p 2 2 \<le> measured i 1 1"
    using measured_ok(1) by (rule kf_correct_position) blast
  then show ?thesis using that [OF _ c(2)] measured_ok(2) [of i] by (simp add: predict_update_def Let_def)
qed

lemma update_manoeuvre_bounds:
  assumes "0 \<le> m" "m \<le> 1" "0 \<le> dt"
  shows "0 \<le> update_manoeuvre m dt d2" "update_manoeuvre m dt d2 \<le> 1"
proof -
  have "m * exp (- dt / 15) \<le> 1 * 1" using assms by (intro mult_mono) auto
  then show "0 \<le> update_manoeuvre m dt d2" "update_manoeuvre m dt d2 \<le> 1"
    using assms by (auto simp: update_manoeuvre_def Let_def kf_settings intro: max.coboundedI1)
qed

lemma finish_update_ok:
  assumes "covariance 4 p" "p 0 0 + p 2 2 \<le> 2 * KF_MAX_POS_SIGMA_M ^ 2" "entry_ok e" "0 < dt"
  obtains e' where "finish_update g e dt d2 i (x, p) = Some (e', filtered g e' (si_result i))" "entry_ok e'"
    "kf_last_s e' = entry_time_s (si_result i)"
proof (cases "si_adsb_vel i")
  case None
  show ?thesis
    using that assms update_manoeuvre_bounds [of "kf_manoeuvre e" dt d2] None
    by (simp add: finish_update_def Let_def entry_ok_def)
next
  case (Some v)
  have "definite2 (mscale (KF_VEL_SIGMA_ADSB_MS ^ 2) eye)" by (simp add: definite2_eye kf_settings)
  with assms(1) obtain x' p' y si where
      c: "kf_correct x p (\<lambda>k. if k = 0 then fst v else snd v) H_VEL (mscale (KF_VEL_SIGMA_ADSB_MS ^ 2) eye) = Some (x', p', y, si)"
        "covariance 4 p'" and le: "\<And>i. i < 4 \<Longrightarrow> p' i i \<le> p i i"
    by (rule kf_correct_shrinks) blast
  have "p' 0 0 + p' 2 2 \<le> 2 * KF_MAX_POS_SIGMA_M ^ 2" using le [of 0] le [of 2] assms(2) by simp
  then show ?thesis
    using that c assms(3,4) update_manoeuvre_bounds [of "kf_manoeuvre e" dt d2] Some
    by (simp add: finish_update_def Let_def entry_ok_def split_beta)
qed

lemma kf_ok_sweep [intro]: "kf_ok s \<Longrightarrow> kf_ok (kf_sweep now s)"
  by (auto simp: kf_ok_def kf_sweep_def dict_okI dict_get_filter split: if_splits option.splits)

lemma kf_ok_put: "kf_ok s \<Longrightarrow> entry_ok e \<Longrightarrow> kf_ok (put_entry key e f s)"
  by (auto simp: kf_ok_def put_entry_def dict_okI split: if_splits)

lemma kf_ok_drop: "kf_ok s \<Longrightarrow> kf_ok (drop_key key s)"
  by (auto simp: kf_ok_def drop_key_def dict_okI split: if_splits)

text \<open>What a solve can do to a sound filter, case by case.\<close>

definition counted :: "kf_counts \<Rightarrow> nat" where
  "counted c = n_init c + n_gap_reinit c + n_passthrough c + n_smoothed c + n_reanchors c + n_rescues c"

lemma update_entry_cases:
  assumes "kf_ok s" "dict_get (kf_tracks s) key = Some e" "0 < dt"
  obtains
    (updated) e' st f where "update_entry g key i e dt s = Some (put_entry key e' f s, filtered g e' (si_result i), st)"
      "entry_ok e'" "kf_last_s e' = entry_time_s (si_result i)" "st_action st \<in> {KfSmoothed, KfRescued}" "\<And>c. counted (f c) = counted c + 1"
  | (reanchored) st f where "update_entry g key i e dt s = Some (put_entry key (fresh_entry i) f s, si_result i, st)"
      "st_action st = KfReanchored" "\<And>c. counted (f c) = counted c + 1"
proof -
  let ?z = "enu_offset_m g (kf_ref e) (si_pos i)"
  let ?zv = "\<lambda>k::nat. if k = 0 then fst ?z else snd ?z"
  have e: "entry_ok e" using assms(1,2) by (rule kf_ok_entry)
  from e assms(3) entry_sigma_a_pos [OF e] obtain x p d2 innov where first:
      "predict_update e dt ?zv (measured i) (entry_sigma_a e) = Some (x, p, d2, innov)"
      "covariance 4 p" "p 0 0 + p 2 2 \<le> 2 * KF_MAX_POS_SIGMA_M ^ 2"
    by (rule predict_update_ok)
  show ?thesis
  proof (cases "d2 > KF_GATE_CHI2")
    case False
    from first(2,3) e assms(3) obtain e' where "finish_update g e dt d2 i (x, p) = Some (e', filtered g e' (si_result i))"
        "entry_ok e'" "kf_last_s e' = entry_time_s (si_result i)"
      by (rule finish_update_ok)
    then show ?thesis
      using updated [where f = "\<lambda>c. c\<lparr>n_smoothed := n_smoothed c + 1\<rparr>"] first(1) False
      by (simp add: update_entry_def Let_def counted_def stamp_def)
  next
    case True
    have "0 \<le> KF_SIGMA_A_MANOEUVRE_MS2" by (simp add: kf_settings)
    with e assms(3) obtain x' p' d2' innov' where retry:
        "predict_update e dt ?zv (measured i) KF_SIGMA_A_MANOEUVRE_MS2 = Some (x', p', d2', innov')"
        "covariance 4 p'" "p' 0 0 + p' 2 2 \<le> 2 * KF_MAX_POS_SIGMA_M ^ 2"
      by (rule predict_update_ok)
    show ?thesis
    proof (cases "d2' \<le> KF_GATE_CHI2 \<and> KF_SIGMA_A_MANOEUVRE_MS2 > KF_SIGMA_A_MS2")
      case rescued: True
      from retry(2,3) e assms(3) obtain e' where "finish_update g e dt d2 i (x', p') = Some (e', filtered g e' (si_result i))"
          "entry_ok e'" "kf_last_s e' = entry_time_s (si_result i)"
        by (rule finish_update_ok)
      then show ?thesis
        using updated [where f = "\<lambda>c. c\<lparr>n_rescues := n_rescues c + 1\<rparr>"] first(1) retry(1) True rescued
        by (simp add: update_entry_def Let_def counted_def stamp_def)
    next
      case broken: False
      then show ?thesis
        using reanchored [where f = "\<lambda>c. c\<lparr>n_reanchors := n_reanchors c + 1\<rparr>"] first(1) retry(1) True
        by (auto simp: update_entry_def Let_def counted_def stamp_def)
    qed
  qed
qed

lemma smooth_kf_cases:
  fixes i :: solve_input
  assumes "kf_ok s0"
  defines "s \<equiv> kf_sweep (entry_time_s (si_result i)) s0"
  obtains
    (fresh) f st where "smooth_kf g key i s0 = Some (put_entry key (fresh_entry i) f s, si_result i, st)"
      "st_action st \<in> {KfInit, KfReanchored}" "\<And>c. counted (f c) = counted c + 1"
      "\<And>e. dict_get (kf_tracks s) key = Some e \<Longrightarrow> kf_last_s e < entry_time_s (si_result i)"
  | (held) e f st where "smooth_kf g key i s0 = Some (s\<lparr>kf_counts := f (kf_counts s)\<rparr>, filtered g e (si_result i), st)"
      "dict_get (kf_tracks s) key = Some e" "entry_time_s (si_result i) \<le> kf_last_s e" "st_action st = KfHeld" "\<And>c. counted (f c) = counted c + 1"
  | (updated) e' f st where "smooth_kf g key i s0 = Some (put_entry key e' f s, filtered g e' (si_result i), st)"
      "entry_ok e'" "kf_last_s e' = entry_time_s (si_result i)" "st_action st \<in> {KfSmoothed, KfRescued}" "\<And>c. counted (f c) = counted c + 1"
      "\<And>e. dict_get (kf_tracks s) key = Some e \<Longrightarrow> kf_last_s e < entry_time_s (si_result i)"
proof -
  let ?ts = "entry_time_s (si_result i)"
  have ok: "kf_ok s" using assms by auto
  show ?thesis
  proof (cases "dict_get (kf_tracks s) key")
    case None
    then show ?thesis
      using fresh [where f = "\<lambda>c. c\<lparr>n_init := n_init c + 1\<rparr>"]
      by (simp add: smooth_kf_def Let_def no_stamp_def counted_def flip: s_def)
  next
    case (Some e)
    consider "?ts - kf_last_s e \<le> 0" | "0 < ?ts - kf_last_s e" "KF_MAX_GAP_S < ?ts - kf_last_s e"
      | "0 < ?ts - kf_last_s e" "?ts - kf_last_s e \<le> KF_MAX_GAP_S" by linarith
    then show ?thesis
    proof cases
      case 1
      then show ?thesis
        using held [where f = "\<lambda>c. c\<lparr>n_passthrough := n_passthrough c + 1\<rparr>"] Some
        by (simp add: smooth_kf_def Let_def no_stamp_def counted_def flip: s_def)
    next
      case 2
      then show ?thesis
        using fresh [where f = "\<lambda>c. c\<lparr>n_gap_reinit := n_gap_reinit c + 1\<rparr>"] Some
        by (simp add: smooth_kf_def Let_def no_stamp_def counted_def flip: s_def)
    next
      case 3
      then have eq: "smooth_kf g key i s0 = update_entry g key i e (?ts - kf_last_s e) s"
        using Some by (simp add: smooth_kf_def Let_def flip: s_def)
      from ok Some 3(1) show ?thesis
        by (rule update_entry_cases) (use updated fresh eq Some 3(1) in auto)
    qed
  qed
qed

lemma kf_ok_counts: "kf_ok s \<Longrightarrow> kf_ok (s\<lparr>kf_counts := c\<rparr>)"
  by (simp add: kf_ok_def)

lemma kf_ok_smooth:
  assumes "kf_ok s" "smooth_kf g key i s = Some (s', result, st)"
  shows "kf_ok s'"
proof -
  have ok: "kf_ok (kf_sweep (entry_time_s (si_result i)) s)" using assms(1) by (rule kf_ok_sweep)
  from assms(1) show ?thesis
    by (rule smooth_kf_cases [of _ g key i]) (use assms(2) ok in \<open>auto intro: kf_ok_put kf_ok_counts fresh_entry_ok\<close>)
qed

subsection \<open>The filter's life\<close>

text \<open>The filter from its boot on, with the number of solves it has been given.\<close>

inductive kf_reach :: "geodesy \<Rightarrow> nat \<Rightarrow> kf_store \<Rightarrow> bool" for g where
  kf_boot: "kf_reach g 0 boot_kf"
| kf_smooth: "kf_reach g n s \<Longrightarrow> smooth_kf g key i s = Some (s', result, st) \<Longrightarrow> kf_reach g (Suc n) s'"
| kf_drop: "kf_reach g n s \<Longrightarrow> kf_reach g n (drop_key key s)"

lemma kf_reach_ok: "kf_reach g n s \<Longrightarrow> kf_ok s"
  by (induction rule: kf_reach.induct) (auto simp: kf_ok_drop intro: kf_ok_smooth, simp add: kf_ok_def boot_kf_def)

lemma kf_sweep_counts [simp]: "kf_counts (kf_sweep now s) = kf_counts s"
  by (simp add: kf_sweep_def)

lemma put_entry_counts [simp]: "kf_counts (put_entry key e f s) = f (kf_counts s)"
  by (simp add: put_entry_def)

lemma put_entry_get [simp]: "dict_get (kf_tracks (put_entry key e f s)) k = (if k = key then Some e else dict_get (kf_tracks s) k)"
  by (simp add: put_entry_def)

lemma smooth_counts: "kf_ok s \<Longrightarrow> smooth_kf g key i s = Some (s', result, st) \<Longrightarrow> counted (kf_counts s') = counted (kf_counts s) + 1"
  by (erule smooth_kf_cases [of _ g key i]) auto

text \<open>The six outcome counters of the track filter are exclusive and exhaustive, as their comment says:
  from boot on, through any solves and dropped keys, they sum to the number of solves the filter was given.\<close>

theorem filter_outcomes_are_exhaustive:
  assumes "kf_reach g n s"
  shows "n_init (kf_counts s) + n_gap_reinit (kf_counts s) + n_passthrough (kf_counts s) + n_smoothed (kf_counts s) +
         n_reanchors (kf_counts s) + n_rescues (kf_counts s) = n"
  using assms
proof (induction rule: kf_reach.induct)
  case (kf_smooth n s key i s' result st)
  then show ?case using smooth_counts [OF kf_reach_ok] by (metis Suc_eq_plus1 counted_def)
qed (simp_all add: boot_kf_def drop_key_def)

text \<open>Where the filter positions a solve, what it writes over the solve.\<close>

definition positions :: "kf_action \<Rightarrow> bool" where
  "positions a \<longleftrightarrow> a \<in> {KfSmoothed, KfRescued, KfHeld}"

lemma round_half_even_le: "y \<le> of_int k \<Longrightarrow> round_half_even y \<le> k"
proof -
  assume le: "y \<le> of_int k"
  show ?thesis
  proof (cases "\<lfloor>y\<rfloor> < k")
    case True
    then show ?thesis by (simp add: round_half_even_def Let_def)
  next
    case False
    then have "\<lfloor>y\<rfloor> = k" "y = of_int k" using le by linarith+
    then show ?thesis by (simp add: round_half_even_def)
  qed
qed

lemma round_half_even_ge: "of_int k \<le> y \<Longrightarrow> k \<le> round_half_even y"
  using le_floor_iff [of k y] by (auto simp: round_half_even_def Let_def)

lemma round_to_bounds: "0 \<le> x \<Longrightarrow> x \<le> of_int m \<Longrightarrow> 0 \<le> round_to k x \<and> round_to k x \<le> of_int m"
proof -
  assume x: "0 \<le> x" "x \<le> of_int m"
  have "x * 10 ^ k \<le> of_int (m * 10 ^ k)" using x by simp
  then have "round_half_even (x * 10 ^ k) \<le> m * 10 ^ k" by (rule round_half_even_le)
  then have "of_int (round_half_even (x * 10 ^ k)) \<le> (of_int (m * 10 ^ k) :: real)" by linarith
  moreover have "0 \<le> round_half_even (x * 10 ^ k)" using x round_half_even_ge [of 0] by simp
  ultimately show ?thesis by (simp add: round_to_def divide_le_eq)
qed

lemma pos_sigma_bounds:
  assumes "entry_ok e"
  shows "0 \<le> pos_sigma e" "pos_sigma e \<le> KF_MAX_POS_SIGMA_M"
proof -
  show "0 \<le> pos_sigma e" by (simp add: pos_sigma_def)
  have "sqrt (max 0 (1 / 2 * (kf_p e 0 0 + kf_p e 2 2))) \<le> sqrt (KF_MAX_POS_SIGMA_M ^ 2)"
    using assms by (intro real_sqrt_le_mono) (auto simp: entry_ok_def)
  then show "pos_sigma e \<le> KF_MAX_POS_SIGMA_M" by (simp add: pos_sigma_def kf_settings)
qed

lemma filtered_sigma: "entry_ok e \<Longrightarrow> \<exists>sigma. e_kf_sigma_m (filtered g e r) = Some sigma \<and> 0 \<le> sigma \<and> sigma \<le> 8000"
  using pos_sigma_bounds [of e] round_to_bounds [of "pos_sigma e" 8000 1] by (simp add: filtered_def Let_def KF_MAX_POS_SIGMA_M_def)

text \<open>C34: The filter never meets a singular matrix: in every state it can reach, any solve under any key, whatever its
  covariance, time and transponder velocity, is answered, and where the filter wrote the position the sigma published
  beside it is between 0 and 8000 metres, the ceiling the settings put on one solve's noise.\<close>

theorem filter_answers_within_its_ceiling:
  assumes "kf_reach g n s"
  shows "\<exists>s' result st. smooth_kf g key i s = Some (s', result, st) \<and>
    (positions (st_action st) \<longrightarrow> (\<exists>sigma. e_kf_sigma_m result = Some sigma \<and> 0 \<le> sigma \<and> sigma \<le> 8000))"
proof -
  have ok: "kf_ok s" using assms by (rule kf_reach_ok)
  then have "kf_ok (kf_sweep (entry_time_s (si_result i)) s)" by (rule kf_ok_sweep)
  from ok show ?thesis
    by (rule smooth_kf_cases [of _ g key i])
       (auto simp: positions_def intro: filtered_sigma kf_ok_entry [OF \<open>kf_ok (kf_sweep _ s)\<close>])
qed


subsection \<open>Sample solves\<close>

definition flat_earth :: geodesy where
  "flat_earth = \<lparr>haversine = (\<lambda>p q. 0), offset = (\<lambda>p e n. (fst p + n / 111000, snd p + e / (100 * 1000))),
     m_per_deg_lat = 111000, km_per_deg_lon = (\<lambda>_. 100), seed_max_age_s = 30\<rparr>"

definition sample_input :: "real \<Rightarrow> solve_input" where
  "sample_input north = \<lparr>si_result = sample_mn\<lparr>e_pos := Some (north, 0)\<rparr>, si_pos = (north, 0), si_cov = None, si_transponder = False, si_adsb_vel = None\<rparr>"

definition sample_kf :: kf_store where
  "sample_kf = put_entry ''k'' (fresh_entry (sample_input 0)) (\<lambda>c. c\<lparr>n_init := n_init c + 1\<rparr>)
     (kf_sweep (entry_time_s sample_mn) boot_kf)"

lemma kf_sweep_boot: "dict_get (kf_tracks (kf_sweep t boot_kf)) k = None"
  by (simp add: kf_sweep_def boot_kf_def dict_filter_def)

lemma sample_first: "smooth_kf flat_earth ''k'' (sample_input 0) boot_kf = Some (sample_kf, si_result (sample_input 0), no_stamp KfInit)"
  by (simp add: smooth_kf_def Let_def kf_sweep_boot sample_kf_def) (simp add: sample_input_def entry_time_s_def)

lemma sample_kf_reach: "kf_reach flat_earth 1 sample_kf"
  using kf_smooth [OF kf_boot sample_first] by simp

lemma sample_kf_get: "dict_get (kf_tracks (kf_sweep (entry_time_s sample_mn) sample_kf)) ''k'' = Some (fresh_entry (sample_input 0))"
  by (simp add: sample_kf_def kf_sweep_def put_entry_def boot_kf_def dict_filter_def dict_set_def dict_get_def KF_TTL_S_def
      fresh_entry_def init_entry_def Let_def sample_input_def entry_time_s_def)

lemma sample_held:
  "smooth_kf flat_earth ''k'' (sample_input y) sample_kf =
   Some ((kf_sweep (entry_time_s sample_mn) sample_kf)\<lparr>kf_counts := (kf_counts sample_kf)\<lparr>n_passthrough := n_passthrough (kf_counts sample_kf) + 1\<rparr>\<rparr>,
         filtered flat_earth (fresh_entry (sample_input 0)) (si_result (sample_input y)), no_stamp KfHeld)"
proof -
  have t: "entry_time_s (si_result (sample_input y)) = entry_time_s sample_mn" by (simp add: sample_input_def entry_time_s_def)
  have l: "kf_last_s (fresh_entry (sample_input 0)) = entry_time_s sample_mn"
    by (simp add: fresh_entry_def init_entry_def Let_def sample_input_def entry_time_s_def)
  show ?thesis by (simp add: smooth_kf_def t sample_kf_get l)
qed

theorem filter_outcomes_are_exhaustive_witness:
  "n_init (kf_counts sample_kf) + n_gap_reinit (kf_counts sample_kf) + n_passthrough (kf_counts sample_kf) + n_smoothed (kf_counts sample_kf) +
   n_reanchors (kf_counts sample_kf) + n_rescues (kf_counts sample_kf) = 1"
  by (rule filter_outcomes_are_exhaustive [OF sample_kf_reach])

theorem filter_answers_within_its_ceiling_witness:
  "\<exists>s' result st. smooth_kf flat_earth ''k'' (sample_input 5) sample_kf = Some (s', result, st) \<and>
    (positions (st_action st) \<longrightarrow> (\<exists>sigma. e_kf_sigma_m result = Some sigma \<and> 0 \<le> sigma \<and> sigma \<le> 8000))"
  by (rule filter_answers_within_its_ceiling [OF sample_kf_reach])


text \<open>Reading a position into a key's frame and back loses nothing: where \<open>offset_latlon_m\<close> is what its documentation
  says, the position it gives for an east and north offset has exactly those offsets in the frame of its base point.\<close>

theorem frame_round_trip:
  assumes "\<And>p east north. offset g p east north = (fst p + north / m_per_deg_lat g, snd p + east / (km_per_deg_lon g (fst p) * 1000))"
    and "m_per_deg_lat g \<noteq> 0" "km_per_deg_lon g (fst ref) \<noteq> 0"
  shows "enu_offset_m g ref (offset g ref east north) = (east, north)"
  using assms(2,3) by (simp add: enu_offset_m_def assms(1))

theorem frame_round_trip_witness:
  "enu_offset_m flat_earth (52, 13) (offset flat_earth (52, 13) 250 (- 40)) = (250, - 40)"
  by (rule frame_round_trip) (simp_all add: flat_earth_def)

end
