(* ===== verification/TrackIdentity.thy ===== *)
theory TrackIdentity
  imports TrackFilter
begin

text \<open>
  Which entry of \<open>state.multinode_tracks\<close> a solve belongs to
  (\<open>services/tasks/multinode_identity.py\<close>) and the step that publishes it
  (\<open>_process_solver_item\<close> in \<open>services/tasks/solver.py\<close>, under the tracks' lock).  The filter is that of
  theory \<open>TrackFilter\<close>, the follow lane that of \<open>DarkFollow\<close>.  Settings are the defaults of their environment variables.
\<close>

subsection \<open>Settings\<close>

definition MN_ASSOC_MAX_DIST_KM :: real where "MN_ASSOC_MAX_DIST_KM = 6"
definition MN_ASSOC_DRIFT_KM_PER_S :: real where "MN_ASSOC_DRIFT_KM_PER_S = 13 / 100"
definition MN_ASSOC_MAX_DIST_CAP_KM :: real where "MN_ASSOC_MAX_DIST_CAP_KM = 12"
definition MN_ASSOC_MAX_AGE_S :: real where "MN_ASSOC_MAX_AGE_S = 60"
definition MN_ASSOC_MAX_NEG_DT_S :: real where "MN_ASSOC_MAX_NEG_DT_S = 10"
definition TRACK_LINK_AGE_S :: real where "TRACK_LINK_AGE_S = 40"
definition TRACK_LINK_MIN_SHARED_JOIN :: nat where "TRACK_LINK_MIN_SHARED_JOIN = 2"
definition TRACK_LINK_MAX_IDS :: nat where "TRACK_LINK_MAX_IDS = 24"
definition MN_SUPERSEDE_BASE_KM :: real where "MN_SUPERSEDE_BASE_KM = 4"
definition MN_SUPERSEDE_MAX_ALT_DIFF_M :: real where "MN_SUPERSEDE_MAX_ALT_DIFF_M = 1000"
definition MN_STALE_COAST_BASE_KM :: real where "MN_STALE_COAST_BASE_KM = 2"
definition MN_STALE_COAST_MIN_S :: real where "MN_STALE_COAST_MIN_S = 4"
definition MN_STALE_COAST_MAX_S :: real where "MN_STALE_COAST_MAX_S = 60"
definition MN_STALE_COAST_MAX_KM :: real where "MN_STALE_COAST_MAX_KM = 10"
definition MN_STALE_COAST_VMAX_MS :: real where "MN_STALE_COAST_VMAX_MS = 350"
definition MN_STALE_COAST_MANOEUVRE :: real where "MN_STALE_COAST_MANOEUVRE = 3 / 10"
definition MN_HISTORY_K :: nat where "MN_HISTORY_K = 3"
definition MN_DR_MAX_AGE_S :: real where "MN_DR_MAX_AGE_S = 160"
definition MN_HISTORY_TTL_S :: real where "MN_HISTORY_TTL_S = 600"

text \<open>
  What a keying decision reads: the geodesy, the filter's store, the setting \<open>TRACK_DR_SOURCE\<close>,
  the follow lane's mode and guard, the monotonic clock; \<open>hex_digest\<close> is the SHA-256 digest a
  key's display id is cut from.
\<close>

record track_world =
  geo :: geodesy
  kf :: kf_store
  dr_source :: string
  f_mode :: follow_mode
  f_guard :: follow_guard
  mono_s :: real
  hex_digest :: "string \<Rightarrow> string"

subsection \<open>Identifiers\<close>

definition is_transponder_hex :: "string \<Rightarrow> bool" where
  "is_transponder_hex h \<longleftrightarrow>
     (let digits = (case h of c # cs \<Rightarrow> if c = CHR 0x7E then cs else h | [] \<Rightarrow> [])
      in length digits = 6 \<and> list_all is_lower_hex digits)"

definition multinode_hex_from_key :: "(string \<Rightarrow> string) \<Rightarrow> string \<Rightarrow> string" where
  "multinode_hex_from_key digest key = ''mn'' @ take 10 (digest key)"

text \<open>\<open>f"{x:.3f}"\<close>, halves to even.\<close>

definition thousandths :: "real \<Rightarrow> nat" where
  "thousandths x =
     (let y = \<bar>x\<bar> * 1000; n = \<lfloor>y\<rfloor>; d = y - of_int n
      in nat (if d < 1 / 2 \<or> (d = 1 / 2 \<and> even n) then n else n + 1))"

definition show_fixed3 :: "real \<Rightarrow> string" where
  "show_fixed3 x =
     (let n = thousandths x; f = show_nat (n mod 1000)
      in (if x < 0 then ''-'' else []) @ show_nat (n div 1000) @ ''.'' @ replicate (3 - length f) CHR ''0'' @ f)"

definition show_int :: "int \<Rightarrow> string" where
  "show_int i = (if i < 0 then ''-'' else []) @ show_nat (nat \<bar>i\<bar>)"

definition minted_key :: "int \<Rightarrow> place \<Rightarrow> string" where
  "minted_key ts pos = MN_DARK_PREFIX @ show_int ts @ ''-'' @ show_fixed3 (fst pos) @ ''-'' @ show_fixed3 (snd pos)"

definition adsb_key :: "string \<Rightarrow> string" where
  "adsb_key h = ''mn-adsb-'' @ h"

subsection \<open>Gates and dead reckoning\<close>

definition assoc_gate_km :: "real \<Rightarrow> real \<Rightarrow> real" where
  "assoc_gate_km dt base = min (base + MN_ASSOC_DRIFT_KM_PER_S * max dt 0) (max MN_ASSOC_MAX_DIST_CAP_KM base)"

definition entry_dr_velocity :: "track_world \<Rightarrow> string \<Rightarrow> mn_entry \<Rightarrow> real \<times> real" where
  "entry_dr_velocity w key e =
     (if lower (strip (if dr_source w = [] then ''kf'' else dr_source w)) \<noteq> ''solve''
      then (case learned_velocity (kf w) key of None \<Rightarrow> e_vel e | Some v \<Rightarrow> v) else e_vel e)"

definition reckoned :: "track_world \<Rightarrow> string \<Rightarrow> mn_entry \<Rightarrow> place \<Rightarrow> real \<Rightarrow> place" where
  "reckoned w key e pos dt =
     (case entry_dr_velocity w key e of (ve, vn) \<Rightarrow> offset (geo w) pos (ve * dt) (vn * dt))"

definition in_dt_window :: "real \<Rightarrow> bool" where
  "in_dt_window dt \<longleftrightarrow> - MN_ASSOC_MAX_NEG_DT_S \<le> dt \<and> dt \<le> MN_ASSOC_MAX_AGE_S"

subsection \<open>The memory of node tracks\<close>

definition merge_recent_track_ids :: "(string, real) dict \<Rightarrow> string list \<Rightarrow> real \<Rightarrow> (string, real) dict" where
  "merge_recent_track_ids prev ids ts =
     (let out = dict_filter (\<lambda>_ seen. \<bar>ts - seen\<bar> \<le> TRACK_LINK_AGE_S) prev;
          fresh = fold (\<lambda>tid d. dict_set d tid ts) ids [];
          kept = (if length out + length fresh > TRACK_LINK_MAX_IDS
                  then take (TRACK_LINK_MAX_IDS - length fresh) (sort_key (\<lambda>kv. - snd kv) (dict_filter (\<lambda>tid _. \<not> dict_has fresh tid) out))
                  else out)
      in fold (\<lambda>(tid, seen) d. dict_set d tid seen) fresh kept)"

definition shared_recent_tracks :: "mn_entry \<Rightarrow> string list \<Rightarrow> real \<Rightarrow> nat" where
  "shared_recent_tracks prev ids ts =
     length (filter (\<lambda>tid. case dict_get (e_recent prev) tid of None \<Rightarrow> False | Some seen \<Rightarrow> \<bar>ts - seen\<bar> \<le> TRACK_LINK_AGE_S) (remdups ids))"

subsection \<open>The keying rule\<close>

datatype key_how = HowAdsb | HowAnchor | HowProximity | HowTracks | HowShadowed | HowMinted

text \<open>What the scan knows of one dark entry; \<open>owned\<close> is a key the follow lane answers for.\<close>

record candidate =
  c_key :: string
  c_dist :: real
  c_dt :: real
  c_gate :: real
  c_shared :: nat
  c_owned :: bool

definition candidate_of :: "track_world \<Rightarrow> place \<Rightarrow> real \<Rightarrow> string list \<Rightarrow> bool \<Rightarrow> string \<Rightarrow> mn_entry \<Rightarrow> candidate option" where
  "candidate_of w pos ts ids shadow_scan key prev =
     (if \<not> is_dark key then None
      else (let dt = ts - entry_time_s prev in
        if \<not> in_dt_window dt then None
        else (case e_pos prev of
                None \<Rightarrow> None
              | Some p \<Rightarrow>
                  Some \<lparr>c_key = key, c_dist = haversine (geo w) pos (reckoned w key prev p dt), c_dt = dt,
                        c_gate = assoc_gate_km dt MN_ASSOC_MAX_DIST_KM, c_shared = shared_recent_tracks prev ids ts,
                        c_owned = (shadow_scan \<and> recently_followed key ts DARK_FOLLOW_OWN_S (f_guard w))\<rparr>)))"

record key_scan =
  k_best :: "(candidate \<times> real) option"
  k_link :: "(candidate \<times> real) option"
  k_weak :: "candidate option"
  k_shadow :: "candidate option"

definition no_scan :: key_scan where
  "no_scan = \<lparr>k_best = None, k_link = None, k_weak = None, k_shadow = None\<rparr>"

definition c_score :: "candidate \<Rightarrow> real" where
  "c_score c = c_dist c / c_gate c / (1 + real (min (c_shared c) 3))"

definition scan_owned :: "candidate \<Rightarrow> key_scan \<Rightarrow> key_scan" where
  "scan_owned c s =
     (let l = c_dist c / c_gate c;
          s1 = (if c_shared c \<ge> TRACK_LINK_MIN_SHARED_JOIN \<and> c_dist c \<le> c_gate c then
                  (case k_link s of
                     None \<Rightarrow> s\<lparr>k_link := Some (c, l)\<rparr>
                   | Some (_, best) \<Rightarrow> if l < best then s\<lparr>k_link := Some (c, l)\<rparr> else s)
                else if c_shared c \<ge> 1 \<and> c_dist c \<le> c_gate c \<and> k_weak s = None then s\<lparr>k_weak := Some c\<rparr>
                else s)
      in case k_shadow s1 of
           None \<Rightarrow> s1\<lparr>k_shadow := Some c\<rparr>
         | Some n \<Rightarrow> if c_dist c < c_dist n then s1\<lparr>k_shadow := Some c\<rparr> else s1)"

definition scan_step :: "candidate \<Rightarrow> key_scan \<Rightarrow> key_scan" where
  "scan_step c s =
     (if c_owned c then scan_owned c s
      else if c_dist c \<ge> c_gate c then s
      else if c_score c < (case k_best s of None \<Rightarrow> 1 | Some (_, best) \<Rightarrow> best)
      then s\<lparr>k_best := Some (c, c_score c)\<rparr> else s)"

type_synonym key_verdict = "string \<times> key_how \<times> real option \<times> real option"

definition verdict_of :: "candidate \<Rightarrow> key_how \<Rightarrow> key_verdict" where
  "verdict_of c how = (c_key c, how, Some (c_dist c), Some (round3 (c_dt c)))"

definition scan_verdict :: "int \<Rightarrow> place \<Rightarrow> key_scan \<Rightarrow> key_verdict" where
  "scan_verdict ts_ms pos s =
     (case k_link s of
        Some (c, _) \<Rightarrow> verdict_of c HowTracks
      | None \<Rightarrow> (case k_weak s of
          Some c \<Rightarrow> verdict_of c HowShadowed
        | None \<Rightarrow>
            (let free = (case k_best s of
                           Some (c, _) \<Rightarrow> verdict_of c (if c_shared c \<ge> 1 then HowTracks else HowProximity)
                         | None \<Rightarrow> (minted_key ts_ms pos, HowMinted, None, None))
             in case k_shadow s of
                  Some c \<Rightarrow> if c_dist c \<le> DARK_FOLLOW_SHADOW_KM then verdict_of c HowShadowed else free
                | None \<Rightarrow> free)))"

text \<open>The anchor an input names: its distance and age where the solve may take it.\<close>

definition anchor_match ::
    "track_world \<Rightarrow> (string, mn_entry) dict \<Rightarrow> place \<Rightarrow> real \<Rightarrow> bool \<Rightarrow> string \<Rightarrow> (real \<times> real) option" where
  "anchor_match w tracks pos ts anchor_dr key =
     (if \<not> is_dark key then None
      else (case dict_get tracks key of
              None \<Rightarrow> None
            | Some a \<Rightarrow> (case e_pos a of
                None \<Rightarrow> None
              | Some p \<Rightarrow>
                  (let dt = ts - entry_time_s a; moving = (anchor_dr \<and> 0 < dt \<and> dt \<le> MN_ASSOC_MAX_AGE_S);
                       d = haversine (geo w) pos (if moving then reckoned w key a p dt else p);
                       gate = (if moving then assoc_gate_km dt MN_ASSOC_MAX_DIST_KM else MN_ASSOC_MAX_DIST_KM)
                   in if d \<le> gate then Some (d, dt) else None))))"

definition solve_candidates :: "track_world \<Rightarrow> (string, mn_entry) dict \<Rightarrow> place \<Rightarrow> real \<Rightarrow> string list \<Rightarrow> bool \<Rightarrow> candidate list" where
  "solve_candidates w tracks pos ts ids shadow_scan =
     List.map_filter (\<lambda>(key, prev). candidate_of w pos ts ids shadow_scan key prev) tracks"

definition multinode_key_decision ::
    "track_world \<Rightarrow> (string, mn_entry) dict \<Rightarrow> place \<Rightarrow> int \<Rightarrow> string option \<Rightarrow> string option \<Rightarrow> bool \<Rightarrow> string list \<Rightarrow> key_verdict" where
  "multinode_key_decision w tracks pos ts_ms adsb anchor anchor_dr ids =
     (let ts = real_of_int ts_ms / 1000;
          named = (case anchor of None \<Rightarrow> None | Some k \<Rightarrow> map_option (\<lambda>(d, dt). (k, HowAnchor, Some d, Some (round3 dt)))
                     (anchor_match w tracks pos ts anchor_dr k));
          shadow_scan = ((anchor = None \<or> anchor = Some []) \<and> f_mode w = FollowBinding)
      in case adsb of
           Some h \<Rightarrow>
             if is_transponder_hex h then (adsb_key h, HowAdsb, None, None)
             else (case named of Some v \<Rightarrow> v
                   | None \<Rightarrow> scan_verdict ts_ms pos (fold scan_step (solve_candidates w tracks pos ts ids shadow_scan) no_scan))
         | None \<Rightarrow> (case named of Some v \<Rightarrow> v
                   | None \<Rightarrow> scan_verdict ts_ms pos (fold scan_step (solve_candidates w tracks pos ts ids shadow_scan) no_scan)))"

subsection \<open>Superseding and retiring\<close>

definition alt_ok :: "real option \<Rightarrow> real option \<Rightarrow> bool" where
  "alt_ok a b = (case a of None \<Rightarrow> True | Some x \<Rightarrow> (case b of None \<Rightarrow> True | Some y \<Rightarrow> \<bar>y - x\<bar> \<le> MN_SUPERSEDE_MAX_ALT_DIFF_M))"

definition supersession_match ::
    "track_world \<Rightarrow> string \<Rightarrow> mn_entry \<Rightarrow> string list \<Rightarrow> place \<Rightarrow> int \<Rightarrow> real option \<Rightarrow> bool \<times> real option" where
  "supersession_match w prior old_r new_ids raw_pos ts_ms alt =
     (let ok = alt_ok (e_alt old_r) alt;
          dt = real_of_int ts_ms / 1000 - entry_time_s old_r;
          dist = (if in_dt_window dt then map_option (\<lambda>p. haversine (geo w) raw_pos (reckoned w prior old_r p dt)) (e_pos old_r) else None);
          gate = assoc_gate_km dt MN_SUPERSEDE_BASE_KM
      in if ok \<and> (case dist of None \<Rightarrow> False | Some d \<Rightarrow> d \<le> gate) then (True, dist)
         else (ok \<and> e_sources old_r \<noteq> [] \<and> set (e_sources old_r) \<subseteq> set new_ids \<and>
               (case dist of None \<Rightarrow> True | Some d \<Rightarrow> d \<le> 2 * gate), dist))"

datatype coast_reason = CoastFound | CoastEvidence | CoastAlt | CoastNone

record coast_scan =
  s_best :: "(string \<times> real) option"
  s_alt :: bool
  s_evidence :: bool

definition coast_gate :: "real \<Rightarrow> real" where
  "coast_gate dt = min MN_STALE_COAST_MAX_KM (MN_STALE_COAST_VMAX_MS * dt / 1000 + MN_STALE_COAST_BASE_KM)"

definition turn_evidence :: "track_world \<Rightarrow> string \<Rightarrow> bool" where
  "turn_evidence w key \<longleftrightarrow> was_dropped (mono_s w) DARK_FOLLOW_COOLDOWN_S key (f_guard w) \<or>
     (case manoeuvre_level (kf w) key of None \<Rightarrow> False | Some m \<Rightarrow> m > MN_STALE_COAST_MANOEUVRE)"

text \<open>How far a coasting entry is from the solve, where its age and its distance allow it.\<close>

definition coasting :: "track_world \<Rightarrow> string \<Rightarrow> place \<Rightarrow> int \<Rightarrow> string \<Rightarrow> mn_entry \<Rightarrow> real option" where
  "coasting w fresh_key raw_pos ts_ms key e =
     (if key = fresh_key \<or> \<not> is_dark key then None
      else (let dt = real_of_int ts_ms / 1000 - entry_time_s e in
        if \<not> (MN_STALE_COAST_MIN_S \<le> dt \<and> dt \<le> MN_STALE_COAST_MAX_S) then None
        else (case e_pos e of
                None \<Rightarrow> None
              | Some p \<Rightarrow> (let d = haversine (geo w) raw_pos p in if d > coast_gate dt then None else Some d))))"

definition coast_step :: "track_world \<Rightarrow> string \<Rightarrow> place \<Rightarrow> int \<Rightarrow> real option \<Rightarrow> string \<times> mn_entry \<Rightarrow> coast_scan \<Rightarrow> coast_scan" where
  "coast_step w fresh_key raw_pos ts_ms alt = (\<lambda>(key, e) s.
     case coasting w fresh_key raw_pos ts_ms key e of
       None \<Rightarrow> s
     | Some d \<Rightarrow>
         if \<not> alt_ok (e_alt e) alt then s\<lparr>s_alt := True\<rparr>
         else if \<not> turn_evidence w key then s\<lparr>s_evidence := True\<rparr>
         else (case s_best s of
                 None \<Rightarrow> s\<lparr>s_best := Some (key, d)\<rparr>
               | Some (_, best) \<Rightarrow> if d < best then s\<lparr>s_best := Some (key, d)\<rparr> else s))"

definition stale_coast_candidate ::
    "track_world \<Rightarrow> (string, mn_entry) dict \<Rightarrow> string \<Rightarrow> place \<Rightarrow> int \<Rightarrow> real option \<Rightarrow> string option \<times> coast_reason" where
  "stale_coast_candidate w tracks fresh_key raw_pos ts_ms alt =
     (let s = fold (coast_step w fresh_key raw_pos ts_ms alt) tracks \<lparr>s_best = None, s_alt = False, s_evidence = False\<rparr>
      in case s_best s of
           Some (k, _) \<Rightarrow> (Some k, CoastFound)
         | None \<Rightarrow> (None, if s_evidence s then CoastEvidence else if s_alt s then CoastAlt else CoastNone))"

subsection \<open>The store and its other inhabitants\<close>

definition TRACK_HISTORY_MAX :: nat where "TRACK_HISTORY_MAX = 60"
definition MN_ASSISTED_EXPIRY_S :: real where "MN_ASSISTED_EXPIRY_S = 60"
definition MN_DARK_EXPIRY_S :: real where "MN_DARK_EXPIRY_S = 30"

text \<open>A deque with a \<open>maxlen\<close> keeps the newest.\<close>

definition newest :: "nat \<Rightarrow> 'a list \<Rightarrow> 'a list" where
  "newest n xs = drop (length xs - n) xs"

type_synonym trail = "(real \<times> real \<times> real \<times> real) list"

text \<open>
  \<open>state.multinode_tracks\<close>, the anomaly set, the EWMA's histories with their sweep, the filter,
  and the two trail stores by display id.
\<close>

record mn_store =
  m_tracks :: "(string, mn_entry) dict"
  m_anomalies :: "string list"
  m_history :: "(string, (place \<times> real) list) dict"
  m_swept :: real
  m_kf :: kf_store
  m_trails :: "(string, trail) dict"
  m_public_trails :: "(string, trail) dict"

definition discard_anomaly :: "string \<Rightarrow> mn_store \<Rightarrow> mn_store" where
  "discard_anomaly h s = s\<lparr>m_anomalies := removeAll h (m_anomalies s)\<rparr>"

definition forget_mn_key :: "(string \<Rightarrow> string) \<Rightarrow> string \<Rightarrow> mn_store \<Rightarrow> mn_store" where
  "forget_mn_key digest key s =
     (let s1 = discard_anomaly (multinode_hex_from_key digest key) (s\<lparr>m_tracks := dict_del (m_tracks s) key\<rparr>)
      in s1\<lparr>m_history := dict_del (m_history s1) key, m_kf := drop_key key (m_kf s1)\<rparr>)"

definition adopt_trail :: "string \<Rightarrow> string \<Rightarrow> (string, trail) dict \<Rightarrow> (string, trail) dict \<times> nat" where
  "adopt_trail from_hex to_hex st =
     (case dict_get st from_hex of
        None \<Rightarrow> (st, 0)
      | Some points \<Rightarrow>
          if points = [] then (st, 0)
          else (dict_set (dict_set st from_hex []) to_hex (newest TRACK_HISTORY_MAX (points @ dict_get_default st to_hex [])), length points))"

definition adopt_track_history :: "string \<Rightarrow> string \<Rightarrow> mn_store \<Rightarrow> mn_store \<times> nat" where
  "adopt_track_history from_hex to_hex s =
     (let (t, n) = adopt_trail from_hex to_hex (m_trails s); (pt, pn) = adopt_trail from_hex to_hex (m_public_trails s)
      in (s\<lparr>m_trails := t, m_public_trails := pt\<rparr>, max n pn))"

subsection \<open>The EWMA smoother\<close>

definition sweep_mn_history :: "real \<Rightarrow> mn_store \<Rightarrow> mn_store" where
  "sweep_mn_history now s =
     (if now - m_swept s < MN_HISTORY_TTL_S / 10 then s
      else s\<lparr>m_swept := now,
             m_history := dict_filter (\<lambda>_ h. \<not> (h = [] \<or> now - snd (last h) > MN_HISTORY_TTL_S)) (m_history s)\<rparr>)"

text \<open>The positions averaged: the solve's own, and each usable earlier one reckoned to its time.\<close>

definition ewma_positions :: "geodesy \<Rightarrow> place \<Rightarrow> real \<Rightarrow> real \<times> real \<Rightarrow> (place \<times> real) list \<Rightarrow> place list" where
  "ewma_positions g pos ts vel h =
     pos # List.map_filter (\<lambda>(p, t). let dt = ts - t in
       if dt \<le> 0 \<or> dt > MN_DR_MAX_AGE_S then None else Some (offset g p (fst vel * dt) (snd vel * dt))) h"

definition mean :: "real list \<Rightarrow> real" where
  "mean xs = sum_list xs / real (length xs)"

definition ewma_smooth_track :: "geodesy \<Rightarrow> string \<Rightarrow> solve_input \<Rightarrow> mn_store \<Rightarrow> mn_store \<times> mn_entry" where
  "ewma_smooth_track g key i s0 =
     (let ts = entry_time_s (si_result i);
          vel = (case si_adsb_vel i of Some v \<Rightarrow> v | None \<Rightarrow> e_vel (si_result i));
          s = sweep_mn_history ts s0;
          h = dict_get_default (m_history s) key [];
          ps = ewma_positions g (si_pos i) ts vel h;
          s' = s\<lparr>m_history := dict_set (m_history s) key (newest MN_HISTORY_K (h @ [(si_pos i, ts)]))\<rparr>
      in if length ps < 2 then (s', si_result i)
         else (s', (si_result i)\<lparr>e_pos := Some (round_to 6 (mean (map fst ps)), round_to 6 (mean (map snd ps)))\<rparr>))"

text \<open>\<open>smooth_solve\<close> (\<open>services/track_filter.py\<close>); \<open>setting\<close> is \<open>TRACK_SMOOTHER\<close>, where it is set.\<close>

datatype smoother = UseKf | UseEwma | UseOff

definition smoother_of :: "string option \<Rightarrow> smoother" where
  "smoother_of setting =
     (let m = (case setting of None \<Rightarrow> ''kf'' | Some v \<Rightarrow> lower (strip (if v = [] then ''kf'' else v)))
      in if m = ''off'' then UseOff else if m = ''ewma'' then UseEwma else UseKf)"

definition smooth_solve :: "geodesy \<Rightarrow> smoother \<Rightarrow> string \<Rightarrow> solve_input \<Rightarrow> mn_store \<Rightarrow> (mn_store \<times> mn_entry) option" where
  "smooth_solve g m key i s =
     (case m of
        UseOff \<Rightarrow> Some (s, si_result i)
      | UseEwma \<Rightarrow> Some (ewma_smooth_track g key i s)
      | UseKf \<Rightarrow> map_option (\<lambda>(k, result, _). (s\<lparr>m_kf := k\<rparr>, result)) (smooth_kf g key i (m_kf s)))"

subsection \<open>Publishing a solve\<close>

record publish_env =
  pe_geo :: geodesy
  pe_dr_source :: string
  pe_smoother :: smoother
  pe_mode :: follow_mode
  pe_guard :: follow_guard
  pe_mono_s :: real
  pe_digest :: "string \<Rightarrow> string"
  pe_coast_enabled :: bool

definition world_of :: "publish_env \<Rightarrow> mn_store \<Rightarrow> track_world" where
  "world_of v s = \<lparr>geo = pe_geo v, kf = m_kf s, dr_source = pe_dr_source v, f_mode = pe_mode v, f_guard = pe_guard v,
     mono_s = pe_mono_s v, hex_digest = pe_digest v\<rparr>"

text \<open>The solver input's part: the anchor, whether the follow lane made it, the node tracks it came from.\<close>

record solve_origin =
  so_adsb :: "string option"
  so_anchor :: "string option"
  so_follow :: bool
  so_tracks :: "string list"

text \<open>What absorbing other keys carries to the winner.\<close>

record absorbed =
  ab_solves :: int
  ab_nodes :: int
  ab_keys :: "string list"

definition absorb :: "string \<Rightarrow> mn_entry \<Rightarrow> absorbed \<Rightarrow> absorbed" where
  "absorb key e a = \<lparr>ab_solves = max (ab_solves a) (e_solves e),
     ab_nodes = max (max (ab_nodes a) (e_max_nodes e)) (e_nodes e), ab_keys = ab_keys a @ [key]\<rparr>"

definition supersede_step ::
    "publish_env \<Rightarrow> string \<Rightarrow> string list \<Rightarrow> place \<Rightarrow> int \<Rightarrow> real option \<Rightarrow> string \<times> mn_entry \<Rightarrow> mn_store \<times> absorbed \<Rightarrow> mn_store \<times> absorbed" where
  "supersede_step v key ids raw_pos ts_ms alt = (\<lambda>(k, e) (s, a).
     if k = key \<or> set ids \<inter> set (e_sources e) = {} then (s, a)
     else if fst (supersession_match (world_of v s) k e ids raw_pos ts_ms alt)
     then (forget_mn_key (pe_digest v) k s, absorb k e a)
     else (s, a))"

definition nothing_absorbed :: absorbed where
  "nothing_absorbed = \<lparr>ab_solves = 0, ab_nodes = 0, ab_keys = []\<rparr>"

definition supersede ::
    "publish_env \<Rightarrow> string \<Rightarrow> string list \<Rightarrow> place \<Rightarrow> int \<Rightarrow> real option \<Rightarrow> mn_store \<Rightarrow> mn_store \<times> absorbed" where
  "supersede v key ids raw_pos ts_ms alt s =
     (if ids = [] then (s, nothing_absorbed)
      else fold (supersede_step v key ids raw_pos ts_ms alt) (m_tracks s) (s, nothing_absorbed))"

definition latch :: "mn_entry \<Rightarrow> mn_entry \<Rightarrow> mn_entry" where
  "latch prev r = r\<lparr>e_anomalous := (e_anomalous r \<or> e_anomalous prev), e_types := sort (remdups (e_types r @ e_types prev))\<rparr>"

text \<open>The mint-time retirement of the key a freshly minted dark key replaces.\<close>

definition retire_coast ::
    "publish_env \<Rightarrow> string \<Rightarrow> key_how \<Rightarrow> place \<Rightarrow> mn_entry \<Rightarrow> mn_store \<times> absorbed \<Rightarrow> mn_store \<times> absorbed \<times> mn_entry \<times> (string, real) dict" where
  "retire_coast v key how raw_pos r = (\<lambda>(s, a).
     if \<not> (pe_coast_enabled v \<and> how = HowMinted \<and> is_dark key) then (s, a, r, [])
     else (case fst (stale_coast_candidate (world_of v s) (m_tracks s) key raw_pos (e_time_ms r) (e_alt r)) of
             None \<Rightarrow> (s, a, r, [])
           | Some k \<Rightarrow> (case dict_get (m_tracks s) k of
               None \<Rightarrow> (s, a, r, [])
             | Some e \<Rightarrow>
                 (let s1 = fst (adopt_track_history (multinode_hex_from_key (pe_digest v) k) (multinode_hex_from_key (pe_digest v) key) s)
                  in (forget_mn_key (pe_digest v) k s1, absorb k e a, (latch e r)\<lparr>e_predecessor := Some k\<rparr>, e_recent e)))))"

record publication =
  pb_key :: string
  pb_how :: key_how
  pb_shadowed :: bool
  pb_absorbed :: "string list"

definition finish_publish ::
    "publish_env \<Rightarrow> solve_origin \<Rightarrow> string \<Rightarrow> key_how \<Rightarrow> place \<Rightarrow> mn_entry \<Rightarrow> mn_store \<Rightarrow> mn_store \<times> absorbed" where
  "finish_publish v ori key how raw_pos smoothed s =
     (let prev = dict_get (m_tracks s) key;
          r1 = (case prev of None \<Rightarrow> smoothed | Some p \<Rightarrow> latch p smoothed)\<lparr>e_sources := sort (so_tracks ori)\<rparr>;
          (s2, a, r2, coast) = retire_coast v key how raw_pos r1
             (supersede v key (e_sources r1) raw_pos (e_time_ms r1) (e_alt r1) s);
          r3 = r2\<lparr>e_solves := max (case prev of None \<Rightarrow> 0 | Some p \<Rightarrow> e_solves p) (ab_solves a) + 1,
                  e_max_nodes := max (max (case prev of None \<Rightarrow> 0 | Some p \<Rightarrow> max (e_max_nodes p) (e_nodes p)) (ab_nodes a)) (e_nodes r2),
                  e_recent := merge_recent_track_ids
                    (case prev of None \<Rightarrow> coast | Some p \<Rightarrow> if e_recent p = [] then coast else e_recent p)
                    (so_tracks ori) (entry_time_s r2)\<rparr>
      in (s2\<lparr>m_tracks := dict_set (m_tracks s2) key r3\<rparr>, a))"

definition publish_solve :: "publish_env \<Rightarrow> solve_origin \<Rightarrow> solve_input \<Rightarrow> mn_store \<Rightarrow> (mn_store \<times> publication) option" where
  "publish_solve v ori i s =
     (let (key, how, _, _) = multinode_key_decision (world_of v s) (m_tracks s) (si_pos i) (e_time_ms (si_result i))
            (so_adsb ori) (so_anchor ori) (so_follow ori) (so_tracks ori)
      in if how = HowShadowed then Some (s, \<lparr>pb_key = key, pb_how = how, pb_shadowed = True, pb_absorbed = []\<rparr>)
         else map_option (\<lambda>(s1, smoothed).
                let (s2, a) = finish_publish v ori key how (si_pos i) smoothed s1
                in (s2, \<lparr>pb_key = key, pb_how = how, pb_shadowed = False, pb_absorbed = ab_keys a\<rparr>))
              (smooth_solve (pe_geo v) (pe_smoother v) key i s))"

subsection \<open>Ageing\<close>

definition mn_expired :: "real \<Rightarrow> string \<Rightarrow> mn_entry \<Rightarrow> bool" where
  "mn_expired now key e \<longleftrightarrow>
     now - entry_time_s e > (if has_prefix ''mn-adsb-'' key then MN_ASSISTED_EXPIRY_S else MN_DARK_EXPIRY_S)"

definition prune_multinode_tracks :: "(string \<Rightarrow> string) \<Rightarrow> real \<Rightarrow> mn_store \<Rightarrow> mn_store" where
  "prune_multinode_tracks digest now s =
     fold (\<lambda>k s. let s1 = discard_anomaly (multinode_hex_from_key digest k) s in s1\<lparr>m_tracks := dict_del (m_tracks s1) k\<rparr>)
       (dict_keys (dict_filter (mn_expired now) (m_tracks s))) s"

subsection \<open>What the scan finds\<close>

lemmas mn_settings =
  MN_ASSOC_MAX_DIST_KM_def MN_ASSOC_DRIFT_KM_PER_S_def MN_ASSOC_MAX_DIST_CAP_KM_def MN_ASSOC_MAX_AGE_S_def MN_ASSOC_MAX_NEG_DT_S_def
  TRACK_LINK_AGE_S_def TRACK_LINK_MIN_SHARED_JOIN_def TRACK_LINK_MAX_IDS_def

text \<open>A candidate the gate admits, and one the follow lane owns that the solve may still take.\<close>

definition admitted :: "candidate \<Rightarrow> bool" where
  "admitted c \<longleftrightarrow> \<not> c_owned c \<and> c_dist c < c_gate c"

definition linked :: "candidate \<Rightarrow> bool" where
  "linked c \<longleftrightarrow> c_owned c \<and> c_shared c \<ge> TRACK_LINK_MIN_SHARED_JOIN \<and> c_dist c \<le> c_gate c"

definition weakly_linked :: "candidate \<Rightarrow> bool" where
  "weakly_linked c \<longleftrightarrow> c_owned c \<and> c_shared c \<ge> 1 \<and> c_dist c \<le> c_gate c"

definition best_ok :: "candidate set \<Rightarrow> (candidate \<times> real) option \<Rightarrow> bool" where
  "best_ok cs o1 \<longleftrightarrow>
     (case o1 of
        None \<Rightarrow> \<forall>c\<in>cs. \<not> admitted c
      | Some (b, v) \<Rightarrow> b \<in> cs \<and> admitted b \<and> v = c_score b \<and> (\<forall>c\<in>cs. admitted c \<longrightarrow> v \<le> c_score c))"

definition link_ok :: "candidate set \<Rightarrow> (candidate \<times> real) option \<Rightarrow> bool" where
  "link_ok cs o1 \<longleftrightarrow>
     (case o1 of
        None \<Rightarrow> \<forall>c\<in>cs. \<not> linked c
      | Some (b, v) \<Rightarrow> b \<in> cs \<and> linked b \<and> v = c_dist b / c_gate b \<and> (\<forall>c\<in>cs. linked c \<longrightarrow> v \<le> c_dist c / c_gate c))"

definition weak_ok :: "candidate set \<Rightarrow> candidate option \<Rightarrow> bool" where
  "weak_ok cs o1 \<longleftrightarrow>
     (case o1 of None \<Rightarrow> \<forall>c\<in>cs. weakly_linked c \<longrightarrow> linked c | Some b \<Rightarrow> b \<in> cs \<and> weakly_linked b)"

definition shadow_ok :: "candidate set \<Rightarrow> candidate option \<Rightarrow> bool" where
  "shadow_ok cs o1 \<longleftrightarrow>
     (case o1 of
        None \<Rightarrow> \<forall>c\<in>cs. \<not> c_owned c
      | Some b \<Rightarrow> b \<in> cs \<and> c_owned b \<and> (\<forall>c\<in>cs. c_owned c \<longrightarrow> c_dist b \<le> c_dist c))"

definition scan_ok :: "candidate set \<Rightarrow> key_scan \<Rightarrow> bool" where
  "scan_ok cs s \<longleftrightarrow> best_ok cs (k_best s) \<and> link_ok cs (k_link s) \<and> weak_ok cs (k_weak s) \<and> shadow_ok cs (k_shadow s)"

lemma c_score_less_1:
  assumes "admitted c" "0 \<le> c_dist c"
  shows "c_score c < 1"
proof -
  have "c_dist c / c_gate c < 1" "0 \<le> c_dist c / c_gate c" using assms by (auto simp: admitted_def divide_less_eq_1)
  moreover have "c_dist c / c_gate c / (1 + real (min (c_shared c) 3)) \<le> c_dist c / c_gate c / 1"
    using calculation(2) by (intro divide_left_mono) auto
  ultimately show ?thesis unfolding c_score_def div_by_1 by linarith
qed

lemma scan_owned_fields:
  "k_best (scan_owned c s) = k_best s"
  "k_link (scan_owned c s) =
     (if c_shared c \<ge> TRACK_LINK_MIN_SHARED_JOIN \<and> c_dist c \<le> c_gate c \<and>
         (case k_link s of None \<Rightarrow> True | Some (_, v) \<Rightarrow> c_dist c / c_gate c < v)
      then Some (c, c_dist c / c_gate c) else k_link s)"
  "k_weak (scan_owned c s) =
     (if \<not> (c_shared c \<ge> TRACK_LINK_MIN_SHARED_JOIN \<and> c_dist c \<le> c_gate c) \<and> c_shared c \<ge> 1 \<and> c_dist c \<le> c_gate c \<and> k_weak s = None
      then Some c else k_weak s)"
  "k_shadow (scan_owned c s) =
     (if (case k_shadow s of None \<Rightarrow> True | Some n \<Rightarrow> c_dist c < c_dist n) then Some c else k_shadow s)"
  by (cases "k_link s"; cases "k_shadow s"; simp add: scan_owned_def Let_def split_beta)+

lemma scan_ok_owned:
  assumes "scan_ok cs s" "c_owned c"
  shows "scan_ok (insert c cs) (scan_owned c s)"
proof -
  have ok: "best_ok cs (k_best s)" "link_ok cs (k_link s)" "weak_ok cs (k_weak s)" "shadow_ok cs (k_shadow s)"
    using assms(1) by (simp_all add: scan_ok_def)
  have "best_ok (insert c cs) (k_best (scan_owned c s))"
    using ok(1) assms(2) by (auto simp: scan_owned_fields best_ok_def admitted_def split: option.splits)
  moreover have "link_ok (insert c cs) (k_link (scan_owned c s))"
    using ok(2) assms(2) by (cases "k_link s") (auto simp: scan_owned_fields link_ok_def linked_def)
  moreover have "weak_ok (insert c cs) (k_weak (scan_owned c s))"
    using ok(3) assms(2) by (cases "k_weak s") (auto simp: scan_owned_fields weak_ok_def linked_def weakly_linked_def)
  moreover have "shadow_ok (insert c cs) (k_shadow (scan_owned c s))"
    using ok(4) assms(2) by (cases "k_shadow s") (auto simp: scan_owned_fields shadow_ok_def)
  ultimately show ?thesis by (simp add: scan_ok_def)
qed

lemma link_ok_insert: "\<not> linked c \<Longrightarrow> link_ok cs b \<Longrightarrow> link_ok (insert c cs) b"
  by (cases b) (auto simp: link_ok_def)

lemma weak_ok_insert: "\<not> weakly_linked c \<Longrightarrow> weak_ok cs b \<Longrightarrow> weak_ok (insert c cs) b"
  by (cases b) (auto simp: weak_ok_def)

lemma shadow_ok_insert: "\<not> c_owned c \<Longrightarrow> shadow_ok cs b \<Longrightarrow> shadow_ok (insert c cs) b"
  by (cases b) (auto simp: shadow_ok_def)

lemma scan_ok_step:
  assumes "scan_ok cs s" "0 \<le> c_dist c"
  shows "scan_ok (insert c cs) (scan_step c s)"
proof (cases "c_owned c")
  case True
  then show ?thesis using scan_ok_owned assms by (simp add: scan_step_def)
next
  case False
  then have "\<not> linked c" "\<not> weakly_linked c" by (simp_all add: linked_def weakly_linked_def)
  then have "link_ok (insert c cs) (k_link s)" "weak_ok (insert c cs) (k_weak s)" "shadow_ok (insert c cs) (k_shadow s)"
    using assms(1) False by (simp_all add: scan_ok_def link_ok_insert weak_ok_insert shadow_ok_insert)
  moreover have "k_link (scan_step c s) = k_link s" "k_weak (scan_step c s) = k_weak s" "k_shadow (scan_step c s) = k_shadow s"
    using False by (auto simp: scan_step_def)
  moreover have "best_ok (insert c cs) (k_best (scan_step c s))"
  proof -
    have best: "best_ok cs (k_best s)" using assms(1) by (simp add: scan_ok_def)
    have eq: "k_best (scan_step c s) =
        (if admitted c \<and> c_score c < (case k_best s of None \<Rightarrow> 1 | Some (_, v) \<Rightarrow> v) then Some (c, c_score c) else k_best s)"
      using False by (simp add: scan_step_def admitted_def)
    have low: "admitted c \<Longrightarrow> c_score c < 1" using c_score_less_1 assms(2) by blast
    show ?thesis
    proof (cases "k_best s")
      case None
      then show ?thesis using best low by (cases "admitted c") (simp_all add: eq best_ok_def)
    next
      case (Some bv)
      then show ?thesis using best by (cases bv) (force simp: eq best_ok_def)
    qed
  qed
  ultimately show ?thesis by (simp add: scan_ok_def)
qed

lemma scan_ok_fold: "(\<And>c. c \<in> set cs \<Longrightarrow> 0 \<le> c_dist c) \<Longrightarrow> scan_ok ds s \<Longrightarrow> scan_ok (set cs \<union> ds) (fold scan_step cs s)"
proof (induction cs arbitrary: ds s)
  case (Cons c cs)
  have "scan_ok (insert c ds) (scan_step c s)" using Cons.prems by (simp add: scan_ok_step)
  with Cons have "scan_ok (set cs \<union> insert c ds) (fold scan_step cs (scan_step c s))" by (meson list.set_intros(2))
  then show ?case by simp
qed simp

lemma scan_ok_all: "(\<And>c. c \<in> set cs \<Longrightarrow> 0 \<le> c_dist c) \<Longrightarrow> scan_ok (set cs) (fold scan_step cs no_scan)"
  using scan_ok_fold [of cs "{}" no_scan]
  by (simp add: scan_ok_def best_ok_def link_ok_def weak_ok_def shadow_ok_def no_scan_def)

subsection \<open>The decision\<close>

lemma candidate_of_SomeD:
  assumes "candidate_of w pos ts ids sh key prev = Some c"
  shows "is_dark key" "c_key c = key" "in_dt_window (c_dt c)" "c_gate c = assoc_gate_km (c_dt c) MN_ASSOC_MAX_DIST_KM"
    "c_shared c = shared_recent_tracks prev ids ts" "c_owned c \<longleftrightarrow> sh \<and> recently_followed key ts DARK_FOLLOW_OWN_S (f_guard w)"
    "c_dt c = ts - entry_time_s prev" "\<exists>p. e_pos prev = Some p \<and> c_dist c = haversine (geo w) pos (reckoned w key prev p (c_dt c))"
  using assms by (auto simp: candidate_of_def Let_def split: if_splits option.splits)

lemma solve_candidatesD:
  assumes "c \<in> set (solve_candidates w tracks pos ts ids sh)"
  shows "\<exists>prev. (c_key c, prev) \<in> set tracks \<and> candidate_of w pos ts ids sh (c_key c) prev = Some c"
  using assms candidate_of_SomeD(2)
  by (fastforce simp: solve_candidates_def List.map_filter_def split: option.splits)

lemma candidate_dist_nonneg:
  assumes "\<And>p q. 0 \<le> haversine (geo w) p q" "c \<in> set (solve_candidates w tracks pos ts ids sh)"
  shows "0 \<le> c_dist c"
  using solve_candidatesD [OF assms(2)] candidate_of_SomeD(8) assms(1) by metis

lemma assoc_gate_le: "assoc_gate_km dt MN_ASSOC_MAX_DIST_KM \<le> 12"
  by (simp add: assoc_gate_km_def mn_settings)

lemma round3_eq: "round3 x = of_int (round_half_even (x * 1000)) / 1000"
  by (simp add: round3_def round_half_even_def Let_def)

lemma round3_bounds: "of_int a \<le> x \<Longrightarrow> x \<le> of_int b \<Longrightarrow> of_int a \<le> round3 x \<and> round3 x \<le> of_int b"
proof -
  assume "of_int a \<le> x" "x \<le> of_int b"
  then have "of_int (a * 1000) \<le> x * 1000" "x * 1000 \<le> of_int (b * 1000)" by simp_all
  then have "a * 1000 \<le> round_half_even (x * 1000)" "round_half_even (x * 1000) \<le> b * 1000"
    using round_half_even_ge round_half_even_le by blast+
  then have "of_int (a * 1000) \<le> (of_int (round_half_even (x * 1000)) :: real)" "(of_int (round_half_even (x * 1000)) :: real) \<le> of_int (b * 1000)"
    by linarith+
  then show ?thesis by (simp add: round3_eq field_simps)
qed

text \<open>The solve's epoch and whether the scan looks for keys the follow lane owns.\<close>

definition shadow_scan :: "track_world \<Rightarrow> string option \<Rightarrow> bool" where
  "shadow_scan w anchor \<longleftrightarrow> (anchor = None \<or> anchor = Some []) \<and> f_mode w = FollowBinding"

definition scan_of :: "track_world \<Rightarrow> (string, mn_entry) dict \<Rightarrow> place \<Rightarrow> int \<Rightarrow> string option \<Rightarrow> string list \<Rightarrow> candidate list" where
  "scan_of w tracks pos ts_ms anchor ids = solve_candidates w tracks pos (real_of_int ts_ms / 1000) ids (shadow_scan w anchor)"

lemma key_decision_cases:
  assumes "\<And>p q. 0 \<le> haversine (geo w) p q"
    and "multinode_key_decision w tracks pos ts_ms adsb anchor dr ids = v"
  obtains (adsb) h where "adsb = Some h" "is_transponder_hex h" "v = (adsb_key h, HowAdsb, None, None)"
  | (anchor) k d dt where "anchor = Some k" "anchor_match w tracks pos (real_of_int ts_ms / 1000) dr k = Some (d, dt)"
      "v = (k, HowAnchor, Some d, Some (round3 dt))"
  | (scan) s where "v = scan_verdict ts_ms pos s" "scan_ok (set (scan_of w tracks pos ts_ms anchor ids)) s"
proof -
  let ?cs = "scan_of w tracks pos ts_ms anchor ids"
  have ok: "scan_ok (set ?cs) (fold scan_step ?cs no_scan)"
    by (rule scan_ok_all) (auto simp: scan_of_def intro: candidate_dist_nonneg [OF assms(1)])
  have eq: "multinode_key_decision w tracks pos ts_ms adsb anchor dr ids =
     (case adsb of
        Some h \<Rightarrow> if is_transponder_hex h then (adsb_key h, HowAdsb, None, None)
                  else (case (case anchor of None \<Rightarrow> None | Some k \<Rightarrow> map_option (\<lambda>(d, dt). (k, HowAnchor, Some d, Some (round3 dt)))
                     (anchor_match w tracks pos (real_of_int ts_ms / 1000) dr k)) of Some v \<Rightarrow> v | None \<Rightarrow> scan_verdict ts_ms pos (fold scan_step ?cs no_scan))
      | None \<Rightarrow> (case (case anchor of None \<Rightarrow> None | Some k \<Rightarrow> map_option (\<lambda>(d, dt). (k, HowAnchor, Some d, Some (round3 dt)))
                     (anchor_match w tracks pos (real_of_int ts_ms / 1000) dr k)) of Some v \<Rightarrow> v | None \<Rightarrow> scan_verdict ts_ms pos (fold scan_step ?cs no_scan)))"
    unfolding multinode_key_decision_def Let_def scan_of_def shadow_scan_def by (rule refl)
  show ?thesis
    using assms(2) adsb anchor scan [OF _ ok] unfolding eq
    by (auto split: option.splits if_splits prod.splits)
qed

text \<open>Every verdict of the scan but a mint names one of the candidates.\<close>

lemma scan_verdict_cases:
  assumes "scan_ok cs s" "scan_verdict ts_ms pos s = (key, how, dkm, dt)"
  obtains (link) c where "c \<in> cs" "linked c" "(key, how, dkm, dt) = verdict_of c HowTracks"
  | (weak) c where "c \<in> cs" "weakly_linked c" "(key, how, dkm, dt) = verdict_of c HowShadowed" "\<And>c'. c' \<in> cs \<Longrightarrow> \<not> linked c'"
  | (shadow) c where "c \<in> cs" "c_owned c" "c_dist c \<le> DARK_FOLLOW_SHADOW_KM" "(key, how, dkm, dt) = verdict_of c HowShadowed"
      "\<And>c'. c' \<in> cs \<Longrightarrow> \<not> weakly_linked c'"
  | (best) c where "c \<in> cs" "admitted c" "\<And>c'. c' \<in> cs \<Longrightarrow> admitted c' \<Longrightarrow> c_score c \<le> c_score c'"
      "(key, how, dkm, dt) = verdict_of c (if c_shared c \<ge> 1 then HowTracks else HowProximity)"
      "\<And>c'. c' \<in> cs \<Longrightarrow> \<not> weakly_linked c'" "\<And>c'. c' \<in> cs \<Longrightarrow> c_owned c' \<Longrightarrow> c_dist c' > DARK_FOLLOW_SHADOW_KM"
  | (mint) "(key, how, dkm, dt) = (minted_key ts_ms pos, HowMinted, None, None)" "\<And>c'. c' \<in> cs \<Longrightarrow> \<not> admitted c'"
      "\<And>c'. c' \<in> cs \<Longrightarrow> \<not> weakly_linked c'" "\<And>c'. c' \<in> cs \<Longrightarrow> c_owned c' \<Longrightarrow> c_dist c' > DARK_FOLLOW_SHADOW_KM"
proof -
  have ok: "best_ok cs (k_best s)" "link_ok cs (k_link s)" "weak_ok cs (k_weak s)" "shadow_ok cs (k_shadow s)"
    using assms(1) by (simp_all add: scan_ok_def)
  let ?free = "case k_best s of Some (c, _) \<Rightarrow> verdict_of c (if c_shared c \<ge> 1 then HowTracks else HowProximity)
                 | None \<Rightarrow> (minted_key ts_ms pos, HowMinted, None, None)"
  show ?thesis
  proof (cases "k_link s")
    case (Some cl)
    then show ?thesis using ok(2) assms(2) link by (cases cl) (auto simp: link_ok_def scan_verdict_def)
  next
    case nolink: None
    then have nl: "\<And>c'. c' \<in> cs \<Longrightarrow> \<not> linked c'" using ok(2) by (simp add: link_ok_def)
    show ?thesis
    proof (cases "k_weak s")
      case (Some c)
      then show ?thesis using ok(3) assms(2) nolink nl weak by (auto simp: weak_ok_def scan_verdict_def)
    next
      case noweak: None
      then have nw: "\<And>c'. c' \<in> cs \<Longrightarrow> \<not> weakly_linked c'" using ok(3) nl by (auto simp: weak_ok_def)
      have free: ?thesis if far: "\<And>c'. c' \<in> cs \<Longrightarrow> c_owned c' \<Longrightarrow> c_dist c' > DARK_FOLLOW_SHADOW_KM" and v: "(key, how, dkm, dt) = ?free"
      proof (cases "k_best s")
        case None
        then show ?thesis using mint v nw far ok(1) by (simp add: best_ok_def)
      next
        case (Some cb)
        then obtain c where c: "k_best s = Some (c, c_score c)" "c \<in> cs" "admitted c" "\<And>c'. c' \<in> cs \<Longrightarrow> admitted c' \<Longrightarrow> c_score c \<le> c_score c'"
          using ok(1) by (cases cb) (auto simp: best_ok_def)
        then show ?thesis using best [OF c(2-4) _ nw far] v by simp
      qed
      show ?thesis
      proof (cases "k_shadow s")
        case None
        then show ?thesis using free ok(4) assms(2) nolink noweak by (simp add: shadow_ok_def scan_verdict_def)
      next
        case (Some c)
        then have c: "c \<in> cs" "c_owned c" "\<And>c'. c' \<in> cs \<Longrightarrow> c_owned c' \<Longrightarrow> c_dist c \<le> c_dist c'"
          using ok(4) by (auto simp: shadow_ok_def)
        show ?thesis
        proof (cases "c_dist c \<le> DARK_FOLLOW_SHADOW_KM")
          case True
          then show ?thesis using shadow [OF c(1,2) True _ nw] assms(2) nolink noweak Some by (simp add: scan_verdict_def Let_def)
        next
          case False
          have "(key, how, dkm, dt) = ?free" using assms(2) nolink noweak Some False by (simp add: scan_verdict_def Let_def)
          moreover have "c_dist c' > DARK_FOLLOW_SHADOW_KM" if "c' \<in> cs" "c_owned c'" for c' using c(3) [OF that] False by simp
          ultimately show ?thesis using free by blast
        qed
      qed
    qed
  qed
qed

lemma verdict_of_eq: "(key, how, dkm, dt) = verdict_of c h \<longleftrightarrow> key = c_key c \<and> how = h \<and> dkm = Some (c_dist c) \<and> dt = Some (round3 (c_dt c))"
  by (simp add: verdict_of_def)

lemma scan_of_key:
  assumes "c \<in> set (scan_of w tracks pos ts_ms anchor ids)"
  obtains prev where "(c_key c, prev) \<in> set tracks"
    "candidate_of w pos (real_of_int ts_ms / 1000) ids (shadow_scan w anchor) (c_key c) prev = Some c"
  using solve_candidatesD [OF assms [unfolded scan_of_def]] by blast

lemma dict_has_mem: "(k, v) \<in> set d \<Longrightarrow> dict_has d k"
  by (simp add: dict_has_def map_of_eq_None_iff) force

text \<open>Where a verdict may send a solve: how far from the solve and how old the entry may be.\<close>

definition joins_near :: "(string, mn_entry) dict \<Rightarrow> key_how \<Rightarrow> string \<Rightarrow> real option \<Rightarrow> real option \<Rightarrow> bool" where
  "joins_near tracks how key dkm dt \<longleftrightarrow> is_dark key \<and> dict_has tracks key \<and>
     (case dkm of None \<Rightarrow> False | Some d \<Rightarrow> d \<le> 12) \<and>
     (how = HowAnchor \<or> (case dt of None \<Rightarrow> False | Some t \<Rightarrow> - 10 \<le> t \<and> t \<le> 60))"

lemma candidate_joins_near:
  assumes "c \<in> set (scan_of w tracks pos ts_ms anchor ids)" "c_dist c \<le> 12"
  shows "joins_near tracks how (c_key c) (Some (c_dist c)) (Some (round3 (c_dt c)))"
proof -
  from assms(1) obtain prev where p: "(c_key c, prev) \<in> set tracks"
    "candidate_of w pos (real_of_int ts_ms / 1000) ids (shadow_scan w anchor) (c_key c) prev = Some c"
    by (rule scan_of_key)
  from candidate_of_SomeD(3) [OF p(2)] have "of_int (- 10) \<le> c_dt c" "c_dt c \<le> of_int 60"
    by (simp_all add: in_dt_window_def mn_settings)
  from round3_bounds [OF this] show ?thesis
    using p assms(2) candidate_of_SomeD(1) [OF p(2)] by (simp add: joins_near_def dict_has_mem)
qed

lemma candidate_gate: "c \<in> set (scan_of w tracks pos ts_ms anchor ids) \<Longrightarrow> c_gate c \<le> 12"
  by (erule scan_of_key) (use assoc_gate_le candidate_of_SomeD(4) in metis)

lemma anchor_joins_near:
  assumes "anchor_match w tracks pos ts dr k = Some (d, dt)"
  shows "joins_near tracks HowAnchor k (Some d) x"
  using assms assoc_gate_le
  by (fastforce simp: anchor_match_def joins_near_def Let_def dict_has_def dict_get_def mn_settings split: if_splits option.splits
      intro: order_trans)


text \<open>C37: A key the follow lane answers for is not stolen: in binding mode an unanchored solve that is keyed onto a live entry followed
  within the ownership window shares at least two recent node tracks with that entry, and is keyed by those tracks.\<close>

theorem followed_keys_are_not_stolen:
  assumes "\<And>p q. 0 \<le> haversine (geo w) p q"
    and "multinode_key_decision w tracks pos ts_ms adsb None dr ids = (key, how, dkm, dt)" "how = HowProximity \<or> how = HowTracks"
    and "f_mode w = FollowBinding" "recently_followed key (real_of_int ts_ms / 1000) DARK_FOLLOW_OWN_S (f_guard w)"
    and "dict_ok tracks" "dict_get tracks key = Some prev"
  shows "how = HowTracks \<and> 2 \<le> shared_recent_tracks prev ids (real_of_int ts_ms / 1000)"
  using assms(1,2)
proof (cases rule: key_decision_cases)
  case (scan s)
  let ?cs = "set (scan_of w tracks pos ts_ms None ids)"
  have owned: "c_owned c \<and> c_shared c = shared_recent_tracks prev ids (real_of_int ts_ms / 1000)" if "c \<in> ?cs" "c_key c = key" for c
  proof -
    from that(1) obtain prev' where p: "(c_key c, prev') \<in> set tracks"
      "candidate_of w pos (real_of_int ts_ms / 1000) ids (shadow_scan w None) (c_key c) prev' = Some c"
      by (rule scan_of_key)
    then have "prev' = prev" using dict_mem_get [OF assms(6)] that(2) assms(7) by fastforce
    then show ?thesis using candidate_of_SomeD(5,6) [OF p(2)] assms(4,5) that(2) by (simp add: shadow_scan_def)
  qed
  from scan(2) scan(1) [symmetric] show ?thesis
  proof (cases rule: scan_verdict_cases)
    case (link c)
    then show ?thesis using owned [of c] by (auto simp: linked_def verdict_of_eq TRACK_LINK_MIN_SHARED_JOIN_def)
  next
    case (best c)
    then show ?thesis using owned [of c] by (auto simp: admitted_def verdict_of_eq)
  qed (use assms(3) in \<open>auto simp: verdict_of_eq\<close>)
qed (use assms(3) in auto)

text \<open>A second key is minted only when no entry fits: no dark entry the scan can see that the follow lane does not own is inside
  its gate, none it owns shares a recent node track with the solve inside its gate, and none it owns is within 2 km; and a solve
  joined by its distance is joined to the entry of the least score among all the gate admits.\<close>

theorem mints_only_where_nothing_fits:
  assumes "\<And>p q. 0 \<le> haversine (geo w) p q"
    and "multinode_key_decision w tracks pos ts_ms adsb anchor dr ids = (key, how, dkm, dt)"
    and "c \<in> set (scan_of w tracks pos ts_ms anchor ids)"
  shows "(how = HowMinted \<longrightarrow> \<not> admitted c \<and> \<not> weakly_linked c \<and> (c_owned c \<longrightarrow> c_dist c > 2)) \<and>
    (how = HowProximity \<longrightarrow> admitted c \<longrightarrow>
       (\<exists>b \<in> set (scan_of w tracks pos ts_ms anchor ids). c_key b = key \<and> admitted b \<and> c_score b \<le> c_score c))"
  using assms(1,2)
proof (cases rule: key_decision_cases)
  case (scan s)
  from scan(2) scan(1) [symmetric] show ?thesis
    by (cases rule: scan_verdict_cases) (use assms(3) in \<open>auto simp: verdict_of_eq DARK_FOLLOW_SHADOW_KM_def\<close>)
qed auto

subsection \<open>The memory of node tracks is bounded\<close>

definition fresh_ids :: "string list \<Rightarrow> real \<Rightarrow> (string, real) dict" where
  "fresh_ids ids ts = fold (\<lambda>tid d. dict_set d tid ts) ids []"

lemma fold_dict_set_get:
  "dict_get (fold (\<lambda>tid d. dict_set d tid ts) ids d) t = (if t \<in> set ids then Some ts else dict_get d t)"
  by (induction ids arbitrary: d) auto

lemma fold_dict_set_ok: "dict_ok d \<Longrightarrow> dict_ok (fold (\<lambda>tid d. dict_set d tid ts) ids d)"
  by (induction ids arbitrary: d) (auto intro: dict_okI)

lemma fresh_ids_get: "dict_get (fresh_ids ids ts) t = (if t \<in> set ids then Some ts else None)"
  by (simp add: fresh_ids_def fold_dict_set_get)

lemma fresh_ids_ok: "dict_ok (fresh_ids ids ts)"
  unfolding fresh_ids_def by (rule fold_dict_set_ok) simp

lemma dict_ok_length: "dict_ok d \<Longrightarrow> length d = card {k. dict_get d k \<noteq> None}"
proof -
  assume "dict_ok d"
  then have "length d = card (set (map fst d))" by (simp add: dict_ok_def distinct_card del: set_map)
  moreover have "{k. dict_get d k \<noteq> None} = set (map fst d)" by (simp add: dict_get_def map_of_eq_None_iff)
  ultimately show ?thesis by simp
qed

lemma fresh_ids_length: "length (fresh_ids ids ts) = card (set ids)"
  by (simp add: dict_ok_length [OF fresh_ids_ok] fresh_ids_get)

lemma merged_get:
  assumes "dict_ok f"
  shows "dict_get (fold (\<lambda>(tid, seen) d. dict_set d tid seen) f d) t = (case dict_get f t of None \<Rightarrow> dict_get d t | Some seen \<Rightarrow> Some seen)"
  using assms
proof (induction f arbitrary: d)
  case (Cons x f)
  obtain a b where x: "x = (a, b)" by (cases x)
  have "dict_ok f" "dict_get f a = None" using Cons.prems by (auto simp: x dict_ok_def dict_get_def map_of_eq_None_iff)
  moreover have "dict_get (x # f) t = (if t = a then Some b else dict_get f t)" by (simp add: x dict_get_def)
  ultimately show ?case using Cons.IH by (cases "t = a") (simp_all add: x split: option.split)
qed simp

lemma merged_ok: "dict_ok d \<Longrightarrow> dict_ok (fold (\<lambda>(tid, seen) d. dict_set d tid seen) f d)"
  by (induction f arbitrary: d) (auto intro: dict_okI)

lemma dict_set_length: "length (dict_set d k v) \<le> Suc (length d)"
  by (induction d) (auto simp: dict_set_def)

lemma merged_length: "length (fold (\<lambda>(tid, seen) d. dict_set d tid seen) f d) \<le> length d + length f"
proof (induction f arbitrary: d)
  case (Cons x f)
  obtain a b where x: "x = (a, b)" by (cases x)
  have "length (fold (\<lambda>(tid, seen) d. dict_set d tid seen) f (dict_set d a b)) \<le> length (dict_set d a b) + length f" by (rule Cons.IH)
  also have "\<dots> \<le> Suc (length d) + length f" using dict_set_length by (rule add_right_mono)
  finally show ?case by (simp add: x)
qed simp

lemma merge_recent_eq:
  "merge_recent_track_ids prev ids ts =
     (let out = dict_filter (\<lambda>_ seen. \<bar>ts - seen\<bar> \<le> TRACK_LINK_AGE_S) prev; fresh = fresh_ids ids ts;
          kept = (if length out + length fresh > TRACK_LINK_MAX_IDS
                  then take (TRACK_LINK_MAX_IDS - length fresh) (sort_key (\<lambda>kv. - snd kv) (dict_filter (\<lambda>tid _. \<not> dict_has fresh tid) out))
                  else out)
      in fold (\<lambda>(tid, seen) d. dict_set d tid seen) fresh kept)"
  unfolding merge_recent_track_ids_def fresh_ids_def by (rule refl)

lemma merge_recent_parts:
  assumes "dict_ok prev"
  obtains kept where "merge_recent_track_ids prev ids ts = fold (\<lambda>(tid, seen) d. dict_set d tid seen) (fresh_ids ids ts) kept"
    "dict_ok kept" "set kept \<subseteq> set prev" "\<And>t seen. (t, seen) \<in> set kept \<Longrightarrow> \<bar>ts - seen\<bar> \<le> TRACK_LINK_AGE_S"
    "length kept + card (set ids) \<le> max TRACK_LINK_MAX_IDS (card (set ids))"
proof -
  let ?out = "dict_filter (\<lambda>_ seen. \<bar>ts - seen\<bar> \<le> TRACK_LINK_AGE_S) prev"
  let ?f = "fresh_ids ids ts"
  let ?rest = "sort_key (\<lambda>kv. - snd kv) (dict_filter (\<lambda>tid _. \<not> dict_has ?f tid) ?out)"
  define kept where "kept = (if length ?out + length ?f > TRACK_LINK_MAX_IDS then take (TRACK_LINK_MAX_IDS - length ?f) ?rest else ?out)"
  have ok: "dict_ok ?out" "dict_ok (dict_filter (\<lambda>tid _. \<not> dict_has ?f tid) ?out)" using assms by (simp_all add: dict_okI)
  have "distinct (map fst ?rest)"
    using ok(2) by (simp add: dict_ok_def distinct_map)
  then have "dict_ok (take n ?rest)" for n by (simp add: dict_ok_def distinct_take flip: take_map)
  then have "dict_ok kept" using ok(1) by (simp add: kept_def)
  moreover have sub: "set kept \<subseteq> set ?out"
    by (auto simp: kept_def dict_filter_def dest: in_set_takeD)
  moreover have "length kept + card (set ids) \<le> max TRACK_LINK_MAX_IDS (card (set ids))"
    by (auto simp: kept_def fresh_ids_length min_def)
  moreover have "merge_recent_track_ids prev ids ts = fold (\<lambda>(tid, seen) d. dict_set d tid seen) ?f kept"
    unfolding merge_recent_eq Let_def kept_def by (rule refl)
  moreover have "set kept \<subseteq> set prev" using sub by (auto simp: dict_filter_def)
  moreover have "\<bar>ts - seen\<bar> \<le> TRACK_LINK_AGE_S" if "(t, seen) \<in> set kept" for t seen
    using subsetD [OF sub that] by (simp add: dict_filter_def)
  ultimately show ?thesis using that by blast
qed

text \<open>An entry's memory of node tracks holds every track of its newest solve at that solve's time, nothing seen more than 40 s from
  it, and never more than 24 tracks, or the solve's own if it has more.\<close>

theorem track_memory_is_bounded:
  assumes "dict_ok prev"
  shows "(\<forall>t \<in> set ids. dict_get (merge_recent_track_ids prev ids ts) t = Some ts) \<and>
    (\<forall>t seen. dict_get (merge_recent_track_ids prev ids ts) t = Some seen \<longrightarrow> \<bar>ts - seen\<bar> \<le> 40) \<and>
    dict_ok (merge_recent_track_ids prev ids ts) \<and> length (merge_recent_track_ids prev ids ts) \<le> max 24 (card (set ids))"
proof -
  from assms obtain kept where k: "merge_recent_track_ids prev ids ts = fold (\<lambda>(tid, seen) d. dict_set d tid seen) (fresh_ids ids ts) kept"
    "dict_ok kept" "set kept \<subseteq> set prev" "\<And>t seen. (t, seen) \<in> set kept \<Longrightarrow> \<bar>ts - seen\<bar> \<le> TRACK_LINK_AGE_S"
    "length kept + card (set ids) \<le> max TRACK_LINK_MAX_IDS (card (set ids))"
    by (rule merge_recent_parts [where ids = ids and ts = ts]) blast
  have "\<bar>ts - seen\<bar> \<le> 40" if "dict_get kept t = Some seen" for t seen
    using k(4) [of t seen] that by (simp add: dict_get_def TRACK_LINK_AGE_S_def map_of_SomeD)
  then show ?thesis
    using merged_length [of "fresh_ids ids ts" kept] k(5) merged_ok [OF k(2)]
    by (auto simp: k(1) merged_get [OF fresh_ids_ok] fresh_ids_get fresh_ids_length TRACK_LINK_MAX_IDS_def)
qed

subsection \<open>What publishing does to the store\<close>

lemma smooth_solve_tracks:
  "smooth_solve g m key i s = Some (s', r) \<Longrightarrow> m_tracks s' = m_tracks s \<and> m_anomalies s' = m_anomalies s \<and>
     m_trails s' = m_trails s \<and> m_public_trails s' = m_public_trails s"
  by (auto simp: smooth_solve_def ewma_smooth_track_def sweep_mn_history_def Let_def split: smoother.splits if_splits)

lemma forget_simps [simp]:
  "m_tracks (forget_mn_key digest k s) = dict_del (m_tracks s) k"
  "m_history (forget_mn_key digest k s) = dict_del (m_history s) k"
  "kf_tracks (m_kf (forget_mn_key digest k s)) = dict_del (kf_tracks (m_kf s)) k"
  "m_anomalies (forget_mn_key digest k s) = removeAll (multinode_hex_from_key digest k) (m_anomalies s)"
  "m_trails (forget_mn_key digest k s) = m_trails s" "m_public_trails (forget_mn_key digest k s) = m_public_trails s"
  by (simp_all add: forget_mn_key_def discard_anomaly_def Let_def drop_key_def)

lemma adopt_simps [simp]:
  "m_tracks (fst (adopt_track_history a b s)) = m_tracks s" "m_history (fst (adopt_track_history a b s)) = m_history s"
  "m_kf (fst (adopt_track_history a b s)) = m_kf s" "m_anomalies (fst (adopt_track_history a b s)) = m_anomalies s"
  by (simp_all add: adopt_track_history_def Let_def split_beta)

text \<open>A key with nothing left under it.\<close>

definition traceless :: "(string \<Rightarrow> string) \<Rightarrow> string \<Rightarrow> mn_store \<Rightarrow> bool" where
  "traceless digest k s \<longleftrightarrow> dict_get (m_tracks s) k = None \<and> dict_get (m_history s) k = None \<and>
     dict_get (kf_tracks (m_kf s)) k = None \<and> multinode_hex_from_key digest k \<notin> set (m_anomalies s)"

lemma traceless_forget: "traceless digest k s \<or> k = k' \<Longrightarrow> traceless digest k (forget_mn_key digest k' s)"
  by (auto simp: traceless_def)

text \<open>
  \<open>s0\<close> is the store before anything was absorbed under \<open>key\<close>: what \<open>a\<close> lists is gone and
  accounted for, everything else is as it was.
\<close>

definition absorbing :: "(string \<Rightarrow> string) \<Rightarrow> string \<Rightarrow> mn_store \<Rightarrow> mn_store \<times> absorbed \<Rightarrow> bool" where
  "absorbing digest key s0 = (\<lambda>(s, a). key \<notin> set (ab_keys a) \<and>
     (\<forall>k \<in> set (ab_keys a). traceless digest k s \<and>
        (\<forall>e. dict_get (m_tracks s0) k = Some e \<longrightarrow> e_solves e \<le> ab_solves a \<and> max (e_max_nodes e) (e_nodes e) \<le> ab_nodes a)) \<and>
     (\<forall>k. k \<notin> set (ab_keys a) \<longrightarrow> dict_get (m_tracks s) k = dict_get (m_tracks s0) k))"

lemma absorbing_absorb:
  assumes "absorbing digest key s0 (s, a)" "k \<noteq> key" "dict_get (m_tracks s0) k = Some e"
    and "m_tracks s1 = m_tracks s" "m_history s1 = m_history s" "m_kf s1 = m_kf s" "m_anomalies s1 = m_anomalies s"
  shows "absorbing digest key s0 (forget_mn_key digest k s1, absorb k e a)"
proof -
  have "traceless digest x (forget_mn_key digest k s1)" if "x \<in> set (ab_keys a) \<or> x = k" for x
    using assms(1,4-7) that by (intro traceless_forget) (auto simp: absorbing_def traceless_def)
  then show ?thesis using assms(1-4) by (auto simp: absorbing_def absorb_def le_max_iff_disj)
qed

lemma supersede_absorbing:
  assumes "dict_ok (m_tracks s)"
  shows "absorbing (pe_digest v) key s (supersede v key ids raw_pos ts_ms alt s)"
proof -
  have start: "absorbing (pe_digest v) key s (s, nothing_absorbed)" by (simp add: absorbing_def nothing_absorbed_def)
  have "absorbing (pe_digest v) key s (fold (supersede_step v key ids raw_pos ts_ms alt) xs sa)"
    if "set xs \<subseteq> set (m_tracks s)" "absorbing (pe_digest v) key s sa" for xs sa
    using that
  proof (induction xs arbitrary: sa)
    case (Cons x xs)
    obtain k e s1 a where x: "x = (k, e)" and sa: "sa = (s1, a)" by (cases x, cases sa)
    have "dict_get (m_tracks s) k = Some e" using Cons.prems(1) dict_mem_get [OF assms] by (simp add: x)
    then have "absorbing (pe_digest v) key s (supersede_step v key ids raw_pos ts_ms alt x sa)"
      using Cons.prems(2) absorbing_absorb [of "pe_digest v" key s s1 a k e s1] by (simp add: x sa supersede_step_def)
    then show ?case using Cons by simp
  qed simp
  then show ?thesis using start by (simp add: supersede_def)
qed

lemma coasting_SomeD: "coasting w key pos ts k e = Some d \<Longrightarrow> k \<noteq> key \<and> is_dark k"
  by (simp add: coasting_def split: if_splits)

lemma coast_step_best:
  "s_best (coast_step w key pos ts alt (k, e) s) = s_best s \<or>
   (\<exists>d. s_best (coast_step w key pos ts alt (k, e) s) = Some (k, d) \<and> coasting w key pos ts k e = Some d)"
proof (cases "coasting w key pos ts k e")
  case (Some d)
  then show ?thesis by (cases "s_best s") (simp_all add: coast_step_def split_beta)
qed (simp add: coast_step_def)

lemma coast_fold_key:
  "s_best (fold (coast_step w key pos ts alt) xs r0) = Some (k, d) \<Longrightarrow>
   s_best r0 = Some (k, d) \<or> k \<noteq> key \<and> is_dark k \<and> (\<exists>e. (k, e) \<in> set xs)"
proof (induction xs arbitrary: r0)
  case (Cons x xs)
  obtain k' e' where x: "x = (k', e')" by (cases x)
  from Cons.prems have "s_best (fold (coast_step w key pos ts alt) xs (coast_step w key pos ts alt (k', e') r0)) = Some (k, d)" by (simp add: x)
  from Cons.IH [OF this] show ?case
    using coast_step_best [of w key pos ts alt k' e' r0] coasting_SomeD [of w key pos ts k' e'] by (auto simp: x)
qed simp

lemma stale_coast_candidate_key:
  assumes "fst (stale_coast_candidate w tracks key pos ts alt) = Some k"
  shows "k \<noteq> key \<and> is_dark k \<and> dict_has tracks k"
proof -
  obtain d where "s_best (fold (coast_step w key pos ts alt) tracks \<lparr>s_best = None, s_alt = False, s_evidence = False\<rparr>) = Some (k, d)"
    using assms by (auto simp: stale_coast_candidate_def Let_def split: option.splits if_splits)
  from coast_fold_key [OF this] show ?thesis using dict_has_mem by fastforce
qed

lemma retire_coast_cases:
  obtains (kept) "retire_coast v key how raw_pos r (s, a) = (s, a, r, [])"
  | (retired) k e where "k \<noteq> key" "is_dark k" "how = HowMinted" "is_dark key" "dict_get (m_tracks s) k = Some e"
      "retire_coast v key how raw_pos r (s, a) =
        (forget_mn_key (pe_digest v) k (fst (adopt_track_history (multinode_hex_from_key (pe_digest v) k) (multinode_hex_from_key (pe_digest v) key) s)),
         absorb k e a, (latch e r)\<lparr>e_predecessor := Some k\<rparr>, e_recent e)"
proof (cases "pe_coast_enabled v \<and> how = HowMinted \<and> is_dark key")
  case False
  then show ?thesis using kept by (auto simp: retire_coast_def)
next
  case True
  let ?c = "fst (stale_coast_candidate (world_of v s) (m_tracks s) key raw_pos (e_time_ms r) (e_alt r))"
  show ?thesis
  proof (cases ?c)
    case None
    then show ?thesis using kept True by (simp add: retire_coast_def)
  next
    case (Some k)
    then have k: "k \<noteq> key" "is_dark k" "dict_has (m_tracks s) k" using stale_coast_candidate_key by blast+
    then obtain e where "dict_get (m_tracks s) k = Some e" by (auto simp: dict_has_def dict_get_def)
    then show ?thesis using retired [of k e] k True Some by (simp add: retire_coast_def Let_def)
  qed
qed

lemma retire_coast_absorbing:
  assumes "absorbing (pe_digest v) key s0 (s, a)" "retire_coast v key how raw_pos r (s, a) = (s', a', r', coast)"
  shows "absorbing (pe_digest v) key s0 (s', a')" "e_time_ms r' = e_time_ms r" "e_nodes r' = e_nodes r"
    "coast = [] \<or> (\<exists>k e. dict_get (m_tracks s0) k = Some e \<and> coast = e_recent e)"
proof -
  have "absorbing (pe_digest v) key s0 (s', a') \<and> e_time_ms r' = e_time_ms r \<and> e_nodes r' = e_nodes r \<and>
    (coast = [] \<or> (\<exists>k e. dict_get (m_tracks s0) k = Some e \<and> coast = e_recent e))"
  proof (cases rule: retire_coast_cases [of v key how raw_pos r s a])
    case kept
    then show ?thesis using assms by simp
  next
    case (retired k e)
    have "dict_get (m_tracks s0) k = Some e"
      using assms(1) retired(5) by (cases "k \<in> set (ab_keys a)") (auto simp: absorbing_def traceless_def)
    moreover from absorbing_absorb [OF assms(1) retired(1) this]
    have "absorbing (pe_digest v) key s0
      (forget_mn_key (pe_digest v) k (fst (adopt_track_history (multinode_hex_from_key (pe_digest v) k) (multinode_hex_from_key (pe_digest v) key) s)), absorb k e a)"
      by simp
    ultimately show ?thesis using assms(2) retired(6) by (auto simp: latch_def)
  qed
  then show "absorbing (pe_digest v) key s0 (s', a')" "e_time_ms r' = e_time_ms r" "e_nodes r' = e_nodes r"
    "coast = [] \<or> (\<exists>k e. dict_get (m_tracks s0) k = Some e \<and> coast = e_recent e)" by simp_all
qed

text \<open>The publishing of an unshadowed solve, opened once: what it leaves under its key and what it absorbed.\<close>

lemma finish_publish_cases:
  assumes "dict_ok (m_tracks s)" "finish_publish v ori key how raw_pos r0 s = (s', a)"
  obtains s2 r where "absorbing (pe_digest v) key s (s2, a)" "s' = s2\<lparr>m_tracks := dict_set (m_tracks s2) key r\<rparr>"
    "e_solves r = max (case dict_get (m_tracks s) key of None \<Rightarrow> 0 | Some p \<Rightarrow> e_solves p) (ab_solves a) + 1"
    "ab_nodes a \<le> e_max_nodes r" "e_nodes r0 \<le> e_max_nodes r"
    "\<And>p. dict_get (m_tracks s) key = Some p \<Longrightarrow> max (e_max_nodes p) (e_nodes p) \<le> e_max_nodes r"
    "\<exists>prev. (prev = [] \<or> (\<exists>k e. dict_get (m_tracks s) k = Some e \<and> prev = e_recent e)) \<and>
       e_recent r = merge_recent_track_ids prev (so_tracks ori) (entry_time_s r0)"
proof -
  define r1 where "r1 = (case dict_get (m_tracks s) key of None \<Rightarrow> r0 | Some p \<Rightarrow> latch p r0)\<lparr>e_sources := sort (so_tracks ori)\<rparr>"
  obtain s1 a1 where sup: "supersede v key (e_sources r1) raw_pos (e_time_ms r1) (e_alt r1) s = (s1, a1)" by fastforce
  obtain s2 a2 r2 coast where ret: "retire_coast v key how raw_pos r1 (s1, a1) = (s2, a2, r2, coast)" by (metis prod_cases4)
  have "absorbing (pe_digest v) key s (s1, a1)" using supersede_absorbing [OF assms(1), of v key] sup by metis
  note ab = retire_coast_absorbing [OF this ret]
  have same: "e_time_ms r1 = e_time_ms r0" "e_nodes r1 = e_nodes r0" by (simp_all add: r1_def latch_def split: option.splits)
  let ?prev = "case dict_get (m_tracks s) key of None \<Rightarrow> coast | Some p \<Rightarrow> if e_recent p = [] then coast else e_recent p"
  define r3 where "r3 = r2\<lparr>e_solves := max (case dict_get (m_tracks s) key of None \<Rightarrow> 0 | Some p \<Rightarrow> e_solves p) (ab_solves a2) + 1,
       e_max_nodes := max (max (case dict_get (m_tracks s) key of None \<Rightarrow> 0 | Some p \<Rightarrow> max (e_max_nodes p) (e_nodes p)) (ab_nodes a2)) (e_nodes r2),
       e_recent := merge_recent_track_ids ?prev (so_tracks ori) (entry_time_s r2)\<rparr>"
  have eq: "s' = s2\<lparr>m_tracks := dict_set (m_tracks s2) key r3\<rparr>" "a = a2"
    using assms(2) unfolding finish_publish_def Let_def r1_def [symmetric] sup ret by (auto simp: r3_def)
  have prev: "?prev = [] \<or> (\<exists>k e. dict_get (m_tracks s) k = Some e \<and> ?prev = e_recent e)"
    using ab(4) by (cases "dict_get (m_tracks s) key") auto
  have time: "entry_time_s r2 = entry_time_s r0" using ab(2) same by (simp add: entry_time_s_def)
  show ?thesis
  proof (rule that)
    show "absorbing (pe_digest v) key s (s2, a)" using ab(1) eq(2) by simp
    show "\<exists>prev. (prev = [] \<or> (\<exists>k e. dict_get (m_tracks s) k = Some e \<and> prev = e_recent e)) \<and>
       e_recent r3 = merge_recent_track_ids prev (so_tracks ori) (entry_time_s r0)"
      using prev time by (auto simp: r3_def)
  qed (use eq ab same in \<open>auto simp: r3_def\<close>)
qed

lemma publish_solve_cases:
  assumes "publish_solve v ori i s = Some (s', pb)"
  obtains (shadowed) "s' = s" "pb_shadowed pb" "pb_absorbed pb = []"
  | (published) key how dkm dt s1 r0 a where
      "multinode_key_decision (world_of v s) (m_tracks s) (si_pos i) (e_time_ms (si_result i)) (so_adsb ori) (so_anchor ori) (so_follow ori) (so_tracks ori)
         = (key, how, dkm, dt)"
      "how \<noteq> HowShadowed" "smooth_solve (pe_geo v) (pe_smoother v) key i s = Some (s1, r0)"
      "finish_publish v ori key how (si_pos i) r0 s1 = (s', a)" "\<not> pb_shadowed pb" "pb_key pb = key" "pb_how pb = how" "pb_absorbed pb = ab_keys a"
proof -
  obtain key how dkm dt where d: "multinode_key_decision (world_of v s) (m_tracks s) (si_pos i) (e_time_ms (si_result i)) (so_adsb ori)
      (so_anchor ori) (so_follow ori) (so_tracks ori) = (key, how, dkm, dt)" by (metis prod_cases4)
  show ?thesis
  proof (cases "how = HowShadowed")
    case True
    then show ?thesis using assms shadowed by (auto simp: publish_solve_def d)
  next
    case False
    with assms obtain s1 r0 where "smooth_solve (pe_geo v) (pe_smoother v) key i s = Some (s1, r0)"
        "(let (s2, a) = finish_publish v ori key how (si_pos i) r0 s1
          in (s2, \<lparr>pb_key = key, pb_how = how, pb_shadowed = False, pb_absorbed = ab_keys a\<rparr>)) = (s', pb)"
      by (auto simp: publish_solve_def d)
    then show ?thesis using published [OF d False] by (cases "finish_publish v ori key how (si_pos i) r0 s1") auto
  qed
qed

text \<open>C38: Publishing accounts for every entry of the store: a shadowed solve changes nothing, and a published one leaves under its key
  a solve count above that of the entry it replaces and of every entry it absorbed, and a widest solve no narrower than theirs;
  what it absorbed is gone and every other entry is exactly as it was.\<close>

theorem publishing_accounts_for_every_entry:
  assumes "dict_ok (m_tracks s)" "publish_solve v ori i s = Some (s', pb)" "dict_get (m_tracks s) k = Some e"
  shows "(pb_shadowed pb \<longrightarrow> s' = s) \<and>
    (k \<in> set (pb_absorbed pb) \<longrightarrow> dict_get (m_tracks s') k = None) \<and>
    (k = pb_key pb \<or> k \<in> set (pb_absorbed pb) \<longrightarrow> pb_shadowed pb \<or>
      (\<exists>r. dict_get (m_tracks s') (pb_key pb) = Some r \<and> e_solves e < e_solves r \<and> max (e_max_nodes e) (e_nodes e) \<le> e_max_nodes r)) \<and>
    (k \<noteq> pb_key pb \<and> k \<notin> set (pb_absorbed pb) \<longrightarrow> dict_get (m_tracks s') k = Some e)"
  using assms(2)
proof (cases rule: publish_solve_cases)
  case shadowed
  then show ?thesis using assms(3) by simp
next
  case (published key how dkm dt s1 r0 a)
  have t: "m_tracks s1 = m_tracks s" using smooth_solve_tracks [OF published(3)] by simp
  then have ok: "dict_ok (m_tracks s1)" using assms(1) by simp
  from ok published(4) obtain s2 r where f: "absorbing (pe_digest v) key s1 (s2, a)" "s' = s2\<lparr>m_tracks := dict_set (m_tracks s2) key r\<rparr>"
    "e_solves r = max (case dict_get (m_tracks s1) key of None \<Rightarrow> 0 | Some p \<Rightarrow> e_solves p) (ab_solves a) + 1"
    "ab_nodes a \<le> e_max_nodes r" "\<And>p. dict_get (m_tracks s1) key = Some p \<Longrightarrow> max (e_max_nodes p) (e_nodes p) \<le> e_max_nodes r"
    by (rule finish_publish_cases) blast
  have ab: "key \<notin> set (ab_keys a)" "\<And>x. x \<in> set (ab_keys a) \<Longrightarrow> dict_get (m_tracks s2) x = None"
    "\<And>x y. x \<in> set (ab_keys a) \<Longrightarrow> dict_get (m_tracks s) x = Some y \<Longrightarrow> e_solves y \<le> ab_solves a \<and> max (e_max_nodes y) (e_nodes y) \<le> ab_nodes a"
    "\<And>x. x \<notin> set (ab_keys a) \<Longrightarrow> dict_get (m_tracks s2) x = dict_get (m_tracks s) x"
    using f(1) t by (auto simp: absorbing_def traceless_def)
  consider "k = key" | "k \<noteq> key" "k \<in> set (ab_keys a)" | "k \<noteq> key" "k \<notin> set (ab_keys a)" by blast
  then show ?thesis
  proof cases
    case 1
    then show ?thesis using f(2,3) f(5) [of e] ab(1) assms(3) t published(5-) by simp
  next
    case 2
    then show ?thesis using f(2-4) ab(2,3) [OF 2(2)] assms(3) published(5-) by fastforce
  next
    case 3
    then show ?thesis using f(2) ab(4) [OF 3(2)] assms(3) published(5-) by simp
  qed
qed

text \<open>C39: A key absorbed by another leaves no trace: afterwards neither the tracks, the smoother's history, the filter nor the anomaly set
  holds anything under it.\<close>

theorem absorbed_keys_leave_no_trace:
  assumes "dict_ok (m_tracks s)" "publish_solve v ori i s = Some (s', pb)" "k \<in> set (pb_absorbed pb)"
  shows "dict_get (m_tracks s') k = None \<and> dict_get (m_history s') k = None \<and> dict_get (kf_tracks (m_kf s')) k = None \<and>
    multinode_hex_from_key (pe_digest v) k \<notin> set (m_anomalies s')"
  using assms(2)
proof (cases rule: publish_solve_cases)
  case shadowed
  then show ?thesis using assms(3) by simp
next
  case (published key how dkm dt s1 r0 a)
  have "dict_ok (m_tracks s1)" using smooth_solve_tracks [OF published(3)] assms(1) by simp
  then obtain s2 r where f: "absorbing (pe_digest v) key s1 (s2, a)" "s' = s2\<lparr>m_tracks := dict_set (m_tracks s2) key r\<rparr>"
    using published(4) by (rule finish_publish_cases) blast
  have "k \<noteq> key" "traceless (pe_digest v) k s2" using f(1) assms(3) published(8) by (auto simp: absorbing_def)
  then show ?thesis using f(2) by (simp add: traceless_def)
qed

subsection \<open>Ageing is exact\<close>

lemma prune_fold:
  "m_tracks (fold (\<lambda>k s. let s1 = discard_anomaly (multinode_hex_from_key digest k) s in s1\<lparr>m_tracks := dict_del (m_tracks s1) k\<rparr>) ks s) =
     fold (\<lambda>k d. dict_del d k) ks (m_tracks s) \<and>
   set (m_anomalies (fold (\<lambda>k s. let s1 = discard_anomaly (multinode_hex_from_key digest k) s in s1\<lparr>m_tracks := dict_del (m_tracks s1) k\<rparr>) ks s)) =
     set (m_anomalies s) - multinode_hex_from_key digest ` set ks"
  by (induction ks arbitrary: s) (auto simp: discard_anomaly_def Let_def)

lemma fold_del_filter: "fold (\<lambda>k d. dict_del d k) ks d = filter (\<lambda>kv. fst kv \<notin> set ks) d"
  by (induction ks arbitrary: d) (auto simp: dict_del_def AList.delete_eq intro: filter_cong)

text \<open>A pruning pass keeps exactly the entries whose age is within their lane's limit, 60 s for a transponder's and 30 s for a dark
  one, in their order, and takes from the anomaly set exactly the display ids of those it dropped.\<close>

theorem pruning_is_exact:
  assumes "dict_ok (m_tracks s)"
  shows "m_tracks (prune_multinode_tracks digest now s) =
      dict_filter (\<lambda>k e. now - entry_time_s e \<le> (if has_prefix ''mn-adsb-'' k then 60 else 30)) (m_tracks s) \<and>
    set (m_anomalies (prune_multinode_tracks digest now s)) =
      set (m_anomalies s) - multinode_hex_from_key digest ` set (dict_keys (dict_filter (mn_expired now) (m_tracks s)))"
proof -
  have limit: "mn_expired now k e \<longleftrightarrow> \<not> now - entry_time_s e \<le> (if has_prefix ''mn-adsb-'' k then 60 else 30)" for k e
    by (auto simp: mn_expired_def MN_ASSISTED_EXPIRY_S_def MN_DARK_EXPIRY_S_def)
  have gone: "k \<in> set (dict_keys (dict_filter (mn_expired now) (m_tracks s))) \<longleftrightarrow> mn_expired now k e" if "(k, e) \<in> set (m_tracks s)" for k e
  proof -
    have "k \<in> set (dict_keys (dict_filter (mn_expired now) (m_tracks s))) \<longleftrightarrow> (\<exists>x. (k, x) \<in> set (m_tracks s) \<and> mn_expired now k x)"
      by (auto simp: dict_keys_def dict_filter_def image_iff)
    then show ?thesis using that dict_mem_get [OF assms] by (metis option.inject)
qed
  have "filter (\<lambda>kv. fst kv \<notin> set (dict_keys (dict_filter (mn_expired now) (m_tracks s)))) (m_tracks s) =
        dict_filter (\<lambda>k e. \<not> mn_expired now k e) (m_tracks s)"
    unfolding dict_filter_def using gone by (intro filter_cong) (auto simp: dict_filter_def)
  then have "m_tracks (prune_multinode_tracks digest now s) = dict_filter (\<lambda>k e. \<not> mn_expired now k e) (m_tracks s)"
    by (simp add: prune_multinode_tracks_def prune_fold fold_del_filter)
  then show ?thesis by (simp add: limit prune_multinode_tracks_def prune_fold)
qed

subsection \<open>The store's life\<close>

definition mn_key_ok :: "string \<Rightarrow> bool" where
  "mn_key_ok k \<longleftrightarrow> is_dark k \<or> (\<exists>h. is_transponder_hex h \<and> k = adsb_key h)"

definition tracks_ok :: "(string, mn_entry) dict \<Rightarrow> bool" where
  "tracks_ok d \<longleftrightarrow> dict_ok d \<and> (\<forall>k e. dict_get d k = Some e \<longrightarrow> mn_key_ok k \<and> dict_ok (e_recent e))"

definition history_ok :: "(string, (place \<times> real) list) dict \<Rightarrow> bool" where
  "history_ok d \<longleftrightarrow> dict_ok d \<and> (\<forall>k h. dict_get d k = Some h \<longrightarrow> length h \<le> MN_HISTORY_K)"

definition trails_ok :: "(string, trail) dict \<Rightarrow> bool" where
  "trails_ok d \<longleftrightarrow> (\<forall>k t. dict_get d k = Some t \<longrightarrow> length t \<le> TRACK_HISTORY_MAX)"

definition mn_ok :: "mn_store \<Rightarrow> bool" where
  "mn_ok s \<longleftrightarrow> tracks_ok (m_tracks s) \<and> history_ok (m_history s) \<and> kf_ok (m_kf s) \<and> trails_ok (m_trails s) \<and> trails_ok (m_public_trails s)"

lemma tracks_ok_del: "tracks_ok d \<Longrightarrow> tracks_ok (dict_del d k)"
  by (simp add: tracks_ok_def)

lemma history_ok_del: "history_ok d \<Longrightarrow> history_ok (dict_del d k)"
  by (simp add: history_ok_def)

lemma newest_length: "length (newest n xs) \<le> n"
  by (simp add: newest_def)

lemma adopt_trail_ok: "trails_ok d \<Longrightarrow> trails_ok (fst (adopt_trail a b d))"
  by (auto simp: adopt_trail_def trails_ok_def newest_length split: option.split)

lemma mn_ok_adopt: "mn_ok s \<Longrightarrow> mn_ok (fst (adopt_track_history a b s))"
  using adopt_trail_ok by (simp add: mn_ok_def adopt_track_history_def split_beta Let_def)

lemma forget_kf: "m_kf (forget_mn_key digest k s) = drop_key k (m_kf s)"
  by (simp add: forget_mn_key_def discard_anomaly_def Let_def)

lemma mn_ok_forget: "mn_ok s \<Longrightarrow> mn_ok (forget_mn_key digest k s)"
  by (simp add: mn_ok_def tracks_ok_del history_ok_del forget_kf kf_ok_drop)

lemma mn_ok_supersede: "mn_ok s \<Longrightarrow> mn_ok (fst (supersede v key ids raw_pos ts_ms alt s))"
proof -
  have "mn_ok (fst sa) \<Longrightarrow> mn_ok (fst (fold (supersede_step v key ids raw_pos ts_ms alt) xs sa))" for xs sa
    by (induction xs arbitrary: sa) (auto simp: supersede_step_def split_beta mn_ok_forget)
  then show "mn_ok s \<Longrightarrow> ?thesis" by (simp add: supersede_def)
qed

lemma mn_ok_retire: "mn_ok s \<Longrightarrow> mn_ok (fst (retire_coast v key how raw_pos r (s, a)))"
  by (rule retire_coast_cases [of v key how raw_pos r s a]) (simp_all add: mn_ok_forget mn_ok_adopt)

lemma history_ok_sweep: "history_ok (m_history s) \<Longrightarrow> history_ok (m_history (sweep_mn_history now s))"
  by (auto simp: history_ok_def sweep_mn_history_def dict_get_filter split: option.splits if_splits)

lemma mn_ok_smooth: "mn_ok s \<Longrightarrow> smooth_solve g m key i s = Some (s', r) \<Longrightarrow> mn_ok s'"
proof (cases m)
  case UseEwma
  assume ok: "mn_ok s" and "smooth_solve g m key i s = Some (s', r)"
  then have s': "s' = fst (ewma_smooth_track g key i s)" using UseEwma by (simp add: smooth_solve_def)
  have "history_ok (dict_set (m_history (sweep_mn_history t s)) key (newest MN_HISTORY_K h))" for t h
    using history_ok_sweep [of s] ok by (auto simp: mn_ok_def history_ok_def newest_length)
  moreover have "m_tracks (sweep_mn_history t s) = m_tracks s \<and> m_kf (sweep_mn_history t s) = m_kf s \<and>
      m_trails (sweep_mn_history t s) = m_trails s \<and> m_public_trails (sweep_mn_history t s) = m_public_trails s" for t
    by (simp add: sweep_mn_history_def)
  ultimately show ?thesis using ok by (simp add: s' mn_ok_def ewma_smooth_track_def Let_def)
qed (auto simp: smooth_solve_def mn_ok_def intro: kf_ok_smooth)

lemma mn_ok_set: "mn_ok s \<Longrightarrow> mn_key_ok k \<Longrightarrow> dict_ok (e_recent r) \<Longrightarrow> mn_ok (s\<lparr>m_tracks := dict_set (m_tracks s) k r\<rparr>)"
  by (auto simp: mn_ok_def tracks_ok_def)

lemma minted_is_dark: "is_dark (minted_key ts pos)"
  by (simp add: is_dark_def minted_key_def MN_DARK_PREFIX_def)

lemma decided_key_ok:
  assumes "\<And>p q. 0 \<le> haversine (geo w) p q"
    and "multinode_key_decision w tracks pos ts_ms adsb anchor dr ids = (key, how, dkm, dt)"
  shows "mn_key_ok key"
  using assms
proof (cases rule: key_decision_cases)
  case (anchor k d t)
  then show ?thesis using anchor_joins_near by (fastforce simp: mn_key_ok_def joins_near_def)
next
  case (scan s)
  have cand: "mn_key_ok (c_key c)" if "c \<in> set (scan_of w tracks pos ts_ms anchor ids)" for c
    using that by (rule scan_of_key) (use candidate_of_SomeD(1) in \<open>auto simp: mn_key_ok_def\<close>)
  from scan(2) scan(1) [symmetric] show ?thesis
    by (cases rule: scan_verdict_cases) (simp_all add: verdict_of_eq mn_key_ok_def [of "minted_key _ _"] minted_is_dark cand)
qed (auto simp: mn_key_ok_def)

lemma mn_ok_publish:
  assumes ok: "mn_ok s" and geo: "\<And>p q. 0 \<le> haversine (pe_geo v) p q" and pub: "publish_solve v ori i s = Some (s', pb)"
  shows "mn_ok s'"
  using pub
proof (cases rule: publish_solve_cases)
  case (published key how dkm dt s1 r0 a)
  have ok1: "mn_ok s1" using mn_ok_smooth [OF ok published(3)] .
  then have t1: "tracks_ok (m_tracks s1)" by (simp add: mn_ok_def)
  obtain s2 where s2: "mn_ok s2" "\<exists>r. s' = s2\<lparr>m_tracks := dict_set (m_tracks s2) key r\<rparr>"
  proof -
    let ?r1 = "(case dict_get (m_tracks s1) key of None \<Rightarrow> r0 | Some p \<Rightarrow> latch p r0)\<lparr>e_sources := sort (so_tracks ori)\<rparr>"
    let ?sa = "supersede v key (e_sources ?r1) (si_pos i) (e_time_ms ?r1) (e_alt ?r1) s1"
    have "mn_ok (fst ?sa)" using ok1 by (rule mn_ok_supersede)
    then have "mn_ok (fst (retire_coast v key how (si_pos i) ?r1 ?sa))" using mn_ok_retire by (cases ?sa) simp
    moreover have "\<exists>r. s' = (fst (retire_coast v key how (si_pos i) ?r1 ?sa))\<lparr>m_tracks := dict_set (m_tracks (fst (retire_coast v key how (si_pos i) ?r1 ?sa))) key r\<rparr>"
      using published(4) unfolding finish_publish_def Let_def by (auto split: prod.splits)
    ultimately show ?thesis by (rule that)
  qed
  have "dict_ok (m_tracks s1)" using t1 by (simp add: tracks_ok_def)
  then obtain s3 r where f: "s' = s3\<lparr>m_tracks := dict_set (m_tracks s3) key r\<rparr>"
    "\<exists>prev. (prev = [] \<or> (\<exists>k e. dict_get (m_tracks s1) k = Some e \<and> prev = e_recent e)) \<and>
       e_recent r = merge_recent_track_ids prev (so_tracks ori) (entry_time_s r0)"
    using published(4) by (rule finish_publish_cases) blast
  then have "dict_ok (e_recent r)"
  proof -
    from f(2) obtain prev where "prev = [] \<or> (\<exists>k e. dict_get (m_tracks s1) k = Some e \<and> prev = e_recent e)"
      and e: "e_recent r = merge_recent_track_ids prev (so_tracks ori) (entry_time_s r0)" by blast
    then have "dict_ok prev" using t1 by (auto simp: tracks_ok_def)
    from merge_recent_parts [OF this] show ?thesis by (metis e merged_ok)
  qed
  moreover have "mn_key_ok key" using decided_key_ok [OF _ published(1)] geo by (simp add: world_of_def)
  moreover obtain r' where r': "s' = s2\<lparr>m_tracks := dict_set (m_tracks s2) key r'\<rparr>" using s2(2) by blast
  moreover have "r' = r"
  proof -
    have "dict_get (m_tracks s') key = Some r'" using r' by simp
    then show ?thesis using f(1) by simp
  qed
  ultimately show ?thesis using s2(1) by (simp add: mn_ok_set)
qed (use ok in simp)

lemma mn_ok_prune: "mn_ok s \<Longrightarrow> mn_ok (prune_multinode_tracks digest now s)"
proof -
  have "mn_ok s \<Longrightarrow> mn_ok (fold (\<lambda>k s. let s1 = discard_anomaly (multinode_hex_from_key digest k) s in s1\<lparr>m_tracks := dict_del (m_tracks s1) k\<rparr>) ks s)" for ks
    by (induction ks arbitrary: s) (auto simp: discard_anomaly_def Let_def mn_ok_def tracks_ok_del)
  then show "mn_ok s \<Longrightarrow> ?thesis" by (simp add: prune_multinode_tracks_def)
qed

definition boot_mn :: mn_store where
  "boot_mn = \<lparr>m_tracks = [], m_anomalies = [], m_history = [], m_swept = 0, m_kf = boot_kf, m_trails = [], m_public_trails = []\<rparr>"

text \<open>The store from boot on: published solves under any settings, expiries, and anomalies raised by the feed.\<close>

inductive mn_reach :: "mn_store \<Rightarrow> bool" where
  mn_boot: "mn_reach boot_mn"
| mn_publish: "mn_reach s \<Longrightarrow> (\<And>p q. 0 \<le> haversine (pe_geo v) p q) \<Longrightarrow> publish_solve v ori i s = Some (s', pb) \<Longrightarrow> mn_reach s'"
| mn_prune: "mn_reach s \<Longrightarrow> mn_reach (prune_multinode_tracks digest now s)"
| mn_raise: "mn_reach s \<Longrightarrow> mn_reach (s\<lparr>m_anomalies := h # m_anomalies s\<rparr>)"

inductive_simps mn_reach_boot [simp]: "mn_reach boot_mn"

lemma mn_reach_ok: "mn_reach s \<Longrightarrow> mn_ok s"
proof (induction rule: mn_reach.induct)
  case mn_boot
  show ?case by (simp add: mn_ok_def tracks_ok_def history_ok_def trails_ok_def kf_ok_def boot_mn_def boot_kf_def)
next
  case (mn_publish s v ori i s' pb)
  then show ?case by (blast intro: mn_ok_publish)
qed (simp_all add: mn_ok_prune, simp add: mn_ok_def)

lemma smooth_solve_answers: "mn_ok s \<Longrightarrow> \<exists>s' r. smooth_solve g m key i s = Some (s', r)"
proof (cases m)
  case UseKf
  assume "mn_ok s"
  then have "kf_ok (m_kf s)" by (simp add: mn_ok_def)
  then obtain k r st where "smooth_kf g key i (m_kf s) = Some (k, r, st)" by (rule smooth_kf_cases [of _ g key i])
  then show ?thesis by (simp add: smooth_solve_def UseKf)
qed (auto simp: smooth_solve_def)


subsection \<open>Samples\<close>

definition sample_tracks :: "(string, mn_entry) dict" where
  "sample_tracks = [(''mn-dark-1'', sample_mn\<lparr>e_recent := [(''t1'', 999), (''t2'', 999)]\<rparr>), (''mn-dark-2'', sample_mn\<lparr>e_sources := [''t1'']\<rparr>)]"

definition sample_store :: mn_store where
  "sample_store = boot_mn\<lparr>m_tracks := sample_tracks\<rparr>"

definition sample_env :: "follow_mode \<Rightarrow> publish_env" where
  "sample_env m = \<lparr>pe_geo = flat_earth, pe_dr_source = ''solve'', pe_smoother = UseOff, pe_mode = m,
     pe_guard = \<lparr>reject_streak = [], cooldown_until = [], keep_since = [], followed_at = [(''mn-dark-1'', 999)]\<rparr>,
     pe_mono_s = 0, pe_digest = (\<lambda>k. k), pe_coast_enabled = True\<rparr>"

definition sample_origin :: solve_origin where
  "sample_origin = \<lparr>so_adsb = None, so_anchor = None, so_follow = False, so_tracks = [''t1'', ''t2'']\<rparr>"

lemmas mn_sample_simps = sample_tracks_def sample_store_def sample_env_def sample_origin_def boot_mn_def world_of_def sample_mn_def flat_earth_def
  sample_input_def

lemma sample_dist: "haversine (geo (world_of (sample_env m) s)) p q = 0"
  by (simp add: sample_env_def world_of_def flat_earth_def)

lemma sample_binding:
  "multinode_key_decision (world_of (sample_env FollowBinding) sample_store) sample_tracks (0, 0) 1000000 None None False [''t1'', ''t2''] =
     (''mn-dark-1'', HowTracks, Some 0, Some 0)"
  by (simp add: multinode_key_decision_def Let_def solve_candidates_def List.map_filter_def candidate_of_def mn_sample_simps
      is_dark_def MN_DARK_PREFIX_def entry_time_s_def in_dt_window_def mn_settings assoc_gate_km_def shared_recent_tracks_def dict_get_def
      recently_followed_def DARK_FOLLOW_OWN_S_def scan_step_def scan_owned_def no_scan_def scan_verdict_def verdict_of_def round3_def)

lemmas sample_decision_simps = multinode_key_decision_def Let_def solve_candidates_def List.map_filter_def candidate_of_def mn_sample_simps
  is_dark_def MN_DARK_PREFIX_def entry_time_s_def in_dt_window_def mn_settings assoc_gate_km_def shared_recent_tracks_def dict_get_def
  recently_followed_def DARK_FOLLOW_OWN_S_def scan_step_def scan_owned_def no_scan_def scan_verdict_def verdict_of_def round3_def

lemma sample_free:
  "multinode_key_decision (world_of (sample_env FollowOff) sample_store) sample_tracks (0, 0) 1000000 None None False [''t1'', ''t2''] =
     (''mn-dark-1'', HowTracks, Some 0, Some 0)"
  by (simp add: sample_decision_simps c_score_def)

lemma sample_mint:
  "multinode_key_decision (world_of (sample_env FollowOff) sample_store) [] (0, 0) 1000000 None None False [] =
     (minted_key 1000000 (0, 0), HowMinted, None, None)"
  by (simp add: sample_decision_simps)

lemma sample_geo: "0 \<le> haversine (geo (world_of (sample_env m) st)) p q"
  by (simp add: sample_dist)


theorem followed_keys_are_not_stolen_witness:
  "2 \<le> shared_recent_tracks (sample_mn\<lparr>e_recent := [(''t1'', 999), (''t2'', 999)]\<rparr>) [''t1'', ''t2''] (real_of_int 1000000 / 1000)"
proof -
  have "f_mode (world_of (sample_env FollowBinding) sample_store) = FollowBinding"
    "recently_followed ''mn-dark-1'' (real_of_int 1000000 / 1000) DARK_FOLLOW_OWN_S (f_guard (world_of (sample_env FollowBinding) sample_store))"
    "dict_ok sample_tracks"
    "dict_get sample_tracks ''mn-dark-1'' = Some (sample_mn\<lparr>e_recent := [(''t1'', 999), (''t2'', 999)]\<rparr>)"
    by (simp_all add: sample_env_def world_of_def recently_followed_def dict_get_def DARK_FOLLOW_OWN_S_def sample_tracks_def dict_ok_def)
  from followed_keys_are_not_stolen [OF sample_geo sample_binding _ this] show ?thesis by simp
qed

definition sample_far :: track_world where
  "sample_far = (world_of (sample_env FollowOff) sample_store)\<lparr>geo := flat_earth\<lparr>haversine := \<lambda>p q. 50\<rparr>\<rparr>"

lemma sample_far_scan:
  "multinode_key_decision sample_far sample_tracks (0, 0) 1000000 None None False [] = (minted_key 1000000 (0, 0), HowMinted, None, None)"
  "\<exists>c. c \<in> set (scan_of sample_far sample_tracks (0, 0) 1000000 None [])"
  by (simp_all add: sample_decision_simps sample_far_def c_score_def scan_of_def shadow_scan_def ex_disj_distrib)

theorem mints_only_where_nothing_fits_witness:
  "\<exists>c. c \<in> set (scan_of sample_far sample_tracks (0, 0) 1000000 None []) \<and> \<not> admitted c"
proof -
  obtain c where c: "c \<in> set (scan_of sample_far sample_tracks (0, 0) 1000000 None [])" using sample_far_scan(2) by blast
  have "0 \<le> haversine (geo sample_far) p q" for p q by (simp add: sample_far_def)
  from mints_only_where_nothing_fits [OF this sample_far_scan(1) c] show ?thesis using c by blast
qed

theorem track_memory_is_bounded_witness:
  "length (merge_recent_track_ids [(''t0'', 0), (''t1'', 990)] [''t1'', ''t2''] 1000) \<le> 24"
  using track_memory_is_bounded [of "[(''t0'', 0), (''t1'', 990)]" "[''t1'', ''t2'']" 1000] by (simp add: dict_ok_def)

lemma sample_match:
  "fst (supersession_match (world_of (sample_env FollowOff) st) ''mn-dark-2'' (sample_mn\<lparr>e_sources := [''t1'']\<rparr>) ids p 1000000 (Some 3000))"
  by (simp add: supersession_match_def Let_def alt_ok_def sample_mn_def sample_dist in_dt_window_def entry_time_s_def mn_settings assoc_gate_km_def
      MN_SUPERSEDE_BASE_KM_def MN_SUPERSEDE_MAX_ALT_DIFF_M_def)

lemma sample_solve: "e_time_ms (si_result (sample_input x)) = 1000000" "e_alt (si_result (sample_input x)) = Some 3000"
  by (simp_all add: sample_input_def sample_mn_def)

lemma sample_supersede:
  "''t1'' \<in> set ids \<Longrightarrow> ab_keys (snd (supersede (sample_env FollowOff) ''mn-dark-1'' ids p 1000000 (Some 3000) sample_store)) = [''mn-dark-2'']"
  by (cases "ids = []")
     (simp_all add: supersede_def supersede_step_def sample_store_def sample_tracks_def absorb_def nothing_absorbed_def sample_match)

lemma sample_absorbs:
  "\<exists>s' pb. publish_solve (sample_env FollowOff) sample_origin (sample_input 0) sample_store = Some (s', pb) \<and>
     pb_key pb = ''mn-dark-1'' \<and> \<not> pb_shadowed pb \<and> ''mn-dark-2'' \<in> set (pb_absorbed pb)"
proof -
  let ?v = "sample_env FollowOff"
  have "publish_solve ?v sample_origin (sample_input 0) sample_store =
      (let (s2, a) = finish_publish ?v sample_origin ''mn-dark-1'' HowTracks (0, 0) (si_result (sample_input 0)) sample_store
       in Some (s2, \<lparr>pb_key = ''mn-dark-1'', pb_how = HowTracks, pb_shadowed = False, pb_absorbed = ab_keys a\<rparr>))"
  proof -
    have "multinode_key_decision (world_of ?v sample_store) (m_tracks sample_store) (si_pos (sample_input 0))
        (e_time_ms (si_result (sample_input 0))) (so_adsb sample_origin) (so_anchor sample_origin) (so_follow sample_origin) (so_tracks sample_origin) =
        (''mn-dark-1'', HowTracks, Some 0, Some 0)"
      using sample_free by (simp add: sample_store_def sample_input_def sample_origin_def sample_mn_def)
    moreover have "smooth_solve (pe_geo ?v) (pe_smoother ?v) ''mn-dark-1'' (sample_input 0) sample_store = Some (sample_store, si_result (sample_input 0))"
      by (simp add: smooth_solve_def sample_env_def)
    moreover have "si_pos (sample_input 0) = (0, 0)" by (simp add: sample_input_def)
    ultimately show ?thesis unfolding publish_solve_def by (simp add: split_beta)
  qed
  moreover have "''mn-dark-2'' \<in> set (ab_keys (snd (finish_publish ?v sample_origin ''mn-dark-1'' HowTracks (0, 0) (si_result (sample_input 0)) sample_store)))"
  proof -
    have entry: "dict_get (m_tracks sample_store) ''mn-dark-1'' = Some (sample_mn\<lparr>e_recent := [(''t1'', 999), (''t2'', 999)]\<rparr>)"
      by (simp add: sample_store_def sample_tracks_def dict_get_def)
    show ?thesis
      by (simp add: finish_publish_def Let_def retire_coast_def entry latch_def sample_solve sample_supersede split_beta sample_origin_def)
  qed
  ultimately show ?thesis by (simp add: split_beta)
qed

lemma sample_store_ok: "dict_ok (m_tracks sample_store)"
  by (simp add: sample_store_def sample_tracks_def dict_ok_def)

theorem publishing_accounts_for_every_entry_witness:
  "\<exists>s' pb r. publish_solve (sample_env FollowOff) sample_origin (sample_input 0) sample_store = Some (s', pb) \<and>
     dict_get (m_tracks s') ''mn-dark-2'' = None \<and> dict_get (m_tracks s') ''mn-dark-1'' = Some r \<and> 5 < e_solves r"
proof -
  obtain s' pb where pub: "publish_solve (sample_env FollowOff) sample_origin (sample_input 0) sample_store = Some (s', pb)"
      "pb_key pb = ''mn-dark-1''" "\<not> pb_shadowed pb" "''mn-dark-2'' \<in> set (pb_absorbed pb)"
    using sample_absorbs by blast
  have "dict_get (m_tracks sample_store) ''mn-dark-2'' = Some (sample_mn\<lparr>e_sources := [''t1'']\<rparr>)"
    by (simp add: sample_store_def sample_tracks_def dict_get_def)
  from publishing_accounts_for_every_entry [OF sample_store_ok pub(1) this] pub show ?thesis by (auto simp: sample_mn_def)
qed

theorem absorbed_keys_leave_no_trace_witness:
  "\<exists>s' pb. publish_solve (sample_env FollowOff) sample_origin (sample_input 0) sample_store = Some (s', pb) \<and>
     dict_get (m_tracks s') ''mn-dark-2'' = None \<and> dict_get (kf_tracks (m_kf s')) ''mn-dark-2'' = None"
  using sample_absorbs absorbed_keys_leave_no_trace [OF sample_store_ok] by blast

theorem pruning_is_exact_witness:
  "m_tracks (prune_multinode_tracks (\<lambda>k. k) 1031 sample_store) = []"
  using pruning_is_exact [OF sample_store_ok, of "\<lambda>k. k" 1031]
  by (simp add: sample_store_def sample_tracks_def dict_filter_def entry_time_s_def sample_mn_def)


end
