(* ===== verification/AircraftFeed.thy ===== *)
theory AircraftFeed
  imports TrackIdentity "HOL-Library.Product_Lexorder" "HOL-Library.Multiset"
begin

text \<open>
  The helpers every producer of the aircraft feed shares (\<open>services/feed_helpers.py\<close>) and the
  pass that ages the feed's stores (\<open>prune_stale_stores\<close> in \<open>services/feed_gc.py\<close>): when an
  ADS-B record may replace another, the two trails of an aircraft, the log a moving arc leaves,
  the truth an aircraft is matched to, and the collapse of entries that describe one aircraft.
\<close>

subsection \<open>Reports of transponders\<close>

definition ADSB_CAPTURE_MAX_SKEW_S :: real where "ADSB_CAPTURE_MAX_SKEW_S = 300"
definition ADSB_CAPTURE_MAX_LEAD_S :: real where "ADSB_CAPTURE_MAX_LEAD_S = 2"

text \<open>\<open>stamp\<close> is the frame's timestamp where it is a finite number.\<close>

definition adsb_capture_ts_ms :: "real option \<Rightarrow> real \<Rightarrow> int" where
  "adsb_capture_ts_ms stamp_ms now =
     (case stamp_ms of
        None \<Rightarrow> \<lfloor>now * 1000\<rfloor>
      | Some t \<Rightarrow>
          if t > 0 \<and> - ADSB_CAPTURE_MAX_LEAD_S \<le> now - t / 1000 \<and> now - t / 1000 \<le> ADSB_CAPTURE_MAX_SKEW_S
          then \<lfloor>t\<rfloor> else \<lfloor>now * 1000\<rfloor>)"

text \<open>\<open>seen\<close> reads a record's \<open>last_seen_ms\<close>.\<close>

definition adsb_store :: "('r \<Rightarrow> int) \<Rightarrow> string \<Rightarrow> 'r \<Rightarrow> (string, 'r) dict \<Rightarrow> (string, 'r) dict \<times> bool" where
  "adsb_store seen hex r d =
     (case dict_get d hex of
        None \<Rightarrow> (dict_set d hex r, True)
      | Some e \<Rightarrow> if seen e > seen r then (d, False) else (dict_set d hex r, True))"

subsection \<open>One aircraft, one entry\<close>

text \<open>The fields of a feed entry that decide; \<open>f_payload\<close> is the rest of it.\<close>

record feed_entry =
  f_place :: "place option"
  f_alt_baro :: "real option"
  f_source :: "string option"
  f_n_nodes :: "real option"
  f_seen :: "real option"
  f_truth :: string
  f_node :: string
  f_contributors :: "string list"
  f_payload :: "(string, json) dict"

definition DEDUP_PROXIMITY_KM :: real where "DEDUP_PROXIMITY_KM = 3"
definition DEDUP_ALT_GATE_FT :: real where "DEDUP_ALT_GATE_FT = 2000"

definition DEDUP_SOURCE_RANK :: "(string, int) dict" where
  "DEDUP_SOURCE_RANK = [(''multinode_solve'', 0), (''adsb_single_node'', 1), (''adsb_multi_node'', 1),
     (''solver_adsb_seed'', 2), (''solver_single_node'', 3), (''single_node_ellipse_arc'', 4)]"

definition looks_like_same_aircraft :: "geodesy \<Rightarrow> feed_entry \<Rightarrow> feed_entry \<Rightarrow> bool" where
  "looks_like_same_aircraft g a b =
     (case (f_place a, f_place b) of
        (Some p, Some q) \<Rightarrow>
          \<not> haversine g p q > DEDUP_PROXIMITY_KM \<and>
          (case (f_alt_baro a, f_alt_baro b) of (Some x, Some y) \<Rightarrow> \<not> \<bar>x - y\<bar> > DEDUP_ALT_GATE_FT | _ \<Rightarrow> True)
      | _ \<Rightarrow> False)"

text \<open>Rank, width, freshness: an entry that is not dated comes after every one that is.\<close>

definition dedup_quality_key :: "feed_entry \<Rightarrow> int \<times> real \<times> int \<times> real" where
  "dedup_quality_key e =
     ((case f_source e of None \<Rightarrow> 99 | Some s \<Rightarrow> dict_get_default DEDUP_SOURCE_RANK s 99),
      - (case f_n_nodes e of None \<Rightarrow> 0 | Some n \<Rightarrow> n),
      (case f_seen e of None \<Rightarrow> (1, 0) | Some s \<Rightarrow> (0, s)))"

text \<open>A group with whether a ground-truth id made it; \<open>by_truth\<close> finds a truth's group.\<close>

type_synonym feed_group = "feed_entry list \<times> bool"

fun join_nearby :: "geodesy \<Rightarrow> feed_entry \<Rightarrow> feed_group list \<Rightarrow> feed_group list" where
  "join_nearby g a [] = [([a], False)]"
| "join_nearby g a ((ms, b) # gs) =
     (if looks_like_same_aircraft g a (hd ms) then (ms @ [a], b) # gs else (ms, b) # join_nearby g a gs)"

definition group_entry :: "geodesy \<Rightarrow> feed_entry \<Rightarrow> feed_group list \<times> (string, nat) dict \<Rightarrow> feed_group list \<times> (string, nat) dict" where
  "group_entry g a = (\<lambda>(gs, by_truth).
     if f_truth a \<noteq> [] then
       (case dict_get by_truth (f_truth a) of
          None \<Rightarrow> (gs @ [([a], True)], dict_set by_truth (f_truth a) (length gs))
        | Some i \<Rightarrow> (gs[i := (fst (gs ! i) @ [a], snd (gs ! i))], by_truth))
     else (join_nearby g a gs, by_truth))"

text \<open>Each list of the split is a winner with what collapses into it.\<close>

fun join_winner :: "geodesy \<Rightarrow> feed_entry \<Rightarrow> feed_entry list list \<Rightarrow> feed_entry list list" where
  "join_winner g m [] = [[m]]"
| "join_winner g m (c # cs) = (if looks_like_same_aircraft g m (hd c) then (c @ [m]) # cs else c # join_winner g m cs)"

definition collapse_member :: "geodesy \<Rightarrow> bool \<Rightarrow> feed_entry \<Rightarrow> feed_entry list list \<Rightarrow> feed_entry list list" where
  "collapse_member g by_identity m cs =
     (if by_identity \<and> f_source m = Some ''multinode_solve'' then join_winner g m cs
      else (case cs of [] \<Rightarrow> [[m]] | c # rest \<Rightarrow> (c @ [m]) # rest))"

definition credited_nodes :: "feed_entry list \<Rightarrow> string list" where
  "credited_nodes ms = fold (\<lambda>n acc. if n \<noteq> [] \<and> n \<notin> set acc then acc @ [n] else acc)
     (concat (map (\<lambda>m. f_node m # f_contributors m) ms)) []"

definition credit :: "feed_entry list \<Rightarrow> feed_entry" where
  "credit ms = (if credited_nodes ms = [] then hd ms else (hd ms)\<lparr>f_contributors := credited_nodes ms\<rparr>)"

definition collapse_group :: "geodesy \<Rightarrow> feed_group \<Rightarrow> feed_entry list" where
  "collapse_group g = (\<lambda>(ms, by_identity).
     if length ms = 1 then ms
     else (let s = sort_key dedup_quality_key ms
           in map credit (fold (collapse_member g by_identity) (tl s) [[hd s]])))"

definition dedup_aircraft :: "geodesy \<Rightarrow> feed_entry list \<Rightarrow> feed_entry list" where
  "dedup_aircraft g es = concat (map (collapse_group g) (fst (fold (group_entry g) es ([], []))))"

subsection \<open>Trails\<close>

text \<open>
  A point is a position with the altitude and the time of its emission; the second store is the
  one served, in the public frame.
\<close>

type_synonym trails = "(string, trail) dict \<times> (string, trail) dict"

definition append_track_history ::
    "string \<Rightarrow> place \<Rightarrow> real \<Rightarrow> real \<Rightarrow> place option \<Rightarrow> trails \<Rightarrow> trails" where
  "append_track_history hex pos alt ts public_pos = (\<lambda>(t, p).
     (let h = dict_get_default t hex []; hp = dict_get_default p hex [];
          t1 = (if dict_has t hex then t else dict_set t hex []); p1 = (if dict_has p hex then p else dict_set p hex [])
      in if h \<noteq> [] \<and> \<bar>fst (last h) - fst pos\<bar> < 5 / 100000 \<and> \<bar>fst (snd (last h)) - snd pos\<bar> < 5 / 100000 then (t1, p1)
         else (let alt_r = round_to 0 alt; ts_r = round_to 1 ts;
                   pub = (case public_pos of None \<Rightarrow> pos | Some q \<Rightarrow> q)
               in (dict_set t1 hex (newest TRACK_HISTORY_MAX (h @ [(round_to 6 (fst pos), round_to 6 (snd pos), alt_r, ts_r)])),
                   dict_set p1 hex (newest TRACK_HISTORY_MAX (hp @ [(round_to 6 (fst pub), round_to 6 (snd pub), alt_r, ts_r)]))))))"

subsection \<open>The motion of an arc\<close>

definition ARC_MOTION_MIN_M :: real where "ARC_MOTION_MIN_M = 100"
definition ARC_MOTION_LOG_MAX :: nat where "ARC_MOTION_LOG_MAX = 6"

type_synonym motion_log = "(place \<times> real) list"

definition record_arc_motion :: "geodesy \<Rightarrow> string \<Rightarrow> place \<Rightarrow> real \<Rightarrow> (string, motion_log) dict \<Rightarrow> (string, motion_log) dict" where
  "record_arc_motion g hex pos ts d =
     (let h = dict_get_default d hex []
      in if h \<noteq> [] \<and> haversine g pos (fst (last h)) * 1000 < ARC_MOTION_MIN_M then d
         else (let h1 = h @ [(pos, ts)] in dict_set d hex (if length h1 > ARC_MOTION_LOG_MAX then tl h1 else h1)))"

text \<open>The first usable mark's displacement over its age; \<open>enu\<close> is \<open>enu_km\<close>.\<close>

fun motion_velocity :: "(place \<Rightarrow> place \<Rightarrow> real \<times> real) \<Rightarrow> place \<Rightarrow> real \<Rightarrow> motion_log \<Rightarrow> (real \<times> real) option" where
  "motion_velocity enu pos now [] = None"
| "motion_velocity enu pos now ((p, t) # rest) =
     (let dt = now - t; e = fst (enu p pos) * 1000; n = snd (enu p pos) * 1000
      in if dt < 15 \<or> dt > 120 \<or> sqrt (e ^ 2 + n ^ 2) < 200 then motion_velocity enu pos now rest
         else Some (e / dt, n / dt))"

definition estimate_velocity_ms_from_motion ::
    "(place \<Rightarrow> place \<Rightarrow> real \<times> real) \<Rightarrow> string \<Rightarrow> place \<Rightarrow> real \<Rightarrow> (string, motion_log) dict \<Rightarrow> (real \<times> real) option" where
  "estimate_velocity_ms_from_motion enu hex pos now d = motion_velocity enu pos now (dict_get_default d hex [])"

definition real_mod :: "real \<Rightarrow> real \<Rightarrow> real" where
  "real_mod x m = x - m * of_int \<lfloor>x / m\<rfloor>"

definition estimate_velocity_from_motion ::
    "(place \<Rightarrow> place \<Rightarrow> real \<times> real) \<Rightarrow> string \<Rightarrow> place \<Rightarrow> real \<Rightarrow> (string, motion_log) dict \<Rightarrow> (real \<times> real) option" where
  "estimate_velocity_from_motion enu hex pos now d =
     map_option (\<lambda>(e, n). (round_to 1 (sqrt (e ^ 2 + n ^ 2) * (194384 / 100000)), round_to 1 (real_mod (Arg (Complex n e) * 180 / pi) 360)))
       (estimate_velocity_ms_from_motion enu hex pos now d)"

subsection \<open>Ground truth\<close>

definition normalize_hex_key :: "string option \<Rightarrow> string" where
  "normalize_hex_key h = (case h of None \<Rightarrow> [] | Some s \<Rightarrow> lower (strip s))"

definition nearer_truth :: "geodesy \<Rightarrow> place \<Rightarrow> string \<times> trail \<Rightarrow> string option \<times> real \<Rightarrow> string option \<times> real" where
  "nearer_truth g pos = (\<lambda>(hex, t) (best, d).
     if t = [] then (best, d)
     else (let x = haversine g pos (fst (last t), fst (snd (last t))) in if x \<le> d then (Some hex, x) else (best, d)))"

definition resolve_ground_truth_hex :: "geodesy \<Rightarrow> (string, trail) dict \<Rightarrow> string option \<Rightarrow> place \<Rightarrow> real \<Rightarrow> string option" where
  "resolve_ground_truth_hex g truths hex pos limit_km =
     (let h = normalize_hex_key hex
      in if h \<noteq> [] \<and> dict_get_default truths h [] \<noteq> [] then Some h
         else fst (fold (nearer_truth g pos) truths (None, limit_km)))"

subsection \<open>Ageing the stores\<close>

definition KNOWN_CLAIMS_STALE_S :: real where "KNOWN_CLAIMS_STALE_S = 120"
definition GT_DISPLAY_STALE_S :: real where "GT_DISPLAY_STALE_S = 10"
definition TRAIL_STALE_S :: real where "TRAIL_STALE_S = 300"

text \<open>
  Times in the order of the code: the transponder reports by \<open>last_seen_ms\<close>, a claim's record by
  its \<open>ts_ms\<close>, a hold's, the last emission of a key and the anchor time of a gate's hold.
\<close>

record feed_stores =
  s_adsb :: "(string, int) dict"
  s_claims :: "(string, int list) dict"
  s_holds :: "(string, (string, int) dict) dict"
  s_truths :: "(string, trail) dict"
  s_truth_meta :: "(string, json) dict"
  s_anomalies :: "string list"
  s_trails :: trails
  s_motion :: "(string, motion_log) dict"
  s_last_emit :: "(string, place \<times> real) dict"
  s_gate_hold :: "(string, real) dict"

definition stamp_age :: "real \<Rightarrow> int \<Rightarrow> real" where
  "stamp_age now ms = now - real_of_int ms / 1000"

definition trail_stale :: "real \<Rightarrow> real \<Rightarrow> trail \<Rightarrow> bool" where
  "trail_stale now limit t \<longleftrightarrow> t = [] \<or> now - snd (snd (snd (last t))) > limit"

text \<open>The snapshot of stale keys, then one removal per key.\<close>

definition pop_all :: "string list \<Rightarrow> (string, 'v) dict \<Rightarrow> (string, 'v) dict" where
  "pop_all ks d = fold (\<lambda>k d. dict_del d k) ks d"

definition stale_keys :: "('v \<Rightarrow> bool) \<Rightarrow> (string, 'v) dict \<Rightarrow> string list" where
  "stale_keys stale d = map fst (filter (\<lambda>(_, v). stale v) d)"

definition prune_holds :: "real \<Rightarrow> (string, (string, int) dict) dict \<Rightarrow> (string, (string, int) dict) dict" where
  "prune_holds now d =
     fold (\<lambda>(n, holds) d.
       (let kept = pop_all (stale_keys (\<lambda>ms. stamp_age now ms > KNOWN_CLAIMS_STALE_S) holds) holds
        in if kept = [] then dict_del d n else dict_set d n kept)) d d"

definition prune_stale_stores :: "real \<Rightarrow> feed_stores \<Rightarrow> feed_stores" where
  "prune_stale_stores now s =
     (let s1 = s\<lparr>s_adsb := pop_all (stale_keys (\<lambda>ms. stamp_age now ms > 60) (s_adsb s)) (s_adsb s)\<rparr>;
          s2 = s1\<lparr>s_claims := pop_all (stale_keys (\<lambda>q. q = [] \<or> stamp_age now (last q) > KNOWN_CLAIMS_STALE_S) (s_claims s1)) (s_claims s1)\<rparr>;
          s3 = s2\<lparr>s_holds := prune_holds now (s_holds s2)\<rparr>;
          gone = stale_keys (trail_stale now GT_DISPLAY_STALE_S) (s_truths s3);
          s4 = s3\<lparr>s_truths := pop_all gone (s_truths s3), s_truth_meta := pop_all gone (s_truth_meta s3),
                  s_anomalies := filter (\<lambda>h. h \<notin> set gone) (s_anomalies s3)\<rparr>;
          old = stale_keys (trail_stale now TRAIL_STALE_S) (fst (s_trails s4));
          s5 = s4\<lparr>s_trails := (pop_all old (fst (s_trails s4)), pop_all old (snd (s_trails s4)))\<rparr>;
          s6 = s5\<lparr>s_motion := pop_all (stale_keys (\<lambda>m. m = [] \<or> now - snd (last m) > TRAIL_STALE_S) (s_motion s5)) (s_motion s5)\<rparr>;
          emits = stale_keys (\<lambda>v. now - snd v > TRAIL_STALE_S) (s_last_emit s6);
          s7 = s6\<lparr>s_last_emit := pop_all emits (s_last_emit s6), s_gate_hold := pop_all emits (s_gate_hold s6)\<rparr>
      in s7\<lparr>s_gate_hold := pop_all (stale_keys (\<lambda>t. now - t > TRAIL_STALE_S) (s_gate_hold s7)) (s_gate_hold s7)\<rparr>)"

subsection \<open>The collapse loses nothing\<close>

definition nodes_of :: "feed_entry \<Rightarrow> string set" where
  "nodes_of e = set (f_node e # f_contributors e) - {[]}"

text \<open>\<open>h\<close> is what put \<open>e\<close> into a group: itself, its likeness, or the truth both were matched to.\<close>

definition linked_to :: "geodesy \<Rightarrow> feed_entry \<Rightarrow> feed_entry \<Rightarrow> bool" where
  "linked_to g h e \<longleftrightarrow> e = h \<or> looks_like_same_aircraft g e h \<or> f_truth h \<noteq> [] \<and> f_truth e = f_truth h"

definition group_ok :: "geodesy \<Rightarrow> feed_group \<Rightarrow> bool" where
  "group_ok g gr \<longleftrightarrow> fst gr \<noteq> [] \<and> (\<forall>m\<in>set (fst gr). linked_to g (hd (fst gr)) m)"

definition groups_ok :: "geodesy \<Rightarrow> feed_entry list \<Rightarrow> feed_group list \<times> (string, nat) dict \<Rightarrow> bool" where
  "groups_ok g es = (\<lambda>(gs, by_truth).
     mset (concat (map fst gs)) = mset es \<and> (\<forall>gr\<in>set gs. group_ok g gr) \<and>
     (\<forall>t i. dict_get by_truth t = Some i \<longrightarrow> i < length gs \<and> t \<noteq> [] \<and> f_truth (hd (fst (gs ! i))) = t))"

lemma join_nearby_mset: "mset (concat (map fst (join_nearby g a gs))) = add_mset a (mset (concat (map fst gs)))"
  by (induction g a gs rule: join_nearby.induct) auto

lemma join_nearby_ok: "\<forall>gr\<in>set gs. group_ok g gr \<Longrightarrow> \<forall>gr\<in>set (join_nearby g a gs). group_ok g gr"
  by (induction g a gs rule: join_nearby.induct) (auto simp: group_ok_def linked_to_def)

lemma join_nearby_length: "length gs \<le> length (join_nearby g a gs)"
  by (induction g a gs rule: join_nearby.induct) auto

lemma update_group_mset:
  "i < length gs \<Longrightarrow> mset (concat (map fst (gs[i := (fst (gs ! i) @ [a], b)]))) = add_mset a (mset (concat (map fst gs)))"
proof (induction gs arbitrary: i)
  case (Cons x gs)
  then show ?case by (cases i) auto
qed simp

lemma join_nearby_heads:
  "i < length gs \<Longrightarrow> \<forall>gr\<in>set gs. group_ok g gr \<Longrightarrow>
   hd (fst (join_nearby g a gs ! i)) = hd (fst (gs ! i))"
proof (induction g a gs arbitrary: i rule: join_nearby.induct)
  case (2 g a ms b gs)
  then show ?case by (cases i) (auto simp: group_ok_def)
qed simp

lemma groups_ok_step: "groups_ok g es sa \<Longrightarrow> groups_ok g (es @ [a]) (group_entry g a sa)"
proof -
  obtain gs bt where sa: "sa = (gs, bt)" by fastforce
  assume ok: "groups_ok g es sa"
  then have m: "mset (concat (map fst gs)) = mset es" and gr: "\<forall>gr\<in>set gs. group_ok g gr"
    and bt: "\<And>t i. dict_get bt t = Some i \<Longrightarrow> i < length gs \<and> t \<noteq> [] \<and> f_truth (hd (fst (gs ! i))) = t"
    by (auto simp: groups_ok_def sa)
  show ?thesis
  proof (cases "f_truth a = []")
    case True
    have "i < length (join_nearby g a gs) \<and> t \<noteq> [] \<and> f_truth (hd (fst (join_nearby g a gs ! i))) = t" if "dict_get bt t = Some i" for t i
      using bt [OF that] join_nearby_heads [OF _ gr, of i a] join_nearby_length [of gs g a] by auto
    then show ?thesis using True m join_nearby_mset [of g a gs] join_nearby_ok [OF gr, of a]
      by (simp add: groups_ok_def sa group_entry_def)
  next
    case truth: False
    show ?thesis
    proof (cases "dict_get bt (f_truth a)")
      case None
      have new: "group_ok g ([a], True)" by (simp add: group_ok_def linked_to_def)
      have "i < Suc (length gs) \<and> t \<noteq> [] \<and> f_truth (hd (fst ((gs @ [([a], True)]) ! i))) = t"
        if "dict_get (dict_set bt (f_truth a) (length gs)) t = Some i" for t i
        using that bt [of t i] truth by (auto simp: nth_append split: if_splits)
      then show ?thesis using None truth m gr new by (simp add: groups_ok_def sa group_entry_def)
    next
      case (Some i)
      then have i: "i < length gs" "f_truth (hd (fst (gs ! i))) = f_truth a" using bt by blast+
      let ?gr = "(fst (gs ! i) @ [a], snd (gs ! i))"
      have old: "group_ok g (gs ! i)" using gr i(1) by simp
      then have head: "hd (fst (gs ! i) @ [a]) = hd (fst (gs ! i))" by (simp add: group_ok_def)
      then have new: "group_ok g ?gr" using old i(2) truth by (auto simp: group_ok_def linked_to_def)
      have heads: "hd (fst (gs[i := ?gr] ! k)) = hd (fst (gs ! k))" if "k < length gs" for k
        using head that by (cases "k = i") simp_all
      have "mset (concat (map fst (gs[i := ?gr]))) = add_mset a (mset (concat (map fst gs)))"
        using i(1) by (rule update_group_mset)
      moreover have "\<forall>x\<in>set (gs[i := ?gr]). group_ok g x" using gr new set_update_subset_insert [of gs i ?gr] by blast
      moreover have "\<And>t k. dict_get bt t = Some k \<Longrightarrow> k < length (gs[i := ?gr]) \<and> t \<noteq> [] \<and> f_truth (hd (fst (gs[i := ?gr] ! k))) = t"
        using bt heads by (metis length_list_update)
      ultimately show ?thesis using Some truth m by (simp add: groups_ok_def sa group_entry_def)
    qed
  qed
qed

lemma groups_ok_fold: "groups_ok g ds sa \<Longrightarrow> groups_ok g (ds @ es) (fold (group_entry g) es sa)"
proof (induction es arbitrary: ds sa)
  case (Cons e es)
  from Cons.IH [OF groups_ok_step [OF Cons.prems]] show ?case by simp
qed simp

lemma groups_ok_all: "groups_ok g es (fold (group_entry g) es ([], []))"
  using groups_ok_fold [of g "[]" "([], [])" es] by (simp add: groups_ok_def)

text \<open>The split of a sorted group.\<close>

definition split_ok :: "feed_entry list \<Rightarrow> feed_entry list list \<Rightarrow> bool" where
  "split_ok ms cs \<longleftrightarrow> mset (concat cs) = mset ms \<and> (\<forall>c\<in>set cs. c \<noteq> [] \<and> (\<forall>m\<in>set c. dedup_quality_key (hd c) \<le> dedup_quality_key m))"

lemma join_winner_ok:
  assumes "\<forall>c\<in>set cs. c \<noteq> [] \<and> (\<forall>x\<in>set c. dedup_quality_key (hd c) \<le> dedup_quality_key x)"
    and "\<forall>x\<in>set (concat cs). dedup_quality_key x \<le> dedup_quality_key m"
  shows "\<forall>c\<in>set (join_winner g m cs). c \<noteq> [] \<and> (\<forall>x\<in>set c. dedup_quality_key (hd c) \<le> dedup_quality_key x)"
    and "mset (concat (join_winner g m cs)) = add_mset m (mset (concat cs))"
  using assms
proof (induction g m cs rule: join_winner.induct)
  case (2 g m c cs)
  { case 1 then show ?case using 2 by (auto simp: hd_append) }
  { case 2 then show ?case using "2.IH" by auto }
qed simp_all

lemma collapse_member_ok:
  assumes "split_ok ms cs" "cs \<noteq> []" "\<forall>x\<in>set ms. dedup_quality_key x \<le> dedup_quality_key m"
  shows "split_ok (ms @ [m]) (collapse_member g b m cs) \<and> collapse_member g b m cs \<noteq> []"
proof -
  have le: "\<forall>x\<in>set (concat cs). dedup_quality_key x \<le> dedup_quality_key m"
    using assms(1,3) by (metis set_mset_mset split_ok_def)
  have cs: "\<forall>c\<in>set cs. c \<noteq> [] \<and> (\<forall>x\<in>set c. dedup_quality_key (hd c) \<le> dedup_quality_key x)"
    using assms(1) by (simp add: split_ok_def)
  show ?thesis
  proof (cases "b \<and> f_source m = Some ''multinode_solve''")
    case True
    then show ?thesis using join_winner_ok [OF cs le, of g] assms(1,2)
      by (cases cs) (auto simp: collapse_member_def split_ok_def)
  next
    case False
    then show ?thesis using assms(1,2) cs le
      by (cases cs) (auto simp: collapse_member_def split_ok_def hd_append)
  qed
qed

lemma collapse_fold_ok:
  assumes "split_ok ms cs" "cs \<noteq> []" "\<forall>x\<in>set ms. \<forall>y\<in>set xs. dedup_quality_key x \<le> dedup_quality_key y"
    and "sorted (map dedup_quality_key xs)"
  shows "split_ok (ms @ xs) (fold (collapse_member g b) xs cs)"
  using assms
proof (induction xs arbitrary: ms cs)
  case (Cons x xs)
  have s: "split_ok (ms @ [x]) (collapse_member g b x cs)" "collapse_member g b x cs \<noteq> []"
    using collapse_member_ok [OF Cons.prems(1,2), of x g b] Cons.prems(3) by auto
  have "\<forall>a\<in>set (ms @ [x]). \<forall>y\<in>set xs. dedup_quality_key a \<le> dedup_quality_key y" using Cons.prems(3,4) by auto
  from Cons.IH [OF s this] Cons.prems(4) show ?case by simp
qed simp

lemma credited_nodes_set: "set (credited_nodes ms) = (\<Union>m\<in>set ms. nodes_of m)"
proof -
  have "set (fold (\<lambda>n acc. if n \<noteq> [] \<and> n \<notin> set acc then acc @ [n] else acc) xs acc) = set acc \<union> (set xs - {[]})" for xs and acc :: "string list"
    by (induction xs arbitrary: acc) auto
  then show ?thesis by (auto simp: credited_nodes_def nodes_of_def)
qed

lemma credit_nodes: "ms \<noteq> [] \<Longrightarrow> nodes_of (credit ms) = (\<Union>m\<in>set ms. nodes_of m)"
proof -
  assume ms: "ms \<noteq> []"
  then have hd: "hd ms \<in> set ms" by simp
  show ?thesis
  proof (cases "credited_nodes ms = []")
    case True
    then have "(\<Union>m\<in>set ms. nodes_of m) = {}" using credited_nodes_set [of ms] by simp
    then show ?thesis using True hd by (auto simp: credit_def)
  next
    case False
    have "nodes_of (credit ms) = ({f_node (hd ms)} - {[]}) \<union> (set (credited_nodes ms) - {[]})" using False by (auto simp: credit_def nodes_of_def)
    moreover have "{f_node (hd ms)} - {[]} \<subseteq> (\<Union>m\<in>set ms. nodes_of m)" using hd by (auto simp: nodes_of_def)
    moreover have "[] \<notin> (\<Union>m\<in>set ms. nodes_of m)" by (simp add: nodes_of_def)
    ultimately show ?thesis using credited_nodes_set [of ms] by auto
  qed
qed

lemma credit_hd: "\<exists>ns. credit ms = (hd ms)\<lparr>f_contributors := ns\<rparr>"
  by (cases "hd ms") (auto simp: credit_def)

lemma collapse_group_split:
  assumes "fst gr \<noteq> []"
  obtains cs where "collapse_group g gr = map credit cs \<or> collapse_group g gr = map hd cs \<and> length (fst gr) = 1" "split_ok (fst gr) cs"
proof (cases "length (fst gr) = 1")
  case True
  then obtain m where "fst gr = [m]" by (cases "fst gr") auto
  then show ?thesis using that [of "[[m]]"] by (cases gr) (simp add: collapse_group_def split_ok_def)
next
  case False
  let ?s = "sort_key dedup_quality_key (fst gr)"
  have s: "?s \<noteq> []" using assms by (metis length_0_conv length_sort)
  then obtain h t where ht: "?s = h # t" by (cases ?s) auto
  have sorted: "sorted (map dedup_quality_key (h # t))" unfolding ht [symmetric] by simp
  then have "split_ok ([h] @ t) (fold (collapse_member g (snd gr)) t [[h]])"
    by (intro collapse_fold_ok) (auto simp: split_ok_def)
  then have "split_ok (fst gr) (fold (collapse_member g (snd gr)) t [[h]])"
    using ht by (simp add: split_ok_def) (metis mset_sort mset.simps(2))
  then show ?thesis using that False ht by (cases gr) (simp add: collapse_group_def Let_def)
qed

lemma credit_quality: "dedup_quality_key (credit c) = dedup_quality_key (hd c)"
  by (simp add: credit_def dedup_quality_key_def)

lemma split_covers: "split_ok ms cs \<Longrightarrow> set (concat cs) = set ms"
  unfolding split_ok_def by (metis set_mset_mset)

lemma collapse_group_nodes: "fst gr \<noteq> [] \<Longrightarrow> (\<Union>e\<in>set (collapse_group g gr). nodes_of e) = (\<Union>m\<in>set (fst gr). nodes_of m)"
proof (cases "length (fst gr) = 1")
  case True
  then show ?thesis by (cases gr) (simp add: collapse_group_def)
next
  case False
  assume "fst gr \<noteq> []"
  then obtain cs where cs: "collapse_group g gr = map credit cs" "split_ok (fst gr) cs"
    using collapse_group_split [of gr g] False by blast
  have "nodes_of (credit c) = (\<Union>m\<in>set c. nodes_of m)" if "c \<in> set cs" for c
    using cs(2) that by (intro credit_nodes) (simp add: split_ok_def)
  then have "(\<Union>c\<in>set cs. nodes_of (credit c)) = (\<Union>c\<in>set cs. \<Union>m\<in>set c. nodes_of m)" by (rule SUP_cong [OF refl])
  also have "\<dots> = (\<Union>m\<in>set (concat cs). nodes_of m)" by simp
  also have "set (concat cs) = set (fst gr)" using cs(2) by (rule split_covers)
  finally show ?thesis by (simp add: cs(1))
qed

lemma collapse_group_covers:
  assumes e: "e \<in> set (fst gr)"
  shows "\<exists>w\<in>set (collapse_group g gr). \<exists>w0\<in>set (fst gr). (\<exists>ns. w = w0\<lparr>f_contributors := ns\<rparr>) \<and> dedup_quality_key w \<le> dedup_quality_key e"
proof (cases "length (fst gr) = 1")
  case True
  then have "fst gr = [e]" using e by (cases "fst gr") auto
  moreover have "\<exists>ns. e = e\<lparr>f_contributors := ns\<rparr>" by (cases e) auto
  ultimately show ?thesis by (cases gr) (simp add: collapse_group_def)
next
  case False
  have "fst gr \<noteq> []" using e by auto
  then obtain cs where cs: "collapse_group g gr = map credit cs" "split_ok (fst gr) cs"
    by (rule collapse_group_split [of gr g]) (use False in blast)
  have all: "set (concat cs) = set (fst gr)" using cs(2) by (rule split_covers)
  have "e \<in> set (concat cs)" using e by (simp only: all)
  then obtain c where c: "c \<in> set cs" "e \<in> set c" by auto
  have "hd c \<in> set c" "dedup_quality_key (hd c) \<le> dedup_quality_key e" using cs(2) c by (auto simp: split_ok_def)
  then have hd: "hd c \<in> set (fst gr)" "dedup_quality_key (credit c) \<le> dedup_quality_key e"
    unfolding all [symmetric] credit_quality using c(1) by auto
  have "credit c \<in> set (collapse_group g gr)" using c(1) by (simp add: cs(1))
  then show ?thesis using hd credit_hd [of c] by (intro bexI [of _ "credit c"] bexI [of _ "hd c"] conjI)
qed

lemma dedup_groups:
  obtains gs where "dedup_aircraft g es = concat (map (collapse_group g) gs)" "mset (concat (map fst gs)) = mset es" "\<forall>gr\<in>set gs. group_ok g gr"
  using groups_ok_all [of g es] that [of "fst (fold (group_entry g) es ([], []))"]
  by (cases "fold (group_entry g) es ([], [])") (simp add: groups_ok_def dedup_aircraft_def)

text \<open>C20: Collapsing the entries of one aircraft costs no receiver its credit: the nodes named by the entries of the feed after the
  collapse are exactly the nodes named before it.\<close>

theorem dedup_keeps_every_credit:
  "(\<Union>e\<in>set (dedup_aircraft g es). nodes_of e) = (\<Union>e\<in>set es. nodes_of e)"
proof -
  obtain gs where gs: "dedup_aircraft g es = concat (map (collapse_group g) gs)" "mset (concat (map fst gs)) = mset es" "\<forall>gr\<in>set gs. group_ok g gr"
    by (rule dedup_groups)
  have "(\<Union>e\<in>set (dedup_aircraft g es). nodes_of e) = (\<Union>gr\<in>set gs. \<Union>e\<in>set (collapse_group g gr). nodes_of e)" by (simp add: gs(1))
  also have "\<dots> = (\<Union>gr\<in>set gs. \<Union>m\<in>set (fst gr). nodes_of m)"
    using gs(3) by (intro SUP_cong [OF refl collapse_group_nodes]) (simp add: group_ok_def)
  also have "\<dots> = (\<Union>e\<in>set (concat (map fst gs)). nodes_of e)" by simp
  also have "set (concat (map fst gs)) = set es" using gs(2) by (metis set_mset_mset)
  finally show ?thesis .
qed

text \<open>C21: No aircraft vanishes in the collapse: each entry of the feed has one afterwards that is at least as good by source, width and
  freshness, is an entry of the feed but for the nodes credited to it, and was grouped with it by one entry both are linked to, by
  likeness of place and height or by the truth they were matched to.\<close>

theorem dedup_keeps_every_aircraft:
  assumes "e \<in> set es"
  shows "\<exists>w\<in>set (dedup_aircraft g es). \<exists>w0\<in>set es. \<exists>h\<in>set es. (\<exists>ns. w = w0\<lparr>f_contributors := ns\<rparr>) \<and>
    dedup_quality_key w \<le> dedup_quality_key e \<and> linked_to g h e \<and> linked_to g h w0"
proof -
  obtain gs where gs: "dedup_aircraft g es = concat (map (collapse_group g) gs)" "mset (concat (map fst gs)) = mset es" "\<forall>gr\<in>set gs. group_ok g gr"
    by (rule dedup_groups)
  have es: "set (concat (map fst gs)) = set es" using gs(2) by (metis set_mset_mset)
  then have "e \<in> set (concat (map fst gs))" using assms by (simp only:)
  then obtain gr where gr: "gr \<in> set gs" "e \<in> set (fst gr)" by auto
  from collapse_group_covers [OF gr(2), of g] obtain w w0 where w: "w \<in> set (collapse_group g gr)" "w0 \<in> set (fst gr)"
    "\<exists>ns. w = w0\<lparr>f_contributors := ns\<rparr>" "dedup_quality_key w \<le> dedup_quality_key e" by blast
  have in_es: "x \<in> set es" if "x \<in> set (fst gr)" for x using es gr(1) that by auto
  have ok: "group_ok g gr" using gs(3) gr(1) by blast
  then have "hd (fst gr) \<in> set (fst gr)" by (simp add: group_ok_def)
  moreover have "w \<in> set (dedup_aircraft g es)" using gs(1) gr(1) w(1) by auto
  ultimately show ?thesis using w(2-4) in_es ok gr(2) by (metis group_ok_def)
qed

subsection \<open>The two trails of an aircraft\<close>

definition emits :: "(string, trail) dict \<Rightarrow> string \<Rightarrow> (real \<times> real) list" where
  "emits d hex = map (\<lambda>p. snd (snd p)) (dict_get_default d hex [])"

definition lockstep :: "trails \<Rightarrow> bool" where
  "lockstep tr \<longleftrightarrow> (\<forall>hex. emits (fst tr) hex = emits (snd tr) hex \<and> length (dict_get_default (fst tr) hex []) \<le> TRACK_HISTORY_MAX)"

datatype trail_event = Emit string place real real "place option" | Adopt string string | Age real

definition age_trails :: "real \<Rightarrow> trails \<Rightarrow> trails" where
  "age_trails now tr = (let old = stale_keys (trail_stale now TRAIL_STALE_S) (fst tr) in (pop_all old (fst tr), pop_all old (snd tr)))"

fun trail_step :: "geodesy \<Rightarrow> trail_event \<Rightarrow> trails \<Rightarrow> trails" where
  "trail_step g (Emit hex pos alt ts pub) tr = append_track_history hex pos alt ts pub tr"
| "trail_step g (Adopt a b) tr = (fst (adopt_trail a b (fst tr)), fst (adopt_trail a b (snd tr)))"
| "trail_step g (Age now) tr = age_trails now tr"

lemma default_set: "dict_get_default (dict_set d k v) x y = (if x = k then v else dict_get_default d x y)"
  by (simp add: dict_get_default_get)

lemma emits_set: "emits (dict_set d k v) x = (if x = k then map (\<lambda>p. snd (snd p)) v else emits d x)"
  by (simp add: emits_def default_set)

lemma pop_all_get: "dict_get (pop_all ks d) x = (if x \<in> set ks then None else dict_get d x)"
  by (induction ks arbitrary: d) (auto simp: pop_all_def)

lemma map_newest: "map f (newest n xs) = newest n (map f xs)"
  by (simp add: newest_def drop_map)

lemma emits_default: "dict_get_default d k [] = [] \<longleftrightarrow> emits d k = []"
  by (simp add: emits_def)

lemma emits_touch: "emits (if dict_has d k then d else dict_set d k []) x = emits d x"
  by (auto simp: emits_set emits_def dict_get_default_get dict_has_get)

lemma default_touch: "dict_get_default (if dict_has d k then d else dict_set d k []) x [] = dict_get_default d x []"
  by (auto simp: default_set dict_get_default_get dict_has_get)

lemma append_track_cases:
  obtains "append_track_history hex pos alt ts pub (t, p)
      = (if dict_has t hex then t else dict_set t hex [], if dict_has p hex then p else dict_set p hex [])"
  | x y where "append_track_history hex pos alt ts pub (t, p)
      = (dict_set (if dict_has t hex then t else dict_set t hex []) hex (newest TRACK_HISTORY_MAX (dict_get_default t hex [] @ [x])),
         dict_set (if dict_has p hex then p else dict_set p hex []) hex (newest TRACK_HISTORY_MAX (dict_get_default p hex [] @ [y])))"
     "snd (snd x) = snd (snd y)"
proof (cases "dict_get_default t hex [] \<noteq> [] \<and> \<bar>fst (last (dict_get_default t hex [])) - fst pos\<bar> < 5 / 100000 \<and>
    \<bar>fst (snd (last (dict_get_default t hex []))) - snd pos\<bar> < 5 / 100000")
  case True
  show ?thesis by (rule that(1)) (simp only: append_track_history_def Let_def prod.case True simp_thms if_True)
next
  case False
  show ?thesis
    by (rule that(2)) (simp only: append_track_history_def Let_def prod.case False simp_thms if_False, simp)
qed

lemma lockstep_emit: "lockstep tr \<Longrightarrow> lockstep (append_track_history hex pos alt ts pub tr)"
proof -
  assume l: "lockstep tr"
  obtain t p where tr: "tr = (t, p)" by fastforce
  have e: "emits t x = emits p x" "length (dict_get_default t x []) \<le> TRACK_HISTORY_MAX" for x using l by (auto simp: lockstep_def tr)
  have e': "map (\<lambda>q. snd (snd q)) (dict_get_default t hex []) = map (\<lambda>q. snd (snd q)) (dict_get_default p hex [])"
    using e(1) [of hex] by (simp only: emits_def)
  show ?thesis unfolding tr
  proof (cases rule: append_track_cases [of hex pos alt ts pub t p])
    case 1
    then show "lockstep (append_track_history hex pos alt ts pub (t, p))"
      unfolding 1 lockstep_def fst_conv snd_conv emits_touch default_touch using e by blast
  next
    case (2 x y)
    show "lockstep (append_track_history hex pos alt ts pub (t, p))"
      unfolding 2(1) lockstep_def fst_conv snd_conv emits_set default_set emits_touch default_touch
      using e e' 2(2) by (simp add: map_newest newest_length)
  qed
qed

lemma lockstep_adopt: "lockstep tr \<Longrightarrow> lockstep (fst (adopt_trail a b (fst tr)), fst (adopt_trail a b (snd tr)))"
proof -
  assume l: "lockstep tr"
  obtain t p where tr: "tr = (t, p)" by fastforce
  have e: "emits t x = emits p x" "length (dict_get_default t x []) \<le> TRACK_HISTORY_MAX" for x using l by (auto simp: lockstep_def tr)
  have eq: "fst (adopt_trail a b d) = (if dict_get_default d a [] = [] then d
      else dict_set (dict_set d a []) b (newest TRACK_HISTORY_MAX (dict_get_default d a [] @ dict_get_default d b [])))" for d
    by (auto simp: adopt_trail_def dict_get_default_get split: option.split)
  show ?thesis
    using e by (auto simp: lockstep_def tr eq emits_set default_set map_newest newest_length emits_default) (simp_all add: emits_def)
qed

lemma lockstep_age: "lockstep tr \<Longrightarrow> lockstep (age_trails now tr)"
  by (auto simp: lockstep_def age_trails_def Let_def emits_def dict_get_default_get pop_all_get)

text \<open>C22: Whatever is emitted, handed over or aged, the served trail of an aircraft and its true one stay in step: point by point they are
  the same emissions, with the same altitudes and times, and never more than 60 of them.\<close>

theorem trails_stay_in_lockstep:
  "emits (fst (fold (trail_step g) evs ([], []))) hex = emits (snd (fold (trail_step g) evs ([], []))) hex \<and>
   length (dict_get_default (fst (fold (trail_step g) evs ([], []))) hex []) \<le> 60"
proof -
  have step: "lockstep tr \<Longrightarrow> lockstep (trail_step g ev tr)" for ev tr
    by (cases ev) (simp_all add: lockstep_emit lockstep_adopt lockstep_age)
  have "lockstep tr \<Longrightarrow> lockstep (fold (trail_step g) evs tr)" for tr
  proof (induction evs arbitrary: tr)
    case (Cons ev evs)
    from Cons.IH [OF step [OF Cons.prems]] show ?case by simp
  qed simp
  moreover have "lockstep ([], [])" by (simp add: lockstep_def emits_def dict_get_default_def)
  ultimately show ?thesis by (simp add: lockstep_def TRACK_HISTORY_MAX_def)
qed

text \<open>A radar entry, one fused from two receivers and a transponder's: the first two are one aircraft.\<close>

definition sample_seen :: "string \<Rightarrow> string \<Rightarrow> feed_entry" where
  "sample_seen source nd = \<lparr>f_place = Some (33, -84), f_alt_baro = None, f_source = Some source, f_n_nodes = Some 2, f_seen = None,
     f_truth = ''a1'', f_node = nd, f_contributors = [], f_payload = []\<rparr>"

lemma dedup_keeps_every_aircraft_witness:
  "\<exists>w\<in>set (dedup_aircraft flat_earth [sample_seen ''multinode_solve'' ''n1'', sample_seen ''solver_single_node'' ''n2'']).
   \<exists>w0\<in>set [sample_seen ''multinode_solve'' ''n1'', sample_seen ''solver_single_node'' ''n2''].
   \<exists>h\<in>set [sample_seen ''multinode_solve'' ''n1'', sample_seen ''solver_single_node'' ''n2''].
     (\<exists>ns. w = w0\<lparr>f_contributors := ns\<rparr>) \<and> dedup_quality_key w \<le> dedup_quality_key (sample_seen ''solver_single_node'' ''n2'') \<and>
     linked_to flat_earth h (sample_seen ''solver_single_node'' ''n2'') \<and> linked_to flat_earth h w0"
  by (rule dedup_keeps_every_aircraft) simp

subsection \<open>What ageing leaves\<close>

lemma stale_keys_mem: "dict_ok d \<Longrightarrow> k \<in> set (stale_keys P d) \<longleftrightarrow> (\<exists>v. dict_get d k = Some v \<and> P v)"
  by (force simp: stale_keys_def dict_get_def dict_ok_def)

definition fresh :: "('v \<Rightarrow> bool) \<Rightarrow> 'v option \<Rightarrow> 'v option" where
  "fresh P v = (case v of None \<Rightarrow> None | Some x \<Rightarrow> if P x then Some x else None)"

lemma pruned_get: "dict_ok d \<Longrightarrow> dict_get (pop_all (stale_keys P d) d) k = fresh (\<lambda>v. \<not> P v) (dict_get d k)"
  by (auto simp: pop_all_get stale_keys_mem fresh_def split: option.split)

lemma pop_all_ok: "dict_ok d \<Longrightarrow> dict_ok (pop_all ks d)"
proof -
  have "dict_ok d \<Longrightarrow> dict_ok (fold (\<lambda>k d. dict_del d k) ks d)" by (induction ks arbitrary: d) auto
  then show "dict_ok d \<Longrightarrow> dict_ok (pop_all ks d)" by (simp add: pop_all_def)
qed

lemma prune_holds_fold:
  assumes "distinct (map fst xs)"
  shows "dict_get (fold (\<lambda>(n, holds) d.
       (let kept = pop_all (stale_keys P holds) holds in if kept = [] then dict_del d n else dict_set d n kept)) xs d) k
     = (case map_of xs k of None \<Rightarrow> dict_get d k
        | Some holds \<Rightarrow> let kept = pop_all (stale_keys P holds) holds in if kept = [] then None else Some kept)"
  using assms
proof (induction xs arbitrary: d)
  case (Cons x xs)
  obtain n holds where x: "x = (n, holds)" by fastforce
  have new: "map_of xs n = None" using Cons.prems by (simp add: x map_of_eq_None_iff)
  show ?case using Cons.IH Cons.prems new by (cases "k = n") (simp_all add: x Let_def split: option.split)
qed simp

lemma prune_holds_get:
  "dict_ok d \<Longrightarrow> dict_get (prune_holds now d) n =
     (case dict_get d n of None \<Rightarrow> None
      | Some holds \<Rightarrow> let kept = pop_all (stale_keys (\<lambda>ms. stamp_age now ms > KNOWN_CLAIMS_STALE_S) holds) holds in if kept = [] then None else Some kept)"
  unfolding prune_holds_def by (subst prune_holds_fold) (auto simp: dict_ok_def dict_get_def split: option.split)

definition stores_ok :: "feed_stores \<Rightarrow> bool" where
  "stores_ok s \<longleftrightarrow> dict_ok (s_adsb s) \<and> dict_ok (s_claims s) \<and> dict_ok (s_holds s) \<and> list_all (\<lambda>(_, h). dict_ok h) (s_holds s) \<and>
     dict_ok (s_truths s) \<and>
     dict_ok (fst (s_trails s)) \<and> dict_ok (s_motion s) \<and> dict_ok (s_last_emit s) \<and> dict_ok (s_gate_hold s)"

lemma prune_fields:
  "s_adsb (prune_stale_stores now s) = pop_all (stale_keys (\<lambda>ms. stamp_age now ms > 60) (s_adsb s)) (s_adsb s)"
  "s_claims (prune_stale_stores now s) = pop_all (stale_keys (\<lambda>q. q = [] \<or> stamp_age now (last q) > KNOWN_CLAIMS_STALE_S) (s_claims s)) (s_claims s)"
  "s_holds (prune_stale_stores now s) = prune_holds now (s_holds s)"
  "s_truths (prune_stale_stores now s) = pop_all (stale_keys (trail_stale now GT_DISPLAY_STALE_S) (s_truths s)) (s_truths s)"
  "s_truth_meta (prune_stale_stores now s) = pop_all (stale_keys (trail_stale now GT_DISPLAY_STALE_S) (s_truths s)) (s_truth_meta s)"
  "s_anomalies (prune_stale_stores now s) = filter (\<lambda>h. h \<notin> set (stale_keys (trail_stale now GT_DISPLAY_STALE_S) (s_truths s))) (s_anomalies s)"
  "s_trails (prune_stale_stores now s) = age_trails now (s_trails s)"
  "s_motion (prune_stale_stores now s) = pop_all (stale_keys (\<lambda>m. m = [] \<or> now - snd (last m) > TRAIL_STALE_S) (s_motion s)) (s_motion s)"
  "s_last_emit (prune_stale_stores now s) = pop_all (stale_keys (\<lambda>v. now - snd v > TRAIL_STALE_S) (s_last_emit s)) (s_last_emit s)"
  by (simp_all add: prune_stale_stores_def Let_def age_trails_def)

lemma prune_gate_hold:
  "s_gate_hold (prune_stale_stores now s) =
     (let h = pop_all (stale_keys (\<lambda>v. now - snd v > TRAIL_STALE_S) (s_last_emit s)) (s_gate_hold s)
      in pop_all (stale_keys (\<lambda>t. now - t > TRAIL_STALE_S) h) h)"
  by (simp add: prune_stale_stores_def Let_def)

lemma prune_holds_entry:
  assumes "dict_ok d" "list_all (\<lambda>(_, h). dict_ok h) d"
  shows "(case dict_get (prune_holds now d) n of None \<Rightarrow> None | Some h \<Rightarrow> dict_get h k) =
    (case dict_get d n of None \<Rightarrow> None | Some h \<Rightarrow> fresh (\<lambda>ms. \<not> stamp_age now ms > KNOWN_CLAIMS_STALE_S) (dict_get h k))"
proof (cases "dict_get d n")
  case None
  then show ?thesis by (simp add: prune_holds_get [OF assms(1)])
next
  case (Some h)
  then have "(n, h) \<in> set d" by (auto simp: dict_get_def dest: map_of_SomeD)
  then have "dict_ok h" using assms(2) by (auto simp: list_all_iff)
  from pruned_get [OF this, of "\<lambda>ms. stamp_age now ms > KNOWN_CLAIMS_STALE_S" k] Some show ?thesis
    by (auto simp: prune_holds_get [OF assms(1)] Let_def)
qed

text \<open>Ageing removes exactly what is stale: a transponder report older than a minute, a claim or hold older than two, a truth not
  pushed for ten seconds with its meta and its anomaly flag, a trail with its served
  twin, a motion log or a speed reference older than five minutes, a gate's hold
  when it or its reference is; every other record survives as it was.\<close>

theorem pruning_keeps_exactly_the_fresh:
  assumes "stores_ok s" and "s' = prune_stale_stores now s"
  shows "dict_get (s_adsb s') k = fresh (\<lambda>ms. stamp_age now ms \<le> 60) (dict_get (s_adsb s) k) \<and>
    dict_get (s_claims s') k = fresh (\<lambda>q. q \<noteq> [] \<and> stamp_age now (last q) \<le> 120) (dict_get (s_claims s) k) \<and>
    (case dict_get (s_holds s') nd of None \<Rightarrow> None | Some h \<Rightarrow> dict_get h k) =
      (case dict_get (s_holds s) nd of None \<Rightarrow> None | Some h \<Rightarrow> fresh (\<lambda>ms. stamp_age now ms \<le> 120) (dict_get h k)) \<and>
    dict_get (s_truths s') k = fresh (\<lambda>t. \<not> trail_stale now 10 t) (dict_get (s_truths s) k) \<and>
    dict_get (s_truth_meta s') k = (if fresh (trail_stale now 10) (dict_get (s_truths s) k) = None then dict_get (s_truth_meta s) k else None) \<and>
    (k \<in> set (s_anomalies s') \<longleftrightarrow> k \<in> set (s_anomalies s) \<and> fresh (trail_stale now 10) (dict_get (s_truths s) k) = None) \<and>
    dict_get (fst (s_trails s')) k = fresh (\<lambda>t. \<not> trail_stale now 300 t) (dict_get (fst (s_trails s)) k) \<and>
    dict_get (snd (s_trails s')) k =
      (if fresh (trail_stale now 300) (dict_get (fst (s_trails s)) k) = None then dict_get (snd (s_trails s)) k else None) \<and>
    dict_get (s_motion s') k = fresh (\<lambda>m. m \<noteq> [] \<and> now - snd (last m) \<le> 300) (dict_get (s_motion s) k) \<and>
    dict_get (s_last_emit s') k = fresh (\<lambda>v. now - snd v \<le> 300) (dict_get (s_last_emit s) k) \<and>
    dict_get (s_gate_hold s') k = (if fresh (\<lambda>v. now - snd v > 300) (dict_get (s_last_emit s) k) = None
      then fresh (\<lambda>t. now - t \<le> 300) (dict_get (s_gate_hold s) k) else None)"
proof -
  note ok = assms(1) [unfolded stores_ok_def]
  note K = KNOWN_CLAIMS_STALE_S_def GT_DISPLAY_STALE_S_def TRAIL_STALE_S_def
  have hold: "dict_get (s_gate_hold s') k = (if fresh (\<lambda>v. now - snd v > 300) (dict_get (s_last_emit s) k) = None
      then fresh (\<lambda>t. now - t \<le> 300) (dict_get (s_gate_hold s) k) else None)"
    using ok by (auto simp: assms(2) prune_gate_hold Let_def pruned_get pop_all_ok pop_all_get stale_keys_mem K fresh_def not_less split: option.split)
  have anom: "k \<in> set (s_anomalies s') \<longleftrightarrow> k \<in> set (s_anomalies s) \<and> fresh (trail_stale now 10) (dict_get (s_truths s) k) = None"
    using ok by (auto simp: assms(2) prune_fields stale_keys_mem K fresh_def split: option.split)
  have trails: "dict_get (fst (s_trails s')) k = fresh (\<lambda>t. \<not> trail_stale now 300 t) (dict_get (fst (s_trails s)) k)"
    using ok by (simp add: assms(2) prune_fields age_trails_def Let_def pruned_get K)
  have meta: "dict_get (s_truth_meta s') k = (if fresh (trail_stale now 10) (dict_get (s_truths s) k) = None then dict_get (s_truth_meta s) k else None)"
    using ok by (auto simp: assms(2) prune_fields pop_all_get stale_keys_mem K fresh_def split: option.split)
  have public: "dict_get (snd (s_trails s')) k =
      (if fresh (trail_stale now 300) (dict_get (fst (s_trails s)) k) = None then dict_get (snd (s_trails s)) k else None)"
    using ok by (auto simp: assms(2) prune_fields age_trails_def Let_def pop_all_get stale_keys_mem K fresh_def split: option.split)
  have holds: "(case dict_get (s_holds s') nd of None \<Rightarrow> None | Some h \<Rightarrow> dict_get h k) =
      (case dict_get (s_holds s) nd of None \<Rightarrow> None | Some h \<Rightarrow> fresh (\<lambda>ms. stamp_age now ms \<le> 120) (dict_get h k))"
    using ok prune_holds_entry [where d = "s_holds s" and now = now and n = nd and k = k] unfolding assms(2) prune_fields K not_less by blast
  have rest: "dict_get (s_adsb s') k = fresh (\<lambda>ms. stamp_age now ms \<le> 60) (dict_get (s_adsb s) k)"
    "dict_get (s_claims s') k = fresh (\<lambda>q. q \<noteq> [] \<and> stamp_age now (last q) \<le> 120) (dict_get (s_claims s) k)"
    "dict_get (s_truths s') k = fresh (\<lambda>t. \<not> trail_stale now 10 t) (dict_get (s_truths s) k)"
    "dict_get (s_motion s') k = fresh (\<lambda>m. m \<noteq> [] \<and> now - snd (last m) \<le> 300) (dict_get (s_motion s) k)"
    "dict_get (s_last_emit s') k = fresh (\<lambda>v. now - snd v \<le> 300) (dict_get (s_last_emit s) k)"
    using ok by (simp_all add: assms(2) prune_fields pruned_get K not_less)
  show ?thesis by (intro conjI rest hold anom trails meta public holds)
qed

definition sample_stores :: feed_stores where
  "sample_stores = \<lparr>s_adsb = [(''a1'', 0), (''b2'', 100000)], s_claims = [], s_holds = [], s_truths = [(''a1'', [])], s_truth_meta = [],
     s_anomalies = [''a1''], s_trails = ([], []), s_motion = [], s_last_emit = [], s_gate_hold = []\<rparr>"

lemma pruning_keeps_exactly_the_fresh_witness:
  "dict_get (s_adsb (prune_stale_stores 100 sample_stores)) ''a1'' = None \<and> dict_get (s_adsb (prune_stale_stores 100 sample_stores)) ''b2'' = Some 100000 \<and>
   ''a1'' \<notin> set (s_anomalies (prune_stale_stores 100 sample_stores))"
proof -
  have ok: "stores_ok sample_stores" by (simp add: stores_ok_def sample_stores_def dict_ok_def)
  show ?thesis
    using pruning_keeps_exactly_the_fresh [OF ok refl, of 100 "''a1''"] pruning_keeps_exactly_the_fresh [OF ok refl, of 100 "''b2''"]
    by (simp add: sample_stores_def fresh_def dict_get_def stamp_age_def trail_stale_def)
qed

end
