(* ===== verification/NodeSites.thy ===== *)
theory NodeSites
  imports TrackFilter TimedCache "HOL-Library.Multiset"
begin

text \<open>
  Which nodes sit at one receive site (\<open>services/node_sites.py\<close>): where the positions come from, the
  two passes that resolve a node to its site's anchor, the snapshot they are served from and the audit
  of the pairs still apart.  Node ids are strings.  The geodesy is retina-analytics and is handed in.
\<close>

subsection \<open>Positions\<close>

record site_geodesy =
  sg_haversine :: "place \<Rightarrow> place \<Rightarrow> real"
  sg_offset :: "place \<Rightarrow> real \<Rightarrow> real \<Rightarrow> place"
  sg_km_per_deg_lat :: real
  sg_km_per_deg_lon :: "real \<Rightarrow> real"

definition SITES_TTL_S :: real where "SITES_TTL_S = 30"
definition SITES_ERROR_RETRY_S :: real where "SITES_ERROR_RETRY_S = 5"

text \<open>\<open>_is_num\<close> with the value as a float: the outer \<open>None\<close> is an \<open>OverflowError\<close>.\<close>

definition finite_num :: "json \<Rightarrow> real option option" where
  "finite_num v =
     (case v of
        JInt n \<Rightarrow> (case float_of_int n of None \<Rightarrow> None | Some _ \<Rightarrow> Some (Some (real_of_int n)))
      | JFloat (Fin x) \<Rightarrow> Some (Some x)
      | _ \<Rightarrow> Some None)"

definition site_of :: "json \<Rightarrow> json \<Rightarrow> place option option" where
  "site_of lat lon =
     (case finite_num lat of
        None \<Rightarrow> None
      | Some None \<Rightarrow> Some None
      | Some (Some x) \<Rightarrow> map_option (map_option (\<lambda>y. (x, y))) (finite_num lon))"

definition site_key :: "place \<Rightarrow> place" where
  "site_key p = (round_to 6 (fst p), round_to 6 (snd p))"

text \<open>A source's loop; \<open>named\<close> is its test of the id.  \<open>None\<close> is a source that raises.\<close>

fun collect_sites :: "(string \<Rightarrow> bool) \<Rightarrow> (string \<times> json \<times> json) list \<Rightarrow> (string, place) dict \<Rightarrow> (string, place) dict option" where
  "collect_sites named [] d = Some d"
| "collect_sites named ((n, lat, lon) # rest) d =
     (case site_of lat lon of
        None \<Rightarrow> None
      | Some None \<Rightarrow> collect_sites named rest d
      | Some (Some p) \<Rightarrow> collect_sites named rest (if named n then dict_set d n p else d))"

definition positions_from_live :: "(string \<times> (string, json) dict) list \<Rightarrow> (string, place) dict option" where
  "positions_from_live entries =
     collect_sites (\<lambda>_. True) (map (\<lambda>(n, cfg). (n, py_get cfg ''rx_lat'', py_get cfg ''rx_lon'')) entries) []"

definition positions_from_db :: "(string \<times> json \<times> json) list \<Rightarrow> (string, place) dict option" where
  "positions_from_db rows = collect_sites (\<lambda>n. n \<noteq> []) rows []"

text \<open>\<open>doc\<close> is the parsed file, \<open>None\<close> where it is absent or cannot be read.\<close>

definition file_entry :: "json \<Rightarrow> (string \<times> json \<times> json) list" where
  "file_entry e =
     (case e of
        JObj d \<Rightarrow> [(case py_get d ''node_id'' of JStr s \<Rightarrow> s | _ \<Rightarrow> [], py_get d ''rx_lat'', py_get d ''rx_lon'')]
      | _ \<Rightarrow> [])"

definition positions_from_files :: "json option \<Rightarrow> (string, place) dict option" where
  "positions_from_files doc =
     (case doc of
        None \<Rightarrow> Some []
      | Some (JObj d) \<Rightarrow>
          (case py_get d ''nodes'' of
             JArr xs \<Rightarrow> collect_sites (\<lambda>n. n \<noteq> []) (concat (map file_entry xs)) []
           | JBool True \<Rightarrow> None
           | JInt n \<Rightarrow> if n = 0 then Some [] else None
           | JFloat x \<Rightarrow> if x = Fin 0 then Some [] else None
           | _ \<Rightarrow> Some [])
      | Some _ \<Rightarrow> None)"

subsection \<open>The two passes\<close>

definition by_site :: "(string, place) dict \<Rightarrow> (place, string list) dict" where
  "by_site ps = fold (\<lambda>(n, p) d. dict_set d (site_key p) (dict_get_default d (site_key p) [] @ [n])) ps []"

definition least :: "string list \<Rightarrow> string" where
  "least ids = fold min (tl ids) (hd ids)"

definition exact_groups :: "(string, place) dict \<Rightarrow> (string \<times> string list) list" where
  "exact_groups ps = sort_key fst (map (\<lambda>g. (least (snd g), snd g)) (filter (\<lambda>g. length (snd g) > 1) (by_site ps)))"

definition single_nodes :: "(string, place) dict \<Rightarrow> string list" where
  "single_nodes ps = sort (map (\<lambda>g. hd (snd g)) (filter (\<lambda>g. length (snd g) = 1) (by_site ps)))"

definition place_of :: "(string, place) dict \<Rightarrow> string \<Rightarrow> place" where
  "place_of ps n = dict_get_default ps n (0, 0)"

text \<open>The anchors placed so far, who answers to which anchor, and who is published from an anchor's place.\<close>

record site_maps =
  sm_anchors :: "(string \<times> place) list"
  sm_identities :: "(string, string) dict"
  sm_joined :: "(string, place) dict"

definition place_group :: "(string, place) dict \<Rightarrow> string \<times> string list \<Rightarrow> site_maps \<Rightarrow> site_maps" where
  "place_group ps = (\<lambda>(anchor, ids) m. m\<lparr>
     sm_anchors := sm_anchors m @ [(anchor, place_of ps anchor)],
     sm_identities := fold (\<lambda>n d. dict_set d n anchor) ids (sm_identities m)\<rparr>)"

definition lat_gate :: "site_geodesy \<Rightarrow> real \<Rightarrow> real" where
  "lat_gate g radius = (if radius > 0 then radius / sg_km_per_deg_lat g * (101 / 100) else - 1)"

definition nearer_anchor ::
    "site_geodesy \<Rightarrow> real \<Rightarrow> place \<Rightarrow> string \<times> place \<Rightarrow> (real \<times> string \<times> place) option \<Rightarrow> (real \<times> string \<times> place) option" where
  "nearer_anchor g radius pos = (\<lambda>(a, q) best.
     if \<bar>fst q - fst pos\<bar> > lat_gate g radius then best
     else (let gap = sg_haversine g pos q
           in if gap \<le> radius \<and> (case best of None \<Rightarrow> True | Some (b, _) \<Rightarrow> gap < b) then Some (gap, a, q) else best))"

definition nearest_anchor :: "site_geodesy \<Rightarrow> real \<Rightarrow> place \<Rightarrow> (string \<times> place) list \<Rightarrow> (real \<times> string \<times> place) option" where
  "nearest_anchor g radius pos anchors = (if radius > 0 then fold (nearer_anchor g radius pos) anchors None else None)"

definition place_single :: "site_geodesy \<Rightarrow> real \<Rightarrow> (string, place) dict \<Rightarrow> string \<Rightarrow> site_maps \<Rightarrow> site_maps" where
  "place_single g radius ps n m =
     (case nearest_anchor g radius (place_of ps n) (sm_anchors m) of
        None \<Rightarrow> m\<lparr>sm_anchors := sm_anchors m @ [(n, place_of ps n)], sm_identities := dict_set (sm_identities m) n n\<rparr>
      | Some (_, a, q) \<Rightarrow> m\<lparr>sm_identities := dict_set (sm_identities m) n a, sm_joined := dict_set (sm_joined m) n q\<rparr>)"

definition cluster :: "site_geodesy \<Rightarrow> real \<Rightarrow> (string, place) dict \<Rightarrow> site_maps" where
  "cluster g radius ps =
     fold (place_single g radius ps) (single_nodes ps)
       (fold (place_group ps) (exact_groups ps) \<lparr>sm_anchors = [], sm_identities = [], sm_joined = []\<rparr>)"

subsection \<open>The snapshot\<close>

record sites =
  st_positions :: "(string, place) dict"
  st_identities :: "(string, string) dict"
  st_anchor_positions :: "(string, place) dict"
  st_snapped :: "string list"
  st_expires :: real

definition no_sites :: sites where
  "no_sites = \<lparr>st_positions = [], st_identities = [], st_anchor_positions = [], st_snapped = [], st_expires = 0\<rparr>"

definition remember :: "(string, place) dict option \<Rightarrow> (string, place) dict \<Rightarrow> (string, place) dict" where
  "remember source ps = (case source of None \<Rightarrow> ps | Some d \<Rightarrow> fold (\<lambda>(n, p) e. dict_set e n p) d ps)"

text \<open>What the three sources answer: the database, the files, the live registry.\<close>

type_synonym site_sources = "(string, place) dict option \<times> (string, place) dict option \<times> (string, place) dict option"

definition refresh_sites :: "site_geodesy \<Rightarrow> real \<Rightarrow> site_sources \<Rightarrow> sites \<Rightarrow> sites" where
  "refresh_sites g radius = (\<lambda>(db, fs, reg) s.
     (let ps = remember reg (remember fs (remember db (st_positions s))); m = cluster g radius ps
      in s\<lparr>st_positions := ps, st_identities := sm_identities m, st_anchor_positions := sm_joined m,
           st_snapped := map (\<lambda>(n, _). dict_get_default (sm_identities m) n []) (sm_joined m)\<rparr>))"

text \<open>\<open>None\<close> is a refresh that raises.\<close>

definition ensure_fresh :: "site_geodesy \<Rightarrow> real \<Rightarrow> real \<Rightarrow> site_sources option \<Rightarrow> sites \<Rightarrow> sites" where
  "ensure_fresh g radius now read s =
     (if now < st_expires s then s
      else (case read of
              Some srcs \<Rightarrow> (refresh_sites g radius srcs s)\<lparr>st_expires := now + SITES_TTL_S\<rparr>
            | None \<Rightarrow> s\<lparr>st_expires := now + SITES_ERROR_RETRY_S\<rparr>))"

text \<open>What is answered once the snapshot is fresh; \<open>[]\<close> is also the id that is missing.\<close>

definition site_identity :: "sites \<Rightarrow> string \<Rightarrow> string" where
  "site_identity s n = (if n = [] then n else dict_get_default (st_identities s) n n)"

definition site_position :: "sites \<Rightarrow> string \<Rightarrow> place option" where
  "site_position s n = (if n = [] then None else dict_get (st_anchor_positions s) n)"

definition site_shift_deg :: "sites \<Rightarrow> string \<Rightarrow> real \<times> real" where
  "site_shift_deg s n =
     (if n = [] then (0, 0)
      else (case (dict_get (st_anchor_positions s) n, dict_get (st_positions s) n) of
              (Some a, Some p) \<Rightarrow> (fst a - fst p, snd a - snd p)
            | _ \<Rightarrow> (0, 0)))"

definition site_is_snapped :: "sites \<Rightarrow> string \<Rightarrow> bool" where
  "site_is_snapped s n \<longleftrightarrow> n \<noteq> [] \<and> dict_get_default (st_identities s) n n \<in> set (st_snapped s)"

definition shared_sites :: "sites \<Rightarrow> (string, string list) dict" where
  "shared_sites s =
     map (\<lambda>(a, ids). (a, sort ids)) (filter (\<lambda>(_, ids). length ids > 1)
       (fold (\<lambda>(n, a) d. dict_set d a (dict_get_default d a [] @ [n])) (st_identities s) []))"

subsection \<open>The audit\<close>

datatype near_miss = BeyondRadius | BothExactSites | JoinedNearerSite

definition site_sizes :: "(string, place) dict \<Rightarrow> (place, nat) dict" where
  "site_sizes ps = fold (\<lambda>(_, p) d. dict_set d (site_key p) (dict_get_default d (site_key p) 0 + 1)) ps []"

definition near_miss_reason :: "string \<Rightarrow> string \<Rightarrow> real \<Rightarrow> real \<Rightarrow> (string, place) dict \<Rightarrow> (place, nat) dict \<Rightarrow> near_miss" where
  "near_miss_reason a b gap radius ps sizes =
     (if gap > radius then BeyondRadius
      else if dict_get_default sizes (site_key (place_of ps a)) 0 > 1 \<and> dict_get_default sizes (site_key (place_of ps b)) 0 > 1
      then BothExactSites else JoinedNearerSite)"

fun id_pairs :: "string list \<Rightarrow> (string \<times> string) list" where
  "id_pairs [] = []"
| "id_pairs (n # ns) = map (\<lambda>m. (n, m)) ns @ id_pairs ns"

record colocation =
  co_shared :: "(string, string list) dict"
  co_joins :: "(real \<times> string \<times> string) list"
  co_near :: "(real \<times> (string \<times> string) \<times> near_miss) list"
  co_radius :: real
  co_audit :: real

text \<open>A join is sorted by its rounded gap and its node, a near miss by its rounded gap.\<close>

definition colocation_report :: "site_geodesy \<Rightarrow> real \<Rightarrow> sites \<Rightarrow> colocation" where
  "colocation_report g radius s =
     (let ps = st_positions s; ids = st_identities s; sizes = site_sizes ps;
          joins = sort_key (\<lambda>(km, n, _). n) (map (\<lambda>(n, a). (round_to 4 (sg_haversine g (place_of ps n) a), n, dict_get_default ids n [])) (st_anchor_positions s));
          pairs = filter (\<lambda>(a, b). dict_get_default ids a a \<noteq> dict_get_default ids b b) (id_pairs (sort (map fst ps)));
          gapped = map (\<lambda>(a, b). (sg_haversine g (place_of ps a) (place_of ps b), a, b)) pairs
      in \<lparr>co_shared = shared_sites s,
          co_joins = sort_key fst joins,
          co_near = sort_key fst (map (\<lambda>(gap, a, b). (round_to 4 gap, (a, b), near_miss_reason a b gap radius ps sizes))
            (filter (\<lambda>(gap, _). gap \<le> 2 * radius) gapped)),
          co_radius = radius, co_audit = 2 * radius\<rparr>)"

text \<open>The line is logged when the report names another set of sites, joins or pairs than the last one.\<close>

type_synonym audit_print = "(string \<times> string list) list \<times> (string \<times> string) list \<times> (string \<times> string) list"

definition audit_fingerprint :: "colocation \<Rightarrow> audit_print" where
  "audit_fingerprint r = (sort_key fst (co_shared r), map (\<lambda>(_, n, a). (n, a)) (co_joins r), map (\<lambda>(_, ab, _). ab) (co_near r))"

definition log_colocation_audit :: "site_geodesy \<Rightarrow> real \<Rightarrow> sites \<Rightarrow> audit_print option \<Rightarrow> audit_print option \<times> bool" where
  "log_colocation_audit g radius s prev =
     (let f = audit_fingerprint (colocation_report g radius s)
      in if Some f = prev then (prev, False) else (Some f, True))"

subsection \<open>The groups of equal positions\<close>

definition ids_at :: "(string, place) dict \<Rightarrow> place \<Rightarrow> string list" where
  "ids_at ps k = map fst (filter (\<lambda>(_, p). site_key p = k) ps)"

lemma by_site_fold:
  "dict_get_default (fold (\<lambda>(n, p) d. dict_set d (site_key p) (dict_get_default d (site_key p) [] @ [n])) ps d) k []
   = dict_get_default d k [] @ ids_at ps k"
  by (induction ps arbitrary: d) (auto simp: ids_at_def dict_get_default_get)

lemma by_site_fold_full:
  "dict_ok d \<and> (\<forall>k. dict_get d k \<noteq> Some []) \<Longrightarrow>
   dict_ok (fold (\<lambda>(n, p) d. dict_set d (site_key p) (dict_get_default d (site_key p) [] @ [n])) ps d) \<and>
   (\<forall>k. dict_get (fold (\<lambda>(n, p) d. dict_set d (site_key p) (dict_get_default d (site_key p) [] @ [n])) ps d) k \<noteq> Some [])"
proof (induction ps arbitrary: d)
  case (Cons x ps)
  obtain n p where x: "x = (n, p)" by (cases x)
  have "dict_ok (dict_set d (site_key p) (dict_get_default d (site_key p) [] @ [n])) \<and>
    (\<forall>k. dict_get (dict_set d (site_key p) (dict_get_default d (site_key p) [] @ [n])) k \<noteq> Some [])"
    using Cons.prems by simp
  from Cons.IH [OF this] show ?case by (simp add: x)
qed simp

lemma by_site_full: "dict_ok (by_site ps) \<and> (\<forall>k. dict_get (by_site ps) k \<noteq> Some [])"
  unfolding by_site_def by (rule by_site_fold_full) simp

lemmas by_site_ok = by_site_full [THEN conjunct1]
lemmas by_site_no_empty = by_site_full [THEN conjunct2, THEN spec]

lemma by_site_get: "dict_get (by_site ps) k = (if ids_at ps k = [] then None else Some (ids_at ps k))"
proof -
  have "dict_get_default (by_site ps) k [] = ids_at ps k" using by_site_fold [of ps "[]" k] by (simp add: by_site_def dict_get_default_get)
  then show ?thesis using by_site_no_empty [of ps k] by (auto simp: dict_get_default_get split: option.splits)
qed

lemma by_site_mem: "(k, ids) \<in> set (by_site ps) \<longleftrightarrow> ids = ids_at ps k \<and> ids \<noteq> []"
proof -
  have "(k, ids) \<in> set (by_site ps) \<longleftrightarrow> dict_get (by_site ps) k = Some ids"
    using dict_get_mem dict_mem_get [OF by_site_ok] by (metis (no_types))
  then show ?thesis by (auto simp: by_site_get)
qed

lemma ids_at_mem: "dict_ok ps \<Longrightarrow> n \<in> set (ids_at ps k) \<longleftrightarrow> (\<exists>p. dict_get ps n = Some p \<and> site_key p = k)"
  by (force simp: ids_at_def dict_get_def dict_ok_def)

lemma ids_at_key: "dict_ok ps \<Longrightarrow> n \<in> set (ids_at ps k) \<Longrightarrow> k = site_key (place_of ps n)"
  by (auto simp: ids_at_mem place_of_def dict_get_default_get)

lemma ids_at_placed: "dict_ok ps \<Longrightarrow> n \<in> set (ids_at ps k) \<Longrightarrow> dict_get ps n = Some (place_of ps n)"
  by (auto simp: ids_at_mem place_of_def dict_get_default_get)

lemma ids_at_distinct: "dict_ok ps \<Longrightarrow> distinct (ids_at ps k)"
  by (simp add: ids_at_def dict_ok_def distinct_map_filter)

lemma least_Min: "ids \<noteq> [] \<Longrightarrow> least ids = Min (set ids)"
  by (cases ids) (simp_all only: least_def list.sel Min.set_eq_fold)

lemma least_mem: "ids \<noteq> [] \<Longrightarrow> least ids \<in> set ids"
  by (simp add: least_Min)

lemma exact_groups_mem: "(a, ids) \<in> set (exact_groups ps) \<longleftrightarrow> length ids > 1 \<and> a = least ids \<and> (\<exists>k. ids = ids_at ps k)"
proof -
  have "(a, ids) \<in> set (exact_groups ps) \<longleftrightarrow> (\<exists>x\<in>set (by_site ps). length (snd x) > 1 \<and> (a, ids) = (least (snd x), snd x))"
    unfolding exact_groups_def set_sort set_map set_filter image_iff by blast
  also have "\<dots> \<longleftrightarrow> (\<exists>k. (k, ids) \<in> set (by_site ps)) \<and> length ids > 1 \<and> a = least ids"
  proof
    assume "\<exists>x\<in>set (by_site ps). length (snd x) > 1 \<and> (a, ids) = (least (snd x), snd x)"
    then obtain x where "x \<in> set (by_site ps)" "length (snd x) > 1" "a = least (snd x)" "ids = snd x" by blast
    then show "(\<exists>k. (k, ids) \<in> set (by_site ps)) \<and> length ids > 1 \<and> a = least ids" by (metis surjective_pairing)
  next
    assume "(\<exists>k. (k, ids) \<in> set (by_site ps)) \<and> length ids > 1 \<and> a = least ids"
    then show "\<exists>x\<in>set (by_site ps). length (snd x) > 1 \<and> (a, ids) = (least (snd x), snd x)" by force
  qed
  finally show ?thesis by (force simp: by_site_mem)
qed

lemma single_nodes_mem: "n \<in> set (single_nodes ps) \<longleftrightarrow> (\<exists>k. ids_at ps k = [n])"
proof -
  have "n \<in> set (single_nodes ps) \<longleftrightarrow> (\<exists>x\<in>set (by_site ps). length (snd x) = 1 \<and> n = hd (snd x))"
    unfolding single_nodes_def set_sort set_map set_filter image_iff by blast
  also have "\<dots> \<longleftrightarrow> (\<exists>k. (k, [n]) \<in> set (by_site ps))"
  proof
    assume "\<exists>x\<in>set (by_site ps). length (snd x) = 1 \<and> n = hd (snd x)"
    then obtain x where x: "x \<in> set (by_site ps)" "length (snd x) = 1" "n = hd (snd x)" by blast
    then have "snd x = [n]" by (cases "snd x") auto
    then show "\<exists>k. (k, [n]) \<in> set (by_site ps)" using x(1) by (metis surjective_pairing)
  next
    assume "\<exists>k. (k, [n]) \<in> set (by_site ps)"
    then show "\<exists>x\<in>set (by_site ps). length (snd x) = 1 \<and> n = hd (snd x)" by force
  qed
  finally show ?thesis by (auto simp: by_site_mem) (metis not_Cons_self2)+
qed

lemma exact_groups_member:
  assumes "dict_ok ps" "(a, ids) \<in> set (exact_groups ps)" "n \<in> set ids"
  shows "ids = ids_at ps (site_key (place_of ps n))" "dict_get ps n = Some (place_of ps n)"
  using assms ids_at_key ids_at_placed by (fastforce simp: exact_groups_mem)+

lemma exact_groups_least: "(a, ids) \<in> set (exact_groups ps) \<Longrightarrow> a \<in> set ids"
  by (auto simp: exact_groups_mem intro!: least_mem)

lemma exact_groups_distinct:
  assumes "dict_ok ps"
  shows "distinct (map fst (exact_groups ps))"
proof -
  have "inj_on (\<lambda>x. least (snd x)) {x \<in> set (by_site ps). length (snd x) > 1}"
  proof (rule inj_onI)
    fix x y
    assume m: "x \<in> {x \<in> set (by_site ps). length (snd x) > 1}" "y \<in> {x \<in> set (by_site ps). length (snd x) > 1}" "least (snd x) = least (snd y)"
    then have xy: "snd x = ids_at ps (fst x)" "snd y = ids_at ps (fst y)" "snd x \<noteq> []" "snd y \<noteq> []"
      by (metis (mono_tags, lifting) by_site_mem mem_Collect_eq surjective_pairing)+
    then have "least (snd x) \<in> set (snd x)" "least (snd x) \<in> set (snd y)" using m(3) least_mem by metis+
    then have "fst x = fst y" using ids_at_key [OF assms] xy by metis
    then show "x = y" using xy by (metis prod_eqI)
  qed
  then have "distinct (map (\<lambda>x. least (snd x)) (filter (\<lambda>x. length (snd x) > 1) (by_site ps)))"
    using by_site_ok [of ps] by (simp add: distinct_map dict_ok_def)
  then have d: "distinct (map fst (map (\<lambda>g. (least (snd g), snd g)) (filter (\<lambda>g. length (snd g) > 1) (by_site ps))))"
    by (simp add: comp_def)
  have "mset (map fst (exact_groups ps)) = mset (map fst (map (\<lambda>g. (least (snd g), snd g)) (filter (\<lambda>g. length (snd g) > 1) (by_site ps))))"
    unfolding exact_groups_def mset_map mset_sort ..
  from mset_eq_imp_distinct_iff [OF this] d show ?thesis by (rule iffD2)
qed

lemma single_nodes_distinct:
  assumes "dict_ok ps"
  shows "distinct (single_nodes ps)"
proof -
  have "inj_on (\<lambda>x. hd (snd x)) {x \<in> set (by_site ps). length (snd x) = 1}"
  proof (rule inj_onI)
    fix x y
    assume m: "x \<in> {x \<in> set (by_site ps). length (snd x) = 1}" "y \<in> {x \<in> set (by_site ps). length (snd x) = 1}" "hd (snd x) = hd (snd y)"
    then have xy: "snd x = ids_at ps (fst x)" "snd y = ids_at ps (fst y)" "snd x \<noteq> []" "snd y \<noteq> []"
      by (metis (mono_tags, lifting) by_site_mem mem_Collect_eq surjective_pairing)+
    then have "hd (snd x) \<in> set (snd x)" "hd (snd x) \<in> set (snd y)" using m(3) list.set_sel(1) by metis+
    then have "fst x = fst y" using ids_at_key [OF assms] xy by metis
    then show "x = y" using xy by (metis prod_eqI)
  qed
  then have "distinct (map (\<lambda>x. hd (snd x)) (filter (\<lambda>x. length (snd x) = 1) (by_site ps)))"
    using by_site_ok [of ps] by (simp add: distinct_map dict_ok_def)
  then show ?thesis by (simp add: single_nodes_def)
qed

text \<open>Every placed node is in a group or alone.\<close>

lemma grouped_or_single:
  assumes "dict_ok ps" "dict_get ps n = Some p"
  obtains a ids where "(a, ids) \<in> set (exact_groups ps)" "n \<in> set ids" | "n \<in> set (single_nodes ps)"
proof -
  let ?ids = "ids_at ps (site_key p)"
  have n: "n \<in> set ?ids" using assms by (simp add: ids_at_mem)
  show ?thesis
  proof (cases "length ?ids > 1")
    case True
    then have "(least ?ids, ?ids) \<in> set (exact_groups ps)" unfolding exact_groups_mem by blast
    then show ?thesis using n that(1) by blast
  next
    case False
    then have "?ids = [n]" using n by (cases ?ids) auto
    then have "n \<in> set (single_nodes ps)" unfolding single_nodes_mem by blast
    then show ?thesis by (rule that(2))
  qed
qed

subsection \<open>What the passes keep\<close>

definition maps_ok :: "site_geodesy \<Rightarrow> real \<Rightarrow> (string, place) dict \<Rightarrow> string set \<Rightarrow> site_maps \<Rightarrow> bool" where
  "maps_ok g radius ps done_ids m \<longleftrightarrow>
     (\<forall>n. dict_get (sm_identities m) n \<noteq> None \<longleftrightarrow> n \<in> done_ids) \<and>
     (\<forall>n. dict_get (sm_joined m) n \<noteq> None \<longrightarrow> n \<in> done_ids) \<and>
     (\<forall>a q. (a, q) \<in> set (sm_anchors m) \<longrightarrow> dict_get ps a = Some q \<and> dict_get (sm_identities m) a = Some a \<and> dict_get (sm_joined m) a = None) \<and>
     (\<forall>n a. dict_get (sm_identities m) n = Some a \<longrightarrow> (\<exists>q. (a, q) \<in> set (sm_anchors m) \<and>
        (case dict_get (sm_joined m) n of None \<Rightarrow> site_key (place_of ps n) = site_key q
         | Some p \<Rightarrow> p = q \<and> sg_haversine g (place_of ps n) q \<le> radius)))"

lemma get_all: "dict_get (fold (\<lambda>n d. dict_set d n a) ids d) x = (if x \<in> set ids then Some a else dict_get d x)"
  by (rule pydict.get_fold_put)

lemma maps_ok_group:
  assumes ok: "maps_ok g radius ps done_ids m"
    and a: "a \<in> set ids" "dict_get ps a = Some (place_of ps a)"
    and same: "\<forall>n\<in>set ids. site_key (place_of ps n) = site_key (place_of ps a)"
    and new: "set ids \<inter> done_ids = {}"
  shows "maps_ok g radius ps (done_ids \<union> set ids) (place_group ps (a, ids) m)"
proof -
  have joined: "dict_get (sm_joined m) n = None" if "n \<in> set ids" for n using ok new that unfolding maps_ok_def by blast
  have anchors: "x \<notin> set ids" if "(x, q) \<in> set (sm_anchors m)" for x q
    using ok new that unfolding maps_ok_def by blast
  show ?thesis
    unfolding maps_ok_def
  proof (intro conjI allI impI)
    fix n y assume "dict_get (sm_identities (place_group ps (a, ids) m)) n = Some y"
    then consider "n \<in> set ids" "y = a" | "n \<notin> set ids" "dict_get (sm_identities m) n = Some y"
      by (auto simp: place_group_def get_all split: if_splits)
    then show "\<exists>q. (y, q) \<in> set (sm_anchors (place_group ps (a, ids) m)) \<and>
       (case dict_get (sm_joined (place_group ps (a, ids) m)) n of None \<Rightarrow> site_key (place_of ps n) = site_key q
        | Some p \<Rightarrow> p = q \<and> sg_haversine g (place_of ps n) q \<le> radius)"
    proof cases
      case 1
      then show ?thesis using joined [OF 1(1)] same by (intro exI [of _ "place_of ps a"]) (simp add: place_group_def)
    next
      case 2
      then obtain q where "(y, q) \<in> set (sm_anchors m)" "case dict_get (sm_joined m) n of None \<Rightarrow> site_key (place_of ps n) = site_key q
        | Some p \<Rightarrow> p = q \<and> sg_haversine g (place_of ps n) q \<le> radius" using ok unfolding maps_ok_def by blast
      then show ?thesis by (intro exI [of _ q]) (simp add: place_group_def)
    qed
  next
    fix n
    show "(dict_get (sm_identities (place_group ps (a, ids) m)) n \<noteq> None) = (n \<in> done_ids \<union> set ids)"
      using ok unfolding maps_ok_def by (simp add: place_group_def get_all)
    show "dict_get (sm_joined (place_group ps (a, ids) m)) n \<noteq> None \<Longrightarrow> n \<in> done_ids \<union> set ids"
      using ok unfolding maps_ok_def by (auto simp: place_group_def)
  next
    fix x q assume "(x, q) \<in> set (sm_anchors (place_group ps (a, ids) m))"
    then have "x = a \<and> q = place_of ps a \<or> (x, q) \<in> set (sm_anchors m)" by (auto simp: place_group_def)
    then have all: "dict_get ps x = Some q \<and> (x \<in> set ids \<longrightarrow> x = a) \<and> dict_get (sm_joined m) x = None \<and>
        (x \<in> set ids \<or> dict_get (sm_identities m) x = Some x)"
      using ok a joined [OF a(1)] anchors unfolding maps_ok_def by blast
    then show "dict_get ps x = Some q" "dict_get (sm_joined (place_group ps (a, ids) m)) x = None" by (simp_all add: place_group_def)
    show "dict_get (sm_identities (place_group ps (a, ids) m)) x = Some x" using all by (auto simp: place_group_def get_all)
  qed
qed

lemma nearer_fold:
  assumes "\<And>b a q. best = Some (b, a, q) \<Longrightarrow> (a, q) \<in> A \<and> b = sg_haversine g pos q \<and> b \<le> radius" "set xs \<subseteq> A"
    and "fold (nearer_anchor g radius pos) xs best = Some (b, a, q)"
  shows "(a, q) \<in> A \<and> b = sg_haversine g pos q \<and> b \<le> radius"
  using assms
proof (induction xs arbitrary: best)
  case (Cons x xs)
  have "(a, q) \<in> A \<and> b = sg_haversine g pos q \<and> b \<le> radius" if "nearer_anchor g radius pos x best = Some (b, a, q)" for b a q
    using Cons.prems(1,2) that by (auto simp: nearer_anchor_def Let_def split: prod.splits if_splits option.splits)
  from Cons.IH [OF this] Cons.prems(2,3) show ?case by simp
qed simp

lemma nearest_anchor_cases:
  "nearest_anchor g radius pos anchors = Some (b, a, q) \<Longrightarrow> (a, q) \<in> set anchors \<and> b = sg_haversine g pos q \<and> b \<le> radius"
  using nearer_fold [of None "set anchors" g pos radius anchors b a q] by (simp add: nearest_anchor_def split: if_splits)

lemma maps_ok_single:
  assumes ok: "maps_ok g radius ps done_ids m" and n: "dict_get ps n = Some (place_of ps n)" "n \<notin> done_ids"
  shows "maps_ok g radius ps (insert n done_ids) (place_single g radius ps n m)"
proof (cases "nearest_anchor g radius (place_of ps n) (sm_anchors m)")
  case None
  then have "place_single g radius ps n m = place_group ps (n, [n]) m" by (simp add: place_single_def place_group_def)
  then show ?thesis using maps_ok_group [OF ok, of n "[n]"] n by simp
next
  case (Some best)
  obtain b a q where best: "best = (b, a, q)" by (cases best)
  then have aq: "(a, q) \<in> set (sm_anchors m)" "sg_haversine g (place_of ps n) q \<le> radius"
    using nearest_anchor_cases [of g radius "place_of ps n" "sm_anchors m" b a q] Some by auto
  have step: "place_single g radius ps n m = m\<lparr>sm_identities := dict_set (sm_identities m) n a, sm_joined := dict_set (sm_joined m) n q\<rparr>"
    using Some by (simp add: place_single_def best)
  have anchors: "x \<noteq> n" if "(x, y) \<in> set (sm_anchors m)" for x y using ok n(2) that unfolding maps_ok_def by blast
  show ?thesis
    unfolding maps_ok_def
  proof (intro conjI allI impI)
    fix x y assume "dict_get (sm_identities (place_single g radius ps n m)) x = Some y"
    then consider "x = n" "y = a" | "x \<noteq> n" "dict_get (sm_identities m) x = Some y"
      by (auto simp: step split: if_splits)
    then show "\<exists>q. (y, q) \<in> set (sm_anchors (place_single g radius ps n m)) \<and>
       (case dict_get (sm_joined (place_single g radius ps n m)) x of None \<Rightarrow> site_key (place_of ps x) = site_key q
        | Some p \<Rightarrow> p = q \<and> sg_haversine g (place_of ps x) q \<le> radius)"
    proof cases
      case 1
      then show ?thesis using aq by (intro exI [of _ q]) (simp add: step)
    next
      case 2
      then obtain q' where "(y, q') \<in> set (sm_anchors m)" "case dict_get (sm_joined m) x of None \<Rightarrow> site_key (place_of ps x) = site_key q'
        | Some p \<Rightarrow> p = q' \<and> sg_haversine g (place_of ps x) q' \<le> radius" using ok unfolding maps_ok_def by blast
      then show ?thesis using 2(1) by (intro exI [of _ q']) (simp add: step)
    qed
  next
    fix x
    show "(dict_get (sm_identities (place_single g radius ps n m)) x \<noteq> None) = (x \<in> insert n done_ids)"
      using ok unfolding maps_ok_def by (simp add: step)
    show "dict_get (sm_joined (place_single g radius ps n m)) x \<noteq> None \<Longrightarrow> x \<in> insert n done_ids"
      using ok unfolding maps_ok_def by (auto simp: step split: if_splits)
  next
    fix x y assume "(x, y) \<in> set (sm_anchors (place_single g radius ps n m))"
    then have xy: "(x, y) \<in> set (sm_anchors m)" "x \<noteq> n" using anchors by (auto simp: step)
    then have "dict_get ps x = Some y \<and> dict_get (sm_identities m) x = Some x \<and> dict_get (sm_joined m) x = None"
      using ok unfolding maps_ok_def by blast
    then show "dict_get ps x = Some y" "dict_get (sm_identities (place_single g radius ps n m)) x = Some x"
      "dict_get (sm_joined (place_single g radius ps n m)) x = None"
      using xy(2) by (simp_all add: step)
  qed
qed

lemma maps_ok_groups:
  assumes "maps_ok g radius ps done_ids m"
    and "\<forall>x\<in>set gs. fst x \<in> set (snd x) \<and> (\<forall>n\<in>set (snd x). site_key (place_of ps n) = site_key (place_of ps (fst x)) \<and> dict_get ps n = Some (place_of ps n))"
    and "\<forall>x\<in>set gs. set (snd x) \<inter> done_ids = {}" "sorted_wrt (\<lambda>x y. set (snd x) \<inter> set (snd y) = {}) gs"
  shows "maps_ok g radius ps (done_ids \<union> (\<Union>x\<in>set gs. set (snd x))) (fold (place_group ps) gs m)"
  using assms
proof (induction gs arbitrary: done_ids m)
  case (Cons x gs)
  obtain a ids where x: "x = (a, ids)" by (cases x)
  have "maps_ok g radius ps (done_ids \<union> set ids) (place_group ps x m)"
    unfolding x
  proof (rule maps_ok_group [OF Cons.prems(1)])
    have "fst x \<in> set (snd x) \<and> (\<forall>n\<in>set (snd x). site_key (place_of ps n) = site_key (place_of ps (fst x)) \<and> dict_get ps n = Some (place_of ps n))"
      using Cons.prems(2) by (meson list.set_intros(1))
    then show "a \<in> set ids" "dict_get ps a = Some (place_of ps a)" "\<forall>n\<in>set ids. site_key (place_of ps n) = site_key (place_of ps a)"
      unfolding x fst_conv snd_conv by blast+
    have "set (snd x) \<inter> done_ids = {}" using Cons.prems(3) by (meson list.set_intros(1))
    then show "set ids \<inter> done_ids = {}" by (simp add: x)
  qed
  moreover have "\<forall>y\<in>set gs. set (snd y) \<inter> (done_ids \<union> set ids) = {}" using Cons.prems(3,4) by (auto simp: x)
  moreover have "sorted_wrt (\<lambda>x y. set (snd x) \<inter> set (snd y) = {}) gs" using Cons.prems(4) by simp
  moreover have "\<forall>x\<in>set gs. fst x \<in> set (snd x) \<and> (\<forall>n\<in>set (snd x). site_key (place_of ps n) = site_key (place_of ps (fst x)) \<and> dict_get ps n = Some (place_of ps n))"
    using Cons.prems(2) by (meson list.set_intros(2))
  ultimately have "maps_ok g radius ps (done_ids \<union> set ids \<union> (\<Union>x\<in>set gs. set (snd x))) (fold (place_group ps) gs (place_group ps x m))"
    using Cons.IH by blast
  then show ?case by (simp add: x Un_assoc)
qed simp

lemma maps_ok_singles:
  assumes "maps_ok g radius ps done_ids m" "\<forall>n\<in>set ns. dict_get ps n = Some (place_of ps n) \<and> n \<notin> done_ids" "distinct ns"
  shows "maps_ok g radius ps (done_ids \<union> set ns) (fold (place_single g radius ps) ns m)"
  using assms
proof (induction ns arbitrary: done_ids m)
  case (Cons n ns)
  have "maps_ok g radius ps (insert n done_ids) (place_single g radius ps n m)" using Cons.prems by (intro maps_ok_single) auto
  moreover have "\<forall>k\<in>set ns. dict_get ps k = Some (place_of ps k) \<and> k \<notin> insert n done_ids" using Cons.prems(2,3) by auto
  moreover have "distinct ns" using Cons.prems(3) by simp
  ultimately have "maps_ok g radius ps (insert n done_ids \<union> set ns) (fold (place_single g radius ps) ns (place_single g radius ps n m))" by (rule Cons.IH)
  then show ?case by simp
qed simp

lemma pairwise_sorted_wrt: "distinct xs \<Longrightarrow> (\<And>x y. x \<in> set xs \<Longrightarrow> y \<in> set xs \<Longrightarrow> x \<noteq> y \<Longrightarrow> P x y) \<Longrightarrow> sorted_wrt P xs"
  by (induction xs) auto

lemma exact_groups_disjoint:
  assumes "dict_ok ps"
  shows "sorted_wrt (\<lambda>x y. set (snd x) \<inter> set (snd y) = {}) (exact_groups ps)"
proof (rule pairwise_sorted_wrt)
  show "distinct (exact_groups ps)" using exact_groups_distinct [OF assms] by (rule distinct_map [THEN iffD1, THEN conjunct1])
  fix x y assume xy: "x \<in> set (exact_groups ps)" "y \<in> set (exact_groups ps)" "x \<noteq> y"
  show "set (snd x) \<inter> set (snd y) = {}"
  proof (rule ccontr)
    assume "set (snd x) \<inter> set (snd y) \<noteq> {}"
    then obtain n where n: "n \<in> set (snd x)" "n \<in> set (snd y)" by blast
    then have "snd x = snd y" using exact_groups_member(1) [OF assms] xy(1,2) by (metis surjective_pairing)
    moreover have "fst x = least (snd x)" "fst y = least (snd y)" using xy(1,2) exact_groups_mem by (metis surjective_pairing)+
    ultimately show False using xy(3) by (metis prod_eqI)
  qed
qed

lemma exact_groups_sound:
  assumes "dict_ok ps" "x \<in> set (exact_groups ps)"
  shows "fst x \<in> set (snd x) \<and> (\<forall>n\<in>set (snd x). site_key (place_of ps n) = site_key (place_of ps (fst x)) \<and> dict_get ps n = Some (place_of ps n))"
proof -
  obtain a ids where x: "x = (a, ids)" by (cases x)
  obtain k where k: "ids = ids_at ps k" using assms(2) x exact_groups_mem by blast
  have "a \<in> set ids" using exact_groups_least assms(2) x by blast
  then show ?thesis using ids_at_key [OF assms(1)] ids_at_placed [OF assms(1)] by (auto simp: x k)
qed

lemma single_nodes_placed: "dict_ok ps \<Longrightarrow> n \<in> set (single_nodes ps) \<Longrightarrow> dict_get ps n = Some (place_of ps n)"
  using ids_at_placed unfolding single_nodes_mem by (metis list.set_intros(1))

lemma single_not_grouped:
  assumes "dict_ok ps" "n \<in> set (single_nodes ps)" "x \<in> set (exact_groups ps)"
  shows "n \<notin> set (snd x)"
proof
  assume n: "n \<in> set (snd x)"
  obtain k where k: "ids_at ps k = [n]" using assms(2) single_nodes_mem by blast
  then have "k = site_key (place_of ps n)" using ids_at_key [OF assms(1)] by (metis list.set_intros(1))
  moreover have "snd x = ids_at ps (site_key (place_of ps n))" "length (snd x) > 1"
    using exact_groups_member(1) [OF assms(1) _ n] assms(3) exact_groups_mem by (metis surjective_pairing)+
  ultimately show False using k by simp
qed

lemma maps_ok_cluster:
  assumes "dict_ok ps"
  shows "maps_ok g radius ps ((\<Union>x\<in>set (exact_groups ps). set (snd x)) \<union> set (single_nodes ps)) (cluster g radius ps)"
proof -
  have "maps_ok g radius ps {} \<lparr>sm_anchors = [], sm_identities = [], sm_joined = []\<rparr>" by (simp add: maps_ok_def)
  from maps_ok_groups [OF this _ _ exact_groups_disjoint [OF assms]]
  have "maps_ok g radius ps ({} \<union> (\<Union>x\<in>set (exact_groups ps). set (snd x)))
      (fold (place_group ps) (exact_groups ps) \<lparr>sm_anchors = [], sm_identities = [], sm_joined = []\<rparr>)"
    using exact_groups_sound [OF assms] by blast
  from maps_ok_singles [OF this _ single_nodes_distinct [OF assms]] show ?thesis
    unfolding cluster_def using single_nodes_placed [OF assms] single_not_grouped [OF assms] by simp
qed

lemma near_anchor:
  assumes "dict_ok ps" and "dict_get ps n = Some p" and "m = cluster g radius ps"
  shows "\<exists>a q. dict_get (sm_identities m) n = Some a \<and> dict_get ps a = Some q \<and>
    dict_get (sm_identities m) a = Some a \<and> dict_get (sm_joined m) a = None \<and>
    (dict_get (sm_joined m) n = None \<and> site_key p = site_key q \<or> dict_get (sm_joined m) n = Some q \<and> sg_haversine g p q \<le> radius)"
proof -
  let ?all = "(\<Union>x\<in>set (exact_groups ps). set (snd x)) \<union> set (single_nodes ps)"
  have ok: "maps_ok g radius ps ?all m" using maps_ok_cluster [OF assms(1)] assms(3) by simp
  have "n \<in> ?all" using grouped_or_single [OF assms(1,2)] by (metis UN_I UnI1 UnI2 snd_conv)
  then obtain a where a: "dict_get (sm_identities m) n = Some a" using ok unfolding maps_ok_def by blast
  have p: "place_of ps n = p" using assms(2) by (simp add: place_of_def dict_get_default_get)
  obtain q where q: "(a, q) \<in> set (sm_anchors m)" "case dict_get (sm_joined m) n of None \<Rightarrow> site_key p = site_key q
      | Some p' \<Rightarrow> p' = q \<and> sg_haversine g p q \<le> radius"
    using ok a unfolding maps_ok_def p [symmetric] by blast
  have "dict_get ps a = Some q" "dict_get (sm_identities m) a = Some a" "dict_get (sm_joined m) a = None"
    using ok q(1) unfolding maps_ok_def by blast+
  moreover have "dict_get (sm_joined m) n = None \<and> site_key p = site_key q \<or> dict_get (sm_joined m) n = Some q \<and> sg_haversine g p q \<le> radius"
    using q(2) by (cases "dict_get (sm_joined m) n") simp_all
  ultimately show ?thesis using a by blast
qed

subsection \<open>The order of arrival\<close>

lemma same_entries:
  assumes "dict_ok ps" "mset ps = mset qs"
  shows "dict_ok qs" "dict_get qs = dict_get ps"
proof -
  have "mset (map fst ps) = mset (map fst qs)" using assms(2) by simp
  then show ok: "dict_ok qs" using assms(1) unfolding dict_ok_def by (rule mset_eq_imp_distinct_iff [THEN iffD1])
  have "set ps = set qs" using assms(2) by (rule mset_eq_setD)
  then have "dict_get ps k = Some v \<longleftrightarrow> dict_get qs k = Some v" for k v
    using dict_get_mem dict_mem_get [OF ok] dict_mem_get [OF assms(1)] by (metis (no_types))
  then show "dict_get qs = dict_get ps" by (metis ext option.exhaust)
qed

lemma same_ids_at: "mset ps = mset qs \<Longrightarrow> mset (ids_at ps k) = mset (ids_at qs k)"
  by (simp add: ids_at_def)

lemma sorted_by_key:
  assumes "distinct (map fst xs)" "\<And>a v. (a, v) \<in> set xs \<Longrightarrow> v = f a"
  shows "sort_key fst xs = map (\<lambda>a. (a, f a)) (sorted_list_of_set (fst ` set xs))"
proof -
  have "sorted (map fst (sort_key fst xs))" by simp
  moreover have d: "distinct (map fst (sort_key fst xs))"
  proof -
    have "mset (map fst (sort_key fst xs)) = mset (map fst xs)" unfolding mset_map mset_sort ..
    from mset_eq_imp_distinct_iff [OF this] assms(1) show ?thesis by (rule iffD2)
  qed
  ultimately have "map fst (sort_key fst xs) = sorted_list_of_set (set (map fst (sort_key fst xs)))"
    by (rule sorted_list_of_set.idem_if_sorted_distinct [symmetric])
  then have keys: "map fst (sort_key fst xs) = sorted_list_of_set (fst ` set xs)" by simp
  have "map (\<lambda>a. (a, f a)) (map fst (sort_key fst xs)) = map (\<lambda>x. x) (sort_key fst xs)"
    unfolding map_map comp_def by (rule map_cong [OF refl]) (use assms(2) in \<open>auto simp: prod_eq_iff\<close>)
  then show ?thesis by (simp add: keys)
qed

definition anchor_ids :: "(string, place) dict \<Rightarrow> string set" where
  "anchor_ids ps = {n. \<exists>k. length (ids_at ps k) > 1 \<and> n = least (ids_at ps k)}"

lemma exact_groups_form:
  assumes "dict_ok ps"
  shows "exact_groups ps = map (\<lambda>a. (a, ids_at ps (site_key (place_of ps a)))) (sorted_list_of_set (anchor_ids ps))"
proof -
  let ?xs = "map (\<lambda>g. (least (snd g), snd g)) (filter (\<lambda>g. length (snd g) > 1) (by_site ps))"
  have groups: "set ?xs = set (exact_groups ps)" by (simp add: exact_groups_def)
  have "distinct (map fst ?xs)"
  proof -
    have "mset (map fst (exact_groups ps)) = mset (map fst ?xs)" unfolding exact_groups_def mset_map mset_sort ..
    from mset_eq_imp_distinct_iff [OF this] exact_groups_distinct [OF assms] show ?thesis by (rule iffD1)
  qed
  moreover have "v = ids_at ps (site_key (place_of ps a))" if "(a, v) \<in> set ?xs" for a v
    using that exact_groups_member(1) [OF assms] exact_groups_least unfolding groups by blast
  ultimately have "exact_groups ps = map (\<lambda>a. (a, ids_at ps (site_key (place_of ps a)))) (sorted_list_of_set (fst ` set ?xs))"
    unfolding exact_groups_def by (rule sorted_by_key)
  moreover have "fst ` set ?xs = anchor_ids ps"
  proof (intro set_eqI iffI)
    fix a assume "a \<in> fst ` set ?xs"
    then obtain ids where "(a, ids) \<in> set (exact_groups ps)" unfolding groups by (metis imageE surjective_pairing)
    then show "a \<in> anchor_ids ps" unfolding exact_groups_mem anchor_ids_def by blast
  next
    fix a assume "a \<in> anchor_ids ps"
    then obtain k where "length (ids_at ps k) > 1" "a = least (ids_at ps k)" unfolding anchor_ids_def by blast
    then have "(a, ids_at ps k) \<in> set (exact_groups ps)" unfolding exact_groups_mem by blast
    then show "a \<in> fst ` set ?xs" unfolding groups by (metis fst_conv image_eqI)
  qed
  ultimately show ?thesis by simp
qed

lemma single_nodes_form: "dict_ok ps \<Longrightarrow> single_nodes ps = sorted_list_of_set {n. \<exists>k. ids_at ps k = [n]}"
proof -
  assume ok: "dict_ok ps"
  have "sorted (single_nodes ps)" by (simp add: single_nodes_def)
  then have "sorted_list_of_set (set (single_nodes ps)) = single_nodes ps"
    using single_nodes_distinct [OF ok] by (rule sorted_list_of_set.idem_if_sorted_distinct)
  moreover have "set (single_nodes ps) = {n. \<exists>k. ids_at ps k = [n]}" using single_nodes_mem by blast
  ultimately show ?thesis by simp
qed

definition maps_agree :: "site_maps \<Rightarrow> site_maps \<Rightarrow> bool" where
  "maps_agree m m' \<longleftrightarrow> sm_anchors m = sm_anchors m' \<and> sm_joined m = sm_joined m' \<and> dict_get (sm_identities m) = dict_get (sm_identities m')"

lemma agree_group:
  assumes "maps_agree m m'" "set ids = set ids'" "place_of ps = place_of qs"
  shows "maps_agree (place_group ps (a, ids) m) (place_group qs (a, ids') m')"
  using assms by (auto simp: maps_agree_def place_group_def get_all fun_eq_iff)

lemma agree_groups:
  assumes "maps_agree m m'" "place_of ps = place_of qs" "\<forall>a\<in>set as. set (f a) = set (f' a)"
  shows "maps_agree (fold (place_group ps) (map (\<lambda>a. (a, f a)) as) m) (fold (place_group qs) (map (\<lambda>a. (a, f' a)) as) m')"
  using assms
proof (induction as arbitrary: m m')
  case (Cons a as)
  have "maps_agree (place_group ps (a, f a) m) (place_group qs (a, f' a) m')" using Cons.prems by (intro agree_group) auto
  from Cons.IH [OF this] Cons.prems(2,3) show ?case by simp
qed simp

lemma agree_single:
  assumes "maps_agree m m'" "place_of ps = place_of qs"
  shows "maps_agree (place_single g radius ps n m) (place_single g radius qs n m')"
  using assms by (auto simp: maps_agree_def place_single_def fun_eq_iff split: option.split)

lemma agree_singles:
  assumes "maps_agree m m'" "place_of ps = place_of qs"
  shows "maps_agree (fold (place_single g radius ps) ns m) (fold (place_single g radius qs) ns m')"
  using assms(1)
proof (induction ns arbitrary: m m')
  case (Cons n ns)
  from Cons.IH [OF agree_single [OF Cons.prems assms(2)]] show ?case by simp
qed simp

text \<open>C28: The sites do not depend on the order in which the nodes came: whatever the order of the positions, each node resolves to the
  same anchor, the nodes published from an anchor's place are the same and so are the places.\<close>

theorem sites_ignore_arrival_order:
  assumes "dict_ok ps" and "mset ps = mset qs"
  shows "dict_get (sm_identities (cluster g radius qs)) = dict_get (sm_identities (cluster g radius ps)) \<and>
    sm_joined (cluster g radius qs) = sm_joined (cluster g radius ps)"
proof -
  note same = same_entries [OF assms]
  have place: "place_of ps = place_of qs" using same(2) by (simp add: place_of_def dict_get_default_get fun_eq_iff)
  have len: "length (ids_at ps k) = length (ids_at qs k)" and set_eq: "set (ids_at ps k) = set (ids_at qs k)" for k
    using same_ids_at [OF assms(2), of k] by (auto dest: mset_eq_length mset_eq_setD)
  have least: "least (ids_at ps k) = least (ids_at qs k)" if "length (ids_at ps k) > 1" for k
    using that len [of k] set_eq [of k] least_Min by (metis length_greater_0_conv less_trans zero_less_one)
  have anchors: "anchor_ids ps = anchor_ids qs" unfolding anchor_ids_def using len least by (metis (no_types, lifting))
  have "ids_at ps k = [n] \<longleftrightarrow> ids_at qs k = [n]" for k n
    using same_ids_at [OF assms(2), of k] by (metis mset_single_iff mset.simps)
  then have singles: "single_nodes ps = single_nodes qs" using single_nodes_form assms(1) same(1) by simp
  have "maps_agree (fold (place_group ps) (exact_groups ps) \<lparr>sm_anchors = [], sm_identities = [], sm_joined = []\<rparr>)
      (fold (place_group qs) (exact_groups qs) \<lparr>sm_anchors = [], sm_identities = [], sm_joined = []\<rparr>)"
    unfolding exact_groups_form [OF assms(1)] exact_groups_form [OF same(1)] anchors [symmetric] place [symmetric]
    by (rule agree_groups) (simp_all add: maps_agree_def place set_eq)
  from agree_singles [OF this place, of g radius "single_nodes ps"] have "maps_agree (cluster g radius ps) (cluster g radius qs)"
    by (simp add: cluster_def singles)
  then show ?thesis by (simp add: maps_agree_def)
qed

subsection \<open>What stays put\<close>

lemma singles_leave:
  "n \<notin> set ns \<Longrightarrow> dict_get (sm_identities (fold (place_single g radius ps) ns m)) n = dict_get (sm_identities m) n \<and>
     dict_get (sm_joined (fold (place_single g radius ps) ns m)) n = dict_get (sm_joined m) n"
proof (induction ns arbitrary: m)
  case (Cons x ns)
  then have "dict_get (sm_identities (place_single g radius ps x m)) n = dict_get (sm_identities m) n \<and>
      dict_get (sm_joined (place_single g radius ps x m)) n = dict_get (sm_joined m) n"
    by (auto simp: place_single_def split: option.split)
  then show ?case using Cons.IH [of "place_single g radius ps x m"] Cons.prems by simp
qed simp

lemma groups_joined: "sm_joined (fold (place_group ps) gs m) = sm_joined m"
  by (induction gs arbitrary: m) (auto simp: place_group_def)

lemma groups_identity:
  assumes "sorted_wrt (\<lambda>x y. set (snd x) \<inter> set (snd y) = {}) gs" "(a, ids) \<in> set gs" "n \<in> set ids"
  shows "dict_get (sm_identities (fold (place_group ps) gs m)) n = Some a"
  using assms
proof (induction gs arbitrary: m)
  case (Cons x gs)
  obtain b js where x: "x = (b, js)" by (cases x)
  show ?case
  proof (cases "(a, ids) = x")
    case True
    have "dict_get (sm_identities (fold (place_group ps) gs m')) n = dict_get (sm_identities m') n" for m'
    proof -
      have "\<forall>y\<in>set gs. n \<notin> set (snd y)" using Cons.prems(1,3) True by (auto simp: x)
      then show ?thesis by (induction gs arbitrary: m') (auto simp: place_group_def get_all)
    qed
    then show ?thesis using True Cons.prems(3) by (auto simp: place_group_def get_all)
  next
    case False
    then show ?thesis using Cons.IH [of "place_group ps x m"] Cons.prems by auto
  qed
qed simp

text \<open>A site of equal coordinates answers to its least id whatever other nodes are known.\<close>

lemma exact_sites_are_frozen:
  assumes "dict_ok ps" and "n \<in> set (ids_at ps k)" and "length (ids_at ps k) > 1"
  shows "dict_get (sm_identities (cluster g radius ps)) n = Some (least (ids_at ps k)) \<and> dict_get (sm_joined (cluster g radius ps)) n = None"
proof -
  have group: "(least (ids_at ps k), ids_at ps k) \<in> set (exact_groups ps)" using assms(3) unfolding exact_groups_mem by blast
  have "n \<notin> set (single_nodes ps)" using single_not_grouped [OF assms(1) _ group] assms(2) by auto
  from singles_leave [OF this] show ?thesis
    unfolding cluster_def by (simp add: groups_joined groups_identity [OF exact_groups_disjoint [OF assms(1)] group assms(2)])
qed

lemma remember_keeps: "dict_get ps n \<noteq> None \<Longrightarrow> dict_get (remember source ps) n \<noteq> None"
proof -
  have "dict_get ps n \<noteq> None \<Longrightarrow> dict_get (fold (\<lambda>(n, p) e. dict_set e n p) d ps) n \<noteq> None" for d
  proof (induction d arbitrary: ps)
    case (Cons x d)
    have "dict_get (dict_set ps (fst x) (snd x)) n \<noteq> None" using Cons.prems by simp
    from Cons.IH [OF this] show ?case by (simp add: case_prod_beta)
  qed simp
  then show "dict_get ps n \<noteq> None \<Longrightarrow> dict_get (remember source ps) n \<noteq> None" by (cases source) (simp_all add: remember_def)
qed

lemma remember_ok: "dict_ok ps \<Longrightarrow> dict_ok (remember source ps)"
proof -
  have "dict_ok ps \<Longrightarrow> dict_ok (fold (\<lambda>(n, p) e. dict_set e n p) d ps)" for d
    by (induction d arbitrary: ps) auto
  then show "dict_ok ps \<Longrightarrow> dict_ok (remember source ps)" by (simp add: remember_def split: option.split)
qed

text \<open>The snapshot is the clustering of the positions it remembers.\<close>

definition sites_ok :: "site_geodesy \<Rightarrow> real \<Rightarrow> sites \<Rightarrow> bool" where
  "sites_ok g radius s \<longleftrightarrow> dict_ok (st_positions s) \<and> st_identities s = sm_identities (cluster g radius (st_positions s)) \<and>
     st_anchor_positions s = sm_joined (cluster g radius (st_positions s)) \<and>
     st_snapped s = map (\<lambda>(n, _). dict_get_default (st_identities s) n []) (st_anchor_positions s)"

lemma sites_ok_start: "sites_ok g radius no_sites"
  by (simp add: sites_ok_def no_sites_def cluster_def exact_groups_def single_nodes_def by_site_def)

lemma sites_ok_refresh: "sites_ok g radius s \<Longrightarrow> sites_ok g radius (refresh_sites g radius srcs s)"
  by (cases srcs) (simp add: sites_ok_def refresh_sites_def Let_def remember_ok)

lemma sites_ok_fresh: "sites_ok g radius s \<Longrightarrow> sites_ok g radius (ensure_fresh g radius now read s)"
  using sites_ok_refresh [of g radius s] by (cases read) (simp_all add: ensure_fresh_def sites_ok_def)

interpretation site_reads: timed_cache "ensure_fresh g radius" st_expires "\<lambda>s. ()" "\<lambda>_. ()" "\<lambda>u. u" SITES_TTL_S SITES_ERROR_RETRY_S
  by unfold_locales (auto simp: ensure_fresh_def SITES_TTL_S_def SITES_ERROR_RETRY_S_def)

definition site_run :: "site_geodesy \<Rightarrow> real \<Rightarrow> (real \<times> site_sources option) list \<Rightarrow> sites \<Rightarrow> sites" where
  "site_run g radius qs s = fold (\<lambda>(now, read). ensure_fresh g radius now read) qs s"

lemma sites_ok_run: "sites_ok g radius s \<Longrightarrow> sites_ok g radius (site_run g radius qs s)"
  unfolding site_run_def by (induction qs arbitrary: s) (auto simp: sites_ok_fresh)

text \<open>C27: Every receiver whose coordinates are known resolves to one anchor that is its own anchor and is published from its own place:
  either the receiver sits at the anchor's coordinates, to the precision of the wire, and is published from its own, or it was alone
  there, lies within the merge radius of the anchor and is published from the anchor's place.  No chain of neighbours carries it further.\<close>

theorem nodes_resolve_to_a_near_anchor:
  assumes "s = site_run g radius qs no_sites" and "dict_get (st_positions s) n = Some p" and "n \<noteq> []"
  shows "\<exists>a q. site_identity s n = a \<and> dict_get (st_positions s) a = Some q \<and> site_identity s a = a \<and> site_position s a = None \<and>
    (site_position s n = None \<and> site_key p = site_key q \<or> site_position s n = Some q \<and> sg_haversine g p q \<le> radius)"
proof -
  have ok: "sites_ok g radius s" unfolding assms(1) by (rule sites_ok_run [OF sites_ok_start])
  then have d: "dict_ok (st_positions s)" and maps: "st_identities s = sm_identities (cluster g radius (st_positions s))"
    "st_anchor_positions s = sm_joined (cluster g radius (st_positions s))" by (simp_all add: sites_ok_def)
  obtain a q where aq: "dict_get (st_identities s) n = Some a" "dict_get (st_positions s) a = Some q" "dict_get (st_identities s) a = Some a"
    "dict_get (st_anchor_positions s) a = None"
    "dict_get (st_anchor_positions s) n = None \<and> site_key p = site_key q \<or> dict_get (st_anchor_positions s) n = Some q \<and> sg_haversine g p q \<le> radius"
    using near_anchor [OF d assms(2) refl, of g radius] unfolding maps by blast
  have "site_identity s n = a" "site_identity s a = a" using aq(1,3) assms(3) by (simp_all add: site_identity_def dict_get_default_get)
  moreover have "site_position s a = None" "site_position s n = dict_get (st_anchor_positions s) n"
    using aq(4) assms(3) by (simp_all add: site_position_def)
  ultimately show ?thesis using aq(2,5) by (intro exI [of _ a] exI [of _ q]) simp
qed

lemma fresh_keeps: "dict_get (st_positions s) n \<noteq> None \<Longrightarrow> dict_get (st_positions (ensure_fresh g radius now read s)) n \<noteq> None"
proof -
  assume n: "dict_get (st_positions s) n \<noteq> None"
  have "dict_get (st_positions (refresh_sites g radius srcs s)) n \<noteq> None" for srcs
    using remember_keeps [OF remember_keeps [OF remember_keeps [OF n]]] by (simp add: refresh_sites_def Let_def case_prod_beta)
  then show ?thesis using n by (simp add: ensure_fresh_def split: option.split)
qed

lemma run_keeps: "dict_get (st_positions s) n \<noteq> None \<Longrightarrow> dict_get (st_positions (site_run g radius qs s)) n \<noteq> None"
  unfolding site_run_def
proof (induction qs arbitrary: s)
  case (Cons q qs)
  have "dict_get (st_positions (ensure_fresh g radius (fst q) (snd q) s)) n \<noteq> None" using Cons.prems by (rule fresh_keeps)
  from Cons.IH [OF this] show ?case by (simp add: case_prod_beta)
qed simp

text \<open>A read in which no source that answers names the node.\<close>

definition silent_on :: "string \<Rightarrow> site_sources option \<Rightarrow> bool" where
  "silent_on n read =
     (case read of
        None \<Rightarrow> True
      | Some (d1, d2, d3) \<Rightarrow> list_all (\<lambda>src. case src of None \<Rightarrow> True | Some d \<Rightarrow> dict_get d n = None) [d1, d2, d3])"

lemma remember_silent:
  "(case source of None \<Rightarrow> True | Some d \<Rightarrow> dict_get d n = None) \<Longrightarrow> dict_get (remember source ps) n = dict_get ps n"
proof -
  have "dict_get d n = None \<Longrightarrow> dict_get (fold (\<lambda>(n, p) e. dict_set e n p) d ps) n = dict_get ps n" for d
  proof (induction d arbitrary: ps)
    case (Cons x d)
    then have "fst x \<noteq> n" "dict_get d n = None" by (auto simp: dict_get_def split: if_splits)
    then show ?case using Cons.IH [of "dict_set ps (fst x) (snd x)"] by (simp add: case_prod_beta)
  qed simp
  then show "(case source of None \<Rightarrow> True | Some d \<Rightarrow> dict_get d n = None) \<Longrightarrow> dict_get (remember source ps) n = dict_get ps n"
    by (simp add: remember_def split: option.splits)
qed

lemma fresh_silent: "silent_on n read \<Longrightarrow> dict_get (st_positions (ensure_fresh g radius now read s)) n = dict_get (st_positions s) n"
  by (cases read) (auto simp: ensure_fresh_def refresh_sites_def Let_def silent_on_def remember_silent)

lemma run_silent:
  "list_all (\<lambda>q. silent_on n (snd q)) qs \<Longrightarrow> dict_get (st_positions (site_run g radius qs s)) n = dict_get (st_positions s) n"
  unfolding site_run_def by (induction qs arbitrary: s) (auto simp: fresh_silent)

text \<open>A receiver that goes offline does not dissolve the site it shares.  Once two receivers are known at equal coordinates, then as
  long as no source gives either anew, whatever the sources answer, fail to answer or no longer name, both keep one identity and
  each is published from its own place.\<close>

theorem offline_nodes_keep_their_site:
  assumes "s = site_run g radius qs no_sites" and "n \<noteq> n'"
    and "dict_get (st_positions s) n = Some p" and "dict_get (st_positions s) n' = Some p'" and "site_key p = site_key p'"
    and "list_all (\<lambda>q. silent_on n (snd q) \<and> silent_on n' (snd q)) later"
    and "s' = site_run g radius later s"
  shows "dict_get (st_identities s') n = dict_get (st_identities s') n' \<and> dict_get (st_identities s') n \<noteq> None \<and>
    site_position s' n = None \<and> site_position s' n' = None"
proof -
  have ok: "sites_ok g radius s'" unfolding assms(1,7) by (intro sites_ok_run sites_ok_start)
  then have d: "dict_ok (st_positions s')" by (simp add: sites_ok_def)
  let ?ids = "ids_at (st_positions s') (site_key p)"
  have "list_all (\<lambda>q. silent_on n (snd q)) later" "list_all (\<lambda>q. silent_on n' (snd q)) later" using assms(6) by (auto simp: list_all_iff)
  then have "dict_get (st_positions s') n = Some p" "dict_get (st_positions s') n' = Some p'"
    using run_silent assms(3,4,7) by auto
  then have mem: "n \<in> set ?ids" "n' \<in> set ?ids" using assms(5) by (simp_all add: ids_at_mem [OF d])
  then have "length ?ids > 1" using assms(2) by (cases ?ids; cases "tl ?ids") auto
  from exact_sites_are_frozen [OF d mem(1) this, of g radius] exact_sites_are_frozen [OF d mem(2) this, of g radius] ok
  show ?thesis by (simp add: sites_ok_def site_position_def)
qed

subsection \<open>Instances\<close>

text \<open>A plane whose distances are those of latitudes, at 111 kilometres a degree.\<close>

definition sample_plane :: site_geodesy where
  "sample_plane = \<lparr>sg_haversine = (\<lambda>p q. \<bar>fst p - fst q\<bar> * 111), sg_offset = (\<lambda>p e n. (fst p + n / 111, snd p + e / 111)),
     sg_km_per_deg_lat = 111, sg_km_per_deg_lon = (\<lambda>_. 111)\<rparr>"

text \<open>Three receivers in a row: the second is 144 metres from the first, the third ten metres from the second.\<close>

definition sample_row :: "(string, place) dict" where
  "sample_row = [(''a'', (0, 0)), (''b'', (1300 / 1000000, 0)), (''c'', (1390 / 1000000, 0))]"

lemmas cluster_eval = cluster_def exact_groups_def single_nodes_def by_site_def site_key_def round_to_def round_half_even_def
  dict_get_def dict_get_default_def dict_set_def place_group_def place_single_def nearest_anchor_def nearer_anchor_def lat_gate_def
  place_of_def sample_plane_def sample_row_def least_def Let_def

definition sample_reading :: "(real \<times> site_sources option) list" where
  "sample_reading = [(0, Some (Some sample_row, None, None))]"

lemma nodes_resolve_to_a_near_anchor_witness:
  "\<exists>a q. site_identity (site_run sample_plane (3 / 20) sample_reading no_sites) ''b'' = a \<and> dict_get (st_positions (site_run sample_plane (3 / 20) sample_reading no_sites)) a = Some q \<and> site_identity (site_run sample_plane (3 / 20) sample_reading no_sites) a = a \<and> site_position (site_run sample_plane (3 / 20) sample_reading no_sites) a = None \<and>
    (site_position (site_run sample_plane (3 / 20) sample_reading no_sites) ''b'' = None \<and> site_key (1300 / 1000000, 0) = site_key q \<or>
     site_position (site_run sample_plane (3 / 20) sample_reading no_sites) ''b'' = Some q \<and> sg_haversine sample_plane (1300 / 1000000, 0) q \<le> 3 / 20)"
proof (rule nodes_resolve_to_a_near_anchor [OF refl])
  show "dict_get (st_positions (site_run sample_plane (3 / 20) sample_reading no_sites)) ''b'' = Some (1300 / 1000000, 0)"
    by (simp add: site_run_def sample_reading_def ensure_fresh_def refresh_sites_def remember_def Let_def no_sites_def sample_row_def)
qed simp

lemma sites_ignore_arrival_order_witness:
  "dict_get (sm_identities (cluster sample_plane (3 / 20) (rev sample_row))) = dict_get (sm_identities (cluster sample_plane (3 / 20) sample_row)) \<and>
   sm_joined (cluster sample_plane (3 / 20) (rev sample_row)) = sm_joined (cluster sample_plane (3 / 20) sample_row)"
  by (rule sites_ignore_arrival_order) (simp_all add: dict_ok_def sample_row_def)

definition sample_pair :: "(real \<times> site_sources option) list" where
  "sample_pair = [(0, Some (Some [(''a'', (1, 2)), (''b'', (1, 2))], None, None))]"

lemma offline_nodes_keep_their_site_witness:
  "dict_get (st_identities (site_run sample_plane 1 [(100, None)] (site_run sample_plane 1 sample_pair no_sites))) ''a''
     = dict_get (st_identities (site_run sample_plane 1 [(100, None)] (site_run sample_plane 1 sample_pair no_sites))) ''b'' \<and>
   dict_get (st_identities (site_run sample_plane 1 [(100, None)] (site_run sample_plane 1 sample_pair no_sites))) ''a'' \<noteq> None \<and>
   site_position (site_run sample_plane 1 [(100, None)] (site_run sample_plane 1 sample_pair no_sites)) ''a'' = None \<and>
   site_position (site_run sample_plane 1 [(100, None)] (site_run sample_plane 1 sample_pair no_sites)) ''b'' = None"
proof (rule offline_nodes_keep_their_site [OF refl _ _ _ refl _ refl])
  show "dict_get (st_positions (site_run sample_plane 1 sample_pair no_sites)) ''a'' = Some (1, 2)"
    "dict_get (st_positions (site_run sample_plane 1 sample_pair no_sites)) ''b'' = Some (1, 2)"
    by (simp_all add: site_run_def sample_pair_def ensure_fresh_def refresh_sites_def remember_def Let_def no_sites_def)
qed (simp_all add: silent_on_def)

text \<open>
  The audit says of a pair within the radius, one of which stands alone, that the other joined a nearer
  anchor.  Here the pair is ten metres apart and the anchor joined is 144 metres away.
\<close>

lemma joined_site_is_not_nearer:
  "dict_get (sm_joined (cluster sample_plane (3 / 20) sample_row)) ''b'' = Some (0, 0) \<and>
   dict_get (sm_identities (cluster sample_plane (3 / 20) sample_row)) ''c'' = Some ''c'' \<and>
   near_miss_reason ''b'' ''c'' (sg_haversine sample_plane (place_of sample_row ''b'') (place_of sample_row ''c'')) (3 / 20) sample_row
     (site_sizes sample_row) = JoinedNearerSite \<and>
   sg_haversine sample_plane (place_of sample_row ''b'') (place_of sample_row ''c'') < sg_haversine sample_plane (place_of sample_row ''b'') (0, 0)"
  by (simp add: cluster_eval near_miss_reason_def site_sizes_def)

end
