(* ===== verification/LocationFuzzing.thy ===== *)
theory LocationFuzzing
  imports NodeSites Alerting IpAddress "HOL-Library.Word"
begin

text \<open>
  What is published of a receiver's place (\<open>services/public_location.py\<close>, the settings of
  \<open>config/constants.py\<close>) and of measurements from it (\<open>services/public_geometry.py\<close>): the salt, the
  offset drawn from a keyed hash of the site and the bounds, the published coordinate, and what moves
  or goes with it.  The hash is an argument, bytes are 8-bit words, and the bounds are finite numbers
  once read.
\<close>

subsection \<open>Settings\<close>

text \<open>An unset variable is the empty string.\<close>

record fuzz_env =
  NODE_FUZZ_MODE :: string
  NODE_FUZZ_MIN_KM :: string
  NODE_FUZZ_MAX_KM :: string
  NODE_FUZZ_SITE_KM :: string
  NODE_FUZZ_SITE_AUDIT_KM :: string
  NODE_FUZZ_SALT :: string

definition NODE_FUZZ_MODE_DEFAULT :: string where "NODE_FUZZ_MODE_DEFAULT = ''on''"
definition NODE_FUZZ_MIN_KM_DEFAULT :: real where "NODE_FUZZ_MIN_KM_DEFAULT = 1 / 2"
definition NODE_FUZZ_MAX_KM_DEFAULT :: real where "NODE_FUZZ_MAX_KM_DEFAULT = 1"
definition NODE_FUZZ_SITE_KM_DEFAULT :: real where "NODE_FUZZ_SITE_KM_DEFAULT = 15 / 100"

definition node_fuzz_mode :: "fuzz_env \<Rightarrow> string" where
  "node_fuzz_mode e = lower (strip (if NODE_FUZZ_MODE e = [] then NODE_FUZZ_MODE_DEFAULT else NODE_FUZZ_MODE e))"

definition fuzz_enabled :: "fuzz_env \<Rightarrow> bool" where
  "fuzz_enabled e \<longleftrightarrow> node_fuzz_mode e \<noteq> ''off''"

definition node_fuzz_min_km :: "fuzz_env \<Rightarrow> py_float" where
  "node_fuzz_min_km e =
     (if NODE_FUZZ_MIN_KM e = [] then Fin NODE_FUZZ_MIN_KM_DEFAULT
      else (case parse_float (NODE_FUZZ_MIN_KM e) of None \<Rightarrow> Fin NODE_FUZZ_MIN_KM_DEFAULT | Some x \<Rightarrow> x))"

definition node_fuzz_max_km :: "fuzz_env \<Rightarrow> py_float" where
  "node_fuzz_max_km e =
     (if NODE_FUZZ_MAX_KM e = [] then py_max (Fin NODE_FUZZ_MAX_KM_DEFAULT) (node_fuzz_min_km e)
      else (case parse_float (NODE_FUZZ_MAX_KM e) of
              None \<Rightarrow> Fin NODE_FUZZ_MAX_KM_DEFAULT
            | Some x \<Rightarrow> py_max x (node_fuzz_min_km e)))"

definition node_fuzz_site_km :: "fuzz_env \<Rightarrow> py_float" where
  "node_fuzz_site_km e =
     (let raw = (if NODE_FUZZ_SITE_KM e = [] then NODE_FUZZ_SITE_AUDIT_KM e else NODE_FUZZ_SITE_KM e)
      in if raw = [] then Fin NODE_FUZZ_SITE_KM_DEFAULT
         else (case parse_float raw of None \<Rightarrow> Fin NODE_FUZZ_SITE_KM_DEFAULT | Some x \<Rightarrow> py_max (Fin 0) x))"

definition node_fuzz_salt :: "fuzz_env \<Rightarrow> string" where
  "node_fuzz_salt e = strip (NODE_FUZZ_SALT e)"

subsection \<open>The salt\<close>

text \<open>
  \<open>file\<close> is what the salt file holds, \<open>held\<close> what the process remembers; \<open>can_write\<close> and \<open>can_read\<close>
  say whether those calls raise \<open>OSError\<close>; the two draws are \<open>token_hex(32)\<close> for the file and for the
  process alone.
\<close>

definition persisted_salt ::
    "bool \<Rightarrow> bool \<Rightarrow> string \<Rightarrow> string \<Rightarrow> string option \<times> string option \<Rightarrow> (string option \<times> string option) \<times> string" where
  "persisted_salt can_write can_read drawn lone = (\<lambda>(file, held).
     (case held of
        Some s \<Rightarrow> ((file, held), s)
      | None \<Rightarrow>
          (let file' = (case file of None \<Rightarrow> if can_write then Some drawn else None | Some c \<Rightarrow> Some c)
           in case file' of
                Some c \<Rightarrow> if can_read then ((file', Some (strip c)), strip c) else ((file', Some lone), lone)
              | None \<Rightarrow> ((file', Some lone), lone))))"

definition salt_in_force :: "fuzz_env \<Rightarrow> string \<Rightarrow> string" where
  "salt_in_force e persisted = (if node_fuzz_salt e \<noteq> [] then node_fuzz_salt e else persisted)"

subsection \<open>The offset\<close>

text \<open>\<open>f"{x:.6f}"\<close>\<close>

definition show_fixed6 :: "real \<Rightarrow> string" where
  "show_fixed6 x =
     (let n = nat (round_half_even (\<bar>x\<bar> * 10 ^ 6)); f = show_nat (n mod 10 ^ 6)
      in (if x < 0 then ''-'' else []) @ show_nat (n div 10 ^ 6) @ ''.'' @ replicate (6 - length f) CHR ''0'' @ f)"

definition FRAME_SEP :: char where "FRAME_SEP = char_of (0 :: nat)"

definition frame_message :: "string \<Rightarrow> real \<Rightarrow> real \<Rightarrow> string" where
  "frame_message identity lo hi =
     (if (lo, hi) = (1, 3) then identity else identity @ [FRAME_SEP] @ show_fixed6 lo @ '':'' @ show_fixed6 hi)"

type_synonym keyed_hash = "string \<Rightarrow> string \<Rightarrow> 8 word list"

text \<open>\<open>int.from_bytes(bs, "big") / 2**64\<close>\<close>

definition big_endian :: "8 word list \<Rightarrow> nat" where
  "big_endian bs = fold (\<lambda>b n. n * 256 + unat b) bs 0"

definition unit_draw :: "8 word list \<Rightarrow> real" where
  "unit_draw bs = real (big_endian bs) / 2 ^ 64"

definition drawn_offset :: "keyed_hash \<Rightarrow> string \<Rightarrow> string \<Rightarrow> real \<Rightarrow> real \<Rightarrow> real \<times> real" where
  "drawn_offset mac salt msg lo hi =
     (let digest = mac salt msg;
          bearing_deg = unit_draw (take 8 digest) * 360;
          distance_km = lo + unit_draw (take 8 (drop 8 digest)) * (hi - lo);
          bearing_rad = bearing_deg * pi / 180
      in (distance_km * sin bearing_rad, distance_km * cos bearing_rad))"

type_synonym offset_cache = "(string \<times> string \<times> real \<times> real, real \<times> real) dict"

text \<open>What a published coordinate is computed from.\<close>

record fuzz_world =
  fw_on :: bool
  fw_salt :: string
  fw_min :: real
  fw_max :: real
  fw_site :: real
  fw_mac :: keyed_hash
  fw_geo :: site_geodesy
  fw_sites :: sites

definition public_offset_km :: "fuzz_world \<Rightarrow> string \<Rightarrow> offset_cache \<Rightarrow> offset_cache \<times> (real \<times> real)" where
  "public_offset_km w node cache =
     (if \<not> fw_on w then (cache, (0, 0))
      else
        (let msg = frame_message (site_identity (fw_sites w) node) (fw_min w) (fw_max w);
             key = (msg, fw_salt w, fw_min w, fw_max w)
         in case dict_get cache key of
              Some off \<Rightarrow> (cache, off)
            | None \<Rightarrow> (let off = drawn_offset (fw_mac w) (fw_salt w) msg (fw_min w) (fw_max w) in (dict_set cache key off, off))))"

text \<open>The answer without the cache, which does not change it.\<close>

definition node_offset :: "fuzz_world \<Rightarrow> string \<Rightarrow> real \<times> real" where
  "node_offset w node =
     (if \<not> fw_on w then (0, 0)
      else drawn_offset (fw_mac w) (fw_salt w) (frame_message (site_identity (fw_sites w) node) (fw_min w) (fw_max w)) (fw_min w) (fw_max w))"

subsection \<open>The published coordinate\<close>

definition location_uncertainty_km :: "fuzz_world \<Rightarrow> string \<Rightarrow> real" where
  "location_uncertainty_km w node = fw_max w + (if site_is_snapped (fw_sites w) node then fw_site w else 0)"

definition fuzzed_place :: "fuzz_world \<Rightarrow> string \<Rightarrow> place \<Rightarrow> place" where
  "fuzzed_place w node p =
     (case node_offset w node of (e, n) \<Rightarrow>
        sg_offset (fw_geo w) (case site_position (fw_sites w) node of Some a \<Rightarrow> a | None \<Rightarrow> p) e n)"

definition public_place :: "fuzz_world \<Rightarrow> string \<Rightarrow> place \<Rightarrow> place" where
  "public_place w node p = (case fuzzed_place w node p of (x, y) \<Rightarrow> (round_to 4 x, round_to 4 y))"

text \<open>As called, on values of any kind; \<open>None\<close> is an \<open>OverflowError\<close>.\<close>

definition public_latlon :: "fuzz_world \<Rightarrow> string \<Rightarrow> json \<Rightarrow> json \<Rightarrow> (json \<times> json) option" where
  "public_latlon w node lat lon =
     (if \<not> fw_on w then Some (lat, lon)
      else map_option (\<lambda>p. case p of
             None \<Rightarrow> (lat, lon)
           | Some q \<Rightarrow> (case public_place w node q of (x, y) \<Rightarrow> (JFloat (Fin x), JFloat (Fin y)))) (site_of lat lon))"

definition public_delta_deg :: "fuzz_world \<Rightarrow> real \<Rightarrow> string \<Rightarrow> real \<times> real" where
  "public_delta_deg w lat node =
     (case (node_offset w node, site_shift_deg (fw_sites w) node) of ((e, n), (dy, dx)) \<Rightarrow>
        (dy + n / sg_km_per_deg_lat (fw_geo w), dx + e / sg_km_per_deg_lon (fw_geo w) lat))"

definition public_point_delta :: "fuzz_world \<Rightarrow> json \<Rightarrow> string \<Rightarrow> (real \<times> real) option" where
  "public_point_delta w lat node =
     (if \<not> fw_on w then Some (0, 0)
      else map_option (\<lambda>x. case x of None \<Rightarrow> (0, 0) | Some y \<Rightarrow> public_delta_deg w y node) (finite_num lat))"

text \<open>\<open>anchor\<close> is \<open>None\<close> where the first vertex's latitude stands in.\<close>

definition translate_polygon :: "fuzz_world \<Rightarrow> place list \<Rightarrow> string \<Rightarrow> real option \<Rightarrow> place list" where
  "translate_polygon w vertices node anchor =
     (if \<not> fw_on w \<or> vertices = [] then vertices
      else (case public_delta_deg w (case anchor of Some y \<Rightarrow> y | None \<Rightarrow> fst (hd vertices)) node of (dy, dx) \<Rightarrow>
              map (\<lambda>(y, x). (y + dy, x + dx)) vertices))"

definition fuzz_node_cfg :: "fuzz_world \<Rightarrow> (string, json) dict option \<Rightarrow> (string, json) dict option option" where
  "fuzz_node_cfg w cfg =
     (case cfg of
        None \<Rightarrow> Some None
      | Some d \<Rightarrow>
          if \<not> fw_on w then Some (Some d)
          else map_option (\<lambda>(y, x). Some (dict_set (dict_set d ''rx_lat'' y) ''rx_lon'' x))
                 (public_latlon w (case py_get d ''node_id'' of JStr s \<Rightarrow> s | _ \<Rightarrow> []) (py_get d ''rx_lat'') (py_get d ''rx_lon'')))"

subsection \<open>Summaries\<close>

text \<open>A vertex is a pair of finite numbers; \<open>None\<close> is an exception.\<close>

definition vertex_of :: "json \<Rightarrow> place option" where
  "vertex_of v =
     (case v of JArr (y # x # _) \<Rightarrow> (case (finite_num y, finite_num x) of (Some (Some a), Some (Some b)) \<Rightarrow> Some (a, b) | _ \<Rightarrow> None) | _ \<Rightarrow> None)"

definition vertices_of :: "json list \<Rightarrow> place list option" where
  "vertices_of vs = those (map vertex_of vs)"

definition vertex_json :: "place \<Rightarrow> json" where
  "vertex_json p = JArr [JFloat (Fin (fst p)), JFloat (Fin (snd p))]"

definition public_area :: "fuzz_world \<Rightarrow> string \<Rightarrow> (string, json) dict \<Rightarrow> (string, json) dict option" where
  "public_area w node area =
     (let kept = dict_filter (\<lambda>k _. k \<noteq> ''furthest_detections'') area
      in case py_get area ''rx'' of
           JObj rx \<Rightarrow>
             map_option (\<lambda>(y, x). dict_set kept ''rx'' (JObj (dict_set (dict_set (dict_set rx ''lat'' y) ''lon'' x)
                 ''location_uncertainty_km'' (JFloat (Fin (location_uncertainty_km w node))))))
               (public_latlon w node (py_get rx ''lat'') (py_get rx ''lon''))
         | _ \<Rightarrow> Some kept)"

text \<open>The latitude of the receiver as the summary gives it; a polygon is left alone where it is no number.\<close>

definition summary_lat :: "(string, json) dict \<Rightarrow> json" where
  "summary_lat d =
     (case py_get d ''detection_area'' of
        JObj area \<Rightarrow> (case py_get area ''rx'' of JObj rx \<Rightarrow> py_get rx ''lat'' | _ \<Rightarrow> JNull)
      | _ \<Rightarrow> JNull)"

definition public_coverage :: "fuzz_world \<Rightarrow> string \<Rightarrow> json \<Rightarrow> (string, json) dict \<Rightarrow> (string, json) dict option" where
  "public_coverage w node lat c =
     (case py_get c ''polygon'' of
        JArr (v # vs) \<Rightarrow>
          (case (if lat = JNull then Some (Some None) else map_option (map_option Some) (finite_num lat)) of
             None \<Rightarrow> None
           | Some None \<Rightarrow> Some c
           | Some (Some anchor) \<Rightarrow>
               map_option (\<lambda>ps. dict_set c ''polygon'' (JArr (map vertex_json (translate_polygon w ps node anchor)))) (vertices_of (v # vs)))
      | _ \<Rightarrow> Some c)"

definition public_node_summary :: "fuzz_world \<Rightarrow> string \<Rightarrow> json \<Rightarrow> json option" where
  "public_node_summary w node v =
     (case v of
        JObj d \<Rightarrow>
          if \<not> fw_on w then Some v
          else
            (case (case py_get d ''detection_area'' of
                     JObj area \<Rightarrow> map_option (\<lambda>a. dict_set d ''detection_area'' (JObj a)) (public_area w node area)
                   | _ \<Rightarrow> Some d) of
               None \<Rightarrow> None
             | Some d1 \<Rightarrow>
                 (case py_get d1 ''empirical_coverage'' of
                    JObj c \<Rightarrow> map_option (\<lambda>c'. JObj (dict_set d1 ''empirical_coverage'' (JObj c'))) (public_coverage w node (summary_lat d) c)
                  | _ \<Rightarrow> Some (JObj d1)))
      | _ \<Rightarrow> Some v)"

definition public_cross_node :: "fuzz_world \<Rightarrow> json \<Rightarrow> json" where
  "public_cross_node w v =
     (case v of JObj d \<Rightarrow> if fw_on w then JObj (dict_set d ''coverage_suggestions'' (JArr [])) else v | _ \<Rightarrow> v)"

definition public_node_summaries :: "fuzz_world \<Rightarrow> (string, json) dict \<Rightarrow> (string, json) dict option" where
  "public_node_summaries w d =
     (if \<not> fw_on w then Some d
      else those (map (\<lambda>(n, v). map_option (\<lambda>v'. (n, v')) (public_node_summary w n v)) d))"

subsection \<open>Measurements from the receiver\<close>

definition RECEIVER_RELATIVE :: "string list" where
  "RECEIVER_RELATIVE = [''range_km'', ''bearing_off_deg'', ''bistatic_km'', ''fov_limit_km'', ''fov_state'', ''fov_verdict'',
     ''today_pass'', ''foreign_node_ids'', ''contaminated'', ''furthest_detections'', ''measured_delay_us'', ''delay_match_us'',
     ''max_bistatic_angle_deg'']"

definition NODE_SCOPED :: "string list" where
  "NODE_SCOPED = RECEIVER_RELATIVE @ [''solver_lat'', ''solver_lon'']"

fun stripped :: "string list \<Rightarrow> json \<Rightarrow> json" where
  "stripped fields_out (JObj d) = JObj (filter (\<lambda>kv. fst kv \<notin> set fields_out) (map (\<lambda>(k, v). (k, stripped fields_out v)) d))"
| "stripped fields_out (JArr xs) = JArr (map (stripped fields_out) xs)"
| "stripped fields_out v = v"

definition without_receiver_geometry :: "json \<Rightarrow> bool \<Rightarrow> json" where
  "without_receiver_geometry v node_scoped = stripped (if node_scoped then NODE_SCOPED else RECEIVER_RELATIVE) v"

subsection \<open>The draws\<close>

lemma big_endian_bound: "fold (\<lambda>b n. n * 256 + unat b) bs n < (n + 1) * 256 ^ length bs" for bs :: "8 word list"
proof (induction bs arbitrary: n)
  case (Cons b bs)
  have "unat b < 256" using unsigned_less [of b] by simp
  then have "n * 256 + unat b + 1 \<le> (n + 1) * 256" by simp
  then have "(n * 256 + unat b + 1) * 256 ^ length bs \<le> (n + 1) * 256 * 256 ^ length bs" by (rule mult_right_mono) simp
  with Cons.IH [of "n * 256 + unat b"] have "fold (\<lambda>b n. n * 256 + unat b) bs (n * 256 + unat b) < (n + 1) * 256 * 256 ^ length bs"
    by (rule less_le_trans)
  then show ?case by (simp add: algebra_simps)
qed simp

lemma unit_draw_range:
  assumes "length bs \<le> 8"
  shows "0 \<le> unit_draw bs" "unit_draw bs < 1"
proof -
  have "big_endian bs < 256 ^ length bs" using big_endian_bound [of bs 0] by (simp add: big_endian_def)
  also have "(256 :: nat) ^ length bs \<le> 256 ^ 8" using assms by (intro power_increasing) auto
  finally have "big_endian bs < 2 ^ 64" by simp
  then have "real (big_endian bs) < 2 ^ 64" by (metis of_nat_less_iff of_nat_numeral of_nat_power)
  then show "unit_draw bs < 1" by (simp add: unit_draw_def)
qed (simp add: unit_draw_def)

lemma drawn_offset_length:
  assumes "drawn_offset mac salt msg lo hi = (e, n)" "0 \<le> lo" "lo \<le> hi"
  shows "lo \<le> sqrt (e ^ 2 + n ^ 2)" "sqrt (e ^ 2 + n ^ 2) \<le> hi"
proof -
  let ?u = "unit_draw (take 8 (drop 8 (mac salt msg)))" and ?r = "unit_draw (take 8 (mac salt msg)) * 360 * pi / 180"
  let ?d = "lo + ?u * (hi - lo)"
  have u: "0 \<le> ?u" "?u < 1" by (rule unit_draw_range, simp)+
  have d: "lo \<le> ?d" "?d \<le> hi"
  proof -
    show "lo \<le> ?d" using u(1) assms(3) by simp
    have "?u * (hi - lo) \<le> 1 * (hi - lo)" using u assms(3) by (intro mult_right_mono) auto
    then show "?d \<le> hi" by simp
  qed
  have "e = ?d * sin ?r" "n = ?d * cos ?r" using assms(1) by (simp_all add: drawn_offset_def Let_def)
  then have "e ^ 2 + n ^ 2 = ?d ^ 2 * (sin ?r ^ 2 + cos ?r ^ 2)" by (simp only: power_mult_distrib distrib_left)
  then have "e ^ 2 + n ^ 2 = ?d ^ 2" by simp
  then have "sqrt (e ^ 2 + n ^ 2) = \<bar>?d\<bar>" by simp
  also have "\<dots> = ?d" using d(1) assms(2) by simp
  finally show "lo \<le> sqrt (e ^ 2 + n ^ 2)" "sqrt (e ^ 2 + n ^ 2) \<le> hi" using d by simp_all
qed

definition cache_sound :: "fuzz_world \<Rightarrow> offset_cache \<Rightarrow> bool" where
  "cache_sound w cache \<longleftrightarrow> (\<forall>msg salt lo hi off. dict_get cache (msg, salt, lo, hi) = Some off \<longrightarrow> off = drawn_offset (fw_mac w) salt msg lo hi)"

lemma cache_is_transparent:
  "cache_sound w cache \<Longrightarrow> snd (public_offset_km w node cache) = node_offset w node \<and> cache_sound w (fst (public_offset_km w node cache))"
  by (auto simp: public_offset_km_def node_offset_def cache_sound_def Let_def split: option.split)

lemma held_salt_stays: "persisted_salt cw cr t t' s = (s', a) \<Longrightarrow> persisted_salt cw' cr' u u' (file, snd s') = ((file, snd s'), a)"
  by (auto simp: persisted_salt_def Let_def split: option.splits if_splits prod.splits)

text \<open>One message, one site, in whatever frame.\<close>

lemma message_names_site:
  assumes "frame_message i lo hi = frame_message j lo' hi'" "FRAME_SEP \<notin> set i" "FRAME_SEP \<notin> set j"
  shows "i = j"
proof -
  have "takeWhile (\<lambda>c. c \<noteq> FRAME_SEP) (frame_message i lo hi) = i" if "FRAME_SEP \<notin> set i" for i lo hi
  proof -
    have "takeWhile (\<lambda>c. c \<noteq> FRAME_SEP) i = i" using that by (auto simp: takeWhile_eq_all_conv)
    moreover have "takeWhile (\<lambda>c. c \<noteq> FRAME_SEP) (i @ FRAME_SEP # xs) = i" for xs
      using that by (subst takeWhile_append2) auto
    ultimately show ?thesis by (simp add: frame_message_def)
  qed
  then show ?thesis using assms by metis
qed

subsection \<open>The bounds of the donut\<close>

lemma bounds_in_order:
  "NODE_FUZZ_MAX_KM e = [] \<or> parse_float (NODE_FUZZ_MAX_KM e) \<noteq> None \<Longrightarrow> \<not> py_less (node_fuzz_max_km e) (node_fuzz_min_km e)"
proof -
  have "\<not> py_less (py_max x y) y" for x y
    by (cases x; cases y) (auto simp: py_max_def)
  then show "NODE_FUZZ_MAX_KM e = [] \<or> parse_float (NODE_FUZZ_MAX_KM e) \<noteq> None \<Longrightarrow> \<not> py_less (node_fuzz_max_km e) (node_fuzz_min_km e)"
    by (auto simp: node_fuzz_max_km_def split: option.split)
qed

text \<open>A maximum that cannot be read is not clamped: with a floor of two kilometres the interval is inverted.\<close>

definition sample_unreadable :: fuzz_env where
  "sample_unreadable = \<lparr>NODE_FUZZ_MODE = [], NODE_FUZZ_MIN_KM = ''2'', NODE_FUZZ_MAX_KM = ''3km'', NODE_FUZZ_SITE_KM = [],
     NODE_FUZZ_SITE_AUDIT_KM = [], NODE_FUZZ_SALT = []\<rparr>"

lemma unreadable_maximum_inverts_the_donut:
  "node_fuzz_min_km sample_unreadable = Fin 2 \<and> node_fuzz_max_km sample_unreadable = Fin 1"
  by (simp add: node_fuzz_min_km_def node_fuzz_max_km_def sample_unreadable_def NODE_FUZZ_MAX_KM_DEFAULT_def
      parse_float_def strip_def is_space_def code_def underscores_ok.simps is_digit_def
      read_sign_def read_decimal_def read_exponent_def nat_of_digits_def float_of_real_def float_overflow_def
      lower_def lower_char_def power_int_def char_of_def bit_Suc_0_iff)

subsection \<open>Where a receiver is published\<close>

lemma published_from:
  assumes "sites_ok g radius s" "node \<noteq> []" "dict_get (st_positions s) node = Some p"
  shows "site_position s node = None \<or> (\<exists>q. site_position s node = Some q \<and> sg_haversine g p q \<le> radius \<and> site_is_snapped s node)"
proof (cases "site_position s node")
  case (Some q)
  have d: "dict_ok (st_positions s)" and maps: "st_anchor_positions s = sm_joined (cluster g radius (st_positions s))"
    "st_identities s = sm_identities (cluster g radius (st_positions s))"
    "st_snapped s = map (\<lambda>(n, _). dict_get_default (st_identities s) n []) (st_anchor_positions s)"
    using assms(1) by (simp_all add: sites_ok_def)
  have joined: "dict_get (st_anchor_positions s) node = Some q" using Some assms(2) by (simp add: site_position_def)
  obtain a where a: "dict_get (st_identities s) node = Some a" "dict_get (st_anchor_positions s) node = None \<or> sg_haversine g p q \<le> radius"
    using near_anchor [OF d assms(3) refl, of g radius] joined unfolding maps by auto
  have "(node, q) \<in> set (st_anchor_positions s)" using joined by (auto simp: dict_get_def dest: map_of_SomeD)
  then have "dict_get_default (st_identities s) node [] \<in> set (st_snapped s)" unfolding maps(3) by force
  then have "site_is_snapped s node" using a(1) assms(2) by (simp add: site_is_snapped_def dict_get_default_get)
  then show ?thesis using Some a(2) joined by simp
qed simp


text \<open>C24: A site is one point: receivers that resolve to the same anchor are published at the very same coordinate when each is published
  from the anchor's place or configured at exactly the anchor's coordinates.\<close>

theorem site_mates_share_one_point:
  assumes "s = site_run (fw_geo w) (fw_site w) qs no_sites" and "fw_sites w = s" and "n \<noteq> []" and "n' \<noteq> []"
    and "dict_get (st_positions s) n = Some p" and "dict_get (st_positions s) n' = Some p'" and "site_identity s n = site_identity s n'"
    and "site_position s n = None \<Longrightarrow> Some p = dict_get (st_positions s) (site_identity s n)"
    and "site_position s n' = None \<Longrightarrow> Some p' = dict_get (st_positions s) (site_identity s n)"
  shows "public_place w n p = public_place w n' p'"
proof -
  have ok: "sites_ok (fw_geo w) (fw_site w) s" unfolding assms(1) by (rule sites_ok_run [OF sites_ok_start])
  then have d: "dict_ok (st_positions s)" and maps: "st_identities s = sm_identities (cluster (fw_geo w) (fw_site w) (st_positions s))"
    "st_anchor_positions s = sm_joined (cluster (fw_geo w) (fw_site w) (st_positions s))" by (simp_all add: sites_ok_def)
  have from_anchor: "Some (case site_position s x of Some a \<Rightarrow> a | None \<Rightarrow> px) = dict_get (st_positions s) (site_identity s x)"
    if x: "x \<noteq> []" "dict_get (st_positions s) x = Some px"
      "site_position s x = None \<Longrightarrow> Some px = dict_get (st_positions s) (site_identity s x)" for x px
  proof (cases "site_position s x")
    case (Some a)
    obtain i q where iq: "dict_get (st_identities s) x = Some i" "dict_get (st_positions s) i = Some q"
      "dict_get (st_anchor_positions s) x = None \<or> dict_get (st_anchor_positions s) x = Some q"
      using near_anchor [OF d x(2) refl, of "fw_geo w" "fw_site w"] unfolding maps by blast
    then show ?thesis using Some x(1) by (simp add: site_position_def site_identity_def dict_get_default_get)
  qed (use x(3) in simp)
  have "Some (case site_position s n of Some a \<Rightarrow> a | None \<Rightarrow> p) = dict_get (st_positions s) (site_identity s n)"
    by (rule from_anchor [OF assms(3,5,8)])
  moreover have "Some (case site_position s n' of Some a \<Rightarrow> a | None \<Rightarrow> p') = dict_get (st_positions s) (site_identity s n')"
    by (rule from_anchor [OF assms(4,6)]) (use assms(7,9) in simp)
  ultimately have "(case site_position s n of Some a \<Rightarrow> a | None \<Rightarrow> p) = (case site_position s n' of Some a \<Rightarrow> a | None \<Rightarrow> p')"
    using assms(7) by (metis option.inject)
  moreover have "node_offset w n = node_offset w n'" using assms(2,7) by (simp add: node_offset_def)
  ultimately show ?thesis by (simp add: public_place_def fuzzed_place_def assms(2))
qed

text \<open>
  A polygon moves as one body, and its apex lands on the marker: for a receiver published from its own place, an offset that is the
  geodesy's linear one takes the apex to the coordinate published, before it is rounded.
\<close>

lemma apex_lands_on_the_marker:
  assumes "fw_on w" and "site_position (fw_sites w) node = None" and "node \<noteq> []"
    and "\<And>x e n. sg_offset (fw_geo w) x e n = (fst x + n / sg_km_per_deg_lat (fw_geo w), snd x + e / sg_km_per_deg_lon (fw_geo w) (fst x))"
  shows "hd (translate_polygon w (p # vs) node (Some (fst p))) = fuzzed_place w node p"
proof -
  have "site_shift_deg (fw_sites w) node = (0, 0)"
    using assms(2,3) by (simp add: site_shift_deg_def site_position_def)
  then show ?thesis
    by (cases p; cases "node_offset w node") (simp add: translate_polygon_def public_delta_deg_def fuzzed_place_def assms)
qed

lemma polygon_keeps_its_shape:
  assumes "i < length vs" and "j < length vs"
  shows "fst (translate_polygon w vs node anchor ! i) - fst (translate_polygon w vs node anchor ! j) = fst (vs ! i) - fst (vs ! j)
    \<and> snd (translate_polygon w vs node anchor ! i) - snd (translate_polygon w vs node anchor ! j) = snd (vs ! i) - snd (vs ! j)"
  using assms by (auto simp: translate_polygon_def case_prod_beta)

subsection \<open>Summaries served\<close>

lemma public_area_fields:
  assumes "public_area w node area = Some out"
  shows "dict_get out ''furthest_detections'' = None"
    and "k \<noteq> ''furthest_detections'' \<Longrightarrow> k \<noteq> ''rx'' \<Longrightarrow> dict_ok area \<Longrightarrow> dict_get out k = dict_get area k"
    and "py_get area ''rx'' = JObj rx \<Longrightarrow> site_of (py_get rx ''lat'') (py_get rx ''lon'') = Some (Some p) \<Longrightarrow> fw_on w \<Longrightarrow>
      (\<exists>r. dict_get out ''rx'' = Some (JObj r) \<and> dict_get r ''lat'' = Some (JFloat (Fin (fst (public_place w node p)))) \<and>
        dict_get r ''lon'' = Some (JFloat (Fin (snd (public_place w node p)))))"
proof -
  have gone: "dict_get (dict_filter (\<lambda>k _. k \<noteq> ''furthest_detections'') area) ''furthest_detections'' = None"
    by (auto simp: dict_get_def dict_filter_def map_of_eq_None_iff)
  then show "dict_get out ''furthest_detections'' = None"
    using assms by (auto simp: public_area_def Let_def split: json.splits)
  show "k \<noteq> ''furthest_detections'' \<Longrightarrow> k \<noteq> ''rx'' \<Longrightarrow> dict_ok area \<Longrightarrow> dict_get out k = dict_get area k"
    using assms by (auto simp: public_area_def Let_def dict_get_filter split: json.splits option.splits)
  show "py_get area ''rx'' = JObj rx \<Longrightarrow> site_of (py_get rx ''lat'') (py_get rx ''lon'') = Some (Some p) \<Longrightarrow> fw_on w \<Longrightarrow>
      (\<exists>r. dict_get out ''rx'' = Some (JObj r) \<and> dict_get r ''lat'' = Some (JFloat (Fin (fst (public_place w node p)))) \<and>
        dict_get r ''lon'' = Some (JFloat (Fin (snd (public_place w node p)))))"
    using assms by (auto simp: public_area_def Let_def public_latlon_def case_prod_beta)
qed

lemma summary_cases:
  assumes "fw_on w" "public_node_summary w node (JObj d) = Some out" "py_get d ''detection_area'' = JObj area"
  obtains a where "public_area w node area = Some a" "out = JObj (dict_set d ''detection_area'' (JObj a))"
    "\<And>c. py_get d ''empirical_coverage'' \<noteq> JObj c"
  | a c c' where "public_area w node area = Some a" "py_get d ''empirical_coverage'' = JObj c" "public_coverage w node (summary_lat d) c = Some c'"
    "out = JObj (dict_set (dict_set d ''detection_area'' (JObj a)) ''empirical_coverage'' (JObj c'))"
proof -
  obtain a where a: "public_area w node area = Some a" using assms by (cases "public_area w node area") (simp_all add: public_node_summary_def)
  have same: "py_get (dict_set d ''detection_area'' (JObj a)) ''empirical_coverage'' = py_get d ''empirical_coverage''" by (simp add: py_get_def)
  show ?thesis
  proof (cases "\<exists>c. py_get d ''empirical_coverage'' = JObj c")
    case True
    then obtain c where c: "py_get d ''empirical_coverage'' = JObj c" by blast
    then show ?thesis using that(2) [OF a c] assms a same by (auto simp: public_node_summary_def)
  next
    case False
    then show ?thesis using that(1) [OF a] assms a same by (auto simp: public_node_summary_def split: json.splits)
  qed
qed

text \<open>C25: A summary served to the public places the receiver only where it is published: the coordinates of its detection area are the
  public ones, the ranging circles of its furthest detections are gone, and the vertices of its coverage polygon are the true ones all
  moved by the same difference.\<close>

theorem public_summary_hides_the_receiver:
  assumes "fw_on w" and "public_node_summary w node (JObj d) = Some (JObj out)"
    and "py_get d ''detection_area'' = JObj area" and "py_get area ''rx'' = JObj rx"
    and "site_of (py_get rx ''lat'') (py_get rx ''lon'') = Some (Some p)"
  shows "\<exists>a r. py_get out ''detection_area'' = JObj a \<and> dict_get a ''furthest_detections'' = None \<and> dict_get a ''rx'' = Some (JObj r) \<and>
      dict_get r ''lat'' = Some (JFloat (Fin (fst (public_place w node p)))) \<and> dict_get r ''lon'' = Some (JFloat (Fin (snd (public_place w node p)))) \<and>
      (case py_get d ''empirical_coverage'' of
         JObj c \<Rightarrow>
           (case py_get c ''polygon'' of
              JArr (v # vs) \<Rightarrow> \<exists>ps c'. vertices_of (v # vs) = Some ps \<and> py_get out ''empirical_coverage'' = JObj c' \<and>
                py_get c' ''polygon'' = JArr (map (\<lambda>(y, x). vertex_json (y + fst (public_delta_deg w (fst p) node), x + snd (public_delta_deg w (fst p) node))) ps)
            | _ \<Rightarrow> True)
       | _ \<Rightarrow> True)"
proof -
  have lat: "finite_num (summary_lat d) = Some (Some (fst p))" "summary_lat d \<noteq> JNull"
    using assms(3-5) by (auto simp: summary_lat_def site_of_def finite_num_def split: option.splits)
  obtain a where a: "public_area w node area = Some a" "py_get out ''detection_area'' = JObj a"
  proof (cases rule: summary_cases [OF assms(1,2,3)])
    case (1 a)
    then show ?thesis using that [OF 1(1)] by (simp add: py_get_def)
  next
    case (2 a c c')
    then show ?thesis using that [OF 2(1)] by (simp add: py_get_def)
  qed
  note fields = public_area_fields(1) [OF a(1)] public_area_fields(3) [OF a(1) assms(4,5,1)]
  have cov: "\<exists>ps c'. vertices_of (v # vs) = Some ps \<and> py_get out ''empirical_coverage'' = JObj c' \<and>
      py_get c' ''polygon'' = JArr (map (\<lambda>(y, x). vertex_json (y + fst (public_delta_deg w (fst p) node), x + snd (public_delta_deg w (fst p) node))) ps)"
    if c: "py_get d ''empirical_coverage'' = JObj c" "py_get c ''polygon'' = JArr (v # vs)" for c v vs
  proof -
    obtain c' where c': "public_coverage w node (summary_lat d) c = Some c'" "py_get out ''empirical_coverage'' = JObj c'"
    proof (cases rule: summary_cases [OF assms(1,2,3)])
      case (1 a)
      then show ?thesis using c(1) by blast
    next
      case (2 a c2 c')
      then have "c2 = c" using c(1) by simp
      then show ?thesis using that [of c'] 2(3,4) by (simp add: py_get_def)
    qed
    then obtain ps where ps: "vertices_of (v # vs) = Some ps"
      "c' = dict_set c ''polygon'' (JArr (map vertex_json (translate_polygon w ps node (Some (fst p)))))"
      using c(2) lat by (auto simp: public_coverage_def)
    have "map vertex_json (translate_polygon w ps node (Some (fst p)))
        = map (\<lambda>(y, x). vertex_json (y + fst (public_delta_deg w (fst p) node), x + snd (public_delta_deg w (fst p) node))) ps"
      using assms(1) by (auto simp: translate_polygon_def case_prod_beta)
    then show ?thesis using ps c'(2) by (auto simp: py_get_def)
  qed
  obtain r where r: "dict_get a ''rx'' = Some (JObj r)" "dict_get r ''lat'' = Some (JFloat (Fin (fst (public_place w node p))))"
    "dict_get r ''lon'' = Some (JFloat (Fin (snd (public_place w node p))))" using fields(2) by blast
  show ?thesis by (intro exI [of _ a] exI [of _ r] conjI a(2) fields(1) r) (use cov in \<open>auto split: json.split list.split\<close>)
qed

subsection \<open>Receiver-relative fields\<close>

fun json_fields :: "json \<Rightarrow> string list" where
  "json_fields (JObj d) = concat (map (\<lambda>(k, v). k # json_fields v) d)"
| "json_fields (JArr xs) = concat (map json_fields xs)"
| "json_fields _ = []"


subsection \<open>Instances\<close>

text \<open>A plane of 111 kilometres a degree, and a hash of zeros: the bearing is north and the distance the floor.\<close>

definition sample_metric :: site_geodesy where
  "sample_metric = \<lparr>sg_haversine = (\<lambda>p q. sqrt (((fst p - fst q) * 111) ^ 2 + ((snd p - snd q) * 111) ^ 2)),
     sg_offset = (\<lambda>p e n. (fst p + n / 111, snd p + e / 111)), sg_km_per_deg_lat = 111, sg_km_per_deg_lon = (\<lambda>_. 111)\<rparr>"

definition sample_fuzz :: "real \<Rightarrow> sites \<Rightarrow> fuzz_world" where
  "sample_fuzz lo s = \<lparr>fw_on = True, fw_salt = ''s'', fw_min = lo, fw_max = 1, fw_site = 3 / 20, fw_mac = (\<lambda>_ _. replicate 32 0),
     fw_geo = sample_metric, fw_sites = s\<rparr>"

lemma sample_fields:
  "fw_on (sample_fuzz lo s) = True" "fw_min (sample_fuzz lo s) = lo" "fw_max (sample_fuzz lo s) = 1" "fw_site (sample_fuzz lo s) = 3 / 20"
  "fw_geo (sample_fuzz lo s) = sample_metric" "fw_sites (sample_fuzz lo s) = s"
  by (simp_all add: sample_fuzz_def)

definition sample_sites :: sites where
  "sample_sites = site_run sample_metric (3 / 20) sample_pair no_sites"

lemma sample_positions: "st_positions sample_sites = [(''a'', (1, 2)), (''b'', (1, 2))]"
  by (simp add: sample_sites_def site_run_def sample_pair_def ensure_fresh_def refresh_sites_def remember_def Let_def no_sites_def
      dict_set_def)

lemma sample_metric_triangle:
  "sg_haversine sample_metric x z \<le> sg_haversine sample_metric x y + sg_haversine sample_metric y z"
  using real_sqrt_sum_squares_triangle_ineq [of "(fst x - fst y) * 111" "(fst y - fst z) * 111" "(snd x - snd y) * 111" "(snd y - snd z) * 111"]
  by (simp add: sample_metric_def algebra_simps)

lemma sample_metric_offset: "sg_haversine sample_metric x (sg_offset sample_metric x e n) = sqrt (e ^ 2 + n ^ 2)"
  by (simp add: sample_metric_def add.commute)

lemma sample_metric_sym: "sg_haversine sample_metric x y = sg_haversine sample_metric y x"
  by (simp add: sample_metric_def power2_eq_square algebra_simps)


lemma sample_cluster: "sm_identities (cluster sample_metric (3 / 20) [(''a'', (1, 2)), (''b'', (1, 2))]) = [(''a'', ''a''), (''b'', ''a'')]"
  by (simp add: cluster_eval)

lemma sample_identities: "st_identities sample_sites = [(''a'', ''a''), (''b'', ''a'')]"
proof -
  have "sites_ok sample_metric (3 / 20) sample_sites" unfolding sample_sites_def by (rule sites_ok_run [OF sites_ok_start])
  then show ?thesis by (simp add: sites_ok_def sample_positions sample_cluster)
qed

lemma site_mates_share_one_point_witness:
  "public_place (sample_fuzz (1 / 2) sample_sites) ''a'' (1, 2) = public_place (sample_fuzz (1 / 2) sample_sites) ''b'' (1, 2)"
  by (rule site_mates_share_one_point [where s = sample_sites and qs = sample_pair])
    (simp_all add: sample_fuzz_def sample_sites_def [symmetric] sample_positions sample_identities site_identity_def dict_get_def dict_get_default_def)

definition sample_analytics :: "(string, json) dict" where
  "sample_analytics = [(''detection_area'', JObj [(''rx'', JObj [(''lat'', JInt 1), (''lon'', JInt 2)]), (''furthest_detections'', JArr [])])]"

lemma public_summary_hides_the_receiver_witness:
  "\<exists>out a r. public_node_summary (sample_fuzz (1 / 2) sample_sites) ''a'' (JObj sample_analytics) = Some (JObj out) \<and>
     py_get out ''detection_area'' = JObj a \<and> dict_get a ''furthest_detections'' = None \<and> dict_get a ''rx'' = Some (JObj r) \<and>
     dict_get r ''lat'' = Some (JFloat (Fin (fst (public_place (sample_fuzz (1 / 2) sample_sites) ''a'' (1, 2)))))"
proof -
  let ?w = "sample_fuzz (1 / 2) sample_sites"
  let ?area = "[(''rx'', JObj [(''lat'', JInt 1), (''lon'', JInt 2)]), (''furthest_detections'', JArr [])]"
  let ?rx = "[(''lat'', JInt 1), (''lon'', JInt 2)]"
  have one: "finite_num (JInt 1) = Some (Some 1)" and two: "finite_num (JInt 2) = Some (Some 2)"
    by (simp_all add: finite_num_def float_of_int_def float_overflow_def)
  have site: "site_of (py_get ?rx ''lat'') (py_get ?rx ''lon'') = Some (Some (1, 2))"
    by (simp add: site_of_def py_get_def dict_get_def one two)
  have on: "fw_on ?w" by (simp add: sample_fuzz_def)
  have area: "py_get sample_analytics ''detection_area'' = JObj ?area" "py_get ?area ''rx'' = JObj ?rx" "py_get sample_analytics ''empirical_coverage'' = JNull"
    by (simp_all add: sample_analytics_def py_get_def dict_get_def)
  have "public_latlon ?w ''a'' (py_get ?rx ''lat'') (py_get ?rx ''lon'') \<noteq> None" using on site by (simp add: public_latlon_def)
  then obtain a where a: "public_area ?w ''a'' ?area = Some a"
    using area(2) by (cases "public_latlon ?w ''a'' (py_get ?rx ''lat'') (py_get ?rx ''lon'')") (auto simp: public_area_def Let_def)
  then have "public_node_summary ?w ''a'' (JObj sample_analytics) = Some (JObj (dict_set sample_analytics ''detection_area'' (JObj a)))"
    using on area by (simp add: public_node_summary_def py_get_def)
  from public_summary_hides_the_receiver [OF on this area(1,2) site] this show ?thesis by blast
qed

subsection \<open>Two promises the code does not keep\<close>

text \<open>
  The merge radius is said to be small enough that a receiver published from its anchor's place stays outside the
  donut's floor.  A receiver a hundred metres north of the anchor, with the site displaced north by the floor of half a kilometre, is
  published four hundred metres from where it is.
\<close>

definition sample_snap :: sites where
  "sample_snap = site_run sample_plane (3 / 20) [(0, Some (Some [(''a'', (0, 0)), (''b'', (1 / 1110, 0))], None, None))] no_sites"

lemma snapped_position: "site_position sample_snap ''b'' = Some (0, 0)"
proof -
  have ps: "st_positions sample_snap = [(''a'', (0, 0)), (''b'', (1 / 1110, 0))]"
    by (simp add: sample_snap_def site_run_def ensure_fresh_def refresh_sites_def remember_def Let_def no_sites_def dict_set_def)
  have "sites_ok sample_plane (3 / 20) sample_snap" unfolding sample_snap_def by (rule sites_ok_run [OF sites_ok_start])
  then have "st_anchor_positions sample_snap = sm_joined (cluster sample_plane (3 / 20) [(''a'', (0, 0)), (''b'', (1 / 1110, 0))])"
    by (simp add: sites_ok_def ps)
  then show ?thesis by (simp add: site_position_def cluster_eval)
qed

lemma zero_draw: "drawn_offset (\<lambda>_ _. replicate 32 0) salt msg lo hi = (0, lo)"
proof -
  have "fold (\<lambda>b n. n * 256 + unat b) (replicate k (0 :: 8 word)) 0 = 0" for k by (induction k) auto
  then have "unit_draw (replicate k 0) = 0" for k by (simp add: unit_draw_def big_endian_def)
  then show ?thesis by (simp add: drawn_offset_def Let_def take_replicate drop_replicate)
qed

lemma snap_passes_the_floor:
  "sg_haversine sample_metric (1 / 1110, 0) (fuzzed_place (sample_fuzz (1 / 2) sample_snap) ''b'' (1 / 1110, 0)) = 2 / 5"
  by (simp add: fuzzed_place_def node_offset_def sample_fuzz_def zero_draw snapped_position sample_metric_def)

text \<open>
  Receivers equal to six decimals share an offset and are each published from their own coordinates, so they can be published
  at two points, one unit of the fourth decimal apart.
\<close>

lemma equal_sites_two_points:
  "site_key (499999 / 10 ^ 10, 0) = site_key (500001 / 10 ^ 10, 0) \<and>
   fst (public_place (sample_fuzz (111 / 200) no_sites) ''a'' (499999 / 10 ^ 10, 0)) = 50 / 10 ^ 4 \<and>
   fst (public_place (sample_fuzz (111 / 200) no_sites) ''a'' (500001 / 10 ^ 10, 0)) = 51 / 10 ^ 4"
  by (simp add: site_key_def public_place_def fuzzed_place_def node_offset_def zero_draw sample_fuzz_def sample_metric_def no_sites_def
      site_position_def dict_get_def round_to_def round_half_even_def Let_def)

end
