(* ===== verification/PolledRegistration.thy ===== *)
theory PolledRegistration
  imports Poller RateLimits
begin

text \<open>
  Registering, moving, connecting and withdrawing polled radars
  (\<open>services/polled_registration.py\<close>).  The state is the registry, the limiter of probes and the
  count of probes in flight.  A probe waits on the network, so it is two functions: what happens
  up to its first request, and what its answers lead to; whatever other tasks do to the state
  between the two is an argument.
\<close>

definition MAX_RADARS_PER_ACCOUNT :: nat where "MAX_RADARS_PER_ACCOUNT = 10"
definition MAX_PROBES_IN_FLIGHT :: nat where "MAX_PROBES_IN_FLIGHT = 4"
definition BUSY_RETRY_AFTER_S :: int where "BUSY_RETRY_AFTER_S = 5"
definition YAGI_MAX_RANGE_KM :: real where "YAGI_MAX_RANGE_KM = 50"

definition REGISTRATION_BASE :: "(string, json) dict" where
  "REGISTRATION_BASE =
     [(''fs_hz'', JFloat (Fin 2000000)), (''cpi_s'', JFloat (Fin (1 / 2))), (''delay_tolerance_us'', JFloat (Fin 2)),
      (''doppler_tolerance_hz'', JFloat (Fin 5)), (''max_range_km'', JFloat (Fin YAGI_MAX_RANGE_KM)),
      (''beam_width_deg'', JNull), (''beam_azimuth_deg'', JNull), (''tx_callsign'', JNull)]"

definition registration_enabled :: "string option \<Rightarrow> bool" where
  "registration_enabled env \<longleftrightarrow> env = Some ''1''"

record probed_radar =
  pd_endpoint :: polled_endpoint
  pd_radar :: blah2_probe
  pd_config :: "(string, json) dict"
  pd_protected :: bool

text \<open>\<open>RegistrationRefused\<close>, one constructor per code; \<open>Crashed\<close> is any exception beside it.\<close>

datatype registration_refusal =
    Unprocessable radar_refusal
  | CredentialsUnavailable
  | Busy
  | ProbeLimited int
  | EndpointRegistered
  | ConfigChanged probed_radar
  | ConfigUnusable config_error
  | RadarLimit
  | RadarNotFound
  | PollingOff
  | SignedIn
  | Crashed "radar_error option"

fun refusal_status :: "registration_refusal \<Rightarrow> nat \<times> int option" where
  "refusal_status (Unprocessable x) = (422, None)"
| "refusal_status CredentialsUnavailable = (503, None)"
| "refusal_status Busy = (429, Some BUSY_RETRY_AFTER_S)"
| "refusal_status (ProbeLimited s) = (429, Some s)"
| "refusal_status EndpointRegistered = (409, None)"
| "refusal_status (ConfigChanged p) = (409, None)"
| "refusal_status (ConfigUnusable x) = (422, None)"
| "refusal_status RadarLimit = (403, None)"
| "refusal_status RadarNotFound = (404, None)"
| "refusal_status PollingOff = (409, None)"
| "refusal_status SignedIn = (409, None)"
| "refusal_status (Crashed x) = (500, None)"

record registration_state =
  reg_db :: radar_db
  probe_limits :: limiter
  probes_in_flight :: nat

text \<open>
  What one request meets: the clocks, the idna and unquote functions of the library, the key (the
  function that encrypts under it, where there is one), the radar as the probe and as the bare read
  find it, and what other tasks do while it is being asked.
\<close>

record owner_world =
  o_now :: real
  o_tick :: real
  o_idna :: "string \<Rightarrow> string option"
  o_unquote :: "string \<Rightarrow> string"
  o_key :: "(string \<Rightarrow> string) option"
  o_probe :: probe_world
  o_bare_resolver :: "string \<Rightarrow> nat \<Rightarrow> ip list option"
  o_bare_net :: "request \<Rightarrow> outcome"
  o_draws :: "(string \<times> string) list"
  o_meanwhile :: "registration_state \<Rightarrow> registration_state"

definition encrypt_with :: "(string \<Rightarrow> string) option \<Rightarrow> string \<Rightarrow> string option" where
  "encrypt_with key s = map_option (\<lambda>f. f s) key"

subsection \<open>A probe\<close>

definition unprocessable :: "radar_refusal \<Rightarrow> registration_refusal" where
  "unprocessable x = (case x of DivisionOverflow \<Rightarrow> Crashed None | _ \<Rightarrow> Unprocessable x)"

definition answers_without_credentials :: "owner_world \<Rightarrow> polled_endpoint \<Rightarrow> request list \<times> bool" where
  "answers_without_credentials w e =
     (case open_client (o_bare_resolver w) (policy (o_probe w)) (e\<lparr>auth_user := None, auth_secret := None\<rparr>) of
        Inl _ \<Rightarrow> ([], False)
      | Inr c \<Rightarrow>
          (case client_get (o_bare_net w) CONFIG_PATH CONFIG_MAX_BYTES c of (_, rs, out) \<Rightarrow> (rs, \<exists>t. out = Inr t)))"

text \<open>Up to the first request; a probe that goes on is counted as in flight.\<close>

definition probe_start ::
    "owner_world \<Rightarrow> string \<Rightarrow> string \<Rightarrow> string option \<Rightarrow> registration_state
     \<Rightarrow> registration_state \<times> (registration_refusal + polled_endpoint)" where
  "probe_start w typed uid replacing s =
     (case parse_endpoint (o_idna w) (o_unquote w) typed of
        Inl c \<Rightarrow> (s, Inl (unprocessable (Unreached c)))
      | Inr e \<Rightarrow>
          if auth_secret e \<noteq> None \<and> o_key w = None then (s, Inl CredentialsUnavailable)
          else if MAX_PROBES_IN_FLIGHT \<le> probes_in_flight s then (s, Inl Busy)
          else
            (case probe_admit (o_tick w) uid (probe_limits s) of
               (l, Some r) \<Rightarrow> (s\<lparr>probe_limits := l\<rparr>, Inl (ProbeLimited (retry_after_s r)))
             | (l, None) \<Rightarrow>
                 if key_taken (endpoint_key e) replacing (reg_db s) then (s\<lparr>probe_limits := l\<rparr>, Inl EndpointRegistered)
                 else (s\<lparr>probe_limits := l, probes_in_flight := probes_in_flight s + 1\<rparr>, Inr e)))"

text \<open>The requests, and what the answers lead to.\<close>

definition probe_asks ::
    "(string \<Rightarrow> json option) \<Rightarrow> (json \<Rightarrow> string) \<Rightarrow> owner_world \<Rightarrow> polled_endpoint
     \<Rightarrow> request list \<times> (registration_refusal + probed_radar)" where
  "probe_asks loads digest w e =
     (case probe_blah2 loads digest (o_probe w) e of
        (rs, Inl x) \<Rightarrow> (rs, Inl (unprocessable x))
      | (rs, Inr p) \<Rightarrow>
          (case (if auth_user e \<noteq> None then answers_without_credentials w e else ([], True)) of (rs', bare) \<Rightarrow>
             (rs @ rs',
              case probed_config (p_config p) REGISTRATION_BASE of
                Inl x \<Rightarrow> Inl (ConfigUnusable x)
              | Inr c \<Rightarrow> Inr \<lparr>pd_endpoint = e, pd_radar = p, pd_config = c,
                              pd_protected = (auth_user e \<noteq> None \<and> \<not> bare)\<rparr>)))"

definition probe_end :: "registration_state \<Rightarrow> registration_state" where
  "probe_end s = s\<lparr>probes_in_flight := probes_in_flight s - 1\<rparr>"

definition probe_radar ::
    "(string \<Rightarrow> json option) \<Rightarrow> (json \<Rightarrow> string) \<Rightarrow> owner_world \<Rightarrow> string \<Rightarrow> string \<Rightarrow> string option \<Rightarrow> registration_state
     \<Rightarrow> registration_state \<times> request list \<times> (registration_refusal + probed_radar)" where
  "probe_radar loads digest w typed uid replacing s =
     (case probe_start w typed uid replacing s of
        (s1, Inl x) \<Rightarrow> (s1, [], Inl x)
      | (s1, Inr e) \<Rightarrow>
          (case probe_asks loads digest w e of (rs, out) \<Rightarrow> (probe_end (o_meanwhile w s1), rs, out)))"

subsection \<open>Registering\<close>

definition radars_owned :: "string \<Rightarrow> radar_db \<Rightarrow> nat" where
  "radars_owned uid d = length (filter (\<lambda>(n, r). read_owner n (claiming d) = Some uid) (radars d))"

definition request_of :: "probed_radar \<Rightarrow> string \<Rightarrow> string \<Rightarrow> string \<Rightarrow> bool \<Rightarrow> radar_request" where
  "request_of p uid email publication verif =
     (let r = pd_radar p; c = p_config r; f = py_get (pd_config p) in
      \<lparr>owner_user_id = uid, owner_email = email, q_endpoint = pd_endpoint p,
       q_geometry = \<lparr>g_rx_lat = Some (latitude (b_rx c)), g_rx_lon = Some (longitude (b_rx c)),
                     g_rx_alt_m = Some (altitude_m (b_rx c)), g_tx_lat = Some (latitude (b_tx c)),
                     g_tx_lon = Some (longitude (b_tx c)), g_tx_alt_m = Some (altitude_m (b_tx c))\<rparr>,
       q_fc_hz = f ''fc_hz'', q_fs_hz = f ''fs_hz'', q_max_range_km = f ''max_range_km'', q_cpi_s = f ''cpi_s'',
       q_delay_tolerance_us = f ''delay_tolerance_us'', q_doppler_tolerance_hz = f ''doppler_tolerance_hz'',
       q_fingerprint = p_fingerprint r, q_ip = p_address r, q_publication = publication, q_licence = None,
       q_unprotected = (\<not> pd_protected p), q_claim_verified = verif\<rparr>)"

definition write_radar ::
    "owner_world \<Rightarrow> probed_radar \<Rightarrow> string \<Rightarrow> string \<Rightarrow> string \<Rightarrow> bool \<Rightarrow> string \<Rightarrow> radar_db
     \<Rightarrow> registration_refusal + (radar_db \<times> string)" where
  "write_radar w p uid email publication verif actor d =
     (case create_polled_radar (encrypt_with (o_key w)) (o_draws w) (o_now w) (request_of p uid email publication verif) d of
        Inl EndpointAlreadyRegistered \<Rightarrow> Inl EndpointRegistered
      | Inl x \<Rightarrow> Inl (Crashed (Some x))
      | Inr (d1, node) \<Rightarrow>
          Inr (d1\<lparr>events := events d1 @ [\<lparr>e_node = node, e_kind = ''registered'', e_epoch = Some 1, e_actor = actor\<rparr>]\<rparr>,
               node))"

text \<open>A request that fails after its probe rolls its own writes back.\<close>

definition register_radar ::
    "(string \<Rightarrow> json option) \<Rightarrow> (json \<Rightarrow> string) \<Rightarrow> owner_world \<Rightarrow> string \<Rightarrow> string \<Rightarrow> string \<Rightarrow> string \<Rightarrow> string
     \<Rightarrow> registration_state \<Rightarrow> registration_state \<times> (registration_refusal + string)" where
  "register_radar loads digest w typed confirmed publication uid email s =
     (if MAX_RADARS_PER_ACCOUNT \<le> radars_owned uid (reg_db s) then (s, Inl RadarLimit)
      else
        (case probe_radar loads digest w typed uid None s of
           (s1, _, Inl x) \<Rightarrow> (s1, Inl x)
         | (s1, _, Inr p) \<Rightarrow>
             if p_fingerprint (pd_radar p) \<noteq> confirmed then (s1, Inl (ConfigChanged p))
             else
               (case write_radar w p uid email publication True uid (reg_db s1) of
                  Inl x \<Rightarrow> (s1, Inl x)
                | Inr (d, node) \<Rightarrow> (s1\<lparr>reg_db := d\<rparr>, Inr node))))"

subsection \<open>Moving\<close>

definition owned_radar :: "string \<Rightarrow> string \<Rightarrow> radar_db \<Rightarrow> polled_radar option" where
  "owned_radar node uid d = (if read_owner node (claiming d) = Some uid then dict_get (radars d) node else None)"

definition probe_new_address ::
    "(string \<Rightarrow> json option) \<Rightarrow> (json \<Rightarrow> string) \<Rightarrow> owner_world \<Rightarrow> string \<Rightarrow> string \<Rightarrow> string
     \<Rightarrow> registration_state \<Rightarrow> registration_state \<times> request list \<times> (registration_refusal + probed_radar)" where
  "probe_new_address loads digest w node typed uid s =
     (case owned_radar node uid (reg_db s) of
        None \<Rightarrow> (s, [], Inl RadarNotFound)
      | Some _ \<Rightarrow> probe_radar loads digest w typed uid (Some node) s)"

definition change_address ::
    "(string \<Rightarrow> json option) \<Rightarrow> (json \<Rightarrow> string) \<Rightarrow> owner_world \<Rightarrow> string \<Rightarrow> string \<Rightarrow> string \<Rightarrow> string
     \<Rightarrow> registration_state \<Rightarrow> registration_state \<times> (registration_refusal + bool)" where
  "change_address loads digest w node typed confirmed uid s =
     (case owned_radar node uid (reg_db s) of
        None \<Rightarrow> (s, Inl RadarNotFound)
      | Some r \<Rightarrow>
          (case probe_radar loads digest w typed uid (Some node) s of
             (s1, _, Inl x) \<Rightarrow> (s1, Inl x)
           | (s1, _, Inr p) \<Rightarrow>
               if p_fingerprint (pd_radar p) \<noteq> confirmed then (s1, Inl (ConfigChanged p))
               else
                 (case set_polled_radar_address (encrypt_with (o_key w)) (o_now w) node r (pd_radar p) (\<not> pd_protected p) uid
                         (reg_db s1) of
                    Inl EndpointAlreadyRegistered \<Rightarrow> (s1, Inl EndpointRegistered)
                  | Inl EpochChanged \<Rightarrow> (s1, Inl (ConfigChanged p))
                  | Inl x \<Rightarrow> (s1, Inl (Crashed (Some x)))
                  | Inr (d, moved) \<Rightarrow> (s1\<lparr>reg_db := d\<rparr>, Inr moved))))"

subsection \<open>An administrator's connections\<close>

definition check_connection ::
    "(string \<Rightarrow> json option) \<Rightarrow> (json \<Rightarrow> string) \<Rightarrow> string option \<Rightarrow> owner_world \<Rightarrow> string \<Rightarrow> string \<Rightarrow> string
     \<Rightarrow> registration_state \<Rightarrow> registration_state \<times> (registration_refusal + (probed_radar \<times> string \<times> bool))" where
  "check_connection loads digest env w typed email admin_id s =
     (if \<not> polling_enabled env then (s, Inl PollingOff)
      else
        (let addr = normalise_email email; known = dict_has (users (claiming (reg_db s))) addr in
         case probe_radar loads digest w typed admin_id None s of
           (s1, _, Inl x) \<Rightarrow> (s1, Inl x)
         | (s1, _, Inr p) \<Rightarrow> (s1, Inr (p, addr, known))))"

text \<open>\<open>meanwhile\<close> is what other requests do to the accounts between the lookup and the creation.\<close>

definition get_or_create_admin_account ::
    "((string, user) dict \<Rightarrow> (string, user) dict) \<Rightarrow> string \<Rightarrow> string \<Rightarrow> claim_db \<Rightarrow> claim_db \<times> string \<times> user \<times> bool" where
  "get_or_create_admin_account meanwhile uid email accts =
     (let addr = normalise_email email in
      case dict_get (users accts) addr of
        Some u \<Rightarrow> (accts, addr, u, False)
      | None \<Rightarrow>
          (let us = meanwhile (users accts) in
           case dict_get us addr of
             Some u \<Rightarrow> (accts\<lparr>users := us\<rparr>, addr, u, False)
           | None \<Rightarrow>
               (let u = \<lparr>u_id = uid, is_superuser = False, is_verified = False\<rparr>
                in (accts\<lparr>users := dict_set us addr u\<rparr>, addr, u, True))))"

definition admin_actor :: "string \<Rightarrow> string" where
  "admin_actor email = ''admin:'' @ email"

definition connect_radar ::
    "(string \<Rightarrow> json option) \<Rightarrow> (json \<Rightarrow> string) \<Rightarrow> string option \<Rightarrow> owner_world \<Rightarrow> ((string, user) dict \<Rightarrow> (string, user) dict)
     \<Rightarrow> string \<Rightarrow> string \<Rightarrow> string \<Rightarrow> string \<Rightarrow> string \<Rightarrow> string \<times> string
     \<Rightarrow> registration_state \<Rightarrow> registration_state \<times> (registration_refusal + (string \<times> string \<times> bool))" where
  "connect_radar loads digest env w meanwhile uid typed confirmed publication email admin s =
     (if \<not> polling_enabled env then (s, Inl PollingOff)
      else
        (case probe_radar loads digest w typed (fst admin) None s of
           (s1, _, Inl x) \<Rightarrow> (s1, Inl x)
         | (s1, _, Inr p) \<Rightarrow>
             if p_fingerprint (pd_radar p) \<noteq> confirmed then (s1, Inl (ConfigChanged p))
             else
               (case get_or_create_admin_account meanwhile uid email (claiming (reg_db s1)) of
                  (accts, addr, u, created) \<Rightarrow>
                    (let s2 = s1\<lparr>reg_db := (reg_db s1)\<lparr>claiming := accts\<rparr>\<rparr> in
                     case write_radar w p (u_id u) addr publication False (admin_actor (snd admin)) (reg_db s2) of
                       Inl x \<Rightarrow> (s2, Inl x)
                     | Inr (d, node) \<Rightarrow> (s2\<lparr>reg_db := d\<rparr>, Inr (node, addr, created))))))"

definition claims_held :: "string \<Rightarrow> claim_db \<Rightarrow> nat" where
  "claims_held uid accts = length (filter (\<lambda>(n, c). user_id c = Some uid) (claims accts))"

definition withdraw_radar :: "string \<Rightarrow> string \<Rightarrow> radar_db \<Rightarrow> registration_refusal + radar_db" where
  "withdraw_radar node admin_email d =
     (if dict_get (radars d) node = None then Inl RadarNotFound
      else
        (case read_owner node (claiming d) of
           None \<Rightarrow> Inl SignedIn
         | Some uid \<Rightarrow>
             (case account_by_id uid d of
                None \<Rightarrow> Inl SignedIn
              | Some (addr, u) \<Rightarrow>
                  if is_verified u then Inl SignedIn
                  else
                    (let d1 = retire_polled_radar node (admin_actor admin_email) d in
                     if claims_held uid (claiming d1) = 0
                     then Inr (d1\<lparr>claiming := (claiming d1)\<lparr>users := dict_del (users (claiming d1)) addr\<rparr>\<rparr>)
                     else Inr d1))))"

text \<open>Once a registration commits: the pipeline is primed if it can be.\<close>

definition hand_over :: "(json \<Rightarrow> string) \<Rightarrow> real \<Rightarrow> radar_db \<Rightarrow> string \<Rightarrow> registries \<Rightarrow> registries" where
  "hand_over digest now d node g =
     (case register_with_pipeline digest now (configs d) node
             (case dict_get (node_rows d) node of None \<Rightarrow> None | Some n \<Rightarrow> n_last_seen n) g of
        None \<Rightarrow> g | Some g' \<Rightarrow> g')"


subsection \<open>The slots probes take\<close>

text \<open>The state with the endpoints being probed.  Other tasks change the registry and the limiter only.\<close>

inductive probing :: "registration_state \<Rightarrow> polled_endpoint list \<Rightarrow> bool" where
  Fresh: "probes_in_flight s = 0 \<Longrightarrow> probing s []"
| Started: "probing s es \<Longrightarrow> probe_start w typed uid replacing s = (s', Inr e) \<Longrightarrow> probing s' (e # es)"
| Turned_away: "probing s es \<Longrightarrow> probe_start w typed uid replacing s = (s', Inl x) \<Longrightarrow> probing s' es"
| Ended: "probing s es \<Longrightarrow> e \<in> set es \<Longrightarrow> probing (probe_end s) (remove1 e es)"
| Others: "probing s es \<Longrightarrow> probing (s\<lparr>reg_db := d, probe_limits := l\<rparr>) es"

lemma probe_start_Inr:
  assumes "probe_start w typed uid replacing s = (s', Inr e)"
  shows "parse_endpoint (o_idna w) (o_unquote w) typed = Inr e \<and> (auth_secret e = None \<or> o_key w \<noteq> None) \<and>
    probes_in_flight s < MAX_PROBES_IN_FLIGHT \<and> \<not> key_taken (endpoint_key e) replacing (reg_db s) \<and>
    (\<exists>l. probe_admit (o_tick w) uid (probe_limits s) = (l, None) \<and>
       s' = s\<lparr>probe_limits := l, probes_in_flight := probes_in_flight s + 1\<rparr>)"
proof (cases "parse_endpoint (o_idna w) (o_unquote w) typed")
  case (Inr e')
  obtain l r where "probe_admit (o_tick w) uid (probe_limits s) = (l, r)" by fastforce
  then show ?thesis using assms Inr by (cases r) (auto simp: probe_start_def split: if_splits)
qed (use assms in \<open>simp add: probe_start_def\<close>)

lemma probe_start_Inl:
  assumes "probe_start w typed uid replacing s = (s', Inl x)"
  shows "probes_in_flight s' = probes_in_flight s \<and> reg_db s' = reg_db s \<and>
    (x = Busy \<longrightarrow> MAX_PROBES_IN_FLIGHT \<le> probes_in_flight s)"
proof (cases "parse_endpoint (o_idna w) (o_unquote w) typed")
  case (Inl c)
  then show ?thesis using assms by (auto simp: probe_start_def unprocessable_def)
next
  case (Inr e)
  obtain l r where "probe_admit (o_tick w) uid (probe_limits s) = (l, r)" by fastforce
  then show ?thesis using assms Inr by (cases r) (auto simp: probe_start_def split: if_splits)
qed

lemma probing_slots: "probing s es \<Longrightarrow> probes_in_flight s = length es \<and> length es \<le> MAX_PROBES_IN_FLIGHT"
proof (induction rule: probing.induct)
  case (Started s es w typed uid replacing s' e)
  then show ?case using probe_start_Inr [OF Started(2)] by auto
next
  case (Turned_away s es w typed uid replacing s' x)
  then show ?case using probe_start_Inl [OF Turned_away(2)] by simp
next
  case (Ended s es e)
  then show ?case by (auto simp: probe_end_def length_remove1)
qed simp_all

text \<open>The slots of probes in flight neither leak nor overflow.  However requests, refusals and ends
  interleave, the count is the number of probes that are running and never above four, and a
  request is answered as busy only when four of them are.
\<close>
theorem probe_slots_exact:
  assumes "probing s es"
  shows "probes_in_flight s = length es \<and> length es \<le> 4 \<and>
    (snd (probe_start w typed uid replacing s) = Inl Busy \<longrightarrow> length es = 4)"
proof -
  note slots = probing_slots [OF assms]
  obtain s' out where st: "probe_start w typed uid replacing s = (s', out)" by fastforce
  then have "out = Inl Busy \<longrightarrow> MAX_PROBES_IN_FLIGHT \<le> probes_in_flight s" using probe_start_Inl by blast
  then show ?thesis using slots st by (auto simp: MAX_PROBES_IN_FLIGHT_def)
qed

subsection \<open>What may be asked, and when\<close>

lemma bare_requests:
  assumes "policy (o_probe w) = Inr may" and "answers_without_credentials w e = (rs, b)"
  shows "list_all (probe_request may (e\<lparr>auth_user := None, auth_secret := None\<rparr>)) rs"
proof (cases "open_client (o_bare_resolver w) (Inr may) (e\<lparr>auth_user := None, auth_secret := None\<rparr>)")
  case (Inl x)
  then show ?thesis using assms by (simp add: answers_without_credentials_def)
next
  case (Inr c)
  obtain c' rs' out where g: "client_get (o_bare_net w) CONFIG_PATH CONFIG_MAX_BYTES c = (c', rs', out)" by (metis prod.exhaust)
  have "list_all (probe_request may (e\<lparr>auth_user := None, auth_secret := None\<rparr>)) rs'"
    using client_get_probe_request(2) [OF open_client_ok [OF Inr] g] by simp
  then show ?thesis using assms Inr g by (simp add: answers_without_credentials_def)
qed

lemma probe_asks_requests:
  assumes "policy (o_probe w) = Inr may" and "probe_asks loads digest w e = (rs, out)" and "r \<in> set rs"
  shows "probe_request may e r \<or> probe_request may (e\<lparr>auth_user := None, auth_secret := None\<rparr>) r"
proof -
  obtain rs1 out1 where p: "probe_blah2 loads digest (o_probe w) e = (rs1, out1)" by fastforce
  have first: "list_all (probe_request may e) rs1" using probe_blah2_requests [OF assms(1), where loads = loads and digest = digest and e = e] p by simp
  obtain rs2 b where q: "(if auth_user e \<noteq> None then answers_without_credentials w e else ([], True)) = (rs2, b)" by fastforce
  then have second: "list_all (probe_request may (e\<lparr>auth_user := None, auth_secret := None\<rparr>)) rs2"
    using bare_requests [OF assms(1)] by (auto split: if_splits)
  have "set rs \<subseteq> set rs1 \<union> set rs2" using assms(2) p q by (cases out1) (auto simp: probe_asks_def)
  then show ?thesis using first second assms(3) by (auto simp: list_all_iff)
qed

text \<open>C15:
  No request leaves for an address an owner typed before everything that needs none is settled:
  then the address parses, a credential in it could be stored, fewer than four probes run, the
  caller's allowance admitted this one, and no other radar is registered there.  Each request is
  a plain read of a probe's own path at an address the policy allows, and a refusal of the first
  three kinds has cost the caller nothing.
\<close>
theorem requests_wait_for_refusals:
  assumes "policy (o_probe w) = Inr may" and "probe_radar loads digest w typed uid replacing s = (s', rs, out)"
  shows "(\<forall>r \<in> set rs. \<exists>e l. parse_endpoint (o_idna w) (o_unquote w) typed = Inr e \<and>
       (auth_secret e = None \<or> o_key w \<noteq> None) \<and> probes_in_flight s < MAX_PROBES_IN_FLIGHT \<and>
       probe_admit (o_tick w) uid (probe_limits s) = (l, None) \<and> \<not> key_taken (endpoint_key e) replacing (reg_db s) \<and>
       (probe_request may e r \<or> probe_request may (e\<lparr>auth_user := None, auth_secret := None\<rparr>) r)) \<and>
    (out \<in> {Inl CredentialsUnavailable, Inl Busy} \<or> (\<exists>c. parse_endpoint (o_idna w) (o_unquote w) typed = Inl c) \<longrightarrow>
       s' = s \<and> rs = [])"
proof -
  obtain s1 start where st: "probe_start w typed uid replacing s = (s1, start)" by fastforce
  show ?thesis
  proof (cases start)
    case (Inl x)
    then have "rs = []" "s' = s1" "out = Inl x" using assms(2) st by (simp_all add: probe_radar_def)
    moreover have "s1 = s" if "x \<in> {CredentialsUnavailable, Busy} \<or> (\<exists>c. parse_endpoint (o_idna w) (o_unquote w) typed = Inl c)"
      using st that unfolding Inl by (auto simp: probe_start_def split: sum.splits if_splits prod.splits option.splits)
    ultimately show ?thesis by auto
  next
    case (Inr e)
    obtain l where e: "parse_endpoint (o_idna w) (o_unquote w) typed = Inr e" "auth_secret e = None \<or> o_key w \<noteq> None"
      "probes_in_flight s < MAX_PROBES_IN_FLIGHT" "probe_admit (o_tick w) uid (probe_limits s) = (l, None)"
      "\<not> key_taken (endpoint_key e) replacing (reg_db s)"
      using probe_start_Inr [OF st [unfolded Inr]] by blast
    have a: "probe_asks loads digest w e = (rs, out)"
      using assms(2) st Inr by (auto simp: probe_radar_def split: prod.splits)
    have "out \<notin> {Inl CredentialsUnavailable, Inl Busy}"
      using a by (auto simp: probe_asks_def unprocessable_def split: prod.splits sum.splits radar_refusal.splits if_splits)
    then show ?thesis using e probe_asks_requests [OF assms(1) a] by auto
  qed
qed


subsection \<open>What a registration leaves\<close>

lemma minted_fresh:
  "mint_attempts k system draws d = Some (node, ref) \<Longrightarrow> \<not> dict_has (node_rows d) node"
  by (induction k system draws d rule: mint_attempts.induct) (auto simp: clashes_def split: if_splits)

lemma create_Inr:
  assumes "create_polled_radar encrypt draws now q d = Inr (d', node)"
  shows "\<not> dict_has (node_rows d) node \<and> \<not> key_taken (endpoint_key (q_endpoint q)) None d \<and>
    (\<exists>enc. radars d' = dict_set (radars d) node (new_radar now enc q)) \<and>
    node_rows d' = dict_set (node_rows d) node (new_node now q) \<and>
    claims (claiming d') = dict_set (claims (claiming d)) node
      \<lparr>user_id = Some (owner_user_id q), c_email = Some (owner_email q), verified = q_claim_verified q,
       undeliverable = False, c_updated = now\<rparr> \<and>
    (\<exists>r. r \<in> set (configs d') \<and> row_node r = node \<and> version r = 1 \<and> superseded_at r = None \<and> config_of r = first_config q)"
proof -
  have ok: "q_publication q \<in> set PUBLICATIONS" using assms by (auto simp: create_polled_radar_def split: if_splits)
  obtain enc where enc: "encrypt_secret encrypt (auth_secret (q_endpoint q)) = Inr enc"
    using assms ok by (auto simp: create_polled_radar_def bind_result_eq_Inr split: if_splits)
  obtain d1 n1 where add: "add_with_minted_id POLLED_BLAH2 draws (new_node now q) d = Inr (d1, n1)"
    using assms ok enc by (auto simp: create_polled_radar_def bind_result_eq_Inr)
  let ?row = "\<lparr>row_node = n1, version = 1, config_of = first_config q, created_at = now, superseded_at = None\<rparr>"
  obtain rows where rows: "insert_row ?row (configs d1) = Inr rows"
    using assms ok enc add by (auto simp: create_polled_radar_def bind_result_eq_Inr split: sum.splits)
  have free: "\<not> key_taken (endpoint_key (q_endpoint q)) None d1"
    using assms ok enc add rows by (auto simp: create_polled_radar_def split: if_splits)
  have d': "node = n1"
    "d' = d1\<lparr>configs := rows,
             claiming := (claiming d1)\<lparr>claims := dict_set (claims (claiming d1)) node
               \<lparr>user_id = Some (owner_user_id q), c_email = Some (owner_email q), verified = q_claim_verified q,
                undeliverable = False, c_updated = now\<rparr>\<rparr>,
             radars := dict_set (radars d1) node (new_radar now enc q),
             history := history d1 @ [\<lparr>h_node = node, old_key = None, new_key = endpoint_key (q_endpoint q), h_ip = q_ip q,
               changed_by = owner_user_id q, changed_at = now\<rparr>]\<rparr>"
    using assms ok enc add rows free by (auto simp: create_polled_radar_def Let_def)
  obtain ref where mint: "mint_attempts MINT_ATTEMPTS POLLED_BLAH2 draws d = Some (n1, ref)"
    and d1: "d1 = d\<lparr>node_rows := dict_set (node_rows d) n1 (new_node now q),
                    claiming := (claiming d)\<lparr>nodes := dict_set (nodes (claiming d)) n1 ref\<rparr>\<rparr>"
    using add by (auto simp: add_with_minted_id_def split: if_splits option.splits)
  have "?row \<in> set rows" using rows by (auto simp: insert_row_def split: list.splits if_splits)
  then show ?thesis using minted_fresh [OF mint] free d1 d' by (auto simp: key_taken_def)
qed

lemma write_radar_Inr:
  "write_radar w p uid email publication verif actor d = Inr (d', node) \<longleftrightarrow>
     (\<exists>d1. create_polled_radar (encrypt_with (o_key w)) (o_draws w) (o_now w) (request_of p uid email publication verif) d =
        Inr (d1, node) \<and>
      d' = d1\<lparr>events := events d1 @ [\<lparr>e_node = node, e_kind = ''registered'', e_epoch = Some 1, e_actor = actor\<rparr>]\<rparr>)"
  by (auto simp: write_radar_def split: sum.splits prod.splits radar_error.splits)

lemma probe_radar_Inr:
  assumes "probe_radar loads digest w typed uid replacing s = (s', rs, Inr p)"
  shows "\<exists>e. parse_endpoint (o_idna w) (o_unquote w) typed = Inr e \<and> pd_endpoint p = e \<and> p_endpoint (pd_radar p) = e \<and>
    p_fingerprint (pd_radar p) = fingerprint digest (p_config (pd_radar p)) \<and>
    probed_config (p_config (pd_radar p)) REGISTRATION_BASE = Inr (pd_config p)"
proof -
  obtain s1 start where st: "probe_start w typed uid replacing s = (s1, start)" by fastforce
  obtain e where e: "start = Inr e" using assms st by (cases start) (simp_all add: probe_radar_def)
  have a: "probe_asks loads digest w e = (rs, Inr p)" using assms st e by (auto simp: probe_radar_def split: prod.splits)
  obtain rs1 q where q: "probe_blah2 loads digest (o_probe w) e = (rs1, Inr q)"
    using a by (auto simp: probe_asks_def split: prod.splits sum.splits)
  have p: "pd_endpoint p = e" "pd_radar p = q" "probed_config (p_config q) REGISTRATION_BASE = Inr (pd_config p)"
    using a q by (auto simp: probe_asks_def split: prod.splits sum.splits)
  have "snd (probe_blah2 loads digest (o_probe w) e) = Inr q" by (simp add: q)
  then obtain config first latest text1 where
    c: "read_config loads text1 = Inr config"
    and j: "judge digest e (p_address q) config first latest (received (o_probe w)) = Inr q"
    by (rule probe_blah2_Inr)
  show ?thesis using probe_start_Inr [OF st [unfolded e]] p judge_Inr [OF j] by auto
qed

definition written_state :: "registration_state \<Rightarrow> owner_world \<Rightarrow> string \<Rightarrow> string \<Rightarrow> registration_state" where
  "written_state s w typed uid = probe_end (o_meanwhile w (fst (probe_start w typed uid None s)))"

lemma register_Inr:
  assumes "register_radar loads digest w typed agreed publication uid email s = (s', Inr node)"
  shows "radars_owned uid (reg_db s) < MAX_RADARS_PER_ACCOUNT \<and>
    (\<exists>p rs d. probe_radar loads digest w typed uid None s = (written_state s w typed uid, rs, Inr p) \<and>
       p_fingerprint (pd_radar p) = agreed \<and> s' = (written_state s w typed uid)\<lparr>reg_db := d\<rparr> \<and>
       write_radar w p uid email publication True uid (reg_db (written_state s w typed uid)) = Inr (d, node))"
proof -
  have few: "radars_owned uid (reg_db s) < MAX_RADARS_PER_ACCOUNT"
    using assms by (simp add: register_radar_def split: if_splits)
  obtain s1 rs out where pr: "probe_radar loads digest w typed uid None s = (s1, rs, out)" by (metis prod.exhaust)
  obtain p where p: "out = Inr p" using assms few pr by (cases out) (simp_all add: register_radar_def)
  have agreed: "p_fingerprint (pd_radar p) = agreed" using assms few pr p by (simp add: register_radar_def split: if_splits)
  obtain d where d: "write_radar w p uid email publication True uid (reg_db s1) = Inr (d, node)" "s' = s1\<lparr>reg_db := d\<rparr>"
    using assms few pr p agreed by (auto simp: register_radar_def split: sum.splits)
  obtain s0 start where st: "probe_start w typed uid None s = (s0, start)" by fastforce
  have "s1 = written_state s w typed uid"
    using pr p st by (cases start) (auto simp: probe_radar_def written_state_def split: prod.splits)
  then show ?thesis using few pr p agreed d by auto
qed

lemma owned_insert:
  assumes "\<not> dict_has rs node" and "\<And>n. n \<noteq> node \<Longrightarrow> P' n = P n" and "P' node"
  shows "length (filter (\<lambda>(n, r). P' n) (dict_set rs node x)) = Suc (length (filter (\<lambda>(n, r). P n) rs))"
  using assms(1)
proof (induction rs)
  case (Cons e rs)
  obtain n r where e: "e = (n, r)" by (cases e)
  then show ?case using Cons assms(2) [of n] by (auto simp: dict_set_def dict_has_def)
qed (use assms(3) in \<open>simp add: dict_set_def\<close>)

text \<open>A registration counts one radar more than its account had when it wrote, which others may have
  raised since the cap was checked.\<close>

lemma registration_adds_one:
  assumes "register_radar loads digest w typed agreed publication uid email s = (s', Inr node)"
    and "\<forall>n. dict_has (radars (reg_db (written_state s w typed uid))) n \<longrightarrow> dict_has (node_rows (reg_db (written_state s w typed uid))) n"
  shows "radars_owned uid (reg_db s') = Suc (radars_owned uid (reg_db (written_state s w typed uid)))"
proof -
  let ?d = "reg_db (written_state s w typed uid)"
  obtain p d where s': "reg_db s' = d" and wr: "write_radar w p uid email publication True uid ?d = Inr (d, node)"
    using register_Inr [OF assms(1)] by auto
  obtain d1 where c: "create_polled_radar (encrypt_with (o_key w)) (o_draws w) (o_now w) (request_of p uid email publication True) ?d =
      Inr (d1, node)" and d: "d = d1\<lparr>events := events d1 @ [\<lparr>e_node = node, e_kind = ''registered'', e_epoch = Some 1, e_actor = uid\<rparr>]\<rparr>"
    using wr by (auto simp: write_radar_Inr)
  note i = create_Inr [OF c]
  have fresh: "\<not> dict_has (radars ?d) node" using i assms(2) by blast
  obtain enc where rad: "radars d = dict_set (radars ?d) node (new_radar (o_now w) enc (request_of p uid email publication True))"
    using i d by auto
  have own: "read_owner n (claiming d) = (if n = node then Some uid else read_owner n (claiming ?d))" for n
    using i d by (simp add: read_owner_def request_of_def Let_def)
  show ?thesis unfolding s' radars_owned_def rad
    by (rule owned_insert [OF fresh]) (simp_all add: own)
qed

text \<open>A registration that succeeds writes what the owner confirmed and nothing else.  The radar's row is
  on probation at epoch 1 under the address that was typed, an address no radar had until then;
  its fingerprint is the one the owner confirmed and the fingerprint of what the radar declared to
  the second probe, which is also what the node's first configuration says; the node is new,
  active, and held by the owner's verified claim; and the account had fewer than ten when it asked.
\<close>
theorem registration_holds_what_was_confirmed:
  assumes "register_radar loads digest w typed agreed publication uid email s = (s', Inr node)"
  shows "radars_owned uid (reg_db s) < 10 \<and>
    (\<exists>e c r a. parse_endpoint (o_idna w) (o_unquote w) typed = Inr e \<and>
       dict_get (radars (reg_db s')) node = Some r \<and> epoch r = 1 \<and> trust_state r = ''probation'' \<and>
       pr_key r = endpoint_key e \<and> pr_fingerprint r = agreed \<and> agreed = fingerprint digest c \<and>
       (\<forall>n r'. dict_get (radars (reg_db s')) n = Some r' \<and> n \<noteq> node \<longrightarrow> pr_key r' \<noteq> endpoint_key e) \<and>
       a \<in> set (configs (reg_db s')) \<and> row_node a = node \<and> version a = 1 \<and> superseded_at a = None \<and>
       py_get (config_of a) ''rx_lat'' = JFloat (Fin (latitude (b_rx c))) \<and>
       py_get (config_of a) ''rx_lon'' = JFloat (Fin (longitude (b_rx c))) \<and>
       py_get (config_of a) ''tx_lat'' = JFloat (Fin (latitude (b_tx c))) \<and>
       py_get (config_of a) ''tx_lon'' = JFloat (Fin (longitude (b_tx c))) \<and>
       same_number (py_get (config_of a) ''fc_hz'') (b_fc_hz c)) \<and>
    \<not> dict_has (node_rows (reg_db (written_state s w typed uid))) node \<and>
    map_option n_status (dict_get (node_rows (reg_db s')) node) = Some ''active'' \<and>
    map_option (\<lambda>cl. (user_id cl, verified cl)) (dict_get (claims (claiming (reg_db s'))) node) = Some (Some uid, True)"
proof -
  let ?d = "reg_db (written_state s w typed uid)"
  obtain p rs d where pr: "probe_radar loads digest w typed uid None s = (written_state s w typed uid, rs, Inr p)"
    and fp: "p_fingerprint (pd_radar p) = agreed" and s': "reg_db s' = d"
    and wr: "write_radar w p uid email publication True uid ?d = Inr (d, node)"
    and few: "radars_owned uid (reg_db s) < MAX_RADARS_PER_ACCOUNT"
    using register_Inr [OF assms] by auto
  obtain d1 where c: "create_polled_radar (encrypt_with (o_key w)) (o_draws w) (o_now w) (request_of p uid email publication True) ?d =
      Inr (d1, node)" and d: "d = d1\<lparr>events := events d1 @ [\<lparr>e_node = node, e_kind = ''registered'', e_epoch = Some 1, e_actor = uid\<rparr>]\<rparr>"
    using wr by (auto simp: write_radar_Inr)
  note i = create_Inr [OF c]
  let ?q = "request_of p uid email publication True" and ?c = "p_config (pd_radar p)"
  note e = probe_radar_Inr [OF pr]
  obtain enc where rad: "radars d = dict_set (radars ?d) node (new_radar (o_now w) enc ?q)" using i d by auto
  obtain a where a: "a \<in> set (configs d)" "row_node a = node" "version a = 1" "superseded_at a = None" "config_of a = first_config ?q"
    using i d by auto
  have base: "dict_ok REGISTRATION_BASE" by (simp add: dict_ok_def REGISTRATION_BASE_def)
  have pc: "probed_config ?c REGISTRATION_BASE = Inr (pd_config p)" using e by blast
  have holds: "same_number (py_get (pd_config p) ''fc_hz'') (b_fc_hz ?c)"
    using probed_config_holds(1) [OF base pc] by (simp add: holds_declared_def declared_fields_def)
  have cfg: "py_get (config_of a) ''rx_lat'' = JFloat (Fin (latitude (b_rx ?c)))"
      "py_get (config_of a) ''rx_lon'' = JFloat (Fin (longitude (b_rx ?c)))"
      "py_get (config_of a) ''tx_lat'' = JFloat (Fin (latitude (b_tx ?c)))"
      "py_get (config_of a) ''tx_lon'' = JFloat (Fin (longitude (b_tx ?c)))"
      "py_get (config_of a) ''fc_hz'' = py_get (pd_config p) ''fc_hz''"
    by (simp_all add: a(5) first_config_def request_of_def Let_def py_get_def [of "_ # _"] dict_get_def json_of_real_def)
  let ?r = "new_radar (o_now w) enc ?q"
  have row: "dict_get (radars d) node = Some ?r" "epoch ?r = 1" "trust_state ?r = ''probation''" "pr_key ?r = endpoint_key (pd_endpoint p)"
      "pr_fingerprint ?r = agreed"
    by (simp_all add: rad new_radar_def request_of_def Let_def fp)
  have only: "pr_key r' \<noteq> endpoint_key (pd_endpoint p)" if "dict_get (radars d) n = Some r'" "n \<noteq> node" for n r'
  proof -
    have "(n, r') \<in> set (radars ?d)" using that rad by (simp add: dict_get_mem)
    then show ?thesis using i by (auto simp: key_taken_def list_ex_iff request_of_def Let_def)
  qed
  have rest: "\<not> dict_has (node_rows ?d) node" "map_option n_status (dict_get (node_rows d) node) = Some ''active''"
      "map_option (\<lambda>cl. (user_id cl, verified cl)) (dict_get (claims (claiming d)) node) = Some (Some uid, True)"
    using i d by (simp_all add: new_node_def request_of_def Let_def)
  have "agreed = fingerprint digest ?c" "parse_endpoint (o_idna w) (o_unquote w) typed = Inr (pd_endpoint p)"
    using e fp by auto
  note known = this
  have others: "\<forall>n r'. dict_get (radars d) n = Some r' \<and> n \<noteq> node \<longrightarrow> pr_key r' \<noteq> endpoint_key (pd_endpoint p)"
    using only by blast
  show ?thesis unfolding s'
    by (intro conjI exI [of _ "pd_endpoint p"] exI [of _ ?c] exI [of _ ?r] exI [of _ a] others rest row known a(1-4))
      (use few cfg holds in \<open>simp_all add: MAX_RADARS_PER_ACCOUNT_def\<close>)
qed


subsection \<open>Taking a connection back\<close>

lemma dict_del_noop: "\<not> dict_has d k \<Longrightarrow> dict_del d k = d"
  by (simp add: dict_del_def dict_has_def AList.delete_id map_of_eq_None_iff)

lemma claims_held_zero: "claims_held uid accts = 0 \<longleftrightarrow> (\<forall>(n, c) \<in> set (claims accts). user_id c \<noteq> Some uid)"
  by (auto simp: claims_held_def filter_empty_conv)

lemma retire_parts:
  "radars (retire_polled_radar node actor d) = dict_del (radars d) node"
  "claims (claiming (retire_polled_radar node actor d)) = dict_del (claims (claiming d)) node"
  "users (claiming (retire_polled_radar node actor d)) = users (claiming d)"
  by (simp_all add: retire_polled_radar_def Let_def clear_claim_def update_node_def split: option.split)

lemma account_found:
  assumes "dict_ok (users (claiming d))" and "account_by_id uid d = Some (addr, u)"
  shows "dict_get (users (claiming d)) addr = Some u" and "u_id u = uid"
  using assms by (auto simp: account_by_id_def find_Some_iff intro!: dict_mem_get)
    (metis nth_mem)

text \<open>An administrator can take back a radar only while nobody has signed in to the account it was
  connected to, and doing so costs nobody anything they use.  The radar and its claim are gone;
  every verified account is as it was; the account made for the connection goes exactly when it
  is left holding no node, and no other account goes.
\<close>
theorem withdrawal_spares_accounts:
  assumes "withdraw_radar node admin d = Inr d'" and "dict_ok (users (claiming d))" and "dict_ok (claims (claiming d))"
  shows "\<exists>uid addr u. read_owner node (claiming d) = Some uid \<and> dict_get (users (claiming d)) addr = Some u \<and>
    u_id u = uid \<and> \<not> is_verified u \<and>
    dict_get (radars d') node = None \<and> read_owner node (claiming d') = None \<and>
    (\<forall>a v. dict_get (users (claiming d)) a = Some v \<and> is_verified v \<longrightarrow> dict_get (users (claiming d')) a = Some v) \<and>
    (\<forall>a. a \<noteq> addr \<longrightarrow> dict_get (users (claiming d')) a = dict_get (users (claiming d)) a) \<and>
    (dict_get (users (claiming d')) addr = None \<longleftrightarrow>
       (\<forall>n. n \<noteq> node \<longrightarrow> read_owner n (claiming d) \<noteq> Some uid))"
proof -
  obtain uid where owner: "read_owner node (claiming d) = Some uid" and here: "dict_get (radars d) node \<noteq> None"
    using assms(1) by (auto simp: withdraw_radar_def split: if_splits option.splits)
  obtain addr u where acc: "account_by_id uid d = Some (addr, u)"
    using assms(1) here owner by (auto simp: withdraw_radar_def split: option.splits)
  have fresh: "\<not> is_verified u" using assms(1) here owner acc by (auto simp: withdraw_radar_def split: if_splits)
  let ?d1 = "retire_polled_radar node (admin_actor admin) d"
  let ?none = "claims_held uid (claiming ?d1) = 0"
  have d': "d' = (if ?none then ?d1\<lparr>claiming := (claiming ?d1)\<lparr>users := dict_del (users (claiming ?d1)) addr\<rparr>\<rparr> else ?d1)"
    using assms(1) here owner acc fresh by (simp add: withdraw_radar_def Let_def split: if_splits)
  note acct = account_found [OF assms(2) acc]
  have parts: "radars d' = dict_del (radars d) node" "claims (claiming d') = dict_del (claims (claiming d)) node"
    "users (claiming d') = (if ?none then dict_del (users (claiming d)) addr else users (claiming d))"
    by (simp_all add: d' retire_parts)
  have ok1: "dict_ok (dict_del (claims (claiming d)) node)" by (rule dict_ok_del [OF assms(3)])
  have none: "?none \<longleftrightarrow> (\<forall>n. n \<noteq> node \<longrightarrow> read_owner n (claiming d) \<noteq> Some uid)"
  proof -
    have "?none \<longleftrightarrow> (\<forall>n c. dict_get (dict_del (claims (claiming d)) node) n = Some c \<longrightarrow> user_id c \<noteq> Some uid)"
      unfolding claims_held_zero retire_parts using dict_get_mem dict_mem_get [OF ok1] by fast
    also have "\<dots> \<longleftrightarrow> (\<forall>n. n \<noteq> node \<longrightarrow> read_owner n (claiming d) \<noteq> Some uid)"
      by (auto simp: read_owner_def split: option.splits)
    finally show ?thesis .
  qed
  have gone: "dict_get (users (claiming d')) addr = None \<longleftrightarrow> ?none" using parts(3) acct(1) by simp
  show ?thesis
  proof (intro exI conjI)
    show "read_owner node (claiming d) = Some uid" by (rule owner)
    show "dict_get (users (claiming d)) addr = Some u" "u_id u = uid" "\<not> is_verified u" using acct fresh by auto
    show "dict_get (radars d') node = None" "read_owner node (claiming d') = None" using parts by (simp_all add: read_owner_def)
    show "\<forall>a v. dict_get (users (claiming d)) a = Some v \<and> is_verified v \<longrightarrow> dict_get (users (claiming d')) a = Some v"
      using parts(3) acct(1) fresh by auto
    show "\<forall>a. a \<noteq> addr \<longrightarrow> dict_get (users (claiming d')) a = dict_get (users (claiming d)) a" using parts(3) by simp
    show "dict_get (users (claiming d')) addr = None \<longleftrightarrow> (\<forall>n. n \<noteq> node \<longrightarrow> read_owner n (claiming d) \<noteq> Some uid)"
      unfolding gone none ..
  qed
qed

definition connected_db :: radar_db where
  "connected_db = sample_db\<lparr>radars := [(''bla00000001'', sample_radar ''probation'')],
     claiming := empty_claims\<lparr>users := [(''o@x.org'', \<lparr>u_id = ''u1'', is_superuser = False, is_verified = False\<rparr>)],
       claims := [(''bla00000001'', \<lparr>user_id = Some ''u1'', c_email = Some ''o@x.org'', verified = False, undeliverable = False,
         c_updated = 0\<rparr>)]\<rparr>\<rparr>"

theorem withdrawal_spares_accounts_witness:
  "\<exists>d'. withdraw_radar ''bla00000001'' ''admin@x.org'' connected_db = Inr d' \<and> dict_get (radars d') ''bla00000001'' = None"
proof -
  have "\<exists>d'. withdraw_radar ''bla00000001'' ''admin@x.org'' connected_db = Inr d'"
    by (simp add: withdraw_radar_def connected_db_def dict_get_def read_owner_def account_by_id_def Let_def)
  then obtain d' where d': "withdraw_radar ''bla00000001'' ''admin@x.org'' connected_db = Inr d'" by blast
  have "dict_ok (users (claiming connected_db))" "dict_ok (claims (claiming connected_db))"
    by (simp_all add: connected_db_def dict_ok_def)
  from withdrawal_spares_accounts [OF d' this] d' show ?thesis by blast
qed


subsection \<open>One registration, evaluated\<close>

definition owner_loads :: "string \<Rightarrow> json option" where
  "owner_loads t = (if t = ''c'' then Some declared_json
     else if t = ''1'' then Some (sample_detection 1000000) else Some (sample_detection 1001000))"

definition owner_sample :: owner_world where
  "owner_sample = \<lparr>o_now = 7, o_tick = 50, o_idna = sample_idna, o_unquote = id, o_key = None, o_probe = Blah2.sample_world,
     o_bare_resolver = sample_resolver, o_bare_net = sample_answer ''c'', o_draws = [(''00000002'', ''ref2'')],
     o_meanwhile = (\<lambda>s. s)\<rparr>"

definition owner_state :: registration_state where
  "owner_state = \<lparr>reg_db = sample_db, probe_limits = new_counters 10 True, probes_in_flight = 0\<rparr>"

definition owner_probe :: blah2_probe where
  "owner_probe = \<lparr>p_endpoint = parsed_endpoint, p_config = sample_declaration, p_fingerprint = ''f'',
     p_address = Some (V4 (quad 8 8 8 8)), p_clock_offset_s = round3 (- 1)\<rparr>"

lemma owner_probed: "\<exists>rs. probe_blah2 owner_loads (\<lambda>_. ''f'') Blah2.sample_world parsed_endpoint = (rs, Inr owner_probe) \<and> rs \<noteq> []"
proof -
  have host: "ip_of_string (host parsed_endpoint) = None"
    by (simp add: parsed_endpoint_def ip_text_simps)
  have public: "is_public_address [] (V4 (quad 8 8 8 8))" "is_public_address [] (V6 (groups 0x2a00 0 0 0 + 1))"
    by (simp_all add: is_public_address_def public4_def in_any_def is_private4_def registry_simps carried_ipv4_def
        ipv4_mapped_def sixtofour_def)
  have client: "open_client sample_resolver (Inr (is_public_address [])) parsed_endpoint =
      Inr \<lparr>c_endpoint = parsed_endpoint, addresses = [V4 (quad 8 8 8 8), V6 (groups 0x2a00 0 0 0 + 1)], address = None\<rparr>"
    using public by (simp add: open_client_def vet_addresses_def host sample_resolver_def unique_def)
  have det: "parse_detection owner_loads ''1'' = Inr \<lparr>timestamp_ms = 1000000, delay_km = [20], doppler_hz = [80], snr_db = [12]\<rparr>"
    "parse_detection owner_loads ''2'' = Inr \<lparr>timestamp_ms = 1001000, delay_km = [20], doppler_hz = [80], snr_db = [12]\<rparr>"
    by (simp_all add: parse_detection_def owner_loads_def sample_detection_def blank_byte_def code_def py_get_def dict_get_def
        read_numbers_def finite_number_def float_of_int_def float_overflow_def)
  have cfg: "read_config owner_loads ''c'' = Inr sample_declaration"
    using declared_read by (simp add: read_config_def owner_loads_def)
  show ?thesis
    by (simp add: probe_blah2_def Blah2.sample_world_def client client_get_def sample_answer_def read_body_def lower_def strip_def
        is_space_def code_def lower_char_def CONFIG_MAX_BYTES_def DETECTION_MAX_BYTES_def cfg det judge_def
        float_overflow_def MAX_CLOCK_OFFSET_S_def owner_probe_def fingerprint_def unreached_def)
qed

lemma owner_config: "\<exists>c. probed_config sample_declaration REGISTRATION_BASE = Inr c"
proof -
  let ?m = "lay_over REGISTRATION_BASE (declared_fields sample_declaration) REGISTRATION_BASE"
  have m: "?m =
    [(''fs_hz'', JFloat (Fin 2000000)), (''cpi_s'', JFloat (Fin (1 / 2))), (''delay_tolerance_us'', JFloat (Fin 2)),
     (''doppler_tolerance_hz'', JFloat (Fin 5)), (''max_range_km'', JFloat (Fin 50)),
     (''beam_width_deg'', JNull), (''beam_azimuth_deg'', JNull), (''tx_callsign'', JNull),
     (''rx_lat'', JFloat (Fin 38)), (''rx_lon'', JFloat (Fin (-77))), (''rx_alt_ft'', JFloat (Fin 900)),
     (''tx_lat'', JFloat (Fin (77 / 2))), (''tx_lon'', JFloat (Fin (-78))), (''tx_alt_ft'', JFloat (Fin 900)),
     (''fc_hz'', JFloat (Fin 98000000))]"
    by (simp add: declared_fields_def sample_declaration_def feet_def FEET_PER_METRE_def REGISTRATION_BASE_def py_get_def
        dict_get_def same_number_def dict_set_def YAGI_MAX_RANGE_KM_def)
  have ok: "dict_ok ?m" by (simp add: dict_ok_def m)
  have "all_representable ?m"
    by (simp add: all_representable_def REQUIRED_def NUMERIC_BOUNDS_def UNTABLED_PROPERTIES_def dict_keys_def
        py_get_def dict_get_def m representable_def)
  moreover have "fields_ok (store_all ?m)"
    by (simp add: fields_ok_def NUMERIC_BOUNDS_def NULLABLE_def in_bounds_def below_bound_def above_bound_def
        width_bounds_def azimuth_bounds_def py_get_def dict_get_def store_all_def m)
  moreover have "set (dict_keys ?m) = set REQUIRED"
    unfolding m by (rule subset_antisym) (simp_all add: REQUIRED_def NUMERIC_BOUNDS_def UNTABLED_PROPERTIES_def dict_keys_def)
  moreover have "paired ?m ''rx_lat'' ''rx_lon''" "paired ?m ''tx_lat'' ''tx_lon''"
    by (simp_all add: paired_def py_get_def dict_get_def m)
  moreover have "\<not> same_point (store_all ?m)"
    by (simp add: same_point_def py_get_def dict_get_def store_all_def m MIN_BASELINE_DEG_def)
  ultimately show ?thesis
    using validate_accepts [OF ok] ok by (auto simp: config_ok_alt probed_config_def)
qed

lemma owner_starts:
  "\<exists>l. probe_admit 50 uid (new_counters 10 True) = (l, None) \<and>
     probe_start owner_sample ''http://radar.example/'' uid replacing owner_state =
       (owner_state\<lparr>probe_limits := l, probes_in_flight := 1\<rparr>, Inr parsed_endpoint)"
proof -
  obtain l r where adm: "probe_admit 50 uid (new_counters 10 True) = (l, r)" by fastforce
  then have "r = None"
    by (auto simp: probe_admit_def admit_def reclaim_if_crowded_def new_counters_def probe_specs_eq dict_len_def
        dict_get_default_def Let_def split: if_splits option.splits)
  then show ?thesis using adm sample_parse
    by (simp add: probe_start_def owner_sample_def owner_state_def parsed_endpoint_def MAX_PROBES_IN_FLIGHT_def key_taken_def
        sample_db_def)
qed


lemma owner_probes:
  "\<exists>rs p. probe_radar owner_loads (\<lambda>_. ''f'') owner_sample ''http://radar.example/'' uid None owner_state =
       (written_state owner_state owner_sample ''http://radar.example/'' uid, rs, Inr p) \<and>
     rs \<noteq> [] \<and> pd_endpoint p = parsed_endpoint \<and> pd_radar p = owner_probe"
proof -
  obtain rs where rs: "probe_blah2 owner_loads (\<lambda>_. ''f'') Blah2.sample_world parsed_endpoint = (rs, Inr owner_probe)"
    "rs \<noteq> []" using owner_probed by blast
  obtain c where c: "probed_config sample_declaration REGISTRATION_BASE = Inr c" using owner_config by blast
  have asks: "probe_asks owner_loads (\<lambda>_. ''f'') owner_sample parsed_endpoint =
      (rs, Inr \<lparr>pd_endpoint = parsed_endpoint, pd_radar = owner_probe, pd_config = c, pd_protected = False\<rparr>)"
    using rs(1) c by (simp add: probe_asks_def owner_sample_def owner_probe_def) (simp add: parsed_endpoint_def)
  obtain l where st: "probe_start owner_sample ''http://radar.example/'' uid None owner_state =
       (owner_state\<lparr>probe_limits := l, probes_in_flight := 1\<rparr>, Inr parsed_endpoint)" using owner_starts by blast
  show ?thesis using rs(2) by (simp add: probe_radar_def st asks written_state_def)
qed

theorem requests_wait_for_refusals_witness:
  "\<exists>s' rs p e. probe_radar owner_loads (\<lambda>_. ''f'') owner_sample ''http://radar.example/'' ''u1'' None owner_state = (s', rs, Inr p) \<and>
     rs \<noteq> [] \<and> parse_endpoint sample_idna id ''http://radar.example/'' = Inr e \<and>
     (\<forall>r \<in> set rs. probe_request (is_public_address []) e r \<or>
        probe_request (is_public_address []) (e\<lparr>auth_user := None, auth_secret := None\<rparr>) r)"
proof -
  let ?w = owner_sample
  have pol: "policy (o_probe ?w) = Inr (is_public_address [])" by (simp add: owner_sample_def Blah2.sample_world_def)
  obtain s1 rs p where run: "probe_radar owner_loads (\<lambda>_. ''f'') ?w ''http://radar.example/'' ''u1'' None owner_state = (s1, rs, Inr p)"
    "rs \<noteq> []" using owner_probes by blast
  have e: "parse_endpoint sample_idna id ''http://radar.example/'' = Inr parsed_endpoint" by (rule sample_parse)
  have lib: "o_idna ?w = sample_idna" "o_unquote ?w = id" by (simp_all add: owner_sample_def)
  show ?thesis using requests_wait_for_refusals [OF pol run(1)] run e unfolding lib by fastforce
qed


lemma sample_written:
  assumes "pd_endpoint p = parsed_endpoint"
  shows "\<exists>d. write_radar owner_sample p ''u1'' ''o@x.org'' ''public'' True ''u1'' sample_db = Inr (d, ''bla00000002'')"
  by (auto simp: write_radar_Inr create_polled_radar_def request_of_def assms parsed_endpoint_def PUBLICATIONS_def encrypt_secret_def
      add_with_minted_id_def MINTED_SYSTEMS_def POLLED_BLAH2_def MINT_ATTEMPTS_def clashes_def sample_db_def empty_claims_def
      insert_row_def first_config_def Let_def dict_keys_def CONFIG_FIELDS_def versions_of_def key_taken_def
      dict_has_def eval_nat_numeral owner_sample_def sample_row_def)

theorem registration_holds_what_was_confirmed_witness:
  "\<exists>s' node r. register_radar owner_loads (\<lambda>_. ''f'') owner_sample ''http://radar.example/'' ''f'' ''public'' ''u1'' ''o@x.org'' owner_state =
       (s', Inr node) \<and> dict_get (radars (reg_db s')) node = Some r \<and> pr_fingerprint r = ''f'' \<and> trust_state r = ''probation''"
proof -
  let ?s = "written_state owner_state owner_sample ''http://radar.example/'' ''u1''"
  obtain rs p where p: "probe_radar owner_loads (\<lambda>_. ''f'') owner_sample ''http://radar.example/'' ''u1'' None owner_state = (?s, rs, Inr p)"
    "pd_endpoint p = parsed_endpoint" "pd_radar p = owner_probe" using owner_probes by blast
  have db: "reg_db ?s = sample_db"
    using owner_starts [of "''u1''" None] by (auto simp: written_state_def probe_end_def) (simp add: owner_sample_def owner_state_def)
  obtain d where d: "write_radar owner_sample p ''u1'' ''o@x.org'' ''public'' True ''u1'' sample_db = Inr (d, ''bla00000002'')"
    using sample_written [OF p(2)] by blast
  have "radars_owned ''u1'' (reg_db owner_state) = 0" by (simp add: radars_owned_def owner_state_def sample_db_def)
  moreover have "p_fingerprint (pd_radar p) = ''f''" by (simp add: p(3) owner_probe_def)
  ultimately have run: "register_radar owner_loads (\<lambda>_. ''f'') owner_sample ''http://radar.example/'' ''f'' ''public'' ''u1'' ''o@x.org''
      owner_state = (?s\<lparr>reg_db := d\<rparr>, Inr ''bla00000002'')"
    by (simp add: register_radar_def p(1) db d MAX_RADARS_PER_ACCOUNT_def)
  from registration_holds_what_was_confirmed [OF run] run show ?thesis by blast
qed

theorem probe_slots_exact_witness:
  "\<exists>s. probing s [parsed_endpoint] \<and> probes_in_flight s = 1"
proof -
  obtain l where st: "probe_start owner_sample ''http://radar.example/'' ''u1'' None owner_state =
       (owner_state\<lparr>probe_limits := l, probes_in_flight := 1\<rparr>, Inr parsed_endpoint)" using owner_starts by blast
  have "probing owner_state []" by (rule probing.Fresh) (simp add: owner_state_def)
  from probing.Started [OF this st] have go: "probing (owner_state\<lparr>probe_limits := l, probes_in_flight := 1\<rparr>) [parsed_endpoint]" .
  show ?thesis using probe_slots_exact [OF go] go by auto
qed

end
