(* ===== verification/TrackGates.thy ===== *)
theory TrackGates
  imports AircraftFeed LocationFuzzing
begin

text \<open>
  The feed entry of one geolocated track (\<open>services/track_gates.py\<close>, with the adapters of
  \<open>services/geo.py\<close> and the rule of \<open>services/calibration.py\<close>): the single-node ambiguity arc and its two
  caches, the speed and fit gates with their bounded hold, dead reckoning, the jump and anomaly flags,
  and the delta that moves an arc track into the public frame.  Numbers are finite; the geodesy and the
  beam's constants are retina-analytics' and handed in.
\<close>

subsection \<open>Beams\<close>

record arc_geodesy =
  ag_enu :: "place \<Rightarrow> place \<Rightarrow> real \<times> real"
  ag_offset :: "place \<Rightarrow> real \<Rightarrow> real \<Rightarrow> place"
  ag_bearing :: "place \<Rightarrow> place \<Rightarrow> real"
  ag_c_km_us :: real
  ag_yagi_width :: real
  ag_yagi_range :: real

record beam =
  b_azimuth :: "real option"
  b_width :: real
  b_range :: real
  b_bistatic :: "real option"

datatype float_error = TypeRaised | ValueRaised | OverflowRaised

text \<open>\<open>float(v)\<close>\<close>

definition py_to_float :: "json \<Rightarrow> float_error + py_float" where
  "py_to_float v =
     (case v of
        JInt n \<Rightarrow> (case float_of_int n of None \<Rightarrow> Inl OverflowRaised | Some x \<Rightarrow> Inr x)
      | JFloat x \<Rightarrow> Inr x
      | JBool b \<Rightarrow> Inr (Fin (if b then 1 else 0))
      | JStr s \<Rightarrow> (case parse_float s of None \<Rightarrow> Inl ValueRaised | Some x \<Rightarrow> Inr x)
      | _ \<Rightarrow> Inl TypeRaised)"

definition finite_or :: "real \<Rightarrow> py_float \<Rightarrow> real" where
  "finite_or d x = (case x of Fin y \<Rightarrow> y | _ \<Rightarrow> d)"

text \<open>\<open>float(cfg.get(k) or d)\<close>, with \<open>d\<close> also for what is not finite; \<open>None\<close> is an exception.\<close>

definition float_or :: "(string, json) dict \<Rightarrow> string \<Rightarrow> real \<Rightarrow> real option" where
  "float_or cfg k d =
     (if truthy (py_get cfg k) then (case py_to_float (py_get cfg k) of Inr x \<Rightarrow> Some (finite_or d x) | Inl _ \<Rightarrow> None) else Some d)"

definition explicit_azimuth :: "json \<Rightarrow> real option option" where
  "explicit_azimuth v =
     (if v = JNull then Some None
      else (case py_to_float v of
              Inr (Fin x) \<Rightarrow> Some (Some x)
            | Inr _ \<Rightarrow> Some None
            | Inl OverflowRaised \<Rightarrow> None
            | Inl _ \<Rightarrow> Some None))"

definition bistatic_limit :: "json \<Rightarrow> real option option" where
  "bistatic_limit v =
     (if v = JNull then Some None
      else (case py_to_float v of Inr (Fin x) \<Rightarrow> Some (Some x) | Inr _ \<Rightarrow> Some None | Inl _ \<Rightarrow> None))"

text \<open>A coordinate in arithmetic: \<open>None\<close> is a \<open>TypeError\<close>.\<close>

definition num_of :: "json \<Rightarrow> real option" where
  "num_of v = (case v of JStr _ \<Rightarrow> None | _ \<Rightarrow> (case py_to_float v of Inr (Fin x) \<Rightarrow> Some x | _ \<Rightarrow> None))"

definition end_of :: "(string, json) dict \<Rightarrow> string \<Rightarrow> string \<Rightarrow> place option" where
  "end_of cfg ky kx =
     (case (num_of (py_get cfg ky), num_of (py_get cfg kx)) of (Some y, Some x) \<Rightarrow> Some (y, x) | _ \<Rightarrow> None)"

definition beam_azimuth :: "arc_geodesy \<Rightarrow> (string, json) dict \<Rightarrow> real option option" where
  "beam_azimuth g cfg =
     (case explicit_azimuth (py_get cfg ''beam_azimuth_deg'') of
        None \<Rightarrow> None
      | Some (Some a) \<Rightarrow> Some (Some a)
      | Some None \<Rightarrow>
          if position_status cfg \<noteq> Positioned then Some None
          else (case (end_of cfg ''rx_lat'' ''rx_lon'', end_of cfg ''tx_lat'' ''tx_lon'') of
                  (Some p, Some q) \<Rightarrow> Some (Some (real_mod (ag_bearing g p q + 90) 360))
                | _ \<Rightarrow> None))"

definition node_beam_params :: "arc_geodesy \<Rightarrow> (string, json) dict \<Rightarrow> beam option" where
  "node_beam_params g cfg =
     (case (beam_azimuth g cfg, float_or cfg ''beam_width_deg'' (ag_yagi_width g), float_or cfg ''max_range_km'' (ag_yagi_range g),
            bistatic_limit (py_get cfg ''max_bistatic_range_km'')) of
        (Some az, Some width, Some reach, Some cap) \<Rightarrow> Some \<lparr>b_azimuth = az, b_width = width, b_range = reach, b_bistatic = cap\<rparr>
      | _ \<Rightarrow> None)"

definition valid_latlon :: "real option \<Rightarrow> real option \<Rightarrow> bool" where
  "valid_latlon lat lon = (case (lat, lon) of (Some y, Some x) \<Rightarrow> y \<noteq> 0 \<or> x \<noteq> 0 | _ \<Rightarrow> False)"

subsection \<open>The ambiguity arc\<close>

definition ARC_MIN_DIFFERENTIAL_KM :: real where "ARC_MIN_DIFFERENTIAL_KM = 3"

definition radians :: "real \<Rightarrow> real" where
  "radians d = d * pi / 180"

definition differential_at :: "real \<times> real \<Rightarrow> real \<Rightarrow> real \<Rightarrow> real" where
  "differential_at tx range_km bearing =
     (let e = sin (radians bearing) * range_km; n = cos (radians bearing) * range_km
      in sqrt ((e - fst tx) ^ 2 + (n - snd tx) ^ 2) + range_km - sqrt (fst tx ^ 2 + snd tx ^ 2))"

fun bisect :: "nat \<Rightarrow> (real \<Rightarrow> real) \<Rightarrow> real \<Rightarrow> real \<times> real \<Rightarrow> real \<times> real" where
  "bisect 0 f goal_km (lo, hi) = (lo, hi)"
| "bisect (Suc k) f goal_km (lo, hi) =
     (let mid = (lo + hi) / 2 in if f mid < goal_km then bisect k f goal_km (mid, hi) else bisect k f goal_km (lo, mid))"

definition arc_bearing :: "beam \<Rightarrow> nat \<Rightarrow> real" where
  "arc_bearing b k =
     (case b_azimuth b of
        Some az \<Rightarrow> if b_width b \<ge> 360 then az - 180 + 360 * (real k / 72) else az - b_width b / 2 + b_width b * (real k / 36)
      | None \<Rightarrow> 0 - 180 + 360 * (real k / 72))"

definition arc_steps :: "beam \<Rightarrow> nat" where
  "arc_steps b = (if b_azimuth b = None \<or> b_width b \<ge> 360 then 72 else 36)"

text \<open>The range along a bearing at which the measured differential is met; none where the search ends below it.\<close>

definition arc_range :: "real \<times> real \<Rightarrow> real \<Rightarrow> real \<Rightarrow> real \<Rightarrow> real option" where
  "arc_range tx goal_km limit bearing =
     (if differential_at tx limit bearing < goal_km then None
      else Some (snd (bisect 32 (\<lambda>r. differential_at tx r bearing) goal_km (0, limit))))"

definition arc_point :: "arc_geodesy \<Rightarrow> place \<Rightarrow> real \<Rightarrow> real \<Rightarrow> place" where
  "arc_point g rx bearing range_km = ag_offset g rx (range_km * sin (radians bearing)) (range_km * cos (radians bearing))"

definition arc_limit :: "beam \<Rightarrow> real \<times> real \<Rightarrow> real \<Rightarrow> real option" where
  "arc_limit b tx goal_km =
     (case b_bistatic b of
        None \<Rightarrow> Some (b_range b)
      | Some m \<Rightarrow> if goal_km > m then None else Some (goal_km / 2 + sqrt (fst tx ^ 2 + snd tx ^ 2)))"

text \<open>\<open>None\<close> is an exception, \<open>Some None\<close> no arc.\<close>

definition build_single_node_arc :: "arc_geodesy \<Rightarrow> real option \<Rightarrow> (string, json) dict \<Rightarrow> place list option option" where
  "build_single_node_arc g delay cfg =
     (case delay of
        None \<Rightarrow> Some None
      | Some us \<Rightarrow>
          if us \<le> 0 \<or> position_status cfg \<noteq> Positioned then Some None
          else
            (case (node_beam_params g cfg, end_of cfg ''rx_lat'' ''rx_lon'', end_of cfg ''tx_lat'' ''tx_lon'') of
               (Some b, Some rx, Some txp) \<Rightarrow>
                 (let tx = ag_enu g rx txp; goal_km = us * ag_c_km_us g
                  in if goal_km < ARC_MIN_DIFFERENTIAL_KM then Some None
                     else (case arc_limit b tx goal_km of
                             None \<Rightarrow> Some None
                           | Some limit \<Rightarrow>
                               (let pts = concat (map (\<lambda>k. case arc_range tx goal_km limit (arc_bearing b k) of
                                              None \<Rightarrow> [] | Some r \<Rightarrow> [arc_point g rx (arc_bearing b k) r]) [0..<arc_steps b + 1])
                                in if length pts < 2 then Some None else Some (Some pts))))
             | _ \<Rightarrow> None))"

text \<open>A cache keeps an arc under aircraft and node with the delay, to a nanosecond, it was built from.\<close>

type_synonym arc_cache = "(string \<times> json, real option \<times> place list option) dict"

definition delay_print :: "real option \<Rightarrow> real option" where
  "delay_print d = map_option (round_to 3) d"

definition cached_arc ::
    "(real option \<Rightarrow> place list option option) \<Rightarrow> string \<times> json \<Rightarrow> real option \<Rightarrow> arc_cache \<Rightarrow> (arc_cache \<times> place list option) option" where
  "cached_arc build key delay cache =
     (case dict_get cache key of
        Some (fp, arc) \<Rightarrow>
          if fp = delay_print delay then Some (cache, arc)
          else map_option (\<lambda>a. (dict_set cache key (delay_print delay, a), a)) (build delay)
      | None \<Rightarrow> map_option (\<lambda>a. (dict_set cache key (delay_print delay, a), a)) (build delay))"

subsection \<open>A track and the stores it is drawn from\<close>

record geo_track =
  g_place :: place
  g_alt_ft :: real
  g_speed :: real
  g_angle :: real
  g_wall_ts :: real
  g_fix_ts :: real
  g_delay :: "real option"
  g_doppler :: real
  g_rms_delay :: real
  g_rms_doppler :: real
  g_vel :: "real \<times> real"
  g_detections :: int
  g_adsb_hex :: "string option"
  g_tag :: "string option"
  g_tag_ts :: real
  g_anomalous :: bool
  g_anomaly_types :: "string list"
  g_max_vel :: real
  g_class :: "string option"

text \<open>A transponder's record: a field that is missing is \<open>None\<close>, a value \<open>_num\<close> cannot read is \<open>Some None\<close>.\<close>

record adsb_rec =
  x_lat :: "real option"
  x_lon :: "real option"
  x_alt :: "real option option"
  x_gs :: "real option option"
  x_track :: "real option option"
  x_seen_ms :: real
  x_recv_ms :: real

text \<open>An external report; \<open>None\<close> in a number is a value that \<open>float\<close> refuses.\<close>

record external_rec =
  e_lat :: "real option"
  e_lon :: "real option"
  e_seen_ms :: real
  e_alt_m :: "real option"
  e_velocity :: "real option"
  e_heading :: "real option"

record gate_stores =
  k_adsb :: "(string, adsb_rec) dict"
  k_external :: "(string, external_rec) dict"
  k_hold :: "(string, real \<times> place) dict"
  k_last :: "(string, place \<times> real) dict"
  k_motion :: "(string, motion_log) dict"
  k_trails :: trails
  k_arcs :: arc_cache
  k_public_arcs :: arc_cache
  k_truths :: "(string, trail) dict"
  k_meta_anomalous :: "string list"
  k_anomalies :: "string list"
  k_accuracy :: "(string \<times> real \<times> string \<times> real) list"
  k_calibration :: "(string \<times> place \<times> real) list"
  k_jumps :: nat

record gate_world =
  w_arc :: arc_geodesy
  w_geo :: geodesy
  w_enu :: "place \<Rightarrow> place \<Rightarrow> real \<times> real"
  w_fuzz :: fuzz_world
  w_known_off :: bool
  w_external_max_age :: real

record track_feed =
  t_hex :: string
  t_truth :: "string option"
  t_alt :: "int option"
  t_gs :: real
  t_track :: real
  t_place :: place
  t_seen :: real
  t_source :: string
  t_arc :: "place list option"
  t_solver :: place
  t_node :: json
  t_trail :: trail
  t_anomalous :: bool
  t_anomaly_types :: "string list"
  t_jump :: bool
  t_flight :: string
  t_messages :: int
  t_rms :: "real \<times> real"
  t_measured :: "real \<times> real"
  t_class :: "string option"
  t_max_vel :: real

definition GATE_MAX_HOLD_S :: real where "GATE_MAX_HOLD_S = 10"
definition DISPLAY_STALE_TRACK_S :: real where "DISPLAY_STALE_TRACK_S = 15"
definition CAL_DETECTION_FRESH_S :: real where "CAL_DETECTION_FRESH_S = 5"
definition CAL_MAX_ADSB_AGE_S :: real where "CAL_MAX_ADSB_AGE_S = 10"
definition CAL_FIX_DETECTION_SKEW_S :: real where "CAL_FIX_DETECTION_SKEW_S = 2"

definition ARC_ONLY_ANOMALY_ALLOWLIST :: "string list" where
  "ARC_ONLY_ANOMALY_ALLOWLIST = [''supersonic'', ''instant_acceleration'', ''anomalous_acceleration'']"

subsection \<open>A fresh report\<close>

text \<open>The feed's own record within a minute, else an external one of usable age, put in its form.\<close>

definition external_as_adsb :: "external_rec \<Rightarrow> adsb_rec" where
  "external_as_adsb e =
     (let (alt, gs, hdg) = (case (e_alt_m e, e_velocity e, e_heading e) of
            (Some a, Some v, Some h) \<Rightarrow> (a / (3048 / 10000), v * (194384 / 100000), h)
          | _ \<Rightarrow> (0, 0, 0))
      in \<lparr>x_lat = e_lat e, x_lon = e_lon e, x_alt = Some (Some (of_int (round_half_even alt))), x_gs = Some (Some (round_to 1 gs)),
          x_track = Some (Some (round_to 1 hdg)), x_seen_ms = of_int (if e_seen_ms e < 0 then \<lceil>e_seen_ms e\<rceil> else \<lfloor>e_seen_ms e\<rfloor>), x_recv_ms = 0\<rparr>)"

definition fresh_adsb :: "gate_world \<Rightarrow> gate_stores \<Rightarrow> string \<Rightarrow> real \<Rightarrow> adsb_rec option" where
  "fresh_adsb w s hex now =
     (let own = (case dict_get (k_adsb s) hex of Some x \<Rightarrow> if now - x_seen_ms x / 1000 \<le> 60 then Some x else None | None \<Rightarrow> None)
      in case own of
           Some x \<Rightarrow> Some x
         | None \<Rightarrow>
             (case dict_get (k_external s) hex of
                Some e \<Rightarrow>
                  if valid_latlon (e_lat e) (e_lon e) \<and> e_seen_ms e \<noteq> 0 \<and> \<bar>now - e_seen_ms e / 1000\<bar> \<le> w_external_max_age w
                  then Some (external_as_adsb e) else None
              | None \<Rightarrow> None))"

definition positioned_adsb :: "adsb_rec option \<Rightarrow> place option" where
  "positioned_adsb x = (case x of Some r \<Rightarrow> (case (x_lat r, x_lon r) of (Some y, Some z) \<Rightarrow> if y \<noteq> 0 \<and> z \<noteq> 0 then Some (y, z) else None | _ \<Rightarrow> None) | None \<Rightarrow> None)"

text \<open>\<open>_num(adsb.get(k, track_value))\<close>\<close>

definition reported :: "(adsb_rec \<Rightarrow> real option option) \<Rightarrow> adsb_rec option \<Rightarrow> real \<Rightarrow> real" where
  "reported field_of x d =
     (case x of None \<Rightarrow> d | Some r \<Rightarrow> (case field_of r of None \<Rightarrow> d | Some None \<Rightarrow> 0 | Some (Some v) \<Rightarrow> v))"

subsection \<open>The gates and their hold\<close>

definition hold_expired :: "real \<Rightarrow> (real \<times> place) option \<Rightarrow> bool" where
  "hold_expired now h = (case h of None \<Rightarrow> False | Some (t, _) \<Rightarrow> now - t > GATE_MAX_HOLD_S)"

definition speed_gate :: "geodesy \<Rightarrow> real \<Rightarrow> place \<Rightarrow> (place \<times> real) option \<Rightarrow> bool" where
  "speed_gate g now pos prev =
     (case prev of
        None \<Rightarrow> False
      | Some (p, t) \<Rightarrow> 0 < now - t \<and> now - t < 60 \<and> haversine g pos p * 1000 / (now - t) > 800)"

definition rms_gate :: "real \<Rightarrow> (place \<times> real) option \<Rightarrow> bool" where
  "rms_gate rms prev \<longleftrightarrow> rms > 7 \<and> prev \<noteq> None"

text \<open>\<open>offset_latlon_m\<close> over the velocity, rounded; less than half a second, or no velocity, moves nothing.\<close>

definition reckon :: "geodesy \<Rightarrow> place \<Rightarrow> real \<times> real \<Rightarrow> real \<Rightarrow> place" where
  "reckon g pos vel dt =
     (if dt > 1 / 2 \<and> vel \<noteq> (0, 0)
      then (let p = offset g pos (fst vel * dt) (snd vel * dt) in (round_to 6 (fst p), round_to 6 (snd p))) else pos)"

text \<open>Where an arc track is put, the hold it leaves, and whether its arc is still drawn.\<close>

definition gated ::
    "geodesy \<Rightarrow> real \<Rightarrow> geo_track \<Rightarrow> place \<Rightarrow> (place \<times> real) option \<Rightarrow> (real \<times> place) option \<Rightarrow> place \<times> (real \<times> place) option \<times> bool" where
  "gated g now tr mid prev hold =
     (let expired = hold_expired now hold;
          fast = speed_gate g now mid prev;
          pos1 = (if fast \<and> \<not> expired then (case prev of Some (p, _) \<Rightarrow> p | None \<Rightarrow> mid) else mid);
          bad = rms_gate (g_rms_delay tr) prev;
          pos2 = (if bad \<and> \<not> expired then (case prev of Some (p, _) \<Rightarrow> p | None \<Rightarrow> pos1) else pos1)
      in if (fast \<or> bad) \<and> \<not> expired then
           (let h = (case hold of None \<Rightarrow> (now, pos2) | Some h \<Rightarrow> h)
            in (reckon g (snd h) (g_vel tr) (min (now - fst h) GATE_MAX_HOLD_S), Some h, \<not> bad))
         else (pos2, None, True))"

definition position_jump :: "geodesy \<Rightarrow> real \<Rightarrow> place \<Rightarrow> (place \<times> real) option \<Rightarrow> bool" where
  "position_jump g now pos prev =
     (case prev of
        None \<Rightarrow> False
      | Some (p, t) \<Rightarrow>
          (let d = haversine g pos p * 1000 in 0 < now - t \<and> now - t < 120 \<and> d / (now - t) > 1029 \<or> d > 30000))"

subsection \<open>Calibration\<close>

definition record_adsb_calibration ::
    "string list \<Rightarrow> real option \<Rightarrow> real option \<Rightarrow> real \<Rightarrow> real \<Rightarrow> real \<Rightarrow> (string \<times> place \<times> real) list \<Rightarrow> (string \<times> place \<times> real) list \<times> nat" where
  "record_adsb_calibration nids lat lon age fix_ts det_ts log0 =
     (if \<not> valid_latlon lat lon \<or> age > CAL_MAX_ADSB_AGE_S \<or> \<bar>fix_ts - det_ts\<bar> > CAL_FIX_DETECTION_SKEW_S then (log0, 0)
      else (let pts = map (\<lambda>n. (n, (the lat, the lon), det_ts)) (filter (\<lambda>n. n \<noteq> []) nids) in (log0 @ pts, length pts)))"

definition record_claim_calibration ::
    "string \<Rightarrow> real option \<Rightarrow> real option \<Rightarrow> real \<Rightarrow> real \<Rightarrow> (string \<times> place \<times> real) list \<Rightarrow> (string \<times> place \<times> real) list \<times> bool" where
  "record_claim_calibration nid lat lon age det_ts log0 =
     (if nid = [] \<or> \<not> valid_latlon lat lon \<or> age > CAL_MAX_ADSB_AGE_S then (log0, False)
      else (log0 @ [(nid, (the lat, the lon), det_ts)], True))"

definition detection_fresh :: "real \<Rightarrow> string \<Rightarrow> geo_track \<Rightarrow> bool" where
  "detection_fresh now hex tr \<longleftrightarrow> now - g_tag_ts tr \<le> CAL_DETECTION_FRESH_S \<and> g_detections tr \<ge> 3 \<and>
     (case g_tag tr of None \<Rightarrow> False | Some t \<Rightarrow> lower (strip t) = lower (strip hex))"

definition calibrate :: "gate_world \<Rightarrow> real \<Rightarrow> string \<Rightarrow> geo_track \<Rightarrow> json \<Rightarrow> adsb_rec \<Rightarrow> gate_stores \<Rightarrow> gate_stores" where
  "calibrate w now hex tr node x s =
     (case node of
        JStr nid \<Rightarrow>
          if nid \<noteq> [] \<and> detection_fresh now hex tr \<and> w_known_off w
          then s\<lparr>k_calibration := fst (record_adsb_calibration [nid] (x_lat x) (x_lon x) (now - x_seen_ms x / 1000)
                   ((if x_recv_ms x \<noteq> 0 then x_recv_ms x else x_seen_ms x) / 1000) (g_tag_ts tr) (k_calibration s))\<rparr>
          else s
      | _ \<Rightarrow> s)"

subsection \<open>The entry of one track\<close>

definition ACCURACY_MAX_SAMPLES :: nat where "ACCURACY_MAX_SAMPLES = 5000"

definition sources_arc :: string where "sources_arc = ''single_node_ellipse_arc''"

definition emit_source :: "bool \<Rightarrow> bool \<Rightarrow> string" where
  "emit_source has_adsb has_arc = (if has_arc then sources_arc else if has_adsb then ''solver_adsb_seed'' else ''solver_single_node'')"

definition midpoint :: "place list \<Rightarrow> place" where
  "midpoint arc = (let p = arc ! (length arc div 2) in (round_to 6 (fst p), round_to 6 (snd p)))"

text \<open>An arc whose delay is measured and wide enough, yet which could not be built, hides the track.\<close>

definition arc_refused :: "gate_world \<Rightarrow> real option \<Rightarrow> bool" where
  "arc_refused w delay =
     (case delay of None \<Rightarrow> False | Some d \<Rightarrow> d > 0 \<and> d * ag_c_km_us (w_arc w) \<ge> ARC_MIN_DIFFERENTIAL_KM)"

definition fix_time :: "geo_track \<Rightarrow> real" where
  "fix_time tr = (if g_fix_ts tr \<noteq> 0 then g_fix_ts tr else g_wall_ts tr)"

text \<open>Where the track is put: the gates on its arc's midpoint, or dead reckoning from its solve.\<close>

definition place_track ::
    "gate_world \<Rightarrow> real \<Rightarrow> string \<Rightarrow> geo_track \<Rightarrow> place list option \<Rightarrow> gate_stores \<Rightarrow> gate_stores \<times> place \<times> bool" where
  "place_track w now hex tr arc s =
     (case arc of
        Some pts \<Rightarrow>
          (case gated (w_geo w) now tr (midpoint pts) (dict_get (k_last s) hex) (dict_get (k_hold s) hex) of
             (pos, hold, drawn) \<Rightarrow>
               (s\<lparr>k_hold := (case hold of Some h \<Rightarrow> dict_set (k_hold s) hex h | None \<Rightarrow> dict_del (k_hold s) hex),
                  k_motion := record_arc_motion (w_geo w) hex (midpoint pts) now (k_motion s)\<rparr>, pos, drawn))
      | None \<Rightarrow>
          (s, reckon (w_geo w) (round_to 6 (fst (g_place tr)), round_to 6 (snd (g_place tr))) (g_vel tr) (min (now - fix_time tr) 60), False))"

definition public_arc ::
    "gate_world \<Rightarrow> (string, json) dict \<Rightarrow> string \<Rightarrow> real option \<Rightarrow> place list option \<Rightarrow> bool \<Rightarrow> arc_cache \<Rightarrow> (arc_cache \<times> place list option) option" where
  "public_arc w cfg hex delay arc drawn cache =
     (if arc = None \<or> \<not> drawn then Some (cache, None)
      else if \<not> fw_on (w_fuzz w) then Some (cache, arc)
      else cached_arc (\<lambda>d. case fuzz_node_cfg (w_fuzz w) (Some cfg) of
                            Some (Some pub) \<Rightarrow> build_single_node_arc (w_arc w) d pub | _ \<Rightarrow> None)
             (hex, py_get cfg ''node_id'') delay cache)"

definition name_of :: "json \<Rightarrow> string" where
  "name_of v = (case v of JStr s \<Rightarrow> s | _ \<Rightarrow> [])"

definition public_delta :: "gate_world \<Rightarrow> json \<Rightarrow> place list option \<Rightarrow> place list option \<Rightarrow> place \<Rightarrow> real \<times> real" where
  "public_delta w node arc parc pos =
     (case arc of
        None \<Rightarrow> (0, 0)
      | Some pts \<Rightarrow>
          if \<not> fw_on (w_fuzz w) then (0, 0)
          else (case parc of
                  Some pp \<Rightarrow>
                    (let m = pp ! (length pp div 2) in (fst m - fst (midpoint pts), snd m - snd (midpoint pts)))
                | None \<Rightarrow> public_delta_deg (w_fuzz w) (fst pos) (name_of node)))"

definition shifted :: "real \<times> real \<Rightarrow> place \<Rightarrow> place" where
  "shifted d p = (if d \<noteq> (0, 0) then (round_to 6 (fst p + fst d), round_to 6 (snd p + snd d)) else p)"

definition entry_anomalies :: "geo_track \<Rightarrow> bool \<Rightarrow> bool \<Rightarrow> bool \<times> string list" where
  "entry_anomalies tr is_arc has_adsb =
     (if is_arc \<and> \<not> has_adsb
      then (let ts = filter (\<lambda>t. t \<in> set ARC_ONLY_ANOMALY_ALLOWLIST) (g_anomaly_types tr) in (ts \<noteq> [], ts))
      else (g_anomalous tr \<or> g_anomaly_types tr \<noteq> [], g_anomaly_types tr))"

definition flag_hex :: "string \<Rightarrow> bool \<Rightarrow> gate_stores \<Rightarrow> gate_stores" where
  "flag_hex hex anom s =
     (if anom then s\<lparr>k_anomalies := List.insert hex (k_anomalies s)\<rparr>
      else if hex \<notin> set (k_meta_anomalous s) then s\<lparr>k_anomalies := removeAll hex (k_anomalies s)\<rparr> else s)"

definition place_served :: "string \<Rightarrow> place \<Rightarrow> real \<Rightarrow> real \<Rightarrow> real \<times> real \<Rightarrow> arc_cache \<Rightarrow> gate_stores \<Rightarrow> gate_stores" where
  "place_served hex pos alt now d pcache s =
     s\<lparr>k_public_arcs := pcache,
       k_trails := append_track_history hex pos alt now (Some (fst pos + fst d, snd pos + snd d)) (k_trails s),
       k_last := dict_set (k_last s) hex (pos, now)\<rparr>"

definition solver_place :: "geo_track \<Rightarrow> place" where
  "solver_place tr = (round_to 6 (fst (g_place tr)), round_to 6 (snd (g_place tr)))"

text \<open>What a fresh report with a position is used for.\<close>

definition score_track :: "gate_world \<Rightarrow> real \<Rightarrow> string \<Rightarrow> geo_track \<Rightarrow> json \<Rightarrow> adsb_rec option \<Rightarrow> string \<Rightarrow> gate_stores \<Rightarrow> gate_stores" where
  "score_track w now hex tr node x src s =
     (case (positioned_adsb x, x) of
        (Some p, Some r) \<Rightarrow>
          (calibrate w now hex tr node r s)\<lparr>k_accuracy := TrackIdentity.newest ACCURACY_MAX_SAMPLES
             (k_accuracy s @ [(hex, round_to 4 (haversine (w_geo w) (solver_place tr) p), src, round_to 1 now)])\<rparr>
      | _ \<Rightarrow> s)"

definition count_jump :: "bool \<Rightarrow> gate_stores \<Rightarrow> gate_stores" where
  "count_jump jump s = (if jump then s\<lparr>k_jumps := k_jumps s + 1\<rparr> else s)"

text \<open>Speed and heading, from the arc's motion where the solve has next to none and no report stands in.\<close>

definition entry_velocity :: "gate_world \<Rightarrow> real \<Rightarrow> string \<Rightarrow> geo_track \<Rightarrow> adsb_rec option \<Rightarrow> place \<Rightarrow> gate_stores \<Rightarrow> real \<times> real" where
  "entry_velocity w now hex tr x pos s =
     (let gs = round_to 1 (reported x_gs x (g_speed tr)); hdg = round_to 1 (reported x_track x (g_angle tr))
      in case (if gs < 10 \<and> positioned_adsb x = None then estimate_velocity_from_motion (w_enu w) hex pos now (k_motion s) else None) of
           Some v \<Rightarrow> v | None \<Rightarrow> (gs, hdg))"

definition emit_track ::
    "gate_world \<Rightarrow> (string, json) dict \<Rightarrow> real \<Rightarrow> string \<Rightarrow> geo_track \<Rightarrow> place list option \<Rightarrow> gate_stores \<Rightarrow> (gate_stores \<times> track_feed) option" where
  "emit_track w cfg now hex tr arc s =
     (let x = fresh_adsb w s hex now;
          node = py_get cfg ''node_id'';
          src = emit_source (positioned_adsb x \<noteq> None) (arc \<noteq> None);
          alt = reported x_alt x (g_alt_ft tr);
          (s1, pos, drawn) = place_track w now hex tr arc s;
          jump = position_jump (w_geo w) now pos (dict_get (k_last s1) hex)
      in map_option (\<lambda>(pcache, parc).
           (let d = public_delta w node arc parc pos;
                s2 = place_served hex pos alt now d pcache s1;
                vel = entry_velocity w now hex tr x pos s2;
                flags = entry_anomalies tr (arc \<noteq> None) (positioned_adsb x \<noteq> None);
                s3 = flag_hex hex (fst flags) (count_jump jump (score_track w now hex tr node x src s2))
            in (s3,
                \<lparr>t_hex = hex,
                 t_truth = resolve_ground_truth_hex (w_geo w) (k_truths s3) (Some hex) pos 8,
                 t_alt = (if x \<noteq> None \<or> (case g_adsb_hex tr of Some h \<Rightarrow> h \<noteq> [] | None \<Rightarrow> False) then Some (round_half_even alt) else None),
                 t_gs = fst vel, t_track = snd vel,
                 t_place = shifted d pos,
                 t_seen = round_to 1 (if g_wall_ts tr \<noteq> 0 then now - g_wall_ts tr else 0),
                 t_source = src, t_arc = parc, t_solver = shifted d (solver_place tr), t_node = node,
                 t_trail = dict_get_default (snd (k_trails s3)) hex [],
                 t_anomalous = fst flags, t_anomaly_types = sort (snd flags), t_jump = jump,
                 t_flight = (case g_adsb_hex tr of Some h \<Rightarrow> strip h | None \<Rightarrow> []), t_messages = g_detections tr,
                 t_rms = (round_to 3 (g_rms_delay tr), round_to 2 (g_rms_doppler tr)),
                 t_measured = (case g_delay tr of Some d \<Rightarrow> round_to 3 d | None \<Rightarrow> 0, round_to 2 (g_doppler tr)),
                 t_class = g_class tr, t_max_vel = round_to 1 (g_max_vel tr)\<rparr>)))
           (public_arc w cfg hex (g_delay tr) arc drawn (k_public_arcs s1)))"

text \<open>
  \<open>None\<close> is an exception; an inner \<open>None\<close> is a track that is not drawn.  The keys of the arc caches
  touched are returned with it.
\<close>

definition track_entry ::
    "gate_world \<Rightarrow> (string, json) dict \<Rightarrow> real \<Rightarrow> string \<Rightarrow> geo_track \<Rightarrow> (string \<times> json) list \<Rightarrow> gate_stores \<Rightarrow>
     ((string \<times> json) list \<times> gate_stores \<times> track_feed option) option" where
  "track_entry w cfg now hex tr touched s =
     (if g_wall_ts tr \<noteq> 0 \<and> now - g_wall_ts tr > DISPLAY_STALE_TRACK_S then Some (touched, s, None)
      else
        (let touched' = List.insert (hex, py_get cfg ''node_id'') touched
         in case cached_arc (\<lambda>d. build_single_node_arc (w_arc w) d cfg) (hex, py_get cfg ''node_id'') (g_delay tr) (k_arcs s) of
              None \<Rightarrow> None
            | Some (cache, arc) \<Rightarrow>
                (let s1 = s\<lparr>k_arcs := cache\<rparr>
                 in if arc = None \<and> arc_refused w (g_delay tr) then Some (touched', s1, None)
                    else map_option (\<lambda>(s2, e). (touched', s2, Some e)) (emit_track w cfg now hex tr arc s1))))"

subsection \<open>The arc meets the measurement\<close>

lemma leg_lipschitz:
  fixes e n r s x y :: real
  assumes "e ^ 2 + n ^ 2 = 1"
  shows "sqrt ((e * r - x) ^ 2 + (n * r - y) ^ 2) \<le> sqrt ((e * s - x) ^ 2 + (n * s - y) ^ 2) + \<bar>r - s\<bar>"
proof -
  have "(e * (r - s)) ^ 2 + (n * (r - s)) ^ 2 = (r - s) ^ 2 * (e ^ 2 + n ^ 2)"
    by (simp add: power2_eq_square algebra_simps)
  then have unit: "sqrt ((e * (r - s)) ^ 2 + (n * (r - s)) ^ 2) = \<bar>r - s\<bar>" using assms by simp
  have "sqrt ((e * s - x + e * (r - s)) ^ 2 + (n * s - y + n * (r - s)) ^ 2)
      \<le> sqrt ((e * s - x) ^ 2 + (n * s - y) ^ 2) + sqrt ((e * (r - s)) ^ 2 + (n * (r - s)) ^ 2)"
    by (rule real_sqrt_sum_squares_triangle_ineq)
  then show ?thesis unfolding unit by (simp add: algebra_simps)
qed

lemma differential_lipschitz: "differential_at tx r b \<le> differential_at tx s b + 2 * \<bar>r - s\<bar>"
  using leg_lipschitz [of "sin (radians b)" "cos (radians b)" r "fst tx" "snd tx" s] abs_ge_self [of "r - s"]
  by (simp add: differential_at_def Let_def)

lemma differential_zero: "differential_at tx 0 b = 0"
  by (simp add: differential_at_def)

lemma differential_negative: "r \<le> 0 \<Longrightarrow> differential_at tx r b \<le> 0"
  using leg_lipschitz [of "sin (radians b)" "cos (radians b)" r "fst tx" "snd tx" 0] by (simp add: differential_at_def Let_def)

lemma bisect_bracket:
  assumes "f lo < goal" "goal \<le> f hi" "lo \<le> hi" "bisect k f goal (lo, hi) = (lo', hi')"
  shows "f lo' < goal \<and> goal \<le> f hi' \<and> lo \<le> lo' \<and> lo' \<le> hi' \<and> hi' \<le> hi \<and> hi' - lo' = (hi - lo) / 2 ^ k"
  using assms
proof (induction k arbitrary: lo hi)
  case (Suc k)
  let ?mid = "(lo + hi) / 2"
  show ?case
  proof (cases "f ?mid < goal")
    case True
    then have "bisect k f goal (?mid, hi) = (lo', hi')" using Suc.prems(4) by (simp add: Let_def)
    from Suc.IH [OF True Suc.prems(2) _ this] Suc.prems(3) show ?thesis by (auto simp: field_simps)
  next
    case False
    then have "bisect k f goal (lo, ?mid) = (lo', hi')" using Suc.prems(4) by (simp add: Let_def)
    from Suc.IH [OF Suc.prems(1) _ _ this] False Suc.prems(3) show ?thesis by (auto simp: field_simps)
  qed
qed simp

lemma arc_range_meets:
  assumes "arc_range tx goal limit b = Some r" "0 < goal"
  shows "0 \<le> r" "r \<le> limit" "goal \<le> differential_at tx r b" "differential_at tx r b \<le> goal + limit / 2 ^ 31"
proof -
  let ?f = "\<lambda>r. differential_at tx r b"
  have reach: "goal \<le> ?f limit" using assms(1) by (simp add: arc_range_def split: if_splits)
  then have lim: "0 < limit" using differential_negative [of limit tx b] assms(2) by force
  obtain lo hi where lh: "bisect 32 ?f goal (0, limit) = (lo, hi)" by fastforce
  then have r: "r = hi" using assms(1) by (simp add: arc_range_def split: if_splits)
  have br: "?f lo < goal \<and> goal \<le> ?f hi \<and> 0 \<le> lo \<and> lo \<le> hi \<and> hi \<le> limit \<and> hi - lo = (limit - 0) / 2 ^ 32"
    using bisect_bracket [of ?f 0 goal limit 32 lo hi] lh reach lim assms(2) by (simp add: differential_zero)
  then show "0 \<le> r" "r \<le> limit" "goal \<le> ?f r" by (auto simp: r)
  have "?f hi \<le> ?f lo + 2 * \<bar>hi - lo\<bar>" by (rule differential_lipschitz)
  then show "?f r \<le> goal + limit / 2 ^ 31" using br by (auto simp: r)
qed

lemma arc_cases:
  assumes "build_single_node_arc g delay cfg = Some (Some pts)"
  obtains us b rx txp limit where "delay = Some us" "position_status cfg = Positioned" "node_beam_params g cfg = Some b"
    "end_of cfg ''rx_lat'' ''rx_lon'' = Some rx" "end_of cfg ''tx_lat'' ''tx_lon'' = Some txp" "3 \<le> us * ag_c_km_us g"
    "arc_limit b (ag_enu g rx txp) (us * ag_c_km_us g) = Some limit" "length pts \<ge> 2"
    "pts = concat (map (\<lambda>k. case arc_range (ag_enu g rx txp) (us * ag_c_km_us g) limit (arc_bearing b k) of
        None \<Rightarrow> [] | Some r \<Rightarrow> [arc_point g rx (arc_bearing b k) r]) [0..<arc_steps b + 1])"
proof -
  obtain us where us: "delay = Some us" using assms by (cases delay) (simp_all add: build_single_node_arc_def)
  have ok: "us > 0" "position_status cfg = Positioned" using assms us by (auto simp: build_single_node_arc_def split: if_splits)
  obtain b where b: "node_beam_params g cfg = Some b"
    using assms us ok by (cases "node_beam_params g cfg") (simp_all add: build_single_node_arc_def)
  obtain rx where rx: "end_of cfg ''rx_lat'' ''rx_lon'' = Some rx"
    using assms us ok b by (cases "end_of cfg ''rx_lat'' ''rx_lon''") (simp_all add: build_single_node_arc_def)
  obtain txp where txp: "end_of cfg ''tx_lat'' ''tx_lon'' = Some txp"
    using assms us ok b rx by (cases "end_of cfg ''tx_lat'' ''tx_lon''") (simp_all add: build_single_node_arc_def)
  let ?tx = "ag_enu g rx txp" and ?goal = "us * ag_c_km_us g"
  have wide: "3 \<le> ?goal" using assms us ok b rx txp by (simp add: build_single_node_arc_def Let_def ARC_MIN_DIFFERENTIAL_KM_def split: if_splits)
  obtain limit where limit: "arc_limit b ?tx ?goal = Some limit"
    using assms us ok b rx txp wide by (cases "arc_limit b ?tx ?goal") (simp_all add: build_single_node_arc_def Let_def ARC_MIN_DIFFERENTIAL_KM_def)
  let ?pts = "concat (map (\<lambda>k. case arc_range ?tx ?goal limit (arc_bearing b k) of
        None \<Rightarrow> [] | Some r \<Rightarrow> [arc_point g rx (arc_bearing b k) r]) [0..<arc_steps b + 1])"
  have "(if length ?pts < 2 then Some None else Some (Some ?pts)) = Some (Some pts)"
    using assms unfolding build_single_node_arc_def us option.case ARC_MIN_DIFFERENTIAL_KM_def b rx txp prod.case Let_def limit
    using ok wide by (simp del: upt_Suc)
  then show ?thesis using that [OF us ok(2) b rx txp wide limit] by (simp del: upt_Suc split: if_splits)
qed

text \<open>C29: Every point of an ambiguity arc is where the delay was measured: it lies on a bearing of the node's beam, within the search
  limit, and the differential range at it exceeds the measured one by at most the limit over 2 to the power 31, a tenth of a
  millimetre at two hundred kilometres.\<close>

theorem arc_points_meet_the_delay:
  assumes "build_single_node_arc g (Some us) cfg = Some (Some pts)" and "p \<in> set pts"
  shows "\<exists>b rx txp limit k r. node_beam_params g cfg = Some b \<and> end_of cfg ''rx_lat'' ''rx_lon'' = Some rx \<and>
    end_of cfg ''tx_lat'' ''tx_lon'' = Some txp \<and> arc_limit b (ag_enu g rx txp) (us * ag_c_km_us g) = Some limit \<and>
    k \<le> arc_steps b \<and> p = arc_point g rx (arc_bearing b k) r \<and> 0 \<le> r \<and> r \<le> limit \<and>
    us * ag_c_km_us g \<le> differential_at (ag_enu g rx txp) r (arc_bearing b k) \<and>
    differential_at (ag_enu g rx txp) r (arc_bearing b k) \<le> us * ag_c_km_us g + limit / 2 ^ 31"
proof (cases rule: arc_cases [OF assms(1)])
  case (1 us' b rx txp limit)
  then have us: "us' = us" by simp
  from assms(2) obtain k where k: "k \<le> arc_steps b"
    "p \<in> set (case arc_range (ag_enu g rx txp) (us * ag_c_km_us g) limit (arc_bearing b k) of None \<Rightarrow> [] | Some r \<Rightarrow> [arc_point g rx (arc_bearing b k) r])"
    unfolding 1(9) us set_concat set_map by (auto simp only: UN_iff image_iff set_upt atLeastLessThan_iff less_Suc_eq_le Suc_eq_plus1 [symmetric])
  then obtain r where r: "arc_range (ag_enu g rx txp) (us * ag_c_km_us g) limit (arc_bearing b k) = Some r" "p = arc_point g rx (arc_bearing b k) r"
    using k(2) by (cases "arc_range (ag_enu g rx txp) (us * ag_c_km_us g) limit (arc_bearing b k)") auto
  have "0 < us * ag_c_km_us g" using 1(6) by (simp add: us)
  from arc_range_meets [OF r(1) this] show ?thesis using 1 k(1) r(2) unfolding us by blast
qed

subsection \<open>The hold\<close>

lemma gated_cases:
  assumes "gated g now tr mid prev hold = (pos, hold', drawn)"
  obtains (measured) "hold' = None" "pos = mid" "drawn"
  | (coasting) t p where "hold' = Some (t, p)" "pos = reckon g p (g_vel tr) (min (now - t) GATE_MAX_HOLD_S)" "now - t \<le> GATE_MAX_HOLD_S"
      "hold = None \<and> t = now \<or> hold = Some (t, p)" "prev \<noteq> None"
proof (cases "(speed_gate g now mid prev \<or> rms_gate (g_rms_delay tr) prev) \<and> \<not> hold_expired now hold")
  case True
  then have "prev \<noteq> None" by (auto simp: speed_gate_def rms_gate_def split: option.splits)
  show ?thesis
  proof (cases hold)
    case None
    then show ?thesis using coasting [of "fst (the hold')" "snd (the hold')"] assms True \<open>prev \<noteq> None\<close>
      by (auto simp: gated_def Let_def GATE_MAX_HOLD_S_def)
  next
    case (Some h)
    then show ?thesis using coasting [of "fst h" "snd h"] assms True \<open>prev \<noteq> None\<close>
      by (cases h) (auto simp: gated_def Let_def hold_expired_def)
  qed
next
  case False
  then show ?thesis using measured assms by (auto simp: gated_def Let_def)
qed

lemma entry_cases:
  assumes "track_entry w cfg now hex tr touched s = Some (touched', s', Some e)"
  obtains cache arc where "cached_arc (\<lambda>d. build_single_node_arc (w_arc w) d cfg) (hex, py_get cfg ''node_id'') (g_delay tr) (k_arcs s) = Some (cache, arc)"
    "emit_track w cfg now hex tr arc (s\<lparr>k_arcs := cache\<rparr>) = Some (s', e)"
proof -
  have live: "\<not> (g_wall_ts tr \<noteq> 0 \<and> now - g_wall_ts tr > DISPLAY_STALE_TRACK_S)"
    using assms by (auto simp: track_entry_def split: if_splits)
  obtain cache arc where c: "cached_arc (\<lambda>d. build_single_node_arc (w_arc w) d cfg) (hex, py_get cfg ''node_id'') (g_delay tr) (k_arcs s) = Some (cache, arc)"
    using assms live by (cases "cached_arc (\<lambda>d. build_single_node_arc (w_arc w) d cfg) (hex, py_get cfg ''node_id'') (g_delay tr) (k_arcs s)")
      (auto simp: track_entry_def Let_def)
  then have "map_option (\<lambda>(s2, e). (List.insert (hex, py_get cfg ''node_id'') touched, s2, Some e)) (emit_track w cfg now hex tr arc (s\<lparr>k_arcs := cache\<rparr>))
      = Some (touched', s', Some e)"
    using assms live by (auto simp: track_entry_def Let_def split: if_splits)
  then show ?thesis using that [OF c] by (auto split: prod.splits)
qed

text \<open>What an emitted entry leaves in the stores and takes from the placing.\<close>

lemma score_keeps:
  "k_last (score_track w now hex tr node x src s) = k_last s" "k_hold (score_track w now hex tr node x src s) = k_hold s"
  "k_anomalies (score_track w now hex tr node x src s) = k_anomalies s"
  "k_meta_anomalous (score_track w now hex tr node x src s) = k_meta_anomalous s"
  "k_arcs (score_track w now hex tr node x src s) = k_arcs s"
  by (auto simp: score_track_def calibrate_def split: option.split json.split)

lemma flag_keeps:
  "k_last (flag_hex hex a s) = k_last s" "k_hold (flag_hex hex a s) = k_hold s" "k_arcs (flag_hex hex a s) = k_arcs s"
  "hex \<in> set (k_anomalies (flag_hex hex a s)) \<longleftrightarrow> a \<or> hex \<in> set (k_anomalies s) \<and> hex \<in> set (k_meta_anomalous s)"
  by (auto simp: flag_hex_def)

lemma count_keeps:
  "k_last (count_jump j s) = k_last s" "k_hold (count_jump j s) = k_hold s" "k_anomalies (count_jump j s) = k_anomalies s"
  "k_meta_anomalous (count_jump j s) = k_meta_anomalous s" "k_arcs (count_jump j s) = k_arcs s"
  by (simp_all add: count_jump_def)

lemma served_keeps:
  "k_last (place_served hex pos alt now d pc s) = dict_set (k_last s) hex (pos, now)" "k_hold (place_served hex pos alt now d pc s) = k_hold s"
  "k_anomalies (place_served hex pos alt now d pc s) = k_anomalies s" "k_meta_anomalous (place_served hex pos alt now d pc s) = k_meta_anomalous s"
  "k_arcs (place_served hex pos alt now d pc s) = k_arcs s"
  by (simp_all add: place_served_def)

lemmas store_keeps = score_keeps flag_keeps count_keeps served_keeps

lemma emit_cases:
  assumes "emit_track w cfg now hex tr arc s = Some (s', e)" and "place_track w now hex tr arc s = (s1, pos, drawn)"
  obtains pcache parc where "public_arc w cfg hex (g_delay tr) arc drawn (k_public_arcs s1) = Some (pcache, parc)"
    "dict_get (k_last s') hex = Some (pos, now)" "k_hold s' = k_hold s1" "k_arcs s' = k_arcs s1" "t_arc e = parc"
    "t_place e = shifted (public_delta w (py_get cfg ''node_id'') arc parc pos) pos"
    "t_source e = emit_source (positioned_adsb (fresh_adsb w s hex now) \<noteq> None) (arc \<noteq> None)"
    "t_anomalous e = fst (entry_anomalies tr (arc \<noteq> None) (positioned_adsb (fresh_adsb w s hex now) \<noteq> None))"
    "t_anomaly_types e = sort (snd (entry_anomalies tr (arc \<noteq> None) (positioned_adsb (fresh_adsb w s hex now) \<noteq> None)))"
    "hex \<in> set (k_anomalies s') \<longleftrightarrow> t_anomalous e \<or> hex \<in> set (k_anomalies s1) \<and> hex \<in> set (k_meta_anomalous s1)"
proof -
  obtain pcache parc where p: "public_arc w cfg hex (g_delay tr) arc drawn (k_public_arcs s1) = Some (pcache, parc)"
    using assms by (cases "public_arc w cfg hex (g_delay tr) arc drawn (k_public_arcs s1)") (auto simp: emit_track_def Let_def)
  have out: "(s', e) = the (emit_track w cfg now hex tr arc s)" using assms(1) by simp
  note out = out [unfolded emit_track_def Let_def assms(2) prod.case p option.map option.sel]
  show ?thesis
    by (rule that [OF p]) (use out in \<open>simp_all add: store_keeps\<close>)
qed

lemma fresh_same: "fresh_adsb w (s\<lparr>k_arcs := cache\<rparr>) hex now = fresh_adsb w s hex now"
  by (cases s) (simp only: fresh_adsb_def gate_stores.simps)

lemma cached_arc_get: "cached_arc build key delay cache = Some (cache', arc) \<Longrightarrow> dict_get cache' key = Some (delay_print delay, arc)"
  by (auto simp: cached_arc_def split: option.splits if_splits)

lemma arc_source: "emit_source has_adsb has_arc = sources_arc \<longleftrightarrow> has_arc"
  by (simp add: emit_source_def sources_arc_def)

lemma place_arc:
  assumes "place_track w now hex tr (Some pts) s = (s1, pos, drawn)"
  obtains hold where "gated (w_geo w) now tr (midpoint pts) (dict_get (k_last s) hex) (dict_get (k_hold s) hex) = (pos, hold, drawn)"
    "dict_get (k_hold s1) hex = hold" "k_arcs s1 = k_arcs s" "k_anomalies s1 = k_anomalies s" "k_meta_anomalous s1 = k_meta_anomalous s"
proof -
  obtain pos' hold drawn' where g: "gated (w_geo w) now tr (midpoint pts) (dict_get (k_last s) hex) (dict_get (k_hold s) hex) = (pos', hold, drawn')"
    by (metis prod_cases3)
  show ?thesis
    by (rule that [of hold]) (use assms g in \<open>auto simp: place_track_def split: option.split\<close>)
qed

lemma arc_entry_cases:
  assumes "track_entry w cfg now hex tr touched s = Some (touched', s', Some e)" and "t_source e = sources_arc"
  obtains cache pts s1 pos drawn where
    "dict_get cache (hex, py_get cfg ''node_id'') = Some (delay_print (g_delay tr), Some pts)"
    "place_track w now hex tr (Some pts) (s\<lparr>k_arcs := cache\<rparr>) = (s1, pos, drawn)"
    "emit_track w cfg now hex tr (Some pts) (s\<lparr>k_arcs := cache\<rparr>) = Some (s', e)"
proof (cases rule: entry_cases [OF assms(1)])
  case (1 cache arc)
  obtain s1 pos drawn where pl: "place_track w now hex tr arc (s\<lparr>k_arcs := cache\<rparr>) = (s1, pos, drawn)" by (metis prod_cases3)
  have "arc \<noteq> None"
  proof (cases rule: emit_cases [OF 1(2) pl])
    case (1 pcache parc)
    from trans [OF sym [OF 1(7)] assms(2)] show ?thesis unfolding arc_source .
  qed
  then obtain pts where pts: "arc = Some pts" by blast
  show ?thesis using that [of cache pts s1 pos drawn] cached_arc_get [OF 1(1)] 1(2) pl by (simp add: pts)
qed

text \<open>C31: An arc track is either where it was measured or coasting on a hold that is at most ten seconds old: when the entry leaves no hold,
  the position emitted is the midpoint of the arc of this delay; when it leaves one, that hold is new or the one there was, and the
  position is reckoned once from its anchor, never from an earlier coasted position.\<close>

theorem arc_tracks_are_measured_or_coasting:
  assumes "track_entry w cfg now hex tr touched s = Some (touched', s', Some e)" and "t_source e = sources_arc"
  shows "\<exists>pts. dict_get (k_arcs s') (hex, py_get cfg ''node_id'') = Some (delay_print (g_delay tr), Some pts) \<and>
    (case dict_get (k_hold s') hex of
       None \<Rightarrow> dict_get (k_last s') hex = Some (midpoint pts, now)
     | Some (t, p) \<Rightarrow> now - t \<le> 10 \<and> dict_get (k_last s') hex = Some (reckon (w_geo w) p (g_vel tr) (min (now - t) 10), now) \<and>
         (dict_get (k_hold s) hex = None \<and> t = now \<or> dict_get (k_hold s) hex = Some (t, p)))"
proof (cases rule: arc_entry_cases [OF assms])
  case (1 cache pts s1 pos drawn)
  obtain hold where h: "gated (w_geo w) now tr (midpoint pts) (dict_get (k_last s) hex) (dict_get (k_hold s) hex) = (pos, hold, drawn)"
    "dict_get (k_hold s1) hex = hold" "k_arcs s1 = cache" by (rule place_arc [OF 1(2)]) simp
  have s': "dict_get (k_last s') hex = Some (pos, now)" "k_hold s' = k_hold s1" "k_arcs s' = k_arcs s1"
    by (rule emit_cases [OF 1(3,2)], assumption)+
  have arcs: "dict_get (k_arcs s') (hex, py_get cfg ''node_id'') = Some (delay_print (g_delay tr), Some pts)" using 1(1) h(3) s'(3) by simp
  show ?thesis
  proof (cases rule: gated_cases [OF h(1)])
    case measured: 1
    then show ?thesis using arcs s' h(2) by (intro exI [of _ pts]) simp
  next
    case coasting: (2 t p)
    then show ?thesis using arcs s' h(2) by (intro exI [of _ pts]) (simp add: GATE_MAX_HOLD_S_def)
  qed
qed

text \<open>What the gates do with a run of frames: the hold each leaves.\<close>

fun gate_run :: "geodesy \<Rightarrow> (real \<times> geo_track \<times> place) list \<Rightarrow> (place \<times> real) option \<times> (real \<times> place) option \<Rightarrow> (real \<times> (real \<times> place) option) list" where
  "gate_run g [] st = []"
| "gate_run g ((now, tr, mid) # fs) (prev, hold) =
     (case gated g now tr mid prev hold of (pos, h, _) \<Rightarrow> (now, h) # gate_run g fs (Some (pos, now), h))"

lemma gate_run_held:
  "list_all (\<lambda>(_, h). h \<noteq> None) (gate_run g fs (prev, Some (t, p))) \<Longrightarrow> list_all (\<lambda>(now, _). now - t \<le> GATE_MAX_HOLD_S) (gate_run g fs (prev, Some (t, p)))"
proof (induction fs arbitrary: prev)
  case (Cons f fs)
  obtain now tr mid where f: "f = (now, tr, mid)" by (metis prod_cases3)
  obtain pos h drawn where gd: "gated g now tr mid prev (Some (t, p)) = (pos, h, drawn)" by (metis prod_cases3)
  have h: "h = Some (t, p) \<and> now - t \<le> GATE_MAX_HOLD_S"
    using Cons.prems by (cases rule: gated_cases [OF gd]) (auto simp: f gd)
  have "list_all (\<lambda>(_, h). h \<noteq> None) (gate_run g fs (Some (pos, now), Some (t, p)))" using Cons.prems h by (simp add: f gd)
  from Cons.IH [OF this] show ?case using h by (simp add: f gd)
qed simp

text \<open>C30: The gates cannot latch: in a run of arc frames that starts without a hold, if every frame up to some point is held, that point is
  no more than ten seconds after the first.\<close>

theorem gates_cannot_latch:
  assumes "list_all (\<lambda>(_, h). h \<noteq> None) (gate_run g ((start, tr, mid) # fs) (prev, None))"
  shows "list_all (\<lambda>(now, _). now - start \<le> 10) (gate_run g ((start, tr, mid) # fs) (prev, None))"
proof -
  obtain pos h drawn where gd: "gated g start tr mid prev None = (pos, h, drawn)" by (metis prod_cases3)
  have "h \<noteq> None" using assms by (simp add: gd)
  then obtain t p where h: "h = Some (t, p)" by force
  have t: "t = start" using h by (cases rule: gated_cases [OF gd]) auto
  have "list_all (\<lambda>(_, h). h \<noteq> None) (gate_run g fs (Some (pos, start), Some (t, p)))" using assms by (simp add: gd h)
  from gate_run_held [OF this] show ?thesis by (simp add: gd h t GATE_MAX_HOLD_S_def)
qed

text \<open>A track known only by its arc, with no fresh report, is flagged for nothing but the loud signals a single delay can support, and an
  aircraft is on the list of anomalies after its entry exactly when the entry says so or the ground truth's own flag keeps it there.\<close>

theorem arc_only_anomalies_are_loud:
  assumes "track_entry w cfg now hex tr touched s = Some (touched', s', Some e)" and "t_source e = sources_arc"
    and "positioned_adsb (fresh_adsb w s hex now) = None"
  shows "set (t_anomaly_types e) \<subseteq> {''supersonic'', ''instant_acceleration'', ''anomalous_acceleration''} \<and>
    (t_anomalous e \<longleftrightarrow> t_anomaly_types e \<noteq> []) \<and>
    (hex \<in> set (k_anomalies s') \<longleftrightarrow> t_anomalous e \<or> hex \<in> set (k_anomalies s) \<and> hex \<in> set (k_meta_anomalous s))"
proof (cases rule: arc_entry_cases [OF assms(1,2)])
  case (1 cache pts s1 pos drawn)
  have s1: "k_anomalies s1 = k_anomalies s" "k_meta_anomalous s1 = k_meta_anomalous s"
    by (rule place_arc [OF 1(2)], simp)+
  have no: "positioned_adsb (fresh_adsb w (s\<lparr>k_arcs := cache\<rparr>) hex now) = None" using assms(3) by (simp only: fresh_same)
  have e: "t_anomalous e = fst (entry_anomalies tr True False)" "t_anomaly_types e = sort (snd (entry_anomalies tr True False))"
    "hex \<in> set (k_anomalies s') \<longleftrightarrow> t_anomalous e \<or> hex \<in> set (k_anomalies s1) \<and> hex \<in> set (k_meta_anomalous s1)"
    by (rule emit_cases [OF 1(3,2)], simp add: no)+
  have empty: "sort xs = [] \<longleftrightarrow> xs = []" for xs :: "string list" by (metis length_0_conv length_sort)
  show ?thesis unfolding e(3) s1 e(1,2) by (auto simp: entry_anomalies_def Let_def ARC_ONLY_ANOMALY_ALLOWLIST_def empty)
qed

lemma round_half_even_int: "round_half_even (of_int k) = k"
  by (simp add: round_half_even_def Let_def)

lemma round_to_again: "round_to k (round_to k x) = round_to k x"
  by (simp add: round_to_def round_half_even_int)


subsection \<open>Instances\<close>

text \<open>A node at the origin with its transmitter 30 kilometres east, on a plane; one microsecond is 0.3 kilometres.\<close>

definition sample_arc_geodesy :: arc_geodesy where
  "sample_arc_geodesy = \<lparr>ag_enu = (\<lambda>p q. ((snd q - snd p) * 100, (fst q - fst p) * 100)), ag_offset = (\<lambda>p e n. (fst p + n / 100, snd p + e / 100)),
     ag_bearing = (\<lambda>p q. 90), ag_c_km_us = 3 / 10, ag_yagi_width = 42, ag_yagi_range = 50\<rparr>"

definition sample_arc_node :: "(string, json) dict" where
  "sample_arc_node = [(''node_id'', JStr ''n1''), (''rx_lat'', JFloat (Fin 0)), (''rx_lon'', JFloat (Fin 0)), (''tx_lat'', JFloat (Fin 0)),
     (''tx_lon'', JFloat (Fin (3 / 10))), (''beam_azimuth_deg'', JFloat (Fin 180)),
     (''max_bistatic_range_km'', JFloat (Fin 100))]"

definition sample_gates :: gate_world where
  "sample_gates = \<lparr>w_arc = sample_arc_geodesy, w_geo = flat_earth, w_enu = (\<lambda>p q. (0, 0)), w_fuzz = sample_fuzz (1 / 2) no_sites,
     w_known_off = True, w_external_max_age = 600\<rparr>"

definition sample_track :: geo_track where
  "sample_track = \<lparr>g_place = (0, 0), g_alt_ft = 0, g_speed = 100, g_angle = 0, g_wall_ts = 100, g_fix_ts = 100, g_delay = Some 100, g_doppler = 0,
     g_rms_delay = 0, g_rms_doppler = 0, g_vel = (0, 0), g_detections = 3, g_adsb_hex = None, g_tag = None, g_tag_ts = 0, g_anomalous = False,
     g_anomaly_types = [], g_max_vel = 0, g_class = None\<rparr>"

text \<open>With a declared bistatic limit the search always reaches: every bearing of the beam has its point.\<close>

lemma differential_reaches: "goal \<le> differential_at tx (goal / 2 + sqrt (fst tx ^ 2 + snd tx ^ 2)) b"
proof -
  let ?t = "sqrt (fst tx ^ 2 + snd tx ^ 2)" and ?e = "sin (radians b)" and ?n = "cos (radians b)"
  let ?r = "goal / 2 + ?t"
  have scaled: "(e * r) ^ 2 + (n * r) ^ 2 = r ^ 2 * (e ^ 2 + n ^ 2)" for e n r :: real by (simp add: power2_eq_square algebra_simps)
  from scaled [of ?e ?r ?n] have "sqrt ((?e * ?r) ^ 2 + (?n * ?r) ^ 2) = \<bar>?r\<bar>" by simp
  moreover have "sqrt ((?e * ?r - fst tx + fst tx) ^ 2 + (?n * ?r - snd tx + snd tx) ^ 2) \<le> sqrt ((?e * ?r - fst tx) ^ 2 + (?n * ?r - snd tx) ^ 2) + ?t"
    by (rule real_sqrt_sum_squares_triangle_ineq)
  ultimately have "\<bar>?r\<bar> \<le> sqrt ((?e * ?r - fst tx) ^ 2 + (?n * ?r - snd tx) ^ 2) + ?t" by simp
  then show ?thesis using abs_ge_self [of ?r] by (simp add: differential_at_def Let_def)
qed

lemma arc_range_reaches: "\<exists>r. arc_range tx goal (goal / 2 + sqrt (fst tx ^ 2 + snd tx ^ 2)) b = Some r"
  using differential_reaches [of goal tx b] by (simp add: arc_range_def not_less)

lemma sample_beam: "node_beam_params sample_arc_geodesy sample_arc_node = Some \<lparr>b_azimuth = Some 180, b_width = 42, b_range = 50, b_bistatic = Some 100\<rparr>"
  by (simp add: node_beam_params_def beam_azimuth_def explicit_azimuth_def py_to_float_def float_or_def bistatic_limit_def sample_arc_node_def
      sample_arc_geodesy_def py_get_def dict_get_def)

lemma sample_ends:
  "end_of sample_arc_node ''rx_lat'' ''rx_lon'' = Some (0, 0)" "end_of sample_arc_node ''tx_lat'' ''tx_lon'' = Some (0, 3 / 10)"
  "position_status sample_arc_node = Positioned"
  by (simp_all add: end_of_def num_of_def py_to_float_def sample_arc_node_def py_get_def dict_get_def position_status_def Let_def)

lemma sample_arc: "\<exists>pts. build_single_node_arc sample_arc_geodesy (Some 100) sample_arc_node = Some (Some pts) \<and> pts \<noteq> []"
proof -
  have tx: "ag_enu sample_arc_geodesy (0, 0) (0, 3 / 10) = (30, 0)" "ag_c_km_us sample_arc_geodesy = 3 / 10" by (simp_all add: sample_arc_geodesy_def)
  let ?b = "\<lparr>b_azimuth = Some 180, b_width = 42, b_range = 50, b_bistatic = Some 100\<rparr> :: beam" and ?tx = "(30, 0) :: real \<times> real"
  have limit: "arc_limit ?b ?tx 30 = Some (30 / 2 + sqrt (fst ?tx ^ 2 + snd ?tx ^ 2))" by (simp add: arc_limit_def)
  obtain f where f: "arc_range ?tx 30 (30 / 2 + sqrt (fst ?tx ^ 2 + snd ?tx ^ 2)) b = Some (f b)" for b
    using arc_range_reaches [where tx = ?tx and goal = 30] by metis
  have "length (concat (map (\<lambda>k. [arc_point sample_arc_geodesy (0, 0) (arc_bearing ?b k) (f (arc_bearing ?b k))]) [0..<arc_steps ?b + 1])) = 37"
    by (simp add: length_concat comp_def arc_steps_def sum_list_triv del: upt_Suc)
  then show ?thesis
    unfolding build_single_node_arc_def option.case sample_beam sample_ends prod.case tx Let_def
    using limit f by (simp add: ARC_MIN_DIFFERENTIAL_KM_def del: upt_Suc)
qed

lemma arc_points_meet_the_delay_witness:
  "\<exists>pts p b rx txp limit k r. build_single_node_arc sample_arc_geodesy (Some 100) sample_arc_node = Some (Some pts) \<and> p \<in> set pts \<and>
    node_beam_params sample_arc_geodesy sample_arc_node = Some b \<and> end_of sample_arc_node ''rx_lat'' ''rx_lon'' = Some rx \<and>
    end_of sample_arc_node ''tx_lat'' ''tx_lon'' = Some txp \<and>
    p = arc_point sample_arc_geodesy rx (arc_bearing b k) r \<and> r \<le> limit \<and>
    differential_at (ag_enu sample_arc_geodesy rx txp) r (arc_bearing b k) \<le> 100 * ag_c_km_us sample_arc_geodesy + limit / 2 ^ 31"
proof -
  obtain pts where pts: "build_single_node_arc sample_arc_geodesy (Some 100) sample_arc_node = Some (Some pts)" "pts \<noteq> []" using sample_arc by blast
  then have "hd pts \<in> set pts" by simp
  from arc_points_meet_the_delay [OF pts(1) this] pts(1) this show ?thesis by blast
qed

definition sample_gate_stores :: gate_stores where
  "sample_gate_stores = \<lparr>k_adsb = [], k_external = [], k_hold = [], k_last = [], k_motion = [], k_trails = ([], []),
     k_arcs = [((''a1'', JStr ''n1''), (delay_print (Some 100), Some [(0, 0), (1, 1)]))],
     k_public_arcs = [((''a1'', JStr ''n1''), (delay_print (Some 100), Some [(0, 0), (1, 2)]))],
     k_truths = [], k_meta_anomalous = [], k_anomalies = [], k_accuracy = [], k_calibration = [], k_jumps = 0\<rparr>"

lemma sample_entry:
  "\<exists>t s e. track_entry sample_gates sample_arc_node 101 ''a1'' sample_track [] sample_gate_stores = Some (t, s, Some e) \<and> t_source e = sources_arc \<and>
     t_arc e = Some [(0, 0), (1, 2)] \<and> dict_get (k_hold s) ''a1'' = None \<and>
     positioned_adsb (fresh_adsb sample_gates sample_gate_stores ''a1'' 101) = None"
proof -
  have node: "py_get sample_arc_node ''node_id'' = JStr ''n1''" by (simp add: sample_arc_node_def py_get_def dict_get_def)
  have cached: "cached_arc build (''a1'', JStr ''n1'') (g_delay sample_track) (k_arcs sample_gate_stores) = Some (k_arcs sample_gate_stores, Some [(0, 0), (1, 1)])"
    "cached_arc build (''a1'', JStr ''n1'') (g_delay sample_track) (k_public_arcs sample_gate_stores) = Some (k_public_arcs sample_gate_stores, Some [(0, 0), (1, 2)])" for build
    by (simp_all add: cached_arc_def sample_gate_stores_def sample_track_def dict_get_def)
  let ?s = "sample_gate_stores\<lparr>k_arcs := k_arcs sample_gate_stores\<rparr>"
  have s: "?s = sample_gate_stores" by simp
  have fresh: "fresh_adsb sample_gates sample_gate_stores ''a1'' 101 = None"
    by (simp add: fresh_adsb_def sample_gate_stores_def dict_get_def)
  obtain s1 pos where pl: "place_track sample_gates 101 ''a1'' sample_track (Some [(0, 0), (1, 1)]) sample_gate_stores = (s1, pos, True)"
    "dict_get (k_hold s1) ''a1'' = None" "k_public_arcs s1 = k_public_arcs sample_gate_stores"
    by (simp add: place_track_def gated_def sample_gate_stores_def dict_get_def dict_del_def Let_def speed_gate_def rms_gate_def hold_expired_def)
  have parc: "public_arc sample_gates sample_arc_node ''a1'' (g_delay sample_track) (Some [(0, 0), (1, 1)]) True (k_public_arcs s1)
      = Some (k_public_arcs sample_gate_stores, Some [(0, 0), (1, 2)])"
    unfolding pl(3) public_arc_def node cached by (simp add: sample_gates_def sample_fields)
  obtain s' e where e: "emit_track sample_gates sample_arc_node 101 ''a1'' sample_track (Some [(0, 0), (1, 1)]) sample_gate_stores = Some (s', e)"
    by (simp add: emit_track_def Let_def pl(1) parc)
  have "t_source e = sources_arc \<and> t_arc e = Some [(0, 0), (1, 2)] \<and> dict_get (k_hold s') ''a1'' = None"
  proof (cases rule: emit_cases [OF e pl(1)])
    case (1 pcache parc')
    then show ?thesis using parc pl(2) by (simp add: arc_source)
  qed
  moreover have "track_entry sample_gates sample_arc_node 101 ''a1'' sample_track [] sample_gate_stores = Some (List.insert (''a1'', JStr ''n1'') [], s', Some e)"
    unfolding track_entry_def node cached Let_def option.case prod.case s e by (simp add: sample_track_def DISPLAY_STALE_TRACK_S_def)
  ultimately show ?thesis using fresh by (simp add: positioned_adsb_def)
qed

lemma arc_tracks_are_measured_or_coasting_witness:
  "\<exists>t s e pts. track_entry sample_gates sample_arc_node 101 ''a1'' sample_track [] sample_gate_stores = Some (t, s, Some e) \<and>
     dict_get (k_arcs s) (''a1'', JStr ''n1'') = Some (delay_print (g_delay sample_track), Some pts) \<and> dict_get (k_last s) ''a1'' = Some (midpoint pts, 101)"
proof -
  have node: "py_get sample_arc_node ''node_id'' = JStr ''n1''" by (simp add: sample_arc_node_def py_get_def dict_get_def)
  obtain t s e where e: "track_entry sample_gates sample_arc_node 101 ''a1'' sample_track [] sample_gate_stores = Some (t, s, Some e)" "t_source e = sources_arc"
    "dict_get (k_hold s) ''a1'' = None" using sample_entry by blast
  show ?thesis using arc_tracks_are_measured_or_coasting [OF e(1,2)] e by (auto simp: node)
qed

lemma arc_only_anomalies_are_loud_witness:
  "\<exists>t s e. track_entry sample_gates sample_arc_node 101 ''a1'' sample_track [] sample_gate_stores = Some (t, s, Some e) \<and>
     set (t_anomaly_types e) \<subseteq> {''supersonic'', ''instant_acceleration'', ''anomalous_acceleration''} \<and>
     (''a1'' \<in> set (k_anomalies s) \<longleftrightarrow> t_anomalous e \<or> ''a1'' \<in> set (k_anomalies sample_gate_stores) \<and> ''a1'' \<in> set (k_meta_anomalous sample_gate_stores))"
proof -
  obtain t s e where e: "track_entry sample_gates sample_arc_node 101 ''a1'' sample_track [] sample_gate_stores = Some (t, s, Some e)" "t_source e = sources_arc"
    "positioned_adsb (fresh_adsb sample_gates sample_gate_stores ''a1'' 101) = None" using sample_entry by blast
  show ?thesis using arc_only_anomalies_are_loud [OF e] e(1) by blast
qed


lemma gates_cannot_latch_witness:
  "list_all (\<lambda>(now, _). now - 100 \<le> 10) (gate_run flat_earth [(100, sample_track\<lparr>g_rms_delay := 8\<rparr>, (0, 0))] (Some ((1, 1), 99), None))"
  by (rule gates_cannot_latch) (simp add: gated_def Let_def rms_gate_def sample_track_def hold_expired_def)

end
