(* ===== verification/Spec2Isabelle.thy ===== *)
theory Spec2Isabelle
  imports Prelude PyValues RateLimits FrameQueue NodeConfig ConfigStore Alerting OwnerAddress Claims IpAddress Endpoint Blah2 PolledRadars WireFrame NodeTracks NodePipeline DetectionMirror NodeStream AircraftFeed Covariance DarkFollow LocationFuzzing NodeRefs NodeSites PolledRegistration Poller Publication TimedCache TrackFilter TrackGates TrackIdentity
begin

text \<open>
  The RETINA backend (\<open>src/backend\<close>, Python) turns what passive-radar receivers send into aircraft
  on a map.  This library models its own logic: who may speak for a node and at what rate, how a
  frame reaches a worker, what a node's configuration is, how radars that are polled are registered
  and read, what is published of them, and how the solves of dark aircraft are filtered, keyed,
  followed, aged and collapsed into one entry each.

  The parts and how they interact.  A node registers and is configured (NodeConfig, ConfigStore), is
  claimed by an owner through emailed links (OwnerAddress, Claims) and sends frames under a bearer
  token and rate limits (RateLimits, NodeStream, WireFrame).  An accepted frame goes to the sharded
  queue (FrameQueue) and, unclaimed, through the detection mirror (DetectionMirror); the registries it
  touches are NodePipeline's and the worker files the node's own tracks in NodeTracks.  Radars without an
  agent are probed (Endpoint over IpAddress, Blah2), written as rows (PolledRadars), registered and
  withdrawn (PolledRegistration) and polled by one task each, which files frames the same way
  (Poller).  A probation fence, a publication policy and a map of published handles stand between the
  stores and every reader; all three are one kind of cache (TimedCache).  Publication withholds
  private nodes, NodeRefs replaces ids by handles, and LocationFuzzing displaces receivers by site
  (NodeSites).  A solve of several nodes gets its key, absorbs
  superseded keys and is published (TrackIdentity), its position passing a Kalman filter
  (TrackFilter over Covariance); keys without a transponder are offered to the trackers again
  (DarkFollow).  The feed collapses what describes one aircraft and keeps trails, and everything ages
  out (AircraftFeed).  Alerting watches the nodes and posts to a webhook.

  Theories and code.  Paths are under \<open>src/backend\<close>.
  \<^item> Prelude: dictionaries as association lists in insertion order, the result type of operations that
    raise, the contract \<open>keyed_store\<close> and its instance.
  \<^item> PyValues: the values \<open>json\<close> yields, floats that may be infinite or not a number, \<open>str\<close> methods.
  \<^item> RateLimits: \<open>services/node_rate_limits.py\<close>, \<open>services/node_refusals.py\<close>.  Counters of a window with eviction, the limiters of
    registration, claims, probes and tokens.  \<open>window_limited\<close> states what a fixed window admits; each
    limiter is an instance.
  \<^item> FrameQueue: \<open>core/frame_queue.py\<close> and the workers of \<open>services/tasks/frame_loop.py\<close>.  Shards by CRC-32 of the node id
    (32-bit words), the lanes contract \<open>lanes\<close>, workers as an inductive step relation.
  \<^item> NodeConfig, ConfigStore: \<open>services/node_config.py\<close> with its JSON Schema, \<open>services/node_config_store.py\<close>.
  \<^item> OwnerAddress, Claims: \<open>services/node_contact.py\<close>, \<open>services/node_claim.py\<close>; \<open>core/auth.py\<close>,
    \<open>services/claim_links.py\<close>, \<open>services/node_claim_store.py\<close>, \<open>services/node_claiming.py\<close>, \<open>routes/node_claim.py\<close>.
  \<^item> Alerting: \<open>services/alerting.py\<close> and \<open>services/tasks/health_monitor.py\<close>, deliveries as a step relation.
  \<^item> IpAddress, Endpoint, Blah2: the standard library's \<open>ipaddress\<close>, \<open>services/polled_endpoint.py\<close>,
    \<open>services/blah2_probe.py\<close>.
  \<^item> PolledRadars, PolledRegistration, Poller: \<open>services/polled_radars.py\<close>, \<open>services/graduation.py\<close>,
    \<open>services/probation.py\<close>, \<open>core/node_ids.py\<close>; \<open>services/polled_registration.py\<close>; \<open>services/blah2_poller.py\<close>.
  \<^item> WireFrame, NodeTracks, NodePipeline, DetectionMirror, NodeStream: \<open>routes/node_schemas.py\<close>,
    \<open>services/node_tracks.py\<close>, \<open>services/node_pipeline.py\<close> and \<open>services/node_registration.py\<close>,
    \<open>services/detection_mirror.py\<close>, \<open>services/node_auth.py\<close>, \<open>services/node_report_store.py\<close>
    and \<open>routes/node_stream.py\<close>.
  \<^item> TimedCache, Publication, NodeRefs: the cache contract, \<open>services/publication.py\<close>, \<open>services/node_refs.py\<close>
    and the payloads of \<open>services/tasks/aircraft_flush.py\<close>.
  \<^item> NodeSites, LocationFuzzing: \<open>services/node_sites.py\<close>; \<open>services/public_location.py\<close>,
    \<open>services/public_geometry.py\<close> and the \<open>node_fuzz_\<close> settings of \<open>config/constants.py\<close>.
  \<^item> TrackGates: \<open>services/track_gates.py\<close>, \<open>services/calibration.py\<close>, \<open>services/geo.py\<close>.
  \<^item> Covariance, TrackFilter: numpy's small matrices and \<open>services/track_filter.py\<close>.
  \<^item> DarkFollow: \<open>services/dark_follow.py\<close>.
  \<^item> TrackIdentity: \<open>services/tasks/multinode_identity.py\<close>, the publishing step of
    \<open>services/tasks/solver.py\<close>, \<open>prune_multinode_tracks\<close> and \<open>adopt_track_history\<close>.
  \<^item> AircraftFeed: \<open>services/feed_helpers.py\<close>, \<open>prune_stale_stores\<close> of \<open>services/feed_gc.py\<close>.

  What the lemmas show.
  \<^item> Order and isolation: a node's frames are worked one at a time and in the order they came; the
    backlog stays within its budget; a frame is filed whole, under its own node.
  \<^item> Limits and their exactness: what a window admits at most, what a refusal costs, which mailbox can
    be reached how often.
  \<^item> Equivalence: the validator accepts what the published schema accepts; the views over the tracks
    are the unclaimed hits; the pruning passes are filters.
  \<^item> Privacy: what a feed may name, fail-closed caches, handles that resolve back to the node they were
    given for.
  \<^item> Ownership: a link is spent once, and a node changes hands only by its link.
  \<^item> Filter and identity: noise and answers within their ceilings, late solves hold the position, keys
    near their solve, no key followed by another lane stolen, nothing lost when keys are absorbed, and no
    store left behind by a key that is gone.  Covariance proves that the gain used minimises the
    posterior error, for any linear gain, and that the Joseph form preserves positivity.
  \<^item> The feed: the collapse of duplicates credits every node it had and leaves each aircraft an entry;
    the served trail stays in step with the true one.
  \<^item> Places: receivers of one site are published as one point, within the uncertainty declared with it;
    the sites depend on neither order nor who is online; a served summary or record carries no
    measurement from the true receiver.
  \<^item> Arcs and gates: an arc meets the measured delay, a held track coasts from one anchor for at most ten
    seconds, and a track is served on the crossing of the arc served with it.

  Conventions.  A record stands for a class or row, a datatype for an enumeration or a sum of
  exceptions; an operation that raises returns a sum or an option, and one that changes state returns
  the new state.  Clocks, random draws, hashes, encryption, name resolution, what a request is
  answered, and the geodesy and bistatic geometry of the retina libraries (git submodules, not part of the
  repository) are arguments.  A float that is stored or compared is an exact real (times,
  distances, velocities), except where JSON supplies it and infinities matter (PyValues); rounding to
  decimals is written out and rounds halves to even.  Claims about rates and order hold of exact
  arithmetic.  Machine words appear where the code masks them (the CRC).  Counters for dashboards,
  log lines and messages are left out.  A step that holds a lock, or runs between two awaits, is one
  step of the model; where the code gives up the lock, the model has a step there, and the step
  relations interleave them.

  Bounds and fuel.  No operation takes fuel from its caller.  \<open>show_nat\<close> prints a number with as much fuel
  as its value, which bounds its digits.  Recursions over JSON are structural.  Bounds that occur in
  theorems are the constants of \<open>config/constants.py\<close> and of the modules themselves, taken at the
  values of the source.

  Not modelled.  The solve itself (\<open>services/tasks/solver.py\<close> outside its publishing step), the
  single-node pipeline and the trackers drive retina-geolocator and retina-tracker, whose sources are
  not here.  The claiming of known aircraft and the analytics refresh score floating-point
  residuals of that geometry.  Routes outside those named are HTTP envelopes; sessions are
  fastapi-users and Cloudflare Access; archives, snapshots, the registry mirror, R2 and Parquet are I/O;
  the offline scripts are experiments.  The manifest lists each with its reason.
\<close>

end
